(* ===== verification/Vote_Prelude.thy ===== *)
theory Vote_Prelude
  imports Main "HOL-Library.Word" "HOL-Library.List_Lexorder" "HOL-Library.Sublist"
begin

text \<open>
  Shared vocabulary of the development: the machine types of the Go sources, the sentinel
  errors of \<^verbatim>\<open>src/x/vote/types/errors.go\<close>, the state-and-error monad in which keeper
  methods and message handlers are written, and the big-endian integer codecs of
  \<^verbatim>\<open>src/x/vote/types/keys.go\<close>.

  Conventions. A Go \<^verbatim>\<open>[]byte\<close> and a Go \<^verbatim>\<open>string\<close> (a read-only byte
  sequence) are both \<open>bytes\<close>; \<open>uint32\<close> and \<open>uint64\<close> are words, so additions wrap as
  they do in Go; an \<open>int\<close> that only counts elements is a \<open>nat\<close>.
  A Go method with receiver state and an \<open>error\<close> result is a value of type
  \<open>('s, 'a) M\<close>: it maps a state to a result (\<open>Inl\<close> the error) and the state it leaves
  behind. Writes made before an error stay in the returned state, exactly as they stay in
  the store object the Go code was given.
\<close>

section \<open>Collections of facts\<close>

named_theorems monad_simps \<open>computation rules of the state-and-error monad\<close>
named_theorems key_simps \<open>unfolding rules of the store-key constructors\<close>
named_theorems get_simps \<open>what a store lookup returns after an update\<close>

section \<open>Machine types\<close>

type_synonym u8 = "8 word"
type_synonym u32 = "32 word"
type_synonym u64 = "64 word"
type_synonym bytes = "8 word list"
type_synonym gostring = "8 word list"

text \<open>A Go string literal, as the bytes it stands for.\<close>

definition str :: "string \<Rightarrow> gostring" where
  "str s = map (\<lambda>c. word_of_nat (of_char c)) s"

section \<open>Sentinel errors\<close>

text \<open>
  One constructor per sentinel registered in \<^verbatim>\<open>errors.go\<close>. The text that
  \<^verbatim>\<open>fmt.Errorf("%w: ...")\<close> wraps around a sentinel is dropped: callers only ever
  test the sentinel. \<open>ErrOther\<close> stands for the errors that carry no sentinel and
  \<open>GoPanic\<close> for a run-time panic (index out of range).
\<close>

datatype verr =
    ErrDuplicateNullifier | ErrRoundNotFound | ErrRoundNotActive | ErrInvalidProof
  | ErrInvalidSignature | ErrInvalidAnchorHeight | ErrInvalidRoundID | ErrInvalidField
  | ErrRoundAlreadyExists | ErrCommitmentTreeFull | ErrRoundNotTallying | ErrInvalidProposalID
  | ErrTallyMismatch
  | ErrCeremonyWrongStatus | ErrDuplicateRegistration | ErrDuplicatePallasKey
  | ErrInvalidPallasPoint | ErrPayloadMismatch | ErrDuplicateAck | ErrDuplicateContribution
  | ErrNotRegisteredValidator | ErrCeremonySessionActive | ErrInvalidThreshold
  | ErrInsufficientValidators
  | ErrCeremonyInProgress | ErrNoPallasKey | ErrSameKey
  | ErrNotAuthorized | ErrNoVoteManagers | ErrEmptyVoteManagerSet | ErrDuplicateVoteManager
  | ErrUnauthorizedSend
  | ErrUpgradeUnavailable | ErrUpgradePlanExists
  | ErrInvalidEndorserID | ErrEndorserNotFound
  | ErrCoordinatorActionNotFound | ErrCoordinatorActionExpired | ErrCoordinatorAlreadyApproved
  | ErrUnsupportedCoordinatorAction | ErrInvalidCoordinatorAction
  | ErrInvalidRoundIDLen | ErrOther | GoPanic

type_synonym 'a res = "verr + 'a"

fun bindR :: "'a res \<Rightarrow> ('a \<Rightarrow> 'b res) \<Rightarrow> 'b res" where
  "bindR (Inl e) f = Inl e"
| "bindR (Inr a) f = f a"

definition failIfR :: "bool \<Rightarrow> verr \<Rightarrow> 'a res \<Rightarrow> 'a res" where
  "failIfR c e k = (if c then Inl e else k)"

lemma bindR_Inr_iff: "bindR m f = Inr b \<longleftrightarrow> (\<exists>a. m = Inr a \<and> f a = Inr b)"
  by (cases m) auto

lemma bindR_Inl_iff: "bindR m f = Inl e \<longleftrightarrow> m = Inl e \<or> (\<exists>a. m = Inr a \<and> f a = Inl e)"
  by (cases m) auto

lemma failIfR_Inr_iff [simp]: "failIfR c e k = Inr b \<longleftrightarrow> \<not> c \<and> k = Inr b"
  by (simp add: failIfR_def)

lemma failIfR_simps [simp]: "failIfR True e k = Inl e" "failIfR False e k = k"
  by (simp_all add: failIfR_def)

section \<open>The state-and-error monad\<close>

type_synonym ('s, 'a) M = "'s \<Rightarrow> 'a res \<times> 's"

definition returnM :: "'a \<Rightarrow> ('s, 'a) M" where
  [monad_simps]: "returnM a = (\<lambda>s. (Inr a, s))"

definition throwM :: "verr \<Rightarrow> ('s, 'a) M" where
  [monad_simps]: "throwM e = (\<lambda>s. (Inl e, s))"

definition bindM :: "('s, 'a) M \<Rightarrow> ('a \<Rightarrow> ('s, 'b) M) \<Rightarrow> ('s, 'b) M" where
  "bindM m f = (\<lambda>s. case m s of (Inl e, t) \<Rightarrow> (Inl e, t) | (Inr a, t) \<Rightarrow> f a t)"

definition thenM :: "('s, unit) M \<Rightarrow> ('s, 'b) M \<Rightarrow> ('s, 'b) M" where
  "thenM m k = bindM m (\<lambda>_. k)"

definition liftR :: "'a res \<Rightarrow> ('s, 'a) M" where
  [monad_simps]: "liftR r = (\<lambda>s. (r, s))"

definition getM :: "('s \<Rightarrow> 'a) \<Rightarrow> ('s, 'a) M" where
  [monad_simps]: "getM f = (\<lambda>s. (Inr (f s), s))"

definition modifyM :: "('s \<Rightarrow> 's) \<Rightarrow> ('s, unit) M" where
  [monad_simps]: "modifyM f = (\<lambda>s. (Inr (), f s))"

text \<open>\<^verbatim>\<open>if cond { return err }\<close> followed by the rest of the method.\<close>

definition failIf :: "bool \<Rightarrow> verr \<Rightarrow> ('s, 'a) M \<Rightarrow> ('s, 'a) M" where
  "failIf c e k = (if c then throwM e else k)"

text \<open>\<^verbatim>\<open>for _, x := range xs { if err := f(x); err != nil { return err } }\<close>\<close>

fun forM :: "'a list \<Rightarrow> ('a \<Rightarrow> ('s, unit) M) \<Rightarrow> ('s, unit) M" where
  "forM [] f = returnM ()"
| "forM (x # xs) f = thenM (f x) (forM xs f)"

text \<open>The same loop when each iteration appends one value to a result slice.\<close>

fun mapM :: "('a \<Rightarrow> ('s, 'b) M) \<Rightarrow> 'a list \<Rightarrow> ('s, 'b list) M" where
  "mapM f [] = returnM []"
| "mapM f (x # xs) = bindM (f x) (\<lambda>y. bindM (mapM f xs) (\<lambda>ys. returnM (y # ys)))"

lemma bindM_simps [monad_simps]:
  "m s = (Inr a, t) \<Longrightarrow> bindM m f s = f a t"
  "m s = (Inl e, t) \<Longrightarrow> bindM m f s = (Inl e, t)"
  by (simp_all add: bindM_def)

lemma thenM_simps [monad_simps]:
  "m s = (Inr (), t) \<Longrightarrow> thenM m k s = k t"
  "m s = (Inl e, t) \<Longrightarrow> thenM m k s = (Inl e, t)"
  by (simp_all add: thenM_def bindM_def)

lemma failIf_simps [monad_simps, simp]:
  "failIf True e k = throwM e" "failIf False e k = k"
  by (simp_all add: failIf_def)

lemma bindM_Inr_iff:
  "bindM m f s = (Inr b, s') \<longleftrightarrow> (\<exists>a t. m s = (Inr a, t) \<and> f a t = (Inr b, s'))"
  by (auto simp: bindM_def split: prod.splits sum.splits)

lemma bindM_Inl_iff:
  "bindM m f s = (Inl e, s') \<longleftrightarrow>
     m s = (Inl e, s') \<or> (\<exists>a t. m s = (Inr a, t) \<and> f a t = (Inl e, s'))"
  by (auto simp: bindM_def split: prod.splits sum.splits)

lemma thenM_Inr_iff:
  "thenM m k s = (Inr b, s') \<longleftrightarrow> (\<exists>t. m s = (Inr (), t) \<and> k t = (Inr b, s'))"
  by (auto simp: thenM_def bindM_Inr_iff)

lemma thenM_Inl_iff:
  "thenM m k s = (Inl e, s') \<longleftrightarrow>
     m s = (Inl e, s') \<or> (\<exists>t. m s = (Inr (), t) \<and> k t = (Inl e, s'))"
  by (auto simp: thenM_def bindM_Inl_iff)

lemma failIf_Inr_iff: "failIf c e k s = (Inr b, s') \<longleftrightarrow> \<not> c \<and> k s = (Inr b, s')"
  by (simp add: failIf_def throwM_def)

lemma failIf_Inl_iff:
  "failIf c e' k s = (Inl e, s') \<longleftrightarrow> (c \<and> e = e' \<and> s' = s) \<or> (\<not> c \<and> k s = (Inl e, s'))"
  by (auto simp: failIf_def throwM_def)

lemma returnM_Inr_iff: "returnM a s = (Inr b, s') \<longleftrightarrow> b = a \<and> s' = s"
  by (auto simp: returnM_def)

lemma throwM_Inr_iff: "throwM e s = (Inr b, s') \<longleftrightarrow> False"
  by (simp add: throwM_def)

lemma liftR_Inr_iff: "liftR r s = (Inr b, s') \<longleftrightarrow> r = Inr b \<and> s' = s"
  by (auto simp: liftR_def)

lemma getM_Inr_iff: "getM f s = (Inr b, s') \<longleftrightarrow> b = f s \<and> s' = s"
  by (auto simp: getM_def)

lemma modifyM_Inr_iff: "modifyM f s = (Inr b, s') \<longleftrightarrow> s' = f s"
  by (auto simp: modifyM_def)

text \<open>Inversion of a successful run: every guard was false and every call returned.\<close>

lemmas succ_iffs = bindM_Inr_iff thenM_Inr_iff failIf_Inr_iff returnM_Inr_iff throwM_Inr_iff
  liftR_Inr_iff getM_Inr_iff modifyM_Inr_iff

text \<open>An invariant kept by every iteration is kept by the loop.\<close>

lemma forM_invariant:
  assumes "forM xs f s = (r, s')" and "I s"
    and "\<And>x t r' t'. x \<in> set xs \<Longrightarrow> I t \<Longrightarrow> f x t = (r', t') \<Longrightarrow> I t'"
  shows "I s'"
  using assms
proof (induction xs arbitrary: s)
  case Nil
  then show ?case by (simp add: returnM_def)
next
  case (Cons x xs)
  obtain r1 t where f: "f x s = (r1, t)" by fastforce
  have It: "I t" using Cons.prems(3)[OF _ Cons.prems(2) f] by simp
  show ?case
  proof (cases r1)
    case (Inl e)
    with Cons.prems(1) f It show ?thesis by (simp add: monad_simps)
  next
    case (Inr u)
    with Cons.prems(1) f have "forM xs f t = (r, s')" by (simp add: thenM_def bindM_def)
    then show ?thesis using Cons.IH It Cons.prems(3) by (metis list.set_intros(2))
  qed
qed

lemma forM_pure_check:
  assumes "\<And>x s. x \<in> set xs \<Longrightarrow> snd (f x s) = s"
  shows "snd (forM xs f s) = s"
  using assms
proof (induction xs arbitrary: s)
  case Nil
  then show ?case by (simp add: returnM_def)
next
  case (Cons x xs)
  obtain r t where f: "f x s = (r, t)" by fastforce
  with Cons.prems[of x s] have "t = s" by simp
  with f show ?case using Cons.IH[of s] Cons.prems
    by (auto simp: thenM_def bindM_def split: sum.splits)
qed

section \<open>Words\<close>

lemma unat_word_of_nat_below:
  assumes "i \<le> unat (n :: 'a::len word)"
  shows "unat (word_of_nat i :: 'a word) = i"
proof -
  have "i < 2 ^ LENGTH('a)" using assms unsigned_less[of n] by (metis order_le_less_trans)
  then show ?thesis by (simp add: unat_of_nat)
qed

lemma unat_plus_one: "n + 1 \<noteq> 0 \<Longrightarrow> unat (n + 1) = Suc (unat n)"
  for n :: "'a::len word"
  using unatSuc[of n] by (simp add: add.commute)

section \<open>Big-endian integers\<close>

definition putUint64BE :: "u64 \<Rightarrow> bytes" where
  "putUint64BE v =
     [ucast (drop_bit 56 v), ucast (drop_bit 48 v), ucast (drop_bit 40 v), ucast (drop_bit 32 v),
      ucast (drop_bit 24 v), ucast (drop_bit 16 v), ucast (drop_bit 8 v), ucast v]"

definition putUint32BE :: "u32 \<Rightarrow> bytes" where
  "putUint32BE v =
     [ucast (drop_bit 24 v), ucast (drop_bit 16 v), ucast (drop_bit 8 v), ucast v]"

unbundle bit_operations_syntax

text \<open>Reading fewer bytes than the width is an index panic in Go: \<open>None\<close>.\<close>

fun getUint64BE :: "bytes \<Rightarrow> u64 option" where
  "getUint64BE (b0 # b1 # b2 # b3 # b4 # b5 # b6 # b7 # _) = Some
     (push_bit 56 (ucast b0) OR push_bit 48 (ucast b1) OR push_bit 40 (ucast b2) OR
      push_bit 32 (ucast b3) OR push_bit 24 (ucast b4) OR push_bit 16 (ucast b5) OR
      push_bit 8 (ucast b6) OR ucast b7)"
| "getUint64BE _ = None"

fun getUint32BE :: "bytes \<Rightarrow> u32 option" where
  "getUint32BE (b0 # b1 # b2 # b3 # _) = Some
     (push_bit 24 (ucast b0) OR push_bit 16 (ucast b1) OR push_bit 8 (ucast b2) OR ucast b3)"
| "getUint32BE _ = None"

lemma length_putUint64BE [simp]: "length (putUint64BE v) = 8"
  by (simp add: putUint64BE_def)

lemma length_putUint32BE [simp]: "length (putUint32BE v) = 4"
  by (simp add: putUint32BE_def)

lemma bit_push_byte:
  fixes v :: "'a::len word"
  shows "bit (push_bit k (ucast (ucast (drop_bit k v) :: u8)) :: 'a word) n \<longleftrightarrow>
    k \<le> n \<and> n < k + 8 \<and> bit v n"
proof (cases "k \<le> n")
  case True
  then have "k + (n - k) = n" by simp
  then show ?thesis using True
    by (auto simp: bit_simps dest: bit_imp_le_length)
next
  case False
  then show ?thesis by (simp add: bit_simps)
qed

lemma bit_low_byte:
  fixes v :: "'a::len word"
  shows "bit (ucast (ucast v :: u8) :: 'a word) n \<longleftrightarrow> n < 8 \<and> bit v n"
  using bit_push_byte[of 0 v n] by simp

lemma getUint64BE_putUint64BE [simp]: "getUint64BE (putUint64BE v @ xs) = Some v"
  by (simp add: putUint64BE_def bit_eq_iff bit_or_iff bit_push_byte bit_low_byte) linarith

lemma getUint32BE_putUint32BE [simp]: "getUint32BE (putUint32BE v @ xs) = Some v"
  by (simp add: putUint32BE_def bit_eq_iff bit_or_iff bit_push_byte bit_low_byte) linarith

lemma getUint64BE_putUint64BE' [simp]: "getUint64BE (putUint64BE v) = Some v"
  using getUint64BE_putUint64BE[of v "[]"] by simp

lemma getUint32BE_putUint32BE' [simp]: "getUint32BE (putUint32BE v) = Some v"
  using getUint32BE_putUint32BE[of v "[]"] by simp

lemma putUint64BE_inject [simp]: "putUint64BE u = putUint64BE v \<longleftrightarrow> u = v"
  by (metis getUint64BE_putUint64BE' option.inject)

lemma putUint32BE_inject [simp]: "putUint32BE u = putUint32BE v \<longleftrightarrow> u = v"
  by (metis getUint32BE_putUint32BE' option.inject)

text \<open>Every four bytes are the encoding of the integer they decode to.\<close>

lemma putUint32BE_getUint32BE:
  assumes "length b = 4" and "getUint32BE b = Some v"
  shows "putUint32BE v = b"
proof -
  obtain b0 b1 b2 b3 where b: "b = [b0, b1, b2, b3]"
    using assms(1) by (auto simp: length_Suc_conv numeral_eq_Suc)
  have v: "v = push_bit 24 (ucast b0) OR push_bit 16 (ucast b1) OR push_bit 8 (ucast b2) OR ucast b3"
    using assms(2) b by simp
  have "ucast (drop_bit 24 v) = b0" "ucast (drop_bit 16 v) = b1" "ucast (drop_bit 8 v) = b2"
    "ucast v = b3"
    unfolding v by (auto simp: bit_eq_iff bit_simps dest: bit_imp_le_length)
  then show ?thesis by (simp add: putUint32BE_def b)
qed

lemma getUint32BE_Some: "4 \<le> length b \<Longrightarrow> \<exists>v. getUint32BE b = Some v"
  by (cases b rule: getUint32BE.cases) auto

lemma getUint32BE_take: "getUint32BE b = Some v \<Longrightarrow> getUint32BE (take 4 b) = Some v"
  by (cases b rule: getUint32BE.cases) auto

lemma four_bytes_decode: "length b = 4 \<Longrightarrow> \<exists>v. getUint32BE b = Some v \<and> b = putUint32BE v"
  using getUint32BE_Some[of b] putUint32BE_getUint32BE[of b] by fastforce

end
