(* ===== verification/KV_Store.thy ===== *)
theory KV_Store
  imports Vote_Prelude
begin

text \<open>
  The key-value store every keeper method works on: the \<^verbatim>\<open>store.KVStore\<close> interface as
  the repository's own implementation \<^verbatim>\<open>src/ffi/votetree/mem_kv.go\<close> provides it (lookup,
  insertion, deletion and iteration over a half-open key range in ascending byte order), and
  \<^verbatim>\<open>PrefixEndBytes\<close> of \<^verbatim>\<open>src/x/vote/types/keys.go\<close>, which turns a key prefix into the
  end of such a range. The locale \<open>kv_store\<close> is the interface; its lemmas are what the
  keepers rely on: lookups after updates, and prefix scans that return exactly the stored
  entries under the prefix, once each, in key order.
\<close>

section \<open>The store\<close>

text \<open>
  A store is its list of entries in ascending key order. Values keep their Go type: what the
  code marshals with protobuf before \<^verbatim>\<open>Set\<close> and unmarshals after \<^verbatim>\<open>Get\<close> is stored as
  the typed message itself.
\<close>

type_synonym 'v kv = "(bytes \<times> 'v) list"

definition kv_get :: "'v kv \<Rightarrow> bytes \<Rightarrow> 'v option" where
  "kv_get s k = map_of s k"

definition kv_has :: "'v kv \<Rightarrow> bytes \<Rightarrow> bool" where
  "kv_has s k = (map_of s k \<noteq> None)"

fun kv_set :: "bytes \<Rightarrow> 'v \<Rightarrow> 'v kv \<Rightarrow> 'v kv" where
  "kv_set k v [] = [(k, v)]"
| "kv_set k v ((k', v') # s) =
     (if k < k' then (k, v) # (k', v') # s
      else if k = k' then (k, v) # s
      else (k', v') # kv_set k v s)"

definition kv_delete :: "bytes \<Rightarrow> 'v kv \<Rightarrow> 'v kv" where
  "kv_delete k s = filter (\<lambda>e. fst e \<noteq> k) s"

text \<open>A \<open>nil\<close> end means unbounded, as in \<^verbatim>\<open>sortedKeys\<close>.\<close>

fun before_end :: "bytes option \<Rightarrow> bytes \<Rightarrow> bool" where
  "before_end None k = True"
| "before_end (Some e) k = (k < e)"

definition kv_iterator :: "bytes \<Rightarrow> bytes option \<Rightarrow> 'v kv \<Rightarrow> (bytes \<times> 'v) list" where
  "kv_iterator a b s = filter (\<lambda>e. a \<le> fst e \<and> before_end b (fst e)) s"

text \<open>Keys are strictly ascending.\<close>

definition kv_ok :: "'v kv \<Rightarrow> bool" where
  "kv_ok s = sorted_wrt (<) (map fst s)"

section \<open>Prefix ends\<close>

text \<open>The loop of \<^verbatim>\<open>PrefixEndBytes\<close>, from the last byte down: the list is reversed.\<close>

fun prefixEndLoop :: "bytes \<Rightarrow> bytes option" where
  "prefixEndLoop [] = None"
| "prefixEndLoop (b # bs) = (if b + 1 \<noteq> 0 then Some (rev ((b + 1) # bs)) else prefixEndLoop bs)"

definition PrefixEndBytes :: "bytes \<Rightarrow> bytes option" where
  "PrefixEndBytes p = prefixEndLoop (rev p)"

lemma prefixEndLoop_snoc:
  "prefixEndLoop (xs @ [b]) =
     (case prefixEndLoop xs of Some e \<Rightarrow> Some (b # e)
      | None \<Rightarrow> if b + 1 \<noteq> 0 then Some [b + 1] else None)"
  by (induction xs) auto

lemma PrefixEndBytes_Cons:
  "PrefixEndBytes (b # bs) =
     (case PrefixEndBytes bs of Some e \<Rightarrow> Some (b # e)
      | None \<Rightarrow> if b + 1 \<noteq> 0 then Some [b + 1] else None)"
  by (simp add: PrefixEndBytes_def prefixEndLoop_snoc)

lemma PrefixEndBytes_Nil [simp]: "PrefixEndBytes [] = None"
  by (simp add: PrefixEndBytes_def)

lemma byte_less_succ: "b + 1 \<noteq> 0 \<Longrightarrow> c < b + 1 \<longleftrightarrow> c \<le> b" for b c :: u8
  by unat_arith

lemma byte_top: "b + 1 = 0 \<Longrightarrow> \<not> b < c" for b c :: u8
  by unat_arith

lemma prefix_range_iff: "p \<le> k \<and> before_end (PrefixEndBytes p) k \<longleftrightarrow> prefix p k"
proof (induction p arbitrary: k)
  case Nil
  then show ?case by simp
next
  case (Cons b bs)
  show ?case
  proof (cases k)
    case Nil
    then show ?thesis by simp
  next
    case k: (Cons c cs)
    note IH = Cons.IH[of cs]
    show ?thesis
    proof (cases "PrefixEndBytes bs")
      case None
      with IH k show ?thesis
        by (cases "b + 1 = 0") (auto simp: PrefixEndBytes_Cons byte_less_succ dest: byte_top)
    next
      case (Some e)
      with IH k show ?thesis by (auto simp: PrefixEndBytes_Cons)
    qed
  qed
qed

section \<open>The store interface\<close>

text \<open>Two strictly ascending lists with the same entries are the same list.\<close>

lemma strict_sorted_entries_unique:
  fixes xs ys :: "(bytes \<times> 'v) list"
  assumes "sorted_wrt (<) (map fst xs)" and "sorted_wrt (<) (map fst ys)" and "set xs = set ys"
  shows "xs = ys"
  using assms
proof (induction xs arbitrary: ys)
  case Nil
  then show ?case by simp
next
  case (Cons x xs)
  then obtain y ys' where ys: "ys = y # ys'" by (cases ys) auto
  have lx: "\<forall>e \<in> set xs. fst x < fst e" and ly: "\<forall>e \<in> set ys'. fst y < fst e"
    using Cons.prems ys by auto
  have "x \<in> set (y # ys')" "y \<in> set (x # xs)" using Cons.prems(3) ys by auto
  then have xy: "x = y" using lx ly by (auto dest: less_asym)
  have "set xs = set ys'"
    using Cons.prems(3) ys xy lx ly by auto
  then show ?case using Cons ys xy by auto
qed

locale kv_store =
  fixes invar :: "'s \<Rightarrow> bool"
    and get :: "'s \<Rightarrow> bytes \<Rightarrow> 'v option"
    and upd :: "bytes \<Rightarrow> 'v \<Rightarrow> 's \<Rightarrow> 's"
    and del :: "bytes \<Rightarrow> 's \<Rightarrow> 's"
    and iter :: "bytes \<Rightarrow> bytes option \<Rightarrow> 's \<Rightarrow> (bytes \<times> 'v) list"
  assumes get_upd: "get (upd k v s) = (get s)(k \<mapsto> v)"
    and get_del: "get (del k s) = (get s)(k := None)"
    and invar_upd: "invar s \<Longrightarrow> invar (upd k v s)"
    and invar_del: "invar s \<Longrightarrow> invar (del k s)"
    and iter_set: "invar s \<Longrightarrow>
      set (iter a e s) = {(k, v). get s k = Some v \<and> a \<le> k \<and> before_end e k}"
    and iter_sorted: "invar s \<Longrightarrow> sorted_wrt (<) (map fst (iter a e s))"
begin

definition scan :: "bytes \<Rightarrow> 's \<Rightarrow> (bytes \<times> 'v) list" where
  "scan p s = iter p (PrefixEndBytes p) s"

lemma scan_iff: "invar s \<Longrightarrow> (k, v) \<in> set (scan p s) \<longleftrightarrow> get s k = Some v \<and> prefix p k"
  using prefix_range_iff[of p k] by (auto simp: scan_def iter_set)

lemma scan_sorted: "invar s \<Longrightarrow> sorted_wrt (<) (map fst (scan p s))"
  by (simp add: scan_def iter_sorted)

lemma scan_distinct: "invar s \<Longrightarrow> distinct (map fst (scan p s))"
  using scan_sorted strict_sorted_iff by blast

lemma scan_cong:
  assumes "invar s" and "invar t" and "\<And>k. prefix p k \<Longrightarrow> get s k = get t k"
  shows "scan p s = scan p t"
proof (rule strict_sorted_entries_unique)
  show "set (scan p s) = set (scan p t)"
    using assms by (auto simp: scan_iff)
qed (use assms in \<open>simp_all add: scan_sorted\<close>)

lemma scan_upd_other: "invar s \<Longrightarrow> \<not> prefix p k \<Longrightarrow> scan p (upd k v s) = scan p s"
  by (rule scan_cong) (auto simp: invar_upd get_upd)

lemma scan_del_other: "invar s \<Longrightarrow> \<not> prefix p k \<Longrightarrow> scan p (del k s) = scan p s"
  by (rule scan_cong) (auto simp: invar_del get_del)

lemma scan_empty_iff:
  assumes "invar s"
  shows "scan p s = [] \<longleftrightarrow> (\<forall>k. prefix p k \<longrightarrow> get s k = None)"
proof -
  have "scan p s = [] \<longleftrightarrow> (\<forall>k v. (k, v) \<notin> set (scan p s))"
    by (cases "scan p s") auto
  then show ?thesis using assms by (auto simp: scan_iff)
qed

end

section \<open>The sorted-list store implements the interface\<close>

lemma kv_get_kv_set [get_simps]: "kv_get (kv_set k v s) = (kv_get s)(k \<mapsto> v)"
  by (induction s) (auto simp: kv_get_def fun_eq_iff)

lemma kv_get_kv_delete [get_simps]: "kv_get (kv_delete k s) = (kv_get s)(k := None)"
  by (induction s) (auto simp: kv_get_def kv_delete_def fun_eq_iff)

lemma kv_has_iff: "kv_has s k \<longleftrightarrow> kv_get s k \<noteq> None"
  by (simp add: kv_has_def kv_get_def)

lemma kv_get_Nil [simp]: "kv_get [] k = None"
  by (simp add: kv_get_def)

lemma keys_kv_set: "fst ` set (kv_set k v s) = insert k (fst ` set s)"
  by (induction k v s rule: kv_set.induct) auto

lemma kv_ok_kv_set: "kv_ok s \<Longrightarrow> kv_ok (kv_set k v s)"
proof (induction k v s rule: kv_set.induct)
  case (2 k v k' v' s)
  show ?case
  proof (cases "k < k' \<or> k = k'")
    case True
    with 2 show ?thesis by (auto simp: kv_ok_def dest: less_trans)
  next
    case False
    then have "k' < k" by auto
    moreover have "kv_ok (kv_set k v s)" using 2 False by (auto simp: kv_ok_def)
    ultimately show ?thesis using 2 False keys_kv_set[of k v s]
      by (auto simp: kv_ok_def simp flip: image_set)
  qed
qed (simp add: kv_ok_def)

lemma kv_ok_kv_delete: "kv_ok s \<Longrightarrow> kv_ok (kv_delete k s)"
  unfolding kv_ok_def kv_delete_def by (induction s) auto

lemma kv_ok_Nil [simp]: "kv_ok []"
  by (simp add: kv_ok_def)

lemma kv_ok_mem_iff: "kv_ok s \<Longrightarrow> (k, v) \<in> set s \<longleftrightarrow> kv_get s k = Some v"
proof -
  assume "kv_ok s"
  then have "distinct (map fst s)"
    unfolding kv_ok_def using strict_sorted_iff by blast
  then show ?thesis by (simp add: kv_get_def)
qed

interpretation store: kv_store kv_ok kv_get kv_set kv_delete kv_iterator
proof unfold_locales
  fix a e and s :: "'v kv"
  assume ok: "kv_ok s"
  show "set (kv_iterator a e s) = {(k, v). kv_get s k = Some v \<and> a \<le> k \<and> before_end e k}"
    using ok by (auto simp: kv_iterator_def kv_ok_mem_iff)
  show "sorted_wrt (<) (map fst (kv_iterator a e s))"
    using ok unfolding kv_ok_def kv_iterator_def by (induction s) auto
qed (auto simp: get_simps kv_ok_kv_set kv_ok_kv_delete)

text \<open>A scan of all entries under a prefix, as the keepers write it.\<close>

definition kv_scan :: "bytes \<Rightarrow> 'v kv \<Rightarrow> (bytes \<times> 'v) list" where
  "kv_scan p s = kv_iterator p (PrefixEndBytes p) s"

lemma kv_scan_eq: "kv_scan p s = store.scan p s"
  by (simp add: kv_scan_def store.scan_def)

lemmas kv_scan_iff = store.scan_iff [folded kv_scan_eq]
  and kv_scan_sorted = store.scan_sorted [folded kv_scan_eq]
  and kv_scan_distinct = store.scan_distinct [folded kv_scan_eq]
  and kv_scan_cong = store.scan_cong [folded kv_scan_eq]
  and kv_scan_set_other = store.scan_upd_other [folded kv_scan_eq]
  and kv_scan_delete_other = store.scan_del_other [folded kv_scan_eq]
  and kv_scan_empty_iff = store.scan_empty_iff [folded kv_scan_eq]

section \<open>Store access in the monad\<close>

definition kvGet :: "bytes \<Rightarrow> ('v kv, 'v option) M" where
  [monad_simps]: "kvGet k = getM (\<lambda>s. kv_get s k)"

definition kvHas :: "bytes \<Rightarrow> ('v kv, bool) M" where
  [monad_simps]: "kvHas k = getM (\<lambda>s. kv_has s k)"

definition kvSet :: "bytes \<Rightarrow> 'v \<Rightarrow> ('v kv, unit) M" where
  [monad_simps]: "kvSet k v = modifyM (kv_set k v)"

definition kvDelete :: "bytes \<Rightarrow> ('v kv, unit) M" where
  [monad_simps]: "kvDelete k = modifyM (kv_delete k)"

definition kvScan :: "bytes \<Rightarrow> ('v kv, (bytes \<times> 'v) list) M" where
  [monad_simps]: "kvScan p = getM (kv_scan p)"

section \<open>Prefix scans\<close>

text \<open>
  Iterating a store from a prefix to \<^verbatim>\<open>PrefixEndBytes\<close> of the prefix returns exactly
  the stored entries whose key starts with the prefix, and returns them with strictly
  ascending keys, so each of them once.
\<close>

lemma prefix_scan_exact:
  assumes "kv_ok s"
  shows "set (kv_iterator p (PrefixEndBytes p) s) = {(k, v). kv_get s k = Some v \<and> prefix p k}
    \<and> sorted_wrt (<) (map fst (kv_iterator p (PrefixEndBytes p) s))"
  using kv_scan_iff[OF assms, of _ _ p] kv_scan_sorted[OF assms, of p]
  by (auto simp: kv_scan_def)

end
