(* ===== verification/Vote_Keys.thy ===== *)
theory Vote_Keys
  imports KV_Store
begin

text \<open>
  The store-key constructors of \<^verbatim>\<open>src/x/vote/types/keys.go\<close>, byte for byte, with the
  validation they perform, and the constants declared beside them. The locale \<open>keyspace\<close>
  is what the keepers rely on for one family of keys: every key starts with the family's
  tag byte and determines its components. Each family interprets it, so entries of
  different families, and entries of one family with different components, never share a
  key.
\<close>

section \<open>Constants\<close>

definition DefaultContributionTimeout :: u64 where "DefaultContributionTimeout = 600"
definition DefaultDealTimeout :: u64 where "DefaultDealTimeout = 600"
definition DefaultTallyTimeout :: u64 where "DefaultTallyTimeout = 21600"
definition TallyBSGSBound :: u64 where "TallyBSGSBound = push_bit 28 1"
definition RoundIDLen :: nat where "RoundIDLen = 32"
definition MinProposalID :: u32 where "MinProposalID = 1"
definition MaxProposals :: nat where "MaxProposals = 50"
definition MinVoteOptions :: nat where "MinVoteOptions = 2"
definition MaxVoteOptions :: nat where "MaxVoteOptions = 8"
definition MaxProofSize :: nat where "MaxProofSize = 15 * 1024"
definition MaxCommitmentLeavesPerResponse :: u64 where "MaxCommitmentLeavesPerResponse = 5000"
definition MaxEndorserIDLen :: nat where "MaxEndorserIDLen = 64"

datatype NullifierType = NullifierTypeGov | NullifierTypeVoteAuthorityNote | NullifierTypeShare

fun nullifierTypeByte :: "NullifierType \<Rightarrow> u8" where
  "nullifierTypeByte NullifierTypeGov = 0x00"
| "nullifierTypeByte NullifierTypeVoteAuthorityNote = 0x01"
| "nullifierTypeByte NullifierTypeShare = 0x02"

section \<open>Identifier validation\<close>

definition ValidateRoundID :: "bytes \<Rightarrow> unit res" where
  "ValidateRoundID r = failIfR (length r \<noteq> RoundIDLen) ErrInvalidRoundIDLen (Inr ())"

text \<open>Lower-case letters, digits and the hyphen.\<close>

definition endorserIDByte :: "u8 \<Rightarrow> bool" where
  "endorserIDByte c \<longleftrightarrow> (0x61 \<le> c \<and> c \<le> 0x7A) \<or> (0x30 \<le> c \<and> c \<le> 0x39) \<or> c = 0x2D"

definition ValidateEndorserID :: "gostring \<Rightarrow> unit res" where
  "ValidateEndorserID x =
     failIfR (length x = 0) ErrInvalidEndorserID (
     failIfR (length x > MaxEndorserIDLen) ErrInvalidEndorserID (
     failIfR (\<not> list_all endorserIDByte x) ErrInvalidEndorserID (
     Inr ())))"

section \<open>Keys scoped to a round's commitment tree\<close>

definition RoundTreeKey :: "bytes \<Rightarrow> bytes" where
  [key_simps]: "RoundTreeKey r = 0x14 # r"

definition CommitmentLeafKey :: "bytes \<Rightarrow> u64 \<Rightarrow> bytes" where
  [key_simps]: "CommitmentLeafKey r index = RoundTreeKey r @ [0x02] @ putUint64BE index"

definition CommitmentLeafPrefixForRound :: "bytes \<Rightarrow> bytes" where
  [key_simps]: "CommitmentLeafPrefixForRound r = RoundTreeKey r @ [0x02]"

definition CommitmentRootKey :: "bytes \<Rightarrow> u64 \<Rightarrow> bytes" where
  [key_simps]: "CommitmentRootKey r height = RoundTreeKey r @ [0x03] @ putUint64BE height"

definition CommitmentRootPrefixForRound :: "bytes \<Rightarrow> bytes" where
  [key_simps]: "CommitmentRootPrefixForRound r = RoundTreeKey r @ [0x03]"

definition RoundTreeStateKey :: "bytes \<Rightarrow> bytes" where
  [key_simps]: "RoundTreeStateKey r = RoundTreeKey r @ [0x06]"

definition BlockLeafIndexKey :: "bytes \<Rightarrow> u64 \<Rightarrow> bytes" where
  [key_simps]: "BlockLeafIndexKey r height = RoundTreeKey r @ [0x08] @ putUint64BE height"

definition BlockLeafIndexPrefixForRound :: "bytes \<Rightarrow> bytes" where
  [key_simps]: "BlockLeafIndexPrefixForRound r = RoundTreeKey r @ [0x08]"

section \<open>Singleton keys\<close>

definition VoteManagerSetKey :: bytes where [key_simps]: "VoteManagerSetKey = [0x0A]"
definition CeremonyStateKey :: bytes where [key_simps]: "CeremonyStateKey = [0x0E]"
definition MinCeremonyValidatorsKey :: bytes where [key_simps]: "MinCeremonyValidatorsKey = [0x13]"
definition NextCoordinatorActionIDKey :: bytes where
  [key_simps]: "NextCoordinatorActionIDKey = [0x19]"

definition VoteRoundPrefix :: bytes where [key_simps]: "VoteRoundPrefix = [0x04]"
definition PallasKeyPrefix :: bytes where [key_simps]: "PallasKeyPrefix = [0x0C]"
definition EndorserAddressPrefix :: bytes where [key_simps]: "EndorserAddressPrefix = [0x16]"
definition CoordinatorActionPrefix :: bytes where [key_simps]: "CoordinatorActionPrefix = [0x18]"

section \<open>Keys of the module's tables\<close>

definition CoordinatorActionKey :: "u64 \<Rightarrow> bytes" where
  [key_simps]: "CoordinatorActionKey actionID = CoordinatorActionPrefix @ putUint64BE actionID"

definition NullifierKey :: "NullifierType \<Rightarrow> bytes \<Rightarrow> bytes \<Rightarrow> bytes res" where
  [key_simps]: "NullifierKey nfType r nullifier =
     bindR (ValidateRoundID r) (\<lambda>_. Inr ([0x01] @ [nullifierTypeByte nfType] @ r @ nullifier))"

definition NullifierPrefixForRound :: "NullifierType \<Rightarrow> bytes \<Rightarrow> bytes res" where
  [key_simps]: "NullifierPrefixForRound nfType r =
     bindR (ValidateRoundID r) (\<lambda>_. Inr ([0x01] @ [nullifierTypeByte nfType] @ r))"

definition VoteRoundKey :: "bytes \<Rightarrow> bytes res" where
  [key_simps]: "VoteRoundKey r = bindR (ValidateRoundID r) (\<lambda>_. Inr (VoteRoundPrefix @ r))"

definition TallyKey :: "bytes \<Rightarrow> u32 \<Rightarrow> u32 \<Rightarrow> bytes res" where
  [key_simps]: "TallyKey r proposalID decision =
     bindR (ValidateRoundID r)
       (\<lambda>_. Inr ([0x05] @ r @ putUint32BE proposalID @ putUint32BE decision))"

definition TallyPrefixForProposal :: "bytes \<Rightarrow> u32 \<Rightarrow> bytes res" where
  [key_simps]: "TallyPrefixForProposal r proposalID =
     bindR (ValidateRoundID r) (\<lambda>_. Inr ([0x05] @ r @ putUint32BE proposalID))"

definition TallyResultKey :: "bytes \<Rightarrow> u32 \<Rightarrow> u32 \<Rightarrow> bytes res" where
  [key_simps]: "TallyResultKey r proposalID decision =
     bindR (ValidateRoundID r)
       (\<lambda>_. Inr ([0x07] @ r @ putUint32BE proposalID @ putUint32BE decision))"

definition TallyResultPrefixForRound :: "bytes \<Rightarrow> bytes res" where
  [key_simps]: "TallyResultPrefixForRound r = bindR (ValidateRoundID r) (\<lambda>_. Inr ([0x07] @ r))"

definition ShareCountKey :: "bytes \<Rightarrow> u32 \<Rightarrow> u32 \<Rightarrow> bytes res" where
  [key_simps]: "ShareCountKey r proposalID decision =
     bindR (ValidateRoundID r)
       (\<lambda>_. Inr ([0x0B] @ r @ putUint32BE proposalID @ putUint32BE decision))"

definition PartialDecryptionKey :: "bytes \<Rightarrow> u32 \<Rightarrow> u32 \<Rightarrow> u32 \<Rightarrow> bytes res" where
  [key_simps]: "PartialDecryptionKey r validatorIndex proposalID decision =
     bindR (ValidateRoundID r)
       (\<lambda>_. Inr ([0x12] @ r @ putUint32BE validatorIndex @ putUint32BE proposalID
                 @ putUint32BE decision))"

definition PartialDecryptionPrefixForRound :: "bytes \<Rightarrow> bytes res" where
  [key_simps]: "PartialDecryptionPrefixForRound r =
     bindR (ValidateRoundID r) (\<lambda>_. Inr ([0x12] @ r))"

definition PartialDecryptionPrefixForValidator :: "bytes \<Rightarrow> u32 \<Rightarrow> bytes res" where
  [key_simps]: "PartialDecryptionPrefixForValidator r validatorIndex =
     bindR (ValidateRoundID r) (\<lambda>_. Inr ([0x12] @ r @ putUint32BE validatorIndex))"

definition PallasKeyKey :: "gostring \<Rightarrow> bytes" where
  [key_simps]: "PallasKeyKey valoperAddr = PallasKeyPrefix @ valoperAddr"

definition PallasKeyReverseLookupKey :: "bytes \<Rightarrow> bytes" where
  [key_simps]: "PallasKeyReverseLookupKey pk = [0x15] @ pk"

definition EndorserAddressKey :: "gostring \<Rightarrow> bytes res" where
  [key_simps]: "EndorserAddressKey x =
     bindR (ValidateEndorserID x) (\<lambda>_. Inr (EndorserAddressPrefix @ x))"

definition EndorsedRoundKey :: "gostring \<Rightarrow> bytes \<Rightarrow> bytes res" where
  [key_simps]: "EndorsedRoundKey x r =
     bindR (ValidateEndorserID x) (\<lambda>_.
     bindR (ValidateRoundID r) (\<lambda>_. Inr ([0x17] @ x @ [0x00] @ r)))"

definition EndorsedRoundPrefixForID :: "gostring \<Rightarrow> bytes res" where
  [key_simps]: "EndorsedRoundPrefixForID x =
     bindR (ValidateEndorserID x) (\<lambda>_. Inr ([0x17] @ x @ [0x00]))"

definition ShardKey :: "u64 \<Rightarrow> bytes" where
  [key_simps]: "ShardKey index = [0x0F] @ putUint64BE index"

definition ShardIndexFromKey :: "bytes \<Rightarrow> u64 option" where
  "ShardIndexFromKey key = getUint64BE (drop 1 key)"

definition ShardCheckpointKey :: "u32 \<Rightarrow> bytes" where
  [key_simps]: "ShardCheckpointKey x = [0x11] @ putUint32BE x"

definition ShardCheckpointIDFromKey :: "bytes \<Rightarrow> u32 option" where
  "ShardCheckpointIDFromKey key = getUint32BE (drop 1 key)"

lemma ValidateRoundID_Inr [simp]: "ValidateRoundID r = Inr u \<longleftrightarrow> length r = 32"
  by (auto simp: ValidateRoundID_def RoundIDLen_def)

lemma ValidateRoundID_ok: "length r = 32 \<Longrightarrow> ValidateRoundID r = Inr ()"
  by simp

lemma ValidateRoundID_bad: "length r \<noteq> 32 \<Longrightarrow> ValidateRoundID r = Inl ErrInvalidRoundIDLen"
  by (simp add: ValidateRoundID_def RoundIDLen_def)

lemma ValidateEndorserID_Inr:
  "ValidateEndorserID x = Inr u \<longleftrightarrow> x \<noteq> [] \<and> length x \<le> 64 \<and> list_all endorserIDByte x"
  by (auto simp: ValidateEndorserID_def MaxEndorserIDLen_def)

section \<open>Key families\<close>

text \<open>
  A family of keys: a constructor that may refuse its arguments, and the tag byte that
  starts each of its keys. \<open>lookup_after_set\<close> and \<open>frame_other_tag\<close> are the two facts
  the keepers use.
\<close>

locale keyspace =
  fixes key :: "'k \<Rightarrow> bytes res" and tag :: u8
  assumes tagged: "key x = Inr b \<Longrightarrow> \<exists>c. b = tag # c"
    and key_inject: "key x = Inr b \<Longrightarrow> key y = Inr b \<Longrightarrow> x = y"
begin

lemma key_eq_iff: "key x = Inr b \<Longrightarrow> key y = Inr c \<Longrightarrow> b = c \<longleftrightarrow> x = y"
  using key_inject by fastforce

lemma lookup_after_set:
  "key x = Inr b \<Longrightarrow> key y = Inr c \<Longrightarrow>
     kv_get (kv_set b v s) c = (if x = y then Some v else kv_get s c)"
  using key_eq_iff[of x b y c] by (auto simp: get_simps)

lemma lookup_after_delete:
  "key x = Inr b \<Longrightarrow> key y = Inr c \<Longrightarrow>
     kv_get (kv_delete b s) c = (if x = y then None else kv_get s c)"
  using key_eq_iff[of x b y c] by (auto simp: get_simps)

lemma frame_other_tag:
  "key x = Inr b \<Longrightarrow> hd c \<noteq> tag \<Longrightarrow> kv_get (kv_set b v s) c = kv_get s c"
  using tagged[of x b] by (auto simp: get_simps)

lemma scan_frame_other_tag:
  "key x = Inr b \<Longrightarrow> kv_ok s \<Longrightarrow> p \<noteq> [] \<Longrightarrow> hd p \<noteq> tag \<Longrightarrow>
     kv_scan p (kv_set b v s) = kv_scan p s"
  using tagged[of x b] by (cases p) (auto intro!: kv_scan_set_other)

end

lemma append_eq_same_length: "length a = length c \<Longrightarrow> a @ b = c @ d \<longleftrightarrow> a = c \<and> b = d"
  by (simp add: append_eq_append_conv)

lemma nullifierTypeByte_inject [simp]: "nullifierTypeByte a = nullifierTypeByte b \<longleftrightarrow> a = b"
  by (cases a; cases b) simp_all

lemma no_zero_in_endorser_id: "list_all endorserIDByte x \<Longrightarrow> 0 \<notin> set x"
  by (auto simp: list_all_iff endorserIDByte_def)

lemma split_at_zero:
  "0 \<notin> set x \<Longrightarrow> 0 \<notin> set y \<Longrightarrow> x @ 0 # a = y @ 0 # b \<longleftrightarrow> x = y \<and> a = b"
  for x y :: "'a::zero list"
proof (induction x arbitrary: y)
  case Nil
  then show ?case by (cases y) auto
next
  case (Cons c x)
  then show ?case by (cases y) auto
qed

text \<open>Keys built from a round id, fixed-width integers and at most one free tail.\<close>

lemmas key_codec_simps = key_simps bindR_Inr_iff append_eq_same_length

interpretation nullifier: keyspace "\<lambda>(t, r, n). NullifierKey t r n" "0x01"
  by unfold_locales (auto simp: key_codec_simps)

interpretation round: keyspace VoteRoundKey "0x04"
  by unfold_locales (auto simp: key_codec_simps)

interpretation tally: keyspace "\<lambda>(r, p, d). TallyKey r p d" "0x05"
  by unfold_locales (auto simp: key_codec_simps)

interpretation tallyResult: keyspace "\<lambda>(r, p, d). TallyResultKey r p d" "0x07"
  by unfold_locales (auto simp: key_codec_simps)

interpretation shareCount: keyspace "\<lambda>(r, p, d). ShareCountKey r p d" "0x0B"
  by unfold_locales (auto simp: key_codec_simps)

interpretation pallasKey: keyspace "\<lambda>a. Inr (PallasKeyKey a)" "0x0C"
  by unfold_locales (auto simp: key_codec_simps)

interpretation pallasReverse: keyspace "\<lambda>pk. Inr (PallasKeyReverseLookupKey pk)" "0x15"
  by unfold_locales (auto simp: key_codec_simps)

interpretation partial: keyspace "\<lambda>(r, i, p, d). PartialDecryptionKey r i p d" "0x12"
  by unfold_locales (auto simp: key_codec_simps)

interpretation action: keyspace "\<lambda>n. Inr (CoordinatorActionKey n)" "0x18"
  by unfold_locales (auto simp: key_codec_simps)

interpretation endorser: keyspace EndorserAddressKey "0x16"
  by unfold_locales (auto simp: key_codec_simps)

interpretation endorsedRound: keyspace "\<lambda>(x, r). EndorsedRoundKey x r" "0x17"
  by unfold_locales
    (auto simp: key_codec_simps ValidateEndorserID_Inr split_at_zero no_zero_in_endorser_id)

text \<open>
  The tree keys of one round share the tag \<open>0x14\<close>; what separates them is the byte after
  the round id.
\<close>

datatype treeKey = LeafAt bytes u64 | RootAt bytes u64 | StateOf bytes | BlockIndexAt bytes u64

fun treeKeyRound :: "treeKey \<Rightarrow> bytes" where
  "treeKeyRound (LeafAt r _) = r"
| "treeKeyRound (RootAt r _) = r"
| "treeKeyRound (StateOf r) = r"
| "treeKeyRound (BlockIndexAt r _) = r"

fun treeKeyBytes :: "treeKey \<Rightarrow> bytes" where
  "treeKeyBytes (LeafAt r i) = CommitmentLeafKey r i"
| "treeKeyBytes (RootAt r h) = CommitmentRootKey r h"
| "treeKeyBytes (StateOf r) = RoundTreeStateKey r"
| "treeKeyBytes (BlockIndexAt r h) = BlockLeafIndexKey r h"

definition treeKeyOf :: "treeKey \<Rightarrow> bytes res" where
  "treeKeyOf k = bindR (ValidateRoundID (treeKeyRound k)) (\<lambda>_. Inr (treeKeyBytes k))"

interpretation tree: keyspace treeKeyOf "0x14"
proof unfold_locales
  fix x b assume "treeKeyOf x = Inr b"
  then show "\<exists>c. b = 0x14 # c"
    by (cases x) (auto simp: treeKeyOf_def bindR_Inr_iff key_simps)
next
  fix x y b assume "treeKeyOf x = Inr b" "treeKeyOf y = Inr b"
  then show "x = y"
    by (cases x; cases y) (auto simp: treeKeyOf_def key_codec_simps)
qed

text \<open>Round trips of the shard and checkpoint keys.\<close>

lemma ShardIndexFromKey_ShardKey: "ShardIndexFromKey (ShardKey i) = Some i"
  by (simp add: ShardIndexFromKey_def key_simps)

lemma ShardCheckpointIDFromKey_ShardCheckpointKey:
  "ShardCheckpointIDFromKey (ShardCheckpointKey i) = Some i"
  by (simp add: ShardCheckpointIDFromKey_def key_simps)

end
