(* ===== verification/Vote_Types.thy ===== *)
theory Vote_Types
  imports Vote_Keys
begin

text \<open>
  The data of the vote module: the protobuf messages stored in or carried to the chain
  (\<^verbatim>\<open>src/proto/svote/v1/types.proto\<close> and \<^verbatim>\<open>tx.proto\<close>) as records, their enums as
  datatypes, and the stateless validation of \<^verbatim>\<open>src/x/vote/types/vote_validation.go\<close>,
  \<^verbatim>\<open>msgs.go\<close>, \<^verbatim>\<open>genesis.go\<close> (the policy normalisation) and
  \<^verbatim>\<open>src/ffi/tx1/effects.go\<close>.

  A slice of message pointers decoded from the wire holds no nil element, so repeated
  message fields are plain lists; the fields the code itself tests for nil
  (\<^verbatim>\<open>Delegation\<close>, \<^verbatim>\<open>Batch\<close>, \<^verbatim>\<open>Payload\<close>) are options.
  What the vote module stores is one of the values of \<open>kvval\<close>: the protobuf messages are
  kept as records (marshalling followed by unmarshalling is the identity), everything the
  Go code writes as raw bytes is kept as bytes.
\<close>

section \<open>Stored data\<close>

datatype SessionStatus =
    SESSION_STATUS_UNSPECIFIED | SESSION_STATUS_ACTIVE | SESSION_STATUS_TALLYING
  | SESSION_STATUS_FINALIZED | SESSION_STATUS_PENDING | SESSION_STATUS_CEREMONY_FAILED

datatype CeremonyStatus =
    CEREMONY_STATUS_UNSPECIFIED | CEREMONY_STATUS_REGISTERING | CEREMONY_STATUS_DEALT
  | CEREMONY_STATUS_CONFIRMED

datatype CoordinatorActionStatus =
    COORDINATOR_ACTION_STATUS_UNSPECIFIED | COORDINATOR_ACTION_STATUS_PENDING
  | COORDINATOR_ACTION_STATUS_EXECUTED | COORDINATOR_ACTION_STATUS_EXPIRED

record VoteOption =
  opt_index :: u32
  opt_label :: gostring
  opt_description :: gostring

record Proposal =
  prop_id :: u32
  prop_title :: gostring
  prop_description :: gostring
  prop_options :: "VoteOption list"
  prop_zip_number :: gostring
  prop_forum_url :: gostring

record ValidatorPallasKey =
  vpk_validator_address :: gostring
  vpk_pallas_pk :: bytes
  vpk_shamir_index :: u32

record DealerPayload =
  dp_validator_address :: gostring
  dp_ephemeral_pk :: bytes
  dp_ciphertext :: bytes

record DKGContribution =
  dkg_validator_address :: gostring
  dkg_feldman_commitments :: "bytes list"
  dkg_payloads :: "DealerPayload list"

record AckEntry =
  ack_validator_address :: gostring
  ack_signature :: bytes
  ack_height :: u64

record VoteRound =
  vote_round_id :: bytes
  snapshot_height :: u64
  snapshot_blockhash :: bytes
  proposals_hash :: bytes
  vote_end_time :: u64
  nullifier_imt_root :: bytes
  nc_root :: bytes
  creator :: gostring
  status :: SessionStatus
  ea_pk :: bytes
  proposals :: "Proposal list"
  description :: gostring
  created_at_height :: u64
  title :: gostring
  ceremony_status :: CeremonyStatus
  ceremony_validators :: "ValidatorPallasKey list"
  ceremony_acks :: "AckEntry list"
  ceremony_phase_start :: u64
  ceremony_phase_timeout :: u64
  ceremony_log :: "gostring list"
  threshold :: u32
  feldman_commitments :: "bytes list"
  tally_phase_start :: u64
  tally_phase_timeout :: u64
  tally_timed_out :: bool
  dkg_contributions :: "DKGContribution list"
  discussion_url :: gostring
  created_at_time :: u64

record CommitmentTreeState =
  next_index :: u64
  tree_root :: bytes
  tree_height :: u64
  next_index_at_root :: u64

record VoteManagerSet =
  vm_addresses :: "gostring list"
  vm_threshold :: u32

record AnyMsg =
  type_url :: gostring
  any_value :: bytes

record CoordinatorAction =
  action_id :: u64
  action_payload :: "AnyMsg option"
  action_proposer :: gostring
  action_approvals :: "gostring list"
  action_status :: CoordinatorActionStatus
  action_created_at :: u64
  action_expires_at :: u64
  action_executed_at :: u64

record TallyResult =
  tr_vote_round_id :: bytes
  tr_proposal_id :: u32
  tr_vote_decision :: u32
  tr_total_value :: u64

record PartialDecryptionEntry =
  pd_proposal_id :: u32
  pd_vote_decision :: u32
  pd_partial_decrypt :: bytes
  pd_dleq_proof :: bytes

record CeremonyState =
  cs_status :: CeremonyStatus
  cs_ea_pk :: bytes
  cs_validators :: "ValidatorPallasKey list"
  cs_acks :: "AckEntry list"
  cs_phase_start :: u64
  cs_phase_timeout :: u64
  cs_threshold :: u32
  cs_feldman_commitments :: "bytes list"

text \<open>The values of the module's store.\<close>

datatype kvval =
    VBytes bytes
  | VVoteRound VoteRound
  | VTreeState CommitmentTreeState
  | VVoteManagerSet VoteManagerSet
  | VPallasKey ValidatorPallasKey
  | VCoordinatorAction CoordinatorAction
  | VTallyResult TallyResult
  | VPartialDecryption PartialDecryptionEntry
  | VCeremonyState CeremonyState

type_synonym vkv = "kvval kv"

section \<open>Messages\<close>

record MsgCreateVotingSession =
  mc_creator :: gostring
  mc_snapshot_height :: u64
  mc_snapshot_blockhash :: bytes
  mc_proposals_hash :: bytes
  mc_vote_end_time :: u64
  mc_nullifier_imt_root :: bytes
  mc_nc_root :: bytes
  mc_proposals :: "Proposal list"
  mc_description :: gostring
  mc_title :: gostring
  mc_discussion_url :: gostring

record MsgDelegateVote =
  md_rk :: bytes
  md_spend_auth_sig :: bytes
  md_signed_note_nullifier :: bytes
  md_cmx_new :: bytes
  md_van_cmx :: bytes
  md_gov_nullifiers :: "bytes list"
  md_proof :: bytes
  md_vote_round_id :: bytes
  md_tx1_effects :: bytes

record MsgCastVote =
  mv_van_nullifier :: bytes
  mv_vote_authority_note_new :: bytes
  mv_vote_commitment :: bytes
  mv_proposal_id :: u32
  mv_proof :: bytes
  mv_vote_round_id :: bytes
  mv_anchor_height :: u64
  mv_vote_auth_sig :: bytes
  mv_r_vpk :: bytes

record MsgCastVoteBatch =
  mb_votes :: "MsgCastVote list"

record MsgDelegateAndCastVoteBatch =
  mdb_delegation :: "MsgDelegateVote option"
  mdb_batch :: "MsgCastVoteBatch option"

record MsgRevealShare =
  mr_share_nullifier :: bytes
  mr_enc_share :: bytes
  mr_proposal_id :: u32
  mr_vote_decision :: u32
  mr_proof :: bytes
  mr_vote_round_id :: bytes
  mr_anchor_height :: u64

record TallyEntry =
  te_proposal_id :: u32
  te_vote_decision :: u32
  te_total_value :: u64
  te_decryption_proof :: bytes

record MsgSubmitTally =
  mt_vote_round_id :: bytes
  mt_creator :: gostring
  mt_entries :: "TallyEntry list"

record MsgSubmitPartialDecryption =
  mp_vote_round_id :: bytes
  mp_creator :: gostring
  mp_validator_index :: u32
  mp_entries :: "PartialDecryptionEntry list"

record MsgRegisterPallasKey =
  mrp_creator :: gostring
  mrp_pallas_pk :: bytes

record MsgRotatePallasKey =
  mro_creator :: gostring
  mro_new_pallas_pk :: bytes

record MsgContributeDKG =
  mdk_creator :: gostring
  mdk_vote_round_id :: bytes
  mdk_feldman_commitments :: "bytes list"
  mdk_payloads :: "DealerPayload list"
  mdk_constant_term_proof :: bytes

record MsgAckExecutiveAuthorityKey =
  ma_creator :: gostring
  ma_ack_signature :: bytes
  ma_vote_round_id :: bytes

record MsgCreateValidatorWithPallasKey =
  mcv_staking_msg :: bytes
  mcv_pallas_pk :: bytes

record MsgUpdateVoteManagers =
  mu_creator :: gostring
  mu_new_vote_managers :: "gostring list"
  mu_new_threshold :: u32
  mu_new_min_ceremony_validators :: u32

record MsgAuthorizedSend =
  ms_creator :: gostring
  ms_to_address :: gostring
  ms_amount :: gostring

record MsgScheduleUpgrade =
  mup_creator :: gostring
  mup_name :: gostring
  mup_height :: int
  mup_info :: gostring
  mup_replace_existing :: bool

record MsgCancelUpgrade =
  mcu_creator :: gostring

record MsgSetEndorser =
  mse_creator :: gostring
  mse_endorser_id :: gostring
  mse_address :: gostring

record MsgEndorseRound =
  mer_creator :: gostring
  mer_endorser_id :: gostring
  mer_vote_round_id :: bytes

record MsgClearRoundEndorsement =
  mcl_creator :: gostring
  mcl_endorser_id :: gostring
  mcl_vote_round_id :: bytes

record MsgProposeCoordinatorAction =
  mpa_creator :: gostring
  mpa_payload :: "AnyMsg option"

record MsgApproveCoordinatorAction =
  maa_creator :: gostring
  maa_action_id :: u64

section \<open>Functions of other modules\<close>

text \<open>
  The pure functions of the Cosmos SDK and of the hash libraries that the module calls:
  \<^verbatim>\<open>sdk.AccAddressFromBech32\<close> and \<^verbatim>\<open>AccAddress.String\<close>, their validator-address
  counterparts, \<^verbatim>\<open>sdkmath.NewIntFromString\<close>, the two digests, and
  \<^verbatim>\<open>proto.Unmarshal\<close> at the six payload types of a coordinator action.
\<close>

record lib =
  AccAddressFromBech32 :: "gostring \<Rightarrow> bytes option"
  AccAddressString :: "bytes \<Rightarrow> gostring"
  ValAddressFromBech32 :: "gostring \<Rightarrow> bytes option"
  ValAddressString :: "bytes \<Rightarrow> gostring"
  NewIntFromString :: "gostring \<Rightarrow> int option"
  blake2b256 :: "bytes \<Rightarrow> bytes"
  sha256 :: "bytes \<Rightarrow> bytes"
  unmarshalCreateVotingSession :: "bytes \<Rightarrow> MsgCreateVotingSession option"
  unmarshalUpdateVoteManagers :: "bytes \<Rightarrow> MsgUpdateVoteManagers option"
  unmarshalScheduleUpgrade :: "bytes \<Rightarrow> MsgScheduleUpgrade option"
  unmarshalCancelUpgrade :: "bytes \<Rightarrow> MsgCancelUpgrade option"
  unmarshalSetEndorser :: "bytes \<Rightarrow> MsgSetEndorser option"
  unmarshalAuthorizedSend :: "bytes \<Rightarrow> MsgAuthorizedSend option"

end
