(* ===== verification/Vote_Msgs.thy ===== *)
theory Vote_Msgs
  imports Vote_Types
begin

text \<open>
  Stateless message validation: \<^verbatim>\<open>src/x/vote/types/vote_validation.go\<close>,
  \<^verbatim>\<open>msgs.go\<close>, the policy normalisation of \<^verbatim>\<open>genesis.go\<close>, the TX1 effects
  binding of \<^verbatim>\<open>src/ffi/tx1/effects.go\<close>, and the signed byte strings of
  \<^verbatim>\<open>sighash.go\<close>. A method whose receiver is a value never nil on the wire takes the
  record; every early return is a branch, in source order.
\<close>

section \<open>Small helpers of the sources\<close>

definition isASCII :: "gostring \<Rightarrow> bool" where
  "isASCII s = list_all (\<lambda>b. b \<le> 127) s"

definition zeroPoint32 :: bytes where "zeroPoint32 = replicate 32 0"

definition MaxUpgradeInfoBytes :: nat where "MaxUpgradeInfoBytes = 4096"
definition MaxCastVoteBatchSize :: nat where "MaxCastVoteBatchSize = MaxProposals"

text \<open>
  A loop \<^verbatim>\<open>for i, x := range xs\<close> whose body may return an error.
\<close>

fun forR :: "nat \<Rightarrow> (nat \<Rightarrow> 'a \<Rightarrow> unit res) \<Rightarrow> 'a list \<Rightarrow> unit res" where
  "forR i f [] = Inr ()"
| "forR i f (x # xs) = bindR (f i x) (\<lambda>_. forR (Suc i) f xs)"

lemma forR_Inr_iff: "forR i f xs = Inr () \<longleftrightarrow> (\<forall>j < length xs. f (i + j) (xs ! j) = Inr ())"
proof (induction xs arbitrary: i)
  case Nil
  then show ?case by simp
next
  case (Cons x xs)
  then show ?case by (auto simp: bindR_Inr_iff less_Suc_eq_0_disj All_less_Suc2)
qed

text \<open>
  The \<^verbatim>\<open>seen\<close> map idiom: reject the first element whose key occurred before.
\<close>

fun firstDup :: "'a list \<Rightarrow> 'a list \<Rightarrow> bool" where
  "firstDup seen [] = False"
| "firstDup seen (x # xs) = (x \<in> set seen \<or> firstDup (x # seen) xs)"

lemma firstDup_iff: "firstDup seen xs \<longleftrightarrow> \<not> distinct xs \<or> set seen \<inter> set xs \<noteq> {}"
  by (induction xs arbitrary: seen) auto

lemma firstDup_Nil [simp]: "firstDup [] xs \<longleftrightarrow> \<not> distinct xs"
  by (simp add: firstDup_iff)

section \<open>Vote options\<close>

definition ValidateProposalOptions :: "nat \<Rightarrow> VoteOption list \<Rightarrow> unit res" where
  "ValidateProposalOptions proposalIndex options =
     failIfR (length options < MinVoteOptions \<or> length options > MaxVoteOptions) ErrInvalidField (
     forR 0 (\<lambda>j opt.
       failIfR (opt_index opt \<noteq> word_of_nat j) ErrInvalidField (
       failIfR (opt_label opt = []) ErrInvalidField (
       failIfR (\<not> isASCII (opt_label opt)) ErrInvalidField (
       Inr ())))) options)"

definition ValidateVoteChoice :: "u32 \<Rightarrow> u32 \<Rightarrow> VoteOption list \<Rightarrow> unit res" where
  "ValidateVoteChoice proposalID voteDecision options =
     failIfR (length options < MinVoteOptions \<or> length options > MaxVoteOptions) ErrInvalidField (
     failIfR (unat voteDecision \<ge> length options) ErrInvalidField (
     Inr ()))"

definition ValidateVoteChoiceUpperBound :: "u32 \<Rightarrow> unit res" where
  "ValidateVoteChoiceUpperBound voteDecision =
     failIfR (unat voteDecision \<ge> MaxVoteOptions) ErrInvalidField (Inr ())"

section \<open>TX1 effects\<close>

definition EffectsVersion :: u8 where "EffectsVersion = 1"
definition ActionEffectsLen :: nat where "ActionEffectsLen = 820"
definition EffectsLen :: nat where "EffectsLen = 1 + 1 * ActionEffectsLen"

definition ValidateEffectsFraming :: "bytes \<Rightarrow> unit res" where
  "ValidateEffectsFraming effects =
     failIfR (length effects \<noteq> EffectsLen) ErrOther (
     failIfR (effects ! 0 \<noteq> EffectsVersion) ErrOther (
     Inr ()))"

text \<open>The Go slice \<^verbatim>\<open>b[i:i+n]\<close>.\<close>

definition slice :: "nat \<Rightarrow> nat \<Rightarrow> 'a list \<Rightarrow> 'a list" where
  "slice i n b = take n (drop i b)"

definition ValidateDelegationBinding :: "bytes \<Rightarrow> bytes \<Rightarrow> bytes \<Rightarrow> bytes \<Rightarrow> unit res" where
  "ValidateDelegationBinding effects rk signedNoteNullifier cmxNew =
     bindR (ValidateEffectsFraming effects) (\<lambda>_.
     bindR (forR 0 (\<lambda>_ value. failIfR (length value \<noteq> 32) ErrOther (Inr ()))
              [rk, signedNoteNullifier, cmxNew]) (\<lambda>_.
     failIfR (slice (1 + 64) 32 effects \<noteq> rk \<or>
              slice (1 + 32) 32 effects \<noteq> signedNoteNullifier \<or>
              slice (1 + 96) 32 effects \<noteq> cmxNew) ErrOther (
     Inr ())))"

text \<open>\<^verbatim>\<open>fmt.Errorf("%w: %v", ErrInvalidField, err)\<close>: the inner error loses its identity.\<close>

definition wrapErr :: "verr \<Rightarrow> 'a res \<Rightarrow> 'a res" where
  "wrapErr e r = (case r of Inl _ \<Rightarrow> Inl e | Inr a \<Rightarrow> Inr a)"

lemma wrapErr_Inr_iff [simp]: "wrapErr e r = Inr a \<longleftrightarrow> r = Inr a"
  by (auto simp: wrapErr_def split: sum.splits)

definition validateDelegationTX1Effects :: "MsgDelegateVote \<Rightarrow> unit res" where
  "validateDelegationTX1Effects msg =
     wrapErr ErrInvalidField (ValidateDelegationBinding (md_tx1_effects msg) (md_rk msg)
       (md_signed_note_nullifier msg) (md_cmx_new msg))"

section \<open>The voting messages\<close>

definition CreateVotingSession_ValidateBasic :: "MsgCreateVotingSession \<Rightarrow> unit res" where
  "CreateVotingSession_ValidateBasic msg =
     failIfR (mc_creator msg = []) ErrInvalidField (
     failIfR (mc_snapshot_height msg = 0) ErrInvalidField (
     failIfR (length (mc_snapshot_blockhash msg) \<noteq> 32) ErrInvalidField (
     failIfR (length (mc_proposals_hash msg) \<noteq> 32) ErrInvalidField (
     failIfR (mc_vote_end_time msg = 0) ErrInvalidField (
     failIfR (length (mc_nullifier_imt_root msg) \<noteq> 32) ErrInvalidField (
     failIfR (length (mc_nc_root msg) \<noteq> 32) ErrInvalidField (
     failIfR (length (mc_proposals msg) = 0 \<or> length (mc_proposals msg) > MaxProposals)
       ErrInvalidField (
     forR 0 (\<lambda>i p.
       failIfR (prop_title p = []) ErrInvalidField (
       failIfR (prop_id p \<noteq> word_of_nat (i + 1)) ErrInvalidField (
       ValidateProposalOptions i (prop_options p)))) (mc_proposals msg)))))))))"

definition DelegateVote_ValidateBasic :: "MsgDelegateVote \<Rightarrow> unit res" where
  "DelegateVote_ValidateBasic msg =
     failIfR (length (md_rk msg) \<noteq> 32) ErrInvalidField (
     failIfR (md_rk msg = zeroPoint32) ErrInvalidField (
     failIfR (length (md_spend_auth_sig msg) \<noteq> 64) ErrInvalidField (
     failIfR (length (md_signed_note_nullifier msg) \<noteq> 32) ErrInvalidField (
     failIfR (length (md_cmx_new msg) \<noteq> 32) ErrInvalidField (
     failIfR (length (md_van_cmx msg) \<noteq> 32) ErrInvalidField (
     failIfR (length (md_gov_nullifiers msg) = 0) ErrInvalidField (
     failIfR (length (md_gov_nullifiers msg) > 5) ErrInvalidField (
     bindR (forR 0 (\<lambda>_ n. failIfR (length n \<noteq> 32) ErrInvalidField (Inr ()))
              (md_gov_nullifiers msg)) (\<lambda>_.
     failIfR (firstDup [] (md_gov_nullifiers msg)) ErrInvalidField (
     failIfR (length (md_proof msg) = 0 \<or> length (md_proof msg) > MaxProofSize) ErrInvalidField (
     failIfR (length (md_vote_round_id msg) \<noteq> RoundIDLen) ErrInvalidField (
     validateDelegationTX1Effects msg))))))))))))"

definition CastVote_validateBasic :: "bool \<Rightarrow> MsgCastVote \<Rightarrow> unit res" where
  "CastVote_validateBasic allowSyntheticAnchor msg =
     failIfR (length (mv_van_nullifier msg) \<noteq> 32) ErrInvalidField (
     failIfR (length (mv_vote_authority_note_new msg) \<noteq> 32) ErrInvalidField (
     failIfR (length (mv_vote_commitment msg) \<noteq> 32) ErrInvalidField (
     failIfR (mv_proposal_id msg < MinProposalID \<or> unat (mv_proposal_id msg) > MaxProposals)
       ErrInvalidField (
     failIfR (length (mv_proof msg) = 0 \<or> length (mv_proof msg) > MaxProofSize) ErrInvalidField (
     failIfR (length (mv_vote_round_id msg) \<noteq> RoundIDLen) ErrInvalidField (
     failIfR (mv_anchor_height msg = 0 \<and> \<not> allowSyntheticAnchor) ErrInvalidField (
     failIfR (length (mv_vote_auth_sig msg) \<noteq> 64) ErrInvalidField (
     failIfR (length (mv_r_vpk msg) \<noteq> 32) ErrInvalidField (
     failIfR (mv_r_vpk msg = zeroPoint32) ErrInvalidField (
     Inr ()))))))))))"

definition CastVote_ValidateBasic :: "MsgCastVote \<Rightarrow> unit res" where
  "CastVote_ValidateBasic msg = CastVote_validateBasic False msg"

text \<open>The loop of the batch validation, with its two \<^verbatim>\<open>seen\<close> maps as accumulators.\<close>

fun batchLoop :: "bool \<Rightarrow> MsgCastVote \<Rightarrow> u32 list \<Rightarrow> bytes list \<Rightarrow> MsgCastVote list \<Rightarrow> unit res"
where
  "batchLoop allowSyntheticAnchor first seenProposals seenNullifiers [] = Inr ()"
| "batchLoop allowSyntheticAnchor first seenProposals seenNullifiers (vote # votes) =
     bindR (CastVote_validateBasic allowSyntheticAnchor vote) (\<lambda>_.
     failIfR (mv_vote_round_id vote \<noteq> mv_vote_round_id first) ErrInvalidField (
     failIfR (mv_anchor_height vote \<noteq> mv_anchor_height first) ErrInvalidField (
     failIfR (mv_proposal_id vote \<in> set seenProposals) ErrInvalidField (
     failIfR (mv_van_nullifier vote \<in> set seenNullifiers) ErrInvalidField (
     batchLoop allowSyntheticAnchor first (mv_proposal_id vote # seenProposals)
       (mv_van_nullifier vote # seenNullifiers) votes)))))"

definition CastVoteBatch_validateBasic :: "bool \<Rightarrow> MsgCastVoteBatch \<Rightarrow> unit res" where
  "CastVoteBatch_validateBasic allowSyntheticAnchor msg =
     failIfR (length (mb_votes msg) = 0 \<or> length (mb_votes msg) > MaxCastVoteBatchSize)
       ErrInvalidField (
     batchLoop allowSyntheticAnchor (mb_votes msg ! 0) [] [] (mb_votes msg))"

definition CastVoteBatch_ValidateBasic :: "MsgCastVoteBatch \<Rightarrow> unit res" where
  "CastVoteBatch_ValidateBasic msg = CastVoteBatch_validateBasic False msg"

text \<open>\<^verbatim>\<open>GetVoteRoundId\<close> returns nil, an empty slice, for an empty batch.\<close>

definition CastVoteBatch_GetVoteRoundId :: "MsgCastVoteBatch \<Rightarrow> bytes" where
  "CastVoteBatch_GetVoteRoundId msg =
     (if mb_votes msg = [] then [] else mv_vote_round_id (mb_votes msg ! 0))"

definition CastVoteBatch_GetNullifiers :: "MsgCastVoteBatch \<Rightarrow> bytes list" where
  "CastVoteBatch_GetNullifiers msg = map mv_van_nullifier (mb_votes msg)"

definition DelegateAndCastVoteBatch_ValidateBasic :: "MsgDelegateAndCastVoteBatch \<Rightarrow> unit res"
where
  "DelegateAndCastVoteBatch_ValidateBasic msg =
     (case mdb_delegation msg of None \<Rightarrow> Inl ErrInvalidField | Some delegation \<Rightarrow>
     (case mdb_batch msg of None \<Rightarrow> Inl ErrInvalidField | Some batch \<Rightarrow>
     bindR (DelegateVote_ValidateBasic delegation) (\<lambda>_.
     bindR (CastVoteBatch_validateBasic True batch) (\<lambda>_.
     failIfR (md_vote_round_id delegation \<noteq> CastVoteBatch_GetVoteRoundId batch) ErrInvalidField (
     forR 0 (\<lambda>_ vote. failIfR (mv_anchor_height vote \<noteq> 0) ErrInvalidField (Inr ()))
       (mb_votes batch))))))"

definition RevealShare_ValidateBasic :: "MsgRevealShare \<Rightarrow> unit res" where
  "RevealShare_ValidateBasic msg =
     failIfR (length (mr_share_nullifier msg) \<noteq> 32) ErrInvalidField (
     failIfR (length (mr_enc_share msg) \<noteq> 64) ErrInvalidField (
     failIfR (mr_proposal_id msg < MinProposalID \<or> unat (mr_proposal_id msg) > MaxProposals)
       ErrInvalidField (
     bindR (ValidateVoteChoiceUpperBound (mr_vote_decision msg)) (\<lambda>_.
     failIfR (length (mr_proof msg) = 0 \<or> length (mr_proof msg) > MaxProofSize) ErrInvalidField (
     failIfR (length (mr_vote_round_id msg) \<noteq> RoundIDLen) ErrInvalidField (
     failIfR (mr_anchor_height msg = 0) ErrInvalidField (
     Inr ())))))))"

definition SubmitTally_ValidateBasic :: "MsgSubmitTally \<Rightarrow> unit res" where
  "SubmitTally_ValidateBasic msg =
     failIfR (length (mt_vote_round_id msg) \<noteq> RoundIDLen) ErrInvalidField (
     failIfR (mt_creator msg = []) ErrInvalidField (
     failIfR (firstDup [] (map (\<lambda>e. (te_proposal_id e, te_vote_decision e)) (mt_entries msg)))
       ErrInvalidField (
     Inr ())))"

definition RotatePallasKey_ValidateBasic :: "MsgRotatePallasKey \<Rightarrow> unit res" where
  "RotatePallasKey_ValidateBasic msg =
     failIfR (mro_creator msg = []) ErrInvalidField (
     failIfR (length (mro_new_pallas_pk msg) \<noteq> 32) ErrInvalidField (
     failIfR (mro_new_pallas_pk msg = zeroPoint32) ErrInvalidField (
     Inr ())))"

section \<open>Vote-manager policy\<close>

definition NormalizeVoteManagerThreshold :: "u32 \<Rightarrow> u32" where
  "NormalizeVoteManagerThreshold t = (if t = 0 then 1 else t)"

definition NormalizeMinCeremonyValidators :: "u32 \<Rightarrow> u32" where
  "NormalizeMinCeremonyValidators minValidators = (if minValidators = 0 then 1 else minValidators)"

text \<open>The canonical bech32 form of an account address; a parse failure carries no sentinel.\<close>

definition canonicalAddr :: "lib \<Rightarrow> gostring \<Rightarrow> gostring option" where
  "canonicalAddr L addr = map_option (AccAddressString L) (AccAddressFromBech32 L addr)"

fun normalizeManagers :: "lib \<Rightarrow> gostring list \<Rightarrow> gostring list \<Rightarrow> gostring list res" where
  "normalizeManagers L normalized [] = Inr normalized"
| "normalizeManagers L normalized (addr # addrs) =
     (case canonicalAddr L addr of
        None \<Rightarrow> Inl ErrOther
      | Some canonical \<Rightarrow>
          failIfR (canonical \<in> set normalized) ErrDuplicateVoteManager (
          normalizeManagers L (normalized @ [canonical]) addrs))"

definition ValidateAndNormalizeVoteManagerPolicy ::
  "lib \<Rightarrow> gostring list \<Rightarrow> u32 \<Rightarrow> (gostring list \<times> u32) res" where
  "ValidateAndNormalizeVoteManagerPolicy L addrs t =
     failIfR (length addrs = 0) ErrEmptyVoteManagerSet (
     bindR (normalizeManagers L [] addrs) (\<lambda>normalized.
     (let effectiveThreshold = NormalizeVoteManagerThreshold t in
     failIfR (effectiveThreshold < 1) ErrInvalidThreshold (
     failIfR (effectiveThreshold > word_of_nat (length normalized)) ErrInvalidThreshold (
     Inr (normalized, effectiveThreshold))))))"

section \<open>The coordinator and endorsement messages\<close>

definition validBech32 :: "lib \<Rightarrow> gostring \<Rightarrow> bool" where
  "validBech32 L a \<longleftrightarrow> AccAddressFromBech32 L a \<noteq> None"

text \<open>
  \<^verbatim>\<open>strings.TrimSpace\<close>: drop the white-space runes, in their UTF-8 encodings, from both
  ends. \<open>spaceWidth\<close> is the width of the white-space rune a string starts with, 0 if there
  is none.
\<close>

definition spaceWidth :: "gostring \<Rightarrow> nat" where
  "spaceWidth s =
     (case s of
        [] \<Rightarrow> 0
      | b # s1 \<Rightarrow>
          if b \<in> {0x09, 0x0A, 0x0B, 0x0C, 0x0D, 0x20} then 1
          else (case s1 of
            [] \<Rightarrow> 0
          | c # s2 \<Rightarrow>
              if b = 0xC2 \<and> c \<in> {0x85, 0xA0} then 2
              else (case s2 of
                [] \<Rightarrow> 0
              | d # _ \<Rightarrow>
                  if b = 0xE1 \<and> c = 0x9A \<and> d = 0x80 \<or>
                     b = 0xE2 \<and> c = 0x80 \<and> (0x80 \<le> d \<and> d \<le> 0x8A \<or> d \<in> {0xA8, 0xA9, 0xAF}) \<or>
                     b = 0xE2 \<and> c = 0x81 \<and> d = 0x9F \<or>
                     b = 0xE3 \<and> c = 0x80 \<and> d = 0x80
                  then 3 else 0)))"

definition lastSpaceWidth :: "gostring \<Rightarrow> nat" where
  "lastSpaceWidth s =
     (let n = length s in
      if n \<ge> 1 \<and> spaceWidth (drop (n - 1) s) = 1 then 1
      else if n \<ge> 2 \<and> spaceWidth (drop (n - 2) s) = 2 then 2
      else if n \<ge> 3 \<and> spaceWidth (drop (n - 3) s) = 3 then 3
      else 0)"

function trimLeft :: "gostring \<Rightarrow> gostring" where
  "trimLeft s = (if spaceWidth s = 0 then s else trimLeft (drop (spaceWidth s) s))"
  by auto
termination
  by (relation "measure length") (auto simp: spaceWidth_def split: list.splits if_splits)

function trimRight :: "gostring \<Rightarrow> gostring" where
  "trimRight s =
     (if lastSpaceWidth s = 0 then s else trimRight (take (length s - lastSpaceWidth s) s))"
  by auto
termination
  by (relation "measure length") (auto simp: lastSpaceWidth_def Let_def split: if_splits)

declare trimLeft.simps [simp del] trimRight.simps [simp del]

definition TrimSpace :: "gostring \<Rightarrow> gostring" where
  "TrimSpace s = trimRight (trimLeft s)"

definition ScheduleUpgrade_ValidateBasic :: "MsgScheduleUpgrade \<Rightarrow> unit res" where
  "ScheduleUpgrade_ValidateBasic msg =
     failIfR (mup_creator msg = []) ErrInvalidField (
     failIfR (TrimSpace (mup_name msg) = []) ErrInvalidField (
     failIfR (mup_height msg \<le> 0) ErrInvalidField (
     failIfR (length (mup_info msg) > MaxUpgradeInfoBytes) ErrInvalidField (
     Inr ()))))"

definition CancelUpgrade_ValidateBasic :: "MsgCancelUpgrade \<Rightarrow> unit res" where
  "CancelUpgrade_ValidateBasic msg = failIfR (mcu_creator msg = []) ErrInvalidField (Inr ())"

definition SetEndorser_ValidateBasic :: "lib \<Rightarrow> MsgSetEndorser \<Rightarrow> unit res" where
  "SetEndorser_ValidateBasic L msg =
     failIfR (mse_creator msg = []) ErrInvalidField (
     failIfR (\<not> validBech32 L (mse_creator msg)) ErrInvalidField (
     bindR (ValidateEndorserID (mse_endorser_id msg)) (\<lambda>_.
     failIfR (mse_address msg \<noteq> [] \<and> \<not> validBech32 L (mse_address msg)) ErrInvalidField (
     Inr ()))))"

definition UpdateVoteManagers_ValidateBasic :: "lib \<Rightarrow> MsgUpdateVoteManagers \<Rightarrow> unit res" where
  "UpdateVoteManagers_ValidateBasic L msg =
     failIfR (mu_creator msg = []) ErrInvalidField (
     failIfR (\<not> validBech32 L (mu_creator msg)) ErrInvalidField (
     bindR (ValidateAndNormalizeVoteManagerPolicy L (mu_new_vote_managers msg)
              (mu_new_threshold msg)) (\<lambda>_.
     failIfR (NormalizeMinCeremonyValidators (mu_new_min_ceremony_validators msg) < 1)
       ErrInvalidField (
     Inr ()))))"

definition AuthorizedSend_ValidateBasic :: "lib \<Rightarrow> MsgAuthorizedSend \<Rightarrow> unit res" where
  "AuthorizedSend_ValidateBasic L msg =
     failIfR (ms_creator msg = []) ErrInvalidField (
     failIfR (\<not> validBech32 L (ms_creator msg)) ErrInvalidField (
     failIfR (\<not> validBech32 L (ms_to_address msg)) ErrInvalidField (
     (case NewIntFromString L (ms_amount msg) of
        None \<Rightarrow> Inl ErrInvalidField
      | Some amt \<Rightarrow> failIfR (\<not> amt > 0) ErrInvalidField (Inr ())))))"

definition ProposeCoordinatorAction_ValidateBasic ::
  "lib \<Rightarrow> MsgProposeCoordinatorAction \<Rightarrow> unit res" where
  "ProposeCoordinatorAction_ValidateBasic L msg =
     failIfR (mpa_creator msg = []) ErrInvalidField (
     failIfR (\<not> validBech32 L (mpa_creator msg)) ErrInvalidField (
     (case mpa_payload msg of
        None \<Rightarrow> Inl ErrInvalidCoordinatorAction
      | Some p \<Rightarrow> failIfR (type_url p = [] \<or> length (any_value p) = 0)
                    ErrInvalidCoordinatorAction (Inr ()))))"

definition ApproveCoordinatorAction_ValidateBasic ::
  "lib \<Rightarrow> MsgApproveCoordinatorAction \<Rightarrow> unit res" where
  "ApproveCoordinatorAction_ValidateBasic L msg =
     failIfR (maa_creator msg = []) ErrInvalidField (
     failIfR (\<not> validBech32 L (maa_creator msg)) ErrInvalidField (
     failIfR (maa_action_id msg = 0) ErrInvalidCoordinatorAction (
     Inr ())))"

definition EndorseRound_ValidateBasic :: "lib \<Rightarrow> MsgEndorseRound \<Rightarrow> unit res" where
  "EndorseRound_ValidateBasic L msg =
     failIfR (mer_creator msg = []) ErrInvalidField (
     failIfR (\<not> validBech32 L (mer_creator msg)) ErrInvalidField (
     bindR (ValidateEndorserID (mer_endorser_id msg)) (\<lambda>_.
     failIfR (length (mer_vote_round_id msg) \<noteq> RoundIDLen) ErrInvalidField (
     Inr ()))))"

definition ClearRoundEndorsement_ValidateBasic ::
  "lib \<Rightarrow> MsgClearRoundEndorsement \<Rightarrow> unit res" where
  "ClearRoundEndorsement_ValidateBasic L msg =
     failIfR (mcl_creator msg = []) ErrInvalidField (
     failIfR (\<not> validBech32 L (mcl_creator msg)) ErrInvalidField (
     bindR (ValidateEndorserID (mcl_endorser_id msg)) (\<lambda>_.
     failIfR (length (mcl_vote_round_id msg) \<noteq> RoundIDLen) ErrInvalidField (
     Inr ()))))"

section \<open>Signed byte strings\<close>

definition putUint32LE :: "u32 \<Rightarrow> bytes" where "putUint32LE v = rev (putUint32BE v)"
definition putUint64LE :: "u64 \<Rightarrow> bytes" where "putUint64LE v = rev (putUint64BE v)"

text \<open>What \<^verbatim>\<open>write32\<close>, \<^verbatim>\<open>writeU32As32\<close> and \<^verbatim>\<open>writeU64As32\<close> feed to the hash.\<close>

definition write32 :: "bytes \<Rightarrow> bytes" where
  "write32 b =
     (if length b \<ge> 32 then take 32 b
      else if length b > 0 then b @ replicate (32 - length b) 0
      else replicate 32 0)"

definition writeU32As32 :: "u32 \<Rightarrow> bytes" where
  "writeU32As32 v = putUint32LE v @ replicate 28 0"

definition writeU64As32 :: "u64 \<Rightarrow> bytes" where
  "writeU64As32 v = putUint64LE v @ replicate 24 0"

definition CastVoteSighashDomain :: gostring where
  "CastVoteSighashDomain = str ''SVOTE_CAST_VOTE_SIGHASH_V0''"
definition CastVoteBatchSighashDomain :: gostring where
  "CastVoteBatchSighashDomain = str ''SVOTE_CAST_VOTE_BATCH_SIGHASH_V1''"
definition DelegateAndCastVoteBatchSighashDomain :: gostring where
  "DelegateAndCastVoteBatchSighashDomain =
     str ''SVOTE_DELEGATE_AND_CAST_VOTE_BATCH_SIGHASH_V1''"
definition AckDigestDomain :: gostring where "AckDigestDomain = str ''ack''"

definition castVotePreimage :: "MsgCastVote \<Rightarrow> bytes" where
  "castVotePreimage msg =
     CastVoteSighashDomain @
     write32 (mv_vote_round_id msg) @
     write32 (mv_r_vpk msg) @
     write32 (mv_van_nullifier msg) @
     write32 (mv_vote_authority_note_new msg) @
     write32 (mv_vote_commitment msg) @
     writeU32As32 (mv_proposal_id msg) @
     writeU64As32 (mv_anchor_height msg)"

definition ComputeCastVoteSighash :: "lib \<Rightarrow> MsgCastVote \<Rightarrow> bytes" where
  "ComputeCastVoteSighash L msg = blake2b256 L (castVotePreimage msg)"

text \<open>One action of a batch, and the actions in order with their indices.\<close>

definition actionPreimage :: "nat \<Rightarrow> MsgCastVote \<Rightarrow> bytes" where
  "actionPreimage i vote =
     writeU32As32 (word_of_nat i) @
     write32 (mv_r_vpk vote) @
     write32 (mv_van_nullifier vote) @
     write32 (mv_vote_authority_note_new vote) @
     write32 (mv_vote_commitment vote) @
     writeU32As32 (mv_proposal_id vote)"

fun actionsPreimage :: "nat \<Rightarrow> MsgCastVote list \<Rightarrow> bytes" where
  "actionsPreimage i [] = []"
| "actionsPreimage i (vote # votes) = actionPreimage i vote @ actionsPreimage (Suc i) votes"

definition castVoteBatchPreimage :: "MsgCastVoteBatch \<Rightarrow> bytes" where
  "castVoteBatchPreimage msg =
     CastVoteBatchSighashDomain @
     write32 (mv_vote_round_id (mb_votes msg ! 0)) @
     writeU64As32 (mv_anchor_height (mb_votes msg ! 0)) @
     writeU32As32 (word_of_nat (length (mb_votes msg))) @
     actionsPreimage 0 (mb_votes msg)"

definition ComputeCastVoteBatchSighash :: "lib \<Rightarrow> MsgCastVoteBatch \<Rightarrow> bytes" where
  "ComputeCastVoteBatchSighash L msg =
     (if mb_votes msg = [] then [] else blake2b256 L (castVoteBatchPreimage msg))"

definition delegateAndCastPreimage :: "MsgDelegateVote \<Rightarrow> MsgCastVoteBatch \<Rightarrow> bytes" where
  "delegateAndCastPreimage delegation batch =
     DelegateAndCastVoteBatchSighashDomain @
     write32 (md_vote_round_id delegation) @
     write32 (md_van_cmx delegation) @
     writeU32As32 (word_of_nat (length (mb_votes batch))) @
     actionsPreimage 0 (mb_votes batch)"

definition ComputeDelegateAndCastVoteBatchSighash ::
  "lib \<Rightarrow> MsgDelegateAndCastVoteBatch \<Rightarrow> bytes" where
  "ComputeDelegateAndCastVoteBatchSighash L msg =
     (case (mdb_delegation msg, mdb_batch msg) of
        (Some delegation, Some batch) \<Rightarrow>
          if mb_votes batch = [] then []
          else blake2b256 L (delegateAndCastPreimage delegation batch)
      | _ \<Rightarrow> [])"

section \<open>What validation guarantees\<close>

lemma ValidateVoteChoice_Inr:
  "ValidateVoteChoice p d options = Inr u \<longleftrightarrow>
     2 \<le> length options \<and> length options \<le> 8 \<and> unat d < length options"
  by (auto simp: ValidateVoteChoice_def MinVoteOptions_def MaxVoteOptions_def)

lemma DelegateVote_ValidateBasic_Inr:
  assumes "DelegateVote_ValidateBasic msg = Inr u"
  shows "length (md_vote_round_id msg) = 32" "length (md_van_cmx msg) = 32"
    "distinct (md_gov_nullifiers msg)" "md_gov_nullifiers msg \<noteq> []"
    "length (md_gov_nullifiers msg) \<le> 5"
    "\<And>n. n \<in> set (md_gov_nullifiers msg) \<Longrightarrow> length n = 32"
  using assms
  by (auto simp: DelegateVote_ValidateBasic_def bindR_Inr_iff RoundIDLen_def forR_Inr_iff
      in_set_conv_nth)

lemma CastVote_validateBasic_Inr:
  assumes "CastVote_validateBasic b msg = Inr u"
  shows "length (mv_van_nullifier msg) = 32" "length (mv_vote_round_id msg) = 32"
    "length (mv_vote_authority_note_new msg) = 32" "length (mv_vote_commitment msg) = 32"
    "length (mv_r_vpk msg) = 32"
    "1 \<le> unat (mv_proposal_id msg)" "unat (mv_proposal_id msg) \<le> 50"
    "mv_anchor_height msg = 0 \<longrightarrow> b"
proof -
  have "\<not> mv_proposal_id msg < 1" and rest: "length (mv_van_nullifier msg) = 32"
    "length (mv_vote_round_id msg) = 32" "length (mv_vote_authority_note_new msg) = 32"
    "length (mv_vote_commitment msg) = 32" "length (mv_r_vpk msg) = 32"
    "unat (mv_proposal_id msg) \<le> 50" "mv_anchor_height msg = 0 \<longrightarrow> b"
    using assms
    by (auto simp: CastVote_validateBasic_def RoundIDLen_def MinProposalID_def MaxProposals_def)
  then show "1 \<le> unat (mv_proposal_id msg)"
    by (simp add: word_less_nat_alt)
qed (use assms in \<open>auto simp: CastVote_validateBasic_def RoundIDLen_def MaxProposals_def\<close>)

lemma batchLoop_Inr_iff:
  "batchLoop b first ps ns votes = Inr u \<longleftrightarrow>
     (\<forall>v \<in> set votes. CastVote_validateBasic b v = Inr () \<and>
        mv_vote_round_id v = mv_vote_round_id first \<and>
        mv_anchor_height v = mv_anchor_height first) \<and>
     distinct (map mv_proposal_id votes) \<and> set ps \<inter> mv_proposal_id ` set votes = {} \<and>
     distinct (map mv_van_nullifier votes) \<and> set ns \<inter> mv_van_nullifier ` set votes = {}"
  by (induction b first ps ns votes rule: batchLoop.induct) (auto simp: bindR_Inr_iff)

lemma CastVoteBatch_validateBasic_Inr:
  "CastVoteBatch_validateBasic b msg = Inr u \<longleftrightarrow>
     mb_votes msg \<noteq> [] \<and> length (mb_votes msg) \<le> 50 \<and>
     (\<forall>v \<in> set (mb_votes msg). CastVote_validateBasic b v = Inr () \<and>
        mv_vote_round_id v = mv_vote_round_id (mb_votes msg ! 0) \<and>
        mv_anchor_height v = mv_anchor_height (mb_votes msg ! 0)) \<and>
     distinct (map mv_proposal_id (mb_votes msg)) \<and>
     distinct (map mv_van_nullifier (mb_votes msg))"
  by (auto simp: CastVoteBatch_validateBasic_def batchLoop_Inr_iff MaxCastVoteBatchSize_def
      MaxProposals_def)

lemma normalizeManagers_Inr:
  "normalizeManagers L acc addrs = Inr out \<Longrightarrow> distinct acc \<Longrightarrow>
     distinct out \<and> length out = length acc + length addrs \<and>
     map Some out = map Some acc @ map (canonicalAddr L) addrs"
  by (induction L acc addrs rule: normalizeManagers.induct) (auto split: option.splits)

text \<open>An accepted policy has distinct canonical members and a threshold they can reach.\<close>

lemma ValidateAndNormalizeVoteManagerPolicy_Inr:
  assumes "ValidateAndNormalizeVoteManagerPolicy L addrs t = Inr (out, t')"
  shows "distinct out" "out \<noteq> []" "length out = length addrs"
    "map Some out = map (canonicalAddr L) addrs"
    "t' = NormalizeVoteManagerThreshold t" "1 \<le> unat t'" "unat t' \<le> length out"
proof -
  from assms have n: "normalizeManagers L [] addrs = Inr out" "addrs \<noteq> []"
    and t: "t' = NormalizeVoteManagerThreshold t" "\<not> t' < 1" "t' \<le> word_of_nat (length out)"
    by (auto simp: ValidateAndNormalizeVoteManagerPolicy_def bindR_Inr_iff Let_def)
  note out = normalizeManagers_Inr[OF n(1), simplified]
  show "distinct out" "length out = length addrs"
    "map Some out = map (canonicalAddr L) addrs" using out by auto
  show "out \<noteq> []" using out n(2) by auto
  show "t' = NormalizeVoteManagerThreshold t" by (rule t(1))
  show "1 \<le> unat t'" using t(2) by (simp add: word_less_nat_alt)
  have "unat t' \<le> unat (word_of_nat (length out) :: u32)"
    using t(3) by (simp add: word_le_nat_alt)
  also have "\<dots> \<le> length out" by (simp add: unat_of_nat)
  finally show "unat t' \<le> length out" .
qed

text \<open>The signed byte strings determine the fields they carry.\<close>

lemma length_write32 [simp]: "length (write32 b) = 32"
  by (simp add: write32_def)

lemma write32_32 [simp]: "length b = 32 \<Longrightarrow> write32 b = b"
  by (simp add: write32_def)

lemma length_writeU32As32 [simp]: "length (writeU32As32 v) = 32"
  by (simp add: writeU32As32_def putUint32LE_def)

lemma length_writeU64As32 [simp]: "length (writeU64As32 v) = 32"
  by (simp add: writeU64As32_def putUint64LE_def)

lemma writeU32As32_inject [simp]: "writeU32As32 u = writeU32As32 v \<longleftrightarrow> u = v"
  by (simp add: writeU32As32_def putUint32LE_def)

lemma writeU64As32_inject [simp]: "writeU64As32 u = writeU64As32 v \<longleftrightarrow> u = v"
  by (simp add: writeU64As32_def putUint64LE_def)

lemma length_actionPreimage [simp]: "length (actionPreimage i v) = 192"
  by (simp add: actionPreimage_def)

text \<open>The fields of one action that its authorisation covers.\<close>

definition voteEffects :: "MsgCastVote \<Rightarrow> bytes \<times> bytes \<times> bytes \<times> bytes \<times> u32" where
  "voteEffects v = (mv_r_vpk v, mv_van_nullifier v, mv_vote_authority_note_new v,
     mv_vote_commitment v, mv_proposal_id v)"

lemma actionPreimage_inject:
  assumes "CastVote_validateBasic b v = Inr ()" "CastVote_validateBasic c w = Inr ()"
  shows "actionPreimage i v = actionPreimage i w \<longleftrightarrow> voteEffects v = voteEffects w"
  using CastVote_validateBasic_Inr[OF assms(1)] CastVote_validateBasic_Inr[OF assms(2)]
  by (simp add: actionPreimage_def voteEffects_def append_eq_same_length)

lemma actionsPreimage_inject:
  assumes "length vs = length ws"
    and "\<forall>v \<in> set vs. CastVote_validateBasic b v = Inr ()"
    and "\<forall>w \<in> set ws. CastVote_validateBasic c w = Inr ()"
  shows "actionsPreimage i vs = actionsPreimage i ws \<longleftrightarrow> map voteEffects vs = map voteEffects ws"
  using assms
proof (induction vs ws arbitrary: i rule: list_induct2)
  case Nil
  then show ?case by simp
next
  case (Cons v vs w ws)
  then show ?case by (simp add: append_eq_same_length actionPreimage_inject[of b v c w])
qed

lemma word_of_nat_32_inject:
  "m \<le> 50 \<Longrightarrow> n \<le> 50 \<Longrightarrow> (word_of_nat m :: u32) = word_of_nat n \<longleftrightarrow> m = n"
  by (simp add: word_of_nat_eq_iff take_bit_nat_eq_self)

lemma CastVoteBatch_round_id_length:
  assumes "CastVoteBatch_validateBasic b m = Inr ()"
  shows "length (mv_vote_round_id (mb_votes m ! 0)) = 32"
proof -
  note votes = assms[unfolded CastVoteBatch_validateBasic_Inr]
  from votes have "mb_votes m ! 0 \<in> set (mb_votes m)" by (metis length_greater_0_conv nth_mem)
  with votes have "CastVote_validateBasic b (mb_votes m ! 0) = Inr ()" by blast
  then show ?thesis by (rule CastVote_validateBasic_Inr(2))
qed

lemma castVoteBatchPreimage_inject:
  assumes m: "CastVoteBatch_validateBasic b m = Inr ()" and n: "CastVoteBatch_validateBasic c n = Inr ()"
    and eq: "castVoteBatchPreimage m = castVoteBatchPreimage n"
  shows "CastVoteBatch_GetVoteRoundId m = CastVoteBatch_GetVoteRoundId n \<and>
    mv_anchor_height (mb_votes m ! 0) = mv_anchor_height (mb_votes n ! 0) \<and>
    map voteEffects (mb_votes m) = map voteEffects (mb_votes n)"
proof -
  have vm: "\<forall>v \<in> set (mb_votes m). CastVote_validateBasic b v = Inr ()"
      "mb_votes m \<noteq> []" "length (mb_votes m) \<le> 50"
    and vn: "\<forall>v \<in> set (mb_votes n). CastVote_validateBasic c v = Inr ()"
      "mb_votes n \<noteq> []" "length (mb_votes n) \<le> 50"
    using m n unfolding CastVoteBatch_validateBasic_Inr by blast+
  have parts: "mv_vote_round_id (mb_votes m ! 0) = mv_vote_round_id (mb_votes n ! 0)"
    "mv_anchor_height (mb_votes m ! 0) = mv_anchor_height (mb_votes n ! 0)"
    "(word_of_nat (length (mb_votes m)) :: u32) = word_of_nat (length (mb_votes n))"
    "actionsPreimage 0 (mb_votes m) = actionsPreimage 0 (mb_votes n)"
    using eq CastVoteBatch_round_id_length[OF m] CastVoteBatch_round_id_length[OF n]
    by (simp_all add: castVoteBatchPreimage_def append_eq_same_length)
  then have "length (mb_votes m) = length (mb_votes n)"
    using word_of_nat_32_inject[OF vm(3) vn(3)] by simp
  then show ?thesis using parts actionsPreimage_inject[OF _ vm(1) vn(1)] vm(2) vn(2)
    by (simp add: CastVoteBatch_GetVoteRoundId_def)
qed

text \<open>No byte string is signed under two of the three domains.\<close>

lemma sighash_domains_disjoint:
  "castVotePreimage v \<noteq> castVoteBatchPreimage m"
  "castVotePreimage v \<noteq> delegateAndCastPreimage d m"
  "castVoteBatchPreimage m \<noteq> delegateAndCastPreimage d n"
  by (simp_all add: castVotePreimage_def castVoteBatchPreimage_def delegateAndCastPreimage_def
      CastVoteSighashDomain_def CastVoteBatchSighashDomain_def
      DelegateAndCastVoteBatchSighashDomain_def str_def of_char_def)

text \<open>
  C38. What a batch signature covers. If two batches pass validation and the byte strings
  their signatures are checked against coincide, the batches name the same round and anchor
  height and have the same ordered list of effects (randomised key, nullifier, successor
  note, vote commitment, proposal). No such byte string is also one that a single vote or a
  delegation with a batch signs.
\<close>

theorem batch_sighash_binds:
  assumes "CastVoteBatch_validateBasic b m = Inr ()" and "CastVoteBatch_validateBasic c n = Inr ()"
    and "castVoteBatchPreimage m = castVoteBatchPreimage n"
  shows "CastVoteBatch_GetVoteRoundId m = CastVoteBatch_GetVoteRoundId n \<and>
    mv_anchor_height (mb_votes m ! 0) = mv_anchor_height (mb_votes n ! 0) \<and>
    map voteEffects (mb_votes m) = map voteEffects (mb_votes n) \<and>
    (\<forall>v d k. castVoteBatchPreimage m \<noteq> castVotePreimage v \<and>
       castVoteBatchPreimage m \<noteq> delegateAndCastPreimage d k)"
  using castVoteBatchPreimage_inject[OF assms] sighash_domains_disjoint by metis

text \<open>
  A concrete instance of the library functions for witnesses: addresses are their own
  canonical form, every non-empty string parses, the digests are the bytes themselves.
\<close>

definition sampleLib :: lib where
  "sampleLib = \<lparr>AccAddressFromBech32 = (\<lambda>s. if s = [] then None else Some s),
     AccAddressString = (\<lambda>b. b),
     ValAddressFromBech32 = (\<lambda>s. if s = [] then None else Some s),
     ValAddressString = (\<lambda>b. b),
     NewIntFromString = (\<lambda>s. if s = [] then None else Some (int (length s))),
     blake2b256 = (\<lambda>b. b), sha256 = (\<lambda>b. b),
     unmarshalCreateVotingSession = (\<lambda>_. None),
     unmarshalUpdateVoteManagers = (\<lambda>_. None),
     unmarshalScheduleUpgrade = (\<lambda>_. None),
     unmarshalCancelUpgrade = (\<lambda>b. Some \<lparr>mcu_creator = b\<rparr>),
     unmarshalSetEndorser = (\<lambda>_. None),
     unmarshalAuthorizedSend = (\<lambda>_. None)\<rparr>"

text \<open>A concrete batch for the witness: one vote, with two different proofs.\<close>

definition sampleVote :: "bytes \<Rightarrow> MsgCastVote" where
  "sampleVote p = \<lparr>mv_van_nullifier = replicate 32 1, mv_vote_authority_note_new = replicate 32 2,
     mv_vote_commitment = replicate 32 3, mv_proposal_id = 1, mv_proof = p,
     mv_vote_round_id = replicate 32 4, mv_anchor_height = 7,
     mv_vote_auth_sig = replicate 64 5, mv_r_vpk = replicate 32 6\<rparr>"

definition sampleBatch :: "bytes \<Rightarrow> MsgCastVoteBatch" where
  "sampleBatch p = \<lparr>mb_votes = [sampleVote p]\<rparr>"

lemma sampleVote_valid: "CastVote_validateBasic False (sampleVote [x]) = Inr ()"
  by (simp add: CastVote_validateBasic_def sampleVote_def MinProposalID_def MaxProposals_def
      MaxProofSize_def RoundIDLen_def zeroPoint32_def replicate_eq_replicate)

theorem batch_sighash_binds_witness:
  "castVoteBatchPreimage (sampleBatch [1]) = castVoteBatchPreimage (sampleBatch [2]) \<and>
   map voteEffects (mb_votes (sampleBatch [1])) = map voteEffects (mb_votes (sampleBatch [2]))"
proof -
  have valid: "CastVoteBatch_validateBasic False (sampleBatch [x]) = Inr ()" for x
    using sampleVote_valid[of x]
    by (simp add: CastVoteBatch_validateBasic_def sampleBatch_def MaxCastVoteBatchSize_def
        MaxProposals_def)
  have eq: "castVoteBatchPreimage (sampleBatch [1]) = castVoteBatchPreimage (sampleBatch [2])"
    by (simp add: castVoteBatchPreimage_def sampleBatch_def sampleVote_def actionPreimage_def)
  show ?thesis using batch_sighash_binds[OF valid valid eq] eq by blast
qed

end
