(* ===== verification/Keeper_Rounds.thy ===== *)
theory Keeper_Rounds
  imports Vote_Msgs
begin

text \<open>
  Vote-round storage of \<^verbatim>\<open>src/x/vote/keeper/keeper.go\<close> (lookup, store, status update,
  the iterators over stored rounds) and the per-round ceremony helpers of
  \<^verbatim>\<open>keeper_ceremony.go\<close>. The keeper's state is the module's store; its methods are
  values of \<open>(vkv, 'a) M\<close>. The predicate \<open>kv_wf\<close> is the typing invariant of the store:
  under each key prefix lies a value of the type that prefix stands for, and a stored round,
  Pallas key or coordinator action sits under the key built from its own fields.
\<close>

section \<open>The block context\<close>

text \<open>
  What the code reads of \<^verbatim>\<open>sdk.Context\<close>. The block time is in Unix seconds and may be
  negative (an unset header); \<open>unixU64\<close> is the conversion \<^verbatim>\<open>uint64(t.Unix())\<close>.
\<close>

record ctx =
  block_time :: int
  block_height :: int
  chain_id :: gostring
  is_check_tx :: bool
  is_recheck_tx :: bool
  proposer_address :: bytes

definition unixU64 :: "ctx \<Rightarrow> u64" where "unixU64 c = word_of_int (block_time c)"
definition heightU64 :: "ctx \<Rightarrow> u64" where "heightU64 c = word_of_int (block_height c)"

section \<open>Decoding stored values\<close>

text \<open>\<^verbatim>\<open>unmarshal\<close> into a message type: a value of another type does not decode.\<close>

fun decodeRound :: "kvval \<Rightarrow> VoteRound res" where
  "decodeRound (VVoteRound r) = Inr r" | "decodeRound _ = Inl ErrOther"
fun decodeTreeState :: "kvval \<Rightarrow> CommitmentTreeState res" where
  "decodeTreeState (VTreeState r) = Inr r" | "decodeTreeState _ = Inl ErrOther"
fun decodeVoteManagerSet :: "kvval \<Rightarrow> VoteManagerSet res" where
  "decodeVoteManagerSet (VVoteManagerSet r) = Inr r" | "decodeVoteManagerSet _ = Inl ErrOther"
fun decodePallasKey :: "kvval \<Rightarrow> ValidatorPallasKey res" where
  "decodePallasKey (VPallasKey r) = Inr r" | "decodePallasKey _ = Inl ErrOther"
fun decodeAction :: "kvval \<Rightarrow> CoordinatorAction res" where
  "decodeAction (VCoordinatorAction r) = Inr r" | "decodeAction _ = Inl ErrOther"
fun decodeTallyResult :: "kvval \<Rightarrow> TallyResult res" where
  "decodeTallyResult (VTallyResult r) = Inr r" | "decodeTallyResult _ = Inl ErrOther"
fun decodePartial :: "kvval \<Rightarrow> PartialDecryptionEntry res" where
  "decodePartial (VPartialDecryption r) = Inr r" | "decodePartial _ = Inl ErrOther"
fun decodeCeremonyState :: "kvval \<Rightarrow> CeremonyState res" where
  "decodeCeremonyState (VCeremonyState r) = Inr r" | "decodeCeremonyState _ = Inl ErrOther"
fun decodeBytes :: "kvval \<Rightarrow> bytes res" where
  "decodeBytes (VBytes b) = Inr b" | "decodeBytes _ = Inl ErrOther"

lemma decode_Inr_iff [simp]:
  "decodeRound v = Inr r \<longleftrightarrow> v = VVoteRound r"
  "decodeTreeState v = Inr t \<longleftrightarrow> v = VTreeState t"
  "decodeVoteManagerSet v = Inr m \<longleftrightarrow> v = VVoteManagerSet m"
  "decodePallasKey v = Inr p \<longleftrightarrow> v = VPallasKey p"
  "decodeAction v = Inr a \<longleftrightarrow> v = VCoordinatorAction a"
  "decodeTallyResult v = Inr tr \<longleftrightarrow> v = VTallyResult tr"
  "decodePartial v = Inr pd \<longleftrightarrow> v = VPartialDecryption pd"
  "decodeCeremonyState v = Inr cs \<longleftrightarrow> v = VCeremonyState cs"
  "decodeBytes v = Inr b \<longleftrightarrow> v = VBytes b"
  by (cases v; auto)+

text \<open>A lookup whose value is decoded when it is present.\<close>

definition kvGetAs :: "(kvval \<Rightarrow> 'a res) \<Rightarrow> bytes \<Rightarrow> (vkv, 'a option) M" where
  "kvGetAs dec key =
     bindM (kvGet key) (\<lambda>bz. case bz of
        None \<Rightarrow> returnM None
      | Some v \<Rightarrow> bindM (liftR (dec v)) (\<lambda>a. returnM (Some a)))"

lemma kvGetAs_Inr_iff:
  "kvGetAs dec key s = (Inr a, s') \<longleftrightarrow> s' = s \<and>
     (case kv_get s key of None \<Rightarrow> a = None | Some v \<Rightarrow> (\<exists>x. dec v = Inr x \<and> a = Some x))"
  by (auto simp: kvGetAs_def kvGet_def succ_iffs split: option.splits)

lemma kvGetAs_state [simp]: "snd (kvGetAs dec key s) = s"
  by (auto simp: kvGetAs_def kvGet_def bindM_def returnM_def liftR_def getM_def
      split: option.splits sum.splits prod.splits)

section \<open>Round storage\<close>

definition GetVoteRound :: "bytes \<Rightarrow> (vkv, VoteRound) M" where
  "GetVoteRound roundID =
     bindM (liftR (VoteRoundKey roundID)) (\<lambda>key.
     bindM (kvGetAs decodeRound key) (\<lambda>r. case r of
        None \<Rightarrow> throwM ErrRoundNotFound
      | Some rd \<Rightarrow> returnM rd))"

definition SetVoteRound :: "VoteRound \<Rightarrow> (vkv, unit) M" where
  "SetVoteRound rd =
     bindM (liftR (VoteRoundKey (vote_round_id rd))) (\<lambda>key. kvSet key (VVoteRound rd))"

definition UpdateVoteRoundStatus :: "bytes \<Rightarrow> SessionStatus \<Rightarrow> (vkv, unit) M" where
  "UpdateVoteRoundStatus roundID newStatus =
     bindM (GetVoteRound roundID) (\<lambda>rd. SetVoteRound (rd\<lparr>status := newStatus\<rparr>))"

section \<open>Iterators\<close>

text \<open>
  The scan loop of the keeper's iterators: decode each value, skip what the filter rejects,
  call the callback, stop when it says so. The callback's captured variables are its second
  argument.
\<close>

fun iterLoop :: "(kvval \<Rightarrow> 'b res) \<Rightarrow> ('b \<Rightarrow> bool) \<Rightarrow> ('b \<Rightarrow> 'a \<Rightarrow> bool \<times> 'a) \<Rightarrow> 'a \<Rightarrow>
    (bytes \<times> kvval) list \<Rightarrow> 'a res" where
  "iterLoop dec filt cb acc [] = Inr acc"
| "iterLoop dec filt cb acc ((k, v) # es) =
     bindR (dec v) (\<lambda>x.
       if \<not> filt x then iterLoop dec filt cb acc es
       else (case cb x acc of (stop, acc') \<Rightarrow>
               if stop then Inr acc' else iterLoop dec filt cb acc' es))"

definition iterateRounds ::
  "(VoteRound \<Rightarrow> bool) \<Rightarrow> (VoteRound \<Rightarrow> 'a \<Rightarrow> bool \<times> 'a) \<Rightarrow> 'a \<Rightarrow> (vkv, 'a) M" where
  "iterateRounds filt cb acc =
     bindM (kvScan VoteRoundPrefix) (\<lambda>es. liftR (iterLoop decodeRound filt cb acc es))"

definition IterateAllRounds :: "(VoteRound \<Rightarrow> 'a \<Rightarrow> bool \<times> 'a) \<Rightarrow> 'a \<Rightarrow> (vkv, 'a) M" where
  "IterateAllRounds cb acc = iterateRounds (\<lambda>_. True) cb acc"

definition IteratePendingRounds :: "(VoteRound \<Rightarrow> 'a \<Rightarrow> bool \<times> 'a) \<Rightarrow> 'a \<Rightarrow> (vkv, 'a) M" where
  "IteratePendingRounds cb acc = iterateRounds (\<lambda>r. status r = SESSION_STATUS_PENDING) cb acc"

definition IterateActiveRounds :: "(VoteRound \<Rightarrow> 'a \<Rightarrow> bool \<times> 'a) \<Rightarrow> 'a \<Rightarrow> (vkv, 'a) M" where
  "IterateActiveRounds cb acc = iterateRounds (\<lambda>r. status r = SESSION_STATUS_ACTIVE) cb acc"

definition IterateTallyingRounds :: "(VoteRound \<Rightarrow> 'a \<Rightarrow> bool \<times> 'a) \<Rightarrow> 'a \<Rightarrow> (vkv, 'a) M" where
  "IterateTallyingRounds cb acc = iterateRounds (\<lambda>r. status r = SESSION_STATUS_TALLYING) cb acc"

definition HasPendingRound :: "(vkv, bool) M" where
  "HasPendingRound = IteratePendingRounds (\<lambda>_ _. (True, True)) False"

definition FindFirstPendingRound :: "CeremonyStatus \<Rightarrow> (vkv, VoteRound option) M" where
  "FindFirstPendingRound ceremonyStatus =
     IteratePendingRounds (\<lambda>r result.
       if ceremony_status r = ceremonyStatus then (True, Some r) else (False, result)) None"

section \<open>Ceremony helpers\<close>

definition GetCeremonyState :: "(vkv, CeremonyState option) M" where
  "GetCeremonyState = kvGetAs decodeCeremonyState CeremonyStateKey"

definition SetCeremonyState :: "CeremonyState \<Rightarrow> (vkv, unit) M" where
  "SetCeremonyState st = kvSet CeremonyStateKey (VCeremonyState st)"

text \<open>Decimal and hexadecimal rendering, as \<^verbatim>\<open>fmt\<close> and \<^verbatim>\<open>hex\<close> do it.\<close>

fun fmtNat :: "nat \<Rightarrow> gostring" where
  "fmtNat n = (if n < 10 then [word_of_nat (48 + n)] else fmtNat (n div 10) @ [word_of_nat (48 + n mod 10)])"

declare fmtNat.simps [simp del]

definition fmtU64 :: "u64 \<Rightarrow> gostring" where "fmtU64 w = fmtNat (unat w)"

definition hexDigit :: "nat \<Rightarrow> u8" where
  "hexDigit n = (if n < 10 then word_of_nat (48 + n) else word_of_nat (87 + n))"

definition hexEncode :: "bytes \<Rightarrow> gostring" where
  "hexEncode b = concat (map (\<lambda>x. [hexDigit (unat x div 16), hexDigit (unat x mod 16)]) b)"

definition AppendCeremonyLog :: "VoteRound \<Rightarrow> u64 \<Rightarrow> gostring \<Rightarrow> VoteRound" where
  "AppendCeremonyLog rd blockHeight msg =
     rd\<lparr>ceremony_log := ceremony_log rd @
        [str ''[height='' @ fmtU64 blockHeight @ str ''] '' @ msg]\<rparr>"

definition ThresholdForN :: "int \<Rightarrow> int res" where
  "ThresholdForN n =
     failIfR (n < 1) ErrOther (
     if n = 1 then Inr 1
     else (let t = (2 * n + 2) div 3 in Inr (if t < 2 then 2 else t)))"

definition RequiredCeremonyQuorumForN :: "int \<Rightarrow> int res" where
  "RequiredCeremonyQuorumForN n = failIfR (n < 1) ErrOther (Inr ((4 * n + 4) div 5))"

definition HalfAcked :: "VoteRound \<Rightarrow> bool" where
  "HalfAcked rd =
     (if length (ceremony_validators rd) = 0 then False
      else length (ceremony_acks rd) * 2 \<ge> length (ceremony_validators rd))"

definition FindValidatorInRoundCeremony :: "VoteRound \<Rightarrow> gostring \<Rightarrow> ValidatorPallasKey option"
where
  "FindValidatorInRoundCeremony rd valAddr =
     find (\<lambda>v. vpk_validator_address v = valAddr) (ceremony_validators rd)"

definition FindContributionInRound :: "VoteRound \<Rightarrow> gostring \<Rightarrow> DKGContribution option" where
  "FindContributionInRound rd valAddr =
     find (\<lambda>c. dkg_validator_address c = valAddr) (dkg_contributions rd)"

fun findIndexFrom :: "nat \<Rightarrow> ('a \<Rightarrow> bool) \<Rightarrow> 'a list \<Rightarrow> nat option" where
  "findIndexFrom i p [] = None"
| "findIndexFrom i p (x # xs) = (if p x then Some i else findIndexFrom (Suc i) p xs)"

definition FindAckInRoundCeremony :: "VoteRound \<Rightarrow> gostring \<Rightarrow> nat option" where
  "FindAckInRoundCeremony rd valAddr =
     findIndexFrom 0 (\<lambda>a. ack_validator_address a = valAddr) (ceremony_acks rd)"

definition StripNonAckersFromRound :: "VoteRound \<Rightarrow> VoteRound" where
  "StripNonAckersFromRound rd =
     (let acked = map ack_validator_address (ceremony_acks rd) in
      rd\<lparr>ceremony_validators :=
           filter (\<lambda>v. vpk_validator_address v \<in> set acked) (ceremony_validators rd),
         dkg_contributions :=
           filter (\<lambda>c. dkg_validator_address c \<in> set acked) (dkg_contributions rd)\<rparr>)"

definition IsValidatorInPendingCeremony :: "gostring \<Rightarrow> (vkv, bool) M" where
  "IsValidatorInPendingCeremony valAddr =
     IteratePendingRounds (\<lambda>r found.
       if FindValidatorInRoundCeremony r valAddr \<noteq> None then (True, True) else (False, found)) False"

definition GetPendingRoundWithCeremony :: "bytes \<Rightarrow> CeremonyStatus \<Rightarrow> (vkv, VoteRound) M" where
  "GetPendingRoundWithCeremony roundID wantCeremony =
     bindM (GetVoteRound roundID) (\<lambda>rd.
     failIf (status rd \<noteq> SESSION_STATUS_PENDING) ErrCeremonyWrongStatus (
     failIf (ceremony_status rd \<noteq> wantCeremony) ErrCeremonyWrongStatus (
     returnM rd)))"

section \<open>The typing invariant of the store\<close>

definition entry_ok :: "bytes \<Rightarrow> kvval \<Rightarrow> bool" where
  "entry_ok k v =
     (if k = [] then False
      else if hd k = 0x04 then
        (case v of VVoteRound r \<Rightarrow> tl k = vote_round_id r \<and> length (tl k) = 32 | _ \<Rightarrow> False)
      else if hd k = 0x05 \<or> hd k = 0x0B then
        (case v of VBytes _ \<Rightarrow> length k = 41 | _ \<Rightarrow> False)
      else if hd k = 0x07 then
        (case v of VTallyResult r \<Rightarrow> TallyResultKey (tr_vote_round_id r) (tr_proposal_id r)
                                       (tr_vote_decision r) = Inr k | _ \<Rightarrow> False)
      else if hd k = 0x0A then (case v of VVoteManagerSet _ \<Rightarrow> k = VoteManagerSetKey | _ \<Rightarrow> False)
      else if hd k = 0x0C then
        (case v of VPallasKey p \<Rightarrow> tl k = vpk_validator_address p | _ \<Rightarrow> False)
      else if hd k = 0x0E then (case v of VCeremonyState _ \<Rightarrow> k = CeremonyStateKey | _ \<Rightarrow> False)
      else if hd k = 0x12 then
        (case v of VPartialDecryption p \<Rightarrow>
           length k = 45 \<and> drop 37 k = putUint32BE (pd_proposal_id p) @ putUint32BE (pd_vote_decision p)
         | _ \<Rightarrow> False)
      else if hd k = 0x14 then
        (length k = 34 \<and> k ! 33 = 0x06) = (case v of VTreeState _ \<Rightarrow> True | _ \<Rightarrow> False)
      else if hd k = 0x18 then
        (case v of VCoordinatorAction a \<Rightarrow> k = CoordinatorActionKey (action_id a) | _ \<Rightarrow> False)
      else (case v of VBytes _ \<Rightarrow> True | _ \<Rightarrow> False))"

definition kv_wf :: "vkv \<Rightarrow> bool" where
  "kv_wf s \<longleftrightarrow> kv_ok s \<and> list_all (\<lambda>(k, v). entry_ok k v) s"

lemma kv_wf_ok: "kv_wf s \<Longrightarrow> kv_ok s"
  by (simp add: kv_wf_def)

lemma kv_wf_iff: "kv_wf s \<longleftrightarrow> kv_ok s \<and> (\<forall>k v. kv_get s k = Some v \<longrightarrow> entry_ok k v)"
  by (auto simp: kv_wf_def list_all_iff kv_ok_mem_iff[symmetric])

lemma kv_wf_get: "kv_wf s \<Longrightarrow> kv_get s k = Some v \<Longrightarrow> entry_ok k v"
  by (simp add: kv_wf_iff)

lemma kv_wf_set: "kv_wf s \<Longrightarrow> entry_ok k v \<Longrightarrow> kv_wf (kv_set k v s)"
  by (auto simp: kv_wf_iff get_simps kv_ok_kv_set)

lemma kv_wf_delete: "kv_wf s \<Longrightarrow> kv_wf (kv_delete k s)"
  by (auto simp: kv_wf_iff get_simps kv_ok_kv_delete split: if_splits)

lemma kv_wf_Nil [simp]: "kv_wf []"
  by (simp add: kv_wf_def)

lemma entry_ok_round: "entry_ok (0x04 # r) v \<longleftrightarrow> (\<exists>rd. v = VVoteRound rd \<and> r = vote_round_id rd \<and> length r = 32)"
  by (cases v) (auto simp: entry_ok_def)

section \<open>What the round operations do\<close>

text \<open>
  Typed views of the store: the decoded value under a key, and the decoded values of a list
  of entries.
\<close>

definition okOpt :: "'a res \<Rightarrow> 'a option" where
  "okOpt r = (case r of Inr x \<Rightarrow> Some x | Inl _ \<Rightarrow> None)"

definition view :: "(kvval \<Rightarrow> 'a res) \<Rightarrow> vkv \<Rightarrow> bytes \<Rightarrow> 'a option" where
  "view dec s k = Option.bind (kv_get s k) (\<lambda>v. okOpt (dec v))"

definition decoded :: "(kvval \<Rightarrow> 'a res) \<Rightarrow> (bytes \<times> kvval) list \<Rightarrow> 'a list" where
  "decoded dec es = List.map_filter (\<lambda>e. okOpt (dec (snd e))) es"

lemma okOpt_Some_iff [simp]: "okOpt r = Some x \<longleftrightarrow> r = Inr x"
  by (auto simp: okOpt_def split: sum.splits)

lemma view_Some_iff: "view dec s k = Some x \<longleftrightarrow> (\<exists>v. kv_get s k = Some v \<and> dec v = Inr x)"
  by (auto simp: view_def bind_eq_Some_conv)

lemma decoded_simps [simp]:
  "decoded dec [] = []"
  "decoded dec (e # es) = (case dec (snd e) of Inr x \<Rightarrow> x # decoded dec es | Inl _ \<Rightarrow> decoded dec es)"
  by (simp_all add: decoded_def okOpt_def List.map_filter_simps split: sum.splits)

lemma mem_decoded_iff: "x \<in> set (decoded dec es) \<longleftrightarrow> (\<exists>k v. (k, v) \<in> set es \<and> dec v = Inr x)"
proof (induction es)
  case Nil
  then show ?case by simp
next
  case (Cons e es)
  then show ?case by (cases e) (auto split: sum.splits)
qed

lemma view_set: "view dec (kv_set k v s) = (view dec s)(k := okOpt (dec v))"
  by (rule ext) (simp add: view_def get_simps)

lemma view_delete: "view dec (kv_delete k s) = (view dec s)(k := None)"
  by (rule ext) (simp add: view_def get_simps)

lemma view_mono_frame: "kv_get s k = kv_get s' k \<Longrightarrow> view dec s k = view dec s' k"
  by (simp add: view_def)

text \<open>The round stored under an id, and all stored rounds in key order.\<close>

definition roundOf :: "vkv \<Rightarrow> bytes \<Rightarrow> VoteRound option" where
  "roundOf s r = view decodeRound s (0x04 # r)"

definition roundsOf :: "vkv \<Rightarrow> VoteRound list" where
  "roundsOf s = decoded decodeRound (kv_scan VoteRoundPrefix s)"

lemma roundOf_Some_iff: "roundOf s r = Some rd \<longleftrightarrow> kv_get s (0x04 # r) = Some (VVoteRound rd)"
  by (simp add: roundOf_def view_Some_iff)

lemma VoteRoundKey_Inr_iff: "VoteRoundKey r = Inr k \<longleftrightarrow> length r = 32 \<and> k = 0x04 # r"
  by (auto simp: key_simps bindR_Inr_iff)

lemma roundOf_wf:
  "kv_wf s \<Longrightarrow> roundOf s r = Some rd \<Longrightarrow> vote_round_id rd = r \<and> length r = 32"
  using kv_wf_get[of s "0x04 # r" "VVoteRound rd"] by (auto simp: roundOf_Some_iff entry_ok_round)

lemma GetVoteRound_Inr_iff:
  "GetVoteRound r s = (Inr rd, s') \<longleftrightarrow> s' = s \<and> length r = 32 \<and> roundOf s r = Some rd"
  unfolding GetVoteRound_def bindM_Inr_iff liftR_Inr_iff VoteRoundKey_Inr_iff kvGetAs_Inr_iff
    roundOf_Some_iff
  by (cases "kv_get s (0x04 # r)") (auto simp: succ_iffs)

lemma GetVoteRound_state [simp]: "snd (GetVoteRound r s) = s"
proof (cases "length r = 32")
  case True
  then show ?thesis
    by (auto simp: GetVoteRound_def key_simps ValidateRoundID_ok kvGetAs_def kvGet_def bindM_def
        returnM_def throwM_def liftR_def getM_def split: option.splits sum.splits)
next
  case False
  then show ?thesis
    by (simp add: GetVoteRound_def key_simps ValidateRoundID_bad bindM_def liftR_def)
qed

text \<open>On a well-formed store the lookup is total: found, not found, or a bad id.\<close>

lemma GetVoteRound_wf:
  assumes "kv_wf s" and "length r = 32"
  shows "GetVoteRound r s =
    ((case roundOf s r of None \<Rightarrow> Inl ErrRoundNotFound | Some rd \<Rightarrow> Inr rd), s)"
proof (cases "kv_get s (0x04 # r)")
  case None
  with assms show ?thesis
    by (simp add: GetVoteRound_def key_simps ValidateRoundID_ok kvGetAs_def kvGet_def bindM_def
        liftR_def getM_def returnM_def throwM_def roundOf_def view_def)
next
  case (Some v)
  with kv_wf_get[OF assms(1) Some] obtain rd where "v = VVoteRound rd"
    by (auto simp: entry_ok_round)
  with Some assms(2) have "roundOf s r = Some rd" by (simp add: roundOf_Some_iff)
  then show ?thesis using GetVoteRound_Inr_iff[of r s rd s] assms(2) by simp
qed

lemma SetVoteRound_Inr_iff:
  "SetVoteRound rd s = (Inr u, s') \<longleftrightarrow>
     length (vote_round_id rd) = 32 \<and> s' = kv_set (0x04 # vote_round_id rd) (VVoteRound rd) s"
  by (auto simp: SetVoteRound_def succ_iffs VoteRoundKey_Inr_iff kvSet_def)

lemma SetVoteRound_ok:
  "length (vote_round_id rd) = 32 \<Longrightarrow>
     SetVoteRound rd s = (Inr (), kv_set (0x04 # vote_round_id rd) (VVoteRound rd) s)"
  by (simp add: SetVoteRound_Inr_iff)

lemma roundOf_set_round [get_simps]:
  "roundOf (kv_set (0x04 # r) (VVoteRound rd) s) = (roundOf s)(r \<mapsto> rd)"
  by (rule ext) (simp add: roundOf_def view_set okOpt_def)

lemma roundOf_set_other [get_simps]: "hd k \<noteq> 0x04 \<Longrightarrow> roundOf (kv_set k v s) = roundOf s"
  by (rule ext) (auto simp: roundOf_def view_set view_delete)

lemma roundOf_delete_other [get_simps]: "hd k \<noteq> 0x04 \<Longrightarrow> roundOf (kv_delete k s) = roundOf s"
  by (rule ext) (auto simp: roundOf_def view_set view_delete)

lemma kv_wf_set_round:
  "kv_wf s \<Longrightarrow> length (vote_round_id rd) = 32 \<Longrightarrow>
     kv_wf (kv_set (0x04 # vote_round_id rd) (VVoteRound rd) s)"
  by (simp add: kv_wf_set entry_ok_round)

section \<open>What the iterators do\<close>

fun foldUntil :: "('b \<Rightarrow> 'a \<Rightarrow> bool \<times> 'a) \<Rightarrow> 'a \<Rightarrow> 'b list \<Rightarrow> 'a" where
  "foldUntil cb acc [] = acc"
| "foldUntil cb acc (x # xs) =
     (case cb x acc of (stop, acc') \<Rightarrow> if stop then acc' else foldUntil cb acc' xs)"

text \<open>When every value decodes, the scan loop is a fold over the decoded values.\<close>

lemma iterLoop_decoded:
  "(\<And>k v. (k, v) \<in> set es \<Longrightarrow> \<exists>x. dec v = Inr x) \<Longrightarrow>
     iterLoop dec filt cb acc es = Inr (foldUntil cb acc (filter filt (decoded dec es)))"
proof (induction es arbitrary: acc)
  case Nil
  then show ?case by simp
next
  case (Cons e es)
  obtain k v where e: "e = (k, v)" by (cases e)
  obtain x where "dec v = Inr x" using Cons.prems[of k v] e by auto
  moreover have "iterLoop dec filt cb a es = Inr (foldUntil cb a (filter filt (decoded dec es)))" for a
    using Cons.IH Cons.prems by (meson list.set_intros(2))
  ultimately show ?case using e by (simp split: prod.splits)
qed

lemma round_scan_wf:
  assumes "kv_wf s" and "(k, v) \<in> set (kv_scan VoteRoundPrefix s)"
  shows "\<exists>rd. v = VVoteRound rd \<and> k = 0x04 # vote_round_id rd \<and> length (vote_round_id rd) = 32"
proof -
  from assms have "kv_get s k = Some v" "prefix VoteRoundPrefix k"
    by (simp_all add: kv_scan_iff[OF kv_wf_ok])
  then obtain r where k: "k = 0x04 # r" by (auto simp: key_simps prefix_def)
  with kv_wf_get[OF assms(1) \<open>kv_get s k = Some v\<close>] show ?thesis by (auto simp: entry_ok_round)
qed

lemma mem_roundsOf_iff:
  assumes "kv_wf s"
  shows "rd \<in> set (roundsOf s) \<longleftrightarrow> (\<exists>r. roundOf s r = Some rd)"
  by (auto simp: roundsOf_def mem_decoded_iff kv_scan_iff[OF kv_wf_ok[OF assms]] roundOf_Some_iff
      key_simps prefix_def)

lemma iterateRounds_wf:
  assumes "kv_wf s"
  shows "iterateRounds filt cb acc s = (Inr (foldUntil cb acc (filter filt (roundsOf s))), s)"
proof -
  have "iterLoop decodeRound filt cb acc (kv_scan VoteRoundPrefix s) =
      Inr (foldUntil cb acc (filter filt (roundsOf s)))"
    unfolding roundsOf_def
    by (rule iterLoop_decoded) (use round_scan_wf[OF assms] in fastforce)
  then show ?thesis by (simp add: iterateRounds_def kvScan_def bindM_def getM_def liftR_def)
qed

lemma foldUntil_found:
  "foldUntil (\<lambda>x found. if P x then (True, True) else (False, found)) b xs \<longleftrightarrow>
     b \<or> (\<exists>x \<in> set xs. P x)"
  by (induction xs arbitrary: b) auto

lemma HasPendingRound_wf:
  assumes "kv_wf s"
  shows "HasPendingRound s =
    (Inr (\<exists>r rd. roundOf s r = Some rd \<and> status rd = SESSION_STATUS_PENDING), s)"
proof -
  have "foldUntil (\<lambda>_ _. (True, True)) False xs \<longleftrightarrow> xs \<noteq> []" for xs :: "VoteRound list"
    by (cases xs) simp_all
  moreover have "filter (\<lambda>r. status r = SESSION_STATUS_PENDING) (roundsOf s) \<noteq> [] \<longleftrightarrow>
      (\<exists>r rd. roundOf s r = Some rd \<and> status rd = SESSION_STATUS_PENDING)"
    using mem_roundsOf_iff[OF assms] by (simp add: filter_empty_conv) blast
  ultimately show ?thesis
    by (simp add: HasPendingRound_def IteratePendingRounds_def iterateRounds_wf[OF assms])
qed

lemma IsValidatorInPendingCeremony_wf:
  assumes "kv_wf s"
  shows "IsValidatorInPendingCeremony a s =
    (Inr (\<exists>r rd. roundOf s r = Some rd \<and> status rd = SESSION_STATUS_PENDING \<and>
            FindValidatorInRoundCeremony rd a \<noteq> None), s)"
  by (auto simp: IsValidatorInPendingCeremony_def IteratePendingRounds_def
      iterateRounds_wf[OF assms] foldUntil_found mem_roundsOf_iff[OF assms])

lemma GetPendingRoundWithCeremony_Inr_iff:
  "GetPendingRoundWithCeremony r c s = (Inr rd, s') \<longleftrightarrow>
     s' = s \<and> length r = 32 \<and> roundOf s r = Some rd \<and>
     status rd = SESSION_STATUS_PENDING \<and> ceremony_status rd = c"
  by (auto simp: GetPendingRoundWithCeremony_def succ_iffs GetVoteRound_Inr_iff)

section \<open>Thresholds\<close>

text \<open>
  The tally threshold and the ceremony quorum fit together. For \<open>n \<ge> 1\<close> validators the
  threshold is between 1 and \<open>n\<close>, at least two thirds of \<open>n\<close> and less than one above it
  (two validators always need both), and the quorum of acknowledgements that confirms a
  ceremony is never below the threshold: the validators that stay after non-ackers are
  stripped can always reconstruct.
\<close>

lemma threshold_quorum:
  assumes "n \<ge> 1"
  shows "\<exists>t q. ThresholdForN n = Inr t \<and> RequiredCeremonyQuorumForN n = Inr q \<and>
    1 \<le> t \<and> t \<le> q \<and> q \<le> n \<and> 2 * n \<le> 3 * t \<and> 3 * t \<le> 2 * n + 2 \<and> 4 * n \<le> 5 * q \<and> 5 * q < 4 * n + 5"
proof -
  define t where "t = (if n = 1 then 1 else if (2 * n + 2) div 3 < 2 then 2 else (2 * n + 2) div 3)"
  define q where "q = (4 * n + 4) div 5"
  have "1 \<le> t \<and> t \<le> q \<and> q \<le> n \<and> 2 * n \<le> 3 * t \<and> 3 * t \<le> 2 * n + 2 \<and> 4 * n \<le> 5 * q \<and> 5 * q < 4 * n + 5"
    using assms unfolding t_def q_def by (auto split: if_splits)
  moreover have "ThresholdForN n = Inr t" "RequiredCeremonyQuorumForN n = Inr q"
    using assms by (auto simp: ThresholdForN_def RequiredCeremonyQuorumForN_def t_def q_def Let_def)
  ultimately show ?thesis by blast
qed

lemma StripNonAckers_fields [simp]:
  "vote_round_id (StripNonAckersFromRound rd) = vote_round_id rd"
  "status (StripNonAckersFromRound rd) = status rd"
  "ceremony_acks (StripNonAckersFromRound rd) = ceremony_acks rd"
  "threshold (StripNonAckersFromRound rd) = threshold rd"
  "feldman_commitments (StripNonAckersFromRound rd) = feldman_commitments rd"
  "ea_pk (StripNonAckersFromRound rd) = ea_pk rd"
  by (simp_all add: StripNonAckersFromRound_def Let_def)

lemma AppendCeremonyLog_fields [simp]:
  "vote_round_id (AppendCeremonyLog rd h m) = vote_round_id rd"
  "status (AppendCeremonyLog rd h m) = status rd"
  "ceremony_status (AppendCeremonyLog rd h m) = ceremony_status rd"
  "ceremony_validators (AppendCeremonyLog rd h m) = ceremony_validators rd"
  "ceremony_acks (AppendCeremonyLog rd h m) = ceremony_acks rd"
  "dkg_contributions (AppendCeremonyLog rd h m) = dkg_contributions rd"
  "threshold (AppendCeremonyLog rd h m) = threshold rd"
  "feldman_commitments (AppendCeremonyLog rd h m) = feldman_commitments rd"
  "ea_pk (AppendCeremonyLog rd h m) = ea_pk rd"
  "vote_end_time (AppendCeremonyLog rd h m) = vote_end_time rd"
  "proposals (AppendCeremonyLog rd h m) = proposals rd"
  by (simp_all add: AppendCeremonyLog_def)

end
