(* ===== verification/Keeper_Voting.thy ===== *)
theory Keeper_Voting
  imports Keeper_Rounds
begin

text \<open>
  Nullifier sets, per-round commitment trees, block-to-leaf indices and the round and
  proposal checks of \<^verbatim>\<open>src/x/vote/keeper/keeper_voting.go\<close>, and the minimum-validator
  setting of \<^verbatim>\<open>keeper_min_validators.go\<close>. A stored tree is related to the abstract list
  of its leaves; appending a commitment appends to that list.
\<close>

section \<open>Nullifiers\<close>

definition HasNullifier :: "NullifierType \<Rightarrow> bytes \<Rightarrow> bytes \<Rightarrow> (vkv, bool) M" where
  "HasNullifier nfType roundID nullifier =
     bindM (liftR (NullifierKey nfType roundID nullifier)) (\<lambda>key. kvHas key)"

definition SetNullifier :: "NullifierType \<Rightarrow> bytes \<Rightarrow> bytes \<Rightarrow> (vkv, unit) M" where
  "SetNullifier nfType roundID nullifier =
     bindM (liftR (NullifierKey nfType roundID nullifier)) (\<lambda>key. kvSet key (VBytes [1]))"

definition CheckAndSetNullifier :: "NullifierType \<Rightarrow> bytes \<Rightarrow> bytes \<Rightarrow> (vkv, unit) M" where
  "CheckAndSetNullifier nfType roundID nullifier =
     bindM (HasNullifier nfType roundID nullifier) (\<lambda>has.
     failIf has ErrDuplicateNullifier (
     SetNullifier nfType roundID nullifier))"

definition CheckNullifiersUnique :: "NullifierType \<Rightarrow> bytes \<Rightarrow> bytes list \<Rightarrow> (vkv, unit) M" where
  "CheckNullifiersUnique nfType roundID nullifiers =
     forM nullifiers (\<lambda>nf.
       bindM (HasNullifier nfType roundID nf) (\<lambda>has.
       failIf has ErrDuplicateNullifier (returnM ())))"

section \<open>Commitment tree\<close>

definition emptyTreeState :: CommitmentTreeState where
  "emptyTreeState = \<lparr>next_index = 0, tree_root = [], tree_height = 0, next_index_at_root = 0\<rparr>"

definition GetCommitmentTreeState :: "bytes \<Rightarrow> (vkv, CommitmentTreeState) M" where
  "GetCommitmentTreeState roundID =
     bindM (kvGetAs decodeTreeState (RoundTreeStateKey roundID)) (\<lambda>st. case st of
        None \<Rightarrow> returnM emptyTreeState
      | Some state \<Rightarrow> returnM state)"

definition SetCommitmentTreeState :: "bytes \<Rightarrow> CommitmentTreeState \<Rightarrow> (vkv, unit) M" where
  "SetCommitmentTreeState roundID state = kvSet (RoundTreeStateKey roundID) (VTreeState state)"

definition AppendCommitment :: "bytes \<Rightarrow> bytes \<Rightarrow> (vkv, u64) M" where
  "AppendCommitment roundID commitment =
     bindM (GetCommitmentTreeState roundID) (\<lambda>state.
     let index = next_index state in
     thenM (kvSet (CommitmentLeafKey roundID index) (VBytes commitment)) (
     thenM (SetCommitmentTreeState roundID (state\<lparr>next_index := index + 1\<rparr>)) (
     returnM index)))"

section \<open>Block leaf index\<close>

definition SetBlockLeafIndex :: "bytes \<Rightarrow> u64 \<Rightarrow> u64 \<Rightarrow> u64 \<Rightarrow> (vkv, unit) M" where
  "SetBlockLeafIndex roundID height startIndex count =
     kvSet (BlockLeafIndexKey roundID height) (VBytes (putUint64BE startIndex @ putUint64BE count))"

text \<open>A missing entry reads as nil, whose length is 0.\<close>

definition nilBytes :: "bytes option \<Rightarrow> bytes" where
  "nilBytes b = (case b of None \<Rightarrow> [] | Some x \<Rightarrow> x)"

definition GetBlockLeafIndex :: "bytes \<Rightarrow> u64 \<Rightarrow> (vkv, (u64 \<times> u64) option) M" where
  "GetBlockLeafIndex roundID height =
     bindM (kvGetAs decodeBytes (BlockLeafIndexKey roundID height)) (\<lambda>v.
     let val = nilBytes v in
     if length val < 16 then returnM None
     else (case (getUint64BE (take 8 val), getUint64BE (take 8 (drop 8 val))) of
             (Some startIndex, Some count) \<Rightarrow> returnM (Some (startIndex, count))
           | _ \<Rightarrow> throwM GoPanic))"

definition GetCommitmentRootAtHeight :: "bytes \<Rightarrow> u64 \<Rightarrow> (vkv, bytes option) M" where
  "GetCommitmentRootAtHeight roundID height =
     kvGetAs decodeBytes (CommitmentRootKey roundID height)"

definition SetCommitmentRootAtHeight :: "bytes \<Rightarrow> u64 \<Rightarrow> bytes \<Rightarrow> (vkv, unit) M" where
  "SetCommitmentRootAtHeight roundID height root =
     kvSet (CommitmentRootKey roundID height) (VBytes root)"

record BlockCommitments =
  bc_height :: u64
  bc_start_index :: u64
  bc_leaves :: "bytes list"
  bc_root :: bytes

text \<open>The inner loop: \<open>n\<close> leaves from index \<open>idx\<close> on, each of which must have 32 bytes.\<close>

fun readLeaves :: "bytes \<Rightarrow> u64 \<Rightarrow> nat \<Rightarrow> (vkv, bytes list) M" where
  "readLeaves roundID idx 0 = returnM []"
| "readLeaves roundID idx (Suc n) =
     bindM (kvGetAs decodeBytes (CommitmentLeafKey roundID idx)) (\<lambda>leaf.
     failIf (length (nilBytes leaf) \<noteq> 32) ErrOther (
     bindM (readLeaves roundID (idx + 1) n) (\<lambda>leaves.
     returnM (nilBytes leaf # leaves))))"

text \<open>The start index, count and height read from an index entry; \<open>None\<close> is an index panic.\<close>

definition readIndexEntry :: "bytes \<Rightarrow> bytes \<Rightarrow> bytes \<Rightarrow> (u64 \<times> u64 \<times> u64) option" where
  "readIndexEntry roundID key val =
     Option.bind (getUint64BE (take 8 val)) (\<lambda>startIndex.
     Option.bind (getUint64BE (take 8 (drop 8 val))) (\<lambda>count.
     Option.bind (getUint64BE (drop (length (RoundTreeKey roundID) + 1) key)) (\<lambda>height.
     Some (startIndex, count, height))))"

text \<open>The part of an iteration that reads the leaves and the root of one block.\<close>

definition readBlock :: "bytes \<Rightarrow> u64 \<times> u64 \<times> u64 \<Rightarrow> (vkv, BlockCommitments) M" where
  "readBlock roundID = (\<lambda>(startIndex, count, height).
     bindM (readLeaves roundID startIndex (unat count)) (\<lambda>leaves.
     bindM (GetCommitmentRootAtHeight roundID height) (\<lambda>root.
     failIf (length (nilBytes root) \<noteq> 32) ErrOther (
     returnM \<lparr>bc_height = height, bc_start_index = startIndex, bc_leaves = leaves,
              bc_root = nilBytes root\<rparr>))))"

fun leavesLoop :: "bytes \<Rightarrow> u64 \<Rightarrow> BlockCommitments list \<Rightarrow> u64 \<Rightarrow> (bytes \<times> kvval) list \<Rightarrow>
    (vkv, BlockCommitments list \<times> u64) M" where
  "leavesLoop roundID toHeight blocks leafCount [] = returnM (blocks, 0)"
| "leavesLoop roundID toHeight blocks leafCount ((key, v) # entries) =
     bindM (liftR (decodeBytes v)) (\<lambda>val.
     failIf (length val < 16) ErrOther (
     case readIndexEntry roundID key val of
       None \<Rightarrow> throwM GoPanic
     | Some (startIndex, count, height) \<Rightarrow>
         if blocks \<noteq> [] \<and> leafCount + count > MaxCommitmentLeavesPerResponse
         then returnM (blocks, height)
         else
           bindM (readBlock roundID (startIndex, count, height)) (\<lambda>block.
           let blocks' = blocks @ [block] in
           if count > MaxCommitmentLeavesPerResponse then
             (case entries of
                [] \<Rightarrow> returnM (blocks', 0)
              | (key2, _) # _ \<Rightarrow>
                  (case getUint64BE (drop (length (RoundTreeKey roundID) + 1) key2) of
                     None \<Rightarrow> throwM GoPanic
                   | Some nextHeight \<Rightarrow>
                       returnM (blocks', if nextHeight \<le> toHeight then nextHeight else 0)))
           else leavesLoop roundID toHeight blocks' (leafCount + count) entries)))"

definition GetCommitmentLeaves ::
  "bytes \<Rightarrow> u64 \<Rightarrow> u64 \<Rightarrow> (vkv, BlockCommitments list \<times> u64) M" where
  "GetCommitmentLeaves roundID fromHeight toHeight =
     (let startKey = BlockLeafIndexKey roundID fromHeight;
          endKey = (if toHeight = NOT 0 then PrefixEndBytes (BlockLeafIndexPrefixForRound roundID)
                    else Some (BlockLeafIndexKey roundID (toHeight + 1))) in
     bindM (getM (kv_iterator startKey endKey)) (\<lambda>entries.
     leavesLoop roundID toHeight [] 0 entries))"

section \<open>Proposal and round checks\<close>

definition ValidateEntryBounds :: "VoteRound \<Rightarrow> u32 \<Rightarrow> u32 \<Rightarrow> unit res" where
  "ValidateEntryBounds rd proposalId voteDecision =
     failIfR (proposalId < 1 \<or> unat proposalId > length (proposals rd)) ErrInvalidProposalID (
     ValidateVoteChoice proposalId voteDecision
       (prop_options (proposals rd ! (unat proposalId - 1))))"

definition ValidateProposalId :: "bytes \<Rightarrow> u32 \<Rightarrow> (vkv, unit) M" where
  "ValidateProposalId roundID proposalId =
     bindM (GetVoteRound roundID) (\<lambda>rd.
     failIf (proposalId < 1 \<or> unat proposalId > length (proposals rd)) ErrInvalidProposalID (
     returnM ()))"

definition ValidateVoteDecision :: "bytes \<Rightarrow> u32 \<Rightarrow> u32 \<Rightarrow> (vkv, unit) M" where
  "ValidateVoteDecision roundID proposalId voteDecision =
     bindM (GetVoteRound roundID) (\<lambda>rd.
     failIf (proposalId < 1 \<or> unat proposalId > length (proposals rd)) ErrInvalidProposalID (
     liftR (ValidateVoteChoice proposalId voteDecision
       (prop_options (proposals rd ! (unat proposalId - 1))))))"

definition ValidateRoundForVoting :: "ctx \<Rightarrow> bytes \<Rightarrow> (vkv, unit) M" where
  "ValidateRoundForVoting c roundID =
     bindM (GetVoteRound roundID) (\<lambda>rd.
     failIf (status rd \<noteq> SESSION_STATUS_ACTIVE) ErrRoundNotActive (
     if block_time c < 0 then
       (if is_check_tx c \<or> is_recheck_tx c then returnM () else throwM ErrOther)
     else
       failIf (unixU64 c \<ge> vote_end_time rd) ErrRoundNotActive (
       returnM ())))"

definition ValidateRoundActive :: "ctx \<Rightarrow> bytes \<Rightarrow> (vkv, unit) M" where
  "ValidateRoundActive c roundID = ValidateRoundForVoting c roundID"

section \<open>Minimum number of ceremony validators\<close>

definition GetMinCeremonyValidators :: "(vkv, u32) M" where
  "GetMinCeremonyValidators =
     bindM (kvGetAs decodeBytes MinCeremonyValidatorsKey) (\<lambda>bz. case bz of
        None \<Rightarrow> returnM 1
      | Some b \<Rightarrow>
          if length b \<noteq> 4 then returnM 1
          else (case getUint32BE b of None \<Rightarrow> throwM GoPanic | Some v \<Rightarrow> returnM v))"

definition SetMinCeremonyValidators :: "u32 \<Rightarrow> (vkv, unit) M" where
  "SetMinCeremonyValidators val = kvSet MinCeremonyValidatorsKey (VBytes (putUint32BE val))"

section \<open>Nullifier sets\<close>

text \<open>The abstract nullifier set of a type and a round.\<close>

definition nullifiersOf :: "vkv \<Rightarrow> NullifierType \<Rightarrow> bytes \<Rightarrow> bytes set" where
  "nullifiersOf s t r = {n. \<exists>key. NullifierKey t r n = Inr key \<and> kv_has s key}"

lemma NullifierKey_Inr_iff:
  "NullifierKey t r n = Inr k \<longleftrightarrow> length r = 32 \<and> k = 0x01 # nullifierTypeByte t # r @ n"
  by (auto simp: key_simps bindR_Inr_iff)

lemma mem_nullifiersOf_iff:
  "n \<in> nullifiersOf s t r \<longleftrightarrow> length r = 32 \<and> kv_has s (0x01 # nullifierTypeByte t # r @ n)"
  by (auto simp: nullifiersOf_def NullifierKey_Inr_iff)

lemma HasNullifier_Inr_iff:
  "HasNullifier t r n s = (Inr b, s') \<longleftrightarrow> s' = s \<and> length r = 32 \<and> b = (n \<in> nullifiersOf s t r)"
  by (auto simp: HasNullifier_def succ_iffs NullifierKey_Inr_iff kvHas_def mem_nullifiersOf_iff)

lemma SetNullifier_Inr_iff:
  "SetNullifier t r n s = (Inr u, s') \<longleftrightarrow>
     length r = 32 \<and> s' = kv_set (0x01 # nullifierTypeByte t # r @ n) (VBytes [1]) s"
  by (auto simp: SetNullifier_def succ_iffs NullifierKey_Inr_iff kvSet_def)

lemma nullifiersOf_set_nullifier:
  assumes "length r = 32"
  shows "nullifiersOf (kv_set (0x01 # nullifierTypeByte t # r @ n) v s) t' r' =
    (if t' = t \<and> r' = r then insert n (nullifiersOf s t' r') else nullifiersOf s t' r')"
  using assms
  by (auto simp: mem_nullifiersOf_iff kv_has_iff get_simps append_eq_same_length split: if_splits)

lemma nullifiersOf_set_other [get_simps]:
  "hd k \<noteq> 0x01 \<Longrightarrow> nullifiersOf (kv_set k v s) = nullifiersOf s"
  by (intro ext set_eqI) (auto simp: mem_nullifiersOf_iff kv_has_iff get_simps)

lemma nullifiersOf_delete_other [get_simps]:
  "hd k \<noteq> 0x01 \<Longrightarrow> nullifiersOf (kv_delete k s) = nullifiersOf s"
  by (intro ext set_eqI) (auto simp: mem_nullifiersOf_iff kv_has_iff get_simps)

lemma CheckAndSetNullifier_Inr_iff:
  "CheckAndSetNullifier t r n s = (Inr u, s') \<longleftrightarrow>
     length r = 32 \<and> n \<notin> nullifiersOf s t r \<and>
     s' = kv_set (0x01 # nullifierTypeByte t # r @ n) (VBytes [1]) s"
  by (auto simp: CheckAndSetNullifier_def succ_iffs HasNullifier_Inr_iff SetNullifier_Inr_iff)

lemma CheckAndSetNullifier_dup:
  "length r = 32 \<Longrightarrow> n \<in> nullifiersOf s t r \<Longrightarrow>
     CheckAndSetNullifier t r n s = (Inl ErrDuplicateNullifier, s)"
  using HasNullifier_Inr_iff[of t r n s True s]
  by (simp add: CheckAndSetNullifier_def bindM_def throwM_def)

lemma CheckNullifiersUnique_Inr_iff:
  "CheckNullifiersUnique t r ns s = (Inr u, s') \<longleftrightarrow>
     s' = s \<and> (ns = [] \<or> length r = 32) \<and> set ns \<inter> nullifiersOf s t r = {}"
proof (induction ns)
  case Nil
  then show ?case by (auto simp: CheckNullifiersUnique_def returnM_def)
next
  case (Cons n ns)
  have "CheckNullifiersUnique t r (n # ns) s = (Inr u, s') \<longleftrightarrow>
      (length r = 32 \<and> n \<notin> nullifiersOf s t r) \<and> CheckNullifiersUnique t r ns s = (Inr u, s')"
    by (auto simp: CheckNullifiersUnique_def succ_iffs HasNullifier_Inr_iff)
  then show ?case using Cons by auto
qed

text \<open>
  C2. A nullifier is spent at most once. In any store, for a 32-byte round id, the first
  call of \<^verbatim>\<open>CheckAndSetNullifier\<close> for an unrecorded nullifier succeeds and adds exactly that
  nullifier to the set of its type and round and to no other set; whenever the nullifier is
  in the set, the call fails with \<open>ErrDuplicateNullifier\<close> and leaves the store as it was.
\<close>

theorem nullifier_spent_once:
  assumes "length r = 32"
  shows "(n \<notin> nullifiersOf s t r \<longrightarrow>
      (\<exists>s'. CheckAndSetNullifier t r n s = (Inr (), s') \<and>
         nullifiersOf s' t r = insert n (nullifiersOf s t r) \<and>
         (\<forall>t' r'. (t', r') \<noteq> (t, r) \<longrightarrow> nullifiersOf s' t' r' = nullifiersOf s t' r') \<and>
         CheckAndSetNullifier t r n s' = (Inl ErrDuplicateNullifier, s'))) \<and>
    (n \<in> nullifiersOf s t r \<longrightarrow>
      CheckAndSetNullifier t r n s = (Inl ErrDuplicateNullifier, s))"
proof (cases "n \<in> nullifiersOf s t r")
  case True
  then show ?thesis using CheckAndSetNullifier_dup[OF assms] by simp
next
  case False
  define s' where "s' = kv_set (0x01 # nullifierTypeByte t # r @ n) (VBytes [1]) s"
  have "CheckAndSetNullifier t r n s = (Inr (), s')"
    using False assms by (simp add: CheckAndSetNullifier_Inr_iff s'_def)
  moreover have sets: "nullifiersOf s' t r = insert n (nullifiersOf s t r)"
    "\<forall>t' r'. (t', r') \<noteq> (t, r) \<longrightarrow> nullifiersOf s' t' r' = nullifiersOf s t' r'"
    using nullifiersOf_set_nullifier[OF assms] by (simp_all add: s'_def)
  moreover have "CheckAndSetNullifier t r n s' = (Inl ErrDuplicateNullifier, s')"
    using CheckAndSetNullifier_dup[OF assms, of n s' t] sets(1) by simp
  ultimately show ?thesis using False by blast
qed

theorem nullifier_spent_once_witness:
  "\<exists>s'. CheckAndSetNullifier NullifierTypeGov (replicate 32 7) [9] [] = (Inr (), s') \<and>
     CheckAndSetNullifier NullifierTypeGov (replicate 32 7) [9] s' = (Inl ErrDuplicateNullifier, s')"
proof -
  have "[9] \<notin> nullifiersOf [] NullifierTypeGov (replicate 32 7)"
    by (simp add: mem_nullifiersOf_iff kv_has_iff)
  then show ?thesis
    using nullifier_spent_once[of "replicate 32 7" "[9]" "[]" NullifierTypeGov] by auto
qed

section \<open>The tree as a list of leaves\<close>

definition treeStateOf :: "vkv \<Rightarrow> bytes \<Rightarrow> CommitmentTreeState" where
  "treeStateOf s r =
     (case view decodeTreeState s (RoundTreeStateKey r) of None \<Rightarrow> emptyTreeState | Some st \<Rightarrow> st)"

definition leafOf :: "vkv \<Rightarrow> bytes \<Rightarrow> u64 \<Rightarrow> bytes option" where
  "leafOf s r i = view decodeBytes s (CommitmentLeafKey r i)"

definition leavesOf :: "vkv \<Rightarrow> bytes \<Rightarrow> bytes option list" where
  "leavesOf s r = map (\<lambda>i. leafOf s r (word_of_nat i)) [0..<unat (next_index (treeStateOf s r))]"

lemma entry_ok_tree_state:
  "length r = 32 \<Longrightarrow> entry_ok (RoundTreeStateKey r) v \<longleftrightarrow> (\<exists>st. v = VTreeState st)"
  by (cases v) (simp_all add: entry_ok_def key_simps nth_append)

lemma entry_ok_tree_bytes:
  assumes "length r = 32"
  shows "entry_ok (CommitmentLeafKey r i) v \<longleftrightarrow> (\<forall>st. v \<noteq> VTreeState st)"
    "entry_ok (CommitmentRootKey r i) v \<longleftrightarrow> (\<forall>st. v \<noteq> VTreeState st)"
    "entry_ok (BlockLeafIndexKey r i) v \<longleftrightarrow> (\<forall>st. v \<noteq> VTreeState st)"
  using assms by (cases v; simp add: entry_ok_def key_simps)+

lemma GetCommitmentTreeState_wf:
  assumes "kv_wf s" and "length r = 32"
  shows "GetCommitmentTreeState r s = (Inr (treeStateOf s r), s)"
proof (cases "kv_get s (RoundTreeStateKey r)")
  case None
  then show ?thesis
    by (simp add: GetCommitmentTreeState_def kvGetAs_def kvGet_def bindM_def getM_def returnM_def
        treeStateOf_def view_def)
next
  case (Some v)
  with kv_wf_get[OF assms(1) Some] obtain st where "v = VTreeState st"
    using entry_ok_tree_state[OF assms(2)] by auto
  with Some show ?thesis
    by (simp add: GetCommitmentTreeState_def kvGetAs_def kvGet_def bindM_def getM_def returnM_def
        liftR_def treeStateOf_def view_def okOpt_def)
qed

text \<open>The two writes of an append, and what they leave alone.\<close>

definition appendStore :: "bytes \<Rightarrow> bytes \<Rightarrow> vkv \<Rightarrow> vkv" where
  "appendStore r c s =
     (let st = treeStateOf s r in
      kv_set (RoundTreeStateKey r) (VTreeState (st\<lparr>next_index := next_index st + 1\<rparr>))
        (kv_set (CommitmentLeafKey r (next_index st)) (VBytes c) s))"

lemma AppendCommitment_wf:
  "kv_wf s \<Longrightarrow> length r = 32 \<Longrightarrow>
     AppendCommitment r c s = (Inr (next_index (treeStateOf s r)), appendStore r c s)"
  by (simp add: AppendCommitment_def bindM_def GetCommitmentTreeState_wf Let_def thenM_def
      kvSet_def modifyM_def SetCommitmentTreeState_def returnM_def appendStore_def)

lemma kv_wf_appendStore: "kv_wf s \<Longrightarrow> length r = 32 \<Longrightarrow> kv_wf (appendStore r c s)"
  by (auto simp: appendStore_def Let_def intro!: kv_wf_set
      simp: entry_ok_tree_state entry_ok_tree_bytes)

lemma tree_key_neq:
  assumes "length r = 32" and "length r' = 32"
  shows "RoundTreeStateKey r = RoundTreeStateKey r' \<longleftrightarrow> r = r'"
    "RoundTreeStateKey r \<noteq> CommitmentLeafKey r' i" "CommitmentLeafKey r' i \<noteq> RoundTreeStateKey r"
    "CommitmentLeafKey r i = CommitmentLeafKey r' j \<longleftrightarrow> r = r' \<and> i = j"
  using assms by (auto simp: key_simps append_eq_same_length)

lemma treeStateOf_set:
  "treeStateOf (kv_set k v s) r =
     (if k = RoundTreeStateKey r
      then (case okOpt (decodeTreeState v) of None \<Rightarrow> emptyTreeState | Some st \<Rightarrow> st)
      else treeStateOf s r)"
  by (simp add: treeStateOf_def view_set)

lemma treeStateOf_appendStore:
  "length r = 32 \<Longrightarrow> length r' = 32 \<Longrightarrow> treeStateOf (appendStore r c s) r' =
     (if r' = r then (treeStateOf s r)\<lparr>next_index := next_index (treeStateOf s r) + 1\<rparr>
      else treeStateOf s r')"
  by (auto simp: appendStore_def Let_def treeStateOf_set tree_key_neq okOpt_def)

lemma leafOf_appendStore:
  "length r = 32 \<Longrightarrow> length r' = 32 \<Longrightarrow> leafOf (appendStore r c s) r' i =
     (if r' = r \<and> i = next_index (treeStateOf s r) then Some c else leafOf s r' i)"
  by (auto simp: leafOf_def appendStore_def Let_def view_set tree_key_neq okOpt_def)

lemma appendStore_frame [get_simps]:
  "roundOf (appendStore r c s) = roundOf s"
  "nullifiersOf (appendStore r c s) = nullifiersOf s"
  by (simp_all add: appendStore_def Let_def get_simps key_simps)

lemma appendStore_get_other: "hd k \<noteq> 0x14 \<Longrightarrow> kv_get (appendStore r c s) k = kv_get s k"
  by (auto simp: appendStore_def Let_def get_simps key_simps)

lemma leavesOf_appendStore:
  assumes "length r = 32" and "next_index (treeStateOf s r) + 1 \<noteq> 0"
  shows "leavesOf (appendStore r c s) r = leavesOf s r @ [Some c]"
proof -
  let ?n = "next_index (treeStateOf s r)"
  have "unat (?n + 1) = Suc (unat ?n)" using assms(2) by (rule unat_plus_one)
  moreover have "word_of_nat i \<noteq> ?n" if "i < unat ?n" for i
    using that unat_word_of_nat_below[of i ?n] by auto
  ultimately show ?thesis
    by (simp add: leavesOf_def treeStateOf_appendStore leafOf_appendStore assms(1))
qed

text \<open>
  C25. Appending refines list append. On a well-formed store \<^verbatim>\<open>AppendCommitment\<close> returns the
  current size of the round's tree as the index of the new leaf, and the list of the round's
  leaves afterwards is the old list with the commitment at its end; the trees of other
  rounds, the rounds and the nullifier sets are unchanged and the store stays well formed.
  The hypothesis excludes only the wrap-around of the 64-bit leaf counter.
\<close>

theorem append_commitment_refines_list:
  assumes "kv_wf s" and "length r = 32" and "next_index (treeStateOf s r) + 1 \<noteq> 0"
  shows "\<exists>s'. AppendCommitment r c s = (Inr (next_index (treeStateOf s r)), s') \<and>
    unat (next_index (treeStateOf s r)) = length (leavesOf s r) \<and>
    leavesOf s' r = leavesOf s r @ [Some c] \<and>
    (\<forall>r'. length r' = 32 \<and> r' \<noteq> r \<longrightarrow> leavesOf s' r' = leavesOf s r') \<and>
    roundOf s' = roundOf s \<and> nullifiersOf s' = nullifiersOf s \<and> kv_wf s'"
  using AppendCommitment_wf[OF assms(1,2)] leavesOf_appendStore[OF assms(2,3)]
    kv_wf_appendStore[OF assms(1,2)]
  by (auto simp: get_simps leavesOf_def treeStateOf_appendStore leafOf_appendStore assms(2))

theorem append_commitment_refines_list_witness:
  "\<exists>s'. AppendCommitment (replicate 32 1) [5] [] = (Inr 0, s') \<and>
     leavesOf s' (replicate 32 1) = leavesOf [] (replicate 32 1) @ [Some [5]]"
proof -
  have "next_index (treeStateOf [] (replicate 32 1)) = 0"
    by (simp add: treeStateOf_def view_def emptyTreeState_def)
  then show ?thesis
    using append_commitment_refines_list[of "[]" "replicate 32 1" "[5]"] by auto
qed

section \<open>Pages of commitment leaves\<close>

lemma kvGetAs_bytes_32:
  "kvGetAs decodeBytes k s = (Inr b, s') \<and> length (nilBytes b) = 32 \<longleftrightarrow>
     s' = s \<and> (\<exists>x. b = Some x \<and> view decodeBytes s k = Some x \<and> length x = 32)"
  by (auto simp: kvGetAs_Inr_iff view_Some_iff nilBytes_def split: option.splits)

lemma readLeaves_Inr:
  "readLeaves r idx n s = (Inr ls, s') \<Longrightarrow>
     s' = s \<and> length ls = n \<and>
     (\<forall>i < n. leafOf s r (idx + word_of_nat i) = Some (ls ! i) \<and> length (ls ! i) = 32)"
proof (induction n arbitrary: idx ls)
  case 0
  then show ?case by (simp add: returnM_def)
next
  case (Suc n)
  then obtain b ls' t where
    b: "kvGetAs decodeBytes (CommitmentLeafKey r idx) s = (Inr b, t)" "length (nilBytes b) = 32"
    and rest: "readLeaves r (idx + 1) n t = (Inr ls', s')" and ls: "ls = nilBytes b # ls'"
    by (auto simp: succ_iffs)
  then obtain x where x: "t = s" "b = Some x" "leafOf s r idx = Some x" "length x = 32"
    using kvGetAs_bytes_32[of "CommitmentLeafKey r idx" s b t] by (auto simp: leafOf_def)
  have IH: "s' = s" "length ls' = n"
    "\<And>i. i < n \<Longrightarrow> leafOf s r (idx + 1 + word_of_nat i) = Some (ls' ! i) \<and> length (ls' ! i) = 32"
    using Suc.IH[of "idx + 1" ls'] rest x(1) by auto
  have "leafOf s r (idx + word_of_nat i) = Some (ls ! i) \<and> length (ls ! i) = 32" if "i < Suc n" for i
  proof (cases i)
    case 0
    then show ?thesis using x ls by (simp add: nilBytes_def)
  next
    case (Suc j)
    then show ?thesis using IH(3)[of j] that ls by (simp add: add.assoc)
  qed
  then show ?case using IH ls by simp
qed

text \<open>The height an entry of the block index is for, and the block it describes.\<close>

definition entryHeight :: "bytes \<Rightarrow> bytes \<times> kvval \<Rightarrow> u64 option" where
  "entryHeight r e = getUint64BE (drop (length (RoundTreeKey r) + 1) (fst e))"

definition describes :: "vkv \<Rightarrow> bytes \<Rightarrow> bytes \<times> kvval \<Rightarrow> BlockCommitments \<Rightarrow> bool" where
  "describes s r e b \<longleftrightarrow>
     (\<exists>val count. snd e = VBytes val \<and> entryHeight r e = Some (bc_height b) \<and>
        getUint64BE (take 8 val) = Some (bc_start_index b) \<and>
        getUint64BE (take 8 (drop 8 val)) = Some count \<and>
        length (bc_leaves b) = unat count \<and>
        (\<forall>i < unat count. leafOf s r (bc_start_index b + word_of_nat i) = Some (bc_leaves b ! i) \<and>
           length (bc_leaves b ! i) = 32) \<and>
        view decodeBytes s (CommitmentRootKey r (bc_height b)) = Some (bc_root b) \<and>
        length (bc_root b) = 32)"

text \<open>How a page ends: no entry is left, or the next height is that of the first entry left.\<close>

definition pageEnd :: "bytes \<Rightarrow> u64 \<Rightarrow> (bytes \<times> kvval) list \<Rightarrow> u64 \<Rightarrow> bool" where
  "pageEnd r to rest next \<longleftrightarrow>
     (case rest of [] \<Rightarrow> next = 0
      | e # _ \<Rightarrow> \<exists>h. entryHeight r e = Some h \<and> (next = h \<or> next = 0 \<and> to < h))"

lemma readBlock_describes:
  assumes "readIndexEntry r key val = Some (st, count, h)"
    and "readBlock r (st, count, h) s = (Inr b, s')"
  shows "describes s r (key, VBytes val) b \<and> s' = s"
proof -
  from assms(2) obtain ls t root where
    ls: "readLeaves r st (unat count) s = (Inr ls, t)"
    and root: "GetCommitmentRootAtHeight r h t = (Inr root, s')" "length (nilBytes root) = 32"
    and b: "b = \<lparr>bc_height = h, bc_start_index = st, bc_leaves = ls, bc_root = nilBytes root\<rparr>"
    by (auto simp: readBlock_def succ_iffs)
  have "s' = s" and "view decodeBytes s (CommitmentRootKey r h) = Some (nilBytes root)"
    using root kvGetAs_bytes_32[of "CommitmentRootKey r h" t root s'] readLeaves_Inr[OF ls]
    by (auto simp: GetCommitmentRootAtHeight_def nilBytes_def)
  then show ?thesis using assms(1) readLeaves_Inr[OF ls] root(2)
    by (auto simp: describes_def b readIndexEntry_def bind_eq_Some_conv entryHeight_def)
qed

text \<open>One iteration: the page is full, or a block is added.\<close>

lemma leavesLoop_Cons:
  assumes "leavesLoop r to bs lc (e # es) s = (Inr (blocks, next), s')"
  shows "(bs \<noteq> [] \<and> blocks = bs \<and> s' = s \<and> entryHeight r e = Some next) \<or>
    (\<exists>b. describes s r e b \<and>
       (blocks = bs @ [b] \<and> pageEnd r to es next \<and> s' = s \<or>
        (\<exists>lc'. leavesLoop r to (bs @ [b]) lc' es s = (Inr (blocks, next), s'))))"
proof -
  obtain key v where e: "e = (key, v)" by (cases e)
  from assms obtain val st count h where v: "v = VBytes val" "\<not> length val < 16"
    and ent: "readIndexEntry r key val = Some (st, count, h)"
    by (cases "readIndexEntry r key (case v of VBytes b \<Rightarrow> b | _ \<Rightarrow> [])")
      (auto simp: e succ_iffs)
  show ?thesis
  proof (cases "bs \<noteq> [] \<and> lc + count > MaxCommitmentLeavesPerResponse")
    case True
    with assms v ent show ?thesis
      by (auto simp: e succ_iffs readIndexEntry_def entryHeight_def bind_eq_Some_conv)
  next
    case False
    with assms v ent obtain b t where b: "readBlock r (st, count, h) s = (Inr b, t)"
      and cont: "(let blocks' = bs @ [b] in
         if count > MaxCommitmentLeavesPerResponse then
             (case es of
                [] \<Rightarrow> returnM (blocks', 0)
              | (key2, _) # _ \<Rightarrow>
                  (case getUint64BE (drop (length (RoundTreeKey r) + 1) key2) of
                     None \<Rightarrow> throwM GoPanic
                   | Some nextHeight \<Rightarrow> returnM (blocks', if nextHeight \<le> to then nextHeight else 0)))
           else leavesLoop r to blocks' (lc + count) es) t = (Inr (blocks, next), s')"
      by (simp add: e bindM_Inr_iff liftR_Inr_iff failIf_Inr_iff) blast
    note desc = readBlock_describes[OF ent b]
    have "blocks = bs @ [b] \<and> pageEnd r to es next \<and> s' = s \<or>
        (\<exists>lc'. leavesLoop r to (bs @ [b]) lc' es s = (Inr (blocks, next), s'))"
    proof (cases "count > MaxCommitmentLeavesPerResponse")
      case True
      with cont desc show ?thesis
        by (auto simp: Let_def pageEnd_def entryHeight_def returnM_def throwM_def
            split: list.splits option.splits if_splits)
    next
      case False
      with cont desc show ?thesis by (auto simp: Let_def)
    qed
    then show ?thesis using desc by (auto simp: e v)
  qed
qed

lemma leavesLoop_page:
  assumes "leavesLoop r to bs lc es s = (Inr (blocks, next), s')"
  shows "\<exists>es1 es2 nb. es = es1 @ es2 \<and> blocks = bs @ nb \<and> list_all2 (describes s r) es1 nb \<and>
    pageEnd r to es2 next \<and> s' = s \<and> (bs = [] \<and> es \<noteq> [] \<longrightarrow> nb \<noteq> [])"
  using assms
proof (induction es arbitrary: bs lc)
  case Nil
  then have "blocks = bs \<and> next = 0 \<and> s' = s" by (simp add: returnM_def)
  then show ?case by (intro exI[of _ "[]"]) (simp add: pageEnd_def)
next
  case (Cons e es)
  from leavesLoop_Cons[OF Cons.prems] consider
    (full) "bs \<noteq> []" "blocks = bs" "s' = s" "entryHeight r e = Some next"
  | (last) b where "describes s r e b" "blocks = bs @ [b]" "pageEnd r to es next" "s' = s"
  | (more) b lc' where "describes s r e b" "leavesLoop r to (bs @ [b]) lc' es s = (Inr (blocks, next), s')"
    by blast
  then show ?case
  proof cases
    case full
    then show ?thesis by (intro exI[of _ "[]"] exI[of _ "e # es"]) (simp add: pageEnd_def)
  next
    case last
    then show ?thesis by (intro exI[of _ "[e]"] exI[of _ es] exI[of _ "[b]"]) simp
  next
    case more
    then obtain es1 es2 nb where "es = es1 @ es2" "blocks = (bs @ [b]) @ nb"
      "list_all2 (describes s r) es1 nb" "pageEnd r to es2 next" "s' = s"
      using Cons.IH[OF more(2)] by blast
    then show ?thesis using more(1)
      by (intro exI[of _ "e # es1"] exI[of _ es2] exI[of _ "b # nb"]) simp
  qed
qed

text \<open>
  A page of commitment leaves. When \<^verbatim>\<open>GetCommitmentLeaves\<close> returns, the blocks it
  returns describe, in order and without a gap, the first entries of the block index in the
  requested range: each block carries exactly the leaves its entry counts, all of 32 bytes,
  and its root. The returned next height is the height of the first entry left out (0 when
  none is left, or when that entry is beyond the range), and at least one block is returned
  when the range has an entry, so following the next height visits every block. The store
  does not change.
\<close>

lemma commitment_leaves_page:
  assumes "GetCommitmentLeaves r from to s = (Inr (blocks, next), s')"
  shows "\<exists>included rest.
    kv_iterator (BlockLeafIndexKey r from)
      (if to = NOT 0 then PrefixEndBytes (BlockLeafIndexPrefixForRound r)
       else Some (BlockLeafIndexKey r (to + 1))) s = included @ rest \<and>
    list_all2 (describes s r) included blocks \<and> pageEnd r to rest next \<and> s' = s \<and>
    (rest \<noteq> [] \<longrightarrow> blocks \<noteq> [])"
proof -
  from assms have loop: "leavesLoop r to [] 0 (kv_iterator (BlockLeafIndexKey r from)
      (if to = NOT 0 then PrefixEndBytes (BlockLeafIndexPrefixForRound r)
       else Some (BlockLeafIndexKey r (to + 1))) s) s = (Inr (blocks, next), s')"
    by (simp add: GetCommitmentLeaves_def Let_def bindM_def getM_def)
  show ?thesis using leavesLoop_page[OF loop] by (metis append_Nil append_is_Nil_conv)
qed

text \<open>A store with one block of two leaves for the witness.\<close>

definition sampleRoundID :: bytes where "sampleRoundID = replicate 32 1"

end
