(* ===== verification/Curve.thy ===== *)
theory Curve
  imports Vote_Types
begin

text \<open>
  The elliptic-curve library (\<^verbatim>\<open>github.com/mikelodder7/curvey\<close>, not part of the sources) as
  a parameter. Scalars are a field \<open>'s\<close>, the group is \<open>'p\<close> with \<^verbatim>\<open>Add\<close>, \<^verbatim>\<open>Sub\<close> and
  the identity as its \<open>+\<close>, \<open>-\<close> and \<open>0\<close>, \<^verbatim>\<open>Equal\<close> and \<^verbatim>\<open>Cmp\<close> are equality, and
  the remaining operations are the fields of a record. \<open>curve_ok\<close> collects what the code
  relies on: scalar multiplication is a module action, compressed points have 32 bytes and
  decompress to the point, the identity compresses to 32 zero bytes and no other point does,
  scalars round-trip through their 32 bytes, every group element is on the curve, and the
  constant \<^verbatim>\<open>SpendAuthG\<close> decompresses to a point other than the identity.
\<close>

record ('s, 'p) curve =
  Mul :: "'p \<Rightarrow> 's \<Rightarrow> 'p"
  IsOnCurve :: "'p \<Rightarrow> bool"
  ToAffineCompressed :: "'p \<Rightarrow> bytes"
  FromAffineCompressed :: "bytes \<Rightarrow> 'p option"
  ScalarBytes :: "'s \<Rightarrow> bytes"
  ScalarSetBytes :: "bytes \<Rightarrow> 's option"
  ScalarHash :: "bytes \<Rightarrow> 's"

definition spendAuthGBytes :: bytes where
  "spendAuthGBytes =
     [0x63, 0xc9, 0x75, 0xb8, 0x84, 0x72, 0x1a, 0x8d,
      0x0c, 0xa1, 0x70, 0x7b, 0xe3, 0x0c, 0x7f, 0x0c,
      0x5f, 0x44, 0x5f, 0x3e, 0x7c, 0x18, 0x8d, 0x3b,
      0x06, 0xd6, 0xf1, 0x28, 0xb3, 0x23, 0x55, 0xb7]"

text \<open>The generator; the code panics when the constant does not decompress.\<close>

definition PallasGenerator :: "('s, 'p) curve \<Rightarrow> 'p" where
  "PallasGenerator C = the (FromAffineCompressed C spendAuthGBytes)"

definition curve_ok :: "('s::field, 'p::ab_group_add) curve \<Rightarrow> bool" where
  "curve_ok C \<longleftrightarrow>
     (\<forall>P a b. Mul C P (a + b) = Mul C P a + Mul C P b) \<and>
     (\<forall>P Q a. Mul C (P + Q) a = Mul C P a + Mul C Q a) \<and>
     (\<forall>P a b. Mul C (Mul C P a) b = Mul C P (a * b)) \<and>
     (\<forall>P. Mul C P 1 = P) \<and>
     (\<forall>P. IsOnCurve C P) \<and>
     (\<forall>P. length (ToAffineCompressed C P) = 32) \<and>
     (\<forall>P. (ToAffineCompressed C P = replicate 32 0) = (P = 0)) \<and>
     (\<forall>P. P \<noteq> 0 \<longrightarrow> FromAffineCompressed C (ToAffineCompressed C P) = Some P) \<and>
     (\<forall>a. length (ScalarBytes C a) = 32 \<and> ScalarSetBytes C (ScalarBytes C a) = Some a) \<and>
     (\<exists>G. FromAffineCompressed C spendAuthGBytes = Some G \<and> G \<noteq> 0)"

lemma curve_okD:
  assumes "curve_ok C"
  shows Mul_add: "Mul C P (a + b) = Mul C P a + Mul C P b"
    and Mul_point_add: "Mul C (P + Q) a = Mul C P a + Mul C Q a"
    and Mul_Mul: "Mul C (Mul C P a) b = Mul C P (a * b)"
    and Mul_1: "Mul C P 1 = P"
    and onCurve: "IsOnCurve C P"
    and compressed_length: "length (ToAffineCompressed C P) = 32"
    and compressed_zero: "ToAffineCompressed C P = replicate 32 0 \<longleftrightarrow> P = 0"
    and decompress_compress: "P \<noteq> 0 \<Longrightarrow> FromAffineCompressed C (ToAffineCompressed C P) = Some P"
    and scalar_bytes_length: "length (ScalarBytes C a) = 32"
    and scalar_roundtrip: "ScalarSetBytes C (ScalarBytes C a) = Some a"
    and generator_nonzero: "PallasGenerator C \<noteq> 0"
  using assms by (auto simp: curve_ok_def PallasGenerator_def)

lemma Mul_0: "curve_ok C \<Longrightarrow> Mul C P 0 = 0"
  using Mul_add[of C P 0 0] by simp

lemma Mul_zero_point: "curve_ok C \<Longrightarrow> Mul C 0 a = 0"
  using Mul_point_add[of C 0 0 a] by simp

lemma Mul_minus: "curve_ok C \<Longrightarrow> Mul C P (- a) = - Mul C P a"
  using Mul_add[of C P a "- a"] Mul_0[of C P] by (simp add: eq_neg_iff_add_eq_0 add.commute)

lemma Mul_diff: "curve_ok C \<Longrightarrow> Mul C P (a - b) = Mul C P a - Mul C P b"
  using Mul_add[of C P a "- b"] Mul_minus[of C P b] by simp

lemma Mul_point_diff: "curve_ok C \<Longrightarrow> Mul C (P - Q) a = Mul C P a - Mul C Q a"
  using Mul_point_add[of C "P - Q" Q a] by (simp add: algebra_simps)

lemma Mul_sum: "curve_ok C \<Longrightarrow> Mul C P (\<Sum>x\<in>X. f x) = (\<Sum>x\<in>X. Mul C P (f x))"
  by (induction X rule: infinite_finite_induct) (simp_all add: Mul_0 Mul_add)

lemma Mul_sum_list: "curve_ok C \<Longrightarrow> Mul C P (\<Sum>x\<leftarrow>xs. f x) = (\<Sum>x\<leftarrow>xs. Mul C P (f x))"
  by (induction xs) (simp_all add: Mul_0 Mul_add)

lemma Mul_eq_0_iff:
  assumes "curve_ok C"
  shows "Mul C P a = 0 \<longleftrightarrow> P = 0 \<or> a = 0"
proof
  assume eq: "Mul C P a = 0"
  have "P = Mul C (Mul C P a) (inverse a)" if "a \<noteq> 0"
    using that Mul_Mul[OF assms, of P a "inverse a"] Mul_1[OF assms, of P] by simp
  then show "P = 0 \<or> a = 0" using eq Mul_zero_point[OF assms] by auto
qed (auto simp: Mul_0[OF assms] Mul_zero_point[OF assms])

lemma compress_inject:
  assumes "curve_ok C"
  shows "ToAffineCompressed C P = ToAffineCompressed C Q \<longleftrightarrow> P = Q"
  using decompress_compress[OF assms] compressed_zero[OF assms] by (metis option.inject)

end
