(* ===== verification/Curve_Sample.thy ===== *)
theory Curve_Sample
  imports Curve
begin

text \<open>
  A small concrete instance of the curve parameter: the field of seven elements, its additive
  group as the group of points, and byte encodings of the required lengths. It shows that
  \<open>curve_ok\<close> can hold and is what the witnesses of the cryptographic properties evaluate.
\<close>

datatype f7 = F0 | F1 | F2 | F3 | F4 | F5 | F6

fun val7 :: "f7 \<Rightarrow> nat" where
  "val7 F0 = 0" | "val7 F1 = 1" | "val7 F2 = 2" | "val7 F3 = 3" | "val7 F4 = 4" | "val7 F5 = 5"
| "val7 F6 = 6"

definition of7 :: "nat \<Rightarrow> f7" where
  "of7 n = [F0, F1, F2, F3, F4, F5, F6] ! (n mod 7)"

lemma of7_val7 [simp]: "of7 (val7 x) = x"
  by (cases x) (simp_all add: of7_def)

lemma val7_less: "val7 x < 7"
  by (cases x) simp_all

lemma val7_of7 [simp]: "val7 (of7 n) = n mod 7"
proof -
  have "n mod 7 \<in> {0, 1, 2, 3, 4, 5, 6}" by auto
  then show ?thesis by (auto simp: of7_def)
qed

lemma val7_inject: "val7 x = val7 y \<longleftrightarrow> x = y"
  by (metis of7_val7)

instantiation f7 :: field
begin

definition zero_f7 :: f7 where "0 = F0"
definition one_f7 :: f7 where "1 = F1"
definition plus_f7 :: "f7 \<Rightarrow> f7 \<Rightarrow> f7" where "x + y = of7 (val7 x + val7 y)"
definition uminus_f7 :: "f7 \<Rightarrow> f7" where "- x = of7 (7 - val7 x)"
definition minus_f7 :: "f7 \<Rightarrow> f7 \<Rightarrow> f7" where "x - y = of7 (val7 x + (7 - val7 y))"
definition times_f7 :: "f7 \<Rightarrow> f7 \<Rightarrow> f7" where "x * y = of7 (val7 x * val7 y)"
definition inverse_f7 :: "f7 \<Rightarrow> f7" where "inverse x = of7 (val7 x ^ 5)"
definition divide_f7 :: "f7 \<Rightarrow> f7 \<Rightarrow> f7" where "x div y = x * inverse (y :: f7)"

instance
proof
  note defs = val7_inject[symmetric] zero_f7_def one_f7_def plus_f7_def uminus_f7_def minus_f7_def
    times_f7_def
  fix a b c :: f7
  show "a + b + c = a + (b + c)" by (simp add: defs mod_simps add.assoc)
  show "a + b = b + a" by (simp add: defs add.commute)
  show "0 + a = a" by (simp add: defs val7_less)
  show "- a + a = 0" using val7_less[of a] by (simp add: defs mod_simps)
  show "a - b = a + - b" by (simp add: defs mod_simps)
  show "a * b * c = a * (b * c)" by (simp add: defs mod_simps mult.assoc)
  show "a * b = b * a" by (simp add: defs mult.commute)
  show "1 * a = a" by (simp add: defs val7_less)
  show "(a + b) * c = a * c + b * c" by (simp add: defs mod_simps distrib_right)
  show "(0 :: f7) \<noteq> 1" by (simp add: defs)
  show "a \<noteq> 0 \<Longrightarrow> inverse a * a = 1"
    by (cases a) (simp_all add: inverse_f7_def defs)
  show "a div b = a * inverse b" by (simp add: divide_f7_def)
  show "inverse (0 :: f7) = 0" by (simp add: inverse_f7_def defs)
qed

end

definition enc7 :: "f7 \<Rightarrow> bytes" where
  "enc7 x = word_of_nat (val7 x) # replicate 31 0"

definition dec7 :: "bytes \<Rightarrow> f7 option" where
  "dec7 b =
     (if b = spendAuthGBytes then Some F3
      else if length b = 32 \<and> list_all (\<lambda>x. x = 0) (tl b) \<and> unat (hd b) < 7
      then Some (of7 (unat (hd b))) else None)"

definition curve7 :: "(f7, f7) curve" where
  "curve7 = \<lparr>Mul = (\<lambda>P a. P * a), IsOnCurve = (\<lambda>_. True), ToAffineCompressed = enc7,
     FromAffineCompressed = dec7, ScalarBytes = enc7, ScalarSetBytes = dec7,
     ScalarHash = (\<lambda>b. of7 (sum_list (map unat b)))\<rparr>"

lemma unat_val7 [simp]: "unat (word_of_nat (val7 x) :: u8) = val7 x"
  by (cases x) simp_all

lemma dec7_enc7 [simp]: "dec7 (enc7 x) = Some x"
proof -
  have "enc7 x ! 1 = 0" by (simp add: enc7_def)
  moreover have "spendAuthGBytes ! 1 \<noteq> 0" by (simp add: spendAuthGBytes_def)
  ultimately have "enc7 x \<noteq> spendAuthGBytes" by metis
  then show ?thesis by (simp add: dec7_def enc7_def val7_less list_all_iff)
qed

lemma curve7_ok: "curve_ok curve7"
proof -
  have "replicate 32 (0 :: u8) = 0 # replicate 31 0" by (rule replicate_Suc[of 31, simplified])
  then have "enc7 P = replicate 32 0 \<longleftrightarrow> P = 0" for P
    by (cases P) (simp_all add: enc7_def zero_f7_def)
  then show ?thesis
    by (simp add: curve_ok_def curve7_def algebra_simps)
      (simp add: enc7_def dec7_def zero_f7_def)
qed

lemma generator7 [simp]: "PallasGenerator curve7 = F3"
  by (simp add: PallasGenerator_def curve7_def dec7_def)

lemma Mul7 [simp]: "Mul curve7 P a = P * a"
  by (simp add: curve7_def)

lemma of_int_f7:
  "(of_int 1 :: f7) = F1" "(of_int 2 :: f7) = F2" "(of_int 3 :: f7) = F3"
  by code_simp+

lemma numeral_f7: "(2 :: f7) = F2" "(3 :: f7) = F3"
  by code_simp+

end
