(* ===== verification/Shamir.thy ===== *)
theory Shamir
  imports Curve_Sample Vote_Msgs
begin

text \<open>
  Secret sharing, Feldman commitments and threshold decryption:
  \<^verbatim>\<open>src/crypto/shamir/shamir.go\<close>, \<^verbatim>\<open>feldman.go\<close> and \<^verbatim>\<open>partial_decrypt.go\<close>. Scalars
  and points are those of the curve parameter; the random coefficients of \<^verbatim>\<open>Split\<close> are an
  argument. Values of interface type are never nil here, so the nil checks of the sources
  have no counterpart; every other check is a branch. The lemmas show that Lagrange
  interpolation recovers the polynomial, hence that any large enough set of partial
  decryptions combines to the secret key times the ciphertext's first component, and that
  the shares of a joint key generation match the combined commitments.
\<close>

section \<open>Sharing\<close>

text \<open>\<^verbatim>\<open>intToScalar\<close>: reduction of an integer into the scalar field.\<close>

definition intToScalar :: "int \<Rightarrow> 's::field" where "intToScalar v = of_int v"

text \<open>Horner's rule from the last coefficient down; an empty slice is an index panic.\<close>

definition evalPolynomial :: "'s::field list \<Rightarrow> int \<Rightarrow> 's res" where
  "evalPolynomial coeffs x =
     failIfR (coeffs = []) GoPanic (
     Inr (foldl (\<lambda>result c. result * intToScalar x + c) (last coeffs) (rev (butlast coeffs))))"

definition EvalPolynomial :: "'s::field list \<Rightarrow> int \<Rightarrow> 's res" where
  "EvalPolynomial coeffs x = evalPolynomial coeffs x"

text \<open>A loop that appends one result per element and stops at the first error.\<close>

fun mapR :: "('a \<Rightarrow> 'b res) \<Rightarrow> 'a list \<Rightarrow> 'b list res" where
  "mapR f [] = Inr []"
| "mapR f (x # xs) = bindR (f x) (\<lambda>y. bindR (mapR f xs) (\<lambda>ys. Inr (y # ys)))"

lemma mapR_Inr_iff:
  "mapR f xs = Inr ys \<longleftrightarrow> length ys = length xs \<and> (\<forall>i < length xs. f (xs ! i) = Inr (ys ! i))"
proof (induction xs arbitrary: ys)
  case Nil
  then show ?case by auto
next
  case (Cons x xs)
  then show ?case
    by (cases ys) (auto simp: bindR_Inr_iff All_less_Suc2)
qed

lemma mapR_total: "(\<And>x. x \<in> set xs \<Longrightarrow> f x = Inr (g x)) \<Longrightarrow> mapR f xs = Inr (map g xs)"
  by (simp add: mapR_Inr_iff)

record 's Share =
  share_index :: int
  share_value :: 's

definition Split :: "(nat \<Rightarrow> 's::field) \<Rightarrow> 's \<Rightarrow> int \<Rightarrow> int \<Rightarrow> ('s Share list \<times> 's list) res" where
  "Split rnd secret t n =
     failIfR (t < 1) ErrOther (
     failIfR (n < t) ErrOther (
     let coeffs = secret # map rnd [1..<nat t] in
     bindR (mapR (\<lambda>i. let idx = int i + 1 in
              bindR (evalPolynomial coeffs idx) (\<lambda>v.
              Inr \<lparr>share_index = idx, share_value = v\<rparr>)) [0..<nat n]) (\<lambda>shares.
     Inr (shares, coeffs))))"

section \<open>Lagrange coefficients\<close>

fun checkIndices :: "int list \<Rightarrow> int list \<Rightarrow> unit res" where
  "checkIndices seen [] = Inr ()"
| "checkIndices seen (idx # idxs) =
     failIfR (idx \<le> 0) ErrOther (
     failIfR (idx \<in> set seen) ErrOther (
     checkIndices (idx # seen) idxs))"

text \<open>The inner loop: numerator and denominator, skipping position \<open>j\<close>.\<close>

fun lagrangeLoop :: "'s::field \<Rightarrow> 's \<Rightarrow> nat \<Rightarrow> nat \<Rightarrow> 's \<times> 's \<Rightarrow> int list \<Rightarrow> 's \<times> 's" where
  "lagrangeLoop tScalar xjScalar j m (num, den) [] = (num, den)"
| "lagrangeLoop tScalar xjScalar j m (num, den) (xm # xs) =
     (if m = j then lagrangeLoop tScalar xjScalar j (Suc m) (num, den) xs
      else lagrangeLoop tScalar xjScalar j (Suc m)
        (num * (tScalar - intToScalar xm), den * (xjScalar - intToScalar xm)) xs)"

definition LagrangeCoefficients :: "int list \<Rightarrow> int \<Rightarrow> 's::field list res" where
  "LagrangeCoefficients indices target =
     failIfR (indices = []) ErrOther (
     bindR (checkIndices [] indices) (\<lambda>_.
     mapR (\<lambda>j.
       (case lagrangeLoop (intToScalar target) (intToScalar (indices ! j)) j 0 (1, 1) indices of
          (num, den) \<Rightarrow> failIfR (den = 0) ErrOther (Inr (num * inverse den))))
       [0..<length indices]))"

section \<open>Feldman commitments\<close>

definition FeldmanCommit :: "('s, 'p::ab_group_add) curve \<Rightarrow> 'p \<Rightarrow> 's list \<Rightarrow> 'p list res" where
  "FeldmanCommit C G coeffs =
     failIfR (\<not> IsOnCurve C G) ErrOther (
     failIfR (G = 0) ErrOther (
     failIfR (coeffs = []) ErrOther (
     Inr (map (\<lambda>a. Mul C G a) coeffs))))"

definition EvalCommitmentPolynomial ::
  "('s::field, 'p::ab_group_add) curve \<Rightarrow> 'p list \<Rightarrow> int \<Rightarrow> 'p res" where
  "EvalCommitmentPolynomial C commitments index =
     failIfR (commitments = []) ErrOther (
     failIfR (index \<le> 0) ErrOther (
     bindR (forR 0 (\<lambda>_ c. failIfR (\<not> IsOnCurve C c) ErrOther (Inr ())) commitments) (\<lambda>_.
     Inr (foldl (\<lambda>result c. Mul C result (intToScalar index) + c) (last commitments)
            (rev (butlast commitments))))))"

definition VerifyFeldmanShare ::
  "('s::field, 'p::ab_group_add) curve \<Rightarrow> 'p \<Rightarrow> 'p list \<Rightarrow> int \<Rightarrow> 's \<Rightarrow> bool res" where
  "VerifyFeldmanShare C G commitments index share =
     failIfR (\<not> IsOnCurve C G) ErrOther (
     failIfR (G = 0) ErrOther (
     failIfR (index \<le> 0) ErrOther (
     bindR (EvalCommitmentPolynomial C commitments index) (\<lambda>expected.
     Inr (Mul C G share = expected)))))"

definition CombineCommitments :: "('s, 'p::ab_group_add) curve \<Rightarrow> 'p list list \<Rightarrow> 'p list res" where
  "CombineCommitments C contributions =
     failIfR (contributions = []) ErrOther (
     let t = length (hd contributions) in
     failIfR (t = 0) ErrOther (
     bindR (forR 0 (\<lambda>_ vec.
       failIfR (length vec \<noteq> t) ErrOther (
       forR 0 (\<lambda>_ pt. failIfR (\<not> IsOnCurve C pt) ErrOther (Inr ())) vec)) contributions) (\<lambda>_.
     Inr (map (\<lambda>j. foldl (\<lambda>sum vec. sum + vec ! j) (hd contributions ! j) (tl contributions))
            [0..<t]))))"

section \<open>Partial decryptions\<close>

record 'p PartialDecryption =
  pd_index :: int
  pd_Di :: 'p

definition PartialDecrypt :: "('s, 'p) curve \<Rightarrow> 's \<Rightarrow> 'p \<Rightarrow> 'p res" where
  "PartialDecrypt C share C1 = failIfR (\<not> IsOnCurve C C1) ErrOther (Inr (Mul C C1 share))"

definition CombinePartials ::
  "('s::field, 'p::ab_group_add) curve \<Rightarrow> 'p PartialDecryption list \<Rightarrow> int \<Rightarrow> 'p res" where
  "CombinePartials C partials t =
     failIfR (int (length partials) < t) ErrOther (
     bindR (LagrangeCoefficients (map pd_index partials) 0) (\<lambda>lambdas.
     Inr (foldl (\<lambda>result (p, l). result + Mul C (pd_Di p) l) 0 (zip partials lambdas))))"

section \<open>Interpolation\<close>

text \<open>The value of a polynomial given by its coefficients.\<close>

fun polyVal :: "'s::field list \<Rightarrow> 's \<Rightarrow> 's" where
  "polyVal [] x = 0"
| "polyVal (c # cs) x = c + x * polyVal cs x"

lemma horner: "foldl (\<lambda>r c. r * x + c) a (rev cs) = polyVal (cs @ [a]) x"
  by (induction cs) (simp_all add: algebra_simps)

lemma evalPolynomial_Inr: "cs \<noteq> [] \<Longrightarrow> evalPolynomial cs i = Inr (polyVal cs (of_int i))"
  by (simp add: evalPolynomial_def horner intToScalar_def)

text \<open>The Lagrange basis for nodes \<open>v j\<close>, \<open>j \<in> J\<close>.\<close>

definition basis :: "(nat \<Rightarrow> 's::field) \<Rightarrow> nat set \<Rightarrow> 's \<Rightarrow> nat \<Rightarrow> 's" where
  "basis v J t j = (\<Prod>m \<in> J - {j}. (t - v m) / (v j - v m))"

lemma basis_remove:
  assumes "finite J" "a \<in> J" "j \<in> J" "j \<noteq> a"
  shows "basis v J t j = (t - v a) / (v j - v a) * basis v (J - {a}) t j"
proof -
  have "J - {j} - {a} = J - {a} - {j}" by blast
  then show ?thesis unfolding basis_def
    using prod.remove[of "J - {j}" a "\<lambda>m. (t - v m) / (v j - v m)"] assms by simp
qed

lemma sum_basis_shift:
  assumes J: "finite J" "inj_on v J" "a \<in> J"
  shows "(\<Sum>j\<in>J. (v j - v a) * g j * basis v J t j) =
    (t - v a) * (\<Sum>j\<in>J - {a}. g j * basis v (J - {a}) t j)"
proof -
  have "(\<Sum>j\<in>J. (v j - v a) * g j * basis v J t j) =
      (\<Sum>j\<in>J - {a}. (v j - v a) * g j * basis v J t j)"
    using J by (subst sum.remove[of J a]) simp_all
  also have "\<dots> = (\<Sum>j\<in>J - {a}. (t - v a) * (g j * basis v (J - {a}) t j))"
  proof (rule sum.cong)
    fix j assume j: "j \<in> J - {a}"
    then have "v j - v a \<noteq> 0" using J by (auto simp: inj_on_def)
    then show "(v j - v a) * g j * basis v J t j = (t - v a) * (g j * basis v (J - {a}) t j)"
      using j J basis_remove[of J a j v t] by simp
  qed simp
  finally show ?thesis by (simp add: sum_distrib_left)
qed

lemma sum_basis_one:
  "finite J \<Longrightarrow> inj_on v J \<Longrightarrow> J \<noteq> {} \<Longrightarrow> (\<Sum>j\<in>J. basis v J t j) = 1"
proof (induction "card J" arbitrary: J rule: less_induct)
  case less
  obtain a where a: "a \<in> J" using less.prems by blast
  show ?case
  proof (cases "J = {a}")
    case True
    then show ?thesis by (simp add: basis_def)
  next
    case False
    then obtain b where b: "b \<in> J" "b \<noteq> a" using a by blast
    have ne: "v b - v a \<noteq> 0" using a b less.prems by (auto simp: inj_on_def)
    have one: "(\<Sum>j\<in>J - {c}. basis v (J - {c}) t j) = 1" if "c \<in> J" "J - {c} \<noteq> {}" for c
      using less.hyps[OF card_Diff1_less[OF less.prems(1) that(1)]] less.prems that
      by (simp add: inj_on_diff)
    have ne2: "J - {a} \<noteq> {}" "J - {b} \<noteq> {}" using a b by blast+
    have "(v b - v a) * (\<Sum>j\<in>J. basis v J t j) =
        (\<Sum>j\<in>J. (v j - v a) * 1 * basis v J t j) - (\<Sum>j\<in>J. (v j - v b) * 1 * basis v J t j)"
      by (simp add: sum_distrib_left sum_subtractf[symmetric] algebra_simps)
    also have "\<dots> = (t - v a) - (t - v b)"
      unfolding sum_basis_shift[OF less.prems(1,2) a] sum_basis_shift[OF less.prems(1,2) b(1)]
      using one[OF a ne2(1)] one[OF b(1) ne2(2)] by simp
    finally show ?thesis using ne by simp
  qed
qed

lemma interpolation:
  "finite J \<Longrightarrow> inj_on v J \<Longrightarrow> J \<noteq> {} \<Longrightarrow> length cs \<le> card J \<Longrightarrow>
     (\<Sum>j\<in>J. polyVal cs (v j) * basis v J t j) = polyVal cs t"
proof (induction cs arbitrary: J)
  case Nil
  then show ?case by simp
next
  case (Cons c cs)
  then obtain a where a: "a \<in> J" by blast
  have shifted: "(\<Sum>j\<in>J - {a}. polyVal cs (v j) * basis v (J - {a}) t j) = polyVal cs t"
  proof (cases "J - {a} = {}")
    case True
    then have "card J \<le> 1" using a by (metis card_Diff_singleton card.empty diff_is_0_eq)
    then have "length cs \<le> 0" using Cons.prems(4) by (simp only: length_Cons)
    then show ?thesis using True by simp
  next
    case False
    then show ?thesis using Cons.IH[of "J - {a}"] Cons.prems a by (simp add: inj_on_diff)
  qed
  have "(\<Sum>j\<in>J. polyVal (c # cs) (v j) * basis v J t j) =
      c * (\<Sum>j\<in>J. basis v J t j) + v a * (\<Sum>j\<in>J. polyVal cs (v j) * basis v J t j) +
      (\<Sum>j\<in>J. (v j - v a) * polyVal cs (v j) * basis v J t j)"
    by (simp add: sum_distrib_left sum.distrib[symmetric] algebra_simps)
  also have "\<dots> = c + v a * polyVal cs t + (t - v a) * polyVal cs t"
    using sum_basis_one[OF Cons.prems(1-3)] Cons.IH[of J] Cons.prems
      sum_basis_shift[OF Cons.prems(1,2) a, of "\<lambda>j. polyVal cs (v j)"] shifted by simp
  finally show ?case by (simp add: algebra_simps)
qed

section \<open>The code's coefficients are the basis\<close>

lemma lagrangeLoop_closed:
  "lagrangeLoop t xj j m (num, den) xs =
     (num * (\<Prod>k < length xs. if m + k = j then 1 else t - of_int (xs ! k)),
      den * (\<Prod>k < length xs. if m + k = j then 1 else xj - of_int (xs ! k)))"
proof (induction xs arbitrary: m num den)
  case Nil
  then show ?case by simp
next
  case (Cons x xs)
  then show ?case
    by (simp add: prod.lessThan_Suc_shift intToScalar_def mult.assoc del: prod.lessThan_Suc cong: if_cong)
qed

lemma prod_skip:
  fixes f :: "nat \<Rightarrow> 'a::comm_monoid_mult"
  shows "(\<Prod>k < n. if k = j then 1 else f k) = (\<Prod>k \<in> {..<n} - {j}. f k)"
proof -
  have "(\<Prod>k < n. if k = j then 1 else f k) = (\<Prod>k \<in> {..<n} - {j}. if k = j then 1 else f k)"
    by (rule prod.mono_neutral_right) auto
  also have "\<dots> = (\<Prod>k \<in> {..<n} - {j}. f k)" by (rule prod.cong) auto
  finally show ?thesis .
qed

lemma checkIndices_Inr:
  "checkIndices seen xs = Inr u \<longleftrightarrow> (\<forall>x \<in> set xs. 0 < x) \<and> distinct xs \<and> set seen \<inter> set xs = {}"
  by (induction xs arbitrary: seen) auto

definition node :: "int list \<Rightarrow> nat \<Rightarrow> 's::field" where
  "node xs k = of_int (xs ! k)"

lemma coefficient_eq:
  "lagrangeLoop (intToScalar t) (intToScalar (xs ! j)) j 0 (1, 1) xs =
     (\<Prod>k \<in> {..<length xs} - {j}. of_int t - node xs k,
      \<Prod>k \<in> {..<length xs} - {j}. node xs j - (node xs k :: 's::field))"
  by (simp add: lagrangeLoop_closed prod_skip intToScalar_def node_def)

lemma LagrangeCoefficients_Inr_iff:
  "LagrangeCoefficients xs t = Inr (ls :: 's::field list) \<longleftrightarrow>
     xs \<noteq> [] \<and> (\<forall>x \<in> set xs. 0 < x) \<and> distinct xs \<and>
     inj_on (node xs :: nat \<Rightarrow> 's) {..<length xs} \<and>
     ls = map (basis (node xs) {..<length xs} (of_int t)) [0..<length xs]"
proof -
  let ?J = "{..<length xs}"
  have den: "(\<forall>j < length xs. (\<Prod>k \<in> ?J - {j}. node xs j - (node xs k :: 's)) \<noteq> 0) \<longleftrightarrow>
      inj_on (node xs :: nat \<Rightarrow> 's) ?J"
    by (auto simp: inj_on_def)
  have val: "(\<Prod>k \<in> ?J - {j}. of_int t - node xs k) * inverse (\<Prod>k \<in> ?J - {j}. node xs j - node xs k) =
      (basis (node xs) ?J (of_int t) j :: 's)" for j
    by (simp only: basis_def prod_dividef divide_inverse[symmetric])
  have m: "mapR (\<lambda>j. case lagrangeLoop (intToScalar t) (intToScalar (xs ! j)) j 0 (1, 1) xs of
          (num, den) \<Rightarrow> failIfR (den = 0) ErrOther (Inr (num * inverse den))) [0..<length xs] = Inr ls
      \<longleftrightarrow> (\<forall>j < length xs. (\<Prod>k \<in> ?J - {j}. node xs j - (node xs k :: 's)) \<noteq> 0) \<and>
        length ls = length xs \<and> (\<forall>j < length xs. ls ! j = basis (node xs) ?J (of_int t) j)"
    unfolding mapR_Inr_iff coefficient_eq prod.case failIfR_Inr_iff val
    by (auto simp del: prod_zero_iff)
  have e: "length ls = length xs \<and> (\<forall>j < length xs. ls ! j = basis (node xs) ?J (of_int t) j) \<longleftrightarrow>
      ls = map (basis (node xs) ?J (of_int t)) [0..<length xs]"
    by (auto intro: nth_equalityI)
  show ?thesis
    unfolding LagrangeCoefficients_def failIfR_Inr_iff bindR_Inr_iff m den e checkIndices_Inr
    by simp
qed

lemma sum_nth: "(\<Sum>i\<leftarrow>[0..<n]. f i) = (\<Sum>i < n. f i)" for f :: "nat \<Rightarrow> 'a::comm_monoid_add"
  by (simp add: sum_list_distinct_conv_sum_set atLeast0LessThan)

text \<open>Reconstruction: the coefficients at target 0 recover the constant term.\<close>

lemma lagrange_reconstruct:
  assumes "LagrangeCoefficients xs t = Inr (ls :: 's::field list)" and "length cs \<le> length xs"
  shows "(\<Sum>j < length xs. polyVal cs (of_int (xs ! j)) * ls ! j) = polyVal cs (of_int t)"
proof -
  note l = assms(1)[unfolded LagrangeCoefficients_Inr_iff]
  have "(\<Sum>j < length xs. polyVal cs (of_int (xs ! j)) * ls ! j) =
      (\<Sum>j < length xs. polyVal cs (node xs j) * basis (node xs) {..<length xs} (of_int t) j)"
    using l by (intro sum.cong) (auto simp: node_def)
  also have "\<dots> = polyVal cs (of_int t)"
    using l assms(2) by (intro interpolation) (auto simp: lessThan_empty_iff)
  finally show ?thesis .
qed

lemma foldl_add_sum_list: "foldl (\<lambda>r x. r + f x) a xs = a + (\<Sum>x\<leftarrow>xs. f x)"
  for f :: "'b \<Rightarrow> 'a::comm_monoid_add"
  by (induction xs arbitrary: a) (simp_all add: add.assoc)

lemma CombinePartials_Inr_iff:
  "CombinePartials C ps t = Inr P \<longleftrightarrow> t \<le> int (length ps) \<and>
     (\<exists>ls. LagrangeCoefficients (map pd_index ps) 0 = Inr ls \<and>
       P = (\<Sum>j < length ps. Mul C (pd_Di (ps ! j)) (ls ! j)))"
proof -
  have sum: "foldl (\<lambda>r (p, l). r + Mul C (pd_Di p) l) 0 (zip ps ls) =
      (\<Sum>j < length ps. Mul C (pd_Di (ps ! j)) (ls ! j))" if "length ls = length ps" for ls
  proof -
    have "foldl (\<lambda>r (p, l). r + Mul C (pd_Di p) l) 0 (zip ps ls) =
        (\<Sum>x\<leftarrow>zip ps ls. Mul C (pd_Di (fst x)) (snd x))"
      using foldl_add_sum_list[of "\<lambda>x. Mul C (pd_Di (fst x)) (snd x)" 0 "zip ps ls"]
      by (simp add: case_prod_beta')
    also have "\<dots> = (\<Sum>j < length ps. Mul C (pd_Di (ps ! j)) (ls ! j))"
      using that by (simp add: sum_list_sum_nth atLeast0LessThan)
    finally show ?thesis .
  qed
  have len: "length ls = length ps" if "LagrangeCoefficients (map pd_index ps) 0 = Inr ls" for ls
    using that by (simp add: LagrangeCoefficients_Inr_iff)
  show ?thesis unfolding CombinePartials_def failIfR_Inr_iff bindR_Inr_iff
    using sum len by (auto simp: not_less)
qed

text \<open>Lagrange interpolation in the exponent.\<close>

lemma CombinePartials_polynomial:
  fixes C :: "('s::field, 'p::ab_group_add) curve"
  assumes "curve_ok C" and "ps \<noteq> []" and "t \<le> int (length ps)" and "int (length cs) \<le> t"
    and "cs \<noteq> []" and "distinct (map pd_index ps)" and "\<forall>p \<in> set ps. 0 < pd_index p"
    and "inj_on (of_int :: int \<Rightarrow> 's) (pd_index ` set ps)"
    and "\<forall>p \<in> set ps. pd_Di p = Mul C C1 (polyVal cs (of_int (pd_index p)))"
  shows "CombinePartials C ps t = Inr (Mul C C1 (hd cs))"
proof -
  let ?xs = "map pd_index ps"
  define ls where "ls = map (basis (node ?xs) {..<length ?xs} (of_int 0 :: 's)) [0..<length ?xs]"
  have "inj_on (node ?xs :: nat \<Rightarrow> 's) {..<length ?xs}"
  proof (rule inj_onI)
    fix i j assume ij: "i \<in> {..<length ?xs}" "j \<in> {..<length ?xs}" "node ?xs i = (node ?xs j :: 's)"
    then have "pd_index (ps ! i) = pd_index (ps ! j)"
      using assms(8) by (auto simp: node_def inj_on_def)
    then show "i = j" using ij assms(6) by (simp add: nth_eq_iff_index_eq[symmetric])
  qed
  then have l: "LagrangeCoefficients ?xs 0 = Inr ls"
    using assms(2,6,7) by (simp add: LagrangeCoefficients_Inr_iff ls_def)
  have "(\<Sum>j < length ps. Mul C (pd_Di (ps ! j)) (ls ! j)) =
      Mul C C1 (\<Sum>j < length ps. polyVal cs (of_int (?xs ! j)) * ls ! j)"
    using assms(1,9) by (simp add: Mul_sum Mul_Mul)
  also have "\<dots> = Mul C C1 (polyVal cs 0)"
    using lagrange_reconstruct[OF l, of cs] assms(3,4) by simp
  also have "polyVal cs 0 = hd cs" using assms(5) by (cases cs) simp_all
  finally show ?thesis using l assms(3) by (auto simp: CombinePartials_Inr_iff)
qed

text \<open>
  C20. Threshold decryption. If each partial decryption is the value of a polynomial of at
  most \<open>t\<close> coefficients at the validator's index, times \<open>C1\<close>, and at least \<open>t\<close> of them
  with distinct positive indices (distinct also as scalars) are combined, then
  \<^verbatim>\<open>CombinePartials\<close> succeeds and returns the polynomial's constant term (the shared
  secret key) times \<open>C1\<close>.
\<close>

theorem combine_partials_recovers:
  fixes C :: "('s::field, 'p::ab_group_add) curve"
  assumes "curve_ok C" and "ps \<noteq> []" and "t \<le> int (length ps)" and "int (length cs) \<le> t"
    and "cs \<noteq> []" and "distinct (map pd_index ps)" and "\<forall>p \<in> set ps. 0 < pd_index p"
    and "inj_on (of_int :: int \<Rightarrow> 's) (pd_index ` set ps)"
    and "\<forall>p \<in> set ps. pd_Di p = Mul C C1 (polyVal cs (of_int (pd_index p)))"
  shows "CombinePartials C ps t = Inr (Mul C C1 (hd cs))"
  by (rule CombinePartials_polynomial[OF assms])

text \<open>Two of three shares of the polynomial \<open>2 + 3 x\<close> over the sample curve.\<close>

definition samplePartials :: "f7 PartialDecryption list" where
  "samplePartials =
     [\<lparr>pd_index = 1, pd_Di = Mul curve7 F4 (polyVal [F2, F3] (of_int 1))\<rparr>,
      \<lparr>pd_index = 3, pd_Di = Mul curve7 F4 (polyVal [F2, F3] (of_int 3))\<rparr>]"

theorem combine_partials_recovers_witness:
  "CombinePartials curve7 samplePartials 2 = Inr (Mul curve7 F4 F2)"
proof -
  have "inj_on (of_int :: int \<Rightarrow> f7) (pd_index ` set samplePartials)"
    by (simp add: samplePartials_def inj_on_def numeral_f7 one_f7_def)
  then have "CombinePartials curve7 samplePartials 2 = Inr (Mul curve7 F4 (hd [F2, F3]))"
    by (intro combine_partials_recovers[OF curve7_ok]) (simp_all add: samplePartials_def)
  then show ?thesis by simp
qed

section \<open>Commitments and joint key generation\<close>

lemma polyVal_sum: "polyVal cs x = (\<Sum>j < length cs. cs ! j * x ^ j)"
proof (induction cs)
  case Nil
  then show ?case by simp
next
  case (Cons c cs)
  then show ?case
    by (simp add: sum.lessThan_Suc_shift sum_distrib_left algebra_simps del: sum.lessThan_Suc)
qed

text \<open>Coefficient-wise sum of the contributors' polynomials.\<close>

definition sumPolys :: "'s::field list list \<Rightarrow> 's list" where
  "sumPolys css = map (\<lambda>j. \<Sum>cs\<leftarrow>css. cs ! j) [0..<length (hd css)]"

lemma sum_list_swap: "(\<Sum>j \<in> J. \<Sum>x\<leftarrow>xs. f x j) = (\<Sum>x\<leftarrow>xs. \<Sum>j \<in> J. f x j)"
  for f :: "'a \<Rightarrow> 'b \<Rightarrow> 'c::comm_monoid_add"
  by (induction xs) (simp_all add: sum.distrib)

lemma polyVal_sumPolys:
  assumes "css \<noteq> []" and "\<forall>cs \<in> set css. length cs = length (hd css)"
  shows "polyVal (sumPolys css) x = (\<Sum>cs\<leftarrow>css. polyVal cs x)"
proof -
  let ?t = "length (hd css)"
  have "polyVal (sumPolys css) x = (\<Sum>j < ?t. (\<Sum>cs\<leftarrow>css. cs ! j * x ^ j))"
    by (simp add: polyVal_sum sumPolys_def sum_list_mult_const)
  also have "\<dots> = (\<Sum>cs\<leftarrow>css. \<Sum>j < ?t. cs ! j * x ^ j)"
    by (rule sum_list_swap)
  also have "\<dots> = (\<Sum>cs\<leftarrow>css. polyVal cs x)"
    using assms(2) by (intro arg_cong[of _ _ sum_list] map_cong) (simp_all add: polyVal_sum)
  finally show ?thesis .
qed

lemma horner_group:
  assumes "curve_ok C"
  shows "foldl (\<lambda>R c. Mul C R x + c) (Mul C G a) (rev (map (Mul C G) cs)) =
    Mul C G (polyVal (cs @ [a]) x)"
  by (induction cs)
    (simp_all add: Mul_add[OF assms] Mul_Mul[OF assms] Mul_0[OF assms] add.commute mult.commute)

lemma forR_onCurve:
  "curve_ok C \<Longrightarrow> forR i (\<lambda>_ c. failIfR (\<not> IsOnCurve C c) e (Inr ())) cs = Inr ()"
  by (simp add: forR_Inr_iff onCurve)

lemma EvalCommitmentPolynomial_commit:
  assumes "curve_ok C" and "cs \<noteq> []" and "0 < i"
  shows "EvalCommitmentPolynomial C (map (Mul C G) cs) i = Inr (Mul C G (polyVal cs (of_int i)))"
proof -
  have cs: "cs = butlast cs @ [last cs]" using assms(2) by simp
  have "last (map (Mul C G) cs) = Mul C G (last cs)" using assms(2) by (simp add: last_map)
  moreover have "butlast (map (Mul C G) cs) = map (Mul C G) (butlast cs)" by (simp add: map_butlast)
  ultimately show ?thesis using assms horner_group[OF assms(1), of "of_int i" G "last cs" "butlast cs"]
    by (simp add: EvalCommitmentPolynomial_def forR_onCurve intToScalar_def)
qed

lemma CombineCommitments_commit:
  assumes "curve_ok C" and "css \<noteq> []" and "hd css \<noteq> []"
    and "\<forall>cs \<in> set css. length cs = length (hd css)"
  shows "CombineCommitments C (map (map (Mul C G)) css) = Inr (map (Mul C G) (sumPolys css))"
proof -
  have len: "length cs = length (hd css)" if "cs \<in> set (tl css)" for cs
    using that assms(2,4) list.set_sel(2) by metis
  have "foldl (\<lambda>sum vec. sum + vec ! j) (map (Mul C G) (hd css) ! j) (map (map (Mul C G)) (tl css)) =
      Mul C G (\<Sum>cs\<leftarrow>css. cs ! j)" if "j < length (hd css)" for j
  proof -
    have "foldl (\<lambda>sum vec. sum + vec ! j) (map (Mul C G) (hd css) ! j) (map (map (Mul C G)) (tl css)) =
        Mul C G (hd css ! j) + (\<Sum>cs\<leftarrow>tl css. map (Mul C G) cs ! j)"
      using that by (simp add: foldl_add_sum_list comp_def)
    also have "(\<Sum>cs\<leftarrow>tl css. map (Mul C G) cs ! j) = (\<Sum>cs\<leftarrow>tl css. Mul C G (cs ! j))"
      using that len by (intro arg_cong[of _ _ sum_list] map_cong refl nth_map) (simp only:)
    also have "Mul C G (hd css ! j) + (\<Sum>cs\<leftarrow>tl css. Mul C G (cs ! j)) = Mul C G (\<Sum>cs\<leftarrow>css. cs ! j)"
      using assms(1,2) by (cases css) (simp_all add: Mul_add Mul_sum_list)
    finally show ?thesis .
  qed
  moreover have "forR 0 (\<lambda>_ vec. failIfR (length vec \<noteq> length (hd css)) ErrOther (
      forR 0 (\<lambda>_ pt. failIfR (\<not> IsOnCurve C pt) ErrOther (Inr ())) vec)) (map (map (Mul C G)) css) = Inr ()"
    unfolding forR_Inr_iff[of _ _ "map (map (Mul C G)) css"]
  proof (intro allI impI)
    fix i assume i: "i < length (map (map (Mul C G)) css)"
    then have "css ! i \<in> set css" by simp
    then have "length (css ! i) = length (hd css)" using assms(4) by blast
    then show "failIfR (length (map (map (Mul C G)) css ! i) \<noteq> length (hd css)) ErrOther (
        forR 0 (\<lambda>_ pt. failIfR (\<not> IsOnCurve C pt) ErrOther (Inr ())) (map (map (Mul C G)) css ! i)) = Inr ()"
      using i by (simp add: forR_onCurve[OF assms(1)])
  qed
  ultimately show ?thesis using assms(2,3)
    by (simp add: CombineCommitments_def Let_def hd_map map_tl sumPolys_def)
qed

lemma Mul_inject: "curve_ok C \<Longrightarrow> G \<noteq> 0 \<Longrightarrow> Mul C G a = Mul C G b \<longleftrightarrow> a = b"
  using Mul_eq_0_iff[of C G "a - b"] Mul_diff[of C G a b] by auto

text \<open>
  C21. Joint-Feldman key generation. If every contributor publishes the commitments to its
  own polynomial (all of one length), \<^verbatim>\<open>CombineCommitments\<close> succeeds; the first combined
  commitment is the public key of the sum of all secrets; and for every index the combined
  commitments accept a share if and only if it is the sum of the contributors' polynomial
  values there, which is also the value behind the verification key that
  \<^verbatim>\<open>EvalCommitmentPolynomial\<close> derives for that index.
\<close>

theorem joint_dkg_consistent:
  assumes "curve_ok C" and "G \<noteq> 0" and "css \<noteq> []" and "hd css \<noteq> []"
    and "\<forall>cs \<in> set css. length cs = length (hd css)"
  shows "\<exists>combined. CombineCommitments C (map (map (Mul C G)) css) = Inr combined \<and>
    hd combined = Mul C G (\<Sum>cs\<leftarrow>css. hd cs) \<and>
    (\<forall>i s. 0 < i \<longrightarrow>
      VerifyFeldmanShare C G combined i s = Inr (s = (\<Sum>cs\<leftarrow>css. polyVal cs (of_int i))) \<and>
      EvalCommitmentPolynomial C combined i = Inr (Mul C G (\<Sum>cs\<leftarrow>css. polyVal cs (of_int i))))"
proof (intro exI conjI allI impI)
  let ?p = "sumPolys css"
  have ne: "?p \<noteq> []" using assms(4) by (simp add: sumPolys_def)
  show "CombineCommitments C (map (map (Mul C G)) css) = Inr (map (Mul C G) ?p)"
    using assms by (intro CombineCommitments_commit)
  have hds: "cs ! 0 = hd cs" if "cs \<in> set css" for cs
    using that assms(4,5) by (metis hd_conv_nth length_0_conv)
  have "hd ?p = (\<Sum>cs\<leftarrow>css. cs ! 0)"
    using assms(4) by (simp add: sumPolys_def hd_map upt_conv_Cons)
  also have "\<dots> = (\<Sum>cs\<leftarrow>css. hd cs)"
    using hds by (intro arg_cong[of _ _ sum_list] map_cong) auto
  finally show "hd (map (Mul C G) ?p) = Mul C G (\<Sum>cs\<leftarrow>css. hd cs)"
    using ne by (simp add: hd_map)
  fix i :: int and s assume i: "0 < i"
  show eval: "EvalCommitmentPolynomial C (map (Mul C G) ?p) i =
      Inr (Mul C G (\<Sum>cs\<leftarrow>css. polyVal cs (of_int i)))"
    using EvalCommitmentPolynomial_commit[OF assms(1) ne i] polyVal_sumPolys[OF assms(3,5)] by simp
  show "VerifyFeldmanShare C G (map (Mul C G) ?p) i s =
      Inr (s = (\<Sum>cs\<leftarrow>css. polyVal cs (of_int i)))"
    using i assms(1,2) by (simp add: VerifyFeldmanShare_def eval onCurve Mul_inject)
qed

theorem joint_dkg_consistent_witness:
  "\<exists>combined. CombineCommitments curve7 (map (map (Mul curve7 F3)) [[F2, F3], [F1, F6]]) = Inr combined \<and>
     hd combined = Mul curve7 F3 (F2 + F1) \<and>
     VerifyFeldmanShare curve7 F3 combined 2 (polyVal [F2, F3] (of_int 2) + polyVal [F1, F6] (of_int 2)) = Inr True"
proof -
  have "(F3 :: f7) \<noteq> 0" by (simp add: zero_f7_def)
  from joint_dkg_consistent[OF curve7_ok this, of "[[F2, F3], [F1, F6]]"]
  show ?thesis by fastforce
qed

end
