(* ===== verification/ElGamal.thy ===== *)
theory ElGamal
  imports Shamir
begin

text \<open>
  ElGamal over the curve parameter: \<^verbatim>\<open>src/crypto/elgamal/elgamal.go\<close> (encryption,
  decryption to a point, homomorphic addition), \<^verbatim>\<open>serialize.go\<close>, \<^verbatim>\<open>bsgs.go\<close>
  (baby-step giant-step discrete logarithm), \<^verbatim>\<open>dleq.go\<close> (proofs of correct partial
  decryption) and \<^verbatim>\<open>dkg_pop.go\<close> (proof of knowledge of a dealer's constant term). Random
  seeds are arguments; \<open>None\<close> is a reader that fails. The hash to a scalar and Blake2b are
  parameters.
\<close>

section \<open>Encryption\<close>

record 'p Ciphertext =
  C1 :: 'p
  C2 :: 'p

definition scalarFromUint64 :: "u64 \<Rightarrow> 's::field" where
  "scalarFromUint64 v = of_nat (unat v)"

definition KeyGen :: "('s, 'p) curve \<Rightarrow> 's \<Rightarrow> 's \<times> 'p" where
  "KeyGen C sk = (sk, Mul C (PallasGenerator C) sk)"

definition validatePublicKey :: "('s, 'p::ab_group_add) curve \<Rightarrow> 'p \<Rightarrow> unit res" where
  "validatePublicKey C pk =
     failIfR (pk = 0) ErrOther (
     failIfR (\<not> IsOnCurve C pk) ErrOther (
     Inr ()))"

definition encryptCore :: "('s::field, 'p::ab_group_add) curve \<Rightarrow> 'p \<Rightarrow> u64 \<Rightarrow> 's \<Rightarrow> 'p Ciphertext" where
  "encryptCore C pk v r =
     (let G = PallasGenerator C in
      \<lparr>C1 = Mul C G r, C2 = Mul C G (scalarFromUint64 v) + Mul C pk r\<rparr>)"

definition Encrypt ::
  "('s::field, 'p::ab_group_add) curve \<Rightarrow> 'p \<Rightarrow> u64 \<Rightarrow> bytes option \<Rightarrow> 'p Ciphertext res" where
  "Encrypt C pk v seed =
     bindR (validatePublicKey C pk) (\<lambda>_.
     (case seed of None \<Rightarrow> Inl ErrOther | Some sd \<Rightarrow> Inr (encryptCore C pk v (ScalarHash C sd))))"

definition EncryptWithRandomness ::
  "('s::field, 'p::ab_group_add) curve \<Rightarrow> 'p \<Rightarrow> u64 \<Rightarrow> 's \<Rightarrow> 'p Ciphertext res" where
  "EncryptWithRandomness C pk v r =
     bindR (validatePublicKey C pk) (\<lambda>_.
     failIfR (r = 0) ErrOther (
     Inr (encryptCore C pk v r)))"

definition ValuePoint :: "('s::field, 'p) curve \<Rightarrow> u64 \<Rightarrow> 'p" where
  "ValuePoint C v = Mul C (PallasGenerator C) (scalarFromUint64 v)"

definition DecryptToPoint :: "('s, 'p::ab_group_add) curve \<Rightarrow> 's \<Rightarrow> 'p Ciphertext \<Rightarrow> 'p" where
  "DecryptToPoint C sk ct = C2 ct - Mul C (C1 ct) sk"

definition HomomorphicAdd :: "'p::ab_group_add Ciphertext \<Rightarrow> 'p Ciphertext \<Rightarrow> 'p Ciphertext" where
  "HomomorphicAdd a b = \<lparr>C1 = C1 a + C1 b, C2 = C2 a + C2 b\<rparr>"

definition EncryptZero ::
  "('s::field, 'p::ab_group_add) curve \<Rightarrow> 'p \<Rightarrow> bytes option \<Rightarrow> 'p Ciphertext res" where
  "EncryptZero C pk seed = Encrypt C pk 0 seed"

section \<open>Serialisation\<close>

definition CompressedPointSize :: nat where "CompressedPointSize = 32"
definition CiphertextSize :: nat where "CiphertextSize = 2 * CompressedPointSize"

definition MarshalCiphertext :: "('s, 'p) curve \<Rightarrow> 'p Ciphertext \<Rightarrow> bytes res" where
  "MarshalCiphertext C ct =
     (let c1Bytes = ToAffineCompressed C (C1 ct); c2Bytes = ToAffineCompressed C (C2 ct) in
     failIfR (length c1Bytes \<noteq> CompressedPointSize) ErrOther (
     failIfR (length c2Bytes \<noteq> CompressedPointSize) ErrOther (
     Inr (c1Bytes @ c2Bytes))))"

definition DecompressPallasPoint :: "('s, 'p::ab_group_add) curve \<Rightarrow> bytes \<Rightarrow> 'p res" where
  "DecompressPallasPoint C data =
     (if list_all (\<lambda>b. b = 0) data then Inr 0
      else (case FromAffineCompressed C data of None \<Rightarrow> Inl ErrOther | Some P \<Rightarrow> Inr P))"

definition UnmarshalCiphertext :: "('s, 'p::ab_group_add) curve \<Rightarrow> bytes \<Rightarrow> 'p Ciphertext res" where
  "UnmarshalCiphertext C data =
     failIfR (length data \<noteq> CiphertextSize) ErrOther (
     bindR (DecompressPallasPoint C (take CompressedPointSize data)) (\<lambda>c1.
     bindR (DecompressPallasPoint C (drop CompressedPointSize data)) (\<lambda>c2.
     Inr \<lparr>C1 = c1, C2 = c2\<rparr>)))"

definition UnmarshalPoint :: "('s, 'p::ab_group_add) curve \<Rightarrow> bytes \<Rightarrow> 'p res" where
  "UnmarshalPoint C data =
     failIfR (length data \<noteq> CompressedPointSize) ErrOther (DecompressPallasPoint C data)"

definition UnmarshalPublicKey :: "('s, 'p::ab_group_add) curve \<Rightarrow> bytes \<Rightarrow> 'p res" where
  "UnmarshalPublicKey C data =
     failIfR (length data \<noteq> CompressedPointSize) ErrOther (
     bindR (DecompressPallasPoint C data) (\<lambda>pt.
     failIfR (pt = 0) ErrOther (
     Inr pt)))"

definition UnmarshalSecretKey :: "('s::field, 'p) curve \<Rightarrow> bytes \<Rightarrow> 's res" where
  "UnmarshalSecretKey C data =
     failIfR (length data \<noteq> CompressedPointSize) ErrOther (
     (case ScalarSetBytes C data of
        None \<Rightarrow> Inl ErrOther
      | Some s \<Rightarrow> failIfR (s = 0) ErrOther (Inr s)))"

definition MarshalSecretKey :: "('s, 'p) curve \<Rightarrow> 's \<Rightarrow> bytes res" where
  "MarshalSecretKey C sk = Inr (ScalarBytes C sk)"

text \<open>The code panics when the identity ciphertext does not marshal.\<close>

definition IdentityCiphertextBytes :: "('s, 'p::ab_group_add) curve \<Rightarrow> bytes res" where
  "IdentityCiphertextBytes C =
     (case MarshalCiphertext C \<lparr>C1 = 0, C2 = 0\<rparr> of Inl _ \<Rightarrow> Inl GoPanic | Inr bz \<Rightarrow> Inr bz)"

section \<open>Baby-step giant-step\<close>

text \<open>
  \<^verbatim>\<open>uint64(math.Ceil(math.Sqrt(float64(n))))\<close> in exact integer arithmetic: conversion
  to a 53-bit significand, the correctly rounded square root (through the integer square
  root of the operand scaled by \<open>4 ^ 60\<close>, rounded half to even with the inexactness as a
  sticky bit), and the ceiling.
\<close>

function isqrt :: "int \<Rightarrow> int" where
  "isqrt n =
     (if n \<le> 0 then 0
      else let r = 2 * isqrt (n div 4) in if (r + 1) * (r + 1) \<le> n then r + 1 else r)"
  by auto
termination by (relation "measure nat") auto

declare isqrt.simps [simp del]

function bitLen :: "int \<Rightarrow> nat" where
  "bitLen n = (if n \<le> 0 then 0 else Suc (bitLen (n div 2)))"
  by auto
termination by (relation "measure nat") auto

declare bitLen.simps [simp del]

definition roundHalfEven :: "int \<Rightarrow> nat \<Rightarrow> bool \<Rightarrow> int" where
  "roundHalfEven m b sticky =
     (if b = 0 then m
      else let q = m div 2 ^ b; rest = m mod 2 ^ b; half = 2 ^ (b - 1) in
           if rest > half \<or> (rest = half \<and> (sticky \<or> q mod 2 = 1)) then q + 1 else q)"

definition round53 :: "int \<Rightarrow> bool \<Rightarrow> int" where
  "round53 m sticky = (let b = bitLen m - 53 in roundHalfEven m b sticky * 2 ^ b)"

definition ceilSqrtFloat :: "u64 \<Rightarrow> u64" where
  "ceilSqrtFloat n =
     (let x = round53 (uint n) False; y = x * 4 ^ 60; r = isqrt y;
          s = round53 r (r * r \<noteq> y) in
      word_of_int ((s + (2 ^ 60 - 1)) div 2 ^ 60))"

definition ceilSqrt :: "u64 \<Rightarrow> u64" where
  "ceilSqrt n =
     (if n \<le> 1 then n
      else let s = ceilSqrtFloat n in
           if uint s * uint s < uint n then s + 1 else s)"

text \<open>A compressed point copied into a 32-byte array.\<close>

definition pointToKey :: "('s, 'p) curve \<Rightarrow> 'p \<Rightarrow> bytes" where
  "pointToKey C p = write32 (ToAffineCompressed C p)"

record 'p BSGSTable =
  bs_table :: "bytes \<Rightarrow> u64 option"
  bs_m :: u64
  bs_mG :: 'p
  bs_n :: u64

text \<open>The loop that fills the table: \<open>steps\<close> entries from \<open>j\<close> on.\<close>

fun babySteps :: "('s, 'p::ab_group_add) curve \<Rightarrow> nat \<Rightarrow> u64 \<Rightarrow> 'p \<Rightarrow> (bytes \<Rightarrow> u64 option) \<Rightarrow>
    (bytes \<Rightarrow> u64 option)" where
  "babySteps C 0 j current table = table"
| "babySteps C (Suc steps) j current table =
     babySteps C steps (j + 1) (current + PallasGenerator C)
       (table(pointToKey C current \<mapsto> j))"

definition NewBSGSTable :: "('s::field, 'p::ab_group_add) curve \<Rightarrow> u64 \<Rightarrow> 'p BSGSTable" where
  "NewBSGSTable C N =
     (if N = 0 then \<lparr>bs_table = (\<lambda>_. None), bs_m = 0, bs_mG = 0, bs_n = 0\<rparr>
      else let m = ceilSqrt N in
        \<lparr>bs_table = babySteps C (unat m) 0 0 (\<lambda>_. None), bs_m = m,
         bs_mG = Mul C (PallasGenerator C) (scalarFromUint64 m), bs_n = N\<rparr>)"

text \<open>The giant-step loop, with the number of iterations left.\<close>

fun giantSteps :: "('s, 'p::ab_group_add) curve \<Rightarrow> 'p BSGSTable \<Rightarrow> nat \<Rightarrow> u64 \<Rightarrow> 'p \<Rightarrow> u64 res" where
  "giantSteps C t 0 i candidate = Inl ErrOther"
| "giantSteps C t (Suc left) i candidate =
     (case bs_table t (pointToKey C candidate) of
        Some j \<Rightarrow>
          (let x = i * bs_m t + j in
           if x < bs_n t then Inr x
           else giantSteps C t left (i + 1) (candidate - bs_mG t))
      | None \<Rightarrow> giantSteps C t left (i + 1) (candidate - bs_mG t))"

definition Solve :: "('s, 'p::ab_group_add) curve \<Rightarrow> 'p BSGSTable \<Rightarrow> 'p \<Rightarrow> u64 res" where
  "Solve C t h =
     failIfR (bs_n t = 0) ErrOther (giantSteps C t (Suc (unat (bs_m t))) 0 h)"

section \<open>Proofs of correct partial decryption\<close>

definition DLEQProofSize :: nat where "DLEQProofSize = 2 * CompressedPointSize"

definition pdDleqDomainTag :: gostring where "pdDleqDomainTag = str ''svote-pd-dleq-v1''"

definition pdDleqChallenge ::
  "lib \<Rightarrow> ('s, 'p) curve \<Rightarrow> 'p \<Rightarrow> 'p \<Rightarrow> 'p \<Rightarrow> 'p \<Rightarrow> 'p \<Rightarrow> 'p \<Rightarrow> 's" where
  "pdDleqChallenge L C G VKi c1 Di R1 R2 =
     ScalarHash C (blake2b256 L (pdDleqDomainTag @ ToAffineCompressed C G @
       ToAffineCompressed C VKi @ ToAffineCompressed C c1 @ ToAffineCompressed C Di @
       ToAffineCompressed C R1 @ ToAffineCompressed C R2))"

definition GeneratePartialDecryptDLEQ ::
  "lib \<Rightarrow> ('s::field, 'p::ab_group_add) curve \<Rightarrow> 's \<Rightarrow> 'p \<Rightarrow> bytes option \<Rightarrow> bytes res" where
  "GeneratePartialDecryptDLEQ L C share c1 seed =
     failIfR (share = 0) ErrOther (
     failIfR (\<not> IsOnCurve C c1) ErrOther (
     (case seed of None \<Rightarrow> Inl ErrOther | Some sd \<Rightarrow>
      (let G = PallasGenerator C; VKi = Mul C G share; Di = Mul C c1 share;
           k = ScalarHash C sd; R1 = Mul C G k; R2 = Mul C c1 k;
           e = pdDleqChallenge L C G VKi c1 Di R1 R2;
           z = e * share + k in
       Inr (ScalarBytes C e @ ScalarBytes C z)))))"

definition VerifyPartialDecryptDLEQ ::
  "lib \<Rightarrow> ('s::field, 'p::ab_group_add) curve \<Rightarrow> bytes \<Rightarrow> 'p \<Rightarrow> 'p \<Rightarrow> 'p \<Rightarrow> unit res" where
  "VerifyPartialDecryptDLEQ L C proof VKi c1 Di =
     failIfR (length proof \<noteq> DLEQProofSize) ErrOther (
     failIfR (\<not> IsOnCurve C VKi \<or> VKi = 0) ErrOther (
     failIfR (\<not> IsOnCurve C c1 \<or> c1 = 0) ErrOther (
     failIfR (\<not> IsOnCurve C Di) ErrOther (
     (case ScalarSetBytes C (take CompressedPointSize proof) of None \<Rightarrow> Inl ErrOther | Some e \<Rightarrow>
     (case ScalarSetBytes C (drop CompressedPointSize proof) of None \<Rightarrow> Inl ErrOther | Some z \<Rightarrow>
     (let G = PallasGenerator C;
          R1 = Mul C G z - Mul C VKi e;
          R2 = Mul C c1 z - Mul C Di e;
          ePrime = pdDleqChallenge L C G VKi c1 Di R1 R2 in
      failIfR (e \<noteq> ePrime) ErrOther (Inr ()))))))))"

section \<open>Proof of knowledge of the constant term\<close>

definition constantTermProofDomain :: gostring where
  "constantTermProofDomain = str ''svote-dkg-constant-term-pok-v1''"

definition constantTermProofSize :: nat where
  "constantTermProofSize = 2 * CompressedPointSize"

definition writeProofField :: "bytes \<Rightarrow> bytes" where
  "writeProofField field = putUint64BE (word_of_nat (length field)) @ field"

text \<open>The bytes hashed into the challenge.\<close>

definition constantTermTranscript ::
  "('s, 'p) curve \<Rightarrow> gostring \<Rightarrow> bytes \<Rightarrow> gostring \<Rightarrow> bytes list \<Rightarrow> 'p \<Rightarrow> bytes" where
  "constantTermTranscript C chainID roundID dealer commitments R =
     writeProofField constantTermProofDomain @
     writeProofField chainID @
     writeProofField roundID @
     writeProofField dealer @
     writeProofField (ToAffineCompressed C (PallasGenerator C)) @
     putUint64BE (word_of_nat (length commitments)) @
     concat (map writeProofField commitments) @
     writeProofField (ToAffineCompressed C R)"

definition constantTermChallenge ::
  "lib \<Rightarrow> ('s, 'p) curve \<Rightarrow> gostring \<Rightarrow> bytes \<Rightarrow> gostring \<Rightarrow> bytes list \<Rightarrow> 'p \<Rightarrow> 's" where
  "constantTermChallenge L C chainID roundID dealer commitments R =
     ScalarHash C (blake2b256 L (constantTermTranscript C chainID roundID dealer commitments R))"

definition constantTermPoint :: "('s, 'p::ab_group_add) curve \<Rightarrow> bytes list \<Rightarrow> 'p res" where
  "constantTermPoint C commitments =
     failIfR (commitments = []) ErrOther (UnmarshalPublicKey C (hd commitments))"

text \<open>
  The nonce loop: seeds are drawn until the derived scalar is not zero; a seed that cannot be
  read (or a run out of the given seeds) ends it with an error.
\<close>

fun drawNonce :: "('s::field, 'p) curve \<Rightarrow> bytes option list \<Rightarrow> 's option" where
  "drawNonce C [] = None"
| "drawNonce C (None # seeds) = None"
| "drawNonce C (Some sd # seeds) =
     (if ScalarHash C sd = 0 then drawNonce C seeds else Some (ScalarHash C sd))"

definition GenerateConstantTermProof ::
  "lib \<Rightarrow> ('s::field, 'p::ab_group_add) curve \<Rightarrow> 's \<Rightarrow> gostring \<Rightarrow> bytes \<Rightarrow> gostring \<Rightarrow> bytes list \<Rightarrow>
   bytes option list \<Rightarrow> bytes res" where
  "GenerateConstantTermProof L C secret chainID roundID dealer commitments seeds =
     failIfR (secret = 0) ErrOther (
     bindR (constantTermPoint C commitments) (\<lambda>constant.
     failIfR (Mul C (PallasGenerator C) secret \<noteq> constant) ErrOther (
     (case drawNonce C seeds of None \<Rightarrow> Inl ErrOther | Some nonce \<Rightarrow>
      (let R = Mul C (PallasGenerator C) nonce;
           challenge = constantTermChallenge L C chainID roundID dealer commitments R;
           z = nonce + challenge * secret in
       Inr (ToAffineCompressed C R @ ScalarBytes C z))))))"

definition VerifyConstantTermProof ::
  "lib \<Rightarrow> ('s::field, 'p::ab_group_add) curve \<Rightarrow> bytes \<Rightarrow> gostring \<Rightarrow> bytes \<Rightarrow> gostring \<Rightarrow> bytes list \<Rightarrow>
   unit res" where
  "VerifyConstantTermProof L C proof chainID roundID dealer commitments =
     failIfR (length proof \<noteq> constantTermProofSize) ErrOther (
     bindR (constantTermPoint C commitments) (\<lambda>constant.
     bindR (UnmarshalPublicKey C (take CompressedPointSize proof)) (\<lambda>R.
     (case ScalarSetBytes C (drop CompressedPointSize proof) of None \<Rightarrow> Inl ErrOther | Some z \<Rightarrow>
      (let challenge = constantTermChallenge L C chainID roundID dealer commitments R in
       failIfR (Mul C (PallasGenerator C) z \<noteq> R + Mul C constant challenge) ErrOther (
       Inr ()))))))"

section \<open>Serialisation round trips\<close>

lemma Decompress_compress:
  assumes "curve_ok C"
  shows "DecompressPallasPoint C (ToAffineCompressed C P) = Inr P"
proof (cases "P = 0")
  case True
  then have "ToAffineCompressed C P = replicate 32 0" using compressed_zero[OF assms] by simp
  then show ?thesis using True by (simp add: DecompressPallasPoint_def list_all_iff)
next
  case False
  have "\<not> list_all (\<lambda>b. b = 0) (ToAffineCompressed C P)"
  proof
    assume "list_all (\<lambda>b. b = 0) (ToAffineCompressed C P)"
    then have "ToAffineCompressed C P = replicate 32 0"
      using compressed_length[OF assms, of P] by (intro replicate_eqI) (auto simp: list_all_iff)
    then show False using False compressed_zero[OF assms] by simp
  qed
  then show ?thesis using False decompress_compress[OF assms] by (simp add: DecompressPallasPoint_def)
qed

lemma UnmarshalPublicKey_compress:
  "curve_ok C \<Longrightarrow> P \<noteq> 0 \<Longrightarrow> UnmarshalPublicKey C (ToAffineCompressed C P) = Inr P"
  by (simp add: UnmarshalPublicKey_def Decompress_compress compressed_length CompressedPointSize_def)

lemma UnmarshalPoint_compress: "curve_ok C \<Longrightarrow> UnmarshalPoint C (ToAffineCompressed C P) = Inr P"
  by (simp add: UnmarshalPoint_def Decompress_compress compressed_length CompressedPointSize_def)

lemma UnmarshalPublicKey_nonzero: "UnmarshalPublicKey C b = Inr P \<Longrightarrow> P \<noteq> 0 \<and> length b = 32"
  by (auto simp: UnmarshalPublicKey_def bindR_Inr_iff CompressedPointSize_def)

lemma MarshalCiphertext_ok:
  "curve_ok C \<Longrightarrow>
     MarshalCiphertext C ct = Inr (ToAffineCompressed C (C1 ct) @ ToAffineCompressed C (C2 ct))"
  by (simp add: MarshalCiphertext_def Let_def compressed_length CompressedPointSize_def)

lemma ciphertext_roundtrip:
  "curve_ok C \<Longrightarrow> UnmarshalCiphertext C (ToAffineCompressed C P @ ToAffineCompressed C Q) =
     Inr \<lparr>C1 = P, C2 = Q\<rparr>"
  by (simp add: UnmarshalCiphertext_def CiphertextSize_def CompressedPointSize_def compressed_length
      Decompress_compress)

section \<open>Homomorphism\<close>

lemma scalarFromUint64_add:
  "unat a + unat b < 2 ^ 64 \<Longrightarrow> scalarFromUint64 (a + b) = scalarFromUint64 a + scalarFromUint64 b"
  by (simp add: scalarFromUint64_def unat_word_ariths)

lemma DecryptToPoint_HomomorphicAdd:
  "curve_ok C \<Longrightarrow>
     DecryptToPoint C sk (HomomorphicAdd a b) = DecryptToPoint C sk a + DecryptToPoint C sk b"
  by (simp add: DecryptToPoint_def HomomorphicAdd_def Mul_point_add algebra_simps)

lemma DecryptToPoint_encryptCore:
  assumes "curve_ok C"
  shows "DecryptToPoint C sk (encryptCore C (Mul C (PallasGenerator C) sk) v r) = ValuePoint C v"
  by (simp add: DecryptToPoint_def encryptCore_def ValuePoint_def Let_def Mul_Mul[OF assms]
      mult.commute)

text \<open>
  The homomorphism of the tally. Adding any list of ciphertexts, each an encryption of a
  value under the key \<open>sk\<close>, to an encryption of \<open>v\<close> gives a ciphertext that decrypts to the
  point of the integer sum of all values; the sum must fit in 64 bits to be a tally value.
\<close>

lemma homomorphic_tally:
  assumes "curve_ok C" and "unat v + (\<Sum>(w, r)\<leftarrow>votes. unat w) < 2 ^ 64"
  shows "DecryptToPoint C sk
      (foldl HomomorphicAdd (encryptCore C (Mul C (PallasGenerator C) sk) v r0)
         (map (\<lambda>(w, r). encryptCore C (Mul C (PallasGenerator C) sk) w r) votes)) =
    ValuePoint C (v + (\<Sum>(w, r)\<leftarrow>votes. w))"
proof -
  let ?enc = "encryptCore C (Mul C (PallasGenerator C) sk)"
  have fold: "DecryptToPoint C sk (foldl HomomorphicAdd a (map (\<lambda>(w, r). ?enc w r) votes)) =
      DecryptToPoint C sk a + Mul C (PallasGenerator C) (\<Sum>(w, r)\<leftarrow>votes. scalarFromUint64 w)" for a
    by (induction votes arbitrary: a)
      (auto simp: Mul_0[OF assms(1)] Mul_add[OF assms(1)] DecryptToPoint_HomomorphicAdd[OF assms(1)]
        DecryptToPoint_encryptCore[OF assms(1)] ValuePoint_def add.assoc)
  have "(scalarFromUint64 (v + (\<Sum>(w, r)\<leftarrow>votes. w)) :: 'a) =
      scalarFromUint64 v + (\<Sum>(w, r)\<leftarrow>votes. scalarFromUint64 w)"
    using assms(2)
  proof (induction votes arbitrary: v)
    case Nil
    then show ?case by simp
  next
    case (Cons x votes)
    obtain w r where x: "x = (w, r)" by (cases x)
    have vw: "unat (v + w) = unat v + unat w" using Cons.prems x by (simp add: unat_word_ariths)
    have "(scalarFromUint64 (v + w + (\<Sum>(w, r)\<leftarrow>votes. w)) :: 'a) =
        scalarFromUint64 (v + w) + (\<Sum>(w, r)\<leftarrow>votes. scalarFromUint64 w)"
      using Cons.prems x vw by (intro Cons.IH) simp
    then show ?case using x vw by (simp add: scalarFromUint64_def add.assoc)
  qed
  then show ?thesis
    by (simp add: fold DecryptToPoint_encryptCore[OF assms(1)] ValuePoint_def Mul_add[OF assms(1)])
qed

section \<open>Discrete logarithms\<close>

text \<open>The point of a natural number, and the table keys as points.\<close>

definition multG :: "('s::field, 'p::ab_group_add) curve \<Rightarrow> nat \<Rightarrow> 'p" where
  "multG C k = Mul C (PallasGenerator C) (of_nat k)"

lemma multG_add: "curve_ok C \<Longrightarrow> multG C (a + b) = multG C a + multG C b"
  by (simp add: multG_def Mul_add)

lemma multG_0: "curve_ok C \<Longrightarrow> multG C 0 = 0"
  by (simp add: multG_def Mul_0)

lemma multG_1: "curve_ok C \<Longrightarrow> multG C 1 = PallasGenerator C"
  by (simp add: multG_def Mul_1)

lemma multG_inject:
  fixes C :: "('s::field, 'p::ab_group_add) curve"
  shows "curve_ok C \<Longrightarrow> multG C a = multG C b \<longleftrightarrow> (of_nat a :: 's) = of_nat b"
  by (simp add: multG_def Mul_inject generator_nonzero)

lemma pointToKey_inject: "curve_ok C \<Longrightarrow> pointToKey C P = pointToKey C Q \<longleftrightarrow> P = Q"
  by (simp add: pointToKey_def compressed_length compress_inject)

lemma babySteps_other:
  assumes "curve_ok C" and "Q \<notin> multG C ` {j..<j + n}"
  shows "babySteps C n (word_of_nat j) (multG C j) tab (pointToKey C Q) = tab (pointToKey C Q)"
  using assms(2)
proof (induction n arbitrary: j tab)
  case 0
  then show ?case by simp
next
  case (Suc n)
  have "multG C (Suc j) = multG C j + PallasGenerator C"
    using multG_add[OF assms(1), of j 1] multG_1[OF assms(1)] by simp
  moreover have "babySteps C n (word_of_nat (Suc j)) (multG C (Suc j)) tab' (pointToKey C Q) =
      tab' (pointToKey C Q)" for tab'
    using Suc.prems by (intro Suc.IH) force
  moreover have "pointToKey C (multG C j) \<noteq> pointToKey C Q"
    using Suc.prems by (auto simp: pointToKey_inject[OF assms(1)])
  ultimately show ?case by (simp add: add.commute)
qed

lemma babySteps_hit:
  fixes C :: "('s::field, 'p::ab_group_add) curve"
  assumes "curve_ok C" and "inj_on (of_nat :: nat \<Rightarrow> 's) {..<j + n}" and "j \<le> k" "k < j + n"
  shows "babySteps C n (word_of_nat j) (multG C j) tab (pointToKey C (multG C k)) = Some (word_of_nat k)"
  using assms(2-)
proof (induction n arbitrary: j tab)
  case 0
  then show ?case by simp
next
  case (Suc n)
  have step: "multG C (Suc j) = multG C j + PallasGenerator C"
    using multG_add[OF assms(1), of j 1] multG_1[OF assms(1)] by simp
  show ?case
  proof (cases "k = j")
    case True
    have "multG C j \<notin> multG C ` {Suc j..<Suc j + n}"
    proof
      assume "multG C j \<in> multG C ` {Suc j..<Suc j + n}"
      then obtain x where "x \<in> {Suc j..<Suc j + n}" "(of_nat j :: 's) = of_nat x"
        by (auto simp: multG_inject[OF assms(1)])
      then show False using inj_onD[OF Suc.prems(1), of j x] by auto
    qed
    then show ?thesis using True step babySteps_other[OF assms(1), of "multG C j" "Suc j" n]
      by (simp add: add.commute)
  next
    case False
    then have "babySteps C n (word_of_nat (Suc j)) (multG C (Suc j)) tab' (pointToKey C (multG C k)) =
        Some (word_of_nat k)" for tab' using Suc.prems by (intro Suc.IH) auto
    then show ?thesis using step by (simp add: add.commute)
  qed
qed

text \<open>What the table answers for any point.\<close>

lemma table_lookup:
  fixes C :: "('s::field, 'p::ab_group_add) curve"
  assumes "curve_ok C" and "inj_on (of_nat :: nat \<Rightarrow> 's) {..<M}"
  shows "k < M \<Longrightarrow> babySteps C M 0 0 (\<lambda>_. None) (pointToKey C (multG C k)) = Some (word_of_nat k)"
    and "babySteps C M 0 0 (\<lambda>_. None) (pointToKey C Q) = Some j \<Longrightarrow>
      \<exists>k < M. Q = multG C k \<and> j = word_of_nat k"
proof -
  show hit: "babySteps C M 0 0 (\<lambda>_. None) (pointToKey C (multG C k)) = Some (word_of_nat k)" if "k < M" for k
    using babySteps_hit[OF assms(1), of 0 M k] assms that by (simp add: multG_0)
  assume j: "babySteps C M 0 0 (\<lambda>_. None) (pointToKey C Q) = Some j"
  then have "Q \<in> multG C ` {0..<M}"
    using babySteps_other[OF assms(1), of Q 0 M "\<lambda>_. None"] assms(1) by (auto simp: multG_0)
  then show "\<exists>k < M. Q = multG C k \<and> j = word_of_nat k" using hit j by auto
qed

lemma giantSteps_sound:
  assumes "\<And>Q j. bs_table t (pointToKey C Q) = Some j \<Longrightarrow> \<exists>k < M. Q = multG C k \<and> j = word_of_nat k"
    and "curve_ok C" and "bs_m t = word_of_nat M" and "bs_mG t = multG C M"
    and "i + left \<le> M + 1" and "M < 2 ^ 32"
    and "giantSteps C t left (word_of_nat i) (h - multG C (i * M)) = Inr y"
  shows "y < bs_n t \<and> (\<exists>x. y = word_of_nat x \<and> x < 2 ^ 64 \<and> h = multG C x)"
  using assms(5,7)
proof (induction left arbitrary: i)
  case 0
  then show ?case by simp
next
  case (Suc left)
  have next_cand: "h - multG C (i * M) - bs_mG t = h - multG C (Suc i * M)"
    using assms(2,4) by (simp add: multG_add algebra_simps)
  have rec: ?case if "giantSteps C t left (word_of_nat (Suc i)) (h - multG C (Suc i * M)) = Inr y"
    using Suc.IH[of "Suc i"] Suc.prems(1) that by simp
  show ?case
  proof (cases "bs_table t (pointToKey C (h - multG C (i * M)))")
    case None
    then show ?thesis using Suc.prems(2) next_cand rec by (simp add: add.commute)
  next
    case (Some j)
    from assms(1)[OF this] obtain k where k: "k < M" "h - multG C (i * M) = multG C k"
      "j = word_of_nat k" by blast
    have h: "h = multG C (i * M + k)" using k(2) multG_add[OF assms(2)] by (simp add: algebra_simps)
    show ?thesis
    proof (cases "word_of_nat i * bs_m t + j < bs_n t")
      case True
      have "i * M + k < 2 ^ 64"
      proof -
        have "i * M + k \<le> M * M + M" using Suc.prems(1) k(1) by (intro add_mono mult_mono) auto
        also have "\<dots> = M * (M + 1)" by simp
        also have "\<dots> \<le> (2 ^ 32 - 1) * 2 ^ 32" using assms(6) by (intro mult_mono) auto
        also have "\<dots> < 2 ^ 64" by simp
        finally show ?thesis .
      qed
      moreover have "y = word_of_nat (i * M + k)"
        using Suc.prems(2) Some True k(3) assms(3) by (simp add: Let_def)
      moreover have "y < bs_n t" using Suc.prems(2) Some True by (simp add: Let_def)
      ultimately show ?thesis using h by blast
    next
      case False
      then show ?thesis using Suc.prems(2) Some next_cand rec by (simp add: Let_def add.commute)
    qed
  qed
qed

lemma giantSteps_complete:
  fixes C :: "('s::field, 'p::ab_group_add) curve"
  assumes table: "\<And>k. k < M \<Longrightarrow> bs_table t (pointToKey C (multG C k)) = Some (word_of_nat k)"
      "\<And>k. M \<le> k \<Longrightarrow> k \<le> x \<Longrightarrow> bs_table t (pointToKey C (multG C k)) = None"
    and "curve_ok C" and "bs_m t = word_of_nat M" and "bs_mG t = multG C M" and "0 < M"
    and "word_of_nat x < bs_n t" and "d \<le> x div M" and "d < left"
  shows "giantSteps C t left (word_of_nat (x div M - d)) (multG C (x - (x div M - d) * M)) =
    Inr (word_of_nat x)"
  using assms(8,9)
proof (induction d arbitrary: left)
  case 0
  obtain l where l: "left = Suc l" using 0 by (cases left) auto
  have "x - x div M * M = x mod M" by (simp add: minus_div_mult_eq_mod)
  moreover have "x mod M < M" using assms(6) by simp
  moreover have "(word_of_nat (x div M) * word_of_nat M + word_of_nat (x mod M) :: u64) = word_of_nat x"
    by (metis div_mult_mod_eq of_nat_add of_nat_mult)
  ultimately show ?case using table(1)[of "x mod M"] assms(4,7) l by (simp add: Let_def)
next
  case (Suc d)
  obtain l where l: "left = Suc l" "d < l" using Suc.prems by (cases left) auto
  define i where "i = x div M - Suc d"
  have i: "x div M - d = Suc i" using Suc.prems by (simp add: i_def)
  have ge: "(Suc i) * M \<le> x"
  proof -
    have "Suc i \<le> x div M" using Suc.prems by (simp add: i_def)
    then have "Suc i * M \<le> x div M * M" by (rule mult_le_mono1)
    then show ?thesis using div_times_less_eq_dividend[of x M] by linarith
  qed
  have "bs_table t (pointToKey C (multG C (x - i * M))) = None"
    using ge by (intro table(2)) auto
  moreover have "multG C (x - i * M) - bs_mG t = multG C (x - Suc i * M)"
  proof -
    have "x - i * M = (x - Suc i * M) + M" using ge by simp
    then show ?thesis using multG_add[OF assms(3)] assms(5) by simp
  qed
  ultimately show ?case using Suc.IH[OF _ l(2)] Suc.prems l i
    by (simp add: i_def[symmetric] add.commute)
qed

lemma ceilSqrt_TallyBSGSBound: "ceilSqrt TallyBSGSBound = 2 ^ 14"
  by code_simp

text \<open>Baby-step giant-step finds exactly the discrete logarithms below the bound.\<close>

lemma Solve_exact:
  fixes C :: "('s::field, 'p::ab_group_add) curve"
  assumes "curve_ok C" and "0 < N" and "unat N \<le> unat (ceilSqrt N) * unat (ceilSqrt N)"
    and "unat (ceilSqrt N) \<le> unat N" and "unat (ceilSqrt N) < 2 ^ 32"
    and "inj_on (of_nat :: nat \<Rightarrow> 's) {..<unat N}"
  shows "(x < N \<longrightarrow> Solve C (NewBSGSTable C N) (ValuePoint C x) = Inr x) \<and>
    (Solve C (NewBSGSTable C N) h = Inr y \<longrightarrow> y < N \<and> h = ValuePoint C y) \<and>
    ceilSqrt TallyBSGSBound = 2 ^ 14"
proof -
  define M where "M = unat (ceilSqrt N)"
  define t where "t = NewBSGSTable C N"
  have M: "0 < M" "M \<le> unat N" "ceilSqrt N = word_of_nat M" "M < 2 ^ 32" "unat N \<le> M * M"
    using assms(2-5) by (auto simp: M_def word_less_nat_alt intro: Nat.gr0I)
  have t: "bs_table t = babySteps C M 0 0 (\<lambda>_. None)" "bs_m t = word_of_nat M" "bs_mG t = multG C M"
    "bs_n t = N"
    using assms(2) by (auto simp: t_def NewBSGSTable_def Let_def M_def multG_def scalarFromUint64_def)
  have inj: "inj_on (of_nat :: nat \<Rightarrow> 's) {..<M}"
    using assms(6) M(2) by (auto intro: inj_on_subset)
  note lookup = table_lookup[OF assms(1) inj, folded t(1)]
  have unatM: "unat (word_of_nat M :: u64) = M" using M(3) M_def by metis
  have complete: "Solve C t (ValuePoint C x) = Inr x" if "x < N"
  proof -
    let ?x = "unat x"
    have x: "?x < unat N" using that by (simp add: word_less_nat_alt)
    have "bs_table t (pointToKey C (multG C k)) = None" if "M \<le> k" "k \<le> ?x" for k
    proof (rule ccontr)
      assume "bs_table t (pointToKey C (multG C k)) \<noteq> None"
      then obtain k' where "k' < M" "multG C k = multG C k'" using lookup(2) by blast
      then show False using inj_onD[OF assms(6), of k k'] that x M(2)
        by (auto simp: multG_inject[OF assms(1)])
    qed
    moreover have "?x div M < M" using x M(5) by (simp add: div_less_iff_less_mult M(1))
    ultimately have "giantSteps C t (Suc M) (word_of_nat (?x div M - ?x div M))
        (multG C (?x - (?x div M - ?x div M) * M)) = Inr (word_of_nat ?x)"
      using giantSteps_complete[OF lookup(1) _ assms(1) t(2,3) M(1), of ?x "?x div M" "Suc M"] that t(4)
      by simp
    then show ?thesis using assms(2) t(2,4) unatM
      by (simp add: Solve_def ValuePoint_def multG_def scalarFromUint64_def)
  qed
  have sound: "y < N \<and> h = ValuePoint C y" if "Solve C t h = Inr y"
  proof -
    from that have "giantSteps C t (Suc M) (word_of_nat 0) (h - multG C (0 * M)) = Inr y"
      using t(2) unatM by (simp add: Solve_def multG_0[OF assms(1)])
    from giantSteps_sound[OF lookup(2) assms(1) t(2,3) _ M(4) this] t(4)
    obtain v where v: "y < N" "y = word_of_nat v" "v < 2 ^ 64" "h = multG C v" by auto
    moreover have "unat y = v" using v by (simp add: unat_of_nat)
    ultimately show ?thesis by (simp add: ValuePoint_def multG_def scalarFromUint64_def)
  qed
  show ?thesis using complete sound ceilSqrt_TallyBSGSBound unfolding t_def by blast
qed



section \<open>The proofs are complete and specially sound\<close>

lemma VerifyPartialDecryptDLEQ_Inr_iff:
  assumes "curve_ok C"
  shows "VerifyPartialDecryptDLEQ L C pf VKi c1 Di = Inr u \<longleftrightarrow>
    length pf = 64 \<and> VKi \<noteq> 0 \<and> c1 \<noteq> 0 \<and>
    (\<exists>e z. ScalarSetBytes C (take 32 pf) = Some e \<and> ScalarSetBytes C (drop 32 pf) = Some z \<and>
      e = pdDleqChallenge L C (PallasGenerator C) VKi c1 Di
            (Mul C (PallasGenerator C) z - Mul C VKi e) (Mul C c1 z - Mul C Di e))"
  by (auto simp: VerifyPartialDecryptDLEQ_def DLEQProofSize_def CompressedPointSize_def Let_def
      onCurve[OF assms] split: option.splits)

lemma dleq_complete:
  assumes "curve_ok C" and "share \<noteq> 0" and "c1 \<noteq> 0"
  shows "\<exists>pf. GeneratePartialDecryptDLEQ L C share c1 (Some seed) = Inr pf \<and>
    VerifyPartialDecryptDLEQ L C pf (Mul C (PallasGenerator C) share) c1 (Mul C c1 share) = Inr ()"
proof -
  let ?G = "PallasGenerator C"
  define k where "k = ScalarHash C seed"
  define e where "e = pdDleqChallenge L C ?G (Mul C ?G share) c1 (Mul C c1 share) (Mul C ?G k) (Mul C c1 k)"
  define pf where "pf = ScalarBytes C e @ ScalarBytes C (e * share + k)"
  have "Mul C P (e * share + k) - Mul C (Mul C P share) e = Mul C P k" for P
    by (simp add: Mul_add[OF assms(1)] Mul_Mul[OF assms(1)] mult.commute)
  moreover have "GeneratePartialDecryptDLEQ L C share c1 (Some seed) = Inr pf"
    using assms(2,3)
    by (simp add: GeneratePartialDecryptDLEQ_def onCurve[OF assms(1)] Let_def pf_def e_def k_def)
  moreover have "Mul C ?G share \<noteq> 0"
    using assms by (simp add: Mul_eq_0_iff[OF assms(1)] generator_nonzero[OF assms(1)])
  ultimately show ?thesis
    using assms(3) by (auto simp: VerifyPartialDecryptDLEQ_Inr_iff[OF assms(1)] pf_def
        scalar_bytes_length[OF assms(1)] scalar_roundtrip[OF assms(1)] e_def)
qed

text \<open>Two responses to different challenges for one commitment give the discrete logarithm.\<close>

lemma extract_scalar:
  assumes "curve_ok C" and "e \<noteq> e'" and "Mul C Q z - Mul C P e = Mul C Q z' - Mul C P e'"
  shows "P = Mul C Q ((z - z') * inverse (e - e'))"
proof -
  have "Mul C P (e - e') = Mul C Q (z - z')"
    using assms(3) by (simp add: Mul_diff[OF assms(1)] algebra_simps)
  then have "Mul C (Mul C P (e - e')) (inverse (e - e')) = Mul C Q ((z - z') * inverse (e - e'))"
    by (simp add: Mul_Mul[OF assms(1)])
  then show ?thesis using assms(2) by (simp add: Mul_Mul[OF assms(1)] Mul_1[OF assms(1)])
qed



lemma writeProofField_inject:
  assumes "length a < 2 ^ 64" and "length b < 2 ^ 64"
  shows "writeProofField a @ x = writeProofField b @ y \<longleftrightarrow> a = b \<and> x = y"
proof -
  have "(word_of_nat (length a) :: u64) = word_of_nat (length b) \<longleftrightarrow> length a = length b"
    using assms by (simp add: word_of_nat_eq_iff take_bit_nat_eq_self)
  then show ?thesis by (auto simp: writeProofField_def append_eq_same_length)
qed

lemma writeProofFields_inject:
  assumes "length as = length bs" and "\<forall>a \<in> set as. length a < 2 ^ 64" "\<forall>b \<in> set bs. length b < 2 ^ 64"
  shows "concat (map writeProofField as) @ x = concat (map writeProofField bs) @ y \<longleftrightarrow> as = bs \<and> x = y"
  using assms
  by (induction as bs rule: list_induct2) (simp_all add: writeProofField_inject)

lemma drawNonce_nonzero: "drawNonce C seeds = Some n \<Longrightarrow> n \<noteq> 0"
  by (induction C seeds rule: drawNonce.induct) (auto split: if_splits)

lemma constant_term_complete:
  assumes "curve_ok C" and "commitments = ToAffineCompressed C (Mul C (PallasGenerator C) secret) # rest"
    and "secret \<noteq> 0" and "drawNonce C seeds = Some nonce"
  shows "\<exists>pf. GenerateConstantTermProof L C secret chainID roundID dealer commitments seeds = Inr pf \<and>
    VerifyConstantTermProof L C pf chainID roundID dealer commitments = Inr ()"
proof -
  let ?G = "PallasGenerator C"
  define R where "R = Mul C ?G nonce"
  define ch where "ch = constantTermChallenge L C chainID roundID dealer commitments R"
  define pf where "pf = ToAffineCompressed C R @ ScalarBytes C (nonce + ch * secret)"
  have nz: "Mul C ?G secret \<noteq> 0" "R \<noteq> 0"
    using assms drawNonce_nonzero[OF assms(4)]
    by (simp_all add: R_def Mul_eq_0_iff[OF assms(1)] generator_nonzero[OF assms(1)])
  have cp: "constantTermPoint C commitments = Inr (Mul C ?G secret)"
    using assms(1,2) nz by (simp add: constantTermPoint_def UnmarshalPublicKey_compress)
  have "GenerateConstantTermProof L C secret chainID roundID dealer commitments seeds = Inr pf"
    using assms(3,4) cp
    by (simp add: GenerateConstantTermProof_def pf_def ch_def R_def Let_def)
  moreover have "Mul C ?G (nonce + ch * secret) = R + Mul C (Mul C ?G secret) ch"
    by (simp add: R_def Mul_add[OF assms(1)] Mul_Mul[OF assms(1)] mult.commute)
  then have "VerifyConstantTermProof L C pf chainID roundID dealer commitments = Inr ()"
    using cp nz(2)
    by (simp add: VerifyConstantTermProof_def pf_def compressed_length[OF assms(1)]
        scalar_bytes_length[OF assms(1)] constantTermProofSize_def CompressedPointSize_def
        UnmarshalPublicKey_compress[OF assms(1)] scalar_roundtrip[OF assms(1)] Let_def ch_def[symmetric])
  ultimately show ?thesis by blast
qed

text \<open>
  C24. The dealer's proof of knowledge. For a commitment vector whose first entry commits to
  a non-zero secret, the generated proof verifies; and the transcript its challenge is hashed
  from determines the chain id, the round, the dealer, the whole commitment vector and the
  nonce point, so a proof cannot be reused for another of them. (Lengths below \<open>2 ^ 64\<close>.)
\<close>

theorem constant_term_proof_complete_and_bound:
  assumes "curve_ok C" and "commitments = ToAffineCompressed C (Mul C (PallasGenerator C) secret) # rest"
    and "secret \<noteq> 0" and "drawNonce C seeds = Some nonce"
    and "list_all (\<lambda>x. length x < 2 ^ 64) (chainID # roundID # dealer # commitments)"
    and "length commitments < 2 ^ 64"
  shows "(\<exists>pf. GenerateConstantTermProof L C secret chainID roundID dealer commitments seeds = Inr pf \<and>
      VerifyConstantTermProof L C pf chainID roundID dealer commitments = Inr ()) \<and>
    (\<forall>chainID' roundID' dealer' commitments' R R'.
      list_all (\<lambda>x. length x < 2 ^ 64) (chainID' # roundID' # dealer' # commitments') \<and>
      length commitments' < 2 ^ 64 \<and>
      constantTermTranscript C chainID roundID dealer commitments R =
        constantTermTranscript C chainID' roundID' dealer' commitments' R' \<longrightarrow>
      chainID' = chainID \<and> roundID' = roundID \<and> dealer' = dealer \<and>
      commitments' = commitments \<and> R' = R)"
proof (intro conjI allI impI)
  show "\<exists>pf. GenerateConstantTermProof L C secret chainID roundID dealer commitments seeds = Inr pf \<and>
      VerifyConstantTermProof L C pf chainID roundID dealer commitments = Inr ()"
    using assms(1-4) by (rule constant_term_complete)
next
  fix chainID' roundID' dealer' commitments' R R'
  assume a: "list_all (\<lambda>x. length x < 2 ^ 64) (chainID' # roundID' # dealer' # commitments') \<and>
      length commitments' < 2 ^ 64 \<and>
      constantTermTranscript C chainID roundID dealer commitments R =
        constantTermTranscript C chainID' roundID' dealer' commitments' R'"
  have small: "length (ToAffineCompressed C P) < 2 ^ 64" "length constantTermProofDomain < 2 ^ 64" for P
    by (simp_all add: compressed_length[OF assms(1)] constantTermProofDomain_def str_def)
  have cnt: "(word_of_nat (length commitments) :: u64) = word_of_nat (length commitments') \<longleftrightarrow>
      length commitments = length commitments'"
    using assms(6) a by (simp add: word_of_nat_eq_iff take_bit_nat_eq_self)
  have len: "\<forall>x \<in> set commitments. length x < 2 ^ 64" "\<forall>x \<in> set commitments'. length x < 2 ^ 64"
      "length chainID < 2 ^ 64" "length roundID < 2 ^ 64" "length dealer < 2 ^ 64"
      "length chainID' < 2 ^ 64" "length roundID' < 2 ^ 64" "length dealer' < 2 ^ 64"
    using assms(5) a by (simp_all add: list_all_iff)
  have "chainID = chainID'" "roundID = roundID'" "dealer = dealer'"
    and tails: "putUint64BE (word_of_nat (length commitments)) @ concat (map writeProofField commitments) @
        writeProofField (ToAffineCompressed C R) =
      putUint64BE (word_of_nat (length commitments')) @ concat (map writeProofField commitments') @
        writeProofField (ToAffineCompressed C R')"
    using conjunct2[OF conjunct2[OF a]] len small
    by (simp_all add: constantTermTranscript_def writeProofField_inject)
  moreover have lc: "length commitments = length commitments'"
    using tails cnt by (simp add: append_eq_same_length)
  moreover from tails lc have "commitments = commitments' \<and>
      writeProofField (ToAffineCompressed C R) = writeProofField (ToAffineCompressed C R')"
    using writeProofFields_inject[OF lc len(1,2)] by (simp add: append_eq_same_length)
  moreover then have "R = R'"
    using writeProofField_inject[OF small(1) small(1), of R "[]" R' "[]"] compress_inject[OF assms(1)]
    by simp
  ultimately show "chainID' = chainID" "roundID' = roundID" "dealer' = dealer"
    "commitments' = commitments" "R' = R" by auto
qed

theorem constant_term_proof_complete_and_bound_witness:
  "\<exists>pf. GenerateConstantTermProof sampleLib curve7 F2 [1] [2] [3]
       [ToAffineCompressed curve7 (Mul curve7 (PallasGenerator curve7) F2)] [Some [5]] = Inr pf \<and>
     VerifyConstantTermProof sampleLib curve7 pf [1] [2] [3]
       [ToAffineCompressed curve7 (Mul curve7 (PallasGenerator curve7) F2)] = Inr ()"
proof -
  have nonce: "drawNonce curve7 [Some [5]] = Some F5"
    by (simp add: curve7_def of7_def zero_f7_def)
  have "F2 \<noteq> (0 :: f7)" by (simp add: zero_f7_def)
  from constant_term_proof_complete_and_bound[OF curve7_ok refl this nonce, of "[1]" "[2]" "[3]" "[]" sampleLib]
  show ?thesis by (simp add: compressed_length[OF curve7_ok])
qed

end
