(* ===== verification/Keeper_Tally.thy ===== *)
theory Keeper_Tally
  imports Keeper_Voting ElGamal
begin

text \<open>
  Tally accumulators, share counts, results and the completeness checks of
  \<^verbatim>\<open>src/x/vote/keeper/keeper_tally.go\<close>, and the storage of partial decryptions of
  \<^verbatim>\<open>keeper_partial_decrypt.go\<close>. A Go map built in a loop is an association list with one
  entry per key. An accumulator is related to the ciphertext it encodes: adding a share
  refines homomorphic addition.
\<close>

section \<open>Go maps\<close>

definition mapPut :: "'k \<Rightarrow> 'v \<Rightarrow> ('k \<times> 'v) list \<Rightarrow> ('k \<times> 'v) list" where
  "mapPut k v m = (k, v) # filter (\<lambda>e. fst e \<noteq> k) m"

text \<open>\<^verbatim>\<open>m[k] = append(m[k], v)\<close>\<close>

definition mapAppend :: "'k \<Rightarrow> 'v \<Rightarrow> ('k \<times> 'v list) list \<Rightarrow> ('k \<times> 'v list) list" where
  "mapAppend k v m = mapPut k ((case map_of m k of None \<Rightarrow> [] | Some vs \<Rightarrow> vs) @ [v]) m"

section \<open>Accumulators\<close>

definition GetTally :: "bytes \<Rightarrow> u32 \<Rightarrow> u32 \<Rightarrow> (vkv, bytes option) M" where
  "GetTally roundID proposalID decision =
     bindM (liftR (TallyKey roundID proposalID decision)) (\<lambda>key. kvGetAs decodeBytes key)"

definition validateNonIdentityCiphertext :: "'p::ab_group_add Ciphertext \<Rightarrow> unit res" where
  "validateNonIdentityCiphertext ct =
     failIfR (C1 ct = 0) ErrOther (
     failIfR (C2 ct = 0) ErrOther (
     Inr ()))"

definition AddToTally ::
  "('s, 'p::ab_group_add) curve \<Rightarrow> bytes \<Rightarrow> u32 \<Rightarrow> u32 \<Rightarrow> bytes \<Rightarrow> (vkv, unit) M" where
  "AddToTally C roundID proposalID decision encShareBytes =
     bindM (liftR (TallyKey roundID proposalID decision)) (\<lambda>key.
     bindM (kvGetAs decodeBytes key) (\<lambda>existing. case existing of
        None \<Rightarrow>
          bindM (liftR (UnmarshalCiphertext C encShareBytes)) (\<lambda>share.
          bindM (liftR (validateNonIdentityCiphertext share)) (\<lambda>_.
          kvSet key (VBytes encShareBytes)))
      | Some ex \<Rightarrow>
          bindM (liftR (UnmarshalCiphertext C ex)) (\<lambda>acc.
          bindM (liftR (UnmarshalCiphertext C encShareBytes)) (\<lambda>share.
          bindM (liftR (validateNonIdentityCiphertext share)) (\<lambda>_.
          let result = HomomorphicAdd acc share in
          bindM (liftR (validateNonIdentityCiphertext result)) (\<lambda>_.
          bindM (liftR (MarshalCiphertext C result)) (\<lambda>resultBytes.
          kvSet key (VBytes resultBytes))))))))"

text \<open>The loop of \<^verbatim>\<open>GetProposalTally\<close>; the decision is in the last four bytes of the key.\<close>

fun proposalTallyLoop :: "(u32 \<times> bytes) list \<Rightarrow> (bytes \<times> kvval) list \<Rightarrow> (u32 \<times> bytes) list res" where
  "proposalTallyLoop tally [] = Inr tally"
| "proposalTallyLoop tally ((key, v) # es) =
     (if length key < 4 then proposalTallyLoop tally es
      else (case getUint32BE (drop (length key - 4) key) of
              None \<Rightarrow> Inl GoPanic
            | Some decision \<Rightarrow>
                bindR (decodeBytes v) (\<lambda>ct. proposalTallyLoop (mapPut decision ct tally) es)))"

definition GetProposalTally :: "bytes \<Rightarrow> u32 \<Rightarrow> (vkv, (u32 \<times> bytes) list) M" where
  "GetProposalTally roundID proposalID =
     bindM (liftR (TallyPrefixForProposal roundID proposalID)) (\<lambda>pre.
     bindM (kvScan pre) (\<lambda>es. liftR (proposalTallyLoop [] es)))"

section \<open>Share counts\<close>

definition IncrementShareCount :: "bytes \<Rightarrow> u32 \<Rightarrow> u32 \<Rightarrow> (vkv, unit) M" where
  "IncrementShareCount roundID proposalID decision =
     bindM (liftR (ShareCountKey roundID proposalID decision)) (\<lambda>key.
     bindM (kvGetAs decodeBytes key) (\<lambda>bz.
     let count = (if length (nilBytes bz) = 8
                  then (case getUint64BE (nilBytes bz) of Some c \<Rightarrow> c | None \<Rightarrow> 0) else 0) in
     kvSet key (VBytes (putUint64BE (count + 1)))))"

definition GetShareCount :: "bytes \<Rightarrow> u32 \<Rightarrow> u32 \<Rightarrow> (vkv, u64) M" where
  "GetShareCount roundID proposalID decision =
     bindM (liftR (ShareCountKey roundID proposalID decision)) (\<lambda>key.
     bindM (kvGetAs decodeBytes key) (\<lambda>bz.
     if length (nilBytes bz) < 8 then returnM 0
     else (case getUint64BE (nilBytes bz) of Some c \<Rightarrow> returnM c | None \<Rightarrow> throwM GoPanic)))"

section \<open>Results\<close>

definition SetTallyResult :: "TallyResult \<Rightarrow> (vkv, unit) M" where
  "SetTallyResult result =
     bindM (liftR (TallyResultKey (tr_vote_round_id result) (tr_proposal_id result)
       (tr_vote_decision result))) (\<lambda>key. kvSet key (VTallyResult result))"

definition GetTallyResult :: "bytes \<Rightarrow> u32 \<Rightarrow> u32 \<Rightarrow> (vkv, TallyResult option) M" where
  "GetTallyResult roundID proposalID decision =
     bindM (liftR (TallyResultKey roundID proposalID decision)) (\<lambda>key.
     kvGetAs decodeTallyResult key)"

definition GetAllTallyResults :: "bytes \<Rightarrow> (vkv, TallyResult list) M" where
  "GetAllTallyResults roundID =
     bindM (liftR (TallyResultPrefixForRound roundID)) (\<lambda>pre.
     bindM (kvScan pre) (\<lambda>es.
     liftR (iterLoop decodeTallyResult (\<lambda>_. True) (\<lambda>r acc. (False, acc @ [r])) [] es)))"

record OptionSummary =
  os_index :: u32
  os_label :: gostring
  os_ballot_count :: u64
  os_total_value :: u64
  os_description :: gostring

record ProposalSummary =
  ps_id :: u32
  ps_title :: gostring
  ps_description :: gostring
  ps_options :: "OptionSummary list"

record QueryVoteSummaryResponse =
  vs_vote_round_id :: bytes
  vs_status :: SessionStatus
  vs_description :: gostring
  vs_vote_end_time :: u64
  vs_proposals :: "ProposalSummary list"

text \<open>The map key \<^verbatim>\<open>uint64(proposalID)<<32 | uint64(decision)\<close>.\<close>

definition AccumulatorKey :: "u32 \<Rightarrow> u32 \<Rightarrow> u64" where
  "AccumulatorKey proposalID decision = push_bit 32 (ucast proposalID) OR ucast decision"

definition optionSummary ::
  "bytes \<Rightarrow> (u64 \<times> TallyResult) list option \<Rightarrow> Proposal \<Rightarrow> VoteOption \<Rightarrow> (vkv, OptionSummary) M" where
  "optionSummary roundID tallyResults prop opt =
     bindM (GetShareCount roundID (prop_id prop) (opt_index opt)) (\<lambda>count.
     returnM \<lparr>os_index = opt_index opt, os_label = opt_label opt, os_ballot_count = count,
       os_total_value = (case tallyResults of
          None \<Rightarrow> 0
        | Some m \<Rightarrow> (case map_of m (AccumulatorKey (prop_id prop) (opt_index opt)) of
              None \<Rightarrow> 0 | Some tr \<Rightarrow> tr_total_value tr)),
       os_description = opt_description opt\<rparr>)"

definition GetVoteSummary :: "bytes \<Rightarrow> (vkv, QueryVoteSummaryResponse) M" where
  "GetVoteSummary roundID =
     bindM (GetVoteRound roundID) (\<lambda>rd.
     bindM (if status rd = SESSION_STATUS_FINALIZED
            then bindM (GetAllTallyResults roundID) (\<lambda>results.
                 returnM (Some (foldl (\<lambda>m r. mapPut
                   (AccumulatorKey (tr_proposal_id r) (tr_vote_decision r)) r m) [] results)))
            else returnM None) (\<lambda>tallyResults.
     bindM (mapM (\<lambda>prop.
        bindM (mapM (optionSummary roundID tallyResults prop) (prop_options prop)) (\<lambda>options.
        returnM \<lparr>ps_id = prop_id prop, ps_title = prop_title prop,
          ps_description = prop_description prop, ps_options = options\<rparr>)) (proposals rd)) (\<lambda>props.
     returnM \<lparr>vs_vote_round_id = vote_round_id rd, vs_status = status rd,
       vs_description = description rd, vs_vote_end_time = vote_end_time rd,
       vs_proposals = props\<rparr>)))"

section \<open>Completeness\<close>

text \<open>The set of (proposal, decision) pairs, as the keys of the Go map.\<close>

definition CollectNonEmptyAccumulators :: "VoteRound \<Rightarrow> (vkv, (u32 \<times> u32) list) M" where
  "CollectNonEmptyAccumulators rd =
     bindM (mapM (\<lambda>proposal.
        bindM (GetProposalTally (vote_round_id rd) (prop_id proposal)) (\<lambda>tallyMap.
        returnM (map (\<lambda>(decision, _). (prop_id proposal, decision)) tallyMap))) (proposals rd))
       (\<lambda>pairs. returnM (concat pairs))"

definition ValidateTallyCompleteness :: "VoteRound \<Rightarrow> TallyEntry list \<Rightarrow> (vkv, unit) M" where
  "ValidateTallyCompleteness rd entries =
     bindM (CollectNonEmptyAccumulators rd) (\<lambda>expected.
     let covered = map (\<lambda>e. (te_proposal_id e, te_vote_decision e)) entries in
     failIf (\<not> list_all (\<lambda>key. key \<in> set covered) expected) ErrTallyMismatch (
     returnM ()))"

definition ValidatePartialDecryptionCompleteness ::
  "VoteRound \<Rightarrow> PartialDecryptionEntry list \<Rightarrow> (vkv, unit) M" where
  "ValidatePartialDecryptionCompleteness rd entries =
     bindM (CollectNonEmptyAccumulators rd) (\<lambda>expected.
     let covered = map (\<lambda>e. (pd_proposal_id e, pd_vote_decision e)) entries in
     failIf (\<not> list_all (\<lambda>key. key \<in> set covered) expected) ErrInvalidField (
     returnM ()))"

text \<open>One decoded entry: the entry, its point and the accumulator it belongs to.\<close>

type_synonym 'p ValidatedPartialDecryptionEntry = "PartialDecryptionEntry \<times> 'p \<times> 'p Ciphertext"

definition ValidateAndDecodePartialDecryptionEntries ::
  "('s, 'p::ab_group_add) curve \<Rightarrow> VoteRound \<Rightarrow> PartialDecryptionEntry list \<Rightarrow>
   (vkv, 'p ValidatedPartialDecryptionEntry list) M" where
  "ValidateAndDecodePartialDecryptionEntries C rd entries =
     failIf (length entries = 0) ErrInvalidField (
     thenM (ValidatePartialDecryptionCompleteness rd entries) (
     mapM (\<lambda>entry.
       bindM (liftR (wrapErr ErrInvalidField (UnmarshalPoint C (pd_partial_decrypt entry)))) (\<lambda>Di.
       bindM (liftR (ValidateEntryBounds rd (pd_proposal_id entry) (pd_vote_decision entry))) (\<lambda>_.
       bindM (GetTally (vote_round_id rd) (pd_proposal_id entry) (pd_vote_decision entry)) (\<lambda>accBytes.
       (case accBytes of
          None \<Rightarrow> throwM ErrInvalidField
        | Some b \<Rightarrow>
            bindM (liftR (UnmarshalCiphertext C b)) (\<lambda>ct. returnM (entry, Di, ct))))))) entries))"

definition ValidatePartialDecryptionEntries ::
  "('s, 'p::ab_group_add) curve \<Rightarrow> VoteRound \<Rightarrow> PartialDecryptionEntry list \<Rightarrow> (vkv, unit) M" where
  "ValidatePartialDecryptionEntries C rd entries =
     bindM (ValidateAndDecodePartialDecryptionEntries C rd entries) (\<lambda>_. returnM ())"

definition ValidateRoundForTally :: "bytes \<Rightarrow> (vkv, unit) M" where
  "ValidateRoundForTally roundID =
     bindM (GetVoteRound roundID) (\<lambda>rd.
     failIf (status rd \<noteq> SESSION_STATUS_TALLYING) ErrRoundNotTallying (
     returnM ()))"

section \<open>Partial decryptions\<close>

definition SetPartialDecryptions ::
  "bytes \<Rightarrow> u32 \<Rightarrow> PartialDecryptionEntry list \<Rightarrow> (vkv, unit) M" where
  "SetPartialDecryptions roundID validatorIndex entries =
     forM entries (\<lambda>entry.
       bindM (liftR (PartialDecryptionKey roundID validatorIndex (pd_proposal_id entry)
         (pd_vote_decision entry))) (\<lambda>key.
       kvSet key (VPartialDecryption entry)))"

definition GetPartialDecryption ::
  "bytes \<Rightarrow> u32 \<Rightarrow> u32 \<Rightarrow> u32 \<Rightarrow> (vkv, PartialDecryptionEntry option) M" where
  "GetPartialDecryption roundID validatorIndex proposalID decision =
     bindM (liftR (PartialDecryptionKey roundID validatorIndex proposalID decision)) (\<lambda>key.
     kvGetAs decodePartial key)"

definition HasPartialDecryptionsFromValidator :: "bytes \<Rightarrow> u32 \<Rightarrow> (vkv, bool) M" where
  "HasPartialDecryptionsFromValidator roundID validatorIndex =
     bindM (liftR (PartialDecryptionPrefixForValidator roundID validatorIndex)) (\<lambda>pre.
     bindM (kvScan pre) (\<lambda>es. returnM (es \<noteq> [])))"

text \<open>The counting loop: \<open>last\<close> is the previous index once one has been seen.\<close>

fun countLoop :: "nat \<Rightarrow> u32 option \<Rightarrow> int \<Rightarrow> (bytes \<times> kvval) list \<Rightarrow> int res" where
  "countLoop prefixLen lastIdx count [] = Inr count"
| "countLoop prefixLen lastIdx count ((key, _) # es) =
     (if length key < prefixLen + 4 then countLoop prefixLen lastIdx count es
      else (case getUint32BE (take 4 (drop prefixLen key)) of
              None \<Rightarrow> Inl GoPanic
            | Some idx \<Rightarrow>
                if lastIdx = None \<or> lastIdx \<noteq> Some idx
                then countLoop prefixLen (Some idx) (count + 1) es
                else countLoop prefixLen lastIdx count es))"

definition CountPartialDecryptionValidators :: "bytes \<Rightarrow> (vkv, int) M" where
  "CountPartialDecryptionValidators roundID =
     bindM (liftR (PartialDecryptionPrefixForRound roundID)) (\<lambda>pre.
     bindM (kvScan pre) (\<lambda>es. liftR (countLoop (length pre) None 0 es)))"

record PartialDecryptionWithIndex =
  pdi_validator_index :: u32
  pdi_partial_decrypt :: bytes
  pdi_dleq_proof :: bytes

fun partialsLoop :: "nat \<Rightarrow> (u64 \<times> PartialDecryptionWithIndex list) list \<Rightarrow> (bytes \<times> kvval) list \<Rightarrow>
    (u64 \<times> PartialDecryptionWithIndex list) list res" where
  "partialsLoop prefixLen result [] = Inr result"
| "partialsLoop prefixLen result ((key, v) # es) =
     failIfR (length key < prefixLen + 12) ErrOther (
     (case (getUint32BE (take 4 (drop prefixLen key)),
            getUint32BE (take 4 (drop (prefixLen + 4) key)),
            getUint32BE (take 4 (drop (prefixLen + 8) key))) of
        (Some validatorIndex, Some proposalID, Some decision) \<Rightarrow>
          bindR (decodePartial v) (\<lambda>entry.
          partialsLoop prefixLen
            (mapAppend (AccumulatorKey proposalID decision)
               \<lparr>pdi_validator_index = validatorIndex,
                pdi_partial_decrypt = pd_partial_decrypt entry,
                pdi_dleq_proof = pd_dleq_proof entry\<rparr> result) es)
      | _ \<Rightarrow> Inl GoPanic))"

definition GetPartialDecryptionsForRound ::
  "bytes \<Rightarrow> (vkv, (u64 \<times> PartialDecryptionWithIndex list) list) M" where
  "GetPartialDecryptionsForRound roundID =
     bindM (liftR (PartialDecryptionPrefixForRound roundID)) (\<lambda>pre.
     bindM (kvScan pre) (\<lambda>es. liftR (partialsLoop (length pre) [] es)))"


section \<open>The accumulators as ciphertexts\<close>

text \<open>The stored bytes of an accumulator and the ciphertext they encode.\<close>

definition tallyKey :: "bytes \<Rightarrow> u32 \<Rightarrow> u32 \<Rightarrow> bytes" where
  "tallyKey r p d = 0x05 # r @ putUint32BE p @ putUint32BE d"

definition accOf :: "vkv \<Rightarrow> bytes \<Rightarrow> u32 \<Rightarrow> u32 \<Rightarrow> bytes option" where
  "accOf s r p d = view decodeBytes s (tallyKey r p d)"

definition ctOf :: "('s, 'p::ab_group_add) curve \<Rightarrow> vkv \<Rightarrow> bytes \<times> u32 \<times> u32 \<rightharpoonup> 'p Ciphertext" where
  "ctOf C s = (\<lambda>(r, p, d). if length r = 32
     then Option.bind (accOf s r p d) (\<lambda>b. okOpt (UnmarshalCiphertext C b)) else None)"

lemma TallyKey_Inr_iff: "TallyKey r p d = Inr k \<longleftrightarrow> length r = 32 \<and> k = tallyKey r p d"
  by (auto simp: key_simps bindR_Inr_iff tallyKey_def)

lemma tallyKey_inject:
  "length r = 32 \<Longrightarrow> length r' = 32 \<Longrightarrow>
     tallyKey r p d = tallyKey r' p' d' \<longleftrightarrow> r = r' \<and> p = p' \<and> d = d'"
  by (simp add: tallyKey_def append_eq_same_length)

lemma hd_tallyKey [simp]: "hd (tallyKey r p d) = 0x05"
  by (simp add: tallyKey_def)

lemma entry_ok_tally: "length r = 32 \<Longrightarrow> entry_ok (tallyKey r p d) v \<longleftrightarrow> (\<exists>b. v = VBytes b)"
  by (cases v) (auto simp: entry_ok_def tallyKey_def)

lemma validateNonIdentity_Inr [simp]:
  "validateNonIdentityCiphertext ct = Inr u \<longleftrightarrow> C1 ct \<noteq> 0 \<and> C2 ct \<noteq> 0"
  by (simp add: validateNonIdentityCiphertext_def)

text \<open>What \<open>AddToTally\<close> leaves behind when it succeeds.\<close>

definition tallyAfter :: "'p::ab_group_add Ciphertext option \<Rightarrow> 'p Ciphertext \<Rightarrow> 'p Ciphertext" where
  "tallyAfter old share = (case old of None \<Rightarrow> share | Some acc \<Rightarrow> HomomorphicAdd acc share)"

lemma accOf_None_iff:
  "kv_wf s \<Longrightarrow> length r = 32 \<Longrightarrow> accOf s r p d = None \<longleftrightarrow> kv_get s (tallyKey r p d) = None"
  using kv_wf_get[of s "tallyKey r p d"]
  by (cases "kv_get s (tallyKey r p d)") (auto simp: accOf_def view_def entry_ok_tally okOpt_def)

lemma GetTally_Inr_iff:
  "GetTally r p d s = (Inr a, s') \<longleftrightarrow> s' = s \<and> length r = 32 \<and>
     (case kv_get s (tallyKey r p d) of None \<Rightarrow> a = None | Some v \<Rightarrow> \<exists>b. v = VBytes b \<and> a = Some b)"
  by (auto simp: GetTally_def succ_iffs TallyKey_Inr_iff kvGetAs_Inr_iff split: option.splits)

lemma GetTally_wf:
  assumes "kv_wf s" and "length r = 32"
  shows "GetTally r p d s = (Inr (accOf s r p d), s)"
  using kv_wf_get[OF assms(1), of "tallyKey r p d"] assms(2)
  by (auto simp: GetTally_Inr_iff accOf_def view_def entry_ok_tally okOpt_def split: option.splits)

definition ctBytes :: "('s, 'p) curve \<Rightarrow> 'p Ciphertext \<Rightarrow> bytes" where
  "ctBytes C ct = ToAffineCompressed C (C1 ct) @ ToAffineCompressed C (C2 ct)"

lemma UnmarshalCiphertext_ctBytes: "curve_ok C \<Longrightarrow> UnmarshalCiphertext C (ctBytes C ct) = Inr ct"
  by (simp add: ctBytes_def ciphertext_roundtrip)

text \<open>
  A success of \<open>AddToTally\<close> writes exactly one entry, the encoding of the sum of the
  stored ciphertext and the share.
\<close>

lemma AddToTally_Inr:
  assumes "AddToTally C r p d b s = (Inr u, s')" and "curve_ok C" and "kv_wf s"
  shows "\<exists>share b'. length r = 32 \<and> UnmarshalCiphertext C b = Inr share \<and>
    C1 share \<noteq> 0 \<and> C2 share \<noteq> 0 \<and>
    (accOf s r p d \<noteq> None \<longrightarrow> ctOf C s (r, p, d) \<noteq> None) \<and>
    UnmarshalCiphertext C b' = Inr (tallyAfter (ctOf C s (r, p, d)) share) \<and>
    C1 (tallyAfter (ctOf C s (r, p, d)) share) \<noteq> 0 \<and> C2 (tallyAfter (ctOf C s (r, p, d)) share) \<noteq> 0 \<and>
    s' = kv_set (tallyKey r p d) (VBytes b') s"
proof -
  have r: "length r = 32" using assms(1) by (auto simp: AddToTally_def succ_iffs TallyKey_Inr_iff)
  have key: "TallyKey r p d = Inr (tallyKey r p d)" using r by (simp add: TallyKey_Inr_iff)
  show ?thesis
  proof (cases "accOf s r p d")
    case None
    then have "kv_get s (tallyKey r p d) = None" using accOf_None_iff[OF assms(3) r] by simp
    then have "bindM (liftR (UnmarshalCiphertext C b)) (\<lambda>share.
          bindM (liftR (validateNonIdentityCiphertext share)) (\<lambda>_.
          kvSet (tallyKey r p d) (VBytes b))) s = (Inr u, s')"
      using assms(1) by (simp add: AddToTally_def key liftR_def bindM_def kvGetAs_def kvGet_def
          getM_def returnM_def)
    then show ?thesis using None r
      by (auto simp: succ_iffs kvSet_def ctOf_def tallyAfter_def)
  next
    case (Some ex)
    then have ex: "kv_get s (tallyKey r p d) = Some (VBytes ex)"
      by (simp add: accOf_def view_Some_iff)
    from assms(1) ex obtain acc share where
      "UnmarshalCiphertext C ex = Inr acc" "UnmarshalCiphertext C b = Inr share"
      "C1 share \<noteq> 0" "C2 share \<noteq> 0"
      "C1 (HomomorphicAdd acc share) \<noteq> 0" "C2 (HomomorphicAdd acc share) \<noteq> 0"
      "s' = kv_set (tallyKey r p d) (VBytes (ctBytes C (HomomorphicAdd acc share))) s"
      by (auto simp: AddToTally_def key succ_iffs kvGetAs_Inr_iff kvSet_def Let_def
          MarshalCiphertext_ok[OF assms(2), folded ctBytes_def] r split: option.splits)
    moreover from this Some r have "ctOf C s (r, p, d) = Some acc"
      by (simp add: ctOf_def)
    ultimately show ?thesis using r UnmarshalCiphertext_ctBytes[OF assms(2)]
      by (intro exI[of _ share] exI[of _ "ctBytes C (HomomorphicAdd acc share)"])
        (simp add: tallyAfter_def)
  qed
qed

lemma ctOf_set_tally:
  assumes "length r = 32" and "UnmarshalCiphertext C b = Inr ct"
  shows "ctOf C (kv_set (tallyKey r p d) (VBytes b) s) = (ctOf C s)((r, p, d) \<mapsto> ct)"
proof (rule ext)
  fix x :: "bytes \<times> u32 \<times> u32"
  obtain r' p' d' where "x = (r', p', d')" by (cases x)
  then show "ctOf C (kv_set (tallyKey r p d) (VBytes b) s) x = ((ctOf C s)((r, p, d) \<mapsto> ct)) x"
    using assms by (auto simp: ctOf_def accOf_def view_set tallyKey_inject okOpt_def)
qed

lemma kv_wf_set_tally: "kv_wf s \<Longrightarrow> length r = 32 \<Longrightarrow> kv_wf (kv_set (tallyKey r p d) (VBytes b) s)"
  by (simp add: kv_wf_set entry_ok_tally)

text \<open>
  C3. Adding an encrypted share to a tally is homomorphic addition on the accumulator it is
  meant for. When \<open>AddToTally\<close> succeeds the submitted bytes encode a ciphertext with both
  components different from the identity, the accumulator of that round, proposal and
  decision becomes the share (if it was empty) or the sum of the stored ciphertext and the
  share, its components are again different from the identity, and every other entry of the
  store is unchanged; the store stays well typed.
\<close>

theorem add_to_tally_refines:
  assumes "curve_ok C" and "kv_wf s" and "AddToTally C r p d b s = (Inr (), s')"
  shows "\<exists>share. UnmarshalCiphertext C b = Inr share \<and> C1 share \<noteq> 0 \<and> C2 share \<noteq> 0 \<and>
    ctOf C s' = (ctOf C s)((r, p, d) \<mapsto> tallyAfter (ctOf C s (r, p, d)) share) \<and>
    C1 (tallyAfter (ctOf C s (r, p, d)) share) \<noteq> 0 \<and>
    C2 (tallyAfter (ctOf C s (r, p, d)) share) \<noteq> 0 \<and>
    (\<forall>k. k \<noteq> tallyKey r p d \<longrightarrow> kv_get s' k = kv_get s k) \<and> kv_wf s'"
proof -
  from AddToTally_Inr[OF assms(3,1,2)] obtain share b' where h: "length r = 32"
    "UnmarshalCiphertext C b = Inr share" "C1 share \<noteq> 0" "C2 share \<noteq> 0"
    "UnmarshalCiphertext C b' = Inr (tallyAfter (ctOf C s (r, p, d)) share)"
    "C1 (tallyAfter (ctOf C s (r, p, d)) share) \<noteq> 0"
    "C2 (tallyAfter (ctOf C s (r, p, d)) share) \<noteq> 0"
    "s' = kv_set (tallyKey r p d) (VBytes b') s" by blast
  moreover have "ctOf C s' = (ctOf C s)((r, p, d) \<mapsto> tallyAfter (ctOf C s (r, p, d)) share)"
    using ctOf_set_tally[OF h(1,5)] h(8) by simp
  moreover have "kv_wf s'" using kv_wf_set_tally[OF assms(2) h(1)] h(8) by simp
  moreover have "\<forall>k. k \<noteq> tallyKey r p d \<longrightarrow> kv_get s' k = kv_get s k"
    using h(8) by (simp add: get_simps)
  ultimately show ?thesis by blast
qed

definition sampleAcc :: "f7 \<Rightarrow> f7 \<Rightarrow> vkv" where
  "sampleAcc a b = [(tallyKey sampleRoundID 1 0, VBytes (ctBytes curve7 \<lparr>C1 = a, C2 = b\<rparr>))]"

lemma sampleAcc_wf: "kv_wf (sampleAcc a b)"
  by (simp add: kv_wf_def kv_ok_def sampleAcc_def entry_ok_tally sampleRoundID_def)

theorem add_to_tally_refines_witness:
  "kv_wf (sampleAcc F1 F2) \<and>
   AddToTally curve7 sampleRoundID 1 0 (ctBytes curve7 \<lparr>C1 = F2, C2 = F3\<rparr>) (sampleAcc F1 F2) =
     (Inr (), sampleAcc F3 F5) \<and>
   (\<exists>share. UnmarshalCiphertext curve7 (ctBytes curve7 \<lparr>C1 = F2, C2 = F3\<rparr>) = Inr share \<and>
     ctOf curve7 (sampleAcc F3 F5) = (ctOf curve7 (sampleAcc F1 F2))((sampleRoundID, 1, 0) \<mapsto>
       tallyAfter (ctOf curve7 (sampleAcc F1 F2) (sampleRoundID, 1, 0)) share))"
proof -
  have "AddToTally curve7 sampleRoundID 1 0 (ctBytes curve7 \<lparr>C1 = F2, C2 = F3\<rparr>) (sampleAcc F1 F2) =
     (Inr (), sampleAcc F3 F5)" by code_simp
  from add_to_tally_refines[OF curve7_ok sampleAcc_wf this] sampleAcc_wf this show ?thesis by blast
qed

section \<open>Reading a proposal's accumulators\<close>

lemma map_of_filter_key: "map_of (filter (\<lambda>e. fst e \<noteq> k) m) = (map_of m)(k := None)"
  by (induction m) auto

lemma map_of_mapPut [simp]: "map_of (mapPut k v m) = (map_of m)(k \<mapsto> v)"
  by (auto simp: mapPut_def map_of_filter_key)

lemma distinct_mapPut: "distinct (map fst m) \<Longrightarrow> distinct (map fst (mapPut k v m))"
  by (auto simp: mapPut_def distinct_map_filter)

lemma proposalTallyLoop_spec:
  assumes "\<And>k v. (k, v) \<in> set es \<Longrightarrow> \<exists>d b. k = pre @ putUint32BE d \<and> v = VBytes b"
    and "distinct (map fst es)" and "distinct (map fst acc)"
  shows "\<exists>m. proposalTallyLoop acc es = Inr m \<and> distinct (map fst m) \<and>
    (\<forall>d b. map_of m d = Some b \<longleftrightarrow> (pre @ putUint32BE d, VBytes b) \<in> set es \<or>
       (map_of acc d = Some b \<and> pre @ putUint32BE d \<notin> fst ` set es))"
  using assms
proof (induction es arbitrary: acc)
  case Nil
  then show ?case by simp
next
  case (Cons e es)
  obtain d0 b0 where e: "e = (pre @ putUint32BE d0, VBytes b0)"
    using Cons.prems(1)[of "fst e" "snd e"] by (cases e) auto
  have "proposalTallyLoop acc (e # es) = proposalTallyLoop (mapPut d0 b0 acc) es"
    by (simp add: e)
  moreover obtain m where m: "proposalTallyLoop (mapPut d0 b0 acc) es = Inr m" "distinct (map fst m)"
    "\<And>d b. map_of m d = Some b \<longleftrightarrow> (pre @ putUint32BE d, VBytes b) \<in> set es \<or>
       (map_of (mapPut d0 b0 acc) d = Some b \<and> pre @ putUint32BE d \<notin> fst ` set es)"
  proof -
    have "distinct (map fst es)" using Cons.prems(2) by simp
    from Cons.IH[OF Cons.prems(1)[OF list.set_intros(2)] this
        distinct_mapPut[OF Cons.prems(3), of d0 b0]] show ?thesis using that by blast
  qed
  moreover have "pre @ putUint32BE d0 \<notin> fst ` set es"
    using Cons.prems(2) e by simp
  then have "map_of m d = Some b \<longleftrightarrow> (pre @ putUint32BE d, VBytes b) \<in> set (e # es) \<or>
       (map_of acc d = Some b \<and> pre @ putUint32BE d \<notin> fst ` set (e # es))" for d b
    unfolding m(3) by (cases "d = d0") (auto simp: e rev_image_eqI)
  ultimately show ?case by auto
qed

lemma tally_scan_wf:
  assumes "kv_wf s" and "length r = 32" and "(k, v) \<in> set (kv_scan (0x05 # r @ putUint32BE p) s)"
  shows "\<exists>d b. k = (0x05 # r @ putUint32BE p) @ putUint32BE d \<and> v = VBytes b"
proof -
  from assms have g: "kv_get s k = Some v" and "prefix (0x05 # r @ putUint32BE p) k"
    by (auto simp: kv_scan_iff[OF kv_wf_ok])
  then obtain t where k: "k = (0x05 # r @ putUint32BE p) @ t" by (auto simp: prefix_def)
  with kv_wf_get[OF assms(1) g] assms(2) have "length t = 4" "\<exists>b. v = VBytes b"
    by (auto simp: entry_ok_def split: kvval.splits)
  then show ?thesis using four_bytes_decode[of t] k by auto
qed

lemma GetProposalTally_wf:
  assumes "kv_wf s" and "length r = 32"
  shows "\<exists>m. GetProposalTally r p s = (Inr m, s) \<and> map_of m = accOf s r p \<and> distinct (map fst m)"
proof -
  let ?pre = "0x05 # r @ putUint32BE p"
  obtain m where m: "proposalTallyLoop [] (kv_scan ?pre s) = Inr m" "distinct (map fst m)"
    and mo: "\<And>d b. map_of m d = Some b \<longleftrightarrow> (?pre @ putUint32BE d, VBytes b) \<in> set (kv_scan ?pre s)"
    using proposalTallyLoop_spec[of "kv_scan ?pre s" ?pre "[]"] tally_scan_wf[OF assms]
      kv_scan_distinct[OF kv_wf_ok[OF assms(1)], of ?pre] by auto
  have "map_of m d = accOf s r p d" for d
  proof -
    have "map_of m d = Some b \<longleftrightarrow> accOf s r p d = Some b" for b
      by (simp add: mo kv_scan_iff[OF kv_wf_ok[OF assms(1)]] accOf_def view_Some_iff tallyKey_def)
    then show ?thesis by (metis option.exhaust)
  qed
  moreover have "GetProposalTally r p s = (Inr m, s)"
    using assms(2) m(1)
    by (simp add: GetProposalTally_def key_simps ValidateRoundID_ok bindM_def liftR_def kvScan_def getM_def)
  ultimately show ?thesis using m(2) by blast
qed

section \<open>Completeness\<close>

text \<open>The non-empty accumulators of the round's proposals.\<close>

definition nonEmptyAccs :: "vkv \<Rightarrow> VoteRound \<Rightarrow> (u32 \<times> u32) set" where
  "nonEmptyAccs s rd =
     {(p, d). p \<in> prop_id ` set (proposals rd) \<and> accOf s (vote_round_id rd) p d \<noteq> None}"

lemma mapM_pure:
  assumes "\<And>x. x \<in> set xs \<Longrightarrow> f x s = (Inr (g x), s)"
  shows "mapM f xs s = (Inr (map g xs), s)"
  using assms by (induction xs) (auto simp: monad_simps bindM_def)

lemma CollectNonEmptyAccumulators_wf:
  assumes "kv_wf s" and "length (vote_round_id rd) = 32"
  shows "\<exists>es. CollectNonEmptyAccumulators rd s = (Inr es, s) \<and> set es = nonEmptyAccs s rd"
proof -
  let ?r = "vote_round_id rd"
  define m where "m p = (SOME m. GetProposalTally ?r p s = (Inr m, s) \<and> map_of m = accOf s ?r p)" for p
  have m: "GetProposalTally ?r p s = (Inr (m p), s)" "map_of (m p) = accOf s ?r p" for p
    using someI_ex[of "\<lambda>m. GetProposalTally ?r p s = (Inr m, s) \<and> map_of m = accOf s ?r p"]
      GetProposalTally_wf[OF assms, of p] unfolding m_def by blast+
  define g where "g x = map (\<lambda>(decision, _). (prop_id x, decision)) (m (prop_id x))" for x :: Proposal
  have "mapM (\<lambda>proposal. bindM (GetProposalTally ?r (prop_id proposal)) (\<lambda>tallyMap.
        returnM (map (\<lambda>(decision, _). (prop_id proposal, decision)) tallyMap))) (proposals rd) s =
      (Inr (map g (proposals rd)), s)"
    by (rule mapM_pure) (simp add: bindM_def m(1) returnM_def g_def)
  then have "CollectNonEmptyAccumulators rd s = (Inr (concat (map g (proposals rd))), s)"
    by (simp add: CollectNonEmptyAccumulators_def bindM_def returnM_def)
  moreover have "set (g x) = {(prop_id x, d) |d. accOf s ?r (prop_id x) d \<noteq> None}" for x
  proof -
    have "d \<in> fst ` set (m (prop_id x)) \<longleftrightarrow> accOf s ?r (prop_id x) d \<noteq> None" for d
      unfolding m(2)[symmetric] by (simp add: map_of_eq_None_iff)
    then show ?thesis by (force simp: g_def)
  qed
  ultimately show ?thesis by (auto simp: nonEmptyAccs_def)
qed

text \<open>The completeness checks on a well-typed store.\<close>

lemma TallyCompleteness_wf:
  assumes "kv_wf s" and "length (vote_round_id rd) = 32"
  shows "ValidateTallyCompleteness rd entries s =
      ((if nonEmptyAccs s rd \<subseteq> (\<lambda>e. (te_proposal_id e, te_vote_decision e)) ` set entries
        then Inr () else Inl ErrTallyMismatch), s)
    \<and> ValidatePartialDecryptionCompleteness rd pentries s =
      ((if nonEmptyAccs s rd \<subseteq> (\<lambda>e. (pd_proposal_id e, pd_vote_decision e)) ` set pentries
        then Inr () else Inl ErrInvalidField), s)"
proof -
  obtain es where es: "CollectNonEmptyAccumulators rd s = (Inr es, s)" "set es = nonEmptyAccs s rd"
    using CollectNonEmptyAccumulators_wf[OF assms] by blast
  then show ?thesis
    by (auto simp: ValidateTallyCompleteness_def ValidatePartialDecryptionCompleteness_def bindM_def
        Let_def failIf_def throwM_def returnM_def list_all_iff subset_iff)
qed

definition sampleRound :: VoteRound where
  "sampleRound = \<lparr>vote_round_id = sampleRoundID, snapshot_height = 1, snapshot_blockhash = [],
     proposals_hash = [], vote_end_time = 100, nullifier_imt_root = [], nc_root = [], creator = [],
     status = SESSION_STATUS_TALLYING, ea_pk = [],
     proposals = [\<lparr>prop_id = 1, prop_title = [65], prop_description = [],
       prop_options = [\<lparr>opt_index = 0, opt_label = [65], opt_description = []\<rparr>,
         \<lparr>opt_index = 1, opt_label = [66], opt_description = []\<rparr>],
       prop_zip_number = [], prop_forum_url = []\<rparr>],
     description = [], created_at_height = 1, title = [], ceremony_status = CEREMONY_STATUS_CONFIRMED,
     ceremony_validators = [], ceremony_acks = [], ceremony_phase_start = 0,
     ceremony_phase_timeout = 0, ceremony_log = [], threshold = 1, feldman_commitments = [],
     tally_phase_start = 0, tally_phase_timeout = 0, tally_timed_out = False,
     dkg_contributions = [], discussion_url = [], created_at_time = 0\<rparr>"

section \<open>Partial decryptions per validator\<close>

definition partialKey :: "bytes \<Rightarrow> u32 \<Rightarrow> u32 \<Rightarrow> u32 \<Rightarrow> bytes" where
  "partialKey r i p d = (0x12 # r) @ putUint32BE i @ putUint32BE p @ putUint32BE d"

definition partialOf :: "vkv \<Rightarrow> bytes \<Rightarrow> u32 \<Rightarrow> u32 \<times> u32 \<rightharpoonup> PartialDecryptionEntry" where
  "partialOf s r i = (\<lambda>(p, d). view decodePartial s (partialKey r i p d))"

lemma PartialDecryptionKey_Inr_iff:
  "PartialDecryptionKey r i p d = Inr k \<longleftrightarrow> length r = 32 \<and> k = partialKey r i p d"
  by (auto simp: key_simps bindR_Inr_iff partialKey_def)

lemma partialKey_inject:
  "length r = 32 \<Longrightarrow> length r' = 32 \<Longrightarrow>
     partialKey r i p d = partialKey r' i' p' d' \<longleftrightarrow> r = r' \<and> i = i' \<and> p = p' \<and> d = d'"
  by (simp add: partialKey_def append_eq_same_length)

lemma partial_scan_wf:
  assumes "kv_wf s" and "length r = 32" and "(k, v) \<in> set (kv_scan (0x12 # r) s)"
  shows "\<exists>i p d e. k = partialKey r i p d \<and> v = VPartialDecryption e \<and>
    pd_proposal_id e = p \<and> pd_vote_decision e = d \<and> partialOf s r i (p, d) = Some e"
proof -
  from assms have g: "kv_get s k = Some v" and "prefix (0x12 # r) k"
    by (auto simp: kv_scan_iff[OF kv_wf_ok])
  then obtain t where k: "k = 0x12 # r @ t" by (auto simp: prefix_def)
  with kv_wf_get[OF assms(1) g] obtain e where e: "v = VPartialDecryption e" "length k = 45"
    "drop 37 k = putUint32BE (pd_proposal_id e) @ putUint32BE (pd_vote_decision e)"
    by (auto simp: entry_ok_def split: kvval.splits)
  have "length (take 4 t) = 4" "drop 4 t = drop 37 k" using k e(2) assms(2) by simp_all
  then obtain i where "t = putUint32BE i @ putUint32BE (pd_proposal_id e) @ putUint32BE (pd_vote_decision e)"
    using four_bytes_decode[of "take 4 t"] e(3) append_take_drop_id[of 4 t] by metis
  then have "k = partialKey r i (pd_proposal_id e) (pd_vote_decision e)"
    by (simp add: k partialKey_def)
  then show ?thesis using e(1) g by (auto simp: partialOf_def view_Some_iff)
qed

lemma partial_scan_mem:
  "kv_wf s \<Longrightarrow> partialOf s r i (p, d) = Some e \<Longrightarrow>
     (partialKey r i p d, VPartialDecryption e) \<in> set (kv_scan (0x12 # r) s)"
  by (simp add: kv_scan_iff[OF kv_wf_ok] partialOf_def view_Some_iff partialKey_def)

text \<open>The validator indices with a stored entry.\<close>

definition submitters :: "vkv \<Rightarrow> bytes \<Rightarrow> u32 set" where
  "submitters s r = {i. \<exists>pd. partialOf s r i pd \<noteq> None}"

text \<open>
  Keys of one round are visited in byte order, so entries of one validator are adjacent: the
  loop, which only compares neighbours, counts distinct indices.
\<close>

lemma lex_append_mono:
  fixes x y :: bytes
  shows "length x = length x' \<Longrightarrow> x @ y < x' @ y' \<Longrightarrow> x \<le> x'"
proof (induction x x' rule: list_induct2)
  case (Cons a x b x')
  then show ?case by auto
qed simp

lemma lex_append_cancel: "x @ y < x @ z \<longleftrightarrow> y < z" for x y z :: bytes
  by (induction x) auto

lemma countLoop_sorted:
  assumes "map fst es = map (\<lambda>(i, t). pre @ putUint32BE i @ t) its"
    and "sorted_wrt (<) (map fst es)"
    and "\<And>l. lastIdx = Some l \<Longrightarrow> \<forall>(i, t) \<in> set its. putUint32BE l \<le> putUint32BE i"
  shows "countLoop (length pre) lastIdx c es =
    Inr (c + int (card (fst ` set its - set_option lastIdx)))"
  using assms
proof (induction es arbitrary: its lastIdx c)
  case Nil
  then show ?case by simp
next
  case (Cons e es)
  then obtain i t its' where its: "its = (i, t) # its'" by (cases its) auto
  obtain v where e: "e = (pre @ putUint32BE i @ t, v)" using Cons.prems(1) its by (cases e) auto
  have es: "map fst es = map (\<lambda>(i, t). pre @ putUint32BE i @ t) its'" "sorted_wrt (<) (map fst es)"
    using Cons.prems(1,2) its by auto
  have le: "\<forall>(j, t) \<in> set its'. putUint32BE i \<le> putUint32BE j"
  proof safe
    fix j t' assume "(j, t') \<in> set its'"
    then have "pre @ putUint32BE j @ t' \<in> set (map fst es)" unfolding es by force
    then have "pre @ putUint32BE i @ t < pre @ putUint32BE j @ t'" using Cons.prems(2) e by auto
    then have "putUint32BE i @ t < putUint32BE j @ t'" by (simp add: lex_append_cancel)
    then show "putUint32BE i \<le> putUint32BE j" by (rule lex_append_mono[rotated]) simp
  qed
  have IH: "countLoop (length pre) (Some i) c' es = Inr (c' + int (card (fst ` set its' - {i})))" for c'
    using Cons.IH[OF es, of "Some i" c'] le by simp
  show ?case
  proof (cases "lastIdx = Some i")
    case True
    then show ?thesis using IH by (simp add: e its insert_Diff_if)
  next
    case False
    have "fst ` set its' \<inter> set_option lastIdx \<subseteq> {i}" 
    proof
      fix j assume "j \<in> fst ` set its' \<inter> set_option lastIdx"
      then obtain t' where j: "(j, t') \<in> set its'" "lastIdx = Some j" by (auto simp: elem_set)
      with le Cons.prems(3)[of j] its have "putUint32BE i = putUint32BE j" by fastforce
      then show "j \<in> {i}" by simp
    qed
    then have "fst ` set its - set_option lastIdx = insert i (fst ` set its' - {i})"
      using False its by (auto simp: elem_set)
    then have "card (fst ` set its - set_option lastIdx) = Suc (card (fst ` set its' - {i}))"
      by (simp add: card.insert_remove)
    then show ?thesis using IH[of "c + 1"] False by (simp add: e)
  qed
qed

lemma CountPartialDecryptionValidators_wf:
  assumes "kv_wf s" and "length r = 32"
  shows "CountPartialDecryptionValidators r s = (Inr (int (card (submitters s r))), s)"
proof -
  let ?es = "kv_scan (0x12 # r) s"
  define idx where "idx k = (the (getUint32BE (take 4 (drop 33 k))), drop 37 k)" for k :: bytes
  define its where "its = map (\<lambda>e. idx (fst e)) ?es"
  have idx: "idx (partialKey r i p d) = (i, putUint32BE p @ putUint32BE d)" for i p d
    using assms(2) by (simp add: idx_def partialKey_def)
  have "map fst ?es = map (\<lambda>(i, t). (0x12 # r) @ putUint32BE i @ t) its"
    unfolding its_def map_map
  proof (rule map_cong[OF refl])
    fix e assume "e \<in> set ?es"
    then obtain i p d where "fst e = partialKey r i p d"
      using partial_scan_wf[OF assms, of "fst e" "snd e"] by auto
    then show "fst e = ((\<lambda>(i, t). (0x12 # r) @ putUint32BE i @ t) \<circ> (\<lambda>e. idx (fst e))) e"
      by (simp add: idx) (simp add: partialKey_def)
  qed
  then have "countLoop (length (0x12 # r)) None 0 ?es = Inr (int (card (fst ` set its)))"
    using countLoop_sorted[OF _ kv_scan_sorted[OF kv_wf_ok[OF assms(1)]], of "0x12 # r" "0x12 # r" its None 0]
    by simp
  moreover have "fst ` set its = submitters s r"
  proof -
    have "fst ` set its = {i. \<exists>k v. (k, v) \<in> set ?es \<and> fst (idx k) = i}"
      unfolding its_def by force
    also have "\<dots> = submitters s r"
    proof (rule set_eqI, rule iffI)
      fix i assume "i \<in> {i. \<exists>k v. (k, v) \<in> set ?es \<and> fst (idx k) = i}"
      then obtain k v where kv: "(k, v) \<in> set ?es" "fst (idx k) = i" by blast
      from partial_scan_wf[OF assms kv(1)] kv(2) show "i \<in> submitters s r"
        by (auto simp: idx submitters_def) blast
    next
      fix i assume "i \<in> submitters s r"
      then obtain p d e where "partialOf s r i (p, d) = Some e" by (auto simp: submitters_def)
      from partial_scan_mem[OF assms(1) this] show "i \<in> {i. \<exists>k v. (k, v) \<in> set ?es \<and> fst (idx k) = i}"
        using idx[of i p d] by force
    qed
    finally show ?thesis .
  qed
  ultimately show ?thesis
    using assms(2) by (simp add: CountPartialDecryptionValidators_def key_simps ValidateRoundID_ok
        bindM_def liftR_def kvScan_def getM_def)
qed

lemma HasPartialDecryptionsFromValidator_wf:
  assumes "kv_wf s" and "length r = 32"
  shows "HasPartialDecryptionsFromValidator r i s = (Inr (i \<in> submitters s r), s)"
proof -
  let ?p = "0x12 # r @ putUint32BE i"
  have "kv_scan ?p s \<noteq> [] \<longleftrightarrow> (\<exists>k. prefix ?p k \<and> kv_get s k \<noteq> None)"
    unfolding kv_scan_empty_iff[OF kv_wf_ok[OF assms(1)], of ?p] by simp
  also have "\<dots> \<longleftrightarrow> i \<in> submitters s r"
  proof
    assume "\<exists>k. prefix ?p k \<and> kv_get s k \<noteq> None"
    then obtain k v where kv: "prefix ?p k" "kv_get s k = Some v" by auto
    then have "(k, v) \<in> set (kv_scan (0x12 # r) s)"
      by (auto simp: kv_scan_iff[OF kv_wf_ok[OF assms(1)]] prefix_def)
    from partial_scan_wf[OF assms this] obtain j p d e where
      j: "k = partialKey r j p d" "partialOf s r j (p, d) = Some e" by blast
    then have "putUint32BE j = putUint32BE i"
      using kv(1) by (auto simp: partialKey_def prefix_def append_eq_same_length)
    then show "i \<in> submitters s r" using j(2) by (auto simp: submitters_def)
  next
    assume "i \<in> submitters s r"
    then show "\<exists>k. prefix ?p k \<and> kv_get s k \<noteq> None"
      unfolding submitters_def by (auto simp: partialOf_def view_Some_iff partialKey_def prefix_def)
  qed
  finally show ?thesis
    using assms(2) by (simp add: HasPartialDecryptionsFromValidator_def key_simps ValidateRoundID_ok
        bindM_def liftR_def kvScan_def getM_def returnM_def)
qed

lemma entry_ok_partial:
  "length r = 32 \<Longrightarrow> entry_ok (partialKey r i (pd_proposal_id e) (pd_vote_decision e)) (VPartialDecryption e)"
  by (simp add: entry_ok_def partialKey_def)

lemma partialOf_set:
  assumes "length r = 32" and "length r' = 32"
  shows "partialOf (kv_set (partialKey r i p d) (VPartialDecryption e) s) r' j =
    (if r' = r \<and> j = i then (partialOf s r i)((p, d) \<mapsto> e) else partialOf s r' j)"
  using assms by (auto simp: partialOf_def view_set partialKey_inject okOpt_def fun_eq_iff)

definition partialMap :: "PartialDecryptionEntry list \<Rightarrow> u32 \<times> u32 \<rightharpoonup> PartialDecryptionEntry" where
  "partialMap es = map_of (rev (map (\<lambda>e. ((pd_proposal_id e, pd_vote_decision e), e)) es))"

lemma SetPartialDecryptions_Cons:
  "length r = 32 \<Longrightarrow> SetPartialDecryptions r i (e # es) s =
     SetPartialDecryptions r i es (kv_set (partialKey r i (pd_proposal_id e) (pd_vote_decision e))
       (VPartialDecryption e) s)"
  by (simp add: SetPartialDecryptions_def thenM_def bindM_def liftR_def kvSet_def modifyM_def
      PartialDecryptionKey_Inr_iff[THEN iffD2])

lemma SetPartialDecryptions_ok:
  assumes "length r = 32" and "kv_wf s"
  shows "\<exists>s'. SetPartialDecryptions r i es s = (Inr (), s') \<and> kv_wf s' \<and>
    (\<forall>k. hd k \<noteq> 0x12 \<longrightarrow> kv_get s' k = kv_get s k) \<and>
    (\<forall>r' j. length r' = 32 \<longrightarrow> partialOf s' r' j =
       (if r' = r \<and> j = i then partialOf s r i ++ partialMap es else partialOf s r' j))"
  using assms(2)
proof (induction es arbitrary: s)
  case Nil
  then show ?case by (auto simp: SetPartialDecryptions_def returnM_def partialMap_def)
next
  case (Cons e es)
  let ?s = "kv_set (partialKey r i (pd_proposal_id e) (pd_vote_decision e)) (VPartialDecryption e) s"
  have "kv_wf ?s" using Cons.prems entry_ok_partial[OF assms(1)] by (simp add: kv_wf_set)
  from Cons.IH[OF this] obtain s' where s': "SetPartialDecryptions r i es ?s = (Inr (), s')" "kv_wf s'"
    "\<forall>k. hd k \<noteq> 0x12 \<longrightarrow> kv_get s' k = kv_get ?s k"
    "\<forall>r' j. length r' = 32 \<longrightarrow> partialOf s' r' j =
       (if r' = r \<and> j = i then partialOf ?s r i ++ partialMap es else partialOf ?s r' j)" by blast
  moreover have "\<forall>k. hd k \<noteq> 0x12 \<longrightarrow> kv_get ?s k = kv_get s k"
    by (auto simp: get_simps partialKey_def)
  moreover have "partialOf s' r' j = (if r' = r \<and> j = i then partialOf s r i ++ partialMap (e # es)
      else partialOf s r' j)" if "length r' = 32" for r' j
    using s'(4) that partialOf_set[OF assms(1)] by (auto simp: partialMap_def assms(1))
  ultimately show ?case using SetPartialDecryptions_Cons[OF assms(1)] by auto
qed

lemma partialMap_empty_iff: "partialMap es = Map.empty \<longleftrightarrow> es = []"
  by (auto simp: partialMap_def)

text \<open>
  Recording one validator's partial decryptions. The call never fails on a well-typed
  store; it changes only that validator's entries of that round (the last entry for a pair
  wins), the validator counts as having submitted exactly when it sent an entry or had one
  before, and \<open>CountPartialDecryptionValidators\<close> is the number of distinct validators
  with an entry, however many entries each of them sent.
\<close>

lemma partial_decryptions_recorded:
  assumes "kv_wf s" and "length r = 32"
  shows "\<exists>s'. SetPartialDecryptions r i es s = (Inr (), s') \<and> kv_wf s' \<and>
    partialOf s' r i = partialOf s r i ++ partialMap es \<and>
    (\<forall>j. j \<noteq> i \<longrightarrow> partialOf s' r j = partialOf s r j) \<and>
    HasPartialDecryptionsFromValidator r j s' = (Inr (j \<in> submitters s r \<or> j = i \<and> es \<noteq> []), s') \<and>
    CountPartialDecryptionValidators r s' =
      (Inr (int (card (submitters s r \<union> (if es = [] then {} else {i})))), s')"
proof -
  from SetPartialDecryptions_ok[OF assms(2,1), of i es] obtain s' where
    ok: "SetPartialDecryptions r i es s = (Inr (), s')" "kv_wf s'"
    and *: "\<And>r' j. length r' = 32 \<Longrightarrow> partialOf s' r' j =
       (if r' = r \<and> j = i then partialOf s r i ++ partialMap es else partialOf s r' j)" by blast
  note s' = ok *[OF assms(2), of i, simplified] 
  have s'4: "\<forall>j. j \<noteq> i \<longrightarrow> partialOf s' r j = partialOf s r j" using *[OF assms(2)] by simp
  have mem: "j \<in> submitters s' r \<longleftrightarrow> j \<in> submitters s r \<or> j = i \<and> es \<noteq> []" for j
  proof (cases "j = i")
    case True
    have "(\<exists>x. (f ++ g) x \<noteq> None) \<longleftrightarrow> (\<exists>x. f x \<noteq> None) \<or> g \<noteq> Map.empty"
      for f g :: "u32 \<times> u32 \<rightharpoonup> PartialDecryptionEntry"
      by (metis domIff dom_map_add UnCI UnE map_le_antisym)
    from this[of "partialOf s r i" "partialMap es"] show ?thesis
      unfolding submitters_def mem_Collect_eq True s'(3) partialMap_empty_iff by (simp only: simp_thms)
  next
    case False
    then show ?thesis using s'4 by (simp add: submitters_def)
  qed
  then have "submitters s' r = submitters s r \<union> (if es = [] then {} else {i})" by auto
  then show ?thesis
    using s' s'4 HasPartialDecryptionsFromValidator_wf[OF s'(2) assms(2), of j] mem[of j]
      CountPartialDecryptionValidators_wf[OF s'(2) assms(2)] by auto
qed

section \<open>Partial decryptions per accumulator\<close>

lemma AccumulatorKey_inject [simp]:
  "AccumulatorKey p d = AccumulatorKey p' d' \<longleftrightarrow> p = p' \<and> d = d'"
proof
  have hi: "ucast (drop_bit 32 (AccumulatorKey p d)) = p" and lo: "ucast (AccumulatorKey p d) = d" for p d
    unfolding AccumulatorKey_def by (auto simp: bit_eq_iff bit_simps dest: bit_imp_le_length)
  assume "AccumulatorKey p d = AccumulatorKey p' d'"
  then show "p = p' \<and> d = d'" using hi[of p d] hi[of p' d'] lo[of p d] lo[of p' d'] by simp
qed simp

definition entriesAt :: "('k \<times> 'v list) list \<Rightarrow> 'k \<Rightarrow> 'v list" where
  "entriesAt m k = (case map_of m k of None \<Rightarrow> [] | Some vs \<Rightarrow> vs)"

lemma entriesAt_mapAppend:
  "entriesAt (mapAppend k v m) k' = (if k' = k then entriesAt m k @ [v] else entriesAt m k')"
  by (simp add: entriesAt_def mapAppend_def)

definition withIndex :: "u32 \<Rightarrow> PartialDecryptionEntry \<Rightarrow> PartialDecryptionWithIndex" where
  "withIndex i e = \<lparr>pdi_validator_index = i, pdi_partial_decrypt = pd_partial_decrypt e,
     pdi_dleq_proof = pd_dleq_proof e\<rparr>"

text \<open>The entries of one accumulator among a list of (index, entry) pairs.\<close>

definition forAcc :: "u32 \<Rightarrow> u32 \<Rightarrow> (u32 \<times> PartialDecryptionEntry) list \<Rightarrow> PartialDecryptionWithIndex list" where
  "forAcc p d xs = map (\<lambda>(i, e). withIndex i e)
     (filter (\<lambda>(i, e). pd_proposal_id e = p \<and> pd_vote_decision e = d) xs)"

lemma partialsLoop_spec:
  assumes "length r = 32"
  shows "\<exists>m. partialsLoop 33 acc (map (\<lambda>(i, e). (partialKey r i (pd_proposal_id e)
      (pd_vote_decision e), VPartialDecryption e)) xs) = Inr m \<and>
    (\<forall>p d. entriesAt m (AccumulatorKey p d) = entriesAt acc (AccumulatorKey p d) @ forAcc p d xs)"
proof (induction xs arbitrary: acc)
  case Nil
  then show ?case by (simp add: forAcc_def)
next
  case (Cons x xs)
  obtain i e where x: "x = (i, e)" by (cases x)
  let ?k = "partialKey r i (pd_proposal_id e) (pd_vote_decision e)"
  let ?acc = "mapAppend (AccumulatorKey (pd_proposal_id e) (pd_vote_decision e)) (withIndex i e) acc"
  have "getUint32BE (take 4 (drop 33 ?k)) = Some i"
    "getUint32BE (take 4 (drop 37 ?k)) = Some (pd_proposal_id e)"
    "getUint32BE (take 4 (drop 41 ?k)) = Some (pd_vote_decision e)" "length ?k = 45"
    using assms by (simp_all add: partialKey_def)
  then have "partialsLoop 33 acc (map (\<lambda>(i, e). (partialKey r i (pd_proposal_id e)
        (pd_vote_decision e), VPartialDecryption e)) (x # xs)) =
      partialsLoop 33 ?acc (map (\<lambda>(i, e). (partialKey r i (pd_proposal_id e)
        (pd_vote_decision e), VPartialDecryption e)) xs)"
    by (simp add: x withIndex_def)
  then show ?case using Cons.IH[of ?acc] x by (auto simp: entriesAt_mapAppend forAcc_def)
qed

text \<open>The partial decryptions of a round, grouped by accumulator.\<close>

lemma GetPartialDecryptionsForRound_wf:
  assumes "kv_wf s" and "length r = 32"
  shows "\<exists>m. GetPartialDecryptionsForRound r s = (Inr m, s) \<and> (\<forall>p d.
    set (entriesAt m (AccumulatorKey p d)) = {withIndex i e |i e. partialOf s r i (p, d) = Some e} \<and>
    distinct (map pdi_validator_index (entriesAt m (AccumulatorKey p d))))"
proof -
  let ?es = "kv_scan (0x12 # r) s"
  have "\<exists>xs. ?es = map (\<lambda>(i, e). (partialKey r i (pd_proposal_id e) (pd_vote_decision e),
      VPartialDecryption e)) xs"
  proof (rule ex_map_conv[THEN iffD2], rule ballI)
    fix kv assume "kv \<in> set ?es"
    from partial_scan_wf[OF assms, of "fst kv" "snd kv"] this show "\<exists>x. kv = (case x of (i, e) \<Rightarrow>
        (partialKey r i (pd_proposal_id e) (pd_vote_decision e), VPartialDecryption e))"
      by (cases kv) auto
  qed
  then obtain xs where xs: "?es = map (\<lambda>(i, e). (partialKey r i (pd_proposal_id e)
      (pd_vote_decision e), VPartialDecryption e)) xs" by blast
  obtain m where m: "partialsLoop 33 [] ?es = Inr m"
    "\<And>p d. entriesAt m (AccumulatorKey p d) = forAcc p d xs"
    using partialsLoop_spec[OF assms(2), of "[]" xs] unfolding xs by (auto simp: entriesAt_def)
  have mem: "(i, e) \<in> set xs \<longleftrightarrow> partialOf s r i (pd_proposal_id e, pd_vote_decision e) = Some e" for i e
  proof -
    have "(i, e) \<in> set xs \<longleftrightarrow> (partialKey r i (pd_proposal_id e) (pd_vote_decision e), VPartialDecryption e) \<in> set ?es"
      unfolding xs by (auto simp: partialKey_inject[OF assms(2) assms(2)])
    then show ?thesis
      by (simp add: kv_scan_iff[OF kv_wf_ok[OF assms(1)]] partialOf_def view_Some_iff partialKey_def)
  qed
  have pair: "pd_proposal_id e = p \<and> pd_vote_decision e = d" if "partialOf s r i (p, d) = Some e" for i p d e
    using partial_scan_wf[OF assms partial_scan_mem[OF assms(1) that]]
    by (auto simp: partialKey_inject[OF assms(2) assms(2)])
  have "set (forAcc p d xs) = {withIndex i e |i e. partialOf s r i (p, d) = Some e}" for p d
  proof -
    have "set (forAcc p d xs) =
        {withIndex i e |i e. (i, e) \<in> set xs \<and> pd_proposal_id e = p \<and> pd_vote_decision e = d}"
      unfolding forAcc_def by force
    also have "\<dots> = {withIndex i e |i e. partialOf s r i (p, d) = Some e}"
      unfolding mem using pair by blast
    finally show ?thesis .
  qed
  moreover have "distinct (map pdi_validator_index (forAcc p d xs))" for p d
  proof -
    have "distinct (map fst ?es)" by (rule kv_scan_distinct[OF kv_wf_ok[OF assms(1)]])
    then have "distinct (map (\<lambda>(i, e). partialKey r i (pd_proposal_id e) (pd_vote_decision e)) xs)"
      unfolding xs by (simp add: comp_def case_prod_unfold)
    then have "distinct (map fst (filter (\<lambda>(i, e). pd_proposal_id e = p \<and> pd_vote_decision e = d) xs))"
      by (induction xs) (auto simp: rev_image_eqI)
    then show ?thesis by (simp add: forAcc_def comp_def case_prod_unfold withIndex_def)
  qed
  moreover have "GetPartialDecryptionsForRound r s = (Inr m, s)"
    using m(1) assms(2) by (simp add: GetPartialDecryptionsForRound_def key_simps ValidateRoundID_ok
        bindM_def liftR_def kvScan_def getM_def)
  ultimately show ?thesis using m(2) by auto
qed

end
