(* ===== verification/Vote_World.thy ===== *)
theory Vote_World
  imports Keeper_Tally
begin

text \<open>
  What lies around the vote keeper: the interfaces of \<^verbatim>\<open>src/x/vote/keeper/keeper.go\<close>
  (staking, slashing, bank, auth and upgrade keepers), the Rust round-id derivation and the
  stateful commitment tree, all of them parameters, and the state a message handler or the
  end blocker runs on. The state of the other modules is one value of the type variable
  \<open>'x\<close>; a tree handle is a value of \<open>'h\<close>. A keeper field that may be nil is an option.

  The record \<open>world\<close> is the vote module's store, the other modules' state and the keeper's
  in-memory \<^verbatim>\<open>roundTrees\<close> map; \<open>kvM\<close> and \<open>extM\<close> run a store operation and an
  operation of another module inside it.
\<close>

section \<open>Other modules\<close>

datatype BondStatus = Unspecified | Unbonded | Unbonding | Bonded

record Validator =
  val_operator :: gostring
  val_status :: BondStatus
  val_jailed :: bool
  val_cons_addr :: "bytes res"

text \<open>The decoded \<^verbatim>\<open>stakingtypes.MsgCreateValidator\<close>, as far as the module looks at it.\<close>

record StakingMsg =
  sm_validator_address :: gostring
  sm_has_pubkey :: bool
  sm_rest :: bytes

record 'x StakingKeeper =
  GetValidator :: "'x \<Rightarrow> bytes \<Rightarrow> Validator res"
  GetValidatorByConsAddr :: "'x \<Rightarrow> bytes \<Rightarrow> Validator res"
  isConcreteKeeper :: bool
  CreateValidator :: "StakingMsg \<Rightarrow> ('x, unit) M"

text \<open>Jail times and durations are in seconds.\<close>

record 'x SlashingKeeper =
  Jail :: "bytes \<Rightarrow> ('x, unit) M"
  JailUntil :: "bytes \<Rightarrow> int \<Rightarrow> ('x, unit) M"
  DowntimeJailDuration :: "'x \<Rightarrow> int res"

text \<open>\<open>SetNewAccount\<close> is \<^verbatim>\<open>SetAccount(NewAccountWithAddress(addr))\<close>.\<close>

record 'x AccountKeeper =
  GetAccount :: "'x \<Rightarrow> bytes \<Rightarrow> bytes option"
  SetNewAccount :: "bytes \<Rightarrow> 'x \<Rightarrow> 'x"

record UpgradePlan =
  plan_name :: gostring
  plan_height :: int
  plan_info :: gostring

text \<open>\<open>GetUpgradePlan\<close> returns \<open>Inr None\<close> for \<^verbatim>\<open>ErrNoUpgradePlanFound\<close>.\<close>

record 'x UpgradeScheduler =
  GetUpgradePlan :: "'x \<Rightarrow> UpgradePlan option res"
  ScheduleUpgrade :: "UpgradePlan \<Rightarrow> ('x, unit) M"
  ClearUpgradePlan :: "('x, unit) M"

text \<open>
  The tree operations of \<^verbatim>\<open>src/ffi/votetree\<close>. Each takes the round's key prefix and works
  on the store through it.
\<close>

record 'h TreeFFI =
  createWithKV :: "bytes \<Rightarrow> u64 \<Rightarrow> (vkv, 'h) M"
  treeSize :: "'h \<Rightarrow> u64"
  appendFromKV :: "bytes \<Rightarrow> 'h \<Rightarrow> u64 \<Rightarrow> u64 \<Rightarrow> (vkv, 'h) M"
  checkpointTree :: "bytes \<Rightarrow> 'h \<Rightarrow> u32 \<Rightarrow> (vkv, 'h) M"
  rootStateful :: "bytes \<Rightarrow> 'h \<Rightarrow> vkv \<Rightarrow> bytes res"

record ('x, 'h) env =
  envLib :: lib
  stakingKeeper :: "'x StakingKeeper option"
  slashingKeeper :: "'x SlashingKeeper option"
  sendFromModule :: "gostring \<Rightarrow> bytes \<Rightarrow> int \<Rightarrow> ('x, unit) M"
  accountKeeper :: "'x AccountKeeper option"
  upgradeKeeper :: "'x UpgradeScheduler option"
  stakingMsgUnmarshal :: "bytes \<Rightarrow> StakingMsg option"
  stakingMsgUnpackInterfaces :: "StakingMsg \<Rightarrow> StakingMsg option"
  DeriveRoundID :: "u64 \<Rightarrow> bytes \<Rightarrow> bytes \<Rightarrow> u64 \<Rightarrow> bytes \<Rightarrow> bytes \<Rightarrow> bytes res"
  treeFFI :: "'h TreeFFI"

section \<open>The state of a block\<close>

record 'h roundTree =
  rt_handle :: "'h option"
  rt_root :: "bytes option"
  rt_rootLeafCount :: u64

record ('x, 'h) world =
  w_kv :: vkv
  w_ext :: 'x
  w_trees :: "(gostring \<times> 'h roundTree) list"

definition kvM :: "(vkv, 'a) M \<Rightarrow> (('x, 'h) world, 'a) M" where
  "kvM m = (\<lambda>w. case m (w_kv w) of (r, s) \<Rightarrow> (r, w\<lparr>w_kv := s\<rparr>))"

definition extM :: "('x, 'a) M \<Rightarrow> (('x, 'h) world, 'a) M" where
  "extM m = (\<lambda>w. case m (w_ext w) of (r, x) \<Rightarrow> (r, w\<lparr>w_ext := x\<rparr>))"

lemma kvM_Inr_iff:
  "kvM m w = (Inr a, w') \<longleftrightarrow> (\<exists>s. m (w_kv w) = (Inr a, s) \<and> w' = w\<lparr>w_kv := s\<rparr>)"
  by (auto simp: kvM_def split: prod.splits)

lemma kvM_Inl_iff:
  "kvM m w = (Inl e, w') \<longleftrightarrow> (\<exists>s. m (w_kv w) = (Inl e, s) \<and> w' = w\<lparr>w_kv := s\<rparr>)"
  by (auto simp: kvM_def split: prod.splits)

lemma extM_Inr_iff:
  "extM m w = (Inr a, w') \<longleftrightarrow> (\<exists>x. m (w_ext w) = (Inr a, x) \<and> w' = w\<lparr>w_ext := x\<rparr>)"
  by (auto simp: extM_def split: prod.splits)

lemma kvM_frame [simp]:
  "w_ext (snd (kvM m w)) = w_ext w" "w_trees (snd (kvM m w)) = w_trees w"
  by (simp_all add: kvM_def split: prod.splits)

lemma extM_frame [simp]:
  "w_kv (snd (extM m w)) = w_kv w" "w_trees (snd (extM m w)) = w_trees w"
  by (simp_all add: extM_def split: prod.splits)

section \<open>Accounts\<close>

definition ensureAccountExists :: "('x, 'h) env \<Rightarrow> bytes \<Rightarrow> (('x, 'h) world, unit) M" where
  "ensureAccountExists E addr =
     (case accountKeeper E of
        None \<Rightarrow> throwM ErrInvalidField
      | Some ak \<Rightarrow>
          bindM (getM w_ext) (\<lambda>x.
          if GetAccount ak x addr = None then extM (modifyM (SetNewAccount ak addr))
          else returnM ()))"

lemma ensureAccountExists_kv: "w_kv (snd (ensureAccountExists E a w)) = w_kv w"
  by (auto simp: ensureAccountExists_def bindM_def getM_def throwM_def returnM_def split: option.splits)

section \<open>Staking lookups\<close>

definition IsValidator :: "('x, 'h) env \<Rightarrow> 'x \<Rightarrow> gostring \<Rightarrow> bool res" where
  "IsValidator E x address =
     (case ValAddressFromBech32 (envLib E) address of
        None \<Rightarrow> Inr False
      | Some valAddr \<Rightarrow>
          (case stakingKeeper E of
             None \<Rightarrow> Inl GoPanic
           | Some sk \<Rightarrow>
               (case GetValidator sk x valAddr of
                  Inl _ \<Rightarrow> Inr False
                | Inr val \<Rightarrow> Inr (val_status val = Bonded))))"

definition getActiveCeremonyValidator :: "('x, 'h) env \<Rightarrow> 'x \<Rightarrow> gostring \<Rightarrow> Validator res" where
  "getActiveCeremonyValidator E x valoperAddr =
     (case stakingKeeper E of
        None \<Rightarrow> Inl ErrOther
      | Some sk \<Rightarrow>
          (case ValAddressFromBech32 (envLib E) valoperAddr of
             None \<Rightarrow> Inl ErrOther
           | Some valAddr \<Rightarrow>
               bindR (GetValidator sk x valAddr) (\<lambda>val.
               failIfR (val_status val \<noteq> Bonded \<or> val_jailed val) ErrOther (
               Inr val))))"

definition IsActiveCeremonyValidator :: "('x, 'h) env \<Rightarrow> 'x \<Rightarrow> gostring \<Rightarrow> bool" where
  "IsActiveCeremonyValidator E x valAddr =
     (case getActiveCeremonyValidator E x valAddr of Inl _ \<Rightarrow> False | Inr _ \<Rightarrow> True)"

text \<open>
  \<^verbatim>\<open>ValidateProposerIsCreator\<close>: a message only a block proposer may inject is refused in
  \<^verbatim>\<open>CheckTx\<close> and \<^verbatim>\<open>ReCheckTx\<close>, and must come from the validator whose consensus
  address is the block's proposer.
\<close>

definition ValidateProposerIsCreator ::
  "('x, 'h) env \<Rightarrow> 'x \<Rightarrow> ctx \<Rightarrow> gostring \<Rightarrow> unit res" where
  "ValidateProposerIsCreator E x c creatorAddr =
     failIfR (is_check_tx c \<or> is_recheck_tx c) ErrInvalidField (
     (case stakingKeeper E of
        None \<Rightarrow> Inl GoPanic
      | Some sk \<Rightarrow>
          bindR (wrapErr ErrInvalidField (GetValidatorByConsAddr sk x (proposer_address c))) (\<lambda>val.
          failIfR (val_operator val \<noteq> creatorAddr) ErrInvalidField (
          Inr ()))))"

text \<open>The block's proposer, as the staking module resolves it.\<close>

definition isProposer :: "('x, 'h) env \<Rightarrow> 'x \<Rightarrow> ctx \<Rightarrow> gostring \<Rightarrow> bool" where
  "isProposer E x c a \<longleftrightarrow> (\<exists>sk val. stakingKeeper E = Some sk \<and>
     GetValidatorByConsAddr sk x (proposer_address c) = Inr val \<and> val_operator val = a)"

lemma ValidateProposerIsCreator_Inr_iff:
  "ValidateProposerIsCreator E x c a = Inr u \<longleftrightarrow>
     \<not> is_check_tx c \<and> \<not> is_recheck_tx c \<and> isProposer E x c a"
  by (auto simp: ValidateProposerIsCreator_def isProposer_def bindR_Inr_iff split: option.splits)

end
