(* ===== verification/Keeper_Registry.thy ===== *)
theory Keeper_Registry
  imports Vote_World
begin

text \<open>
  The keeper's registries: vote managers (\<^verbatim>\<open>src/x/vote/keeper/keeper_vote_managers.go\<close>),
  coordinator actions (\<^verbatim>\<open>keeper_coordinator_actions.go\<close>), endorsers
  (\<^verbatim>\<open>keeper_endorsers.go\<close>) and validators' Pallas keys with their reverse index
  (\<^verbatim>\<open>keeper_pallas_registry.go\<close>). The invariant \<open>pallas_ok\<close> says the forward and the
  reverse index describe the same one-to-one assignment of keys to validators.
\<close>

section \<open>Vote managers\<close>

definition GetVoteManagers :: "(vkv, VoteManagerSet option) M" where
  "GetVoteManagers =
     bindM (kvGetAs decodeVoteManagerSet VoteManagerSetKey) (\<lambda>bz. case bz of
        None \<Rightarrow> returnM None
      | Some st \<Rightarrow> returnM (Some (st\<lparr>vm_threshold := NormalizeVoteManagerThreshold (vm_threshold st)\<rparr>)))"

definition SetVoteManagers :: "lib \<Rightarrow> VoteManagerSet \<Rightarrow> (vkv, unit) M" where
  "SetVoteManagers L st =
     bindM (liftR (ValidateAndNormalizeVoteManagerPolicy L (vm_addresses st) (vm_threshold st)))
       (\<lambda>(normalized, thr).
     kvSet VoteManagerSetKey (VVoteManagerSet \<lparr>vm_addresses = normalized, vm_threshold = thr\<rparr>))"

definition IsVoteManager :: "lib \<Rightarrow> gostring \<Rightarrow> (vkv, bool) M" where
  "IsVoteManager L addr =
     bindM GetVoteManagers (\<lambda>st. case st of
        None \<Rightarrow> returnM False
      | Some vm \<Rightarrow>
          (case canonicalAddr L addr of
             None \<Rightarrow> returnM False
           | Some normalized \<Rightarrow> returnM (normalized \<in> set (vm_addresses vm))))"

definition ValidateVoteManagerApprover :: "lib \<Rightarrow> gostring \<Rightarrow> (vkv, gostring) M" where
  "ValidateVoteManagerApprover L creatorAddr =
     bindM GetVoteManagers (\<lambda>st. case st of
        None \<Rightarrow> throwM ErrNoVoteManagers
      | Some vm \<Rightarrow>
          failIf (length (vm_addresses vm) = 0) ErrNoVoteManagers (
          (case canonicalAddr L creatorAddr of
             None \<Rightarrow> throwM ErrNotAuthorized
           | Some normalized \<Rightarrow>
               if normalized \<in> set (vm_addresses vm) then returnM normalized
               else throwM ErrNotAuthorized)))"

definition ValidateVoteManagerOnly :: "lib \<Rightarrow> gostring \<Rightarrow> (vkv, unit) M" where
  "ValidateVoteManagerOnly L creatorAddr = bindM (ValidateVoteManagerApprover L creatorAddr) (\<lambda>_. returnM ())"

section \<open>Coordinator actions\<close>

definition GetNextCoordinatorActionID :: "(vkv, u64) M" where
  "GetNextCoordinatorActionID =
     bindM (kvGetAs decodeBytes NextCoordinatorActionIDKey) (\<lambda>bz. case bz of
        None \<Rightarrow> returnM 1
      | Some b \<Rightarrow>
          failIf (length b \<noteq> 8) ErrInvalidCoordinatorAction (
          (case getUint64BE b of None \<Rightarrow> throwM GoPanic | Some n \<Rightarrow> returnM n)))"

definition SetNextCoordinatorActionID :: "u64 \<Rightarrow> (vkv, unit) M" where
  "SetNextCoordinatorActionID actionID =
     failIf (actionID = 0) ErrInvalidCoordinatorAction (
     kvSet NextCoordinatorActionIDKey (VBytes (putUint64BE actionID)))"

definition AllocateCoordinatorActionID :: "(vkv, u64) M" where
  "AllocateCoordinatorActionID =
     bindM GetNextCoordinatorActionID (\<lambda>actionID.
     thenM (SetNextCoordinatorActionID (actionID + 1)) (
     returnM actionID))"

definition GetCoordinatorAction :: "u64 \<Rightarrow> (vkv, CoordinatorAction) M" where
  "GetCoordinatorAction actionID =
     failIf (actionID = 0) ErrInvalidCoordinatorAction (
     bindM (kvGetAs decodeAction (CoordinatorActionKey actionID)) (\<lambda>bz. case bz of
        None \<Rightarrow> throwM ErrCoordinatorActionNotFound
      | Some a \<Rightarrow> returnM a))"

definition SetCoordinatorAction :: "CoordinatorAction \<Rightarrow> (vkv, unit) M" where
  "SetCoordinatorAction action =
     failIf (action_id action = 0) ErrInvalidCoordinatorAction (
     kvSet (CoordinatorActionKey (action_id action)) (VCoordinatorAction action))"

definition IterateCoordinatorActions ::
  "(CoordinatorAction \<Rightarrow> 'a \<Rightarrow> bool \<times> 'a) \<Rightarrow> 'a \<Rightarrow> (vkv, 'a) M" where
  "IterateCoordinatorActions cb acc =
     bindM (kvScan CoordinatorActionPrefix) (\<lambda>es.
     liftR (iterLoop decodeAction (\<lambda>_. True) cb acc es))"

definition IteratePendingCoordinatorActions ::
  "(CoordinatorAction \<Rightarrow> 'a \<Rightarrow> bool \<times> 'a) \<Rightarrow> 'a \<Rightarrow> (vkv, 'a) M" where
  "IteratePendingCoordinatorActions cb acc =
     IterateCoordinatorActions (\<lambda>action a.
       if action_status action \<noteq> COORDINATOR_ACTION_STATUS_PENDING then (False, a)
       else cb action a) acc"

section \<open>Endorsers\<close>

definition GetEndorser :: "gostring \<Rightarrow> (vkv, gostring option) M" where
  "GetEndorser endorserID =
     bindM (liftR (EndorserAddressKey endorserID)) (\<lambda>key. kvGetAs decodeBytes key)"

definition SetEndorser :: "gostring \<Rightarrow> gostring \<Rightarrow> (vkv, unit) M" where
  "SetEndorser endorserID address =
     bindM (liftR (EndorserAddressKey endorserID)) (\<lambda>key.
     failIf (address = []) ErrInvalidField (
     kvSet key (VBytes address)))"

definition DeleteEndorser :: "gostring \<Rightarrow> (vkv, unit) M" where
  "DeleteEndorser endorserID =
     bindM (liftR (EndorserAddressKey endorserID)) (\<lambda>key. kvDelete key)"

record Endorser =
  end_endorser_id :: gostring
  end_address :: gostring

fun endorserLoop :: "nat \<Rightarrow> (Endorser \<Rightarrow> 'a \<Rightarrow> bool \<times> 'a) \<Rightarrow> 'a \<Rightarrow> (bytes \<times> kvval) list \<Rightarrow> 'a res" where
  "endorserLoop prefixLen cb acc [] = Inr acc"
| "endorserLoop prefixLen cb acc ((key, v) # es) =
     (if length key < prefixLen then endorserLoop prefixLen cb acc es
      else bindR (decodeBytes v) (\<lambda>b.
        case cb \<lparr>end_endorser_id = drop prefixLen key, end_address = b\<rparr> acc of (stop, acc') \<Rightarrow>
          if stop then Inr acc' else endorserLoop prefixLen cb acc' es))"

definition IterateEndorsers :: "(Endorser \<Rightarrow> 'a \<Rightarrow> bool \<times> 'a) \<Rightarrow> 'a \<Rightarrow> (vkv, 'a) M" where
  "IterateEndorsers cb acc =
     bindM (kvScan EndorserAddressPrefix) (\<lambda>es.
     liftR (endorserLoop (length EndorserAddressPrefix) cb acc es))"

definition AddEndorsedRound :: "gostring \<Rightarrow> bytes \<Rightarrow> (vkv, unit) M" where
  "AddEndorsedRound endorserID roundID =
     bindM (liftR (EndorsedRoundKey endorserID roundID)) (\<lambda>key. kvSet key (VBytes [1]))"

definition DeleteEndorsedRound :: "gostring \<Rightarrow> bytes \<Rightarrow> (vkv, unit) M" where
  "DeleteEndorsedRound endorserID roundID =
     bindM (liftR (EndorsedRoundKey endorserID roundID)) (\<lambda>key. kvDelete key)"

definition IsRoundEndorsed :: "gostring \<Rightarrow> bytes \<Rightarrow> (vkv, bool) M" where
  "IsRoundEndorsed endorserID roundID =
     bindM (liftR (EndorsedRoundKey endorserID roundID)) (\<lambda>key.
     bindM (kvGet key) (\<lambda>bz. returnM (bz \<noteq> None)))"

fun endorsedRoundLoop :: "nat \<Rightarrow> (bytes \<Rightarrow> 'a \<Rightarrow> bool \<times> 'a) \<Rightarrow> 'a \<Rightarrow> (bytes \<times> kvval) list \<Rightarrow> 'a" where
  "endorsedRoundLoop prefixLen cb acc [] = acc"
| "endorsedRoundLoop prefixLen cb acc ((key, _) # es) =
     (if length key \<noteq> prefixLen + RoundIDLen then endorsedRoundLoop prefixLen cb acc es
      else (case cb (drop prefixLen key) acc of (stop, acc') \<Rightarrow>
              if stop then acc' else endorsedRoundLoop prefixLen cb acc' es))"

definition IterateEndorsedRounds ::
  "gostring \<Rightarrow> (bytes \<Rightarrow> 'a \<Rightarrow> bool \<times> 'a) \<Rightarrow> 'a \<Rightarrow> (vkv, 'a) M" where
  "IterateEndorsedRounds endorserID cb acc =
     bindM (liftR (EndorsedRoundPrefixForID endorserID)) (\<lambda>pre.
     bindM (kvScan pre) (\<lambda>es. returnM (endorsedRoundLoop (length pre) cb acc es)))"

section \<open>Pallas keys\<close>

definition GetPallasKey :: "gostring \<Rightarrow> (vkv, ValidatorPallasKey option) M" where
  "GetPallasKey valoperAddr = kvGetAs decodePallasKey (PallasKeyKey valoperAddr)"

definition SetPallasKey :: "ValidatorPallasKey \<Rightarrow> (vkv, unit) M" where
  "SetPallasKey vpk =
     thenM (kvSet (PallasKeyKey (vpk_validator_address vpk)) (VPallasKey vpk)) (
     kvSet (PallasKeyReverseLookupKey (vpk_pallas_pk vpk)) (VBytes (vpk_validator_address vpk)))"

definition GetPallasKeyOwner :: "bytes \<Rightarrow> (vkv, gostring) M" where
  "GetPallasKeyOwner pallasPk =
     bindM (kvGetAs decodeBytes (PallasKeyReverseLookupKey pallasPk)) (\<lambda>bz. returnM (nilBytes bz))"

definition HasPallasKey :: "gostring \<Rightarrow> (vkv, bool) M" where
  "HasPallasKey valoperAddr = kvHas (PallasKeyKey valoperAddr)"

definition IterateAllPallasKeys ::
  "(ValidatorPallasKey \<Rightarrow> 'a \<Rightarrow> bool \<times> 'a) \<Rightarrow> 'a \<Rightarrow> (vkv, 'a) M" where
  "IterateAllPallasKeys cb acc =
     bindM (kvScan PallasKeyPrefix) (\<lambda>es.
     liftR (iterLoop decodePallasKey (\<lambda>_. True) cb acc es))"

definition RegisterPallasKeyCore :: "gostring \<Rightarrow> bytes \<Rightarrow> (vkv, unit) M" where
  "RegisterPallasKeyCore valAddr pallasPk =
     bindM (HasPallasKey valAddr) (\<lambda>has.
     failIf has ErrDuplicateRegistration (
     bindM (GetPallasKeyOwner pallasPk) (\<lambda>owner.
     failIf (owner \<noteq> []) ErrDuplicatePallasKey (
     SetPallasKey \<lparr>vpk_validator_address = valAddr, vpk_pallas_pk = pallasPk, vpk_shamir_index = 0\<rparr>))))"

definition DeletePallasKeyReverse :: "bytes \<Rightarrow> (vkv, unit) M" where
  "DeletePallasKeyReverse pallasPk = kvDelete (PallasKeyReverseLookupKey pallasPk)"

definition RotatePallasKeyCore :: "gostring \<Rightarrow> bytes \<Rightarrow> (vkv, bytes) M" where
  "RotatePallasKeyCore valAddr newPallasPk =
     bindM (GetPallasKey valAddr) (\<lambda>ex. case ex of
        None \<Rightarrow> throwM ErrNoPallasKey
      | Some existing \<Rightarrow>
          failIf (vpk_pallas_pk existing = newPallasPk) ErrSameKey (
          bindM (GetPallasKeyOwner newPallasPk) (\<lambda>owner.
          failIf (owner \<noteq> []) ErrDuplicatePallasKey (
          thenM (DeletePallasKeyReverse (vpk_pallas_pk existing)) (
          thenM (SetPallasKey \<lparr>vpk_validator_address = valAddr, vpk_pallas_pk = newPallasPk,
            vpk_shamir_index = 0\<rparr>) (
          returnM (vpk_pallas_pk existing)))))))"

definition GetEligibleValidators :: "('x, 'h) env \<Rightarrow> 'x \<Rightarrow> (vkv, ValidatorPallasKey list) M" where
  "GetEligibleValidators E x =
     IterateAllPallasKeys (\<lambda>vpk eligible.
       (case getActiveCeremonyValidator E x (vpk_validator_address vpk) of
          Inl _ \<Rightarrow> (False, eligible)
        | Inr _ \<Rightarrow> (False, eligible @ [vpk]))) []"

section \<open>The Pallas registry is one-to-one\<close>

definition keyOf :: "vkv \<Rightarrow> gostring \<Rightarrow> ValidatorPallasKey option" where
  "keyOf s a = view decodePallasKey s (0x0C # a)"

definition ownerOf :: "vkv \<Rightarrow> bytes \<Rightarrow> gostring option" where
  "ownerOf s pk = view decodeBytes s (0x15 # pk)"

definition pallas_ok :: "vkv \<Rightarrow> bool" where
  "pallas_ok s \<longleftrightarrow>
     (\<forall>a v. keyOf s a = Some v \<longrightarrow> a \<noteq> [] \<and> ownerOf s (vpk_pallas_pk v) = Some a) \<and>
     (\<forall>pk a. ownerOf s pk = Some a \<longrightarrow> (\<exists>v. keyOf s a = Some v \<and> vpk_pallas_pk v = pk))"

lemma pallas_ok_Nil [simp]: "pallas_ok []"
  by (simp add: pallas_ok_def keyOf_def ownerOf_def view_def)

lemma pallas_okI:
  assumes "\<And>a v. keyOf s a = Some v \<Longrightarrow> a \<noteq> [] \<and> ownerOf s (vpk_pallas_pk v) = Some a"
    and "\<And>pk a. ownerOf s pk = Some a \<Longrightarrow> \<exists>v. keyOf s a = Some v \<and> vpk_pallas_pk v = pk"
  shows "pallas_ok s"
  using assms by (simp add: pallas_ok_def)

lemma pallas_okD:
  "pallas_ok s \<Longrightarrow> keyOf s a = Some v \<Longrightarrow> a \<noteq> []"
  "pallas_ok s \<Longrightarrow> keyOf s a = Some v \<Longrightarrow> ownerOf s (vpk_pallas_pk v) = Some a"
  "pallas_ok s \<Longrightarrow> ownerOf s pk = Some a \<Longrightarrow> \<exists>v. keyOf s a = Some v \<and> vpk_pallas_pk v = pk"
  by (simp_all add: pallas_ok_def)

lemma pallas_ok_inj:
  "pallas_ok s \<Longrightarrow> keyOf s a = Some u \<Longrightarrow> keyOf s b = Some v \<Longrightarrow>
     vpk_pallas_pk u = vpk_pallas_pk v \<Longrightarrow> a = b"
  using pallas_okD(2)[of s a u] pallas_okD(2)[of s b v] by simp

lemma entry_ok_pallas:
  "entry_ok (0x0C # a) v \<longleftrightarrow> (\<exists>p. v = VPallasKey p \<and> a = vpk_validator_address p)"
  "entry_ok (0x15 # pk) v \<longleftrightarrow> (\<exists>b. v = VBytes b)"
  by (cases v; auto simp: entry_ok_def)+

lemma keyOf_None_iff: "kv_wf s \<Longrightarrow> keyOf s a = None \<longleftrightarrow> \<not> kv_has s (0x0C # a)"
  using kv_wf_get[of s "0x0C # a"]
  by (cases "kv_get s (0x0C # a)") (auto simp: keyOf_def view_def kv_has_iff entry_ok_pallas okOpt_def)

lemma keyOf_wf: "kv_wf s \<Longrightarrow> keyOf s a = Some v \<Longrightarrow> vpk_validator_address v = a"
  using kv_wf_get[of s "0x0C # a" "VPallasKey v"]
  by (auto simp: keyOf_def view_Some_iff entry_ok_pallas)

lemma kvGetAs_wf:
  assumes "\<And>v. kv_get s k = Some v \<Longrightarrow> \<exists>x. dec v = Inr x"
  shows "kvGetAs dec k s = (Inr (view dec s k), s)"
  using assms by (auto simp: kvGetAs_def kvGet_def bindM_def getM_def returnM_def liftR_def view_def
      okOpt_def split: option.splits)

lemma HasPallasKey_wf: "kv_wf s \<Longrightarrow> HasPallasKey a s = (Inr (keyOf s a \<noteq> None), s)"
  by (simp add: HasPallasKey_def kvHas_def getM_def keyOf_None_iff key_simps)

lemma GetPallasKey_wf: "kv_wf s \<Longrightarrow> GetPallasKey a s = (Inr (keyOf s a), s)"
  unfolding GetPallasKey_def keyOf_def key_simps append_Cons append_Nil
  using kv_wf_get[of s "0x0C # a"] by (intro kvGetAs_wf) (auto simp: entry_ok_pallas)

lemma GetPallasKeyOwner_wf: "kv_wf s \<Longrightarrow> GetPallasKeyOwner pk s = (Inr (nilBytes (ownerOf s pk)), s)"
  unfolding GetPallasKeyOwner_def ownerOf_def key_simps append_Cons append_Nil
  using kvGetAs_wf[of s "0x15 # pk" decodeBytes] kv_wf_get[of s "0x15 # pk"]
  by (simp add: bindM_def returnM_def entry_ok_pallas)

lemma owner_nonempty: "pallas_ok s \<Longrightarrow> nilBytes (ownerOf s pk) = [] \<longleftrightarrow> ownerOf s pk = None"
  using pallas_okD(1,3) by (cases "ownerOf s pk") (fastforce simp: nilBytes_def)+

definition newPallasKey :: "gostring \<Rightarrow> bytes \<Rightarrow> ValidatorPallasKey" where
  "newPallasKey a pk = \<lparr>vpk_validator_address = a, vpk_pallas_pk = pk, vpk_shamir_index = 0\<rparr>"

definition setPallas :: "gostring \<Rightarrow> bytes \<Rightarrow> vkv \<Rightarrow> vkv" where
  "setPallas a pk s = kv_set (0x15 # pk) (VBytes a) (kv_set (0x0C # a) (VPallasKey (newPallasKey a pk)) s)"

lemma setPallas_views:
  "keyOf (setPallas a pk s) = (keyOf s)(a \<mapsto> newPallasKey a pk)"
  "ownerOf (setPallas a pk s) = (ownerOf s)(pk \<mapsto> a)"
  "kv_wf s \<Longrightarrow> kv_wf (setPallas a pk s)"
  "hd k \<noteq> 0x0C \<Longrightarrow> hd k \<noteq> 0x15 \<Longrightarrow> kv_get (setPallas a pk s) k = kv_get s k"
  by (auto simp: keyOf_def ownerOf_def setPallas_def view_set okOpt_def fun_eq_iff kv_wf_set
      entry_ok_pallas newPallasKey_def get_simps)

lemma deleteReverse_views:
  "keyOf (kv_delete (0x15 # pk) s) = keyOf s"
  "ownerOf (kv_delete (0x15 # pk) s) = (ownerOf s)(pk := None)"
  by (auto simp: keyOf_def ownerOf_def view_delete fun_eq_iff)

lemma RegisterPallasKeyCore_wf:
  assumes "kv_wf s" and "pallas_ok s"
  shows "RegisterPallasKeyCore a pk s =
    (if keyOf s a \<noteq> None then (Inl ErrDuplicateRegistration, s)
     else if ownerOf s pk \<noteq> None then (Inl ErrDuplicatePallasKey, s)
     else (Inr (), setPallas a pk s))"
  by (simp add: RegisterPallasKeyCore_def HasPallasKey_wf[OF assms(1)]
      GetPallasKeyOwner_wf[OF assms(1)] owner_nonempty[OF assms(2)] failIf_def
      throwM_def SetPallasKey_def thenM_def bindM_def kvSet_def modifyM_def key_simps setPallas_def
      newPallasKey_def)

lemma RotatePallasKeyCore_wf:
  assumes "kv_wf s" and "pallas_ok s"
  shows "RotatePallasKeyCore a pk s = (case keyOf s a of
      None \<Rightarrow> (Inl ErrNoPallasKey, s)
    | Some old \<Rightarrow>
        if vpk_pallas_pk old = pk then (Inl ErrSameKey, s)
        else if ownerOf s pk \<noteq> None then (Inl ErrDuplicatePallasKey, s)
        else (Inr (vpk_pallas_pk old), setPallas a pk (kv_delete (0x15 # vpk_pallas_pk old) s)))"
  by (simp add: RotatePallasKeyCore_def GetPallasKey_wf[OF assms(1)]
      GetPallasKeyOwner_wf[OF assms(1)] owner_nonempty[OF assms(2)] failIf_def
      throwM_def SetPallasKey_def DeletePallasKeyReverse_def kvDelete_def thenM_def bindM_def kvSet_def
      modifyM_def key_simps setPallas_def newPallasKey_def returnM_def split: option.split)

lemma pallas_ok_register:
  assumes "pallas_ok s" "keyOf s a = None" "ownerOf s pk = None" "a \<noteq> []"
  shows "pallas_ok (setPallas a pk s)"
proof (rule pallas_okI, unfold setPallas_views)
  fix b v assume "((keyOf s)(a \<mapsto> newPallasKey a pk)) b = Some v"
  then show "b \<noteq> [] \<and> ((ownerOf s)(pk \<mapsto> a)) (vpk_pallas_pk v) = Some b"
    using assms pallas_okD(1,2)[OF assms(1), of b v]
    by (cases "b = a") (auto simp: newPallasKey_def)
next
  fix q b assume "((ownerOf s)(pk \<mapsto> a)) q = Some b"
  then show "\<exists>v. ((keyOf s)(a \<mapsto> newPallasKey a pk)) b = Some v \<and> vpk_pallas_pk v = q"
    using assms pallas_okD(3)[OF assms(1), of q b]
    by (cases "q = pk") (auto simp: newPallasKey_def)
qed

lemma pallas_ok_rotate:
  assumes "pallas_ok s" "keyOf s a = Some old" "ownerOf s pk = None"
  shows "pallas_ok (setPallas a pk (kv_delete (0x15 # vpk_pallas_pk old) s))"
proof (rule pallas_okI, unfold setPallas_views deleteReverse_views)
  fix b v assume "((keyOf s)(a \<mapsto> newPallasKey a pk)) b = Some v"
  then show "b \<noteq> [] \<and> ((ownerOf s)(vpk_pallas_pk old := None, pk \<mapsto> a)) (vpk_pallas_pk v) = Some b"
  proof (cases "b = a")
    case True
    then show ?thesis
      using \<open>((keyOf s)(a \<mapsto> newPallasKey a pk)) b = Some v\<close> pallas_okD(1)[OF assms(1,2)]
      by (auto simp: newPallasKey_def)
  next
    case False
    then have b: "keyOf s b = Some v" using \<open>((keyOf s)(a \<mapsto> newPallasKey a pk)) b = Some v\<close> by simp
    have "vpk_pallas_pk v \<noteq> vpk_pallas_pk old" "vpk_pallas_pk v \<noteq> pk"
      using pallas_ok_inj[OF assms(1) b assms(2)] False pallas_okD(2)[OF assms(1) b] assms(3) by auto
    then show ?thesis using pallas_okD(1,2)[OF assms(1) b] by simp
  qed
next
  fix q b assume *: "((ownerOf s)(vpk_pallas_pk old := None, pk \<mapsto> a)) q = Some b"
  show "\<exists>v. ((keyOf s)(a \<mapsto> newPallasKey a pk)) b = Some v \<and> vpk_pallas_pk v = q"
  proof (cases "q = pk")
    case True
    then show ?thesis using * by (auto simp: newPallasKey_def)
  next
    case False
    then have "ownerOf s q = Some b" "q \<noteq> vpk_pallas_pk old" using * by (auto split: if_splits)
    then show ?thesis using pallas_okD(3)[OF assms(1), of q b] assms(2) by auto
  qed
qed



section \<open>The validators eligible for a ceremony\<close>

definition pallasKeysOf :: "vkv \<Rightarrow> ValidatorPallasKey list" where
  "pallasKeysOf s = decoded decodePallasKey (kv_scan PallasKeyPrefix s)"

lemma pallas_scan_wf:
  assumes "kv_wf s" and "(k, v) \<in> set (kv_scan PallasKeyPrefix s)"
  shows "\<exists>p. v = VPallasKey p \<and> k = 0x0C # vpk_validator_address p"
proof -
  from assms have g: "kv_get s k = Some v" and "prefix PallasKeyPrefix k"
    by (simp_all add: kv_scan_iff[OF kv_wf_ok])
  then obtain a where "k = 0x0C # a" by (auto simp: key_simps prefix_def)
  with kv_wf_get[OF assms(1) g] show ?thesis by (auto simp: entry_ok_pallas)
qed

lemma mem_pallasKeysOf_iff:
  assumes "kv_wf s"
  shows "p \<in> set (pallasKeysOf s) \<longleftrightarrow> keyOf s (vpk_validator_address p) = Some p"
proof -
  have "p \<in> set (pallasKeysOf s) \<longleftrightarrow> (\<exists>a. kv_get s (0x0C # a) = Some (VPallasKey p))"
    by (auto simp: pallasKeysOf_def mem_decoded_iff kv_scan_iff[OF kv_wf_ok[OF assms]] key_simps prefix_def)
  also have "\<dots> \<longleftrightarrow> kv_get s (0x0C # vpk_validator_address p) = Some (VPallasKey p)"
    using kv_wf_get[OF assms, of "0x0C # _" "VPallasKey p"] by (auto simp: entry_ok_pallas)
  finally show ?thesis by (simp add: keyOf_def view_Some_iff)
qed

lemma decoded_pallas_keys:
  "(\<And>k v. (k, v) \<in> set es \<Longrightarrow> \<exists>p. v = VPallasKey p \<and> k = 0x0C # vpk_validator_address p) \<Longrightarrow>
     map fst es = map (\<lambda>p. 0x0C # vpk_validator_address p) (decoded decodePallasKey es)"
proof (induction es)
  case Nil
  then show ?case by simp
next
  case (Cons e es)
  obtain p where "snd e = VPallasKey p" "fst e = 0x0C # vpk_validator_address p"
    using Cons.prems[of "fst e" "snd e"] by auto
  moreover have "map fst es = map (\<lambda>p. 0x0C # vpk_validator_address p) (decoded decodePallasKey es)"
    using Cons.IH Cons.prems by (meson list.set_intros(2))
  ultimately show ?case by simp
qed

lemma pallasKeysOf_distinct:
  assumes "kv_wf s"
  shows "distinct (map vpk_validator_address (pallasKeysOf s))"
proof -
  have "map fst (kv_scan PallasKeyPrefix s) = map (\<lambda>p. 0x0C # vpk_validator_address p) (pallasKeysOf s)"
    unfolding pallasKeysOf_def by (rule decoded_pallas_keys) (rule pallas_scan_wf[OF assms])
  then have "distinct (map (\<lambda>p. 0x0C # vpk_validator_address p) (pallasKeysOf s))"
    using kv_scan_distinct[OF kv_wf_ok[OF assms], of PallasKeyPrefix] by simp
  then show ?thesis by (simp add: distinct_map inj_on_def)
qed

lemma foldUntil_collect:
  "foldUntil (\<lambda>x acc. (False, if P x then acc @ [x] else acc)) acc xs = acc @ filter P xs"
  by (induction xs arbitrary: acc) auto

lemma GetEligibleValidators_wf:
  assumes "kv_wf s"
  shows "GetEligibleValidators E x s =
    (Inr (filter (\<lambda>p. IsActiveCeremonyValidator E x (vpk_validator_address p)) (pallasKeysOf s)), s)"
proof -
  let ?cb = "\<lambda>vpk eligible. (case getActiveCeremonyValidator E x (vpk_validator_address vpk) of
      Inl _ \<Rightarrow> (False, eligible) | Inr _ \<Rightarrow> (False, eligible @ [vpk]))"
  have cb: "?cb = (\<lambda>p acc. (False, if IsActiveCeremonyValidator E x (vpk_validator_address p)
      then acc @ [p] else acc))"
    by (intro ext) (simp add: IsActiveCeremonyValidator_def split: sum.splits)
  have "iterLoop decodePallasKey (\<lambda>_. True) ?cb [] (kv_scan PallasKeyPrefix s) =
      Inr (foldUntil ?cb [] (filter (\<lambda>_. True) (pallasKeysOf s)))"
    unfolding pallasKeysOf_def by (rule iterLoop_decoded) (use pallas_scan_wf[OF assms] in fastforce)
  then show ?thesis
    unfolding GetEligibleValidators_def IterateAllPallasKeys_def
    by (simp add: cb foldUntil_collect kvScan_def bindM_def getM_def liftR_def)
qed

section \<open>Vote managers and actions\<close>

definition managersOf :: "vkv \<Rightarrow> VoteManagerSet option" where
  "managersOf s = view decodeVoteManagerSet s VoteManagerSetKey"

definition actionOf :: "vkv \<Rightarrow> u64 \<Rightarrow> CoordinatorAction option" where
  "actionOf s n = view decodeAction s (CoordinatorActionKey n)"

lemma GetVoteManagers_Inr_iff:
  "GetVoteManagers s = (Inr r, s') \<longleftrightarrow> s' = s \<and>
     (case kv_get s VoteManagerSetKey of None \<Rightarrow> r = None
      | Some v \<Rightarrow> (\<exists>m. v = VVoteManagerSet m \<and>
          r = Some (m\<lparr>vm_threshold := NormalizeVoteManagerThreshold (vm_threshold m)\<rparr>)))"
  by (auto simp: GetVoteManagers_def succ_iffs kvGetAs_Inr_iff split: option.splits)

lemma GetVoteManagers_Some_iff:
  "GetVoteManagers s = (Inr (Some m), s') \<longleftrightarrow> s' = s \<and>
     (\<exists>m0. managersOf s = Some m0 \<and>
        m = m0\<lparr>vm_threshold := NormalizeVoteManagerThreshold (vm_threshold m0)\<rparr>)"
  by (auto simp: GetVoteManagers_Inr_iff managersOf_def view_Some_iff split: option.splits)

lemma ValidateVoteManagerApprover_Inr_iff:
  "ValidateVoteManagerApprover L a s = (Inr b, s') \<longleftrightarrow> s' = s \<and> canonicalAddr L a = Some b \<and>
     (\<exists>m. managersOf s = Some m \<and> b \<in> set (vm_addresses m))"
proof -
  have "ValidateVoteManagerApprover L a s = (Inr b, s') \<longleftrightarrow>
    (\<exists>st t. GetVoteManagers s = (Inr st, t) \<and> (\<exists>m. st = Some m \<and> canonicalAddr L a = Some b \<and>
       b \<in> set (vm_addresses m) \<and> s' = t))"
    unfolding ValidateVoteManagerApprover_def bindM_Inr_iff
    by (intro ex_cong1 conj_cong refl) (auto simp: succ_iffs split: option.splits if_splits)
  also have "\<dots> \<longleftrightarrow> (\<exists>m t. GetVoteManagers s = (Inr (Some m), t) \<and> canonicalAddr L a = Some b \<and>
       b \<in> set (vm_addresses m) \<and> s' = t)" by blast
  finally show ?thesis by (auto simp: GetVoteManagers_Some_iff)
qed

lemma GetCoordinatorAction_Inr_iff:
  "GetCoordinatorAction n s = (Inr a, s') \<longleftrightarrow> s' = s \<and> n \<noteq> 0 \<and> actionOf s n = Some a"
proof (cases "kv_get s (CoordinatorActionKey n)")
  case None
  then show ?thesis
    by (auto simp: GetCoordinatorAction_def succ_iffs kvGetAs_Inr_iff actionOf_def view_def)
next
  case (Some v)
  then show ?thesis
    by (auto simp: GetCoordinatorAction_def succ_iffs kvGetAs_Inr_iff actionOf_def view_def)
qed

lemma SetCoordinatorAction_Inr_iff:
  "SetCoordinatorAction a s = (Inr u, s') \<longleftrightarrow> action_id a \<noteq> 0 \<and>
     s' = kv_set (CoordinatorActionKey (action_id a)) (VCoordinatorAction a) s"
  by (auto simp: SetCoordinatorAction_def succ_iffs kvSet_def)

lemma actionOf_set_action:
  "actionOf (kv_set (CoordinatorActionKey n) (VCoordinatorAction a) s) = (actionOf s)(n \<mapsto> a)"
  by (rule ext) (auto simp: actionOf_def view_set okOpt_def key_simps)

lemma entry_ok_action: "entry_ok (CoordinatorActionKey (action_id a)) (VCoordinatorAction a)"
  by (simp add: entry_ok_def key_simps)

lemma AllocateCoordinatorActionID_Inr:
  assumes "AllocateCoordinatorActionID s = (Inr n, s')"
  shows "s' = kv_set NextCoordinatorActionIDKey (VBytes (putUint64BE (n + 1))) s \<and> n + 1 \<noteq> 0"
proof -
  from assms obtain t where "GetNextCoordinatorActionID s = (Inr n, t)"
    and set: "SetNextCoordinatorActionID (n + 1) t = (Inr (), s')"
    by (auto simp: AllocateCoordinatorActionID_def succ_iffs)
  then have "t = s"
    by (auto simp: GetNextCoordinatorActionID_def succ_iffs kvGetAs_Inr_iff split: option.splits)
  with set show ?thesis by (auto simp: SetNextCoordinatorActionID_def succ_iffs kvSet_def)
qed

end
