(* ===== verification/Msg_Voting.thy ===== *)
theory Msg_Voting
  imports Keeper_Registry
begin

text \<open>
  The handlers of voters' messages: delegation, single votes, batches and the combined
  delegate-and-cast batch of \<^verbatim>\<open>src/x/vote/keeper/msg_server.go\<close>, and share reveals of
  \<^verbatim>\<open>msg_server_tally_decrypt.go\<close>. A handler is its sequence of checks and writes on the
  store; the events it emits are not part of the state. The theorems say what a successful
  message leaves behind: which nullifiers it spends, which leaves it appends and in which
  order, and which accumulator it changes.
\<close>

section \<open>The handlers\<close>

definition DelegateVote :: "MsgDelegateVote \<Rightarrow> (vkv, unit) M" where
  "DelegateVote msg =
     thenM (forM (md_gov_nullifiers msg) (\<lambda>nf.
       CheckAndSetNullifier NullifierTypeGov (md_vote_round_id msg) nf)) (
     bindM (AppendCommitment (md_vote_round_id msg) (md_van_cmx msg)) (\<lambda>vanCmxIdx.
     returnM ()))"

definition CastVote :: "MsgCastVote \<Rightarrow> (vkv, unit) M" where
  "CastVote msg =
     thenM (ValidateProposalId (mv_vote_round_id msg) (mv_proposal_id msg)) (
     bindM (GetCommitmentRootAtHeight (mv_vote_round_id msg) (mv_anchor_height msg)) (\<lambda>root.
     failIf (root = None) ErrInvalidAnchorHeight (
     thenM (CheckAndSetNullifier NullifierTypeVoteAuthorityNote (mv_vote_round_id msg)
       (mv_van_nullifier msg)) (
     bindM (AppendCommitment (mv_vote_round_id msg) (mv_vote_authority_note_new msg)) (\<lambda>vanIdx.
     bindM (AppendCommitment (mv_vote_round_id msg) (mv_vote_commitment msg)) (\<lambda>vcIdx.
     returnM ()))))))"

definition CastVoteBatch :: "lib \<Rightarrow> MsgCastVoteBatch \<Rightarrow> (vkv, bytes) M" where
  "CastVoteBatch L msg =
     bindM (liftR (CastVoteBatch_ValidateBasic msg)) (\<lambda>_.
     (case mb_votes msg of
        [] \<Rightarrow> throwM GoPanic
      | first # _ \<Rightarrow>
          bindM (GetCommitmentRootAtHeight (mv_vote_round_id first) (mv_anchor_height first)) (\<lambda>root.
          failIf (root = None) ErrInvalidAnchorHeight (
          thenM (forM (mb_votes msg) (\<lambda>vote.
            ValidateProposalId (mv_vote_round_id vote) (mv_proposal_id vote))) (
          thenM (CheckNullifiersUnique NullifierTypeVoteAuthorityNote (mv_vote_round_id first)
            (CastVoteBatch_GetNullifiers msg)) (
          thenM (forM (mb_votes msg) (\<lambda>vote.
            SetNullifier NullifierTypeVoteAuthorityNote (mv_vote_round_id first)
              (mv_van_nullifier vote))) (
          bindM (AppendCommitment (mv_vote_round_id first)
            (mv_vote_authority_note_new (last (mb_votes msg)))) (\<lambda>finalVANIndex.
          bindM (mapM (\<lambda>vote. AppendCommitment (mv_vote_round_id first) (mv_vote_commitment vote))
            (mb_votes msg)) (\<lambda>vcIndices.
          returnM (ComputeCastVoteBatchSighash L msg))))))))))"

definition DelegateAndCastVoteBatch :: "lib \<Rightarrow> MsgDelegateAndCastVoteBatch \<Rightarrow> (vkv, bytes) M" where
  "DelegateAndCastVoteBatch L msg =
     bindM (liftR (DelegateAndCastVoteBatch_ValidateBasic msg)) (\<lambda>_.
     (case (mdb_delegation msg, mdb_batch msg) of
        (Some delegation, Some batch) \<Rightarrow>
          let roundID = md_vote_round_id delegation in
          thenM (forM (mb_votes batch) (\<lambda>vote. ValidateProposalId roundID (mv_proposal_id vote))) (
          thenM (CheckNullifiersUnique NullifierTypeGov roundID (md_gov_nullifiers delegation)) (
          thenM (CheckNullifiersUnique NullifierTypeVoteAuthorityNote roundID
            (CastVoteBatch_GetNullifiers batch)) (
          thenM (forM (md_gov_nullifiers delegation) (\<lambda>nf. SetNullifier NullifierTypeGov roundID nf)) (
          thenM (forM (mb_votes batch) (\<lambda>vote.
            SetNullifier NullifierTypeVoteAuthorityNote roundID (mv_van_nullifier vote))) (
          bindM (AppendCommitment roundID (mv_vote_authority_note_new (last (mb_votes batch))))
            (\<lambda>finalVANIndex.
          bindM (mapM (\<lambda>vote. AppendCommitment roundID (mv_vote_commitment vote)) (mb_votes batch))
            (\<lambda>vcIndices.
          returnM (ComputeDelegateAndCastVoteBatchSighash L msg))))))))
      | _ \<Rightarrow> throwM GoPanic))"

definition RevealShare ::
  "('s, 'p::ab_group_add) curve \<Rightarrow> ctx \<Rightarrow> MsgRevealShare \<Rightarrow> (vkv, unit) M" where
  "RevealShare C c msg =
     thenM (ValidateRoundForVoting c (mr_vote_round_id msg)) (
     thenM (ValidateProposalId (mr_vote_round_id msg) (mr_proposal_id msg)) (
     thenM (ValidateVoteDecision (mr_vote_round_id msg) (mr_proposal_id msg) (mr_vote_decision msg)) (
     thenM (CheckAndSetNullifier NullifierTypeShare (mr_vote_round_id msg) (mr_share_nullifier msg)) (
     thenM (AddToTally C (mr_vote_round_id msg) (mr_proposal_id msg) (mr_vote_decision msg)
       (mr_enc_share msg)) (
     IncrementShareCount (mr_vote_round_id msg) (mr_proposal_id msg) (mr_vote_decision msg))))))"

section \<open>Sequences of nullifiers and leaves\<close>

definition nullifierKey :: "NullifierType \<Rightarrow> bytes \<Rightarrow> bytes \<Rightarrow> bytes" where
  "nullifierKey t r n = 0x01 # nullifierTypeByte t # r @ n"

definition setNulls :: "NullifierType \<Rightarrow> bytes \<Rightarrow> bytes list \<Rightarrow> vkv \<Rightarrow> vkv" where
  "setNulls t r ns s = foldl (\<lambda>s n. kv_set (nullifierKey t r n) (VBytes [1]) s) s ns"

definition appendAll :: "bytes \<Rightarrow> bytes list \<Rightarrow> vkv \<Rightarrow> vkv" where
  "appendAll r cs s = foldl (\<lambda>s c. appendStore r c s) s cs"

lemma entry_ok_nullifier: "entry_ok (nullifierKey t r n) (VBytes b)"
  by (simp add: entry_ok_def nullifierKey_def)

lemma setNulls_simps [simp]:
  "setNulls t r [] s = s"
  "setNulls t r (n # ns) s = setNulls t r ns (kv_set (nullifierKey t r n) (VBytes [1]) s)"
  by (simp_all add: setNulls_def)

lemma appendAll_simps [simp]:
  "appendAll r [] s = s" "appendAll r (c # cs) s = appendAll r cs (appendStore r c s)"
  by (simp_all add: appendAll_def)

lemma setNulls_frame:
  "hd k \<noteq> 0x01 \<Longrightarrow> kv_get (setNulls t r ns s) k = kv_get s k"
  by (induction ns arbitrary: s) (auto simp: get_simps nullifierKey_def)

lemma appendAll_frame: "hd k \<noteq> 0x14 \<Longrightarrow> kv_get (appendAll r cs s) k = kv_get s k"
  by (induction cs arbitrary: s) (auto simp: appendStore_get_other)

lemma kv_wf_setNulls: "kv_wf s \<Longrightarrow> kv_wf (setNulls t r ns s)"
  by (induction ns arbitrary: s) (auto simp: kv_wf_set entry_ok_nullifier)

lemma kv_wf_appendAll: "kv_wf s \<Longrightarrow> length r = 32 \<Longrightarrow> kv_wf (appendAll r cs s)"
  by (induction cs arbitrary: s) (auto simp: kv_wf_appendStore)

lemma nullifiersOf_setNulls:
  "length r = 32 \<Longrightarrow> nullifiersOf (setNulls t r ns s) t' r' =
     (if t' = t \<and> r' = r then nullifiersOf s t r \<union> set ns else nullifiersOf s t' r')"
  by (induction ns arbitrary: s) (auto simp: nullifierKey_def nullifiersOf_set_nullifier)

lemma nullifiersOf_cong:
  assumes "\<And>k. hd k = 0x01 \<Longrightarrow> kv_get s k = kv_get s' k"
  shows "nullifiersOf s = nullifiersOf s'"
  by (intro ext set_eqI) (simp add: mem_nullifiersOf_iff kv_has_iff assms)

lemma leavesOf_cong:
  assumes "\<And>k. hd k = 0x14 \<Longrightarrow> kv_get s k = kv_get s' k"
  shows "leavesOf s r = leavesOf s' r" "treeStateOf s r = treeStateOf s' r"
proof -
  show t: "treeStateOf s r = treeStateOf s' r"
    using assms[of "RoundTreeStateKey r"] by (simp add: treeStateOf_def view_def key_simps)
  have "leafOf s r i = leafOf s' r i" for i
    using assms[of "CommitmentLeafKey r i"] by (simp add: leafOf_def view_def key_simps)
  then show "leavesOf s r = leavesOf s' r" by (simp add: leavesOf_def t)
qed

lemma roundOf_cong:
  assumes "\<And>k. hd k = 0x04 \<Longrightarrow> kv_get s k = kv_get s' k"
  shows "roundOf s = roundOf s'"
  by (rule ext) (simp add: roundOf_def view_def assms)

text \<open>Room for \<open>n\<close> more leaves before the 64-bit counter wraps.\<close>

definition room :: "vkv \<Rightarrow> bytes \<Rightarrow> nat \<Rightarrow> bool" where
  "room s r n \<longleftrightarrow> unat (next_index (treeStateOf s r)) + n < 2 ^ 64"

lemma room_Suc:
  assumes "length r = 32" and "room s r (Suc n)"
  shows "next_index (treeStateOf s r) + 1 \<noteq> 0" "room (appendStore r c s) r n"
proof -
  let ?i = "next_index (treeStateOf s r)"
  have "unat ?i + 1 < 2 ^ 64" using assms(2) by (simp add: room_def)
  then show "?i + 1 \<noteq> 0" using unat_add_lem[of ?i 1] by auto
  then show "room (appendStore r c s) r n"
    using assms unat_plus_one[of ?i] by (simp add: room_def treeStateOf_appendStore)
qed

lemma leavesOf_appendAll:
  assumes "length r = 32" and "room s r (length cs)"
  shows "leavesOf (appendAll r cs s) r = leavesOf s r @ map Some cs"
  using assms(2)
proof (induction cs arbitrary: s)
  case Nil
  then show ?case by simp
next
  case (Cons c cs)
  then have "room s r (Suc (length cs))" by simp
  note rs = room_Suc[OF assms(1) this]
  show ?case using Cons.IH[OF rs(2)] leavesOf_appendStore[OF assms(1) rs(1)] by simp
qed

lemma leavesOf_appendAll_other:
  assumes "length r = 32" and "length r' = 32" and "r' \<noteq> r"
  shows "leavesOf (appendAll r cs s) r' = leavesOf s r'"
proof (induction cs arbitrary: s)
  case (Cons c cs)
  have "leavesOf (appendStore r c s) r' = leavesOf s r'"
    using assms by (simp add: leavesOf_def treeStateOf_appendStore leafOf_appendStore)
  then show ?case using Cons by simp
qed simp

lemma mapM_append:
  assumes "length r = 32" and "kv_wf s"
  shows "\<exists>idx. mapM (\<lambda>v. AppendCommitment r (f v)) vs s = (Inr idx, appendAll r (map f vs) s)"
  using assms(2)
proof (induction vs arbitrary: s)
  case Nil
  then show ?case by (simp add: returnM_def)
next
  case (Cons v vs)
  obtain idx where "mapM (\<lambda>v. AppendCommitment r (f v)) vs (appendStore r (f v) s) =
      (Inr idx, appendAll r (map f vs) (appendStore r (f v) s))"
    using Cons.IH kv_wf_appendStore[OF Cons.prems assms(1)] by blast
  then show ?case
    by (simp add: bindM_def returnM_def AppendCommitment_wf[OF Cons.prems assms(1)])
qed

lemma forM_check_and_set:
  assumes "length r = 32"
  shows "forM ns (\<lambda>n. CheckAndSetNullifier t r n) s = (Inr u, s') \<longleftrightarrow>
    distinct ns \<and> set ns \<inter> nullifiersOf s t r = {} \<and> s' = setNulls t r ns s"
proof (induction ns arbitrary: s)
  case Nil
  then show ?case by (auto simp: returnM_def)
next
  case (Cons n ns)
  show ?case
    using Cons nullifiersOf_set_nullifier[OF assms, of t n "VBytes [1]" s t r]
    by (auto simp: thenM_Inr_iff CheckAndSetNullifier_Inr_iff assms nullifierKey_def)
qed

lemma forM_set_nullifiers:
  assumes "length r = 32"
  shows "forM vs (\<lambda>v. SetNullifier t r (f v)) s = (Inr (), setNulls t r (map f vs) s)"
proof (induction vs arbitrary: s)
  case (Cons v vs)
  have "SetNullifier t r (f v) s = (Inr (), kv_set (nullifierKey t r (f v)) (VBytes [1]) s)"
    using SetNullifier_Inr_iff[of t r "f v" s "()"] assms by (simp add: nullifierKey_def)
  then show ?case using Cons by (simp add: thenM_def bindM_def)
qed (simp add: returnM_def)

lemma forM_state_Inr:
  assumes "\<And>v s t. v \<in> set vs \<Longrightarrow> f v s = (Inr (), t) \<Longrightarrow> t = s"
    and "forM vs f s = (Inr u, s')"
  shows "s' = s \<and> (\<forall>v \<in> set vs. f v s = (Inr (), s))"
  using assms
proof (induction vs)
  case (Cons v vs)
  from Cons.prems(2) obtain t where t: "f v s = (Inr (), t)" "forM vs f t = (Inr u, s')"
    by (auto simp: thenM_Inr_iff)
  then have "t = s" using Cons.prems(1)[of v s t] by simp
  then show ?case using Cons t by auto
qed (simp add: returnM_def)

lemma ValidateProposalId_Inr_iff:
  "ValidateProposalId r p s = (Inr u, s') \<longleftrightarrow> s' = s \<and> length r = 32 \<and>
     (\<exists>rd. roundOf s r = Some rd \<and> p \<noteq> 0 \<and> unat p \<le> length (proposals rd))"
  by (auto simp: ValidateProposalId_def succ_iffs GetVoteRound_Inr_iff not_less)

text \<open>The root stored for a height.\<close>

definition rootOf :: "vkv \<Rightarrow> bytes \<Rightarrow> u64 \<Rightarrow> bytes option" where
  "rootOf s r h = view decodeBytes s (CommitmentRootKey r h)"

lemma GetCommitmentRootAtHeight_Some_iff:
  "GetCommitmentRootAtHeight r h s = (Inr (Some root), s') \<longleftrightarrow> s' = s \<and> rootOf s r h = Some root"
  by (auto simp: GetCommitmentRootAtHeight_def kvGetAs_Inr_iff rootOf_def view_Some_iff
      split: option.splits)

section \<open>What a voting message leaves behind\<close>

text \<open>
  The message spends the nullifiers \<open>spent t\<close> of each type in round \<open>r\<close> and appends the
  leaves \<open>cs\<close> to its tree; nothing else changes.
\<close>

definition votingEffect ::
  "vkv \<Rightarrow> vkv \<Rightarrow> bytes \<Rightarrow> (NullifierType \<Rightarrow> bytes set) \<Rightarrow> bytes list \<Rightarrow> bool" where
  "votingEffect s s' r spent cs \<longleftrightarrow> kv_wf s' \<and>
     (\<forall>t r'. nullifiersOf s' t r' =
        (if r' = r then nullifiersOf s t r \<union> spent t else nullifiersOf s t r')) \<and>
     leavesOf s' r = leavesOf s r @ map Some cs \<and>
     (\<forall>r'. length r' = 32 \<and> r' \<noteq> r \<longrightarrow> leavesOf s' r' = leavesOf s r') \<and>
     (\<forall>k. hd k \<noteq> 0x01 \<and> hd k \<noteq> 0x14 \<longrightarrow> kv_get s' k = kv_get s k)"

definition spentBy :: "NullifierType \<Rightarrow> bytes list \<Rightarrow> NullifierType \<Rightarrow> bytes set" where
  "spentBy t ns = (\<lambda>t'. if t' = t then set ns else {})"

lemma votingEffectI:
  assumes "kv_wf s" and "length r = 32" and "room s r (length cs)"
  shows "votingEffect s (appendAll r cs (setNulls t r ns (setNulls u r ms s))) r
    (\<lambda>t'. spentBy t ns t' \<union> spentBy u ms t') cs"
proof -
  let ?s1 = "setNulls t r ns (setNulls u r ms s)"
  let ?s2 = "appendAll r cs ?s1"
  have tree: "kv_get ?s1 k = kv_get s k" if "hd k = 0x14" for k
    using that by (simp add: setNulls_frame)
  note same = leavesOf_cong[of ?s1 s, OF tree]
  have null: "nullifiersOf ?s2 = nullifiersOf ?s1"
    by (rule nullifiersOf_cong) (simp add: appendAll_frame)
  show ?thesis
    unfolding votingEffect_def
  proof (intro conjI allI impI)
    show "kv_wf ?s2" using assms by (simp add: kv_wf_appendAll kv_wf_setNulls)
    show "nullifiersOf ?s2 t' r' = (if r' = r then nullifiersOf s t' r \<union>
        (spentBy t ns t' \<union> spentBy u ms t') else nullifiersOf s t' r')" for t' r'
      using assms(2) by (auto simp: null nullifiersOf_setNulls spentBy_def)
    have "room ?s1 r (length cs)" using assms(3) same(2) by (simp add: room_def)
    then show "leavesOf ?s2 r = leavesOf s r @ map Some cs"
      using leavesOf_appendAll[OF assms(2)] same(1) by simp
    show "leavesOf ?s2 r' = leavesOf s r'" if "length r' = 32 \<and> r' \<noteq> r" for r'
      using leavesOf_appendAll_other[OF assms(2)] that same(1) by simp
    show "kv_get ?s2 k = kv_get s k" if "hd k \<noteq> 0x01 \<and> hd k \<noteq> 0x14" for k
      using that by (simp add: appendAll_frame setNulls_frame)
  qed
qed

lemma votingEffectI1:
  assumes "kv_wf s" and "length r = 32" and "room s r (length cs)"
  shows "votingEffect s (appendAll r cs (setNulls t r ns s)) r (spentBy t ns) cs"
proof -
  have "(\<lambda>t'. spentBy t ns t' \<union> spentBy t [] t') = spentBy t ns" by (rule ext) (simp add: spentBy_def)
  then show ?thesis using votingEffectI[OF assms, of t ns t "[]"] by simp
qed

text \<open>
  A delegation that passed stateless validation and is executed successfully spends its
  governance nullifiers, none of which was spent before and no two of which are equal, appends
  exactly the new vote authority note to the round's tree and changes nothing else.
\<close>

lemma delegate_vote_effect:
  assumes "kv_wf s" and "DelegateVote_ValidateBasic msg = Inr ()"
    and "DelegateVote msg s = (Inr (), s')" and "room s (md_vote_round_id msg) 1"
  shows "distinct (md_gov_nullifiers msg) \<and>
    set (md_gov_nullifiers msg) \<inter> nullifiersOf s NullifierTypeGov (md_vote_round_id msg) = {} \<and>
    votingEffect s s' (md_vote_round_id msg) (spentBy NullifierTypeGov (md_gov_nullifiers msg))
      [md_van_cmx msg]"
proof -
  let ?r = "md_vote_round_id msg" and ?ns = "md_gov_nullifiers msg"
  have r: "length ?r = 32" by (rule DelegateVote_ValidateBasic_Inr(1)[OF assms(2)])
  from assms(3) obtain t where
    t: "forM ?ns (\<lambda>nf. CheckAndSetNullifier NullifierTypeGov ?r nf) s = (Inr (), t)"
    and "\<exists>i. AppendCommitment ?r (md_van_cmx msg) t = (Inr i, s')"
    by (auto simp: DelegateVote_def succ_iffs)
  from t[unfolded forM_check_and_set[OF r]]
  have ns: "distinct ?ns" "set ?ns \<inter> nullifiersOf s NullifierTypeGov ?r = {}"
    and t': "t = setNulls NullifierTypeGov ?r ?ns s" by blast+
  have "kv_wf t" using assms(1) t' by (simp add: kv_wf_setNulls)
  then have "s' = appendAll ?r [md_van_cmx msg] t"
    using \<open>\<exists>i. _\<close> AppendCommitment_wf[OF _ r] by auto
  then show ?thesis using ns t' votingEffectI1[OF assms(1) r, of "[md_van_cmx msg]"] assms(4) by auto
qed

text \<open>
  A vote that is executed successfully names one of the round's proposals and an anchor
  height with a stored root, spends its vote-authority-note nullifier, which was not spent
  before, appends the successor note and then the vote commitment, and changes nothing else.
\<close>

lemma cast_vote_effect:
  assumes "kv_wf s" and "CastVote msg s = (Inr (), s')" and "room s (mv_vote_round_id msg) 2"
  shows "(\<exists>rd. roundOf s (mv_vote_round_id msg) = Some rd \<and> mv_proposal_id msg \<noteq> 0 \<and>
      unat (mv_proposal_id msg) \<le> length (proposals rd)) \<and>
    rootOf s (mv_vote_round_id msg) (mv_anchor_height msg) \<noteq> None \<and>
    mv_van_nullifier msg \<notin> nullifiersOf s NullifierTypeVoteAuthorityNote (mv_vote_round_id msg) \<and>
    votingEffect s s' (mv_vote_round_id msg)
      (spentBy NullifierTypeVoteAuthorityNote [mv_van_nullifier msg])
      [mv_vote_authority_note_new msg, mv_vote_commitment msg]"
proof -
  let ?r = "mv_vote_round_id msg" and ?n = "mv_van_nullifier msg"
  from assms(2) obtain t1 t2 where
    v: "ValidateProposalId ?r (mv_proposal_id msg) s = (Inr (), s)" and
    root: "rootOf s ?r (mv_anchor_height msg) \<noteq> None" and
    n: "CheckAndSetNullifier NullifierTypeVoteAuthorityNote ?r ?n s = (Inr (), t1)" and
    a: "\<exists>i. AppendCommitment ?r (mv_vote_authority_note_new msg) t1 = (Inr i, t2)"
       "\<exists>i. AppendCommitment ?r (mv_vote_commitment msg) t2 = (Inr i, s')"
    by (auto simp: CastVote_def succ_iffs ValidateProposalId_Inr_iff GetCommitmentRootAtHeight_Some_iff)
  have r: "length ?r = 32" and p: "\<exists>rd. roundOf s ?r = Some rd \<and> mv_proposal_id msg \<noteq> 0 \<and>
      unat (mv_proposal_id msg) \<le> length (proposals rd)"
    using v by (auto simp: ValidateProposalId_Inr_iff)
  have n': "?n \<notin> nullifiersOf s NullifierTypeVoteAuthorityNote ?r"
    and t1: "t1 = setNulls NullifierTypeVoteAuthorityNote ?r [?n] s"
    using n by (auto simp: CheckAndSetNullifier_Inr_iff nullifierKey_def)
  have w1: "kv_wf t1" using assms(1) t1 by (simp only: kv_wf_setNulls)
  have t2: "t2 = appendStore ?r (mv_vote_authority_note_new msg) t1"
    using a(1) AppendCommitment_wf[OF w1 r] by auto
  have "s' = appendAll ?r [mv_vote_authority_note_new msg, mv_vote_commitment msg] t1"
    using a(2) AppendCommitment_wf[OF kv_wf_appendStore[OF w1 r] r] t2 by auto
  then have "votingEffect s s' ?r (spentBy NullifierTypeVoteAuthorityNote [?n])
      [mv_vote_authority_note_new msg, mv_vote_commitment msg]"
    using votingEffectI1[OF assms(1) r, of "[mv_vote_authority_note_new msg, mv_vote_commitment msg]"
        NullifierTypeVoteAuthorityNote "[?n]"] assms(3) t1 by (simp add: numeral_2_eq_2)
  then show ?thesis using p root n' by blast
qed

text \<open>The state a batch of votes leaves behind, after its checks.\<close>

definition batchLeaves :: "MsgCastVoteBatch \<Rightarrow> bytes list" where
  "batchLeaves msg =
     mv_vote_authority_note_new (last (mb_votes msg)) # map mv_vote_commitment (mb_votes msg)"

lemma append_batch:
  assumes "kv_wf s" and "length r = 32"
    and "AppendCommitment r (mv_vote_authority_note_new (last (mb_votes msg))) s = (Inr i, t)"
    and "mapM (\<lambda>vote. AppendCommitment r (mv_vote_commitment vote)) (mb_votes msg) t = (Inr is, s')"
  shows "s' = appendAll r (batchLeaves msg) s"
proof -
  let ?s = "appendStore r (mv_vote_authority_note_new (last (mb_votes msg))) s"
  have t: "t = ?s" using assms(3) AppendCommitment_wf[OF assms(1,2)] by simp
  obtain idx where "mapM (\<lambda>vote. AppendCommitment r (mv_vote_commitment vote)) (mb_votes msg) ?s =
      (Inr idx, appendAll r (map mv_vote_commitment (mb_votes msg)) ?s)"
    using mapM_append[OF assms(2) kv_wf_appendStore[OF assms(1,2)]] by blast
  then show ?thesis using assms(4) t by (simp add: batchLeaves_def)
qed

lemma batch_proposals_checked:
  assumes "forM vs (\<lambda>v. ValidateProposalId (f v) (mv_proposal_id v)) s = (Inr u, t)"
  shows "t = s \<and> (\<forall>v \<in> set vs. \<exists>rd. roundOf s (f v) = Some rd \<and> mv_proposal_id v \<noteq> 0 \<and>
    unat (mv_proposal_id v) \<le> length (proposals rd))"
proof -
  have "t = s \<and> (\<forall>v \<in> set vs. ValidateProposalId (f v) (mv_proposal_id v) s = (Inr (), s))"
    by (rule forM_state_Inr[OF _ assms]) (simp add: ValidateProposalId_Inr_iff)
  then show ?thesis by (auto simp: ValidateProposalId_Inr_iff)
qed

lemma CastVoteBatch_steps:
  assumes "CastVoteBatch L msg s = (Inr digest, s')" and "mb_votes msg \<noteq> []"
    and "length (mv_vote_round_id (hd (mb_votes msg))) = 32"
  shows "\<exists>t1 t2 t3 i is. rootOf s (mv_vote_round_id (hd (mb_votes msg))) (mv_anchor_height (hd (mb_votes msg))) \<noteq> None \<and>
    forM (mb_votes msg) (\<lambda>vote. ValidateProposalId (mv_vote_round_id vote) (mv_proposal_id vote)) s = (Inr (), t1) \<and>
    CheckNullifiersUnique NullifierTypeVoteAuthorityNote (mv_vote_round_id (hd (mb_votes msg)))
      (CastVoteBatch_GetNullifiers msg) t1 = (Inr (), t2) \<and>
    AppendCommitment (mv_vote_round_id (hd (mb_votes msg))) (mv_vote_authority_note_new (last (mb_votes msg)))
      (setNulls NullifierTypeVoteAuthorityNote (mv_vote_round_id (hd (mb_votes msg)))
        (CastVoteBatch_GetNullifiers msg) t2) = (Inr i, t3) \<and>
    mapM (\<lambda>vote. AppendCommitment (mv_vote_round_id (hd (mb_votes msg))) (mv_vote_commitment vote))
      (mb_votes msg) t3 = (Inr is, s') \<and>
    digest = ComputeCastVoteBatchSighash L msg"
  using assms unfolding CastVoteBatch_def list.case_eq_if
  by (clarsimp simp: succ_iffs forM_set_nullifiers[OF assms(3)] GetCommitmentRootAtHeight_Some_iff
      CastVoteBatch_GetNullifiers_def)


lemma DelegateAndCastVoteBatch_steps:
  assumes "DelegateAndCastVoteBatch L msg s = (Inr digest, s')"
    and "mdb_delegation msg = Some delegation" and "mdb_batch msg = Some batch"
    and "length (md_vote_round_id delegation) = 32"
  shows "\<exists>t1 t2 t3 t4 i is.
    forM (mb_votes batch) (\<lambda>vote. ValidateProposalId (md_vote_round_id delegation) (mv_proposal_id vote)) s = (Inr (), t1) \<and>
    CheckNullifiersUnique NullifierTypeGov (md_vote_round_id delegation) (md_gov_nullifiers delegation) t1 = (Inr (), t2) \<and>
    CheckNullifiersUnique NullifierTypeVoteAuthorityNote (md_vote_round_id delegation)
      (CastVoteBatch_GetNullifiers batch) t2 = (Inr (), t3) \<and>
    AppendCommitment (md_vote_round_id delegation) (mv_vote_authority_note_new (last (mb_votes batch)))
      (setNulls NullifierTypeVoteAuthorityNote (md_vote_round_id delegation) (CastVoteBatch_GetNullifiers batch)
        (setNulls NullifierTypeGov (md_vote_round_id delegation) (md_gov_nullifiers delegation) t3)) = (Inr i, t4) \<and>
    mapM (\<lambda>vote. AppendCommitment (md_vote_round_id delegation) (mv_vote_commitment vote))
      (mb_votes batch) t4 = (Inr is, s') \<and>
    digest = ComputeDelegateAndCastVoteBatchSighash L msg"
  using assms forM_set_nullifiers[OF assms(4), where f = "\<lambda>x. x"] unfolding DelegateAndCastVoteBatch_def
  by (clarsimp simp: succ_iffs forM_set_nullifiers[OF assms(4)] CastVoteBatch_GetNullifiers_def Let_def)

text \<open>
  The combined message is all or nothing as well. When it succeeds it spends the
  governance nullifiers of the delegation and the nullifiers of every vote, each list without
  repetition and none spent before, and appends the successor note of the last vote and all
  vote commitments; the note the delegation itself creates is not appended. All votes are for
  proposals of the delegation's round.
\<close>

lemma delegate_and_cast_effect:
  assumes "kv_wf s" and "DelegateAndCastVoteBatch L msg s = (Inr digest, s')"
    and "mdb_delegation msg = Some delegation" and "mdb_batch msg = Some batch"
    and "room s (md_vote_round_id delegation) (Suc (length (mb_votes batch)))"
  shows "(let r = md_vote_round_id delegation; gov = md_gov_nullifiers delegation;
      van = CastVoteBatch_GetNullifiers batch in
    distinct gov \<and> set gov \<inter> nullifiersOf s NullifierTypeGov r = {} \<and>
    distinct van \<and> set van \<inter> nullifiersOf s NullifierTypeVoteAuthorityNote r = {} \<and>
    (\<forall>v \<in> set (mb_votes batch). mv_vote_round_id v = r \<and> mv_anchor_height v = 0 \<and>
       (\<exists>rd. roundOf s r = Some rd \<and> mv_proposal_id v \<noteq> 0 \<and>
          unat (mv_proposal_id v) \<le> length (proposals rd))) \<and>
    votingEffect s s' r (\<lambda>t. spentBy NullifierTypeVoteAuthorityNote van t \<union> spentBy NullifierTypeGov gov t)
      (batchLeaves batch) \<and>
    digest = ComputeDelegateAndCastVoteBatchSighash L msg)"
proof -
  let ?r = "md_vote_round_id delegation" and ?gov = "md_gov_nullifiers delegation"
    and ?van = "CastVoteBatch_GetNullifiers batch"
  from assms(2) have "DelegateAndCastVoteBatch_ValidateBasic msg = Inr ()"
    by (auto simp: DelegateAndCastVoteBatch_def succ_iffs)
  then have vd: "DelegateVote_ValidateBasic delegation = Inr ()"
    and vb: "CastVoteBatch_validateBasic True batch = Inr ()"
    and rid: "CastVoteBatch_GetVoteRoundId batch = ?r"
    and anchor: "\<forall>v \<in> set (mb_votes batch). mv_anchor_height v = 0"
    using assms(3,4) unfolding DelegateAndCastVoteBatch_ValidateBasic_def
    by (auto simp: bindR_Inr_iff forR_Inr_iff in_set_conv_nth)
  note len = DelegateVote_ValidateBasic_Inr(1)[OF vd] and vb' = vb[unfolded CastVoteBatch_validateBasic_Inr]
  have "mb_votes batch \<noteq> []" using vb' by blast
  then have "mv_vote_round_id (mb_votes batch ! 0) = ?r" using rid by (simp add: CastVoteBatch_GetVoteRoundId_def)
  note votes = vb'[unfolded this]
  from DelegateAndCastVoteBatch_steps[OF assms(2-4) len] obtain t1 t2 t3 t4 i "is" where
    pr: "forM (mb_votes batch) (\<lambda>vote. ValidateProposalId ?r (mv_proposal_id vote)) s = (Inr (), t1)" and
    g: "CheckNullifiersUnique NullifierTypeGov ?r ?gov t1 = (Inr (), t2)" and
    n: "CheckNullifiersUnique NullifierTypeVoteAuthorityNote ?r ?van t2 = (Inr (), t3)" and
    ap: "AppendCommitment ?r (mv_vote_authority_note_new (last (mb_votes batch)))
         (setNulls NullifierTypeVoteAuthorityNote ?r ?van (setNulls NullifierTypeGov ?r ?gov t3)) = (Inr i, t4)"
       "mapM (\<lambda>vote. AppendCommitment ?r (mv_vote_commitment vote)) (mb_votes batch) t4 = (Inr is, s')" and
    d: "digest = ComputeDelegateAndCastVoteBatchSighash L msg"
    by (elim exE conjE)
  have t: "t1 = s" "t2 = s" "t3 = s"
    using batch_proposals_checked[OF pr] g n by (auto simp: CheckNullifiersUnique_Inr_iff)
  have "s' = appendAll ?r (batchLeaves batch)
      (setNulls NullifierTypeVoteAuthorityNote ?r ?van (setNulls NullifierTypeGov ?r ?gov s))"
    by (rule append_batch[OF kv_wf_setNulls[OF kv_wf_setNulls[OF assms(1)]] len ap[unfolded t]])
  then have eff: "votingEffect s s' ?r (\<lambda>t. spentBy NullifierTypeVoteAuthorityNote ?van t \<union>
      spentBy NullifierTypeGov ?gov t) (batchLeaves batch)"
    using votingEffectI[OF assms(1) len, of "batchLeaves batch"] assms(5) by (simp add: batchLeaves_def)
  have "distinct ?gov" by (rule DelegateVote_ValidateBasic_Inr(3)[OF vd])
  moreover have "distinct ?van" using votes by (simp add: CastVoteBatch_GetNullifiers_def)
  moreover have "set ?gov \<inter> nullifiersOf s NullifierTypeGov ?r = {}"
    "set ?van \<inter> nullifiersOf s NullifierTypeVoteAuthorityNote ?r = {}"
    using g[unfolded t CheckNullifiersUnique_Inr_iff] n[unfolded t CheckNullifiersUnique_Inr_iff] by blast+
  moreover have "\<forall>v \<in> set (mb_votes batch). mv_vote_round_id v = ?r" using votes by blast
  ultimately show ?thesis
    unfolding Let_def using eff d anchor batch_proposals_checked[OF pr] by (intro conjI) blast+
qed

section \<open>Share reveals\<close>

definition shareKey :: "bytes \<Rightarrow> u32 \<Rightarrow> u32 \<Rightarrow> bytes" where
  "shareKey r p d = 0x0B # r @ putUint32BE p @ putUint32BE d"

text \<open>The counter as \<open>IncrementShareCount\<close> reads it.\<close>

definition shareCountOf :: "vkv \<Rightarrow> bytes \<Rightarrow> u32 \<Rightarrow> u32 \<Rightarrow> u64" where
  "shareCountOf s r p d =
     (let bz = nilBytes (view decodeBytes s (shareKey r p d)) in
      if length bz = 8 then (case getUint64BE bz of Some c \<Rightarrow> c | None \<Rightarrow> 0) else 0)"

lemma ShareCountKey_Inr_iff: "ShareCountKey r p d = Inr k \<longleftrightarrow> length r = 32 \<and> k = shareKey r p d"
  by (auto simp: key_simps bindR_Inr_iff shareKey_def)

lemma entry_ok_share: "length r = 32 \<Longrightarrow> entry_ok (shareKey r p d) v \<longleftrightarrow> (\<exists>b. v = VBytes b)"
  by (cases v) (auto simp: entry_ok_def shareKey_def)

lemma share_lookup_wf:
  assumes "kv_wf s" and "length r = 32"
  shows "kvGetAs decodeBytes (shareKey r p d) s = (Inr (view decodeBytes s (shareKey r p d)), s)"
  using kv_wf_get[OF assms(1), of "shareKey r p d"] by (intro kvGetAs_wf) (auto simp: entry_ok_share assms(2))

lemma IncrementShareCount_wf:
  assumes "kv_wf s" and "length r = 32"
  shows "IncrementShareCount r p d s =
    (Inr (), kv_set (shareKey r p d) (VBytes (putUint64BE (shareCountOf s r p d + 1))) s)"
  using ShareCountKey_Inr_iff[of r p d "shareKey r p d"] assms(2)
  by (simp add: IncrementShareCount_def bindM_def liftR_def share_lookup_wf[OF assms] Let_def
      kvSet_def modifyM_def shareCountOf_def)

lemma GetShareCount_wf:
  assumes "kv_wf s" and "length r = 32" and "view decodeBytes s (shareKey r p d) = Some (putUint64BE n)"
  shows "GetShareCount r p d s = (Inr n, s)"
  using ShareCountKey_Inr_iff[of r p d "shareKey r p d"] assms(2,3)
  by (simp add: GetShareCount_def bindM_def liftR_def share_lookup_wf[OF assms(1,2)] nilBytes_def
      returnM_def)

lemma ValidateRoundForVoting_Inr_iff:
  "ValidateRoundForVoting c r s = (Inr u, s') \<longleftrightarrow> s' = s \<and> length r = 32 \<and>
     (\<exists>rd. roundOf s r = Some rd \<and> status rd = SESSION_STATUS_ACTIVE \<and>
        (if block_time c < 0 then is_check_tx c \<or> is_recheck_tx c else unixU64 c < vote_end_time rd))"
  by (auto simp: ValidateRoundForVoting_def succ_iffs GetVoteRound_Inr_iff not_le split: if_splits)

lemma ValidateVoteDecision_Inr_iff:
  "ValidateVoteDecision r p d s = (Inr u, s') \<longleftrightarrow> s' = s \<and> length r = 32 \<and>
     (\<exists>rd. roundOf s r = Some rd \<and> ValidateEntryBounds rd p d = Inr ())"
  by (auto simp: ValidateVoteDecision_def ValidateEntryBounds_def succ_iffs GetVoteRound_Inr_iff)

lemma RevealShare_Inr:
  assumes "RevealShare C c msg s = (Inr (), s')" and "curve_ok C" and "kv_wf s"
  shows "\<exists>rd share b. length (mr_vote_round_id msg) = 32 \<and>
    roundOf s (mr_vote_round_id msg) = Some rd \<and> status rd = SESSION_STATUS_ACTIVE \<and>
    (block_time c < 0 \<or> unixU64 c < vote_end_time rd) \<and>
    ValidateEntryBounds rd (mr_proposal_id msg) (mr_vote_decision msg) = Inr () \<and>
    mr_share_nullifier msg \<notin> nullifiersOf s NullifierTypeShare (mr_vote_round_id msg) \<and>
    UnmarshalCiphertext C (mr_enc_share msg) = Inr share \<and>
    UnmarshalCiphertext C b = Inr (tallyAfter
      (ctOf C s (mr_vote_round_id msg, mr_proposal_id msg, mr_vote_decision msg)) share) \<and>
    s' = kv_set (shareKey (mr_vote_round_id msg) (mr_proposal_id msg) (mr_vote_decision msg))
      (VBytes (putUint64BE (shareCountOf s (mr_vote_round_id msg) (mr_proposal_id msg) (mr_vote_decision msg) + 1)))
      (kv_set (tallyKey (mr_vote_round_id msg) (mr_proposal_id msg) (mr_vote_decision msg)) (VBytes b)
        (setNulls NullifierTypeShare (mr_vote_round_id msg) [mr_share_nullifier msg] s))"
proof -
  let ?r = "mr_vote_round_id msg" and ?p = "mr_proposal_id msg" and ?d = "mr_vote_decision msg"
  let ?s1 = "setNulls NullifierTypeShare ?r [mr_share_nullifier msg] s"
  from assms(1) obtain rd t where rd: "length ?r = 32" "roundOf s ?r = Some rd" "status rd = SESSION_STATUS_ACTIVE"
    "block_time c < 0 \<or> unixU64 c < vote_end_time rd" "ValidateEntryBounds rd ?p ?d = Inr ()"
    "mr_share_nullifier msg \<notin> nullifiersOf s NullifierTypeShare ?r"
    and t: "AddToTally C ?r ?p ?d (mr_enc_share msg) ?s1 = (Inr (), t)"
    and s': "IncrementShareCount ?r ?p ?d t = (Inr (), s')"
    by (auto simp: RevealShare_def thenM_Inr_iff ValidateRoundForVoting_Inr_iff ValidateProposalId_Inr_iff
        ValidateVoteDecision_Inr_iff CheckAndSetNullifier_Inr_iff nullifierKey_def split: if_splits)
  have w1: "kv_wf ?s1" using assms(3) by (simp only: kv_wf_setNulls)
  have fr: "kv_get ?s1 k = kv_get s k" if "hd k \<noteq> 0x01" for k using that by (rule setNulls_frame)
  have ct: "ctOf C ?s1 = ctOf C s"
    by (rule ext) (simp add: ctOf_def accOf_def view_def fr del: setNulls_simps split: prod.split)
  from AddToTally_Inr[OF t assms(2) w1, unfolded ct] obtain share b where
    sh: "UnmarshalCiphertext C (mr_enc_share msg) = Inr share"
      "UnmarshalCiphertext C b = Inr (tallyAfter (ctOf C s (?r, ?p, ?d)) share)"
      "t = kv_set (tallyKey ?r ?p ?d) (VBytes b) ?s1" by blast
  have wt: "kv_wf t" using sh(3) kv_wf_set_tally[OF w1 rd(1)] by simp
  have "view decodeBytes t (shareKey ?r ?p ?d) = view decodeBytes s (shareKey ?r ?p ?d)"
    using sh(3) by (simp add: view_set shareKey_def tallyKey_def view_def fr del: setNulls_simps)
  then have "shareCountOf t ?r ?p ?d = shareCountOf s ?r ?p ?d" by (simp add: shareCountOf_def)
  then have "s' = kv_set (shareKey ?r ?p ?d) (VBytes (putUint64BE (shareCountOf s ?r ?p ?d + 1))) t"
    using s' IncrementShareCount_wf[OF wt rd(1)] by simp
  then show ?thesis using rd sh by blast
qed

text \<open>
  C1. A revealed share counts once. When a reveal succeeds, the round is active and its vote
  has not ended, the choice is one of the options of one of its proposals, and the share's
  nullifier had not been used; afterwards the nullifier is used, so that every further reveal
  with it fails; the accumulator of that choice holds its old value plus the share, all other
  accumulators are unchanged, and the counter of reveals of that choice is one higher.
\<close>

theorem reveal_share_counts_once:
  assumes "curve_ok C" and "kv_wf s" and "RevealShare C c msg s = (Inr (), s')"
  shows "(let r = mr_vote_round_id msg; p = mr_proposal_id msg; d = mr_vote_decision msg in
    \<exists>rd share. roundOf s r = Some rd \<and> status rd = SESSION_STATUS_ACTIVE \<and>
      (block_time c < 0 \<or> unixU64 c < vote_end_time rd) \<and>
      ValidateEntryBounds rd p d = Inr () \<and>
      mr_share_nullifier msg \<notin> nullifiersOf s NullifierTypeShare r \<and>
      UnmarshalCiphertext C (mr_enc_share msg) = Inr share \<and>
      ctOf C s' = (ctOf C s)((r, p, d) \<mapsto> tallyAfter (ctOf C s (r, p, d)) share) \<and>
      GetShareCount r p d s' = (Inr (shareCountOf s r p d + 1), s') \<and>
      (\<forall>c' msg'. mr_vote_round_id msg' = r \<and> mr_share_nullifier msg' = mr_share_nullifier msg \<longrightarrow>
         fst (RevealShare C c' msg' s') \<noteq> Inr ()) \<and>
      roundOf s' = roundOf s \<and> leavesOf s' = leavesOf s \<and> kv_wf s')"
proof -
  let ?r = "mr_vote_round_id msg" and ?p = "mr_proposal_id msg" and ?d = "mr_vote_decision msg"
  let ?s1 = "setNulls NullifierTypeShare ?r [mr_share_nullifier msg] s"
  let ?n = "shareCountOf s ?r ?p ?d + 1"
  from RevealShare_Inr[OF assms(3,1,2)] obtain rd share b where
    rd: "length ?r = 32" "roundOf s ?r = Some rd" "status rd = SESSION_STATUS_ACTIVE"
      "block_time c < 0 \<or> unixU64 c < vote_end_time rd" "ValidateEntryBounds rd ?p ?d = Inr ()"
      "mr_share_nullifier msg \<notin> nullifiersOf s NullifierTypeShare ?r"
      "UnmarshalCiphertext C (mr_enc_share msg) = Inr share"
      "UnmarshalCiphertext C b = Inr (tallyAfter (ctOf C s (?r, ?p, ?d)) share)"
    and s': "s' = kv_set (shareKey ?r ?p ?d) (VBytes (putUint64BE ?n))
        (kv_set (tallyKey ?r ?p ?d) (VBytes b) ?s1)" by (elim exE conjE)
  have wf: "kv_wf s'"
    unfolding s' using assms(2) rd(1) by (intro kv_wf_set kv_wf_setNulls) (simp_all add: entry_ok_share entry_ok_tally)
  have fr: "kv_get s' k = kv_get s k" if "hd k \<noteq> 0x01" "hd k \<noteq> 0x05" "hd k \<noteq> 0x0B" for k
    unfolding s' using that setNulls_frame[OF that(1)] by (auto simp: get_simps shareKey_def simp del: setNulls_simps)
  have "ctOf C s' = ctOf C (kv_set (tallyKey ?r ?p ?d) (VBytes b) ?s1)"
    unfolding s' by (rule ext) (auto simp: ctOf_def accOf_def view_set shareKey_def tallyKey_def simp del: setNulls_simps)
  also have "\<dots> = (ctOf C ?s1)((?r, ?p, ?d) \<mapsto> tallyAfter (ctOf C s (?r, ?p, ?d)) share)"
    by (rule ctOf_set_tally[OF rd(1,8)])
  also have "ctOf C ?s1 = ctOf C s"
    by (rule ext) (simp add: ctOf_def accOf_def view_def setNulls_frame del: setNulls_simps split: prod.split)
  finally have ct: "ctOf C s' = (ctOf C s)((?r, ?p, ?d) \<mapsto> tallyAfter (ctOf C s (?r, ?p, ?d)) share)" .
  have cnt: "GetShareCount ?r ?p ?d s' = (Inr ?n, s')"
    by (rule GetShareCount_wf[OF wf rd(1)]) (simp add: s' view_set okOpt_def del: setNulls_simps)
  have "nullifiersOf s' = nullifiersOf ?s1"
    by (rule nullifiersOf_cong) (auto simp: s' get_simps shareKey_def tallyKey_def simp del: setNulls_simps)
  then have "mr_share_nullifier msg \<in> nullifiersOf s' NullifierTypeShare ?r"
    using nullifiersOf_setNulls[OF rd(1)] by (simp del: setNulls_simps)
  then have once: "\<forall>c' msg'. mr_vote_round_id msg' = ?r \<and> mr_share_nullifier msg' = mr_share_nullifier msg \<longrightarrow>
      fst (RevealShare C c' msg' s') \<noteq> Inr ()"
    using RevealShare_Inr[OF _ assms(1) wf] by (metis prod.collapse)
  have "roundOf s' = roundOf s" by (rule roundOf_cong) (simp add: fr)
  moreover have "leavesOf s' = leavesOf s" by (rule ext) (rule leavesOf_cong(1), simp add: fr)
  ultimately show ?thesis unfolding Let_def using rd ct cnt once wf by (intro exI[of _ rd] exI[of _ share] conjI)
qed

section \<open>Concrete runs\<close>

definition liveRound :: VoteRound where
  "liveRound = sampleRound\<lparr>vote_round_id := replicate 32 4, status := SESSION_STATUS_ACTIVE\<rparr>"

definition liveStore :: vkv where
  "liveStore = [(0x04 # replicate 32 4, VVoteRound liveRound),
     (CommitmentRootKey (replicate 32 4) 7, VBytes [9])]"

definition sampleCtx :: ctx where
  "sampleCtx = \<lparr>block_time = 50, block_height = 8, chain_id = [], is_check_tx = False,
     is_recheck_tx = False, proposer_address = [1]\<rparr>"

lemma liveStore_wf: "kv_wf liveStore"
  using entry_ok_tree_bytes(2)[of "replicate 32 4" 7 "VBytes [9]"]
  by (simp add: kv_wf_def kv_ok_def liveStore_def entry_ok_round liveRound_def) (simp add: key_simps)

lemma liveStore_room: "room liveStore (replicate 32 4) 2"
proof -
  have "treeStateOf liveStore (replicate 32 4) = emptyTreeState"
    by (simp add: treeStateOf_def view_def liveStore_def kv_get_def) (simp add: key_simps)
  then show ?thesis by (simp add: room_def emptyTreeState_def)
qed

lemma run_of_fst: "fst (m s) = Inr a \<Longrightarrow> m s = (Inr a, snd (m s))"
  by (metis prod.collapse)


definition sampleReveal :: MsgRevealShare where
  "sampleReveal = \<lparr>mr_share_nullifier = replicate 32 8, mr_enc_share = ctBytes curve7 \<lparr>C1 = F2, C2 = F3\<rparr>,
     mr_proposal_id = 1, mr_vote_decision = 0, mr_proof = [1], mr_vote_round_id = replicate 32 4,
     mr_anchor_height = 7\<rparr>"

theorem reveal_share_counts_once_witness:
  "\<exists>s'. RevealShare curve7 sampleCtx sampleReveal liveStore = (Inr (), s') \<and>
     fst (RevealShare curve7 sampleCtx sampleReveal s') \<noteq> Inr ()"
proof -
  have "fst (RevealShare curve7 sampleCtx sampleReveal liveStore) = Inr ()" by code_simp
  note run = run_of_fst[of "RevealShare curve7 sampleCtx sampleReveal", OF this]
  from reveal_share_counts_once[OF curve7_ok liveStore_wf run] run show ?thesis
    unfolding Let_def by blast
qed

end
