(* ===== verification/Msg_Ceremony.thy ===== *)
theory Msg_Ceremony
  imports Msg_Voting
begin

text \<open>
  The handlers of validators' key and ceremony messages
  (\<^verbatim>\<open>src/x/vote/keeper/msg_server_ceremony.go\<close>), round creation
  (\<^verbatim>\<open>msg_server.go\<close>, \<^verbatim>\<open>executeCreateVotingSession\<close>) and the jailing of validators that
  never contributed (\<^verbatim>\<open>keeper_ceremony_jailing.go\<close>).
\<close>

section \<open>Keys\<close>

definition RegisterPallasKey ::
  "lib \<Rightarrow> ('s, 'p::ab_group_add) curve \<Rightarrow> MsgRegisterPallasKey \<Rightarrow> (vkv, unit) M" where
  "RegisterPallasKey L C msg =
     bindM (liftR (wrapErr ErrInvalidPallasPoint (UnmarshalPublicKey C (mrp_pallas_pk msg)))) (\<lambda>_.
     (case AccAddressFromBech32 L (mrp_creator msg) of
        None \<Rightarrow> throwM ErrOther
      | Some accAddr \<Rightarrow> RegisterPallasKeyCore (ValAddressString L accAddr) (mrp_pallas_pk msg)))"

definition RotatePallasKey ::
  "lib \<Rightarrow> ('s, 'p::ab_group_add) curve \<Rightarrow> MsgRotatePallasKey \<Rightarrow> (vkv, unit) M" where
  "RotatePallasKey L C msg =
     bindM (liftR (wrapErr ErrInvalidPallasPoint (UnmarshalPublicKey C (mro_new_pallas_pk msg)))) (\<lambda>_.
     (case AccAddressFromBech32 L (mro_creator msg) of
        None \<Rightarrow> throwM ErrOther
      | Some accAddr \<Rightarrow>
          let valAddr = ValAddressString L accAddr in
          bindM (IsValidatorInPendingCeremony valAddr) (\<lambda>inCeremony.
          failIf inCeremony ErrCeremonyInProgress (
          bindM (RotatePallasKeyCore valAddr (mro_new_pallas_pk msg)) (\<lambda>oldPK.
          returnM ())))))"

definition CreateValidatorWithPallasKey ::
  "('x, 'h) env \<Rightarrow> ('s, 'p::ab_group_add) curve \<Rightarrow> MsgCreateValidatorWithPallasKey \<Rightarrow>
   (('x, 'h) world, unit) M" where
  "CreateValidatorWithPallasKey E C msg =
     (case stakingMsgUnmarshal E (mcv_staking_msg msg) of
        None \<Rightarrow> throwM ErrOther
      | Some sm \<Rightarrow>
          (case (if sm_has_pubkey sm then stakingMsgUnpackInterfaces E sm else Some sm) of
             None \<Rightarrow> throwM ErrOther
           | Some stakingMsg \<Rightarrow>
               bindM (liftR (wrapErr ErrInvalidPallasPoint (UnmarshalPublicKey C (mcv_pallas_pk msg)))) (\<lambda>_.
               (case stakingKeeper E of
                  None \<Rightarrow> throwM ErrOther
                | Some sk \<Rightarrow>
                    failIf (\<not> isConcreteKeeper sk) ErrOther (
                    thenM (extM (CreateValidator sk stakingMsg)) (
                    kvM (RegisterPallasKeyCore (sm_validator_address stakingMsg) (mcv_pallas_pk msg))))))))"

section \<open>Contributions\<close>

fun payloadLoop ::
  "('s, 'p::ab_group_add) curve \<Rightarrow> VoteRound \<Rightarrow> gostring \<Rightarrow> gostring list \<Rightarrow> DealerPayload list \<Rightarrow> unit res" where
  "payloadLoop C rd creatorAddr covered [] = Inr ()"
| "payloadLoop C rd creatorAddr covered (p # ps) =
     failIfR (dp_validator_address p = creatorAddr) ErrPayloadMismatch (
     failIfR (FindValidatorInRoundCeremony rd (dp_validator_address p) = None) ErrNotRegisteredValidator (
     failIfR (dp_validator_address p \<in> set covered) ErrPayloadMismatch (
     bindR (wrapErr ErrInvalidPallasPoint (UnmarshalPublicKey C (dp_ephemeral_pk p))) (\<lambda>_.
     payloadLoop C rd creatorAddr (dp_validator_address p # covered) ps))))"

text \<open>The loop that assigns Shamir indices and checks every verification key.\<close>

fun verificationKeyLoop ::
  "('s::field, 'p::ab_group_add) curve \<Rightarrow> 'p list \<Rightarrow> nat \<Rightarrow> ValidatorPallasKey list \<Rightarrow>
   ValidatorPallasKey list res" where
  "verificationKeyLoop C combined i [] = Inr []"
| "verificationKeyLoop C combined i (v # vs) =
     bindR (wrapErr ErrInvalidPallasPoint (EvalCommitmentPolynomial C combined (int i + 1))) (\<lambda>vk.
     failIfR (vk = 0) ErrInvalidPallasPoint (
     bindR (verificationKeyLoop C combined (Suc i) vs) (\<lambda>vs'.
     Inr (v\<lparr>vpk_shamir_index := word_of_nat (i + 1)\<rparr> # vs'))))"

definition finalizeDKG ::
  "('s::field, 'p::ab_group_add) curve \<Rightarrow> ctx \<Rightarrow> VoteRound \<Rightarrow> nat \<Rightarrow> int \<Rightarrow> VoteRound res" where
  "finalizeDKG C c rd nValidators thr =
     bindR (mapR (\<lambda>contrib. mapR (UnmarshalPublicKey C) (dkg_feldman_commitments contrib))
       (dkg_contributions rd)) (\<lambda>allCommitments.
     bindR (CombineCommitments C allCommitments) (\<lambda>combined.
     (case combined of
        [] \<Rightarrow> Inl GoPanic
      | eaPk # _ \<Rightarrow>
          failIfR (eaPk = 0) ErrInvalidPallasPoint (
          bindR (verificationKeyLoop C combined 0 (ceremony_validators rd)) (\<lambda>validators.
          let eaBytes = ToAffineCompressed C eaPk in
          failIfR (length (hexEncode eaBytes) < 16) GoPanic (
          Inr (AppendCeremonyLog
            (rd\<lparr>ea_pk := eaBytes,
                feldman_commitments := map (ToAffineCompressed C) combined,
                threshold := word_of_int thr,
                ceremony_validators := validators,
                ceremony_phase_start := unixU64 c,
                ceremony_phase_timeout := DefaultDealTimeout,
                ceremony_status := CEREMONY_STATUS_DEALT\<rparr>)
            (heightU64 c)
            (str ''DKG complete ('' @ fmtNat nValidators @ str ''/'' @ fmtNat nValidators @
             str '' contributions), ea_pk='' @ take 16 (hexEncode eaBytes)))))))))"

definition ContributeDKG ::
  "('x, 'h) env \<Rightarrow> ('s::field, 'p::ab_group_add) curve \<Rightarrow> 'x \<Rightarrow> ctx \<Rightarrow> MsgContributeDKG \<Rightarrow> (vkv, unit) M" where
  "ContributeDKG E C x c msg =
     bindM (liftR (ValidateProposerIsCreator E x c (mdk_creator msg))) (\<lambda>_.
     bindM (GetPendingRoundWithCeremony (mdk_vote_round_id msg) CEREMONY_STATUS_REGISTERING) (\<lambda>rd.
     let nValidators = length (ceremony_validators rd) in
     failIf (nValidators = 0) ErrCeremonyWrongStatus (
     failIf (FindValidatorInRoundCeremony rd (mdk_creator msg) = None) ErrNotRegisteredValidator (
     failIf (FindContributionInRound rd (mdk_creator msg) \<noteq> None) ErrDuplicateContribution (
     bindM (liftR (wrapErr ErrInvalidThreshold (ThresholdForN (int nValidators)))) (\<lambda>expectedThreshold.
     failIf (int (length (mdk_feldman_commitments msg)) \<noteq> expectedThreshold) ErrInvalidThreshold (
     bindM (liftR (forR 0 (\<lambda>_ cm.
       bindR (wrapErr ErrInvalidPallasPoint (UnmarshalPublicKey C cm)) (\<lambda>_. Inr ()))
       (mdk_feldman_commitments msg))) (\<lambda>_.
     failIf (length (mdk_payloads msg) \<noteq> nValidators - 1) ErrPayloadMismatch (
     bindM (liftR (payloadLoop C rd (mdk_creator msg) [] (mdk_payloads msg))) (\<lambda>_.
     bindM (liftR (wrapErr ErrInvalidField (VerifyConstantTermProof (envLib E) C
       (mdk_constant_term_proof msg) (chain_id c) (mdk_vote_round_id msg) (mdk_creator msg)
       (mdk_feldman_commitments msg)))) (\<lambda>_.
     let rd1 = rd\<lparr>dkg_contributions := dkg_contributions rd @
       [\<lparr>dkg_validator_address = mdk_creator msg,
         dkg_feldman_commitments = mdk_feldman_commitments msg,
         dkg_payloads = mdk_payloads msg\<rparr>]\<rparr> in
     bindM (liftR (
       if length (dkg_contributions rd1) = nValidators
       then finalizeDKG C c rd1 nValidators expectedThreshold
       else Inr (AppendCeremonyLog rd1 (heightU64 c)
         (str ''DKG contribution from '' @ mdk_creator msg @ str '' ('' @
          fmtNat (length (dkg_contributions rd1)) @ str ''/'' @ fmtNat nValidators @ str '')'')))) (\<lambda>rd2.
     SetVoteRound rd2))))))))))))"

section \<open>Acknowledgements\<close>

definition sha256AckDigest :: "lib \<Rightarrow> bytes \<Rightarrow> gostring \<Rightarrow> bytes" where
  "sha256AckDigest L eaPk validatorAddress = sha256 L (AckDigestDomain @ eaPk @ validatorAddress)"

definition AckExecutiveAuthorityKey ::
  "('x, 'h) env \<Rightarrow> 'x \<Rightarrow> ctx \<Rightarrow> MsgAckExecutiveAuthorityKey \<Rightarrow> (vkv, unit) M" where
  "AckExecutiveAuthorityKey E x c msg =
     bindM (liftR (ValidateProposerIsCreator E x c (ma_creator msg))) (\<lambda>_.
     bindM (GetPendingRoundWithCeremony (ma_vote_round_id msg) CEREMONY_STATUS_DEALT) (\<lambda>rd.
     failIf (FindValidatorInRoundCeremony rd (ma_creator msg) = None) ErrNotRegisteredValidator (
     failIf (FindAckInRoundCeremony rd (ma_creator msg) \<noteq> None) ErrDuplicateAck (
     failIf (ma_ack_signature msg \<noteq> sha256AckDigest (envLib E) (ea_pk rd) (ma_creator msg))
       ErrInvalidField (
     let rd1 = rd\<lparr>ceremony_acks := ceremony_acks rd @
           [\<lparr>ack_validator_address = ma_creator msg, ack_signature = ma_ack_signature msg,
             ack_height = heightU64 c\<rparr>]\<rparr>;
         nAcks = length (ceremony_acks rd1); nVals = length (ceremony_validators rd1);
         rd2 = AppendCeremonyLog rd1 (heightU64 c)
           (str ''ack from '' @ ma_creator msg @ str '' ('' @ fmtNat nAcks @ str ''/'' @ fmtNat nVals @
            str '' acked)'');
         rd3 = (if nAcks = nVals
           then AppendCeremonyLog
             (rd2\<lparr>ceremony_status := CEREMONY_STATUS_CONFIRMED, status := SESSION_STATUS_ACTIVE\<rparr>)
             (heightU64 c)
             (str ''ceremony confirmed ('' @ fmtNat nAcks @ str ''/'' @ fmtNat nVals @
              str '' acked), round ACTIVE'')
           else rd2)
     in SetVoteRound rd3)))))"

section \<open>Round creation\<close>

fun assignShamirIndices :: "nat \<Rightarrow> ValidatorPallasKey list \<Rightarrow> ValidatorPallasKey list" where
  "assignShamirIndices i [] = []"
| "assignShamirIndices i (v # vs) =
     v\<lparr>vpk_shamir_index := word_of_nat (i + 1)\<rparr> # assignShamirIndices (Suc i) vs"

definition deriveRoundID :: "('x, 'h) env \<Rightarrow> MsgCreateVotingSession \<Rightarrow> u64 \<Rightarrow> bytes res" where
  "deriveRoundID E msg createdAtHeight =
     DeriveRoundID E createdAtHeight (mc_snapshot_blockhash msg) (mc_proposals_hash msg)
       (mc_vote_end_time msg) (mc_nullifier_imt_root msg) (mc_nc_root msg)"

definition newRound :: "ctx \<Rightarrow> bytes \<Rightarrow> ValidatorPallasKey list \<Rightarrow> MsgCreateVotingSession \<Rightarrow> VoteRound" where
  "newRound c roundID validators msg =
     \<lparr>vote_round_id = roundID, snapshot_height = mc_snapshot_height msg,
      snapshot_blockhash = mc_snapshot_blockhash msg, proposals_hash = mc_proposals_hash msg,
      vote_end_time = mc_vote_end_time msg, nullifier_imt_root = mc_nullifier_imt_root msg,
      nc_root = mc_nc_root msg, creator = mc_creator msg, status = SESSION_STATUS_PENDING,
      ea_pk = [], proposals = mc_proposals msg, description = mc_description msg,
      created_at_height = heightU64 c, title = mc_title msg,
      ceremony_status = CEREMONY_STATUS_REGISTERING, ceremony_validators = validators,
      ceremony_acks = [], ceremony_phase_start = unixU64 c,
      ceremony_phase_timeout = DefaultContributionTimeout, ceremony_log = [], threshold = 0,
      feldman_commitments = [], tally_phase_start = 0, tally_phase_timeout = 0,
      tally_timed_out = False, dkg_contributions = [], discussion_url = mc_discussion_url msg,
      created_at_time = unixU64 c\<rparr>"

text \<open>
  \<^verbatim>\<open>GetVoteRound\<close> is called for its three outcomes: found, \<^verbatim>\<open>ErrRoundNotFound\<close>, and
  any other error.
\<close>

definition catchM :: "('s, 'a) M \<Rightarrow> ('s, 'a res) M" where
  "catchM m = (\<lambda>s. case m s of (r, s') \<Rightarrow> (Inr r, s'))"

definition executeCreateVotingSession ::
  "('x, 'h) env \<Rightarrow> 'x \<Rightarrow> ctx \<Rightarrow> MsgCreateVotingSession \<Rightarrow> (vkv, bytes) M" where
  "executeCreateVotingSession E x c msg =
     bindM (liftR (deriveRoundID E msg (heightU64 c))) (\<lambda>roundID.
     bindM (catchM (GetVoteRound roundID)) (\<lambda>existing.
     failIf (case existing of Inr _ \<Rightarrow> True | Inl _ \<Rightarrow> False) ErrRoundAlreadyExists (
     bindM (case existing of
              Inl e \<Rightarrow> if e \<noteq> ErrRoundNotFound then throwM e else returnM ()
            | Inr _ \<Rightarrow> returnM ()) (\<lambda>_.
     bindM HasPendingRound (\<lambda>hasPending.
     failIf hasPending ErrCeremonySessionActive (
     bindM (GetEligibleValidators E x) (\<lambda>eligible.
     bindM GetMinCeremonyValidators (\<lambda>minVal.
     failIf ((word_of_nat (length eligible) :: u32) < minVal) ErrInsufficientValidators (
     let rd = AppendCeremonyLog (newRound c roundID (assignShamirIndices 0 eligible) msg) (heightU64 c)
           (str ''round created with '' @ fmtNat (length eligible) @ str '' ceremony validators'')
     in thenM (SetVoteRound rd) (returnM roundID))))))))))"

section \<open>Jailing\<close>

fun missingLoop :: "gostring list \<Rightarrow> gostring list \<Rightarrow> ValidatorPallasKey list \<Rightarrow> gostring list" where
  "missingLoop seen added [] = []"
| "missingLoop seen added (v # vs) =
     (let addr = vpk_validator_address v in
      if addr \<in> set seen then missingLoop seen added vs
      else if addr \<in> set added then missingLoop seen added vs
      else addr # missingLoop seen (addr # added) vs)"

definition missingCeremonyValidators :: "VoteRound \<Rightarrow> gostring list \<Rightarrow> gostring list" where
  "missingCeremonyValidators rd seen = missingLoop seen [] (ceremony_validators rd)"

definition MissingCeremonyContributors :: "VoteRound \<Rightarrow> gostring list" where
  "MissingCeremonyContributors rd =
     missingCeremonyValidators rd (map dkg_validator_address (dkg_contributions rd))"

record CeremonyJailResult =
  cjr_validator_address :: gostring
  cjr_cons_address :: bytes
  cjr_jailed_until :: int

definition jailCeremonyValidators ::
  "('x, 'h) env \<Rightarrow> ctx \<Rightarrow> gostring list \<Rightarrow> ('x, CeremonyJailResult list) M" where
  "jailCeremonyValidators E c valoperAddrs =
     (if valoperAddrs = [] then returnM []
      else (case stakingKeeper E of
        None \<Rightarrow> throwM ErrOther
      | Some sk \<Rightarrow>
          (case slashingKeeper E of
             None \<Rightarrow> throwM ErrOther
           | Some sl \<Rightarrow>
               bindM (getM (DowntimeJailDuration sl)) (\<lambda>dur.
               bindM (liftR dur) (\<lambda>jailDuration.
               let jailedUntil = block_time c + jailDuration in
               bindM (mapM (\<lambda>valoperAddr.
                 (case ValAddressFromBech32 (envLib E) valoperAddr of
                    None \<Rightarrow> throwM ErrOther
                  | Some valAddr \<Rightarrow>
                      bindM (getM (\<lambda>x. GetValidator sk x valAddr)) (\<lambda>gv.
                      bindM (liftR gv) (\<lambda>validator.
                      if val_jailed validator then returnM []
                      else
                        bindM (liftR (val_cons_addr validator)) (\<lambda>consAddr.
                        thenM (Jail sl consAddr) (
                        thenM (JailUntil sl consAddr jailedUntil) (
                        returnM [\<lparr>cjr_validator_address = valoperAddr, cjr_cons_address = consAddr,
                          cjr_jailed_until = jailedUntil\<rparr>])))))))
                 valoperAddrs) (\<lambda>results. returnM (concat results)))))))"

definition JailCeremonyNonContributors ::
  "('x, 'h) env \<Rightarrow> ctx \<Rightarrow> VoteRound \<Rightarrow> ('x, CeremonyJailResult list) M" where
  "JailCeremonyNonContributors E c rd = jailCeremonyValidators E c (MissingCeremonyContributors rd)"

end
