(* ===== verification/Ceremony_Invariant.thy ===== *)
theory Ceremony_Invariant
  imports Msg_Ceremony "HOL-Library.Sublist"
begin

text \<open>
  What a stored round promises about its key ceremony (\<open>ceremony_ok\<close>), and that round
  creation, contributions and acknowledgements keep the promise. The number \<open>n\<close> is the
  number of validators the round was created with; it fixes the threshold and the Shamir
  indices, also after validators that did not acknowledge have been removed.
\<close>

section \<open>The invariant\<close>

definition participants_ok :: "VoteRound \<Rightarrow> bool" where
  "participants_ok rd \<longleftrightarrow>
     (let vs = map vpk_validator_address (ceremony_validators rd);
          cs = map dkg_validator_address (dkg_contributions rd);
          as = map ack_validator_address (ceremony_acks rd)
      in distinct vs \<and> distinct cs \<and> distinct as \<and> set cs \<subseteq> set vs \<and> set as \<subseteq> set vs)"

definition indices_ok :: "nat \<Rightarrow> VoteRound \<Rightarrow> bool" where
  "indices_ok n rd \<longleftrightarrow>
     subseq (map vpk_shamir_index (ceremony_validators rd)) (map word_of_nat [1..<Suc n])"

definition dealt :: "('s::field, 'p::ab_group_add) curve \<Rightarrow> nat \<Rightarrow> VoteRound \<Rightarrow> bool" where
  "dealt C n rd \<longleftrightarrow> (\<exists>combined t.
     ThresholdForN (int n) = Inr t \<and> int (length combined) = t \<and> threshold rd = word_of_int t \<and>
     hd combined \<noteq> 0 \<and> ea_pk rd = ToAffineCompressed C (hd combined) \<and>
     feldman_commitments rd = map (ToAffineCompressed C) combined \<and>
     (\<forall>i \<in> {1..int n}. \<exists>vk. EvalCommitmentPolynomial C combined i = Inr vk \<and> vk \<noteq> 0))"

definition phase_ok :: "('s::field, 'p::ab_group_add) curve \<Rightarrow> nat \<Rightarrow> VoteRound \<Rightarrow> bool" where
  "phase_ok C n rd \<longleftrightarrow>
     (case ceremony_status rd of
        CEREMONY_STATUS_UNSPECIFIED \<Rightarrow> False
      | CEREMONY_STATUS_REGISTERING \<Rightarrow> length (ceremony_validators rd) = n \<and> ceremony_acks rd = []
      | CEREMONY_STATUS_DEALT \<Rightarrow>
          length (ceremony_validators rd) = n \<and> length (dkg_contributions rd) = n \<and> dealt C n rd
      | CEREMONY_STATUS_CONFIRMED \<Rightarrow>
          dealt C n rd \<and>
          set (map vpk_validator_address (ceremony_validators rd)) =
            set (map ack_validator_address (ceremony_acks rd)) \<and>
          (\<forall>t. ThresholdForN (int n) = Inr t \<longrightarrow> t \<le> int (length (ceremony_validators rd))))"

definition session_ok :: "VoteRound \<Rightarrow> bool" where
  "session_ok rd \<longleftrightarrow>
     status rd \<noteq> SESSION_STATUS_UNSPECIFIED \<and>
     (status rd \<in> {SESSION_STATUS_ACTIVE, SESSION_STATUS_TALLYING, SESSION_STATUS_FINALIZED} \<longleftrightarrow>
      ceremony_status rd = CEREMONY_STATUS_CONFIRMED)"

definition ceremony_ok :: "('s::field, 'p::ab_group_add) curve \<Rightarrow> VoteRound \<Rightarrow> bool" where
  "ceremony_ok C rd \<longleftrightarrow>
     participants_ok rd \<and> session_ok rd \<and> (\<exists>n. indices_ok n rd \<and> phase_ok C n rd)"

definition rounds_ok :: "('s::field, 'p::ab_group_add) curve \<Rightarrow> vkv \<Rightarrow> bool" where
  "rounds_ok C s \<longleftrightarrow> (\<forall>r rd. roundOf s r = Some rd \<longrightarrow> ceremony_ok C rd)"

lemma rounds_okD: "rounds_ok C s \<Longrightarrow> roundOf s r = Some rd \<Longrightarrow> ceremony_ok C rd"
  by (simp add: rounds_ok_def)

lemma rounds_ok_set:
  "rounds_ok C s \<Longrightarrow> ceremony_ok C rd \<Longrightarrow> rounds_ok C (kv_set (0x04 # r) (VVoteRound rd) s)"
  by (auto simp: rounds_ok_def get_simps)

lemma rounds_ok_cong: "roundOf s' = roundOf s \<Longrightarrow> rounds_ok C s' = rounds_ok C s"
  by (simp add: rounds_ok_def)

lemma indices_ok_cong:
  "ceremony_validators rd' = ceremony_validators rd \<Longrightarrow> indices_ok n rd' = indices_ok n rd"
  by (simp only: indices_ok_def)

lemma dealt_cong:
  "threshold rd' = threshold rd \<Longrightarrow> ea_pk rd' = ea_pk rd \<Longrightarrow>
     feldman_commitments rd' = feldman_commitments rd \<Longrightarrow> dealt C n rd' = dealt C n rd"
  by (simp only: dealt_def)

lemma subseq_set_mono: "subseq xs ys \<Longrightarrow> set xs \<subseteq> set ys"
  by (induction rule: list_emb.induct) auto

lemma subseq_distinct: "subseq xs ys \<Longrightarrow> distinct ys \<Longrightarrow> distinct xs"
  by (induction rule: list_emb.induct) (auto dest: subseq_set_mono)

lemma indices_distinct:
  assumes "indices_ok n rd" and "n < 2 ^ 32"
  shows "distinct (map vpk_shamir_index (ceremony_validators rd)) \<and>
    (\<forall>v \<in> set (ceremony_validators rd). 1 \<le> unat (vpk_shamir_index v) \<and> unat (vpk_shamir_index v) \<le> n)"
proof -
  have u: "unat (word_of_nat i :: u32) = i" if "i \<in> set [1..<Suc n]" for i
    using that assms(2) by (auto simp: unat_of_nat)
  then have "inj_on (word_of_nat :: nat \<Rightarrow> u32) (set [1..<Suc n])"
    by (metis inj_onI)
  then have "distinct (map (word_of_nat :: nat \<Rightarrow> u32) [1..<Suc n])"
    by (simp only: distinct_map distinct_upt simp_thms)
  then have "distinct (map vpk_shamir_index (ceremony_validators rd))"
    using assms(1) subseq_distinct unfolding indices_ok_def by blast
  moreover have "1 \<le> unat (vpk_shamir_index v) \<and> unat (vpk_shamir_index v) \<le> n"
    if "v \<in> set (ceremony_validators rd)" for v
  proof -
    from that have "vpk_shamir_index v \<in> set (map vpk_shamir_index (ceremony_validators rd))" by simp
    with subseq_set_mono[OF assms(1)[unfolded indices_ok_def]]
    have "vpk_shamir_index v \<in> set (map word_of_nat [1..<Suc n])" by (rule subsetD)
    then obtain i where i: "vpk_shamir_index v = word_of_nat i" "i \<in> set [1..<Suc n]"
      unfolding set_map by (rule imageE)
    then have "unat (vpk_shamir_index v) = i" using u by metis
    with i(2) show ?thesis by auto
  qed
  ultimately show ?thesis by blast
qed

section \<open>Lookups\<close>

lemma find_None_iff_map: "find (\<lambda>x. f x = a) xs = None \<longleftrightarrow> a \<notin> set (map f xs)"
  by (auto simp: find_None_iff)

lemma findIndexFrom_None_iff: "findIndexFrom i p xs = None \<longleftrightarrow> (\<forall>x \<in> set xs. \<not> p x)"
  by (induction xs arbitrary: i) auto

lemma Find_None_iff:
  "FindValidatorInRoundCeremony rd a = None \<longleftrightarrow>
     a \<notin> set (map vpk_validator_address (ceremony_validators rd))"
  "FindContributionInRound rd a = None \<longleftrightarrow>
     a \<notin> set (map dkg_validator_address (dkg_contributions rd))"
  "FindAckInRoundCeremony rd a = None \<longleftrightarrow> a \<notin> set (map ack_validator_address (ceremony_acks rd))"
  by (auto simp: FindValidatorInRoundCeremony_def FindContributionInRound_def
      FindAckInRoundCeremony_def find_None_iff_map findIndexFrom_None_iff)

section \<open>Contributions\<close>

lemma assignShamirIndices_addresses [simp]:
  "map vpk_validator_address (assignShamirIndices i vs) = map vpk_validator_address vs"
  "length (assignShamirIndices i vs) = length vs"
  by (induction vs arbitrary: i) simp_all

lemma assignShamirIndices_indices:
  "map vpk_shamir_index (assignShamirIndices i vs) = map word_of_nat [Suc i..<Suc (i + length vs)]"
proof (induction vs arbitrary: i)
  case Nil
  then show ?case by simp
next
  case (Cons v vs)
  have "[Suc i..<Suc (i + length (v # vs))] = Suc i # [Suc (Suc i)..<Suc (Suc i + length vs)]"
    by (simp add: upt_conv_Cons del: upt_Suc)
  then show ?case using Cons.IH[of "Suc i"] by simp
qed

lemma verificationKeyLoop_Inr:
  "verificationKeyLoop C combined i vs = Inr vs' \<Longrightarrow>
     vs' = assignShamirIndices i vs \<and>
     (\<forall>k < length vs. \<exists>vk. EvalCommitmentPolynomial C combined (int (i + k) + 1) = Inr vk \<and> vk \<noteq> 0)"
proof (induction vs arbitrary: i vs')
  case Nil
  then show ?case by simp
next
  case (Cons v vs)
  from Cons.prems obtain vk ws where
    vk: "EvalCommitmentPolynomial C combined (int i + 1) = Inr vk" "vk \<noteq> 0" and
    ws: "verificationKeyLoop C combined (Suc i) vs = Inr ws" and
    vs': "vs' = v\<lparr>vpk_shamir_index := word_of_nat (i + 1)\<rparr> # ws"
    by (auto simp: bindR_Inr_iff wrapErr_Inr_iff)
  have "\<exists>vk. EvalCommitmentPolynomial C combined (int (i + k) + 1) = Inr vk \<and> vk \<noteq> 0"
    if "k < length (v # vs)" for k
    using that vk Cons.IH[OF ws] by (cases k) auto
  with vs' Cons.IH[OF ws] show ?case by simp
qed

lemma payloadLoop_Inr:
  "payloadLoop C rd a covered ps = Inr u \<Longrightarrow>
     distinct (map dp_validator_address ps) \<and>
     set (map dp_validator_address ps) \<inter> set covered = {} \<and>
     a \<notin> set (map dp_validator_address ps) \<and>
     set (map dp_validator_address ps) \<subseteq> set (map vpk_validator_address (ceremony_validators rd))"
proof (induction ps arbitrary: covered)
  case Nil
  then show ?case by simp
next
  case (Cons p ps)
  then have rest: "payloadLoop C rd a (dp_validator_address p # covered) ps = Inr u"
    and p: "dp_validator_address p \<noteq> a" "dp_validator_address p \<notin> set covered"
      "dp_validator_address p \<in> set (map vpk_validator_address (ceremony_validators rd))"
    by (simp_all add: bindR_Inr_iff Find_None_iff(1))
  from Cons.IH[OF rest] p show ?case by auto
qed

lemma CombineCommitments_Inr:
  assumes "CombineCommitments C css = Inr combined"
  shows "css \<noteq> [] \<and> (\<forall>cs \<in> set css. length combined = length cs)"
proof -
  from assms have c: "css \<noteq> []" "length combined = length (hd css)"
    and all: "\<forall>j < length css. length (css ! j) = length (hd css)"
    by (auto simp: CombineCommitments_def Let_def bindR_Inr_iff forR_Inr_iff)
  then show ?thesis by (metis in_set_conv_nth)
qed

lemma list_case_Inr_iff:
  "(case xs of [] \<Rightarrow> Inl e | y # ys \<Rightarrow> f y ys) = Inr b \<longleftrightarrow> xs \<noteq> [] \<and> f (hd xs) (tl xs) = Inr b"
  by (cases xs) simp_all

text \<open>What the finished key generation leaves in the round.\<close>

lemma finalizeDKG_Inr:
  assumes "finalizeDKG C c rd n thr = Inr rd'"
  shows "\<exists>css combined log.
    mapR (\<lambda>k. mapR (UnmarshalPublicKey C) (dkg_feldman_commitments k)) (dkg_contributions rd) = Inr css \<and>
    CombineCommitments C css = Inr combined \<and> hd combined \<noteq> 0 \<and>
    (\<forall>i \<in> {1..int (length (ceremony_validators rd))}.
       \<exists>vk. EvalCommitmentPolynomial C combined i = Inr vk \<and> vk \<noteq> 0) \<and>
    rd' = rd\<lparr>ea_pk := ToAffineCompressed C (hd combined),
      feldman_commitments := map (ToAffineCompressed C) combined, threshold := word_of_int thr,
      ceremony_validators := assignShamirIndices 0 (ceremony_validators rd),
      ceremony_phase_start := unixU64 c, ceremony_phase_timeout := DefaultDealTimeout,
      ceremony_status := CEREMONY_STATUS_DEALT, ceremony_log := log\<rparr>"
proof -
  from assms obtain css combined vs log where
    css: "mapR (\<lambda>k. mapR (UnmarshalPublicKey C) (dkg_feldman_commitments k)) (dkg_contributions rd) = Inr css"
    "CombineCommitments C css = Inr combined" "hd combined \<noteq> 0" and
    vs: "verificationKeyLoop C combined 0 (ceremony_validators rd) = Inr vs" and
    rd': "rd' = rd\<lparr>ea_pk := ToAffineCompressed C (hd combined),
      feldman_commitments := map (ToAffineCompressed C) combined, threshold := word_of_int thr,
      ceremony_validators := vs, ceremony_phase_start := unixU64 c,
      ceremony_phase_timeout := DefaultDealTimeout, ceremony_status := CEREMONY_STATUS_DEALT,
      ceremony_log := log\<rparr>"
    by (auto simp: finalizeDKG_def bindR_Inr_iff Let_def AppendCeremonyLog_def list_case_Inr_iff)
  have "\<exists>vk. EvalCommitmentPolynomial C combined i = Inr vk \<and> vk \<noteq> 0"
    if "i \<in> {1..int (length (ceremony_validators rd))}" for i
    using conjunct2[OF verificationKeyLoop_Inr[OF vs], rule_format, of "nat (i - 1)"] that by auto
  with css rd' verificationKeyLoop_Inr[OF vs] show ?thesis by blast
qed

text \<open>The contribution a message carries.\<close>

definition contributionOf :: "MsgContributeDKG \<Rightarrow> DKGContribution" where
  "contributionOf msg = \<lparr>dkg_validator_address = mdk_creator msg,
     dkg_feldman_commitments = mdk_feldman_commitments msg, dkg_payloads = mdk_payloads msg\<rparr>"

lemma ContributeDKG_Inr:
  assumes "ContributeDKG E C x c msg s = (Inr u, s')"
  shows "\<exists>rd rd' t. isProposer E x c (mdk_creator msg) \<and>
    length (mdk_vote_round_id msg) = 32 \<and> roundOf s (mdk_vote_round_id msg) = Some rd \<and>
    status rd = SESSION_STATUS_PENDING \<and> ceremony_status rd = CEREMONY_STATUS_REGISTERING \<and>
    mdk_creator msg \<in> set (map vpk_validator_address (ceremony_validators rd)) \<and>
    mdk_creator msg \<notin> set (map dkg_validator_address (dkg_contributions rd)) \<and>
    ThresholdForN (int (length (ceremony_validators rd))) = Inr t \<and>
    int (length (mdk_feldman_commitments msg)) = t \<and>
    length (mdk_payloads msg) = length (ceremony_validators rd) - 1 \<and>
    payloadLoop C rd (mdk_creator msg) [] (mdk_payloads msg) = Inr () \<and>
    VerifyConstantTermProof (envLib E) C (mdk_constant_term_proof msg) (chain_id c)
      (mdk_vote_round_id msg) (mdk_creator msg) (mdk_feldman_commitments msg) = Inr () \<and>
    (let rd1 = rd\<lparr>dkg_contributions := dkg_contributions rd @ [contributionOf msg]\<rparr> in
     if Suc (length (dkg_contributions rd)) = length (ceremony_validators rd)
     then finalizeDKG C c rd1 (length (ceremony_validators rd)) t = Inr rd'
     else (\<exists>log. rd' = rd1\<lparr>ceremony_log := log\<rparr>)) \<and>
    s' = kv_set (0x04 # vote_round_id rd') (VVoteRound rd') s"
proof -
  from assms obtain rd t rd' log where h: "isProposer E x c (mdk_creator msg)"
    "length (mdk_vote_round_id msg) = 32" "roundOf s (mdk_vote_round_id msg) = Some rd"
    "status rd = SESSION_STATUS_PENDING" "ceremony_status rd = CEREMONY_STATUS_REGISTERING"
    "FindValidatorInRoundCeremony rd (mdk_creator msg) \<noteq> None"
    "FindContributionInRound rd (mdk_creator msg) = None"
    "ThresholdForN (int (length (ceremony_validators rd))) = Inr t"
    "int (length (mdk_feldman_commitments msg)) = t"
    "length (mdk_payloads msg) = length (ceremony_validators rd) - 1"
    "payloadLoop C rd (mdk_creator msg) [] (mdk_payloads msg) = Inr ()"
    "VerifyConstantTermProof (envLib E) C (mdk_constant_term_proof msg) (chain_id c)
      (mdk_vote_round_id msg) (mdk_creator msg) (mdk_feldman_commitments msg) = Inr ()"
    "(if Suc (length (dkg_contributions rd)) = length (ceremony_validators rd)
      then finalizeDKG C c (rd\<lparr>dkg_contributions := dkg_contributions rd @ [contributionOf msg]\<rparr>)
        (length (ceremony_validators rd)) t
      else Inr (AppendCeremonyLog (rd\<lparr>dkg_contributions := dkg_contributions rd @ [contributionOf msg]\<rparr>)
        (heightU64 c) log)) = Inr rd'"
    "s' = kv_set (0x04 # vote_round_id rd') (VVoteRound rd') s"
    unfolding ContributeDKG_def Let_def contributionOf_def
    by (clarsimp simp: succ_iffs GetPendingRoundWithCeremony_Inr_iff
        ValidateProposerIsCreator_Inr_iff SetVoteRound_Inr_iff simp del: not_None_eq)
  have "let rd1 = rd\<lparr>dkg_contributions := dkg_contributions rd @ [contributionOf msg]\<rparr> in
     if Suc (length (dkg_contributions rd)) = length (ceremony_validators rd)
     then finalizeDKG C c rd1 (length (ceremony_validators rd)) t = Inr rd'
     else (\<exists>log. rd' = rd1\<lparr>ceremony_log := log\<rparr>)"
    using h(13) by (auto simp: AppendCeremonyLog_def Let_def split: if_splits)
  with h show ?thesis unfolding Find_None_iff by blast
qed

text \<open>A successful contribution keeps the invariant.\<close>

lemma indices_ok_assign: "indices_ok (length vs) (rd\<lparr>ceremony_validators := assignShamirIndices 0 vs\<rparr>)"
  by (simp add: indices_ok_def assignShamirIndices_indices del: upt_Suc)

lemma ceremony_ok_contribute:
  assumes "ceremony_ok C rd" and "status rd = SESSION_STATUS_PENDING"
    and "ceremony_status rd = CEREMONY_STATUS_REGISTERING"
    and "dkg_validator_address k \<in> set (map vpk_validator_address (ceremony_validators rd))"
    and "dkg_validator_address k \<notin> set (map dkg_validator_address (dkg_contributions rd))"
  shows "ceremony_ok C (rd\<lparr>dkg_contributions := dkg_contributions rd @ [k], ceremony_log := log\<rparr>)"
  using assms by (auto simp: ceremony_ok_def participants_ok_def session_ok_def indices_ok_def
      phase_ok_def Let_def)

lemma ceremony_ok_deal:
  assumes ok: "ceremony_ok C rd" and st: "status rd = SESSION_STATUS_PENDING"
    "ceremony_status rd = CEREMONY_STATUS_REGISTERING"
    and n: "length (dkg_contributions rd) = length (ceremony_validators rd)"
    and t: "ThresholdForN (int (length (ceremony_validators rd))) = Inr t"
    and k: "k \<in> set (dkg_contributions rd)" "int (length (dkg_feldman_commitments k)) = t"
    and fin: "finalizeDKG C c rd m t = Inr rd'"
  shows "ceremony_ok C rd'"
proof -
  from finalizeDKG_Inr[OF fin] obtain css combined log where
    css: "mapR (\<lambda>k. mapR (UnmarshalPublicKey C) (dkg_feldman_commitments k)) (dkg_contributions rd) = Inr css"
    and cm: "CombineCommitments C css = Inr combined" "hd combined \<noteq> 0"
    and vk: "\<forall>i \<in> {1..int (length (ceremony_validators rd))}.
       \<exists>vk. EvalCommitmentPolynomial C combined i = Inr vk \<and> vk \<noteq> 0"
    and rd': "rd' = rd\<lparr>ea_pk := ToAffineCompressed C (hd combined),
      feldman_commitments := map (ToAffineCompressed C) combined, threshold := word_of_int t,
      ceremony_validators := assignShamirIndices 0 (ceremony_validators rd),
      ceremony_phase_start := unixU64 c, ceremony_phase_timeout := DefaultDealTimeout,
      ceremony_status := CEREMONY_STATUS_DEALT, ceremony_log := log\<rparr>" by blast
  from k(1) obtain i where i: "i < length (dkg_contributions rd)" "k = dkg_contributions rd ! i"
    by (auto simp: in_set_conv_nth)
  from css[unfolded mapR_Inr_iff] i have "length (css ! i) = length (dkg_feldman_commitments k)"
    "css ! i \<in> set css" by (auto simp: mapR_Inr_iff)
  with CombineCommitments_Inr[OF cm(1)] k(2) have len: "int (length combined) = t" by metis
  have "dealt C (length (ceremony_validators rd)) rd'"
    unfolding dealt_def using t len cm(2) vk by (intro exI[of _ combined] exI[of _ t]) (simp add: rd')
  moreover have "indices_ok (length (ceremony_validators rd)) rd'"
    using indices_ok_assign[of "ceremony_validators rd" rd] by (simp add: indices_ok_def rd')
  moreover have "participants_ok rd'" "session_ok rd'"
    using ok st by (simp_all add: ceremony_ok_def participants_ok_def session_ok_def rd')
  ultimately show ?thesis using n by (auto simp: ceremony_ok_def phase_ok_def rd')
qed

lemma ContributeDKG_rounds_ok:
  assumes "kv_wf s" and "rounds_ok C s" and "ContributeDKG E C x c msg s = (Inr u, s')"
  shows "kv_wf s' \<and> rounds_ok C s'"
proof -
  from ContributeDKG_Inr[OF assms(3)] obtain rd rd' t where
    r: "roundOf s (mdk_vote_round_id msg) = Some rd" "length (mdk_vote_round_id msg) = 32"
    and st: "status rd = SESSION_STATUS_PENDING" "ceremony_status rd = CEREMONY_STATUS_REGISTERING"
    and a: "mdk_creator msg \<in> set (map vpk_validator_address (ceremony_validators rd))"
      "mdk_creator msg \<notin> set (map dkg_validator_address (dkg_contributions rd))"
    and t: "ThresholdForN (int (length (ceremony_validators rd))) = Inr t"
      "int (length (mdk_feldman_commitments msg)) = t"
    and step: "let rd1 = rd\<lparr>dkg_contributions := dkg_contributions rd @ [contributionOf msg]\<rparr> in
     if Suc (length (dkg_contributions rd)) = length (ceremony_validators rd)
     then finalizeDKG C c rd1 (length (ceremony_validators rd)) t = Inr rd'
     else (\<exists>log. rd' = rd1\<lparr>ceremony_log := log\<rparr>)"
    and s': "s' = kv_set (0x04 # vote_round_id rd') (VVoteRound rd') s"
    by blast
  define rd1 where "rd1 = rd\<lparr>dkg_contributions := dkg_contributions rd @ [contributionOf msg]\<rparr>"
  have ok1: "ceremony_ok C (rd1\<lparr>ceremony_log := log\<rparr>)" for log
    unfolding rd1_def using ceremony_ok_contribute[OF rounds_okD[OF assms(2) r(1)] st, of "contributionOf msg"] a
    by (simp add: contributionOf_def)
  from ok1[of "ceremony_log rd1"] have ok: "ceremony_ok C rd1" by simp
  have "ceremony_ok C rd' \<and> vote_round_id rd' = vote_round_id rd"
  proof (cases "Suc (length (dkg_contributions rd)) = length (ceremony_validators rd)")
    case True
    with step have fin: "finalizeDKG C c rd1 (length (ceremony_validators rd)) t = Inr rd'"
      by (simp add: rd1_def Let_def)
    have "ceremony_ok C rd'"
      by (rule ceremony_ok_deal[OF ok _ _ _ _ _ _ fin, where k = "contributionOf msg"])
        (use True st t in \<open>simp_all add: rd1_def contributionOf_def\<close>)
    moreover from finalizeDKG_Inr[OF fin] have "vote_round_id rd' = vote_round_id rd"
      by (auto simp: rd1_def)
    ultimately show ?thesis by blast
  next
    case False
    with step obtain log where "rd' = rd1\<lparr>ceremony_log := log\<rparr>" by (auto simp: rd1_def Let_def)
    with ok1 show ?thesis by (simp add: rd1_def)
  qed
  then show ?thesis
    using s' kv_wf_set_round[OF assms(1), of rd'] rounds_ok_set[OF assms(2)] roundOf_wf[OF assms(1) r(1)]
    by auto
qed

section \<open>Acknowledgements\<close>

lemma ThresholdForN_le: "ThresholdForN n = Inr t \<Longrightarrow> 1 \<le> t \<and> t \<le> n"
  by (auto simp: ThresholdForN_def Let_def split: if_splits)

lemma subset_same_length_eq:
  assumes "distinct xs" and "distinct ys" and "set xs \<subseteq> set ys" and "length xs = length ys"
  shows "set xs = set ys"
  using assms by (intro card_subset_eq) (simp_all add: distinct_card)

definition ackOf :: "ctx \<Rightarrow> MsgAckExecutiveAuthorityKey \<Rightarrow> AckEntry" where
  "ackOf c msg = \<lparr>ack_validator_address = ma_creator msg, ack_signature = ma_ack_signature msg,
     ack_height = heightU64 c\<rparr>"

text \<open>The round after an acknowledgement, up to its log.\<close>

definition ackedRound :: "ctx \<Rightarrow> MsgAckExecutiveAuthorityKey \<Rightarrow> VoteRound \<Rightarrow> VoteRound" where
  "ackedRound c msg rd =
     (let rd1 = rd\<lparr>ceremony_acks := ceremony_acks rd @ [ackOf c msg]\<rparr> in
      if Suc (length (ceremony_acks rd)) = length (ceremony_validators rd)
      then rd1\<lparr>ceremony_status := CEREMONY_STATUS_CONFIRMED, status := SESSION_STATUS_ACTIVE\<rparr>
      else rd1)"

lemma AckExecutiveAuthorityKey_Inr:
  assumes "AckExecutiveAuthorityKey E x c msg s = (Inr u, s')"
  shows "\<exists>rd log. isProposer E x c (ma_creator msg) \<and>
    length (ma_vote_round_id msg) = 32 \<and> roundOf s (ma_vote_round_id msg) = Some rd \<and>
    status rd = SESSION_STATUS_PENDING \<and> ceremony_status rd = CEREMONY_STATUS_DEALT \<and>
    ma_creator msg \<in> set (map vpk_validator_address (ceremony_validators rd)) \<and>
    ma_creator msg \<notin> set (map ack_validator_address (ceremony_acks rd)) \<and>
    ma_ack_signature msg = sha256AckDigest (envLib E) (ea_pk rd) (ma_creator msg) \<and>
    s' = kv_set (0x04 # vote_round_id rd) (VVoteRound (ackedRound c msg rd\<lparr>ceremony_log := log\<rparr>)) s"
proof -
  from assms obtain rd where h: "isProposer E x c (ma_creator msg)"
    "length (ma_vote_round_id msg) = 32" "roundOf s (ma_vote_round_id msg) = Some rd"
    "status rd = SESSION_STATUS_PENDING" "ceremony_status rd = CEREMONY_STATUS_DEALT"
    "FindValidatorInRoundCeremony rd (ma_creator msg) \<noteq> None"
    "FindAckInRoundCeremony rd (ma_creator msg) = None"
    "ma_ack_signature msg = sha256AckDigest (envLib E) (ea_pk rd) (ma_creator msg)"
    unfolding AckExecutiveAuthorityKey_def
    by (clarsimp simp: succ_iffs GetPendingRoundWithCeremony_Inr_iff
        ValidateProposerIsCreator_Inr_iff simp del: not_None_eq)
  have "ValidateProposerIsCreator E x c (ma_creator msg) = Inr ()"
    using assms by (auto simp: AckExecutiveAuthorityKey_def succ_iffs)
  moreover have "GetPendingRoundWithCeremony (ma_vote_round_id msg) CEREMONY_STATUS_DEALT s = (Inr rd, s)"
    using h by (simp add: GetPendingRoundWithCeremony_Inr_iff)
  ultimately obtain log where
    "SetVoteRound (ackedRound c msg rd\<lparr>ceremony_log := log\<rparr>) s = (Inr u, s')"
    using assms h(6-8) unfolding AckExecutiveAuthorityKey_def
    by (simp add: bindM_def liftR_def Let_def AppendCeremonyLog_def ackedRound_def ackOf_def)
      (auto simp: AppendCeremonyLog_def split: if_splits)
  moreover have "vote_round_id (ackedRound c msg rd\<lparr>ceremony_log := log\<rparr>) = vote_round_id rd"
    by (simp add: ackedRound_def Let_def)
  ultimately show ?thesis using h unfolding Find_None_iff SetVoteRound_Inr_iff by metis
qed

lemma ceremony_ok_ack:
  assumes ok: "ceremony_ok C rd" and st: "status rd = SESSION_STATUS_PENDING"
    "ceremony_status rd = CEREMONY_STATUS_DEALT"
    and a: "ma_creator msg \<in> set (map vpk_validator_address (ceremony_validators rd))"
      "ma_creator msg \<notin> set (map ack_validator_address (ceremony_acks rd))"
  shows "ceremony_ok C (ackedRound c msg rd\<lparr>ceremony_log := log\<rparr>)"
proof -
  let ?vs = "map vpk_validator_address (ceremony_validators rd)"
  let ?as = "map ack_validator_address (ceremony_acks rd @ [ackOf c msg])"
  from ok st obtain n where n: "indices_ok n rd" "length (ceremony_validators rd) = n"
    "length (dkg_contributions rd) = n" "dealt C n rd"
    by (auto simp: ceremony_ok_def phase_ok_def)
  have p: "distinct ?as" "set ?as \<subseteq> set ?vs" "distinct ?vs"
    using ok a by (auto simp: ceremony_ok_def participants_ok_def ackOf_def Let_def)
  have "participants_ok (ackedRound c msg rd\<lparr>ceremony_log := log\<rparr>)"
    using ok p by (auto simp: ceremony_ok_def participants_ok_def ackedRound_def Let_def)
  moreover have "phase_ok C n (ackedRound c msg rd\<lparr>ceremony_log := log\<rparr>)"
  proof (cases "Suc (length (ceremony_acks rd)) = length (ceremony_validators rd)")
    case True
    with p have "set ?vs = set ?as" by (metis subset_same_length_eq length_map length_append_singleton)
    then show ?thesis using n True ThresholdForN_le
      by (auto simp: phase_ok_def ackedRound_def dealt_def)
  next
    case False
    then show ?thesis using n st by (simp add: phase_ok_def ackedRound_def dealt_def)
  qed
  moreover have "indices_ok n (ackedRound c msg rd\<lparr>ceremony_log := log\<rparr>)"
    by (rule indices_ok_cong[THEN iffD2, OF _ n(1)]) (simp add: ackedRound_def Let_def)
  moreover have "session_ok (ackedRound c msg rd\<lparr>ceremony_log := log\<rparr>)"
    using st by (simp add: session_ok_def ackedRound_def Let_def)
  ultimately show ?thesis unfolding ceremony_ok_def by blast
qed

lemma Ack_rounds_ok:
  assumes "kv_wf s" and "rounds_ok C s" and "AckExecutiveAuthorityKey E x c msg s = (Inr u, s')"
  shows "kv_wf s' \<and> rounds_ok C s'"
proof -
  from AckExecutiveAuthorityKey_Inr[OF assms(3)] obtain rd log where
    r: "roundOf s (ma_vote_round_id msg) = Some rd" and
    st: "status rd = SESSION_STATUS_PENDING" "ceremony_status rd = CEREMONY_STATUS_DEALT"
      "ma_creator msg \<in> set (map vpk_validator_address (ceremony_validators rd))"
      "ma_creator msg \<notin> set (map ack_validator_address (ceremony_acks rd))" and
    s': "s' = kv_set (0x04 # vote_round_id rd) (VVoteRound (ackedRound c msg rd\<lparr>ceremony_log := log\<rparr>)) s"
    by blast
  have "vote_round_id (ackedRound c msg rd\<lparr>ceremony_log := log\<rparr>) = vote_round_id rd"
    by (simp add: ackedRound_def Let_def)
  then show ?thesis
    using s' kv_wf_set_round[OF assms(1), of "ackedRound c msg rd\<lparr>ceremony_log := log\<rparr>"]
      rounds_ok_set[OF assms(2) ceremony_ok_ack[OF rounds_okD[OF assms(2) r] st]] roundOf_wf[OF assms(1) r]
    by simp
qed

section \<open>Round creation\<close>

definition eligibleValidators :: "('x, 'h) env \<Rightarrow> 'x \<Rightarrow> vkv \<Rightarrow> ValidatorPallasKey list" where
  "eligibleValidators E x s =
     filter (\<lambda>p. IsActiveCeremonyValidator E x (vpk_validator_address p)) (pallasKeysOf s)"

definition noPending :: "vkv \<Rightarrow> bool" where
  "noPending s \<longleftrightarrow> (\<forall>r rd. roundOf s r = Some rd \<longrightarrow> status rd \<noteq> SESSION_STATUS_PENDING)"

lemma GetMinCeremonyValidators_Inr: "GetMinCeremonyValidators s = (Inr m, s') \<Longrightarrow> s' = s"
  by (auto simp: GetMinCeremonyValidators_def succ_iffs kvGetAs_Inr_iff split: option.splits if_splits)

lemma catchM_Inr_iff: "catchM m s = (Inr r, s') \<longleftrightarrow> m s = (r, s')"
  by (auto simp: catchM_def split: prod.splits)

lemma executeCreateVotingSession_Inr:
  assumes "kv_wf s" and "executeCreateVotingSession E x c msg s = (Inr r, s')"
  shows "\<exists>m log. deriveRoundID E msg (heightU64 c) = Inr r \<and> length r = 32 \<and> roundOf s r = None \<and>
    noPending s \<and> GetMinCeremonyValidators s = (Inr m, s) \<and>
    m \<le> word_of_nat (length (eligibleValidators E x s)) \<and>
    s' = kv_set (0x04 # r) (VVoteRound
      (newRound c r (assignShamirIndices 0 (eligibleValidators E x s)) msg\<lparr>ceremony_log := log\<rparr>)) s"
proof -
  from assms(2) have d: "deriveRoundID E msg (heightU64 c) = Inr r"
    unfolding executeCreateVotingSession_def
    by (clarsimp simp: succ_iffs catchM_Inr_iff Let_def SetVoteRound_Inr_iff)
  have len: "length r = 32"
    using assms(2) d unfolding executeCreateVotingSession_def
    by (clarsimp simp: succ_iffs SetVoteRound_Inr_iff Let_def) (simp add: newRound_def)
  have none: "roundOf s r = None"
    using assms(2) d unfolding executeCreateVotingSession_def
    by (auto simp: bindM_def liftR_def catchM_def GetVoteRound_wf[OF assms(1) len] failIf_def throwM_def
        split: option.splits)
  with GetVoteRound_wf[OF assms(1) len] have "GetVoteRound r s = (Inl ErrRoundNotFound, s)" by simp
  then have "\<exists>m. noPending s \<and> GetMinCeremonyValidators s = (Inr m, s) \<and>
    m \<le> word_of_nat (length (eligibleValidators E x s)) \<and>
    s' = kv_set (0x04 # r) (VVoteRound (AppendCeremonyLog
      (newRound c r (assignShamirIndices 0 (eligibleValidators E x s)) msg) (heightU64 c)
      (str ''round created with '' @ fmtNat (length (eligibleValidators E x s)) @ str '' ceremony validators''))) s"
    using assms(2) d len unfolding executeCreateVotingSession_def
    apply (clarsimp simp: succ_iffs catchM_def HasPendingRound_wf[OF assms(1)]
        GetEligibleValidators_wf[OF assms(1)] SetVoteRound_Inr_iff Let_def eligibleValidators_def[symmetric])
    apply (frule GetMinCeremonyValidators_Inr)
    apply (auto simp: newRound_def noPending_def not_less)
    done
  with d len none show ?thesis unfolding AppendCeremonyLog_def by blast
qed

lemma ceremony_ok_newRound:
  assumes "distinct (map vpk_validator_address vs)"
  shows "ceremony_ok C (newRound c r (assignShamirIndices 0 vs) msg\<lparr>ceremony_log := log\<rparr>)"
proof -
  let ?rd = "newRound c r (assignShamirIndices 0 vs) msg\<lparr>ceremony_log := log\<rparr>"
  have "indices_ok (length vs) ?rd"
    using indices_ok_assign[of vs ?rd] by (simp only: indices_ok_def newRound_def VoteRound.simps)
  moreover have "phase_ok C (length vs) ?rd" "participants_ok ?rd" "session_ok ?rd"
    using assms by (simp_all add: phase_ok_def participants_ok_def session_ok_def newRound_def)
  ultimately show ?thesis unfolding ceremony_ok_def by blast
qed

lemma eligible_distinct:
  assumes "kv_wf s"
  shows "distinct (map vpk_validator_address (eligibleValidators E x s))"
  using pallasKeysOf_distinct[OF assms] unfolding eligibleValidators_def
  by (simp add: distinct_map_filter)

lemma create_rounds_ok:
  assumes "kv_wf s" and "rounds_ok C s" and "executeCreateVotingSession E x c msg s = (Inr r, s')"
  shows "kv_wf s' \<and> rounds_ok C s'"
proof -
  from executeCreateVotingSession_Inr[OF assms(1,3)] obtain log where r: "length r = 32"
    and s': "s' = kv_set (0x04 # r) (VVoteRound
      (newRound c r (assignShamirIndices 0 (eligibleValidators E x s)) msg\<lparr>ceremony_log := log\<rparr>)) s"
    by blast
  have "vote_round_id (newRound c r (assignShamirIndices 0 (eligibleValidators E x s)) msg\<lparr>ceremony_log := log\<rparr>) = r"
    by (simp add: newRound_def)
  from kv_wf_set_round[OF assms(1), unfolded, of "newRound c r (assignShamirIndices 0 (eligibleValidators E x s)) msg\<lparr>ceremony_log := log\<rparr>"] this r
  have "kv_wf s'" by (simp add: s')
  then show ?thesis
    using s' rounds_ok_set[OF assms(2) ceremony_ok_newRound[OF eligible_distinct[OF assms(1)]]] by simp
qed

section \<open>Properties\<close>

text \<open>
  C31. Opening a voting session. A session that is created gets a round id nobody uses, no
  other round is waiting for its key at that time, and the stored round is pending with the
  eligible validators in registry order: each of them exactly once, holding its one-based
  position as Shamir index (distinct and non-zero below \<open>2 ^ 32\<close> validators), and at least as
  many as the configured minimum. Nothing else in the store changes, and every stored round
  keeps satisfying the ceremony invariant.
\<close>

theorem session_creation:
  assumes "kv_wf s" and "rounds_ok C s" and "executeCreateVotingSession E x c msg s = (Inr r, s')"
  shows "roundOf s r = None \<and> noPending s \<and> rounds_ok C s' \<and> kv_wf s' \<and>
    (\<forall>k. k \<noteq> 0x04 # r \<longrightarrow> kv_get s' k = kv_get s k) \<and>
    (\<exists>rd m. roundOf s' = (roundOf s)(r \<mapsto> rd) \<and> status rd = SESSION_STATUS_PENDING \<and>
       ceremony_status rd = CEREMONY_STATUS_REGISTERING \<and> dkg_contributions rd = [] \<and>
       map vpk_validator_address (ceremony_validators rd) =
         map vpk_validator_address (eligibleValidators E x s) \<and>
       map vpk_shamir_index (ceremony_validators rd) =
         map word_of_nat [1..<Suc (length (ceremony_validators rd))] \<and>
       distinct (map vpk_validator_address (ceremony_validators rd)) \<and>
       (length (ceremony_validators rd) < 2 ^ 32 \<longrightarrow>
          distinct (map vpk_shamir_index (ceremony_validators rd)) \<and>
          0 \<notin> set (map vpk_shamir_index (ceremony_validators rd))) \<and>
       GetMinCeremonyValidators s = (Inr m, s) \<and> m \<le> word_of_nat (length (ceremony_validators rd)))"
proof -
  let ?vs = "eligibleValidators E x s"
  from executeCreateVotingSession_Inr[OF assms(1,3)] obtain m log where h: "length r = 32"
    "roundOf s r = None" "noPending s" "GetMinCeremonyValidators s = (Inr m, s)"
    "m \<le> word_of_nat (length ?vs)" and
    s': "s' = kv_set (0x04 # r) (VVoteRound (newRound c r (assignShamirIndices 0 ?vs) msg\<lparr>ceremony_log := log\<rparr>)) s"
    by blast
  define rd where "rd = newRound c r (assignShamirIndices 0 ?vs) msg\<lparr>ceremony_log := log\<rparr>"
  have vs: "ceremony_validators rd = assignShamirIndices 0 ?vs" by (simp add: rd_def newRound_def)
  have idx: "map vpk_shamir_index (ceremony_validators rd) =
      map word_of_nat [1..<Suc (length (ceremony_validators rd))]"
    using assignShamirIndices_indices[of 0 ?vs] by (simp add: vs del: upt_Suc)
  have d: "distinct (map vpk_shamir_index (ceremony_validators rd)) \<and>
      0 \<notin> set (map vpk_shamir_index (ceremony_validators rd))"
    if small: "length (ceremony_validators rd) < 2 ^ 32"
  proof -
    have "indices_ok (length (ceremony_validators rd)) rd"
      unfolding indices_ok_def by (simp only: idx)
    from indices_distinct[OF this small] show ?thesis
      unfolding set_map image_iff by (metis unat_0 not_one_le_zero)
  qed
  have "roundOf s' = (roundOf s)(r \<mapsto> rd)" "\<forall>k. k \<noteq> 0x04 # r \<longrightarrow> kv_get s' k = kv_get s k"
    by (simp_all add: s' rd_def get_simps)
  moreover have "status rd = SESSION_STATUS_PENDING" "ceremony_status rd = CEREMONY_STATUS_REGISTERING"
    "dkg_contributions rd = []" by (simp_all add: rd_def newRound_def)
  moreover have "map vpk_validator_address (ceremony_validators rd) = map vpk_validator_address ?vs"
    "distinct (map vpk_validator_address (ceremony_validators rd))"
    "m \<le> word_of_nat (length (ceremony_validators rd))"
    using h(5) eligible_distinct[OF assms(1), of E x] by (simp_all add: vs)
  ultimately show ?thesis using h(2-4) create_rounds_ok[OF assms] idx d by blast
qed

text \<open>A one-validator ceremony: the concrete run the witnesses follow.\<close>

definition sampleStaking :: "unit StakingKeeper" where
  "sampleStaking = \<lparr>
     GetValidator = (\<lambda>_ a. Inr \<lparr>val_operator = a, val_status = Bonded, val_jailed = False, val_cons_addr = Inr a\<rparr>),
     GetValidatorByConsAddr = (\<lambda>_ a. Inr \<lparr>val_operator = a, val_status = Bonded, val_jailed = False, val_cons_addr = Inr a\<rparr>),
     isConcreteKeeper = True, CreateValidator = (\<lambda>_. returnM ())\<rparr>"

definition sampleTreeFFI :: "unit TreeFFI" where
  "sampleTreeFFI = \<lparr>createWithKV = (\<lambda>_ _. returnM ()), treeSize = (\<lambda>_. 0),
     appendFromKV = (\<lambda>_ h _ _. returnM h), checkpointTree = (\<lambda>_ h _. returnM h),
     rootStateful = (\<lambda>_ _ _. Inr (replicate 32 0))\<rparr>"

definition sampleEnv :: "(unit, unit) env" where
  "sampleEnv = \<lparr>envLib = sampleLib, stakingKeeper = Some sampleStaking, slashingKeeper = None,
     sendFromModule = (\<lambda>_ _ _. returnM ()), accountKeeper = None, upgradeKeeper = None,
     stakingMsgUnmarshal = (\<lambda>_. None), stakingMsgUnpackInterfaces = Some,
     DeriveRoundID = (\<lambda>_ _ _ _ _ _. Inr (replicate 32 7)), treeFFI = sampleTreeFFI\<rparr>"

definition sampleKeyStore :: vkv where
  "sampleKeyStore = [(0x0C # [1], VPallasKey \<lparr>vpk_validator_address = [1], vpk_pallas_pk = enc7 F3,
     vpk_shamir_index = 0\<rparr>)]"

definition sampleSession :: MsgCreateVotingSession where
  "sampleSession = \<lparr>mc_creator = [1], mc_snapshot_height = 1, mc_snapshot_blockhash = replicate 32 1,
     mc_proposals_hash = replicate 32 1, mc_vote_end_time = 1000, mc_nullifier_imt_root = replicate 32 1,
     mc_nc_root = replicate 32 1, mc_proposals = [], mc_description = [], mc_title = [],
     mc_discussion_url = []\<rparr>"

definition sampleCreated :: vkv where
  "sampleCreated = snd (executeCreateVotingSession sampleEnv () sampleCtx sampleSession sampleKeyStore)"

lemma sampleKeyStore_ok: "kv_wf sampleKeyStore \<and> rounds_ok curve7 sampleKeyStore"
  by (simp add: kv_wf_def kv_ok_def sampleKeyStore_def entry_ok_def rounds_ok_def roundOf_def view_def
      kv_get_def)

lemma sampleCreated_run:
  "executeCreateVotingSession sampleEnv () sampleCtx sampleSession sampleKeyStore =
     (Inr (replicate 32 7), sampleCreated)"
proof -
  have "fst (executeCreateVotingSession sampleEnv () sampleCtx sampleSession sampleKeyStore) =
      Inr (replicate 32 7)" by code_simp
  from run_of_fst[of "executeCreateVotingSession sampleEnv () sampleCtx sampleSession", OF this]
  show ?thesis by (simp add: sampleCreated_def)
qed

theorem session_creation_witness:
  "kv_wf sampleKeyStore \<and> rounds_ok curve7 sampleKeyStore \<and>
   (\<exists>rd. roundOf sampleCreated (replicate 32 7) = Some rd \<and> status rd = SESSION_STATUS_PENDING)"
  using session_creation[OF conjunct1[OF sampleKeyStore_ok] conjunct2[OF sampleKeyStore_ok] sampleCreated_run]
    sampleKeyStore_ok by auto


definition sampleContribution :: MsgContributeDKG where
  "sampleContribution = \<lparr>mdk_creator = [1], mdk_vote_round_id = replicate 32 7,
     mdk_feldman_commitments = [enc7 F6], mdk_payloads = [],
     mdk_constant_term_proof = enc7 F1 @ enc7 F1\<rparr>"

definition sampleRegistering :: VoteRound where
  "sampleRegistering = newRound sampleCtx (replicate 32 7) (assignShamirIndices 0
     [\<lparr>vpk_validator_address = [1], vpk_pallas_pk = enc7 F3, vpk_shamir_index = 0\<rparr>])
     sampleSession\<lparr>ceremony_log := []\<rparr>"

lemma sampleRegistering_ok: "ceremony_ok curve7 sampleRegistering"
  unfolding sampleRegistering_def by (rule ceremony_ok_newRound) simp

definition sampleStoreOf :: "VoteRound \<Rightarrow> vkv" where
  "sampleStoreOf rd = [(0x04 # replicate 32 7, VVoteRound rd)]"

lemma sampleStoreOf_ok:
  assumes "vote_round_id rd = replicate 32 7" and "ceremony_ok C rd"
  shows "kv_wf (sampleStoreOf rd) \<and> rounds_ok C (sampleStoreOf rd) \<and>
    roundOf (sampleStoreOf rd) (replicate 32 7) = Some rd"
  using assms by (simp add: sampleStoreOf_def kv_wf_def kv_ok_def entry_ok_round rounds_ok_def
      roundOf_Some_iff kv_get_def)

lemma sampleContribution_run:
  "fst (ContributeDKG sampleEnv curve7 () sampleCtx sampleContribution (sampleStoreOf sampleRegistering)) =
     Inr ()"
  by code_simp


text \<open>
  C33. Acknowledging the key. Only the block's proposer can acknowledge, only as a validator
  of the ceremony and only once, and with the digest that binds the round's key to its
  address. The round becomes \<^verbatim>\<open>CONFIRMED\<close> and \<^verbatim>\<open>ACTIVE\<close> with the acknowledgement that
  completes the validator set, and not before; no other round changes and the ceremony
  invariant is kept.
\<close>

theorem ack_confirms_when_complete:
  assumes "kv_wf s" and "rounds_ok C s" and "AckExecutiveAuthorityKey E x c msg s = (Inr (), s')"
  shows "isProposer E x c (ma_creator msg) \<and> kv_wf s' \<and> rounds_ok C s' \<and>
    (\<exists>rd rd'. roundOf s (ma_vote_round_id msg) = Some rd \<and>
       roundOf s' = (roundOf s)(ma_vote_round_id msg \<mapsto> rd') \<and>
       ma_creator msg \<in> set (map vpk_validator_address (ceremony_validators rd)) \<and>
       ma_creator msg \<notin> set (map ack_validator_address (ceremony_acks rd)) \<and>
       ma_ack_signature msg = sha256 (envLib E) (AckDigestDomain @ ea_pk rd @ ma_creator msg) \<and>
       ceremony_acks rd' = ceremony_acks rd @ [ackOf c msg] \<and>
       (status rd' = SESSION_STATUS_ACTIVE \<longleftrightarrow>
          set (map ack_validator_address (ceremony_acks rd')) =
          set (map vpk_validator_address (ceremony_validators rd))) \<and>
       (status rd' = SESSION_STATUS_ACTIVE \<longleftrightarrow> ceremony_status rd' = CEREMONY_STATUS_CONFIRMED) \<and>
       status rd' \<in> {SESSION_STATUS_PENDING, SESSION_STATUS_ACTIVE})"
proof -
  from AckExecutiveAuthorityKey_Inr[OF assms(3)] obtain rd log where
    pr: "isProposer E x c (ma_creator msg)" and
    r: "roundOf s (ma_vote_round_id msg) = Some rd" and
    st: "status rd = SESSION_STATUS_PENDING" "ceremony_status rd = CEREMONY_STATUS_DEALT" and
    a: "ma_creator msg \<in> set (map vpk_validator_address (ceremony_validators rd))"
      "ma_creator msg \<notin> set (map ack_validator_address (ceremony_acks rd))" and
    sig: "ma_ack_signature msg = sha256AckDigest (envLib E) (ea_pk rd) (ma_creator msg)" and
    s': "s' = kv_set (0x04 # vote_round_id rd) (VVoteRound (ackedRound c msg rd\<lparr>ceremony_log := log\<rparr>)) s"
    by blast
  define rd' where "rd' = ackedRound c msg rd\<lparr>ceremony_log := log\<rparr>"
  let ?vs = "map vpk_validator_address (ceremony_validators rd)"
  let ?as = "map ack_validator_address (ceremony_acks rd @ [ackOf c msg])"
  have acks: "ceremony_acks rd' = ceremony_acks rd @ [ackOf c msg]"
    "status rd' = (if Suc (length (ceremony_acks rd)) = length (ceremony_validators rd)
       then SESSION_STATUS_ACTIVE else SESSION_STATUS_PENDING)"
    "status rd' = SESSION_STATUS_ACTIVE \<longleftrightarrow> ceremony_status rd' = CEREMONY_STATUS_CONFIRMED"
    using st by (simp_all add: rd'_def ackedRound_def Let_def)
  have "distinct ?vs" "distinct ?as" "set ?as \<subseteq> set ?vs"
    using rounds_okD[OF assms(2) r] a
    by (auto simp: ceremony_ok_def participants_ok_def ackOf_def Let_def)
  then have "length ?as = length ?vs \<longleftrightarrow> set ?as = set ?vs"
    by (metis distinct_card subset_same_length_eq)
  then have "status rd' = SESSION_STATUS_ACTIVE \<longleftrightarrow>
      set (map ack_validator_address (ceremony_acks rd')) = set ?vs"
    unfolding acks(1,2) by simp
  moreover have "roundOf s' = (roundOf s)(ma_vote_round_id msg \<mapsto> rd')"
    using s' roundOf_wf[OF assms(1) r] by (simp add: get_simps rd'_def)
  moreover have "status rd' \<in> {SESSION_STATUS_PENDING, SESSION_STATUS_ACTIVE}" using acks(2) by simp
  ultimately show ?thesis
    using pr r a sig[unfolded sha256AckDigest_def] acks(1,3) Ack_rounds_ok[OF assms] by blast
qed

definition sampleAck :: MsgAckExecutiveAuthorityKey where
  "sampleAck = \<lparr>ma_creator = [1], ma_ack_signature = AckDigestDomain @ enc7 F6 @ [1],
     ma_vote_round_id = replicate 32 7\<rparr>"

definition sampleDealt :: VoteRound where
  "sampleDealt = sampleRegistering\<lparr>ea_pk := enc7 F6, feldman_commitments := [enc7 F6], threshold := 1,
     dkg_contributions := [\<lparr>dkg_validator_address = [1], dkg_feldman_commitments = [enc7 F6],
       dkg_payloads = []\<rparr>], ceremony_status := CEREMONY_STATUS_DEALT\<rparr>"

lemma sampleDealt_ok: "ceremony_ok curve7 sampleDealt"
proof -
  have "EvalCommitmentPolynomial curve7 [F6] 1 = Inr F6" by code_simp
  then have "dealt curve7 1 sampleDealt"
    unfolding dealt_def
    by (intro exI[of _ "[F6]"] exI[of _ 1])
      (auto simp: sampleDealt_def ThresholdForN_def curve7_def zero_f7_def)
  moreover have "indices_ok 1 sampleDealt"
    by (simp add: indices_ok_def sampleDealt_def sampleRegistering_def newRound_def)
  ultimately show ?thesis
    by (auto simp: ceremony_ok_def participants_ok_def session_ok_def phase_ok_def sampleDealt_def
        sampleRegistering_def newRound_def intro!: exI[of _ 1])
qed

lemma sampleAck_run:
  "fst (AckExecutiveAuthorityKey sampleEnv () sampleCtx sampleAck (sampleStoreOf sampleDealt)) = Inr ()"
  by code_simp

theorem ack_confirms_when_complete_witness:
  "kv_wf (sampleStoreOf sampleDealt) \<and> rounds_ok curve7 (sampleStoreOf sampleDealt) \<and>
   (\<exists>s' rd'. AckExecutiveAuthorityKey sampleEnv () sampleCtx sampleAck (sampleStoreOf sampleDealt) = (Inr (), s') \<and>
      roundOf s' (replicate 32 7) = Some rd' \<and>
      status rd' \<in> {SESSION_STATUS_PENDING, SESSION_STATUS_ACTIVE})"
proof -
  have ok: "kv_wf (sampleStoreOf sampleDealt)" "rounds_ok curve7 (sampleStoreOf sampleDealt)"
    using sampleStoreOf_ok[OF _ sampleDealt_ok]
    by (simp_all add: sampleDealt_def sampleRegistering_def newRound_def)
  note run = run_of_fst[of "AckExecutiveAuthorityKey sampleEnv () sampleCtx sampleAck", OF sampleAck_run]
  from ack_confirms_when_complete[OF ok run] obtain rd' where
    "roundOf (snd (AckExecutiveAuthorityKey sampleEnv () sampleCtx sampleAck (sampleStoreOf sampleDealt)))
       (replicate 32 7) = Some rd'" "status rd' \<in> {SESSION_STATUS_PENDING, SESSION_STATUS_ACTIVE}"
    by (auto simp: sampleAck_def)
  with ok run show ?thesis by blast
qed

end
