(* ===== verification/Keeper_Tree.thy ===== *)
theory Keeper_Tree
  imports Ceremony_Invariant
begin

text \<open>
  The Merkle root of a round's commitment tree: the in-memory tree handles of
  \<^verbatim>\<open>src/x/vote/keeper/keeper.go\<close> (\<^verbatim>\<open>getOrCreateRoundTree\<close>, \<^verbatim>\<open>ensureRoundTreeLoaded\<close>)
  and \<^verbatim>\<open>ComputeTreeRoot\<close> of \<^verbatim>\<open>tree_root_poseidon.go\<close>. The tree itself is a Rust library
  behind \<^verbatim>\<open>src/ffi/votetree\<close>: the parameter \<open>treeFFI\<close> of the environment, whose documented
  behaviour is the predicate \<open>tree_ok\<close>. In production builds the consistency check after the
  computation (\<^verbatim>\<open>debug_verify_stub.go\<close>) does nothing.
\<close>

section \<open>Handles\<close>

definition debugVerifyConsistency :: "bytes \<Rightarrow> u64 \<Rightarrow> bytes option \<Rightarrow> (('x, 'h) world, unit) M" where
  "debugVerifyConsistency roundID nextIndex root = returnM ()"

definition treeOf :: "('x, 'h) world \<Rightarrow> bytes \<Rightarrow> 'h roundTree option" where
  "treeOf w roundID = map_of (w_trees w) (hexEncode roundID)"

definition putTree :: "bytes \<Rightarrow> 'h roundTree \<Rightarrow> (('x, 'h) world, unit) M" where
  "putTree roundID rt = modifyM (\<lambda>w. w\<lparr>w_trees := (hexEncode roundID, rt) # w_trees w\<rparr>)"

definition getOrCreateRoundTree :: "bytes \<Rightarrow> (('x, 'h) world, 'h roundTree) M" where
  "getOrCreateRoundTree roundID =
     bindM (getM (\<lambda>w. treeOf w roundID)) (\<lambda>found. case found of
        Some rt \<Rightarrow> returnM rt
      | None \<Rightarrow>
          let rt = \<lparr>rt_handle = None, rt_root = None, rt_rootLeafCount = 0\<rparr> in
          thenM (putTree roundID rt) (returnM rt))"

definition ensureRoundTreeLoaded ::
  "('x, 'h) env \<Rightarrow> bytes \<Rightarrow> u64 \<Rightarrow> (('x, 'h) world, bool) M" where
  "ensureRoundTreeLoaded E roundID nextIndex =
     bindM (getOrCreateRoundTree roundID) (\<lambda>rt.
     bindM (case rt_handle rt of
        Some h \<Rightarrow> returnM h
      | None \<Rightarrow>
          bindM (kvM (GetCommitmentTreeState roundID)) (\<lambda>state.
          bindM (if tree_height state > 0
                 then failIf (next_index_at_root state > nextIndex) ErrOther (
                      failIf (next_index state > 0 \<and> next_index_at_root state = 0) ErrOther (
                      kvM (createWithKV (treeFFI E) (RoundTreeKey roundID) (next_index_at_root state))))
                 else kvM (createWithKV (treeFFI E) (RoundTreeKey roundID) 0)) (\<lambda>h.
          thenM (putTree roundID (rt\<lparr>rt_handle := Some h\<rparr>)) (returnM h)))) (\<lambda>h.
     let size = treeSize (treeFFI E) h in
     failIf (size > nextIndex) ErrOther (
     if size = nextIndex then returnM False
     else
       bindM (kvM (appendFromKV (treeFFI E) (RoundTreeKey roundID) h size (nextIndex - size))) (\<lambda>h'.
       thenM (putTree roundID (rt\<lparr>rt_handle := Some h'\<rparr>)) (returnM True)))))"

text \<open>
  The handle is in place after \<^verbatim>\<open>ensureRoundTreeLoaded\<close>; a nil handle would be a panic. The
  result is \<open>None\<close> for the nil slice of an empty tree.
\<close>

definition ComputeTreeRoot ::
  "('x, 'h) env \<Rightarrow> bytes \<Rightarrow> u64 \<Rightarrow> u64 \<Rightarrow> (('x, 'h) world, bytes option) M" where
  "ComputeTreeRoot E roundID nextIndex blockHeight =
     (if nextIndex = 0 then returnM None
      else
        bindM (ensureRoundTreeLoaded E roundID nextIndex) (\<lambda>appended.
        bindM (getOrCreateRoundTree roundID) (\<lambda>rt.
        (case rt_handle rt of
           None \<Rightarrow> throwM GoPanic
         | Some h0 \<Rightarrow>
             bindM (if appended
                    then kvM (checkpointTree (treeFFI E) (RoundTreeKey roundID) h0 (ucast blockHeight))
                    else returnM h0) (\<lambda>h.
             bindM (if appended \<or> rt_root rt = None \<or> rt_rootLeafCount rt \<noteq> nextIndex
                    then bindM (getM (\<lambda>w. rootStateful (treeFFI E) (RoundTreeKey roundID) h (w_kv w)))
                           (\<lambda>r. bindM (liftR r) (\<lambda>b. returnM (Some b)))
                    else returnM (rt_root rt)) (\<lambda>root.
             thenM (debugVerifyConsistency roundID nextIndex root) (
             thenM (putTree roundID \<lparr>rt_handle = Some h, rt_root = root, rt_rootLeafCount = nextIndex\<rparr>) (
             returnM root))))))))"

section \<open>What the tree library promises\<close>

text \<open>
  \<open>rep h xs\<close>: the handle stands for the leaves \<open>xs\<close>. \<open>saved s r xs\<close>: the latest checkpoint
  written to the round's part of the store stands for \<open>xs\<close>. \<open>merkle\<close> is the root function. A
  call writes only shard, cap and checkpoint entries of the round it is for.
\<close>

definition leavesTo :: "vkv \<Rightarrow> bytes \<Rightarrow> nat \<Rightarrow> bytes option list" where
  "leavesTo s r n = map (\<lambda>i. leafOf s r (word_of_nat i)) [0..<n]"

definition shardKey :: "bytes \<Rightarrow> bytes \<Rightarrow> bool" where
  "shardKey r k \<longleftrightarrow> (\<exists>b rest. k = RoundTreeKey r @ b # rest \<and> b \<in> {0x0F, 0x10, 0x11})"

definition shardWrite :: "bytes \<Rightarrow> vkv \<Rightarrow> vkv \<Rightarrow> bool" where
  "shardWrite r s s' \<longleftrightarrow> (kv_ok s \<longrightarrow> kv_ok s') \<and>
     (\<forall>k. kv_get s' k = kv_get s k \<or>
        shardKey r k \<and> (kv_get s' k = None \<or> (\<exists>b. kv_get s' k = Some (VBytes b))))"

definition creates ::
  "'h TreeFFI \<Rightarrow> ('h \<Rightarrow> bytes option list \<Rightarrow> bool) \<Rightarrow> (vkv \<Rightarrow> bytes \<Rightarrow> bytes option list \<Rightarrow> bool) \<Rightarrow> bool" where
  "creates T rep saved \<longleftrightarrow> (\<forall>r s xs h s'. saved s r xs \<and> length xs < 2 ^ 64 \<and>
     createWithKV T (RoundTreeKey r) (word_of_nat (length xs)) s = (Inr h, s') \<longrightarrow>
     rep h xs \<and> saved s' r xs \<and> shardWrite r s s')"

definition appends :: "'h TreeFFI \<Rightarrow> ('h \<Rightarrow> bytes option list \<Rightarrow> bool) \<Rightarrow> bool" where
  "appends T rep \<longleftrightarrow> (\<forall>r s h xs ys h' s'. rep h xs \<and> length xs + length ys < 2 ^ 64 \<and>
     (\<forall>i < length ys. leafOf s r (word_of_nat (length xs + i)) = ys ! i) \<and>
     appendFromKV T (RoundTreeKey r) h (word_of_nat (length xs)) (word_of_nat (length ys)) s = (Inr h', s') \<longrightarrow>
     rep h' (xs @ ys) \<and> shardWrite r s s')"

definition checkpoints ::
  "'h TreeFFI \<Rightarrow> ('h \<Rightarrow> bytes option list \<Rightarrow> bool) \<Rightarrow> (vkv \<Rightarrow> bytes \<Rightarrow> bytes option list \<Rightarrow> bool) \<Rightarrow> bool" where
  "checkpoints T rep saved \<longleftrightarrow> (\<forall>r s h xs i h' s'. rep h xs \<and> xs = leavesTo s r (length xs) \<and>
     checkpointTree T (RoundTreeKey r) h i s = (Inr h', s') \<longrightarrow>
     rep h' xs \<and> saved s' r xs \<and> shardWrite r s s')"

definition tree_ok ::
  "'h TreeFFI \<Rightarrow> ('h \<Rightarrow> bytes option list \<Rightarrow> bool) \<Rightarrow> (vkv \<Rightarrow> bytes \<Rightarrow> bytes option list \<Rightarrow> bool) \<Rightarrow>
   (bytes option list \<Rightarrow> bytes) \<Rightarrow> bool" where
  "tree_ok T rep saved merkle \<longleftrightarrow>
     creates T rep saved \<and> appends T rep \<and> checkpoints T rep saved \<and>
     (\<forall>h xs. rep h xs \<longrightarrow> treeSize T h = word_of_nat (length xs)) \<and>
     (\<forall>r s h xs b. rep h xs \<and> saved s r xs \<and> rootStateful T (RoundTreeKey r) h s = Inr b \<longrightarrow> b = merkle xs)"

lemma tree_create:
  "tree_ok T rep saved merkle \<Longrightarrow> saved s r xs \<Longrightarrow> length xs < 2 ^ 64 \<Longrightarrow>
     createWithKV T (RoundTreeKey r) (word_of_nat (length xs)) s = (Inr h, s') \<Longrightarrow>
     rep h xs \<and> saved s' r xs \<and> shardWrite r s s'"
  unfolding tree_ok_def using creates_def[of T rep saved] by simp

lemma tree_size: "tree_ok T rep saved merkle \<Longrightarrow> rep h xs \<Longrightarrow> treeSize T h = word_of_nat (length xs)"
  unfolding tree_ok_def by metis

lemma tree_append:
  "tree_ok T rep saved merkle \<Longrightarrow> rep h xs \<Longrightarrow> length xs + length ys < 2 ^ 64 \<Longrightarrow>
     (\<forall>i < length ys. leafOf s r (word_of_nat (length xs + i)) = ys ! i) \<Longrightarrow>
     appendFromKV T (RoundTreeKey r) h (word_of_nat (length xs)) (word_of_nat (length ys)) s = (Inr h', s') \<Longrightarrow>
     rep h' (xs @ ys) \<and> shardWrite r s s'"
  unfolding tree_ok_def using appends_def[of T rep] by simp

lemma tree_checkpoint:
  "tree_ok T rep saved merkle \<Longrightarrow> rep h xs \<Longrightarrow> xs = leavesTo s r (length xs) \<Longrightarrow>
     checkpointTree T (RoundTreeKey r) h i s = (Inr h', s') \<Longrightarrow>
     rep h' xs \<and> saved s' r xs \<and> shardWrite r s s'"
  unfolding tree_ok_def using checkpoints_def[of T rep saved] by simp

lemma tree_root:
  "tree_ok T rep saved merkle \<Longrightarrow> rep h xs \<Longrightarrow> saved s r xs \<Longrightarrow>
     rootStateful T (RoundTreeKey r) h s = Inr b \<Longrightarrow> b = merkle xs"
  unfolding tree_ok_def by blast

text \<open>What a shard write leaves alone.\<close>

lemma shardWrite_refl [simp]: "shardWrite r s s"
  by (simp add: shardWrite_def)

lemma shardWrite_trans: "shardWrite r s t \<Longrightarrow> shardWrite r t u \<Longrightarrow> shardWrite r s u"
  unfolding shardWrite_def by metis

lemma shardWrite_get: "shardWrite r s s' \<Longrightarrow> \<not> shardKey r k \<Longrightarrow> kv_get s' k = kv_get s k"
  unfolding shardWrite_def by metis

lemma not_shardKey:
  "hd k \<noteq> 0x14 \<Longrightarrow> \<not> shardKey r k"
  "length r = 32 \<Longrightarrow> length r' = 32 \<Longrightarrow> \<not> shardKey r (RoundTreeStateKey r')"
  "length r = 32 \<Longrightarrow> length r' = 32 \<Longrightarrow> \<not> shardKey r (CommitmentLeafKey r' i)"
  "length r = 32 \<Longrightarrow> length r' = 32 \<Longrightarrow> \<not> shardKey r (CommitmentRootKey r' i)"
  "length r = 32 \<Longrightarrow> length r' = 32 \<Longrightarrow> \<not> shardKey r (BlockLeafIndexKey r' i)"
  by (auto simp: shardKey_def key_simps append_eq_same_length)

lemma shardWrite_views:
  assumes "shardWrite r s s'" and "length r = 32"
  shows "roundOf s' = roundOf s" "nullifiersOf s' = nullifiersOf s"
    "length r' = 32 \<Longrightarrow> treeStateOf s' r' = treeStateOf s r'"
    "length r' = 32 \<Longrightarrow> leafOf s' r' i = leafOf s r' i"
    "length r' = 32 \<Longrightarrow> leavesTo s' r' n = leavesTo s r' n"
proof -
  note get = shardWrite_get[OF assms(1)]
  show "roundOf s' = roundOf s" by (rule roundOf_cong) (simp add: get not_shardKey(1))
  show "nullifiersOf s' = nullifiersOf s"
    by (rule nullifiersOf_cong) (simp add: get not_shardKey(1))
  show "length r' = 32 \<Longrightarrow> treeStateOf s' r' = treeStateOf s r'"
    by (simp add: treeStateOf_def view_def get not_shardKey(2) assms(2))
  show leaf: "length r' = 32 \<Longrightarrow> leafOf s' r' i = leafOf s r' i" for i
    by (simp add: leafOf_def view_def get not_shardKey(3) assms(2))
  show "length r' = 32 \<Longrightarrow> leavesTo s' r' n = leavesTo s r' n"
    by (simp add: leavesTo_def leaf)
qed

lemma shardWrite_wf:
  assumes "shardWrite r s s'" and "length r = 32" and "kv_wf s"
  shows "kv_wf s'"
  unfolding kv_wf_iff
proof (intro conjI allI impI)
  show "kv_ok s'" using assms by (simp add: shardWrite_def kv_wf_ok)
  fix k v assume v: "kv_get s' k = Some v"
  show "entry_ok k v"
  proof (cases "kv_get s' k = kv_get s k")
    case True
    then show ?thesis using v kv_wf_get[OF assms(3)] by simp
  next
    case False
    then obtain b where "shardKey r k" "v = VBytes b"
      using assms(1) v unfolding shardWrite_def by fastforce
    then show ?thesis using assms(2) by (auto simp: shardKey_def entry_ok_def key_simps nth_append)
  qed
qed

section \<open>The root is the root of the leaves\<close>

text \<open>
  What a world says about the tree of a round: the persisted checkpoint, and a handle and a
  cached root where the node holds them, agree with the first \<open>m\<close> stored leaves. A node that
  has just started holds neither.
\<close>

definition tree_inv ::
  "('h \<Rightarrow> bytes option list \<Rightarrow> bool) \<Rightarrow> (vkv \<Rightarrow> bytes \<Rightarrow> bytes option list \<Rightarrow> bool) \<Rightarrow>
   (bytes option list \<Rightarrow> bytes) \<Rightarrow> bytes \<Rightarrow> nat \<Rightarrow> ('x, 'h) world \<Rightarrow> bool" where
  "tree_inv rep saved merkle r m w \<longleftrightarrow>
     saved (w_kv w) r (leavesTo (w_kv w) r m) \<and>
     (case treeOf w r of
        None \<Rightarrow> True
      | Some rt \<Rightarrow>
          (\<forall>h. rt_handle rt = Some h \<longrightarrow> rep h (leavesTo (w_kv w) r m)) \<and>
          (\<forall>b. rt_root rt = Some b \<longrightarrow>
             b = merkle (leavesTo (w_kv w) r (unat (rt_rootLeafCount rt)))))"

text \<open>The number of leaves the tree state says the last checkpoint has.\<close>

definition checkpointed :: "CommitmentTreeState \<Rightarrow> nat" where
  "checkpointed st = (if tree_height st > 0 then unat (next_index_at_root st) else 0)"

lemma length_leavesTo [simp]: "length (leavesTo s r n) = n"
  by (simp add: leavesTo_def)

lemma leavesTo_append:
  "m \<le> n \<Longrightarrow> leavesTo s r m @ map (\<lambda>i. leafOf s r (word_of_nat (m + i))) [0..<n - m] = leavesTo s r n"
  by (auto intro!: nth_equalityI simp: leavesTo_def nth_append)

lemma treeOf_put [simp]:
  "treeOf (w\<lparr>w_trees := (hexEncode r, rt) # ts\<rparr>) r = Some rt"
  "treeOf (w\<lparr>w_kv := s, w_trees := (hexEncode r, rt) # ts\<rparr>) r = Some rt"
  by (simp_all add: treeOf_def)

lemma treeOf_kv [simp]: "treeOf (w\<lparr>w_kv := s\<rparr>) r = treeOf w r"
  by (simp add: treeOf_def)

lemma getOrCreateRoundTree_Inr:
  "getOrCreateRoundTree r w = (Inr rt, w') \<Longrightarrow>
     treeOf w' r = Some rt \<and> w_kv w' = w_kv w \<and>
     (treeOf w r = Some rt \<and> w' = w \<or>
      treeOf w r = None \<and> rt = \<lparr>rt_handle = None, rt_root = None, rt_rootLeafCount = 0\<rparr>)"
  by (auto simp: getOrCreateRoundTree_def succ_iffs putTree_def Let_def split: option.splits)

text \<open>The handle that is used: the cached one, or one created at the checkpoint.\<close>

lemma ensureRoundTreeLoaded_Inr:
  assumes T: "tree_ok (treeFFI E) rep saved merkle" and wf: "kv_wf (w_kv w)" and r: "length r = 32"
    and inv: "tree_inv rep saved merkle r m w" and m: "m \<le> unat n"
    and cp: "(\<And>rt. treeOf w r = Some rt \<Longrightarrow> rt_handle rt = None) \<Longrightarrow> m = checkpointed (treeStateOf (w_kv w) r)"
    and run: "ensureRoundTreeLoaded E r n w = (Inr appended, w')"
  shows "\<exists>rt h. treeOf w' r = Some rt \<and> rt_handle rt = Some h \<and>
    rep h (leavesTo (w_kv w) r (unat n)) \<and> shardWrite r (w_kv w) (w_kv w') \<and>
    (\<not> appended \<longrightarrow> saved (w_kv w') r (leavesTo (w_kv w) r (unat n))) \<and>
    (\<forall>b. rt_root rt = Some b \<longrightarrow> b = merkle (leavesTo (w_kv w) r (unat (rt_rootLeafCount rt))))"
proof -
  have m64: "m < 2 ^ 64" using m unsigned_less[of n, where 'a = nat] by simp
  from run obtain rt w1 where rt: "getOrCreateRoundTree r w = (Inr rt, w1)"
    by (auto simp: ensureRoundTreeLoaded_def succ_iffs)
  note g = getOrCreateRoundTree_Inr[OF rt]
  have root: "\<forall>b. rt_root rt = Some b \<longrightarrow> b = merkle (leavesTo (w_kv w) r (unat (rt_rootLeafCount rt)))"
    using g inv by (auto simp: tree_inv_def split: option.splits)
  from run rt obtain h w2 where
    h: "(case rt_handle rt of
        Some h \<Rightarrow> returnM h
      | None \<Rightarrow>
          bindM (kvM (GetCommitmentTreeState r)) (\<lambda>state.
          bindM (if tree_height state > 0
                 then failIf (next_index_at_root state > n) ErrOther (
                      failIf (next_index state > 0 \<and> next_index_at_root state = 0) ErrOther (
                      kvM (createWithKV (treeFFI E) (RoundTreeKey r) (next_index_at_root state))))
                 else kvM (createWithKV (treeFFI E) (RoundTreeKey r) 0)) (\<lambda>h.
          thenM (putTree r (rt\<lparr>rt_handle := Some h\<rparr>)) (returnM h)))) w1 = (Inr h, w2)"
    and rest: "(let size = treeSize (treeFFI E) h in
     failIf (size > n) ErrOther (
     if size = n then returnM False
     else
       bindM (kvM (appendFromKV (treeFFI E) (RoundTreeKey r) h size (n - size))) (\<lambda>h'.
       thenM (putTree r (rt\<lparr>rt_handle := Some h'\<rparr>)) (returnM True)))) w2 = (Inr appended, w')"
    by (auto simp: ensureRoundTreeLoaded_def bindM_Inr_iff)
  have loaded: "rep h (leavesTo (w_kv w) r m) \<and> saved (w_kv w2) r (leavesTo (w_kv w) r m) \<and>
      shardWrite r (w_kv w) (w_kv w2) \<and> (\<exists>rt2. treeOf w2 r = Some rt2 \<and> rt_handle rt2 = Some h \<and>
        rt_root rt2 = rt_root rt \<and> rt_rootLeafCount rt2 = rt_rootLeafCount rt)"
  proof (cases "rt_handle rt")
    case (Some h0)
    with g h have "treeOf w r = Some rt" "h0 = h" "w2 = w" by (auto simp: succ_iffs)
    with inv Some show ?thesis by (simp add: tree_inv_def)
  next
    case None
    have cpm: "m = checkpointed (treeStateOf (w_kv w) r)" using cp g None by auto
    have st: "GetCommitmentTreeState r (w_kv w1) = (Inr (treeStateOf (w_kv w) r), w_kv w)"
      using g GetCommitmentTreeState_wf[OF wf r] by simp
    from h None st g obtain kv2 where
      c: "createWithKV (treeFFI E) (RoundTreeKey r) (word_of_nat m) (w_kv w) = (Inr h, kv2)"
      and w2: "w_kv w2 = kv2" "treeOf w2 r = Some (rt\<lparr>rt_handle := Some h\<rparr>)"
      by (auto simp: succ_iffs kvM_Inr_iff putTree_def cpm checkpointed_def
          split: if_splits)
    from tree_create[OF T, of "w_kv w" r "leavesTo (w_kv w) r m" h kv2] c inv m64
    have "rep h (leavesTo (w_kv w) r m) \<and> saved kv2 r (leavesTo (w_kv w) r m) \<and> shardWrite r (w_kv w) kv2"
      by (simp add: tree_inv_def)
    with w2 show ?thesis by simp
  qed
  then have size: "treeSize (treeFFI E) h = word_of_nat m"
    using tree_size[OF T, of h "leavesTo (w_kv w) r m"] by simp
  have nm: "n - word_of_nat m = word_of_nat (unat n - m)"
    using m by (simp add: of_nat_diff)
  show ?thesis
  proof (cases "(word_of_nat m :: u64) = n")
    case True
    then have "unat n = m" using m64 by (auto simp: unat_of_nat)
    with rest size True loaded root show ?thesis by (auto simp: succ_iffs Let_def)
  next
    case False
    with rest size obtain h' kv' where
      a: "appendFromKV (treeFFI E) (RoundTreeKey r) h (word_of_nat m) (word_of_nat (unat n - m)) (w_kv w2) = (Inr h', kv')"
      and w': "w_kv w' = kv'" "treeOf w' r = Some (rt\<lparr>rt_handle := Some h'\<rparr>)" "appended"
      by (auto simp: succ_iffs kvM_Inr_iff putTree_def Let_def nm)
    let ?ys = "map (\<lambda>i. leafOf (w_kv w) r (word_of_nat (m + i))) [0..<unat n - m]"
    have sw: "shardWrite r (w_kv w) (w_kv w2)" using loaded by blast
    from tree_append[OF T, of h "leavesTo (w_kv w) r m" ?ys "w_kv w2" r h' kv'] loaded a m unsigned_less[of n, where 'a = nat]
    have "rep h' (leavesTo (w_kv w) r (unat n)) \<and> shardWrite r (w_kv w2) kv'"
      by (simp add: leavesTo_append[OF m] shardWrite_views(4)[OF sw r r] nm[symmetric] del: of_nat_add)
    with w' root shardWrite_trans[OF sw] show ?thesis by auto
  qed
qed

lemma ComputeTreeRoot_Inr:
  assumes T: "tree_ok (treeFFI E) rep saved merkle" and wf: "kv_wf (w_kv w)" and r: "length r = 32"
    and inv: "tree_inv rep saved merkle r m w" and m: "m \<le> unat n" and n: "n \<noteq> 0"
    and cp: "(\<And>rt. treeOf w r = Some rt \<Longrightarrow> rt_handle rt = None) \<Longrightarrow> m = checkpointed (treeStateOf (w_kv w) r)"
    and run: "ComputeTreeRoot E r n blockHeight w = (Inr root, w')"
  shows "root = Some (merkle (leavesTo (w_kv w) r (unat n))) \<and> shardWrite r (w_kv w) (w_kv w') \<and>
    tree_inv rep saved merkle r (unat n) w'"
proof -
  let ?xs = "leavesTo (w_kv w) r (unat n)"
  from run n obtain appended w1 where en: "ensureRoundTreeLoaded E r n w = (Inr appended, w1)"
    by (auto simp: ComputeTreeRoot_def succ_iffs)
  from ensureRoundTreeLoaded_Inr[OF T wf r inv m cp en] obtain rt h where
    rt: "treeOf w1 r = Some rt" "rt_handle rt = Some h" and h: "rep h ?xs"
    and sw: "shardWrite r (w_kv w) (w_kv w1)"
    and sv: "\<not> appended \<longrightarrow> saved (w_kv w1) r ?xs"
    and cached: "\<And>b. rt_root rt = Some b \<Longrightarrow> b = merkle (leavesTo (w_kv w) r (unat (rt_rootLeafCount rt)))"
    by blast
  have "getOrCreateRoundTree r w1 = (Inr rt, w1)"
    using rt by (simp add: getOrCreateRoundTree_def bindM_def getM_def returnM_def)
  with run n en rt obtain h1 w2 where
    ck: "(if appended then kvM (checkpointTree (treeFFI E) (RoundTreeKey r) h (ucast blockHeight))
          else returnM h) w1 = (Inr h1, w2)"
    and rest: "bindM (if appended \<or> rt_root rt = None \<or> rt_rootLeafCount rt \<noteq> n
                    then bindM (getM (\<lambda>w. rootStateful (treeFFI E) (RoundTreeKey r) h1 (w_kv w)))
                           (\<lambda>r. bindM (liftR r) (\<lambda>b. returnM (Some b)))
                    else returnM (rt_root rt)) (\<lambda>root.
             thenM (debugVerifyConsistency r n root) (
             thenM (putTree r \<lparr>rt_handle = Some h1, rt_root = root, rt_rootLeafCount = n\<rparr>) (
             returnM root))) w2 = (Inr root, w')"
    by (auto simp: ComputeTreeRoot_def bindM_Inr_iff)
  have two: "rep h1 ?xs \<and> saved (w_kv w2) r ?xs \<and> shardWrite r (w_kv w1) (w_kv w2)"
  proof (cases appended)
    case True
    with ck obtain s2 where "checkpointTree (treeFFI E) (RoundTreeKey r) h (ucast blockHeight) (w_kv w1) = (Inr h1, s2)"
      "w_kv w2 = s2" by (auto simp: kvM_Inr_iff)
    moreover have "?xs = leavesTo (w_kv w1) r (length ?xs)" using shardWrite_views(5)[OF sw r r] by simp
    ultimately show ?thesis using tree_checkpoint[OF T h] by blast
  next
    case False
    with ck h sv show ?thesis by (simp add: succ_iffs)
  qed
  from rest have "root = Some (merkle ?xs) \<and> w_kv w' = w_kv w2 \<and>
      treeOf w' r = Some \<lparr>rt_handle = Some h1, rt_root = root, rt_rootLeafCount = n\<rparr>"
    using tree_root[OF T conjunct1[OF two], of "w_kv w2" r] two cached
    by (auto simp: succ_iffs debugVerifyConsistency_def putTree_def split: if_splits)
  moreover note shardWrite_trans[OF sw conjunct2[OF conjunct2[OF two]]]
  moreover from this have "leavesTo (w_kv w2) r k = leavesTo (w_kv w) r k" for k
    by (rule shardWrite_views(5)[OF _ r r])
  ultimately show ?thesis using two by (simp add: tree_inv_def)
qed

text \<open>When no call of the library fails, no invariant error of the loader is raised either.\<close>

definition tree_total :: "'h TreeFFI \<Rightarrow> bool" where
  "tree_total T \<longleftrightarrow>
     (\<forall>p n s. \<exists>h s'. createWithKV T p n s = (Inr h, s')) \<and>
     (\<forall>p h i k s. \<exists>h' s'. appendFromKV T p h i k s = (Inr h', s')) \<and>
     (\<forall>p h i s. \<exists>h' s'. checkpointTree T p h i s = (Inr h', s')) \<and>
     (\<forall>p h s. \<exists>b. rootStateful T p h s = Inr b)"

definition returns :: "('s, 'a) M \<Rightarrow> 's \<Rightarrow> bool" where
  "returns m s \<longleftrightarrow> (\<exists>a s'. m s = (Inr a, s'))"

lemma returnsI: "m s = (Inr a, s') \<Longrightarrow> returns m s"
  by (auto simp: returns_def)

lemma returns_bind:
  "returns m s \<Longrightarrow> (\<And>a s'. m s = (Inr a, s') \<Longrightarrow> returns (f a) s') \<Longrightarrow> returns (bindM m f) s"
  by (force simp: returns_def bindM_def)

lemma returns_then:
  "returns m s \<Longrightarrow> (\<And>a s'. m s = (Inr a, s') \<Longrightarrow> returns k s') \<Longrightarrow> returns (thenM m k) s"
  by (force simp: returns_def thenM_Inr_iff)

lemma returns_simps [simp]:
  "returns (returnM a) s" "returns (getM g) s" "returns (modifyM h) s"
  "returns (liftR q) s \<longleftrightarrow> (\<exists>a. q = Inr a)"
  "returns (failIf c e k) s \<longleftrightarrow> \<not> c \<and> returns k s"
  "returns (kvM m) w \<longleftrightarrow> returns m (w_kv w)"
  by (auto simp: returns_def succ_iffs kvM_Inr_iff getM_Inr_iff modifyM_Inr_iff)

lemma getOrCreateRoundTree_returns [simp]: "returns (getOrCreateRoundTree r) w"
  unfolding getOrCreateRoundTree_def
  by (rule returns_bind) (auto simp: putTree_def Let_def intro!: returns_then split: option.split)

lemma ensureRoundTreeLoaded_returns:
  assumes T: "tree_ok (treeFFI E) rep saved merkle" "tree_total (treeFFI E)"
    and wf: "kv_wf (w_kv w)" and r: "length r = 32"
    and st: "st = treeStateOf (w_kv w) r" "tree_height st > 0 \<longrightarrow> next_index_at_root st \<noteq> 0"
    and inv: "tree_inv rep saved merkle r (checkpointed st) w" and m: "checkpointed st \<le> unat n"
  shows "returns (ensureRoundTreeLoaded E r n) w"
proof -
  let ?m = "checkpointed st"
  have m64: "?m < 2 ^ 64" using m unsigned_less[of n, where 'a = nat] by simp
  have create: "returns (createWithKV (treeFFI E) p k) s" and app: "returns (appendFromKV (treeFFI E) p h i j) s"
    for p k h i j s using T(2) by (auto simp: tree_total_def returns_def)
  have size: "\<not> n < treeSize (treeFFI E) h" if "rep h (leavesTo s r ?m)" for h s
    using tree_size[OF T(1) that] m m64 by (simp add: word_less_nat_alt unat_of_nat)
  show ?thesis
    unfolding ensureRoundTreeLoaded_def
  proof (rule returns_bind)
    fix rt w1 assume rt: "getOrCreateRoundTree r w = (Inr rt, w1)"
    note g = getOrCreateRoundTree_Inr[OF rt]
    have gs: "GetCommitmentTreeState r (w_kv w1) = (Inr st, w_kv w)"
      using g GetCommitmentTreeState_wf[OF wf r] st(1) by simp
    let ?load = "case rt_handle rt of
        Some h \<Rightarrow> returnM h
      | None \<Rightarrow>
          bindM (kvM (GetCommitmentTreeState r)) (\<lambda>state.
          bindM (if tree_height state > 0
                 then failIf (next_index_at_root state > n) ErrOther (
                      failIf (next_index state > 0 \<and> next_index_at_root state = 0) ErrOther (
                      kvM (createWithKV (treeFFI E) (RoundTreeKey r) (next_index_at_root state))))
                 else kvM (createWithKV (treeFFI E) (RoundTreeKey r) 0)) (\<lambda>h.
          thenM (putTree r (rt\<lparr>rt_handle := Some h\<rparr>)) (returnM h)))"
    have load: "returns ?load w1"
    proof (cases "rt_handle rt")
      case None
      have "\<not> (tree_height st > 0 \<and> next_index_at_root st > n)"
        using m by (auto simp: checkpointed_def word_less_nat_alt split: if_splits)
      then show ?thesis using None st(2) gs
        by (auto simp: kvM_Inr_iff putTree_def intro!: returns_bind returns_then create
            returnsI[of "GetCommitmentTreeState r", OF gs])
    qed simp
    have h: "rep h (leavesTo (w_kv w) r ?m)" if "?load w1 = (Inr h, w2)" for h w2
    proof (cases "rt_handle rt")
      case (Some h0)
      with g that have "treeOf w r = Some rt" "h0 = h" by (auto simp: succ_iffs)
      with inv Some show ?thesis by (simp add: tree_inv_def)
    next
      case None
      from that None gs obtain s2 where
        "createWithKV (treeFFI E) (RoundTreeKey r) (word_of_nat ?m) (w_kv w) = (Inr h, s2)"
        by (auto simp: succ_iffs kvM_Inr_iff putTree_def checkpointed_def split: if_splits)
      then show ?thesis using tree_create[OF T(1), of "w_kv w" r "leavesTo (w_kv w) r ?m"] inv m64
        by (simp add: tree_inv_def)
    qed
    show "returns (bindM ?load (\<lambda>h. let size = treeSize (treeFFI E) h in
       failIf (size > n) ErrOther (
       if size = n then returnM False
       else bindM (kvM (appendFromKV (treeFFI E) (RoundTreeKey r) h size (n - size))) (\<lambda>h'.
         thenM (putTree r (rt\<lparr>rt_handle := Some h'\<rparr>)) (returnM True))))) w1"
      by (rule returns_bind[OF load])
        (auto simp: Let_def putTree_def size[OF h] intro!: returns_bind returns_then app)
  qed simp
qed

lemma ComputeTreeRoot_returns:
  assumes T: "tree_ok (treeFFI E) rep saved merkle" "tree_total (treeFFI E)"
    and wf: "kv_wf (w_kv w)" and r: "length r = 32"
    and st: "st = treeStateOf (w_kv w) r" "tree_height st > 0 \<longrightarrow> next_index_at_root st \<noteq> 0"
    and inv: "tree_inv rep saved merkle r (checkpointed st) w" and m: "checkpointed st \<le> unat n"
  shows "returns (ComputeTreeRoot E r n blockHeight) w"
proof (cases "n = 0")
  case False
  have ck: "returns (checkpointTree (treeFFI E) p h i) s" and rs: "\<exists>b. rootStateful (treeFFI E) p h s = Inr b"
    for p h i s using T(2) by (auto simp: tree_total_def returns_def)
  show ?thesis
    unfolding ComputeTreeRoot_def if_not_P[OF False]
  proof (rule returns_bind[OF ensureRoundTreeLoaded_returns[OF T wf r st inv m]])
    fix appended w1 assume en: "ensureRoundTreeLoaded E r n w = (Inr appended, w1)"
    from ensureRoundTreeLoaded_Inr[OF T(1) wf r inv m _ en] st(1)
    obtain rt h where rt: "treeOf w1 r = Some rt" "rt_handle rt = Some h" by auto
    then have "getOrCreateRoundTree r w1 = (Inr rt, w1)"
      by (simp add: getOrCreateRoundTree_def bindM_def getM_def returnM_def)
    with rt(2) rs show "returns (bindM (getOrCreateRoundTree r) (\<lambda>rt.
        (case rt_handle rt of
           None \<Rightarrow> throwM GoPanic
         | Some h0 \<Rightarrow>
             bindM (if appended
                    then kvM (checkpointTree (treeFFI E) (RoundTreeKey r) h0 (ucast blockHeight))
                    else returnM h0) (\<lambda>h.
             bindM (if appended \<or> rt_root rt = None \<or> rt_rootLeafCount rt \<noteq> n
                    then bindM (getM (\<lambda>w. rootStateful (treeFFI E) (RoundTreeKey r) h (w_kv w)))
                           (\<lambda>r. bindM (liftR r) (\<lambda>b. returnM (Some b)))
                    else returnM (rt_root rt)) (\<lambda>root.
             thenM (debugVerifyConsistency r n root) (
             thenM (putTree r \<lparr>rt_handle = Some h, rt_root = root, rt_rootLeafCount = n\<rparr>) (
             returnM root))))))) w1"
      by (auto simp: debugVerifyConsistency_def putTree_def getM_Inr_iff intro!: returns_bind returns_then ck)
  qed
qed (simp add: ComputeTreeRoot_def)

text \<open>
  C26. The root does not depend on the node's memory. Suppose the tree library behaves as
  documented and the persisted checkpoint agrees with the tree state. Then the root computed
  for a tree of \<open>n\<close> leaves is the Merkle root of exactly those \<open>n\<close> leaves, whether the node
  still holds the tree and a cached root or has just been restarted, so live and restarted
  nodes agree. The computation touches only shard, cap and checkpoint entries of that round,
  leaves memory and checkpoint in agreement with \<open>n\<close> leaves, and fails only when a call of
  the library fails.
\<close>

theorem tree_root_exact:
  fixes E :: "('x, 'h) env"
  assumes "tree_ok (treeFFI E) rep saved merkle" and "kv_wf (w_kv w)" and "length r = 32"
    and "st = treeStateOf (w_kv w) r" and "tree_height st > 0 \<longrightarrow> next_index_at_root st \<noteq> 0"
    and "tree_inv rep saved merkle r (checkpointed st) w" and "checkpointed st \<le> unat n" and "n \<noteq> 0"
  shows "(\<forall>root w'. ComputeTreeRoot E r n height w = (Inr root, w') \<longrightarrow>
      root = Some (merkle (leavesTo (w_kv w) r (unat n))) \<and> shardWrite r (w_kv w) (w_kv w') \<and>
      kv_wf (w_kv w') \<and> tree_inv rep saved merkle r (unat n) w') \<and>
    (\<forall>root w'. ComputeTreeRoot E r n height (w\<lparr>w_trees := []\<rparr>) = (Inr root, w') \<longrightarrow>
      root = Some (merkle (leavesTo (w_kv w) r (unat n)))) \<and>
    (tree_total (treeFFI E) \<longrightarrow> (\<exists>w'. ComputeTreeRoot E r n height w =
      (Inr (Some (merkle (leavesTo (w_kv w) r (unat n)))), w')))"
proof -
  have live: "root = Some (merkle (leavesTo (w_kv w) r (unat n))) \<and> shardWrite r (w_kv w) (w_kv w') \<and>
      tree_inv rep saved merkle r (unat n) w'"
    if "ComputeTreeRoot E r n height w = (Inr root, w')" for root and w' :: "('x, 'h) world"
    using ComputeTreeRoot_Inr[OF assms(1-3,6-8) _ that] assms(4) by blast
  have "tree_inv rep saved merkle r (checkpointed st) (w\<lparr>w_trees := []\<rparr>)"
    using assms(6) by (simp add: tree_inv_def treeOf_def)
  then have restarted: "root = Some (merkle (leavesTo (w_kv w) r (unat n)))"
    if "ComputeTreeRoot E r n height (w\<lparr>w_trees := []\<rparr>) = (Inr root, w')" for root and w' :: "('x, 'h) world"
    using ComputeTreeRoot_Inr[OF assms(1) _ assms(3) _ assms(7,8) _ that] assms(2,4) by auto
  have "returns (ComputeTreeRoot E r n height) w" if "tree_total (treeFFI E)"
    by (rule ComputeTreeRoot_returns[OF assms(1) that assms(2-7)])
  with live restarted shardWrite_wf[OF _ assms(3,2)] show ?thesis unfolding returns_def by metis
qed

text \<open>A tree library that keeps the leaves themselves and concatenates them for the root.\<close>

definition kvLeaf :: "vkv \<Rightarrow> bytes \<Rightarrow> nat \<Rightarrow> bytes option" where
  "kvLeaf s p i = view decodeBytes s (p @ [0x02] @ putUint64BE (word_of_nat i))"

definition listTree :: "(bytes option list) TreeFFI" where
  "listTree = \<lparr>createWithKV = (\<lambda>p n. getM (\<lambda>s. map (kvLeaf s p) [0..<unat n])),
     treeSize = (\<lambda>h. word_of_nat (length h)),
     appendFromKV = (\<lambda>p h i k. getM (\<lambda>s. h @ map (kvLeaf s p) [unat i..<unat i + unat k])),
     checkpointTree = (\<lambda>p h i. returnM h),
     rootStateful = (\<lambda>p h s. Inr (concat (map nilBytes h)))\<rparr>"

definition listEnv :: "(unit, bytes option list) env" where
  "listEnv = \<lparr>envLib = sampleLib, stakingKeeper = Some sampleStaking, slashingKeeper = None,
     sendFromModule = (\<lambda>_ _ _. returnM ()), accountKeeper = None, upgradeKeeper = None,
     stakingMsgUnmarshal = (\<lambda>_. None), stakingMsgUnpackInterfaces = Some,
     DeriveRoundID = (\<lambda>_ _ _ _ _ _. Inr (replicate 32 7)), treeFFI = listTree\<rparr>"

lemma kvLeaf_eq: "kvLeaf s (RoundTreeKey r) = (\<lambda>i. leafOf s r (word_of_nat i))"
  by (rule ext) (simp add: kvLeaf_def leafOf_def CommitmentLeafKey_def)

lemma listTree_ok:
  "tree_ok listTree (\<lambda>h xs. h = xs) (\<lambda>s r xs. xs = leavesTo s r (length xs)) (\<lambda>xs. concat (map nilBytes xs))"
proof -
  have "creates listTree (\<lambda>h xs. h = xs) (\<lambda>s r xs. xs = leavesTo s r (length xs))"
    unfolding creates_def
    by (auto simp: listTree_def getM_Inr_iff kvLeaf_eq leavesTo_def unat_of_nat)
  moreover have "appends listTree (\<lambda>h xs. h = xs)"
    unfolding appends_def
    by (auto simp: listTree_def getM_Inr_iff kvLeaf_eq unat_of_nat intro!: nth_equalityI)
  moreover have "checkpoints listTree (\<lambda>h xs. h = xs) (\<lambda>s r xs. xs = leavesTo s r (length xs))"
    unfolding checkpoints_def by (auto simp: listTree_def returnM_Inr_iff)
  ultimately show ?thesis unfolding tree_ok_def by (simp add: listTree_def)
qed

lemma listTree_total: "tree_total listTree"
  by (simp add: tree_total_def listTree_def getM_def returnM_def)

definition leafWorld :: "(unit, bytes option list) world" where
  "leafWorld = \<lparr>w_kv = appendStore (replicate 32 1) [5] [], w_ext = (), w_trees = []\<rparr>"

theorem tree_root_exact_witness:
  "tree_ok listTree (\<lambda>h xs. h = xs) (\<lambda>s r xs. xs = leavesTo s r (length xs)) (\<lambda>xs. concat (map nilBytes xs)) \<and>
   (\<exists>w'. ComputeTreeRoot listEnv (replicate 32 1) 1 9 leafWorld = (Inr (Some [5]), w'))"
proof -
  let ?r = "replicate 32 (1 :: u8)"
  have wf: "kv_wf (w_kv leafWorld)" by (simp add: leafWorld_def kv_wf_appendStore)
  have st: "treeStateOf (w_kv leafWorld) ?r = emptyTreeState\<lparr>next_index := 1\<rparr>"
    by (simp add: leafWorld_def treeStateOf_appendStore) (simp add: treeStateOf_def view_def emptyTreeState_def)
  have inv: "tree_inv (\<lambda>h xs. h = xs) (\<lambda>s r xs. xs = leavesTo s r (length xs)) (\<lambda>xs. concat (map nilBytes xs)) ?r
      (checkpointed (emptyTreeState\<lparr>next_index := 1\<rparr>)) leafWorld"
    by (simp add: tree_inv_def leafWorld_def treeOf_def)
  have leaf: "concat (map nilBytes (leavesTo (w_kv leafWorld) ?r 1)) = [5]"
    by (simp add: leavesTo_def leafWorld_def leafOf_appendStore nilBytes_def)
      (simp add: treeStateOf_def view_def emptyTreeState_def)
  from tree_root_exact[of listEnv, OF _ wf _ st[symmetric] _ inv, of 1 9] leaf listTree_ok listTree_total
  show ?thesis by (simp add: listEnv_def checkpointed_def emptyTreeState_def)
qed

end
