(* ===== verification/End_Block.thy ===== *)
theory End_Block
  imports Keeper_Tree
begin

text \<open>
  The end of every block, \<^verbatim>\<open>EndBlock\<close> of \<^verbatim>\<open>src/x/vote/module.go\<close>: new commitment roots for
  active rounds, and the timeouts that move a round to its next status. The code keeps one
  slice of decoded rounds and runs five loops over it; each loop is a function on one round
  here, mapped over the list, whose result carries the changes to the next loop.
\<close>

section \<open>The five phases\<close>

definition fmtInt :: "int \<Rightarrow> gostring" where
  "fmtInt i = (if i < 0 then str ''-'' @ fmtNat (nat (- i)) else fmtNat (nat i))"

definition openRound :: "VoteRound \<Rightarrow> bool" where
  "openRound rd \<longleftrightarrow> status rd = SESSION_STATUS_ACTIVE \<or> status rd = SESSION_STATUS_PENDING \<or>
     status rd = SESSION_STATUS_TALLYING"

definition updateRoot :: "('x, 'h) env \<Rightarrow> ctx \<Rightarrow> VoteRound \<Rightarrow> (('x, 'h) world, unit) M" where
  "updateRoot E c rd =
     (if status rd \<noteq> SESSION_STATUS_ACTIVE then returnM ()
      else
        let roundID = vote_round_id rd; blockHeight = heightU64 c in
        bindM (kvM (GetCommitmentTreeState roundID)) (\<lambda>state.
        if next_index state = 0 then returnM ()
        else
          bindM (ComputeTreeRoot E roundID (next_index state) blockHeight) (\<lambda>root.
          if nilBytes root = tree_root state then returnM ()
          else
            let leafStart = next_index_at_root state; leafCount = next_index state - leafStart in
            thenM (kvM (SetCommitmentRootAtHeight roundID blockHeight (nilBytes root))) (
            thenM (if leafCount > 0
                   then kvM (SetBlockLeafIndex roundID blockHeight leafStart leafCount)
                   else returnM ()) (
            kvM (SetCommitmentTreeState roundID
              (state\<lparr>tree_root := nilBytes root, tree_height := blockHeight,
                     next_index_at_root := next_index state\<rparr>)))))))"

definition expireVoting :: "ctx \<Rightarrow> VoteRound \<Rightarrow> (('x, 'h) world, VoteRound) M" where
  "expireVoting c rd =
     (if status rd \<noteq> SESSION_STATUS_ACTIVE \<or> unixU64 c < vote_end_time rd then returnM rd
      else
        let rd' = rd\<lparr>status := SESSION_STATUS_TALLYING, tally_phase_start := unixU64 c,
                    tally_phase_timeout := DefaultTallyTimeout\<rparr> in
        thenM (kvM (SetVoteRound rd')) (returnM rd'))"

definition ceremonyTimedOut :: "ctx \<Rightarrow> CeremonyStatus \<Rightarrow> VoteRound \<Rightarrow> bool" where
  "ceremonyTimedOut c phase rd \<longleftrightarrow>
     \<not> (status rd \<noteq> SESSION_STATUS_PENDING \<or> ceremony_status rd \<noteq> phase \<or>
        ceremony_phase_timeout rd = 0 \<or>
        unixU64 c < ceremony_phase_start rd + ceremony_phase_timeout rd)"

definition expireRegistering ::
  "('x, 'h) env \<Rightarrow> ctx \<Rightarrow> VoteRound \<Rightarrow> (('x, 'h) world, VoteRound) M" where
  "expireRegistering E c rd =
     (if \<not> ceremonyTimedOut c CEREMONY_STATUS_REGISTERING rd then returnM rd
      else
        bindM (extM (JailCeremonyNonContributors E c rd)) (\<lambda>jailedValidators.
        let rd1 = AppendCeremonyLog rd (heightU64 c)
              (str ''REGISTERING timeout: ceremony failed ('' @ fmtNat (length (dkg_contributions rd)) @
               str ''/'' @ fmtNat (length (ceremony_validators rd)) @ str '' contributions)'');
            rd2 = (if length jailedValidators > 0
              then AppendCeremonyLog rd1 (heightU64 c)
                (str ''REGISTERING timeout: jailed '' @ fmtNat (length jailedValidators) @
                 str '' non-contributors'')
              else rd1);
            rd3 = rd2\<lparr>status := SESSION_STATUS_CEREMONY_FAILED\<rparr>
        in thenM (kvM (SetVoteRound rd3)) (returnM rd3)))"

definition expireDealt :: "ctx \<Rightarrow> VoteRound \<Rightarrow> (('x, 'h) world, VoteRound) M" where
  "expireDealt c rd =
     (if \<not> ceremonyTimedOut c CEREMONY_STATUS_DEALT rd then returnM rd
      else
        let nAcks = length (ceremony_acks rd); nVals = length (ceremony_validators rd) in
        (case RequiredCeremonyQuorumForN (int nVals) of
           Inl err \<Rightarrow>
             let rd' = (AppendCeremonyLog rd (heightU64 c)
                   (str ''DEALT timeout: ceremony failed (invalid validator count '' @ fmtNat nVals @
                    str '': RequiredCeremonyQuorumForN: n must be >= 1, got '' @ fmtNat nVals @ str '')''))
                   \<lparr>status := SESSION_STATUS_CEREMONY_FAILED\<rparr>
             in thenM (kvM (SetVoteRound rd')) (returnM rd')
         | Inr requiredAcks \<Rightarrow>
             if int nAcks \<ge> requiredAcks then
               let rd' = AppendCeremonyLog
                     ((StripNonAckersFromRound rd)
                       \<lparr>ceremony_status := CEREMONY_STATUS_CONFIRMED, status := SESSION_STATUS_ACTIVE\<rparr>)
                     (heightU64 c)
                     (str ''DEALT timeout: confirmed with '' @ fmtNat nAcks @ str ''/'' @ fmtNat nVals @
                      str '' acks (required '' @ fmtNat (nat requiredAcks) @ str ''), '' @
                      fmtInt (int nVals - int nAcks) @ str '' stripped'')
               in thenM (kvM (SetVoteRound rd')) (returnM rd')
             else
               let rd' = (AppendCeremonyLog rd (heightU64 c)
                     (str ''DEALT timeout: ceremony failed ('' @ fmtNat nAcks @ str ''/'' @ fmtNat nVals @
                      str '' acks, required '' @ fmtNat (nat requiredAcks) @ str '')''))
                     \<lparr>status := SESSION_STATUS_CEREMONY_FAILED\<rparr>
               in thenM (kvM (SetVoteRound rd')) (returnM rd')))"

definition expireTally :: "ctx \<Rightarrow> VoteRound \<Rightarrow> (('x, 'h) world, VoteRound) M" where
  "expireTally c rd =
     (if status rd \<noteq> SESSION_STATUS_TALLYING \<or> tally_phase_timeout rd = 0 \<or>
         unixU64 c < tally_phase_start rd + tally_phase_timeout rd
      then returnM rd
      else
        let rd' = rd\<lparr>status := SESSION_STATUS_FINALIZED, tally_timed_out := True\<rparr> in
        thenM (kvM (SetVoteRound rd')) (returnM rd'))"

definition EndBlock :: "('x, 'h) env \<Rightarrow> ctx \<Rightarrow> (('x, 'h) world, unit) M" where
  "EndBlock E c =
     bindM (kvM (IterateAllRounds (\<lambda>rd acc. (False, if openRound rd then acc @ [rd] else acc)) []))
       (\<lambda>rounds.
     thenM (forM rounds (updateRoot E c)) (
     bindM (mapM (expireVoting c) rounds) (\<lambda>rounds2.
     bindM (mapM (expireRegistering E c) rounds2) (\<lambda>rounds3.
     bindM (mapM (expireDealt c) rounds3) (\<lambda>rounds4.
     bindM (mapM (expireTally c) rounds4) (\<lambda>rounds5.
     returnM ()))))))"

section \<open>One round per block\<close>

text \<open>
  What the block does to one round, as one case distinction; the log is left out. It is the
  specification the five loops are proved against.
\<close>

definition quorumAcked :: "VoteRound \<Rightarrow> bool" where
  "quorumAcked rd \<longleftrightarrow>
     (case RequiredCeremonyQuorumForN (int (length (ceremony_validators rd))) of
        Inl _ \<Rightarrow> False | Inr q \<Rightarrow> q \<le> int (length (ceremony_acks rd)))"

definition nextRound :: "ctx \<Rightarrow> VoteRound \<Rightarrow> VoteRound" where
  "nextRound c rd =
     (if status rd = SESSION_STATUS_ACTIVE \<and> vote_end_time rd \<le> unixU64 c
      then rd\<lparr>status := SESSION_STATUS_TALLYING, tally_phase_start := unixU64 c,
              tally_phase_timeout := DefaultTallyTimeout\<rparr>
      else if ceremonyTimedOut c CEREMONY_STATUS_REGISTERING rd
      then rd\<lparr>status := SESSION_STATUS_CEREMONY_FAILED\<rparr>
      else if ceremonyTimedOut c CEREMONY_STATUS_DEALT rd
      then (if quorumAcked rd
            then (StripNonAckersFromRound rd)
              \<lparr>ceremony_status := CEREMONY_STATUS_CONFIRMED, status := SESSION_STATUS_ACTIVE\<rparr>
            else rd\<lparr>status := SESSION_STATUS_CEREMONY_FAILED\<rparr>)
      else if status rd = SESSION_STATUS_TALLYING \<and> tally_phase_timeout rd \<noteq> 0 \<and>
          tally_phase_start rd + tally_phase_timeout rd \<le> unixU64 c
      then rd\<lparr>status := SESSION_STATUS_FINALIZED, tally_timed_out := True\<rparr>
      else rd)"

definition upToLog :: "VoteRound \<Rightarrow> VoteRound \<Rightarrow> bool" where
  "upToLog rd rd' \<longleftrightarrow> rd' = rd\<lparr>ceremony_log := ceremony_log rd'\<rparr>"

lemma upToLog_refl [simp]: "upToLog rd rd"
  by (simp add: upToLog_def)

lemma upToLog_iff: "upToLog rd rd' \<longleftrightarrow> (\<exists>log. rd' = rd\<lparr>ceremony_log := log\<rparr>)"
  by (auto simp: upToLog_def)

text \<open>
  \<open>phase f F\<close>: the loop body \<open>f\<close> replaces a stored round \<open>rd\<close> by \<open>F rd\<close> (up to the log) and
  writes nothing but that round.
\<close>

definition phase :: "(VoteRound \<Rightarrow> (('x, 'h) world, VoteRound) M) \<Rightarrow> (VoteRound \<Rightarrow> VoteRound) \<Rightarrow> bool" where
  "phase f F \<longleftrightarrow> (\<forall>rd w rd' w'. f rd w = (Inr rd', w') \<and>
     roundOf (w_kv w) (vote_round_id rd) = Some rd \<longrightarrow>
     upToLog (F rd) rd' \<and> vote_round_id rd' = vote_round_id rd \<and>
     roundOf (w_kv w') = (roundOf (w_kv w))(vote_round_id rd \<mapsto> rd') \<and>
     (\<forall>k. hd k \<noteq> 0x04 \<longrightarrow> kv_get (w_kv w') k = kv_get (w_kv w) k) \<and>
     (kv_wf (w_kv w) \<longrightarrow> kv_wf (w_kv w')))"

lemma phaseI:
  assumes "\<And>rd w rd' w'. f rd w = (Inr rd', w') \<Longrightarrow> upToLog (F rd) rd' \<and>
      vote_round_id rd' = vote_round_id rd \<and>
      (rd' = rd \<and> w_kv w' = w_kv w \<or>
       length (vote_round_id rd) = 32 \<and>
       w_kv w' = kv_set (0x04 # vote_round_id rd) (VVoteRound rd') (w_kv w))"
  shows "phase f F"
  unfolding phase_def
proof (intro allI impI)
  fix rd w rd' w' assume "f rd w = (Inr rd', w') \<and> roundOf (w_kv w) (vote_round_id rd) = Some rd"
  then have r: "roundOf (w_kv w) (vote_round_id rd) = Some rd" and run: "f rd w = (Inr rd', w')" by simp_all
  have h: "upToLog (F rd) rd' \<and> vote_round_id rd' = vote_round_id rd \<and>
      (rd' = rd \<and> w_kv w' = w_kv w \<or>
       length (vote_round_id rd) = 32 \<and>
       w_kv w' = kv_set (0x04 # vote_round_id rd) (VVoteRound rd') (w_kv w))"
    by (rule assms[OF run])
  then consider "rd' = rd" "w_kv w' = w_kv w"
    | "length (vote_round_id rd) = 32" "w_kv w' = kv_set (0x04 # vote_round_id rd) (VVoteRound rd') (w_kv w)"
    by blast
  then show "upToLog (F rd) rd' \<and> vote_round_id rd' = vote_round_id rd \<and>
     roundOf (w_kv w') = (roundOf (w_kv w))(vote_round_id rd \<mapsto> rd') \<and>
     (\<forall>k. hd k \<noteq> 0x04 \<longrightarrow> kv_get (w_kv w') k = kv_get (w_kv w) k) \<and>
     (kv_wf (w_kv w) \<longrightarrow> kv_wf (w_kv w'))"
  proof cases
    case 1
    with r show ?thesis using conjunct1[OF h] by (simp add: fun_upd_idem)
  next
    case 2
    have id: "vote_round_id rd' = vote_round_id rd" and up: "upToLog (F rd) rd'" using h by simp_all
    have "kv_wf (w_kv w) \<longrightarrow> kv_wf (w_kv w')"
      using kv_wf_set_round[of "w_kv w" rd'] 2 unfolding id by simp
    moreover have "\<forall>k. hd k \<noteq> 0x04 \<longrightarrow> kv_get (w_kv w') k = kv_get (w_kv w) k"
      using 2(2) by (auto simp: get_simps)
    ultimately show ?thesis using id up 2(2) by (simp add: get_simps)
  qed
qed

text \<open>The rounds in memory are the rounds in the store.\<close>

definition coherent :: "vkv \<Rightarrow> VoteRound list \<Rightarrow> bool" where
  "coherent s rds \<longleftrightarrow> distinct (map vote_round_id rds) \<and>
     (\<forall>rd \<in> set rds. roundOf s (vote_round_id rd) = Some rd)"

lemma mapM_phase:
  assumes "phase f F"
  shows "mapM f rds w = (Inr rds', w') \<Longrightarrow> coherent (w_kv w) rds \<Longrightarrow>
    map vote_round_id rds' = map vote_round_id rds \<and> coherent (w_kv w') rds' \<and>
    list_all2 (\<lambda>rd rd'. upToLog (F rd) rd') rds rds' \<and>
    (\<forall>r. r \<notin> set (map vote_round_id rds) \<longrightarrow> roundOf (w_kv w') r = roundOf (w_kv w) r) \<and>
    (\<forall>k. hd k \<noteq> 0x04 \<longrightarrow> kv_get (w_kv w') k = kv_get (w_kv w) k) \<and>
    (kv_wf (w_kv w) \<longrightarrow> kv_wf (w_kv w'))"
proof (induction rds arbitrary: w rds')
  case Nil
  then show ?case by (simp add: succ_iffs)
next
  case (Cons rd rds)
  from Cons.prems(1) obtain rd' w1 rds'' where
    f: "f rd w = (Inr rd', w1)" and m: "mapM f rds w1 = (Inr rds'', w')" and rds': "rds' = rd' # rds''"
    by (auto simp: succ_iffs)
  have r: "roundOf (w_kv w) (vote_round_id rd) = Some rd" using Cons.prems(2) by (simp add: coherent_def)
  from assms f r have p: "upToLog (F rd) rd'" "vote_round_id rd' = vote_round_id rd"
    "roundOf (w_kv w1) = (roundOf (w_kv w))(vote_round_id rd \<mapsto> rd')"
    "\<forall>k. hd k \<noteq> 0x04 \<longrightarrow> kv_get (w_kv w1) k = kv_get (w_kv w) k"
    "kv_wf (w_kv w) \<longrightarrow> kv_wf (w_kv w1)"
    unfolding phase_def by blast+
  have nd: "vote_round_id rd \<notin> set (map vote_round_id rds)" using Cons.prems(2) by (simp add: coherent_def)
  have ne: "vote_round_id x \<noteq> vote_round_id rd" if "x \<in> set rds" for x
    using nd that by (metis image_eqI list.set_map)
  have "coherent (w_kv w1) rds" using Cons.prems(2) p(3) ne by (simp add: coherent_def)
  note ih = Cons.IH[OF m this]
  have ids: "map vote_round_id rds' = map vote_round_id (rd # rds)" using ih p(2) by (simp add: rds')
  have "roundOf (w_kv w') (vote_round_id rd') = Some rd'" using ih nd p(2,3) by simp
  then have "coherent (w_kv w') rds'"
    using ih ids Cons.prems(2) unfolding coherent_def ids by (simp add: rds')
  moreover have "roundOf (w_kv w') r = roundOf (w_kv w) r" if "r \<notin> set (map vote_round_id (rd # rds))" for r
    using ih that p(3) by simp
  ultimately show ?case using ids ih p(1,4,5) by (simp add: rds')
qed

section \<open>The phases as functions on a round\<close>

definition votingStep :: "ctx \<Rightarrow> VoteRound \<Rightarrow> VoteRound" where
  "votingStep c rd =
     (if status rd = SESSION_STATUS_ACTIVE \<and> vote_end_time rd \<le> unixU64 c
      then rd\<lparr>status := SESSION_STATUS_TALLYING, tally_phase_start := unixU64 c,
              tally_phase_timeout := DefaultTallyTimeout\<rparr>
      else rd)"

definition registeringStep :: "ctx \<Rightarrow> VoteRound \<Rightarrow> VoteRound" where
  "registeringStep c rd =
     (if ceremonyTimedOut c CEREMONY_STATUS_REGISTERING rd
      then rd\<lparr>status := SESSION_STATUS_CEREMONY_FAILED\<rparr> else rd)"

definition dealtStep :: "ctx \<Rightarrow> VoteRound \<Rightarrow> VoteRound" where
  "dealtStep c rd =
     (if ceremonyTimedOut c CEREMONY_STATUS_DEALT rd
      then (if quorumAcked rd
            then (StripNonAckersFromRound rd)
              \<lparr>ceremony_status := CEREMONY_STATUS_CONFIRMED, status := SESSION_STATUS_ACTIVE\<rparr>
            else rd\<lparr>status := SESSION_STATUS_CEREMONY_FAILED\<rparr>)
      else rd)"

definition tallyStep :: "ctx \<Rightarrow> VoteRound \<Rightarrow> VoteRound" where
  "tallyStep c rd =
     (if status rd = SESSION_STATUS_TALLYING \<and> tally_phase_timeout rd \<noteq> 0 \<and>
         tally_phase_start rd + tally_phase_timeout rd \<le> unixU64 c
      then rd\<lparr>status := SESSION_STATUS_FINALIZED, tally_timed_out := True\<rparr> else rd)"

lemmas step_defs = votingStep_def registeringStep_def dealtStep_def tallyStep_def

lemma ceremonyTimedOut_log [simp]:
  "ceremonyTimedOut c p (rd\<lparr>ceremony_log := l\<rparr>) = ceremonyTimedOut c p rd"
  by (simp add: ceremonyTimedOut_def)

lemma quorumAcked_log [simp]: "quorumAcked (rd\<lparr>ceremony_log := l\<rparr>) = quorumAcked rd"
  by (simp add: quorumAcked_def split: sum.split)

lemma strip_log [simp]:
  "StripNonAckersFromRound (rd\<lparr>ceremony_log := l\<rparr>) = (StripNonAckersFromRound rd)\<lparr>ceremony_log := l\<rparr>"
  by (simp add: StripNonAckersFromRound_def Let_def)

lemma step_log:
  "registeringStep c (rd\<lparr>ceremony_log := l\<rparr>) = (registeringStep c rd)\<lparr>ceremony_log := l\<rparr>"
  "dealtStep c (rd\<lparr>ceremony_log := l\<rparr>) = (dealtStep c rd)\<lparr>ceremony_log := l\<rparr>"
  "tallyStep c (rd\<lparr>ceremony_log := l\<rparr>) = (tallyStep c rd)\<lparr>ceremony_log := l\<rparr>"
  by (simp_all add: step_defs)

lemma step_upToLog:
  "upToLog rd rd' \<Longrightarrow> upToLog (registeringStep c rd) (registeringStep c rd')"
  "upToLog rd rd' \<Longrightarrow> upToLog (dealtStep c rd) (dealtStep c rd')"
  "upToLog rd rd' \<Longrightarrow> upToLog (tallyStep c rd) (tallyStep c rd')"
  by (auto simp: upToLog_iff step_log)

lemma upToLog_trans: "upToLog a b \<Longrightarrow> upToLog b d \<Longrightarrow> upToLog a d"
  by (auto simp: upToLog_iff)

lemma setVoteRound_world:
  "kvM (SetVoteRound rd) w = (Inr u, w') \<longleftrightarrow>
     length (vote_round_id rd) = 32 \<and>
     w' = w\<lparr>w_kv := kv_set (0x04 # vote_round_id rd) (VVoteRound rd) (w_kv w)\<rparr>"
  by (auto simp: kvM_Inr_iff SetVoteRound_Inr_iff)

lemma phase_expireVoting: "phase (expireVoting c) (votingStep c)"
  by (rule phaseI) (auto simp: expireVoting_def votingStep_def succ_iffs setVoteRound_world Let_def
      split: if_splits)

lemma phase_expireTally: "phase (expireTally c) (tallyStep c)"
  by (rule phaseI) (auto simp: expireTally_def tallyStep_def succ_iffs setVoteRound_world Let_def
      split: if_splits)

lemma upToLog_AppendCeremonyLog:
  "upToLog (rd\<lparr>status := a\<rparr>) (AppendCeremonyLog rd h m\<lparr>status := a\<rparr>)"
  "upToLog (rd\<lparr>status := a\<rparr>) (AppendCeremonyLog (AppendCeremonyLog rd h m) h' m'\<lparr>status := a\<rparr>)"
  "upToLog rd (AppendCeremonyLog rd h m)"
  by (cases rd; simp add: upToLog_def AppendCeremonyLog_def)+

lemma phase_expireRegistering: "phase (expireRegistering E c) (registeringStep c)"
proof (rule phaseI)
  fix rd w rd' w' assume run: "expireRegistering E c rd w = (Inr rd', w')"
  show "upToLog (registeringStep c rd) rd' \<and> vote_round_id rd' = vote_round_id rd \<and>
      (rd' = rd \<and> w_kv w' = w_kv w \<or>
       length (vote_round_id rd) = 32 \<and>
       w_kv w' = kv_set (0x04 # vote_round_id rd) (VVoteRound rd') (w_kv w))"
  proof (cases "ceremonyTimedOut c CEREMONY_STATUS_REGISTERING rd")
    case True
    with run show ?thesis
      by (auto simp: expireRegistering_def registeringStep_def succ_iffs setVoteRound_world Let_def
          extM_Inr_iff upToLog_AppendCeremonyLog split: if_splits)
  next
    case False
    with run show ?thesis by (simp add: expireRegistering_def registeringStep_def succ_iffs)
  qed
qed

lemma phase_expireDealt: "phase (expireDealt c) (dealtStep c)"
proof (rule phaseI)
  fix rd w rd' w' assume run: "expireDealt c rd w = (Inr rd', w')"
  show "upToLog (dealtStep c rd) rd' \<and> vote_round_id rd' = vote_round_id rd \<and>
      (rd' = rd \<and> w_kv w' = w_kv w \<or>
       length (vote_round_id rd) = 32 \<and>
       w_kv w' = kv_set (0x04 # vote_round_id rd) (VVoteRound rd') (w_kv w))"
  proof (cases "ceremonyTimedOut c CEREMONY_STATUS_DEALT rd")
    case True
    with run show ?thesis
      by (auto simp: expireDealt_def dealtStep_def succ_iffs setVoteRound_world Let_def
          upToLog_AppendCeremonyLog quorumAcked_def split: if_splits sum.splits)
  next
    case False
    with run show ?thesis by (simp add: expireDealt_def dealtStep_def succ_iffs)
  qed
qed

text \<open>In one block a round makes at most one of the transitions.\<close>

lemma step_other:
  "status rd \<noteq> SESSION_STATUS_PENDING \<Longrightarrow> registeringStep c rd = rd"
  "status rd \<noteq> SESSION_STATUS_PENDING \<Longrightarrow> dealtStep c rd = rd"
  "status rd \<noteq> SESSION_STATUS_TALLYING \<Longrightarrow> tallyStep c rd = rd"
  by (simp_all add: registeringStep_def dealtStep_def tallyStep_def ceremonyTimedOut_def)

lemma steps_eq_nextRound:
  assumes "unat (unixU64 c) + unat DefaultTallyTimeout < 2 ^ 64"
  shows "tallyStep c (dealtStep c (registeringStep c (votingStep c rd))) = nextRound c rd"
proof -
  have later: "\<not> unixU64 c + DefaultTallyTimeout \<le> unixU64 c"
    using assms by (simp add: word_le_nat_alt unat_word_ariths DefaultTallyTimeout_def)
  let ?now = "status rd = SESSION_STATUS_ACTIVE \<and> vote_end_time rd \<le> unixU64 c"
  consider (expired) ?now | (pending) "status rd = SESSION_STATUS_PENDING"
    | (other) "\<not> ?now" "status rd \<noteq> SESSION_STATUS_PENDING" by blast
  then show ?thesis
  proof cases
    case expired
    then show ?thesis using later
      by (simp add: votingStep_def step_other tallyStep_def nextRound_def)
  next
    case pending
    then have v: "votingStep c rd = rd" by (simp add: votingStep_def)
    show ?thesis
    proof (cases "ceremonyTimedOut c CEREMONY_STATUS_REGISTERING rd")
      case True
      then show ?thesis using pending by (simp add: v registeringStep_def step_other nextRound_def)
    next
      case False
      have "status (dealtStep c rd) \<noteq> SESSION_STATUS_TALLYING" using pending by (simp add: dealtStep_def)
      then show ?thesis using False pending
        by (simp add: v registeringStep_def step_other nextRound_def) (simp add: dealtStep_def)
    qed
  next
    case other
    have "votingStep c rd = rd" unfolding votingStep_def by (rule if_not_P[OF other(1)])
    moreover have "\<not> ceremonyTimedOut c p rd" for p using other(2) by (simp add: ceremonyTimedOut_def)
    ultimately show ?thesis using if_not_P[OF other(1)]
      by (simp add: step_other other(2) nextRound_def if_not_P[OF other(1)] tallyStep_def del: de_Morgan_conj)
  qed
qed

section \<open>What updating the roots leaves alone\<close>

text \<open>
  The callbacks of the tree library prepend the round's prefix to every key, so each call
  writes only to its own round's tree.
\<close>

definition tree_frame :: "'h TreeFFI \<Rightarrow> bool" where
  "tree_frame T \<longleftrightarrow> (\<forall>r s h s'. length r = 32 \<longrightarrow>
     ((\<exists>n. createWithKV T (RoundTreeKey r) n s = (Inr h, s')) \<longrightarrow> shardWrite r s s') \<and>
     ((\<exists>h0 i k. appendFromKV T (RoundTreeKey r) h0 i k s = (Inr h, s')) \<longrightarrow> shardWrite r s s') \<and>
     ((\<exists>h0 i. checkpointTree T (RoundTreeKey r) h0 i s = (Inr h, s')) \<longrightarrow> shardWrite r s s'))"

lemma tree_frameD:
  "tree_frame T \<Longrightarrow> length r = 32 \<Longrightarrow> createWithKV T (RoundTreeKey r) n s = (Inr h, s') \<Longrightarrow> shardWrite r s s'"
  "tree_frame T \<Longrightarrow> length r = 32 \<Longrightarrow> appendFromKV T (RoundTreeKey r) h0 i k s = (Inr h, s') \<Longrightarrow> shardWrite r s s'"
  "tree_frame T \<Longrightarrow> length r = 32 \<Longrightarrow> checkpointTree T (RoundTreeKey r) h0 j s = (Inr h, s') \<Longrightarrow> shardWrite r s s'"
  unfolding tree_frame_def by blast+

lemma GetCommitmentTreeState_state: "GetCommitmentTreeState r s = (Inr st, t) \<Longrightarrow> t = s"
  by (auto simp: GetCommitmentTreeState_def succ_iffs kvGetAs_Inr_iff split: option.splits)

lemma ensureRoundTreeLoaded_frame:
  assumes T: "tree_frame (treeFFI E)" and r: "length r = 32"
    and run: "ensureRoundTreeLoaded E r n w = (Inr b, w')"
  shows "shardWrite r (w_kv w) (w_kv w')"
proof -
  from run obtain rt w1 h w2 where rt: "getOrCreateRoundTree r w = (Inr rt, w1)" and
    h: "(case rt_handle rt of
        Some h \<Rightarrow> returnM h
      | None \<Rightarrow>
          bindM (kvM (GetCommitmentTreeState r)) (\<lambda>state.
          bindM (if tree_height state > 0
                 then failIf (next_index_at_root state > n) ErrOther (
                      failIf (next_index state > 0 \<and> next_index_at_root state = 0) ErrOther (
                      kvM (createWithKV (treeFFI E) (RoundTreeKey r) (next_index_at_root state))))
                 else kvM (createWithKV (treeFFI E) (RoundTreeKey r) 0)) (\<lambda>h.
          thenM (putTree r (rt\<lparr>rt_handle := Some h\<rparr>)) (returnM h)))) w1 = (Inr h, w2)"
    and rest: "(let size = treeSize (treeFFI E) h in
     failIf (size > n) ErrOther (
     if size = n then returnM False
     else
       bindM (kvM (appendFromKV (treeFFI E) (RoundTreeKey r) h size (n - size))) (\<lambda>h'.
       thenM (putTree r (rt\<lparr>rt_handle := Some h'\<rparr>)) (returnM True)))) w2 = (Inr b, w')"
    by (auto simp: ensureRoundTreeLoaded_def bindM_Inr_iff)
  have "w_kv w1 = w_kv w" using getOrCreateRoundTree_Inr[OF rt] by simp
  then have "shardWrite r (w_kv w) (w_kv w2)"
    using h by (auto simp: succ_iffs kvM_Inr_iff putTree_def
        dest!: GetCommitmentTreeState_state tree_frameD(1)[OF T r]
        split: option.splits if_splits)
  moreover have "shardWrite r (w_kv w2) (w_kv w')"
    using rest by (auto simp: succ_iffs kvM_Inr_iff putTree_def Let_def dest: tree_frameD(2)[OF T r]
        split: if_splits)
  ultimately show ?thesis by (rule shardWrite_trans)
qed

lemma ComputeTreeRoot_frame:
  assumes T: "tree_frame (treeFFI E)" and r: "length r = 32"
    and run: "ComputeTreeRoot E r n height w = (Inr root, w')"
  shows "shardWrite r (w_kv w) (w_kv w')"
proof (cases "n = 0")
  case True
  with run show ?thesis by (simp add: ComputeTreeRoot_def succ_iffs)
next
  case False
  with run obtain appended w1 rt w2 where
    en: "ensureRoundTreeLoaded E r n w = (Inr appended, w1)" and
    rt: "getOrCreateRoundTree r w1 = (Inr rt, w2)" and
    rest: "(case rt_handle rt of
           None \<Rightarrow> throwM GoPanic
         | Some h0 \<Rightarrow>
             bindM (if appended
                    then kvM (checkpointTree (treeFFI E) (RoundTreeKey r) h0 (ucast height))
                    else returnM h0) (\<lambda>h.
             bindM (if appended \<or> rt_root rt = None \<or> rt_rootLeafCount rt \<noteq> n
                    then bindM (getM (\<lambda>w. rootStateful (treeFFI E) (RoundTreeKey r) h (w_kv w)))
                           (\<lambda>r. bindM (liftR r) (\<lambda>b. returnM (Some b)))
                    else returnM (rt_root rt)) (\<lambda>root.
             thenM (debugVerifyConsistency r n root) (
             thenM (putTree r \<lparr>rt_handle = Some h, rt_root = root, rt_rootLeafCount = n\<rparr>) (
             returnM root))))) w2 = (Inr root, w')"
    by (auto simp: ComputeTreeRoot_def bindM_Inr_iff)
  have "shardWrite r (w_kv w2) (w_kv w')"
    using rest by (auto simp: succ_iffs kvM_Inr_iff putTree_def debugVerifyConsistency_def
        dest: tree_frameD(3)[OF T r] split: option.splits if_splits)
  with ensureRoundTreeLoaded_frame[OF T r en] getOrCreateRoundTree_Inr[OF rt] show ?thesis
    by (auto intro: shardWrite_trans)
qed

text \<open>The writes that record a new root.\<close>

definition recordRoot :: "u64 \<Rightarrow> bytes \<Rightarrow> CommitmentTreeState \<Rightarrow> bytes \<Rightarrow> vkv \<Rightarrow> vkv" where
  "recordRoot h r st root s =
     (let s1 = kv_set (CommitmentRootKey r h) (VBytes root) s;
          n = next_index st - next_index_at_root st;
          s2 = (if n > 0 then kv_set (BlockLeafIndexKey r h)
                  (VBytes (putUint64BE (next_index_at_root st) @ putUint64BE n)) s1 else s1)
      in kv_set (RoundTreeStateKey r)
           (VTreeState (st\<lparr>tree_root := root, tree_height := h, next_index_at_root := next_index st\<rparr>)) s2)"

lemma updateRoot_eq:
  assumes "kv_wf (w_kv w)" and "length (vote_round_id rd) = 32"
    and "st = treeStateOf (w_kv w) (vote_round_id rd)"
  shows "updateRoot E c rd w =
    (if status rd \<noteq> SESSION_STATUS_ACTIVE \<or> next_index st = 0 then (Inr (), w)
     else (case ComputeTreeRoot E (vote_round_id rd) (next_index st) (heightU64 c) w of
             (Inl e, w1) \<Rightarrow> (Inl e, w1)
           | (Inr root, w1) \<Rightarrow>
               (Inr (), if nilBytes root = tree_root st then w1
                        else w1\<lparr>w_kv := recordRoot (heightU64 c) (vote_round_id rd) st (nilBytes root) (w_kv w1)\<rparr>)))"
proof -
  have "kvM (GetCommitmentTreeState (vote_round_id rd)) w = (Inr st, w)"
    using GetCommitmentTreeState_wf[OF assms(1,2)] assms(3) by (simp add: kvM_def)
  then show ?thesis
    by (simp add: updateRoot_def bindM_def Let_def returnM_def kvM_def thenM_def
        SetCommitmentRootAtHeight_def SetBlockLeafIndex_def SetCommitmentTreeState_def kvSet_def
        modifyM_def recordRoot_def split: prod.split sum.split)
qed

lemma recordRoot_get: "hd k \<noteq> 0x14 \<Longrightarrow> kv_get (recordRoot h r st root s) k = kv_get s k"
  by (auto simp: recordRoot_def Let_def get_simps key_simps)

lemma recordRoot_wf: "length r = 32 \<Longrightarrow> kv_wf s \<Longrightarrow> kv_wf (recordRoot h r st root s)"
  by (simp add: recordRoot_def Let_def kv_wf_set entry_ok_tree_state entry_ok_tree_bytes)

lemma updateRoot_frame:
  assumes T: "tree_frame (treeFFI E)" and wf: "kv_wf (w_kv w)" and r: "length (vote_round_id rd) = 32"
    and run: "updateRoot E c rd w = (Inr u, w')"
  shows "(\<forall>k. hd k \<noteq> 0x14 \<longrightarrow> kv_get (w_kv w') k = kv_get (w_kv w) k) \<and> kv_wf (w_kv w')"
proof -
  let ?st = "treeStateOf (w_kv w) (vote_round_id rd)"
  show ?thesis
  proof (cases "status rd \<noteq> SESSION_STATUS_ACTIVE \<or> next_index ?st = 0")
    case True
    then show ?thesis using run wf by (simp add: updateRoot_eq[OF wf r refl])
  next
    case False
    with run obtain root w1 where
      c: "ComputeTreeRoot E (vote_round_id rd) (next_index ?st) (heightU64 c) w = (Inr root, w1)" and
      w': "w' = (if nilBytes root = tree_root ?st then w1
        else w1\<lparr>w_kv := recordRoot (heightU64 c) (vote_round_id rd) ?st (nilBytes root) (w_kv w1)\<rparr>)"
      by (auto simp: updateRoot_eq[OF wf r refl] split: prod.splits sum.splits)
    note sw = ComputeTreeRoot_frame[OF T r c]
    have "kv_get (w_kv w') k = kv_get (w_kv w) k" if "hd k \<noteq> 0x14" for k
      using shardWrite_get[OF sw not_shardKey(1)[OF that]] by (simp add: w' recordRoot_get[OF that])
    moreover have "kv_wf (w_kv w')"
      using shardWrite_wf[OF sw r wf] by (simp add: w' recordRoot_wf[OF r])
    ultimately show ?thesis by blast
  qed
qed

section \<open>The whole block\<close>

lemma decoded_round_keys:
  "(\<And>k v. (k, v) \<in> set es \<Longrightarrow> \<exists>rd. v = VVoteRound rd \<and> k = 0x04 # vote_round_id rd) \<Longrightarrow>
     map fst es = map (\<lambda>rd. 0x04 # vote_round_id rd) (decoded decodeRound es)"
proof (induction es)
  case Nil
  then show ?case by simp
next
  case (Cons e es)
  obtain rd where "snd e = VVoteRound rd" "fst e = 0x04 # vote_round_id rd"
    using Cons.prems[of "fst e" "snd e"] by auto
  moreover have "map fst es = map (\<lambda>rd. 0x04 # vote_round_id rd) (decoded decodeRound es)"
    using Cons.IH Cons.prems by (meson list.set_intros(2))
  ultimately show ?case by simp
qed

lemma roundsOf_distinct:
  assumes "kv_wf s"
  shows "distinct (map vote_round_id (roundsOf s))"
proof -
  have "map fst (kv_scan VoteRoundPrefix s) = map (\<lambda>rd. 0x04 # vote_round_id rd) (roundsOf s)"
    unfolding roundsOf_def by (rule decoded_round_keys) (use round_scan_wf[OF assms] in blast)
  then have "distinct (map (\<lambda>rd. 0x04 # vote_round_id rd) (roundsOf s))"
    using kv_scan_distinct[OF kv_wf_ok[OF assms], of VoteRoundPrefix] by simp
  then show ?thesis by (simp add: distinct_map inj_on_def)
qed

lemma coherent_open_rounds:
  assumes "kv_wf s"
  shows "coherent s (filter openRound (roundsOf s))"
  unfolding coherent_def
  using roundsOf_distinct[OF assms] mem_roundsOf_iff[OF assms] roundOf_wf[OF assms]
  by (fastforce simp: distinct_map_filter)

lemma forM_updateRoot:
  assumes "tree_frame (treeFFI E)"
  shows "kv_wf (w_kv w) \<Longrightarrow> \<forall>rd \<in> set rds. length (vote_round_id rd) = 32 \<Longrightarrow>
    forM rds (updateRoot E c) w = (Inr u, w') \<Longrightarrow>
    (\<forall>k. hd k \<noteq> 0x14 \<longrightarrow> kv_get (w_kv w') k = kv_get (w_kv w) k) \<and> kv_wf (w_kv w')"
proof (induction rds arbitrary: w)
  case Nil
  then show ?case by (simp add: succ_iffs)
next
  case (Cons rd rds)
  from Cons.prems(3) obtain w1 where f: "updateRoot E c rd w = (Inr (), w1)"
    and m: "forM rds (updateRoot E c) w1 = (Inr u, w')" by (auto simp: succ_iffs)
  note 1 = updateRoot_frame[OF assms Cons.prems(1) _ f]
  with Cons.IH[OF _ _ m] Cons.prems(2) show ?case by simp
qed

lemma coherent_cong: "roundOf s' = roundOf s \<Longrightarrow> coherent s' rds = coherent s rds"
  by (simp add: coherent_def)

lemma EndBlock_effect:
  assumes T: "tree_frame (treeFFI E)" and wf: "kv_wf (w_kv w)"
    and run: "EndBlock E c w = (Inr u, w')"
    and time: "unat (unixU64 c) + unat DefaultTallyTimeout < 2 ^ 64"
  shows "rel_option upToLog (map_option (nextRound c) (roundOf (w_kv w) r)) (roundOf (w_kv w') r)"
    and "\<forall>k. hd k \<noteq> 0x04 \<and> hd k \<noteq> 0x14 \<longrightarrow> kv_get (w_kv w') k = kv_get (w_kv w) k"
    and "kv_wf (w_kv w')"
proof -
  let ?s = "w_kv w" and ?rds = "filter openRound (roundsOf (w_kv w))"
  have it: "kvM (IterateAllRounds (\<lambda>rd acc. (False, if openRound rd then acc @ [rd] else acc)) []) w =
      (Inr ?rds, w)"
    by (simp add: IterateAllRounds_def kvM_def iterateRounds_wf[OF wf] foldUntil_collect)
  from run it obtain w1 w2 w3 w4 r2 r3 r4 r5 where
    m1: "forM ?rds (updateRoot E c) w = (Inr (), w1)" and
    m2: "mapM (expireVoting c) ?rds w1 = (Inr r2, w2)" and
    m3: "mapM (expireRegistering E c) r2 w2 = (Inr r3, w3)" and
    m4: "mapM (expireDealt c) r3 w3 = (Inr r4, w4)" and
    m5: "mapM (expireTally c) r4 w4 = (Inr r5, w')"
    by (auto simp: EndBlock_def succ_iffs)
  have len: "\<forall>rd \<in> set ?rds. length (vote_round_id rd) = 32"
    using mem_roundsOf_iff[OF wf] roundOf_wf[OF wf] by auto
  note p1 = forM_updateRoot[OF T wf len m1]
  have r1: "roundOf (w_kv w1) = roundOf ?s" by (rule roundOf_cong) (simp add: p1)
  have c1: "coherent (w_kv w1) ?rds" using coherent_open_rounds[OF wf] coherent_cong[OF r1] by simp
  note p2 = mapM_phase[OF phase_expireVoting m2 c1]
  note p3 = mapM_phase[OF phase_expireRegistering m3 conjunct1[OF conjunct2[OF p2]]]
  note p4 = mapM_phase[OF phase_expireDealt m4 conjunct1[OF conjunct2[OF p3]]]
  note p5 = mapM_phase[OF phase_expireTally m5 conjunct1[OF conjunct2[OF p4]]]
  show "kv_wf (w_kv w')" using p1 p2 p3 p4 p5 by blast
  show "\<forall>k. hd k \<noteq> 0x04 \<and> hd k \<noteq> 0x14 \<longrightarrow> kv_get (w_kv w') k = kv_get (w_kv w) k"
    using p1 p2 p3 p4 p5 by simp
  from p2 p3 p4 p5 have steps: "list_all2 (\<lambda>rd rd'. upToLog (votingStep c rd) rd') ?rds r2"
    "list_all2 (\<lambda>rd rd'. upToLog (registeringStep c rd) rd') r2 r3"
    "list_all2 (\<lambda>rd rd'. upToLog (dealtStep c rd) rd') r3 r4"
    "list_all2 (\<lambda>rd rd'. upToLog (tallyStep c rd) rd') r4 r5" by blast+
  note len = steps[THEN list_all2_lengthD]
  have all: "list_all2 (\<lambda>rd rd'. upToLog (nextRound c rd) rd') ?rds r5"
  proof (rule list_all2_all_nthI)
    show "length ?rds = length r5" using len by argo
    fix i assume i: "i < length ?rds"
    then have "i < length r2" "i < length r3" "i < length r4" using len by argo+
    with i steps have
      "upToLog (votingStep c (?rds ! i)) (r2 ! i)" "upToLog (registeringStep c (r2 ! i)) (r3 ! i)"
      "upToLog (dealtStep c (r3 ! i)) (r4 ! i)" "upToLog (tallyStep c (r4 ! i)) (r5 ! i)"
      by (blast dest: list_all2_nthD)+
    then have "upToLog (tallyStep c (dealtStep c (registeringStep c (votingStep c (?rds ! i))))) (r5 ! i)"
      by (meson step_upToLog upToLog_trans)
    then show "upToLog (nextRound c (?rds ! i)) (r5 ! i)" by (simp only: steps_eq_nextRound[OF time])
  qed
  have ids: "map vote_round_id r5 = map vote_round_id ?rds" using p2 p3 p4 p5 by argo
  show "rel_option upToLog (map_option (nextRound c) (roundOf ?s r)) (roundOf (w_kv w') r)"
  proof (cases "r \<in> set (map vote_round_id ?rds)")
    case True
    then obtain i where i: "i < length ?rds" "vote_round_id (?rds ! i) = r"
      unfolding in_set_conv_nth by auto
    then have mem: "?rds ! i \<in> set ?rds" by (blast intro: nth_mem)
    have old: "roundOf ?s r = Some (?rds ! i)"
      using coherent_open_rounds[OF wf] mem i(2) unfolding coherent_def by blast
    have i5: "i < length r5" using len i(1) by argo
    have up: "upToLog (nextRound c (?rds ! i)) (r5 ! i)" by (rule list_all2_nthD[OF all i(1)])
    have "vote_round_id (r5 ! i) = r" using ids i i5 by (metis nth_map)
    moreover have "coherent (w_kv w') r5" using p5 by blast
    ultimately have "roundOf (w_kv w') r = Some (r5 ! i)"
      using nth_mem[OF i5] unfolding coherent_def by blast
    then show ?thesis using old up by simp
  next
    case False
    have "map vote_round_id r2 = map vote_round_id ?rds" "map vote_round_id r3 = map vote_round_id ?rds"
      "map vote_round_id r4 = map vote_round_id ?rds" using p2 p3 p4 by argo+
    with False p2 p3 p4 p5 r1 have "roundOf (w_kv w') r = roundOf ?s r" by metis
    moreover have "nextRound c rd = rd" if "roundOf ?s r = Some rd" for rd
    proof -
      from that False mem_roundsOf_iff[OF wf] roundOf_wf[OF wf] have "\<not> openRound rd" by fastforce
      then show ?thesis by (simp add: openRound_def nextRound_def ceremonyTimedOut_def)
    qed
    ultimately show ?thesis by (cases "roundOf ?s r") simp_all
  qed
qed

section \<open>The ceremony invariant at the end of a block\<close>

lemma ceremony_ok_cong:
  assumes "status rd' = status rd" "ceremony_status rd' = ceremony_status rd"
    "ceremony_validators rd' = ceremony_validators rd" "ceremony_acks rd' = ceremony_acks rd"
    "dkg_contributions rd' = dkg_contributions rd" "threshold rd' = threshold rd"
    "ea_pk rd' = ea_pk rd" "feldman_commitments rd' = feldman_commitments rd"
  shows "ceremony_ok C rd' = ceremony_ok C rd"
  using assms by (simp only: ceremony_ok_def participants_ok_def session_ok_def indices_ok_def
      phase_ok_def dealt_def)

lemma ceremony_ok_log: "upToLog rd rd' \<Longrightarrow> ceremony_ok C rd \<Longrightarrow> ceremony_ok C rd'"
  using ceremony_ok_cong[of rd' rd C] by (auto simp: upToLog_iff)

text \<open>A change of status that agrees with the ceremony, with all ceremony fields kept.\<close>

lemma ceremony_ok_status:
  assumes "ceremony_ok C rd" and "session_ok rd'" and "ceremony_status rd' = ceremony_status rd"
    "ceremony_validators rd' = ceremony_validators rd" "ceremony_acks rd' = ceremony_acks rd"
    "dkg_contributions rd' = dkg_contributions rd" "threshold rd' = threshold rd"
    "ea_pk rd' = ea_pk rd" "feldman_commitments rd' = feldman_commitments rd"
  shows "ceremony_ok C rd'"
  using assms by (simp only: ceremony_ok_def participants_ok_def indices_ok_def phase_ok_def dealt_def simp_thms)

lemma ceremony_ok_strip:
  assumes ok: "ceremony_ok C rd" and st: "ceremony_status rd = CEREMONY_STATUS_DEALT"
    and q: "quorumAcked rd"
  shows "ceremony_ok C ((StripNonAckersFromRound rd)
    \<lparr>ceremony_status := CEREMONY_STATUS_CONFIRMED, status := SESSION_STATUS_ACTIVE\<rparr>)"
proof -
  let ?rd = "(StripNonAckersFromRound rd)
    \<lparr>ceremony_status := CEREMONY_STATUS_CONFIRMED, status := SESSION_STATUS_ACTIVE\<rparr>"
  let ?acked = "map ack_validator_address (ceremony_acks rd)"
  let ?P = "\<lambda>v. vpk_validator_address v \<in> set ?acked"
  let ?vs = "filter ?P (ceremony_validators rd)"
  from ok st obtain n where n: "indices_ok n rd" "length (ceremony_validators rd) = n" "dealt C n rd"
    by (auto simp: ceremony_ok_def phase_ok_def)
  have p: "distinct (map vpk_validator_address (ceremony_validators rd))"
    "distinct (map dkg_validator_address (dkg_contributions rd))" "distinct ?acked"
    "set (map dkg_validator_address (dkg_contributions rd)) \<subseteq> set (map vpk_validator_address (ceremony_validators rd))"
    "set ?acked \<subseteq> set (map vpk_validator_address (ceremony_validators rd))"
    using ok by (simp_all add: ceremony_ok_def participants_ok_def Let_def)
  have vs: "ceremony_validators ?rd = ?vs" by (simp add: StripNonAckersFromRound_def Let_def)
  have addr: "set (map vpk_validator_address ?vs) = set ?acked" using p(5) by force
  have dist: "distinct (map vpk_validator_address ?vs)" using p(1) by (simp add: distinct_map_filter)
  have len: "length ?vs = length (ceremony_acks rd)"
    using distinct_card[OF dist] distinct_card[OF p(3)] unfolding addr by simp
  have t: "t \<le> int (length ?vs)" if "ThresholdForN (int n) = Inr t" for t
  proof -
    from q n(2) obtain k where k: "RequiredCeremonyQuorumForN (int n) = Inr k" "k \<le> int (length (ceremony_acks rd))"
      by (auto simp: quorumAcked_def split: sum.splits)
    have "t \<le> k" using that k(1)
      by (auto simp: ThresholdForN_def RequiredCeremonyQuorumForN_def Let_def split: if_splits)
    with k(2) len show ?thesis by simp
  qed
  have "subseq (map vpk_shamir_index ?vs) (map vpk_shamir_index (ceremony_validators rd))"
    by (rule subseq_map) simp
  then have "indices_ok n ?rd"
    using n(1) unfolding indices_ok_def vs by (rule subseq_order.trans)
  moreover have "phase_ok C n ?rd"
    using n(3) addr t unfolding phase_ok_def vs by (simp add: dealt_def StripNonAckersFromRound_def Let_def)
  moreover have "participants_ok ?rd"
    unfolding participants_ok_def vs Let_def
    using p dist addr by (auto simp: StripNonAckersFromRound_def Let_def distinct_map_filter)
  moreover have "session_ok ?rd" by (simp add: session_ok_def)
  ultimately show ?thesis unfolding ceremony_ok_def by blast
qed

lemma ceremony_ok_nextRound:
  assumes "ceremony_ok C rd"
  shows "ceremony_ok C (nextRound c rd)"
proof -
  have s: "session_ok rd" using assms by (simp add: ceremony_ok_def)
  have fail: "ceremony_ok C (rd\<lparr>status := SESSION_STATUS_CEREMONY_FAILED\<rparr>)"
    if "status rd = SESSION_STATUS_PENDING"
    by (rule ceremony_ok_status[OF assms]) (use s that in \<open>auto simp: session_ok_def\<close>)
  consider (expired) "status rd = SESSION_STATUS_ACTIVE \<and> vote_end_time rd \<le> unixU64 c"
    | (reg) "ceremonyTimedOut c CEREMONY_STATUS_REGISTERING rd"
    | (dealt) "ceremonyTimedOut c CEREMONY_STATUS_DEALT rd"
    | (tally) "status rd = SESSION_STATUS_TALLYING"
    | (same) "\<not> (status rd = SESSION_STATUS_ACTIVE \<and> vote_end_time rd \<le> unixU64 c)"
        "\<not> ceremonyTimedOut c CEREMONY_STATUS_REGISTERING rd"
        "\<not> ceremonyTimedOut c CEREMONY_STATUS_DEALT rd" "status rd \<noteq> SESSION_STATUS_TALLYING"
    by blast
  then show ?thesis
  proof cases
    case expired
    show ?thesis unfolding nextRound_def if_P[OF expired]
      by (rule ceremony_ok_status[OF assms]) (use s expired in \<open>simp_all add: session_ok_def\<close>)
  next
    case reg
    then show ?thesis using fail by (simp add: nextRound_def ceremonyTimedOut_def)
  next
    case dealt
    then show ?thesis using fail ceremony_ok_strip[OF assms]
      by (simp add: nextRound_def ceremonyTimedOut_def)
  next
    case tally
    have "ceremony_ok C (rd\<lparr>status := SESSION_STATUS_FINALIZED, tally_timed_out := True\<rparr>)"
      by (rule ceremony_ok_status[OF assms]) (use s tally in \<open>simp_all add: session_ok_def\<close>)
    then show ?thesis using tally assms by (simp add: nextRound_def ceremonyTimedOut_def)
  next
    case same
    then have "nextRound c rd = rd" unfolding nextRound_def by (simp only: if_False simp_thms)
    then show ?thesis using assms by simp
  qed
qed

lemma EndBlock_rounds_ok:
  assumes "tree_frame (treeFFI E)" and "kv_wf (w_kv w)" and "rounds_ok C (w_kv w)"
    and "EndBlock E c w = (Inr u, w')" and "unat (unixU64 c) + unat DefaultTallyTimeout < 2 ^ 64"
  shows "rounds_ok C (w_kv w')"
  unfolding rounds_ok_def
proof (intro allI impI)
  fix r rd' assume r: "roundOf (w_kv w') r = Some rd'"
  with EndBlock_effect(1)[OF assms(1,2,4,5), of r] obtain rd where
    "roundOf (w_kv w) r = Some rd" "upToLog (nextRound c rd) rd'"
    by (cases "roundOf (w_kv w) r") auto
  then show "ceremony_ok C rd'"
    using ceremony_ok_log ceremony_ok_nextRound rounds_okD[OF assms(3)] by blast
qed

section \<open>Properties\<close>

text \<open>
  C18. The block's five loops make one transition per round. After a successful \<^verbatim>\<open>EndBlock\<close>
  every stored round is what the case distinction \<open>nextRound\<close> says, up to its log: voting
  that has ended becomes tallying; a key ceremony whose time is over fails, or, with enough
  acknowledgements, drops the validators that did not acknowledge and opens the vote; a tally
  whose time is over is closed as timed out; every other round is unchanged. No round
  appears or disappears, and of the rest of the store only commitment-tree entries are
  written. (The block time is below \<open>2 ^ 64\<close> less the tally timeout; the tree library writes
  only to the tree of its round.)
\<close>

theorem end_block_transitions:
  assumes "tree_frame (treeFFI E)" and "kv_wf (w_kv w)" and "EndBlock E c w = (Inr (), w')"
    and "unat (unixU64 c) + unat DefaultTallyTimeout < 2 ^ 64"
  shows "(\<forall>r. roundOf (w_kv w) r = None \<longleftrightarrow> roundOf (w_kv w') r = None) \<and>
    (\<forall>r rd. roundOf (w_kv w) r = Some rd \<longrightarrow>
       (\<exists>log. roundOf (w_kv w') r = Some (nextRound c rd\<lparr>ceremony_log := log\<rparr>))) \<and>
    (\<forall>k. hd k \<noteq> 0x04 \<and> hd k \<noteq> 0x14 \<longrightarrow> kv_get (w_kv w') k = kv_get (w_kv w) k) \<and>
    kv_wf (w_kv w')"
proof (intro conjI allI impI)
  note rel = EndBlock_effect(1)[OF assms]
  show "roundOf (w_kv w) r = None \<longleftrightarrow> roundOf (w_kv w') r = None" for r
    using rel[of r] by (cases "roundOf (w_kv w) r"; cases "roundOf (w_kv w') r") simp_all
  show "\<exists>log. roundOf (w_kv w') r = Some (nextRound c rd\<lparr>ceremony_log := log\<rparr>)"
    if "roundOf (w_kv w) r = Some rd" for r rd
    using rel[of r] that by (cases "roundOf (w_kv w') r") (auto simp: upToLog_iff)
  show "kv_get (w_kv w') k = kv_get (w_kv w) k" if "hd k \<noteq> 0x04 \<and> hd k \<noteq> 0x14" for k
    using EndBlock_effect(2)[OF assms] that by blast
  show "kv_wf (w_kv w')" by (rule EndBlock_effect(3)[OF assms])
qed

definition sampleAcked :: VoteRound where
  "sampleAcked = sampleDealt\<lparr>ceremony_acks := [\<lparr>ack_validator_address = [1], ack_signature = [], ack_height = 8\<rparr>]\<rparr>"

definition lateCtx :: ctx where "lateCtx = sampleCtx\<lparr>block_time := 700\<rparr>"

definition worldOf :: "VoteRound \<Rightarrow> (unit, bytes option list) world" where
  "worldOf rd = \<lparr>w_kv = sampleStoreOf rd, w_ext = (), w_trees = []\<rparr>"

lemma listTree_frame: "tree_frame (treeFFI listEnv)"
  by (auto simp: tree_frame_def listEnv_def listTree_def getM_def returnM_def)

lemma sampleAcked_ok: "ceremony_ok curve7 sampleAcked" "vote_round_id sampleAcked = replicate 32 7"
proof -
  obtain n where n: "indices_ok n sampleDealt" "phase_ok curve7 n sampleDealt"
    using sampleDealt_ok by (auto simp: ceremony_ok_def)
  have "phase_ok curve7 n sampleAcked"
    using n(2) by (simp add: phase_ok_def dealt_def sampleAcked_def sampleDealt_def)
  moreover have "indices_ok n sampleAcked"
    by (rule indices_ok_cong[THEN iffD2, OF _ n(1)]) (simp add: sampleAcked_def)
  moreover have "participants_ok sampleAcked" "session_ok sampleAcked"
    by (simp_all add: participants_ok_def session_ok_def sampleAcked_def sampleDealt_def
        sampleRegistering_def newRound_def)
  ultimately show "ceremony_ok curve7 sampleAcked" unfolding ceremony_ok_def by blast
  show "vote_round_id sampleAcked = replicate 32 7"
    by (simp add: sampleAcked_def sampleDealt_def sampleRegistering_def newRound_def)
qed

lemma sampleAcked_run: "fst (EndBlock listEnv lateCtx (worldOf sampleAcked)) = Inr ()"
  by code_simp

lemma lateCtx_time: "unat (unixU64 lateCtx) + unat DefaultTallyTimeout < 2 ^ 64"
  by (simp add: lateCtx_def unixU64_def DefaultTallyTimeout_def)

lemma nextRound_sampleAcked: "status (nextRound lateCtx sampleAcked) = SESSION_STATUS_ACTIVE"
  by code_simp

theorem end_block_transitions_witness:
  "\<exists>w' rd'. EndBlock listEnv lateCtx (worldOf sampleAcked) = (Inr (), w') \<and>
     roundOf (w_kv w') (replicate 32 7) = Some rd' \<and> status rd' = SESSION_STATUS_ACTIVE"
proof -
  have st: "kv_wf (w_kv (worldOf sampleAcked)) \<and>
      roundOf (w_kv (worldOf sampleAcked)) (replicate 32 7) = Some sampleAcked"
    using sampleStoreOf_ok[OF sampleAcked_ok(2,1)] by (simp add: worldOf_def)
  note run = run_of_fst[of "EndBlock listEnv lateCtx", OF sampleAcked_run]
  from end_block_transitions[OF listTree_frame conjunct1[OF st] run lateCtx_time] st
  obtain log where "roundOf (w_kv (snd (EndBlock listEnv lateCtx (worldOf sampleAcked)))) (replicate 32 7) =
    Some (nextRound lateCtx sampleAcked\<lparr>ceremony_log := log\<rparr>)" by blast
  moreover have "status (nextRound lateCtx sampleAcked\<lparr>ceremony_log := log\<rparr>) = SESSION_STATUS_ACTIVE"
    using nextRound_sampleAcked by simp
  ultimately show ?thesis using run by blast
qed

text \<open>
  C19. An open vote can always be decrypted. If every stored round satisfies the ceremony
  invariant, then after the block it still does; in particular every round that is active,
  tallying or finalised has a key, at least as many validators as its threshold (the
  validators it was created with that acknowledged the key), and, below \<open>2 ^ 32\<close> original
  validators, distinct Shamir indices between 1 and the original count. Rounds never stay
  past a deadline: a pending round past its phase timeout is active or failed, an active
  round past its end is tallying, a tallying round past its timeout is finalised.
\<close>

theorem end_block_keeps_decryptable:
  assumes "tree_frame (treeFFI E)" and "kv_wf (w_kv w)" and "rounds_ok C (w_kv w)"
    and "EndBlock E c w = (Inr (), w')" and "unat (unixU64 c) + unat DefaultTallyTimeout < 2 ^ 64"
  shows "rounds_ok C (w_kv w') \<and>
    (\<forall>r rd. roundOf (w_kv w') r = Some rd \<and>
       status rd \<in> {SESSION_STATUS_ACTIVE, SESSION_STATUS_TALLYING, SESSION_STATUS_FINALIZED} \<longrightarrow>
       (\<exists>n t. ThresholdForN (int n) = Inr t \<and> threshold rd = word_of_int t \<and> 1 \<le> t \<and>
          t \<le> int (length (ceremony_validators rd)) \<and>
          set (map vpk_validator_address (ceremony_validators rd)) =
            set (map ack_validator_address (ceremony_acks rd)) \<and>
          (n < 2 ^ 32 \<longrightarrow> distinct (map vpk_shamir_index (ceremony_validators rd)) \<and>
             (\<forall>v \<in> set (ceremony_validators rd).
                1 \<le> unat (vpk_shamir_index v) \<and> unat (vpk_shamir_index v) \<le> n)))) \<and>
    (\<forall>r rd rd'. roundOf (w_kv w) r = Some rd \<and> roundOf (w_kv w') r = Some rd' \<longrightarrow>
       (ceremonyTimedOut c (ceremony_status rd) rd \<longrightarrow>
          status rd' \<in> {SESSION_STATUS_ACTIVE, SESSION_STATUS_CEREMONY_FAILED}) \<and>
       (status rd = SESSION_STATUS_ACTIVE \<and> vote_end_time rd \<le> unixU64 c \<longrightarrow>
          status rd' = SESSION_STATUS_TALLYING) \<and>
       (status rd = SESSION_STATUS_TALLYING \<and> tally_phase_timeout rd \<noteq> 0 \<and>
          tally_phase_start rd + tally_phase_timeout rd \<le> unixU64 c \<longrightarrow>
          status rd' = SESSION_STATUS_FINALIZED))"
proof (intro conjI allI impI)
  note ok = EndBlock_rounds_ok[OF assms]
  show "rounds_ok C (w_kv w')" by (rule ok)
  fix r rd assume r: "roundOf (w_kv w') r = Some rd \<and>
    status rd \<in> {SESSION_STATUS_ACTIVE, SESSION_STATUS_TALLYING, SESSION_STATUS_FINALIZED}"
  then have c: "ceremony_ok C rd" using rounds_okD[OF ok] by blast
  with r have conf: "ceremony_status rd = CEREMONY_STATUS_CONFIRMED"
    by (auto simp: ceremony_ok_def session_ok_def)
  from c obtain n where n: "indices_ok n rd" "phase_ok C n rd" by (auto simp: ceremony_ok_def)
  from n(2) conf obtain t where t: "ThresholdForN (int n) = Inr t" "threshold rd = word_of_int t"
    "t \<le> int (length (ceremony_validators rd))"
    "set (map vpk_validator_address (ceremony_validators rd)) = set (map ack_validator_address (ceremony_acks rd))"
    by (auto simp: phase_ok_def dealt_def)
  then show "\<exists>n t. ThresholdForN (int n) = Inr t \<and> threshold rd = word_of_int t \<and> 1 \<le> t \<and>
      t \<le> int (length (ceremony_validators rd)) \<and>
      set (map vpk_validator_address (ceremony_validators rd)) =
        set (map ack_validator_address (ceremony_acks rd)) \<and>
      (n < 2 ^ 32 \<longrightarrow> distinct (map vpk_shamir_index (ceremony_validators rd)) \<and>
         (\<forall>v \<in> set (ceremony_validators rd).
            1 \<le> unat (vpk_shamir_index v) \<and> unat (vpk_shamir_index v) \<le> n))"
    using indices_distinct[OF n(1)] ThresholdForN_le[OF t(1)] by blast
next
  fix r rd rd' assume r: "roundOf (w_kv w) r = Some rd \<and> roundOf (w_kv w') r = Some rd'"
  with EndBlock_effect(1)[OF assms(1,2,4,5), of r] have st: "status rd' = status (nextRound c rd)"
    by (auto simp: upToLog_iff)
  have "ceremony_ok C rd" using rounds_okD[OF assms(3)] r by blast
  then have "session_ok rd" "ceremony_status rd \<noteq> CEREMONY_STATUS_UNSPECIFIED"
    by (auto simp: ceremony_ok_def phase_ok_def)
  then show "status rd' \<in> {SESSION_STATUS_ACTIVE, SESSION_STATUS_CEREMONY_FAILED}"
    if "ceremonyTimedOut c (ceremony_status rd) rd"
    using that st by (cases "ceremony_status rd") (auto simp: nextRound_def ceremonyTimedOut_def session_ok_def)
  show "status rd' = SESSION_STATUS_TALLYING"
    if "status rd = SESSION_STATUS_ACTIVE \<and> vote_end_time rd \<le> unixU64 c"
    using that st by (simp add: nextRound_def)
  show "status rd' = SESSION_STATUS_FINALIZED"
    if "status rd = SESSION_STATUS_TALLYING \<and> tally_phase_timeout rd \<noteq> 0 \<and>
      tally_phase_start rd + tally_phase_timeout rd \<le> unixU64 c"
    using that st by (simp add: nextRound_def ceremonyTimedOut_def)
qed

theorem end_block_keeps_decryptable_witness:
  "rounds_ok curve7 (w_kv (worldOf sampleAcked)) \<and> (\<exists>w'. EndBlock listEnv lateCtx (worldOf sampleAcked) =
     (Inr (), w') \<and> rounds_ok curve7 (w_kv w'))"
proof -
  have st: "kv_wf (w_kv (worldOf sampleAcked))" "rounds_ok curve7 (w_kv (worldOf sampleAcked))"
    using sampleStoreOf_ok[OF sampleAcked_ok(2,1)] by (simp_all add: worldOf_def)
  note run = run_of_fst[of "EndBlock listEnv lateCtx", OF sampleAcked_run]
  from end_block_keeps_decryptable[OF listTree_frame st run lateCtx_time] st run show ?thesis by blast
qed

end
