(* ===== verification/Msg_Tally.thy ===== *)
theory Msg_Tally
  imports End_Block
begin

text \<open>
  The tally handlers of \<^verbatim>\<open>src/x/vote/keeper/msg_server_tally_decrypt.go\<close>: the submission
  of a validator's partial decryptions (\<open>SubmitPartialDecryption\<close>) and of the decrypted
  totals (\<open>SubmitTally\<close>).

  The lemmas show that a partial decryption is stored only when its proof verifies against
  the verification key derived from the round's Feldman commitments, once per validator, and
  that a total is stored only when it is the discrete logarithm of the accumulator decrypted
  with the Lagrange combination of the stored partial decryptions: with honest shares, of
  the accumulator decrypted with the shared secret key.
\<close>

section \<open>Handlers\<close>

text \<open>One iteration of the loop over \<^verbatim>\<open>msg.Entries\<close>.\<close>

definition tallyEntryStep ::
  "('s::field, 'p::ab_group_add) curve \<Rightarrow> VoteRound \<Rightarrow> bytes \<Rightarrow>
   (u64 \<times> PartialDecryptionWithIndex list) list \<Rightarrow> TallyEntry \<Rightarrow> (vkv, unit) M" where
  "tallyEntryStep C rd roundID pdMap entry =
     bindM (liftR (ValidateEntryBounds rd (te_proposal_id entry) (te_vote_decision entry))) (\<lambda>_.
     failIf (te_total_value entry \<ge> TallyBSGSBound) ErrTallyMismatch (
     bindM (GetTally roundID (te_proposal_id entry) (te_vote_decision entry)) (\<lambda>accBytes.
     thenM
       (case accBytes of
          None \<Rightarrow> failIf (te_total_value entry \<noteq> 0) ErrTallyMismatch (returnM ())
        | Some b \<Rightarrow>
            bindM (liftR (UnmarshalCiphertext C b)) (\<lambda>ct.
            let storedPartials = entriesAt pdMap
                  (AccumulatorKey (te_proposal_id entry) (te_vote_decision entry)) in
            failIf (length storedPartials = 0) ErrTallyMismatch (
            bindM (liftR (mapR (\<lambda>pd.
              bindR (UnmarshalPoint C (pdi_partial_decrypt pd)) (\<lambda>point.
              Inr \<lparr>pd_index = uint (pdi_validator_index pd), pd_Di = point\<rparr>)) storedPartials))
              (\<lambda>shamirPartials.
            bindM (liftR (wrapErr ErrTallyMismatch
              (CombinePartials C shamirPartials (uint (threshold rd))))) (\<lambda>skC1.
            let vG = C2 ct - skC1 in
            failIf (ToAffineCompressed C vG \<noteq>
                ToAffineCompressed C (ValuePoint C (te_total_value entry))) ErrTallyMismatch (
            returnM ()))))))
       (SetTallyResult \<lparr>tr_vote_round_id = roundID, tr_proposal_id = te_proposal_id entry,
          tr_vote_decision = te_vote_decision entry, tr_total_value = te_total_value entry\<rparr>))))"

definition SubmitTally ::
  "('x, 'h) env \<Rightarrow> ('s::field, 'p::ab_group_add) curve \<Rightarrow> 'x \<Rightarrow> ctx \<Rightarrow> MsgSubmitTally \<Rightarrow>
   (vkv, u32) M" where
  "SubmitTally E C x c msg =
     bindM (liftR (ValidateProposerIsCreator E x c (mt_creator msg))) (\<lambda>_.
     bindM (GetVoteRound (mt_vote_round_id msg)) (\<lambda>rd.
     failIf (status rd \<noteq> SESSION_STATUS_TALLYING) ErrRoundNotTallying (
     bindM (GetPartialDecryptionsForRound (mt_vote_round_id msg)) (\<lambda>pdMap.
     thenM (forM (mt_entries msg) (tallyEntryStep C rd (mt_vote_round_id msg) pdMap)) (
     thenM (ValidateTallyCompleteness rd (mt_entries msg)) (
     thenM (SetVoteRound (rd\<lparr>status := SESSION_STATUS_FINALIZED\<rparr>)) (
     returnM (word_of_nat (length (mt_entries msg))))))))))"

definition deserializeFeldmanCommitments ::
  "('s, 'p::ab_group_add) curve \<Rightarrow> bytes list \<Rightarrow> 'p list res" where
  "deserializeFeldmanCommitments C raw =
     failIfR (length raw = 0) ErrOther (mapR (DecompressPallasPoint C) raw)"

definition SubmitPartialDecryption ::
  "('x, 'h) env \<Rightarrow> ('s::field, 'p::ab_group_add) curve \<Rightarrow> 'x \<Rightarrow> ctx \<Rightarrow>
   MsgSubmitPartialDecryption \<Rightarrow> (vkv, unit) M" where
  "SubmitPartialDecryption E C x c msg =
     bindM (liftR (ValidateProposerIsCreator E x c (mp_creator msg))) (\<lambda>_.
     bindM (GetVoteRound (mp_vote_round_id msg)) (\<lambda>rd.
     failIf (status rd \<noteq> SESSION_STATUS_TALLYING) ErrRoundNotTallying (
     (case FindValidatorInRoundCeremony rd (mp_creator msg) of
        None \<Rightarrow> throwM ErrInvalidField
      | Some ceremonyVal \<Rightarrow>
          failIf (mp_validator_index msg \<noteq> vpk_shamir_index ceremonyVal) ErrInvalidField (
          bindM (HasPartialDecryptionsFromValidator (mp_vote_round_id msg) (mp_validator_index msg))
            (\<lambda>has.
          failIf has ErrInvalidField (
          bindM (ValidateAndDecodePartialDecryptionEntries C rd (mp_entries msg)) (\<lambda>validatedEntries.
          bindM (liftR (wrapErr ErrInvalidField
            (deserializeFeldmanCommitments C (feldman_commitments rd)))) (\<lambda>commitmentPts.
          bindM (liftR (wrapErr ErrInvalidField
            (EvalCommitmentPolynomial C commitmentPts (uint (mp_validator_index msg))))) (\<lambda>vkPoint.
          thenM (forM validatedEntries (\<lambda>(entry, Di, ct).
            liftR (wrapErr ErrInvalidField
              (VerifyPartialDecryptDLEQ (envLib E) C (pd_dleq_proof entry) vkPoint (C1 ct) Di)))) (
          SetPartialDecryptions (mp_vote_round_id msg) (mp_validator_index msg)
            (mp_entries msg))))))))))))"

section \<open>Stored results\<close>

definition resultKey :: "bytes \<Rightarrow> u32 \<Rightarrow> u32 \<Rightarrow> bytes" where
  "resultKey r p d = 0x07 # r @ putUint32BE p @ putUint32BE d"

definition resultOf :: "vkv \<Rightarrow> bytes \<Rightarrow> u32 \<times> u32 \<rightharpoonup> u64" where
  "resultOf s r = (\<lambda>(p, d). map_option tr_total_value (view decodeTallyResult s (resultKey r p d)))"

definition resultMap :: "TallyEntry list \<Rightarrow> u32 \<times> u32 \<rightharpoonup> u64" where
  "resultMap es = map_of (rev (map (\<lambda>e. ((te_proposal_id e, te_vote_decision e), te_total_value e)) es))"

lemma resultKey_inject:
  "length r = 32 \<Longrightarrow> length r' = 32 \<Longrightarrow>
     resultKey r p d = resultKey r' p' d' \<longleftrightarrow> r = r' \<and> p = p' \<and> d = d'"
  by (simp add: resultKey_def append_eq_same_length)

lemma hd_resultKey [simp]: "hd (resultKey r p d) = 0x07"
  by (simp add: resultKey_def)

lemma SetTallyResult_Inr_iff:
  "SetTallyResult t s = (Inr u, s') \<longleftrightarrow> length (tr_vote_round_id t) = 32 \<and>
     s' = kv_set (resultKey (tr_vote_round_id t) (tr_proposal_id t) (tr_vote_decision t)) (VTallyResult t) s"
  by (auto simp: SetTallyResult_def succ_iffs key_simps bindR_Inr_iff kvSet_def resultKey_def)

definition storeResult :: "bytes \<Rightarrow> TallyEntry \<Rightarrow> vkv \<Rightarrow> vkv" where
  "storeResult r e s = kv_set (resultKey r (te_proposal_id e) (te_vote_decision e))
     (VTallyResult \<lparr>tr_vote_round_id = r, tr_proposal_id = te_proposal_id e,
        tr_vote_decision = te_vote_decision e, tr_total_value = te_total_value e\<rparr>) s"

lemma storeResult_frame: "hd k \<noteq> 0x07 \<Longrightarrow> kv_get (storeResult r e s) k = kv_get s k"
  by (auto simp: storeResult_def get_simps)

lemma kv_wf_storeResult: "kv_wf s \<Longrightarrow> length r = 32 \<Longrightarrow> kv_wf (storeResult r e s)"
  by (simp add: storeResult_def kv_wf_set entry_ok_def resultKey_def key_simps ValidateRoundID_ok)

lemma resultOf_storeResult:
  "length r = 32 \<Longrightarrow> length r' = 32 \<Longrightarrow> resultOf (storeResult r e s) r' =
     (if r' = r then (resultOf s r)((te_proposal_id e, te_vote_decision e) \<mapsto> te_total_value e)
      else resultOf s r')"
  by (auto simp: resultOf_def storeResult_def view_set resultKey_inject okOpt_def fun_eq_iff)

section \<open>What an accepted entry satisfies\<close>

definition toShamir ::
  "('s, 'p::ab_group_add) curve \<Rightarrow> PartialDecryptionWithIndex \<Rightarrow> 'p PartialDecryption res" where
  "toShamir C pd = bindR (UnmarshalPoint C (pdi_partial_decrypt pd)) (\<lambda>point.
     Inr \<lparr>pd_index = uint (pdi_validator_index pd), pd_Di = point\<rparr>)"

definition entryHolds ::
  "('s::field, 'p::ab_group_add) curve \<Rightarrow> VoteRound \<Rightarrow> bytes option \<Rightarrow>
   PartialDecryptionWithIndex list \<Rightarrow> u64 \<Rightarrow> bool" where
  "entryHolds C rd acc pds v \<longleftrightarrow> v < TallyBSGSBound \<and>
     (case acc of
        None \<Rightarrow> v = 0
      | Some b \<Rightarrow> \<exists>ct ps P. UnmarshalCiphertext C b = Inr ct \<and> mapR (toShamir C) pds = Inr ps \<and>
          CombinePartials C ps (uint (threshold rd)) = Inr P \<and> C2 ct - P = ValuePoint C v)"

lemma tallyEntryStep_Inr:
  assumes "curve_ok C" and "tallyEntryStep C rd r m e s = (Inr u, s')"
  shows "length r = 32 \<and> s' = storeResult r e s \<and>
    entryHolds C rd (accOf s r (te_proposal_id e) (te_vote_decision e))
      (entriesAt m (AccumulatorKey (te_proposal_id e) (te_vote_decision e))) (te_total_value e)"
proof -
  let ?p = "te_proposal_id e" and ?d = "te_vote_decision e"
  obtain b t where h: "\<not> te_total_value e \<ge> TallyBSGSBound" "GetTally r ?p ?d s = (Inr b, s)"
    "length r = 32" "s' = storeResult r e t"
    "(case b of
          None \<Rightarrow> failIf (te_total_value e \<noteq> 0) ErrTallyMismatch (returnM ())
        | Some b \<Rightarrow>
            bindM (liftR (UnmarshalCiphertext C b)) (\<lambda>ct.
            let storedPartials = entriesAt m (AccumulatorKey ?p ?d) in
            failIf (length storedPartials = 0) ErrTallyMismatch (
            bindM (liftR (mapR (toShamir C) storedPartials)) (\<lambda>shamirPartials.
            bindM (liftR (wrapErr ErrTallyMismatch
              (CombinePartials C shamirPartials (uint (threshold rd))))) (\<lambda>skC1.
            let vG = C2 ct - skC1 in
            failIf (ToAffineCompressed C vG \<noteq>
                ToAffineCompressed C (ValuePoint C (te_total_value e))) ErrTallyMismatch (
            returnM ())))))) s = (Inr (), t)"
    using assms(2) unfolding tallyEntryStep_def toShamir_def[abs_def]
    by (clarsimp simp: succ_iffs SetTallyResult_Inr_iff storeResult_def GetTally_Inr_iff)
  have "accOf s r ?p ?d = b" using h(2)
    by (auto simp: GetTally_Inr_iff accOf_def view_def okOpt_def split: option.splits)
  moreover have "t = s \<and> entryHolds C rd b (entriesAt m (AccumulatorKey ?p ?d)) (te_total_value e)"
    using h(1,5) by (cases b)
      (auto simp: entryHolds_def succ_iffs Let_def compress_inject[OF assms(1)] not_le)
  ultimately show ?thesis using h(3,4) by simp
qed

lemma accOf_cong:
  "(\<And>k. hd k \<noteq> 0x07 \<Longrightarrow> kv_get s' k = kv_get s k) \<Longrightarrow> accOf s' r p d = accOf s r p d"
  by (simp add: accOf_def view_def)

lemma tallyEntries_Inr:
  assumes "curve_ok C" and "length r = 32"
  shows "kv_wf s \<Longrightarrow> forM es (tallyEntryStep C rd r m) s = (Inr u, s') \<Longrightarrow>
    kv_wf s' \<and> (\<forall>k. hd k \<noteq> 0x07 \<longrightarrow> kv_get s' k = kv_get s k) \<and>
    (\<forall>r'. length r' = 32 \<longrightarrow> resultOf s' r' =
       (if r' = r then resultOf s r ++ resultMap es else resultOf s r')) \<and>
    (\<forall>e \<in> set es. entryHolds C rd (accOf s r (te_proposal_id e) (te_vote_decision e))
      (entriesAt m (AccumulatorKey (te_proposal_id e) (te_vote_decision e))) (te_total_value e))"
proof (induction es arbitrary: s)
  case Nil
  then show ?case by (auto simp: returnM_def resultMap_def)
next
  case (Cons e es)
  from Cons.prems(2) obtain t where step: "tallyEntryStep C rd r m e s = (Inr (), t)"
    and rest: "forM es (tallyEntryStep C rd r m) t = (Inr u, s')" by (auto simp: succ_iffs)
  note e = tallyEntryStep_Inr[OF assms(1) step]
  have t: "t = storeResult r e s" using e by simp
  have "kv_wf t" using Cons.prems(1) assms(2) t by (simp add: kv_wf_storeResult)
  note IH = Cons.IH[OF this rest]
  have acc: "accOf t r p d = accOf s r p d" for p d
    unfolding t by (rule accOf_cong) (rule storeResult_frame)
  have "resultOf s' r' = (if r' = r then resultOf s r ++ resultMap (e # es) else resultOf s r')"
    if "length r' = 32" for r'
    using IH that resultOf_storeResult[OF assms(2)] assms(2) by (auto simp: t resultMap_def)
  moreover have "\<forall>k. hd k \<noteq> 0x07 \<longrightarrow> kv_get s' k = kv_get s k"
    using IH storeResult_frame unfolding t by metis
  ultimately show ?case using IH e acc by auto
qed

section \<open>Submitting the tally\<close>

lemma CombinePartials_sound:
  assumes "curve_ok C" and "CombinePartials C ps t = Inr P" and "cs \<noteq> []" and "int (length cs) \<le> t"
    and "\<forall>p \<in> set ps. pd_Di p = Mul C Q (polyVal cs (of_int (pd_index p)))"
  shows "P = Mul C Q (hd cs)"
proof -
  obtain ls where l: "LagrangeCoefficients (map pd_index ps) 0 = Inr ls" "t \<le> int (length ps)"
    "P = (\<Sum>j < length ps. Mul C (pd_Di (ps ! j)) (ls ! j))"
    using assms(2) unfolding CombinePartials_Inr_iff by blast
  have "P = Mul C Q (\<Sum>j < length ps. polyVal cs (of_int (map pd_index ps ! j)) * ls ! j)"
    unfolding l(3) using assms(1,5) by (simp add: Mul_sum Mul_Mul)
  also have "(\<Sum>j < length ps. polyVal cs (of_int (map pd_index ps ! j)) * ls ! j) = polyVal cs 0"
    using lagrange_reconstruct[OF l(1), of cs] l(2) assms(4) by simp
  also have "polyVal cs 0 = hd cs" using assms(3) by (cases cs) simp_all
  finally show ?thesis .
qed

text \<open>
  The stored partial decryptions of an accumulator are honest for the polynomial \<open>cs\<close> when
  each is the polynomial's value at the validator's index, times \<open>C1\<close>.
\<close>

definition honestPartials ::
  "('s::field, 'p::ab_group_add) curve \<Rightarrow> vkv \<Rightarrow> bytes \<Rightarrow> u32 \<Rightarrow> u32 \<Rightarrow> 'p \<Rightarrow> 's list \<Rightarrow> bool" where
  "honestPartials C s r p d Q cs \<longleftrightarrow> (\<forall>i e. partialOf s r i (p, d) = Some e \<longrightarrow>
     UnmarshalPoint C (pd_partial_decrypt e) = Inr (Mul C Q (polyVal cs (of_int (uint i)))))"

lemma entryHolds_honest:
  assumes "curve_ok C" and "entryHolds C rd (accOf s r p d) pds v"
    and "set pds = {withIndex i e |i e. partialOf s r i (p, d) = Some e}" and "length r = 32"
  shows "case ctOf C s (r, p, d) of
      None \<Rightarrow> accOf s r p d = None \<and> v = 0
    | Some ct \<Rightarrow> \<forall>cs. cs \<noteq> [] \<and> length cs \<le> unat (threshold rd) \<and> honestPartials C s r p d (C1 ct) cs \<longrightarrow>
        DecryptToPoint C (hd cs) ct = ValuePoint C v"
proof (cases "accOf s r p d")
  case None
  then show ?thesis using assms(2) by (simp add: ctOf_def entryHolds_def)
next
  case (Some b)
  with assms(2) obtain ct ps P where h: "UnmarshalCiphertext C b = Inr ct" "mapR (toShamir C) pds = Inr ps"
    "CombinePartials C ps (uint (threshold rd)) = Inr P" "C2 ct - P = ValuePoint C v"
    by (auto simp: entryHolds_def)
  have ct: "ctOf C s (r, p, d) = Some ct" using Some h(1) assms(4) by (simp add: ctOf_def okOpt_def)
  have "DecryptToPoint C (hd cs) ct = ValuePoint C v"
    if cs: "cs \<noteq> []" "length cs \<le> unat (threshold rd)" "honestPartials C s r p d (C1 ct) cs" for cs
  proof -
    have "pd_Di q = Mul C (C1 ct) (polyVal cs (of_int (pd_index q)))" if q: "q \<in> set ps" for q
    proof -
      obtain k where k: "k < length pds" "toShamir C (pds ! k) = Inr q"
        using h(2) q by (auto simp: mapR_Inr_iff in_set_conv_nth)
      obtain i e where "pds ! k = withIndex i e" "partialOf s r i (p, d) = Some e"
        using assms(3) nth_mem[OF k(1)] by auto
      then show ?thesis using k(2) cs(3) by (auto simp: toShamir_def withIndex_def honestPartials_def)
    qed
    moreover have "int (length cs) \<le> uint (threshold rd)" unfolding uint_nat of_nat_le_iff by (rule cs(2))
    ultimately have "P = Mul C (C1 ct) (hd cs)" by (intro CombinePartials_sound[OF assms(1) h(3) cs(1)]) auto
    then show ?thesis using h(4) by (simp add: DecryptToPoint_def)
  qed
  then show ?thesis using ct by simp
qed

lemma resultMap_Some: "resultMap es k = Some v \<Longrightarrow>
    \<exists>e \<in> set es. k = (te_proposal_id e, te_vote_decision e) \<and> v = te_total_value e"
  by (auto simp: resultMap_def dest!: map_of_SomeD)

lemma dom_resultMap: "dom (resultMap es) = (\<lambda>e. (te_proposal_id e, te_vote_decision e)) ` set es"
  by (force simp: resultMap_def dom_map_of_conv_image_fst)

lemma SubmitTally_Inr:
  assumes "SubmitTally E C x c msg s = (Inr n, s')"
  shows "\<exists>rd m t. isProposer E x c (mt_creator msg) \<and> length (mt_vote_round_id msg) = 32 \<and>
    roundOf s (mt_vote_round_id msg) = Some rd \<and> status rd = SESSION_STATUS_TALLYING \<and>
    GetPartialDecryptionsForRound (mt_vote_round_id msg) s = (Inr m, s) \<and>
    forM (mt_entries msg) (tallyEntryStep C rd (mt_vote_round_id msg) m) s = (Inr (), t) \<and>
    fst (ValidateTallyCompleteness rd (mt_entries msg) t) = Inr () \<and>
    s' = kv_set (0x04 # vote_round_id rd) (VVoteRound (rd\<lparr>status := SESSION_STATUS_FINALIZED\<rparr>))
      (snd (ValidateTallyCompleteness rd (mt_entries msg) t)) \<and>
    n = word_of_nat (length (mt_entries msg))"
proof -
  have pure: "GetPartialDecryptionsForRound r s = (Inr m, t) \<Longrightarrow> t = s" for r m t
    by (auto simp: GetPartialDecryptionsForRound_def succ_iffs kvScan_def)
  show ?thesis using assms unfolding SubmitTally_def
    by (clarsimp simp: succ_iffs ValidateProposerIsCreator_Inr_iff GetVoteRound_Inr_iff
        SetVoteRound_Inr_iff) (metis pure fst_conv snd_conv)
qed

text \<open>
  C5. Submitting the tally. An accepted submission comes from the block's proposer for a
  tallying round, finalises that round and stores exactly its totals; no other round, no
  accumulator and no partial decryption changes. Every non-empty accumulator of the round
  has a total, every total is below the discrete-logarithm bound, an accumulator nobody
  revealed a share for has total 0, and for every other one: whenever the stored partial
  decryptions are values of one polynomial with at most as many coefficients as the
  threshold, the total is the one the accumulator decrypts to under the polynomial's constant
  term, the shared secret key.
\<close>

theorem submit_tally_sound:
  assumes "curve_ok C" and "kv_wf s" and "SubmitTally E C x c msg s = (Inr n, s')"
    and "r = mt_vote_round_id msg"
  shows "\<exists>rd. roundOf s r = Some rd \<and> status rd = SESSION_STATUS_TALLYING \<and>
    isProposer E x c (mt_creator msg) \<and>
    roundOf s' = (roundOf s)(r \<mapsto> rd\<lparr>status := SESSION_STATUS_FINALIZED\<rparr>) \<and>
    resultOf s' r = resultOf s r ++ resultMap (mt_entries msg) \<and>
    (\<forall>r'. length r' = 32 \<and> r' \<noteq> r \<longrightarrow> resultOf s' r' = resultOf s r') \<and>
    (\<forall>k. hd k \<notin> {0x04, 0x07} \<longrightarrow> kv_get s' k = kv_get s k) \<and> kv_wf s' \<and>
    nonEmptyAccs s rd \<subseteq> dom (resultMap (mt_entries msg)) \<and>
    (\<forall>p d v. resultMap (mt_entries msg) (p, d) = Some v \<longrightarrow> v < TallyBSGSBound \<and>
      (case ctOf C s (r, p, d) of
         None \<Rightarrow> accOf s r p d = None \<and> v = 0
       | Some ct \<Rightarrow> \<forall>cs. cs \<noteq> [] \<and> length cs \<le> unat (threshold rd) \<and>
           honestPartials C s r p d (C1 ct) cs \<longrightarrow> DecryptToPoint C (hd cs) ct = ValuePoint C v))"
proof -
  from SubmitTally_Inr[OF assms(3)] obtain rd m t where h: "isProposer E x c (mt_creator msg)"
    "length r = 32" "roundOf s r = Some rd" "status rd = SESSION_STATUS_TALLYING"
    "GetPartialDecryptionsForRound r s = (Inr m, s)"
    "forM (mt_entries msg) (tallyEntryStep C rd r m) s = (Inr (), t)"
    "fst (ValidateTallyCompleteness rd (mt_entries msg) t) = Inr ()"
    and s': "s' = kv_set (0x04 # vote_round_id rd) (VVoteRound (rd\<lparr>status := SESSION_STATUS_FINALIZED\<rparr>))
      (snd (ValidateTallyCompleteness rd (mt_entries msg) t))"
    unfolding assms(4)[symmetric] by blast
  have rd: "vote_round_id rd = r" using roundOf_wf[OF assms(2) h(3)] by simp
  note t = tallyEntries_Inr[OF assms(1) h(2) assms(2) h(6)]
  have len: "length (vote_round_id rd) = 32" using h(2) rd by simp
  have "kv_wf t" using t by blast
  note complete = TallyCompleteness_wf[OF this len, of "mt_entries msg", THEN conjunct1]
  have acc: "accOf t r p d = accOf s r p d" for p d using t by (intro accOf_cong) blast
  then have "nonEmptyAccs t rd = nonEmptyAccs s rd" by (simp add: nonEmptyAccs_def rd)
  with complete h(7) have cover: "nonEmptyAccs s rd \<subseteq> dom (resultMap (mt_entries msg))"
    by (simp add: dom_resultMap split: if_splits)
  have s'': "s' = kv_set (0x04 # r) (VVoteRound (rd\<lparr>status := SESSION_STATUS_FINALIZED\<rparr>)) t"
    using s' complete rd by simp
  have wf: "kv_wf s'" using \<open>kv_wf t\<close> h(2) rd by (simp add: s'' kv_wf_set entry_ok_round)
  have frame: "\<forall>k. hd k \<notin> {0x04, 0x07} \<longrightarrow> kv_get s' k = kv_get s k"
    using t by (auto simp: s'' get_simps)
  have rounds: "roundOf s' = (roundOf s)(r \<mapsto> rd\<lparr>status := SESSION_STATUS_FINALIZED\<rparr>)"
    using t by (auto simp: s'' roundOf_set_round roundOf_def view_def fun_eq_iff)
  have res: "resultOf s' r' = (if r' = r then resultOf s r ++ resultMap (mt_entries msg) else resultOf s r')"
    if "length r' = 32" for r'
    using t that by (auto simp: s'' resultOf_def view_set resultKey_def)
  obtain m' where m': "GetPartialDecryptionsForRound r s = (Inr m', s)"
    "\<And>p d. set (entriesAt m' (AccumulatorKey p d)) = {withIndex i e |i e. partialOf s r i (p, d) = Some e}"
    using GetPartialDecryptionsForRound_wf[OF assms(2) h(2)] by blast
  then have m: "m' = m" using h(5) by simp
  have vals: "v < TallyBSGSBound \<and> (case ctOf C s (r, p, d) of
         None \<Rightarrow> accOf s r p d = None \<and> v = 0
       | Some ct \<Rightarrow> \<forall>cs. cs \<noteq> [] \<and> length cs \<le> unat (threshold rd) \<and>
           honestPartials C s r p d (C1 ct) cs \<longrightarrow> DecryptToPoint C (hd cs) ct = ValuePoint C v)"
    if "resultMap (mt_entries msg) (p, d) = Some v" for p d v
  proof -
    from resultMap_Some[OF that] t have e: "entryHolds C rd (accOf s r p d)
      (entriesAt m (AccumulatorKey p d)) v" by auto
    show ?thesis using entryHolds_honest[OF assms(1) e m'(2)[of p d, unfolded m] h(2)] e
      by (simp add: entryHolds_def)
  qed
  show ?thesis
    using h(1,3,4) rounds res[OF h(2)] res frame wf cover vals by (intro exI[of _ rd]) auto
qed

section \<open>Submitting partial decryptions\<close>

lemma forM_verify_Inr:
  "forM xs (\<lambda>(a, b, d). liftR (wrapErr e (g a b d))) s = (Inr u, s') \<longleftrightarrow>
     s' = s \<and> (\<forall>(a, b, d) \<in> set xs. g a b d = Inr ())"
  by (induction xs) (auto simp: succ_iffs)

text \<open>The decoded entries, when every one of them is accepted.\<close>

lemma ValidateAndDecode_Inr:
  assumes "kv_wf s" and "length (vote_round_id rd) = 32"
    and "ValidateAndDecodePartialDecryptionEntries C rd es s = (Inr vs, s')"
  shows "s' = s \<and> es \<noteq> [] \<and> nonEmptyAccs s rd \<subseteq> (\<lambda>e. (pd_proposal_id e, pd_vote_decision e)) ` set es \<and>
    map fst vs = es \<and> (\<forall>(e, D, ct) \<in> set vs. UnmarshalPoint C (pd_partial_decrypt e) = Inr D \<and>
      ctOf C s (vote_round_id rd, pd_proposal_id e, pd_vote_decision e) = Some ct)"
proof -
  let ?r = "vote_round_id rd"
  define f where "f = (\<lambda>entry :: PartialDecryptionEntry.
       bindM (liftR (wrapErr ErrInvalidField (UnmarshalPoint C (pd_partial_decrypt entry)))) (\<lambda>Di.
       bindM (liftR (ValidateEntryBounds rd (pd_proposal_id entry) (pd_vote_decision entry))) (\<lambda>_.
       bindM (GetTally ?r (pd_proposal_id entry) (pd_vote_decision entry)) (\<lambda>accBytes.
       (case accBytes of
          None \<Rightarrow> throwM ErrInvalidField
        | Some b \<Rightarrow>
            bindM (liftR (UnmarshalCiphertext C b)) (\<lambda>ct. returnM (entry, Di, ct)))))))"
  note complete = TallyCompleteness_wf[OF assms(1,2), THEN conjunct2, of es]
  have h: "es \<noteq> []" "nonEmptyAccs s rd \<subseteq> (\<lambda>e. (pd_proposal_id e, pd_vote_decision e)) ` set es"
    "mapM f es s = (Inr vs, s')"
    using assms(3) complete
    by (auto simp: ValidateAndDecodePartialDecryptionEntries_def succ_iffs f_def split: if_splits)
  have step: "t = s \<and> fst v = e \<and> (case v of (e, D, ct) \<Rightarrow>
      UnmarshalPoint C (pd_partial_decrypt e) = Inr D \<and>
      ctOf C s (?r, pd_proposal_id e, pd_vote_decision e) = Some ct)" if "f e s = (Inr v, t)" for e v t
    using that unfolding f_def
    by (auto simp: succ_iffs GetTally_wf[OF assms(1,2)] ctOf_def okOpt_def assms(2) split: option.splits)
  have "mapM f es s = (Inr vs, s') \<Longrightarrow> s' = s \<and> map fst vs = es \<and> (\<forall>(e, D, ct) \<in> set vs.
      UnmarshalPoint C (pd_partial_decrypt e) = Inr D \<and>
      ctOf C s (?r, pd_proposal_id e, pd_vote_decision e) = Some ct)"
  proof (induction es arbitrary: vs)
    case Nil
    then show ?case by (simp add: returnM_def)
  next
    case (Cons e es)
    from Cons.prems obtain v t vs' where v: "f e s = (Inr v, t)" "mapM f es t = (Inr vs', s')" "vs = v # vs'"
      by (auto simp: succ_iffs)
    note e = step[OF v(1)]
    then have "mapM f es s = (Inr vs', s')" using v(2) by simp
    from Cons.IH[OF this] e v(3) show ?case by auto
  qed
  with h show ?thesis by blast
qed

lemma SubmitPartialDecryption_Inr:
  assumes "SubmitPartialDecryption E C x c msg s = (Inr u, s')"
    and "r = mp_vote_round_id msg" and "i = mp_validator_index msg"
  shows "\<exists>rd val vs pts VK t. isProposer E x c (mp_creator msg) \<and> length r = 32 \<and>
    roundOf s r = Some rd \<and> status rd = SESSION_STATUS_TALLYING \<and>
    FindValidatorInRoundCeremony rd (mp_creator msg) = Some val \<and> vpk_shamir_index val = i \<and>
    HasPartialDecryptionsFromValidator r i s = (Inr False, t) \<and>
    fst (ValidateAndDecodePartialDecryptionEntries C rd (mp_entries msg) t) = Inr vs \<and>
    mapR (DecompressPallasPoint C) (feldman_commitments rd) = Inr pts \<and>
    EvalCommitmentPolynomial C pts (uint i) = Inr VK \<and>
    (\<forall>(e, D, ct) \<in> set vs. VerifyPartialDecryptDLEQ (envLib E) C (pd_dleq_proof e) VK (C1 ct) D = Inr ()) \<and>
    SetPartialDecryptions r i (mp_entries msg)
      (snd (ValidateAndDecodePartialDecryptionEntries C rd (mp_entries msg) t)) = (Inr (), s')"
proof -
  obtain rd where rd: "isProposer E x c (mp_creator msg)" "length r = 32" "roundOf s r = Some rd"
    "status rd = SESSION_STATUS_TALLYING"
    using assms unfolding SubmitPartialDecryption_def
    by (clarsimp simp: succ_iffs ValidateProposerIsCreator_Inr_iff GetVoteRound_Inr_iff)
  then have get: "GetVoteRound (mp_vote_round_id msg) s = (Inr rd, s)"
    using assms(2) by (simp add: GetVoteRound_Inr_iff)
  show ?thesis
  proof (cases "FindValidatorInRoundCeremony rd (mp_creator msg)")
    case None
    then show ?thesis using assms(1) rd get
      by (auto simp: SubmitPartialDecryption_def succ_iffs)
  next
    case (Some val)
    from assms(1) obtain t vs t2 pts VK where
      h: "mp_validator_index msg = vpk_shamir_index val"
      "HasPartialDecryptionsFromValidator r i s = (Inr False, t)"
      "ValidateAndDecodePartialDecryptionEntries C rd (mp_entries msg) t = (Inr vs, t2)"
      "mapR (DecompressPallasPoint C) (feldman_commitments rd) = Inr pts"
      "EvalCommitmentPolynomial C pts (uint i) = Inr VK"
      "\<forall>(e, D, ct) \<in> set vs. VerifyPartialDecryptDLEQ (envLib E) C (pd_dleq_proof e) VK (C1 ct) D = Inr ()"
      "SetPartialDecryptions r i (mp_entries msg) t2 = (Inr (), s')"
      unfolding SubmitPartialDecryption_def deserializeFeldmanCommitments_def assms(2,3)
      by (clarsimp simp: succ_iffs get Some forM_verify_Inr)
    then show ?thesis using rd Some assms(3)
      by (intro exI[of _ rd] exI[of _ val] exI[of _ vs] exI[of _ pts] exI[of _ VK] exI[of _ t]) simp
  qed
qed

text \<open>A validator that has submitted for a round is refused from then on.\<close>

lemma submit_again_refused:
  assumes "kv_wf s" and "length (mp_vote_round_id msg) = 32"
    and "mp_validator_index msg \<in> submitters s (mp_vote_round_id msg)"
  shows "\<exists>e. fst (SubmitPartialDecryption E C x c msg s) = Inl e"
proof (cases "SubmitPartialDecryption E C x c msg s")
  case (Pair res w)
  show ?thesis
  proof (cases res)
    case (Inr u')
    from SubmitPartialDecryption_Inr[OF Pair[unfolded Inr] refl refl] obtain t' where
      "HasPartialDecryptionsFromValidator (mp_vote_round_id msg) (mp_validator_index msg) s = (Inr False, t')" by blast
    with HasPartialDecryptionsFromValidator_wf[OF assms(1,2)] assms(3) show ?thesis by simp
  qed (simp add: Pair)
qed

text \<open>
  C34. Submitting partial decryptions. An accepted submission comes from the block's proposer,
  for a tallying round, by a validator of that round's ceremony under its own Shamir index,
  which had not submitted before. It covers every non-empty accumulator, and each of its
  entries carries a proof that verifies against the verification key the round's Feldman
  commitments give for that index and the accumulator stored for the pair. Afterwards exactly
  these entries are stored for the validator, nothing else changes, and any further
  submission under the same index is refused.
\<close>

theorem submit_partial_decryption_effect:
  assumes "kv_wf s" and "SubmitPartialDecryption E C x c msg s = (Inr u, s')"
    and "r = mp_vote_round_id msg" and "i = mp_validator_index msg"
  shows "(\<exists>rd val pts VK. roundOf s r = Some rd \<and> status rd = SESSION_STATUS_TALLYING \<and>
      isProposer E x c (mp_creator msg) \<and> val \<in> set (ceremony_validators rd) \<and>
      vpk_validator_address val = mp_creator msg \<and> vpk_shamir_index val = i \<and> i \<notin> submitters s r \<and>
      mapR (DecompressPallasPoint C) (feldman_commitments rd) = Inr pts \<and>
      EvalCommitmentPolynomial C pts (uint i) = Inr VK \<and>
      nonEmptyAccs s rd \<subseteq> (\<lambda>e. (pd_proposal_id e, pd_vote_decision e)) ` set (mp_entries msg) \<and>
      (\<forall>e \<in> set (mp_entries msg). \<exists>D ct. UnmarshalPoint C (pd_partial_decrypt e) = Inr D \<and>
        ctOf C s (r, pd_proposal_id e, pd_vote_decision e) = Some ct \<and>
        VerifyPartialDecryptDLEQ (envLib E) C (pd_dleq_proof e) VK (C1 ct) D = Inr ())) \<and>
    partialOf s' r i = partialMap (mp_entries msg) \<and>
    (\<forall>j. j \<noteq> i \<longrightarrow> partialOf s' r j = partialOf s r j) \<and>
    (\<forall>r' j. length r' = 32 \<and> r' \<noteq> r \<longrightarrow> partialOf s' r' j = partialOf s r' j) \<and>
    (\<forall>k. hd k \<noteq> 0x12 \<longrightarrow> kv_get s' k = kv_get s k) \<and> kv_wf s' \<and>
    (\<forall>x' c' msg'. mp_vote_round_id msg' = r \<and> mp_validator_index msg' = i \<longrightarrow>
      (\<exists>e. fst (SubmitPartialDecryption E C x' c' msg' s') = Inl e))"
proof -
  from SubmitPartialDecryption_Inr[OF assms(2-4)] obtain rd val vs pts VK t where
    h: "isProposer E x c (mp_creator msg)" "length r = 32"
    "roundOf s r = Some rd" "status rd = SESSION_STATUS_TALLYING"
    "FindValidatorInRoundCeremony rd (mp_creator msg) = Some val" "vpk_shamir_index val = i"
    "HasPartialDecryptionsFromValidator r i s = (Inr False, t)"
    "fst (ValidateAndDecodePartialDecryptionEntries C rd (mp_entries msg) t) = Inr vs"
    "mapR (DecompressPallasPoint C) (feldman_commitments rd) = Inr pts"
    "EvalCommitmentPolynomial C pts (uint i) = Inr VK"
    "\<forall>(e, D, ct) \<in> set vs. VerifyPartialDecryptDLEQ (envLib E) C (pd_dleq_proof e) VK (C1 ct) D = Inr ()"
    "SetPartialDecryptions r i (mp_entries msg)
      (snd (ValidateAndDecodePartialDecryptionEntries C rd (mp_entries msg) t)) = (Inr (), s')" by blast
  have has: "t = s" "i \<notin> submitters s r"
    using h(7) HasPartialDecryptionsFromValidator_wf[OF assms(1) h(2), of i] by auto
  have rd: "vote_round_id rd = r" using roundOf_wf[OF assms(1) h(3)] by simp
  obtain t2 where dec: "ValidateAndDecodePartialDecryptionEntries C rd (mp_entries msg) s = (Inr vs, t2)"
    using h(8) has(1) by (metis prod.collapse)
  note v = ValidateAndDecode_Inr[OF assms(1) _ dec, unfolded rd, OF h(2)]
  have set: "SetPartialDecryptions r i (mp_entries msg) s = (Inr (), s')"
    using h(12) dec has(1) v by simp
  obtain s'' where s'': "SetPartialDecryptions r i (mp_entries msg) s = (Inr (), s'')" "kv_wf s''"
    "\<forall>k. hd k \<noteq> 0x12 \<longrightarrow> kv_get s'' k = kv_get s k"
    "\<forall>r' j. length r' = 32 \<longrightarrow> partialOf s'' r' j =
       (if r' = r \<and> j = i then partialOf s r i ++ partialMap (mp_entries msg) else partialOf s r' j)"
    using SetPartialDecryptions_ok[OF h(2) assms(1), of i "mp_entries msg"] by blast
  have same: "s'' = s'" using s''(1) set by simp
  have empty: "partialOf s r i = Map.empty" using has(2) by (auto simp: submitters_def)
  have val: "val \<in> set (ceremony_validators rd)" "vpk_validator_address val = mp_creator msg"
    using h(5) by (auto simp: FindValidatorInRoundCeremony_def find_Some_iff)
  have entries: "\<exists>D ct. UnmarshalPoint C (pd_partial_decrypt e) = Inr D \<and>
        ctOf C s (r, pd_proposal_id e, pd_vote_decision e) = Some ct \<and>
        VerifyPartialDecryptDLEQ (envLib E) C (pd_dleq_proof e) VK (C1 ct) D = Inr ()"
    if "e \<in> set (mp_entries msg)" for e
  proof -
    from that v have "e \<in> fst ` set vs" by (metis set_map)
    then obtain D ct where "(e, D, ct) \<in> set vs" by force
    then show ?thesis using v h(11) by blast
  qed
  have part: "partialOf s' r i = partialMap (mp_entries msg)" using s''(4) h(2) empty same by simp
  then have "i \<in> submitters s' r" using v partialMap_empty_iff[of "mp_entries msg"]
    by (auto simp: submitters_def)
  then have again: "\<exists>e. fst (SubmitPartialDecryption E C x' c' msg' s') = Inl e"
    if "mp_vote_round_id msg' = r" "mp_validator_index msg' = i" for x' c' msg'
    using submit_again_refused[of s' msg'] that s''(2) same h(2) by simp
  have accepted: "roundOf s r = Some rd \<and> status rd = SESSION_STATUS_TALLYING \<and> isProposer E x c (mp_creator msg) \<and>
      i \<notin> submitters s r \<and> nonEmptyAccs s rd \<subseteq> (\<lambda>e. (pd_proposal_id e, pd_vote_decision e)) ` set (mp_entries msg)"
    using h(1,3,4) has(2) v by blast
  show ?thesis
    by (intro conjI allI impI exI[of _ rd] exI[of _ val] exI[of _ pts] exI[of _ VK])
      (use accepted val h(2,6,9,10) entries part s'' same again in auto)
qed

text \<open>
  A round of one validator with secret key 2 (public key 6), one revealed share of value 3,
  and that validator's partial decryption with its proof.
\<close>

definition sampleTallying :: VoteRound where
  "sampleTallying = sampleRound\<lparr>ea_pk := enc7 F6, feldman_commitments := [enc7 F6],
     ceremony_validators := [\<lparr>vpk_validator_address = [1], vpk_pallas_pk = enc7 F3, vpk_shamir_index = 1\<rparr>]\<rparr>"

definition tallyStore :: vkv where
  "tallyStore = [(0x04 # sampleRoundID, VVoteRound sampleTallying),
     (tallyKey sampleRoundID 1 0, VBytes (enc7 F3 @ enc7 F1))]"

definition sampleDecryption :: PartialDecryptionEntry where
  "sampleDecryption = \<lparr>pd_proposal_id = 1, pd_vote_decision = 0, pd_partial_decrypt = enc7 F6,
     pd_dleq_proof = enc7 F2 @ enc7 F5\<rparr>"

definition sampleSubmission :: MsgSubmitPartialDecryption where
  "sampleSubmission = \<lparr>mp_vote_round_id = sampleRoundID, mp_creator = [1], mp_validator_index = 1,
     mp_entries = [sampleDecryption]\<rparr>"

definition decryptedStore :: vkv where
  "decryptedStore = tallyStore @ [(partialKey sampleRoundID 1 1 0, VPartialDecryption sampleDecryption)]"

definition sampleTally :: MsgSubmitTally where
  "sampleTally = \<lparr>mt_vote_round_id = sampleRoundID, mt_creator = [1],
     mt_entries = [\<lparr>te_proposal_id = 1, te_vote_decision = 0, te_total_value = 3, te_decryption_proof = []\<rparr>]\<rparr>"

lemma tallyStore_wf: "kv_wf tallyStore"
  by (simp add: kv_wf_def kv_ok_def tallyStore_def entry_ok_round entry_ok_tally sampleTallying_def
      sampleRound_def sampleRoundID_def) (simp add: tallyKey_def)

lemma decryptedStore_wf: "kv_wf decryptedStore"
  by (simp add: kv_wf_def kv_ok_def decryptedStore_def tallyStore_def entry_ok_round entry_ok_tally
      sampleTallying_def sampleRound_def sampleRoundID_def)
    (simp add: tallyKey_def partialKey_def entry_ok_def sampleDecryption_def)

lemma sampleSubmission_run:
  "fst (SubmitPartialDecryption sampleEnv curve7 () sampleCtx sampleSubmission tallyStore) = Inr ()"
  by code_simp

theorem submit_partial_decryption_effect_witness:
  "\<exists>s'. SubmitPartialDecryption sampleEnv curve7 () sampleCtx sampleSubmission tallyStore = (Inr (), s') \<and>
     partialOf s' sampleRoundID 1 = partialMap [sampleDecryption] \<and>
     (\<exists>e. fst (SubmitPartialDecryption sampleEnv curve7 () sampleCtx sampleSubmission s') = Inl e)"
proof -
  note run = run_of_fst[of "SubmitPartialDecryption sampleEnv curve7 () sampleCtx sampleSubmission",
      OF sampleSubmission_run]
  from submit_partial_decryption_effect[OF tallyStore_wf run refl refl] run
  show ?thesis by (auto simp: sampleSubmission_def)
qed

lemma sampleTally_run: "fst (SubmitTally sampleEnv curve7 () sampleCtx sampleTally decryptedStore) = Inr 1"
  by code_simp

lemma sampleTally_honest: "honestPartials curve7 decryptedStore sampleRoundID 1 0 F3 [F2]"
proof -
  have "partialOf decryptedStore sampleRoundID i (1, 0) =
      (if i = 1 then Some sampleDecryption else None)" for i
    using partialKey_inject[of sampleRoundID sampleRoundID i 1 0 1 1 0]
    by (auto simp: partialOf_def decryptedStore_def tallyStore_def view_def kv_get_def okOpt_def
        sampleRoundID_def) (simp_all add: partialKey_def tallyKey_def)
  moreover have "UnmarshalPoint curve7 (enc7 F6) = Inr F6" by code_simp
  moreover have "F3 * F2 = F6" by code_simp
  ultimately show ?thesis
    by (auto simp: honestPartials_def sampleDecryption_def zero_f7_def[symmetric] split: if_splits)
qed

theorem submit_tally_sound_witness:
  "\<exists>s'. SubmitTally sampleEnv curve7 () sampleCtx sampleTally decryptedStore = (Inr 1, s') \<and>
     resultOf s' sampleRoundID (1, 0) = Some 3 \<and>
     DecryptToPoint curve7 F2 \<lparr>C1 = F3, C2 = F1\<rparr> = ValuePoint curve7 3"
proof -
  note run = run_of_fst[of "SubmitTally sampleEnv curve7 () sampleCtx sampleTally", OF sampleTally_run]
  have r: "sampleRoundID = mt_vote_round_id sampleTally" by (simp add: sampleTally_def)
  from submit_tally_sound[OF curve7_ok decryptedStore_wf run r] obtain rd where
    rd: "roundOf decryptedStore sampleRoundID = Some rd"
    and res: "resultOf (snd (SubmitTally sampleEnv curve7 () sampleCtx sampleTally decryptedStore)) sampleRoundID =
      resultOf decryptedStore sampleRoundID ++ resultMap (mt_entries sampleTally)"
    and dec: "\<forall>p d v. resultMap (mt_entries sampleTally) (p, d) = Some v \<longrightarrow> v < TallyBSGSBound \<and>
      (case ctOf curve7 decryptedStore (sampleRoundID, p, d) of
         None \<Rightarrow> accOf decryptedStore sampleRoundID p d = None \<and> v = 0
       | Some ct \<Rightarrow> \<forall>cs. cs \<noteq> [] \<and> length cs \<le> unat (threshold rd) \<and>
           honestPartials curve7 decryptedStore sampleRoundID p d (C1 ct) cs \<longrightarrow>
             DecryptToPoint curve7 (hd cs) ct = ValuePoint curve7 v)" by blast
  have map: "resultMap (mt_entries sampleTally) (1, 0) = Some 3" by (simp add: resultMap_def sampleTally_def)
  have "roundOf decryptedStore sampleRoundID = Some sampleTallying"
    by (simp add: roundOf_Some_iff decryptedStore_def tallyStore_def kv_get_def)
  with rd have "unat (threshold rd) = 1" by (auto simp: sampleTallying_def sampleRound_def)
  moreover have "ctOf curve7 decryptedStore (sampleRoundID, 1, 0) = Some \<lparr>C1 = F3, C2 = F1\<rparr>" by code_simp
  ultimately have "DecryptToPoint curve7 (hd [F2]) \<lparr>C1 = F3, C2 = F1\<rparr> = ValuePoint curve7 3"
    using dec[rule_format, OF map] sampleTally_honest by auto
  then show ?thesis using run res map by (auto simp: map_add_def)
qed

end
