(* ===== verification/Msg_Coordinator.thy ===== *)
theory Msg_Coordinator
  imports Msg_Tally
begin

text \<open>
  Coordinator governance: \<^verbatim>\<open>src/x/vote/keeper/msg_server_coordinator_actions.go\<close> with the
  payloads it executes (\<^verbatim>\<open>executeUpdateVoteManagers\<close> of \<^verbatim>\<open>msg_server.go\<close>,
  \<^verbatim>\<open>msg_server_upgrade.go\<close>, \<^verbatim>\<open>msg_server_send.go\<close>) and the endorsements of
  \<^verbatim>\<open>msg_server_endorsements.go\<close>.

  A handler that mutates its action in place returns the updated action; the mutation is
  visible to no one when it returns an error. Events are not modelled, except that they
  dereference the payload, which panics when an action without one is approved.

  The lemmas show that a payload runs only with as many distinct current vote managers behind
  it as the policy's threshold, that it runs once, that expired actions never run, and that
  the policy itself always stays satisfiable.
\<close>

section \<open>Payloads\<close>

definition payloadMessageTypeName :: "string \<Rightarrow> gostring" where
  "payloadMessageTypeName msg = str (''svote.v1.'' @ msg)"

text \<open>\<^verbatim>\<open>strings.TrimPrefix\<close>, then what follows the last slash.\<close>

definition TrimPrefix :: "gostring \<Rightarrow> gostring \<Rightarrow> gostring" where
  "TrimPrefix s pre = (if take (length pre) s = pre then drop (length pre) s else s)"

definition coordinatorPayloadType :: "AnyMsg option \<Rightarrow> gostring" where
  "coordinatorPayloadType any =
     (case any of
        None \<Rightarrow> []
      | Some a \<Rightarrow>
          let typeURL = TrimPrefix (type_url a) (str ''/'') in
          if 0x2F \<in> set typeURL then rev (takeWhile (\<lambda>b. b \<noteq> 0x2F) (rev typeURL)) else typeURL)"

definition unmarshalAnyPayload :: "(bytes \<Rightarrow> 'm option) \<Rightarrow> AnyMsg option \<Rightarrow> 'm res" where
  "unmarshalAnyPayload dec any =
     (case any of
        None \<Rightarrow> Inl ErrInvalidCoordinatorAction
      | Some a \<Rightarrow> (case dec (any_value a) of None \<Rightarrow> Inl ErrInvalidCoordinatorAction | Some m \<Rightarrow> Inr m))"

definition validatePayloadCreator :: "lib \<Rightarrow> gostring \<Rightarrow> gostring \<Rightarrow> unit res" where
  "validatePayloadCreator L rawCreator proposer =
     (case canonicalAddr L rawCreator of
        None \<Rightarrow> Inl ErrInvalidCoordinatorAction
      | Some a \<Rightarrow> failIfR (a \<noteq> proposer) ErrInvalidCoordinatorAction (Inr ()))"

definition validateAuthorizedSendFields :: "lib \<Rightarrow> MsgAuthorizedSend \<Rightarrow> (bytes \<times> bytes \<times> int) res" where
  "validateAuthorizedSendFields L msg =
     bindR (AuthorizedSend_ValidateBasic L msg) (\<lambda>_.
     (case AccAddressFromBech32 L (ms_creator msg) of
        None \<Rightarrow> Inl ErrInvalidField
      | Some creatorAddr \<Rightarrow>
     (case AccAddressFromBech32 L (ms_to_address msg) of
        None \<Rightarrow> Inl ErrInvalidField
      | Some toAddr \<Rightarrow>
     (case NewIntFromString L (ms_amount msg) of
        None \<Rightarrow> Inl ErrInvalidField
      | Some amt \<Rightarrow> failIfR (\<not> amt > 0) ErrInvalidField (Inr (creatorAddr, toAddr, amt))))))"

definition validateCoordinatorPayload :: "lib \<Rightarrow> AnyMsg option \<Rightarrow> gostring \<Rightarrow> unit res" where
  "validateCoordinatorPayload L payload proposer =
     (let t = coordinatorPayloadType payload in
      if t = payloadMessageTypeName ''MsgCreateVotingSession'' then
        bindR (unmarshalAnyPayload (unmarshalCreateVotingSession L) payload) (\<lambda>msg.
        bindR (CreateVotingSession_ValidateBasic msg) (\<lambda>_.
        validatePayloadCreator L (mc_creator msg) proposer))
      else if t = payloadMessageTypeName ''MsgUpdateVoteManagers'' then
        bindR (unmarshalAnyPayload (unmarshalUpdateVoteManagers L) payload) (\<lambda>msg.
        bindR (UpdateVoteManagers_ValidateBasic L msg) (\<lambda>_.
        validatePayloadCreator L (mu_creator msg) proposer))
      else if t = payloadMessageTypeName ''MsgScheduleUpgrade'' then
        bindR (unmarshalAnyPayload (unmarshalScheduleUpgrade L) payload) (\<lambda>msg.
        bindR (ScheduleUpgrade_ValidateBasic msg) (\<lambda>_.
        validatePayloadCreator L (mup_creator msg) proposer))
      else if t = payloadMessageTypeName ''MsgCancelUpgrade'' then
        bindR (unmarshalAnyPayload (unmarshalCancelUpgrade L) payload) (\<lambda>msg.
        bindR (CancelUpgrade_ValidateBasic msg) (\<lambda>_.
        validatePayloadCreator L (mcu_creator msg) proposer))
      else if t = payloadMessageTypeName ''MsgSetEndorser'' then
        bindR (unmarshalAnyPayload (unmarshalSetEndorser L) payload) (\<lambda>msg.
        bindR (SetEndorser_ValidateBasic L msg) (\<lambda>_.
        validatePayloadCreator L (mse_creator msg) proposer))
      else if t = payloadMessageTypeName ''MsgAuthorizedSend'' then
        bindR (unmarshalAnyPayload (unmarshalAuthorizedSend L) payload) (\<lambda>msg.
        bindR (validateAuthorizedSendFields L msg) (\<lambda>_.
        validatePayloadCreator L (ms_creator msg) proposer))
      else Inl ErrUnsupportedCoordinatorAction)"

section \<open>Execution of an approved payload\<close>

definition executeUpdateVoteManagers ::
  "('x, 'h) env \<Rightarrow> MsgUpdateVoteManagers \<Rightarrow> (('x, 'h) world, unit) M" where
  "executeUpdateVoteManagers E msg =
     bindM (liftR (ValidateAndNormalizeVoteManagerPolicy (envLib E) (mu_new_vote_managers msg)
       (mu_new_threshold msg))) (\<lambda>(normalized, thr).
     let minCeremonyValidators = NormalizeMinCeremonyValidators (mu_new_min_ceremony_validators msg) in
     thenM (forM normalized (\<lambda>addr.
       (case AccAddressFromBech32 (envLib E) addr of
          None \<Rightarrow> throwM ErrOther
        | Some accAddr \<Rightarrow> ensureAccountExists E accAddr))) (
     thenM (kvM (SetVoteManagers (envLib E) \<lparr>vm_addresses = normalized, vm_threshold = thr\<rparr>)) (
     kvM (SetMinCeremonyValidators minCeremonyValidators))))"

definition executeScheduleUpgrade ::
  "('x, 'h) env \<Rightarrow> MsgScheduleUpgrade \<Rightarrow> (('x, 'h) world, unit) M" where
  "executeScheduleUpgrade E msg =
     bindM (liftR (ScheduleUpgrade_ValidateBasic msg)) (\<lambda>_.
     (case upgradeKeeper E of
        None \<Rightarrow> throwM ErrUpgradeUnavailable
      | Some uk \<Rightarrow>
          thenM
            (if \<not> mup_replace_existing msg then
               bindM (getM w_ext) (\<lambda>x.
               (case GetUpgradePlan uk x of
                  Inr (Some existing) \<Rightarrow> throwM ErrUpgradePlanExists
                | Inr None \<Rightarrow> returnM ()
                | Inl e \<Rightarrow> throwM e))
             else returnM ())
            (extM (ScheduleUpgrade uk
               \<lparr>plan_name = TrimSpace (mup_name msg), plan_height = mup_height msg,
                plan_info = mup_info msg\<rparr>))))"

definition executeCancelUpgrade ::
  "('x, 'h) env \<Rightarrow> MsgCancelUpgrade \<Rightarrow> (('x, 'h) world, unit) M" where
  "executeCancelUpgrade E msg =
     bindM (liftR (CancelUpgrade_ValidateBasic msg)) (\<lambda>_.
     (case upgradeKeeper E of
        None \<Rightarrow> throwM ErrUpgradeUnavailable
      | Some uk \<Rightarrow> extM (ClearUpgradePlan uk)))"

definition executeSetEndorser :: "('x, 'h) env \<Rightarrow> MsgSetEndorser \<Rightarrow> (('x, 'h) world, unit) M" where
  "executeSetEndorser E msg =
     bindM (liftR (SetEndorser_ValidateBasic (envLib E) msg)) (\<lambda>_.
     bindM (liftR (ValidateEndorserID (mse_endorser_id msg))) (\<lambda>_.
     if mse_address msg = [] then kvM (DeleteEndorser (mse_endorser_id msg))
     else
       (case canonicalAddr (envLib E) (mse_address msg) of
          None \<Rightarrow> throwM ErrInvalidField
        | Some normalized \<Rightarrow>
            (case AccAddressFromBech32 (envLib E) normalized of
               None \<Rightarrow> throwM ErrInvalidField
             | Some accAddr \<Rightarrow>
                 thenM (ensureAccountExists E accAddr) (
                 kvM (SetEndorser (mse_endorser_id msg) normalized))))))"

definition VoteFundingModuleName :: gostring where "VoteFundingModuleName = str ''vote_funding''"

definition executeAuthorizedSend ::
  "('x, 'h) env \<Rightarrow> MsgAuthorizedSend \<Rightarrow> (('x, 'h) world, unit) M" where
  "executeAuthorizedSend E msg =
     bindM (liftR (validateAuthorizedSendFields (envLib E) msg)) (\<lambda>(_, toAddr, amt).
     extM (sendFromModule E VoteFundingModuleName toAddr amt))"

definition executeCoordinatorPayload ::
  "('x, 'h) env \<Rightarrow> ctx \<Rightarrow> AnyMsg option \<Rightarrow> (('x, 'h) world, unit) M" where
  "executeCoordinatorPayload E c payload =
     (let t = coordinatorPayloadType payload; L = envLib E in
      if t = payloadMessageTypeName ''MsgCreateVotingSession'' then
        bindM (liftR (unmarshalAnyPayload (unmarshalCreateVotingSession L) payload)) (\<lambda>msg.
        bindM (getM w_ext) (\<lambda>x.
        bindM (kvM (executeCreateVotingSession E x c msg)) (\<lambda>_. returnM ())))
      else if t = payloadMessageTypeName ''MsgUpdateVoteManagers'' then
        bindM (liftR (unmarshalAnyPayload (unmarshalUpdateVoteManagers L) payload)) (executeUpdateVoteManagers E)
      else if t = payloadMessageTypeName ''MsgScheduleUpgrade'' then
        bindM (liftR (unmarshalAnyPayload (unmarshalScheduleUpgrade L) payload)) (executeScheduleUpgrade E)
      else if t = payloadMessageTypeName ''MsgCancelUpgrade'' then
        bindM (liftR (unmarshalAnyPayload (unmarshalCancelUpgrade L) payload)) (executeCancelUpgrade E)
      else if t = payloadMessageTypeName ''MsgSetEndorser'' then
        bindM (liftR (unmarshalAnyPayload (unmarshalSetEndorser L) payload)) (executeSetEndorser E)
      else if t = payloadMessageTypeName ''MsgAuthorizedSend'' then
        bindM (liftR (unmarshalAnyPayload (unmarshalAuthorizedSend L) payload)) (executeAuthorizedSend E)
      else throwM ErrUnsupportedCoordinatorAction)"

section \<open>Proposing and approving\<close>

definition coordinatorActionTTLSeconds :: u64 where
  "coordinatorActionTTLSeconds = 7 * 24 * 60 * 60"

definition coordinatorActionExpired :: "ctx \<Rightarrow> CoordinatorAction \<Rightarrow> bool" where
  "coordinatorActionExpired c action \<longleftrightarrow>
     action_expires_at action \<noteq> 0 \<and> unixU64 c > action_expires_at action"

definition addressInList :: "gostring \<Rightarrow> gostring list \<Rightarrow> bool" where
  "addressInList addr addrs = list_ex (\<lambda>candidate. candidate = addr) addrs"

text \<open>The loop over the stored approvals; \<open>seen\<close> holds the canonical forms met so far.\<close>

fun approvalLoop ::
  "lib \<Rightarrow> gostring list \<Rightarrow> gostring list \<Rightarrow> gostring list \<Rightarrow> gostring list \<Rightarrow> gostring list" where
  "approvalLoop L managerSet seen currentApprovals [] = currentApprovals"
| "approvalLoop L managerSet seen currentApprovals (approval # approvals) =
     (case canonicalAddr L approval of
        None \<Rightarrow> approvalLoop L managerSet seen currentApprovals approvals
      | Some canonical \<Rightarrow>
          if canonical \<in> set seen then approvalLoop L managerSet seen currentApprovals approvals
          else approvalLoop L managerSet (canonical # seen)
            (if canonical \<in> set managerSet then currentApprovals @ [canonical] else currentApprovals)
            approvals)"

definition currentCoordinatorApprovalCount ::
  "lib \<Rightarrow> gostring list \<Rightarrow> (vkv, u32 \<times> u32 \<times> gostring list) M" where
  "currentCoordinatorApprovalCount L approvals =
     bindM GetVoteManagers (\<lambda>st. case st of
        None \<Rightarrow> throwM ErrNoVoteManagers
      | Some vm \<Rightarrow>
          failIf (length (vm_addresses vm) = 0) ErrNoVoteManagers (
          let currentApprovals = approvalLoop L (vm_addresses vm) [] [] approvals in
          returnM (word_of_nat (length currentApprovals), vm_threshold vm, currentApprovals)))"

definition maybeExecuteCoordinatorAction ::
  "('x, 'h) env \<Rightarrow> ctx \<Rightarrow> CoordinatorAction \<Rightarrow> (('x, 'h) world, bool \<times> CoordinatorAction) M" where
  "maybeExecuteCoordinatorAction E c action =
     failIf (coordinatorActionExpired c action) ErrCoordinatorActionExpired (
     bindM (kvM (currentCoordinatorApprovalCount (envLib E) (action_approvals action)))
       (\<lambda>(count, thr, currentApprovals).
     if count < thr then returnM (False, action)
     else
       thenM (executeCoordinatorPayload E c (action_payload action)) (
       returnM (True, action\<lparr>action_status := COORDINATOR_ACTION_STATUS_EXECUTED,
         action_executed_at := unixU64 c\<rparr>))))"

definition emitActionEvent :: "CoordinatorAction \<Rightarrow> (('x, 'h) world, unit) M" where
  "emitActionEvent action = failIf (action_payload action = None) GoPanic (returnM ())"

definition ProposeCoordinatorAction ::
  "('x, 'h) env \<Rightarrow> ctx \<Rightarrow> MsgProposeCoordinatorAction \<Rightarrow> (('x, 'h) world, u64 \<times> bool) M" where
  "ProposeCoordinatorAction E c msg =
     bindM (liftR (ProposeCoordinatorAction_ValidateBasic (envLib E) msg)) (\<lambda>_.
     bindM (kvM (ValidateVoteManagerApprover (envLib E) (mpa_creator msg))) (\<lambda>proposer.
     bindM (liftR (validateCoordinatorPayload (envLib E) (mpa_payload msg) proposer)) (\<lambda>_.
     bindM (kvM AllocateCoordinatorActionID) (\<lambda>actionID.
     let createdAt = unixU64 c;
         action = \<lparr>action_id = actionID, action_payload = mpa_payload msg, action_proposer = proposer,
           action_approvals = [proposer], action_status = COORDINATOR_ACTION_STATUS_PENDING,
           action_created_at = createdAt, action_expires_at = createdAt + coordinatorActionTTLSeconds,
           action_executed_at = 0\<rparr> in
     bindM (maybeExecuteCoordinatorAction E c action) (\<lambda>(executed, action').
     thenM (kvM (SetCoordinatorAction action')) (
     thenM (emitActionEvent action') (
     returnM (actionID, executed))))))))"

definition ApproveCoordinatorAction ::
  "('x, 'h) env \<Rightarrow> ctx \<Rightarrow> MsgApproveCoordinatorAction \<Rightarrow> (('x, 'h) world, u64 \<times> bool) M" where
  "ApproveCoordinatorAction E c msg =
     bindM (liftR (ApproveCoordinatorAction_ValidateBasic (envLib E) msg)) (\<lambda>_.
     bindM (kvM (ValidateVoteManagerApprover (envLib E) (maa_creator msg))) (\<lambda>approver.
     bindM (kvM (GetCoordinatorAction (maa_action_id msg))) (\<lambda>action.
     failIf (action_status action \<noteq> COORDINATOR_ACTION_STATUS_PENDING) ErrInvalidCoordinatorAction (
     if coordinatorActionExpired c action then
       thenM (kvM (SetCoordinatorAction
         (action\<lparr>action_status := COORDINATOR_ACTION_STATUS_EXPIRED\<rparr>))) (
       throwM ErrCoordinatorActionExpired)
     else if addressInList approver (action_approvals action) then
       bindM (maybeExecuteCoordinatorAction E c action) (\<lambda>(executed, action').
       if executed then
         thenM (kvM (SetCoordinatorAction action')) (
         thenM (emitActionEvent action') (
         returnM (maa_action_id msg, True)))
       else throwM ErrCoordinatorAlreadyApproved)
     else
       bindM (maybeExecuteCoordinatorAction E c
         (action\<lparr>action_approvals := action_approvals action @ [approver]\<rparr>)) (\<lambda>(executed, action').
       thenM (kvM (SetCoordinatorAction action')) (
       thenM (emitActionEvent action') (
       returnM (maa_action_id msg, executed))))))))"

section \<open>Endorsements\<close>

definition EndorseRound :: "('x, 'h) env \<Rightarrow> MsgEndorseRound \<Rightarrow> (vkv, unit) M" where
  "EndorseRound E msg =
     bindM (liftR (ValidateEndorserID (mer_endorser_id msg))) (\<lambda>_.
     bindM (GetEndorser (mer_endorser_id msg)) (\<lambda>found.
     (case found of
        None \<Rightarrow> throwM ErrEndorserNotFound
      | Some authorizedAddress \<Rightarrow>
          (case canonicalAddr (envLib E) (mer_creator msg) of
             None \<Rightarrow> throwM ErrNotAuthorized
           | Some creatorAddr \<Rightarrow>
               failIf (creatorAddr \<noteq> authorizedAddress) ErrNotAuthorized (
               bindM (GetVoteRound (mer_vote_round_id msg)) (\<lambda>_.
               AddEndorsedRound (mer_endorser_id msg) (mer_vote_round_id msg)))))))"

definition ClearRoundEndorsement :: "('x, 'h) env \<Rightarrow> MsgClearRoundEndorsement \<Rightarrow> (vkv, unit) M" where
  "ClearRoundEndorsement E msg =
     bindM (liftR (ValidateEndorserID (mcl_endorser_id msg))) (\<lambda>_.
     bindM (GetEndorser (mcl_endorser_id msg)) (\<lambda>found.
     (case found of
        None \<Rightarrow> throwM ErrEndorserNotFound
      | Some authorizedAddress \<Rightarrow>
          (case canonicalAddr (envLib E) (mcl_creator msg) of
             None \<Rightarrow> throwM ErrNotAuthorized
           | Some creatorAddr \<Rightarrow>
               failIf (creatorAddr \<noteq> authorizedAddress) ErrNotAuthorized (
               bindM (GetVoteRound (mcl_vote_round_id msg)) (\<lambda>_.
               DeleteEndorsedRound (mcl_endorser_id msg) (mcl_vote_round_id msg)))))))"

section \<open>What a payload may do to the store\<close>

inductive payloadStep :: "('x, 'h) env \<Rightarrow> ctx \<Rightarrow> 'x \<Rightarrow> vkv \<Rightarrow> vkv \<Rightarrow> bool"
  for E :: "('x, 'h) env" and c :: ctx and x :: 'x where
  other_module: "payloadStep E c x s s"
| new_session: "executeCreateVotingSession E x c msg s = (Inr r, s') \<Longrightarrow> payloadStep E c x s s'"
| new_policy: "ValidateAndNormalizeVoteManagerPolicy (envLib E) addrs t0 = Inr (managers, t) \<Longrightarrow>
    payloadStep E c x s (kv_set MinCeremonyValidatorsKey (VBytes m)
      (kv_set VoteManagerSetKey (VVoteManagerSet \<lparr>vm_addresses = managers, vm_threshold = t\<rparr>) s))"
| new_endorser: "payloadStep E c x s (kv_set (0x16 # i) (VBytes a) s)"
| no_endorser: "payloadStep E c x s (kv_delete (0x16 # i) s)"

lemma ensureAccountExists_Inr: "ensureAccountExists E a w = (r, w') \<Longrightarrow> w_kv w' = w_kv w"
  using ensureAccountExists_kv[of E a w] by simp

lemma forM_accounts_kv:
  assumes "forM addrs (\<lambda>addr. case AccAddressFromBech32 L addr of None \<Rightarrow> throwM ErrOther
      | Some accAddr \<Rightarrow> ensureAccountExists E accAddr) w = (r, w')"
  shows "w_kv w' = w_kv w"
  by (rule forM_invariant[OF assms, of "\<lambda>v. w_kv v = w_kv w"])
    (auto simp: throwM_def dest: ensureAccountExists_Inr split: option.splits)

lemma executeUpdateVoteManagers_step:
  assumes "executeUpdateVoteManagers E msg w = (Inr u, w')"
  shows "payloadStep E c x (w_kv w) (w_kv w')"
proof -
  from assms obtain n t w1 where *: "forM n (\<lambda>addr. case AccAddressFromBech32 (envLib E) addr of
      None \<Rightarrow> throwM ErrOther | Some accAddr \<Rightarrow> ensureAccountExists E accAddr) w = (Inr (), w1)"
    and set: "thenM (kvM (SetVoteManagers (envLib E) \<lparr>vm_addresses = n, vm_threshold = t\<rparr>))
      (kvM (SetMinCeremonyValidators (NormalizeMinCeremonyValidators (mu_new_min_ceremony_validators msg)))) w1 =
        (Inr u, w')"
    unfolding executeUpdateVoteManagers_def Let_def
    by (clarsimp simp: succ_iffs simp del: split_paired_Ex) (auto simp: succ_iffs)
  show ?thesis
    using set forM_accounts_kv[OF *]
    by (auto simp: succ_iffs kvM_Inr_iff SetVoteManagers_def SetMinCeremonyValidators_def kvSet_def
        intro: new_policy)
qed

lemma executeCoordinatorPayload_step:
  assumes "executeCoordinatorPayload E c payload w = (Inr u, w')"
  shows "payloadStep E c (w_ext w) (w_kv w) (w_kv w')"
proof -
  have up: "executeScheduleUpgrade E msg w = (Inr v, w') \<Longrightarrow> payloadStep E c (w_ext w) (w_kv w) (w_kv w')" for msg v
    by (auto simp: executeScheduleUpgrade_def succ_iffs extM_Inr_iff intro: other_module
        split: option.splits if_splits sum.splits)
  have cancel: "executeCancelUpgrade E msg w = (Inr v, w') \<Longrightarrow> payloadStep E c (w_ext w) (w_kv w) (w_kv w')" for msg v
    by (auto simp: executeCancelUpgrade_def succ_iffs extM_Inr_iff intro: other_module split: option.splits)
  have send: "executeAuthorizedSend E msg w = (Inr v, w') \<Longrightarrow> payloadStep E c (w_ext w) (w_kv w) (w_kv w')" for msg v
    by (auto simp: executeAuthorizedSend_def succ_iffs extM_Inr_iff intro: other_module split: prod.splits)
  have endorser: "executeSetEndorser E msg w = (Inr v, w') \<Longrightarrow> payloadStep E c (w_ext w) (w_kv w) (w_kv w')" for msg v
    by (auto simp: executeSetEndorser_def succ_iffs kvM_Inr_iff SetEndorser_def DeleteEndorser_def
        key_simps bindR_Inr_iff kvSet_def kvDelete_def dest!: ensureAccountExists_Inr
        intro: new_endorser no_endorser split: if_splits option.splits)
  have create: "executeCreateVotingSession E (w_ext w) c msg (w_kv w) = (Inr r, s') \<Longrightarrow>
      payloadStep E c (w_ext w) (w_kv w) s'" for msg r s' by (rule new_session)
  show ?thesis
    using assms unfolding executeCoordinatorPayload_def Let_def
    by (auto simp: succ_iffs kvM_Inr_iff split: if_splits
        intro: create executeUpdateVoteManagers_step endorser up cancel send)
qed

lemma payloadStep_frame:
  assumes "payloadStep E c x s s'" and "kv_wf s"
  shows "kv_wf s' \<and> (\<forall>k. hd k \<notin> {0x04, 0x0A, 0x13, 0x16} \<longrightarrow> kv_get s' k = kv_get s k)"
  using assms(1)
proof cases
  case (new_session msg r)
  from executeCreateVotingSession_Inr[OF assms(2) new_session] obtain rd where
    "length r = 32" "s' = kv_set (0x04 # r) (VVoteRound rd) s" "vote_round_id rd = r"
    by (auto simp: newRound_def)
  then show ?thesis using assms(2) by (auto simp: kv_wf_set entry_ok_round get_simps)
qed (use assms(2) in \<open>auto simp: kv_wf_set kv_wf_delete entry_ok_def key_simps get_simps\<close>)

section \<open>Counting approvals\<close>

text \<open>The current vote managers one of the given approvals stands for.\<close>

definition backing :: "lib \<Rightarrow> VoteManagerSet \<Rightarrow> gostring list \<Rightarrow> gostring set" where
  "backing L m as = {b \<in> set (vm_addresses m). \<exists>a \<in> set as. canonicalAddr L a = Some b}"

lemma approvalLoop_spec:
  "distinct acc \<Longrightarrow> set acc \<subseteq> set seen \<Longrightarrow>
     distinct (approvalLoop L ms seen acc as) \<and>
     set (approvalLoop L ms seen acc as) =
       set acc \<union> {b \<in> set ms - set seen. \<exists>a \<in> set as. canonicalAddr L a = Some b}"
proof (induction as arbitrary: seen acc)
  case Nil
  then show ?case by simp
next
  case (Cons a as)
  show ?case
  proof (cases "canonicalAddr L a")
    case None
    then show ?thesis using Cons.IH[OF Cons.prems] by auto
  next
    case (Some b)
    show ?thesis
    proof (cases "b \<in> set seen")
      case True
      then show ?thesis using Some Cons.IH[OF Cons.prems] by auto
    next
      case False
      let ?acc = "if b \<in> set ms then acc @ [b] else acc"
      have "distinct ?acc" "set ?acc \<subseteq> set (b # seen)" using Cons.prems False by auto
      from Cons.IH[OF this] Some False show ?thesis by auto
    qed
  qed
qed

lemma approvalLoop_card: "length (approvalLoop L (vm_addresses m) [] [] as) = card (backing L m as)"
proof -
  have "distinct (approvalLoop L (vm_addresses m) [] [] as) \<and>
      set (approvalLoop L (vm_addresses m) [] [] as) = backing L m as"
    using approvalLoop_spec[of "[]" "[]" L "vm_addresses m" as] by (auto simp: backing_def)
  then show ?thesis by (metis distinct_card)
qed

abbreviation policyThreshold :: "VoteManagerSet \<Rightarrow> u32" where
  "policyThreshold m \<equiv> NormalizeVoteManagerThreshold (vm_threshold m)"

lemma currentCoordinatorApprovalCount_Inr:
  assumes "currentCoordinatorApprovalCount L as s = (Inr (n, t, cs), s')"
  shows "s' = s \<and> (\<exists>m. managersOf s = Some m \<and> t = policyThreshold m \<and> n = word_of_nat (card (backing L m as)))"
proof -
  from assms obtain st s1 where g: "GetVoteManagers s = (Inr st, s1)"
    and r: "(case st of
        None \<Rightarrow> throwM ErrNoVoteManagers
      | Some vm \<Rightarrow>
          failIf (length (vm_addresses vm) = 0) ErrNoVoteManagers (
          let currentApprovals = approvalLoop L (vm_addresses vm) [] [] as in
          returnM (word_of_nat (length currentApprovals), vm_threshold vm, currentApprovals))) s1 =
        (Inr (n, t, cs), s')"
    by (auto simp: currentCoordinatorApprovalCount_def bindM_Inr_iff)
  show ?thesis
  proof (cases st)
    case None
    then show ?thesis using r by (simp add: throwM_def)
  next
    case (Some vm)
    with g obtain m where m: "s1 = s" "managersOf s = Some m" "vm = m\<lparr>vm_threshold := policyThreshold m\<rparr>"
      by (auto simp: GetVoteManagers_Some_iff)
    have "backing L vm as = backing L m as" using m(3) by (simp add: backing_def)
    then show ?thesis using r m Some by (auto simp: succ_iffs Let_def approvalLoop_card)
  qed
qed

definition executedAt :: "ctx \<Rightarrow> CoordinatorAction \<Rightarrow> CoordinatorAction" where
  "executedAt c a = a\<lparr>action_status := COORDINATOR_ACTION_STATUS_EXECUTED, action_executed_at := unixU64 c\<rparr>"

definition storeAction :: "CoordinatorAction \<Rightarrow> ('x, 'h) world \<Rightarrow> ('x, 'h) world" where
  "storeAction a w = w\<lparr>w_kv := kv_set (CoordinatorActionKey (action_id a)) (VCoordinatorAction a) (w_kv w)\<rparr>"

text \<open>
  Carrying out a decision on an action with the approvals it now has: run and mark it when
  the threshold is met, otherwise only record it.
\<close>

definition decided ::
  "('x, 'h) env \<Rightarrow> ctx \<Rightarrow> CoordinatorAction \<Rightarrow> ('x, 'h) world \<Rightarrow> bool \<Rightarrow> ('x, 'h) world \<Rightarrow> bool" where
  "decided E c a w executed w' \<longleftrightarrow> \<not> coordinatorActionExpired c a \<and> (\<exists>m.
     managersOf (w_kv w) = Some m \<and>
     (if executed
      then unat (policyThreshold m) \<le> card (backing (envLib E) m (action_approvals a)) \<and>
        (\<exists>w1. executeCoordinatorPayload E c (action_payload a) w = (Inr (), w1) \<and>
          w' = storeAction (executedAt c a) w1)
      else word_of_nat (card (backing (envLib E) m (action_approvals a))) < policyThreshold m \<and>
        w' = storeAction a w))"

lemma unat_word_of_nat_le: "unat (word_of_nat n :: 'a::len word) \<le> n"
  by (simp add: unat_of_nat)

lemma maybeExecute_decided:
  assumes "maybeExecuteCoordinatorAction E c a w = (Inr (executed, a'), w1)"
    and "kvM (SetCoordinatorAction a') w1 = (Inr u, w')"
  shows "decided E c a w executed w' \<and> action_id a' = action_id a \<and> action_payload a' = action_payload a"
proof -
  from assms(1) obtain n t cs s1 where h: "\<not> coordinatorActionExpired c a"
    "currentCoordinatorApprovalCount (envLib E) (action_approvals a) (w_kv w) = (Inr (n, t, cs), s1)"
    "(if n < t then returnM (False, a)
      else thenM (executeCoordinatorPayload E c (action_payload a)) (returnM (True, executedAt c a)))
      (w\<lparr>w_kv := s1\<rparr>) = (Inr (executed, a'), w1)"
    unfolding maybeExecuteCoordinatorAction_def executedAt_def
    by (auto simp: failIf_Inr_iff bindM_Inr_iff kvM_Inr_iff)
  from currentCoordinatorApprovalCount_Inr[OF h(2)] obtain m where m: "s1 = w_kv w"
    "managersOf (w_kv w) = Some m" "t = policyThreshold m"
    "n = word_of_nat (card (backing (envLib E) m (action_approvals a)))" by blast
  have set: "w' = storeAction a' w1"
    using assms(2) by (auto simp: kvM_Inr_iff SetCoordinatorAction_Inr_iff storeAction_def)
  show ?thesis
  proof (cases "n < t")
    case True
    then show ?thesis using h(1,3) m set by (auto simp: decided_def returnM_def)
  next
    case False
    then have "unat t \<le> unat n" by (simp add: word_le_nat_alt not_less)
    also have "\<dots> \<le> card (backing (envLib E) m (action_approvals a))"
      unfolding m(4) by (rule unat_word_of_nat_le)
    finally show ?thesis using False h(1,3) m set
      by (auto simp: decided_def succ_iffs executedAt_def)
  qed
qed

lemma ApproveCoordinatorAction_Inr:
  assumes "ApproveCoordinatorAction E c msg w = (Inr (n, executed), w')"
  shows "n = maa_action_id msg \<and> (\<exists>a b m. actionOf (w_kv w) n = Some a \<and>
    action_status a = COORDINATOR_ACTION_STATUS_PENDING \<and> \<not> coordinatorActionExpired c a \<and>
    canonicalAddr (envLib E) (maa_creator msg) = Some b \<and>
    managersOf (w_kv w) = Some m \<and> b \<in> set (vm_addresses m) \<and>
    (if b \<in> set (action_approvals a) then executed \<and> decided E c a w True w'
     else decided E c (a\<lparr>action_approvals := action_approvals a @ [b]\<rparr>) w executed w'))"
proof -
  from assms obtain b a where h: "canonicalAddr (envLib E) (maa_creator msg) = Some b"
    "\<exists>m. managersOf (w_kv w) = Some m \<and> b \<in> set (vm_addresses m)"
    "actionOf (w_kv w) (maa_action_id msg) = Some a"
    "action_status a = COORDINATOR_ACTION_STATUS_PENDING"
    and r: "(if coordinatorActionExpired c a then
       thenM (kvM (SetCoordinatorAction (a\<lparr>action_status := COORDINATOR_ACTION_STATUS_EXPIRED\<rparr>))) (
       throwM ErrCoordinatorActionExpired)
     else if addressInList b (action_approvals a) then
       bindM (maybeExecuteCoordinatorAction E c a) (\<lambda>(executed, action').
       if executed then
         thenM (kvM (SetCoordinatorAction action')) (
         thenM (emitActionEvent action') (
         returnM (maa_action_id msg, True)))
       else throwM ErrCoordinatorAlreadyApproved)
     else
       bindM (maybeExecuteCoordinatorAction E c
         (a\<lparr>action_approvals := action_approvals a @ [b]\<rparr>)) (\<lambda>(executed, action').
       thenM (kvM (SetCoordinatorAction action')) (
       thenM (emitActionEvent action') (
       returnM (maa_action_id msg, executed))))) w = (Inr (n, executed), w')"
    unfolding ApproveCoordinatorAction_def
    by (clarsimp simp: bindM_Inr_iff failIf_Inr_iff liftR_Inr_iff kvM_Inr_iff
        ValidateVoteManagerApprover_Inr_iff GetCoordinatorAction_Inr_iff)
  have inlist: "addressInList b as \<longleftrightarrow> b \<in> set as" for as
    by (auto simp: addressInList_def list_ex_iff)
  have ev: "emitActionEvent a' w1 = (Inr u, w2) \<Longrightarrow> w2 = w1" for a' w1 u w2
    by (simp add: emitActionEvent_def succ_iffs)
  consider (expired) "coordinatorActionExpired c a" | (again) "\<not> coordinatorActionExpired c a" "b \<in> set (action_approvals a)"
    | (new) "\<not> coordinatorActionExpired c a" "b \<notin> set (action_approvals a)" by blast
  then show ?thesis
  proof cases
    case expired
    then show ?thesis using r by (simp add: succ_iffs)
  next
    case again
    with r obtain ex a' w1 w2 where "maybeExecuteCoordinatorAction E c a w = (Inr (ex, a'), w1)"
      "ex" "kvM (SetCoordinatorAction a') w1 = (Inr (), w2)" "emitActionEvent a' w2 = (Inr (), w')"
      "n = maa_action_id msg" "executed"
      by (auto simp: inlist bindM_Inr_iff thenM_Inr_iff throwM_Inr_iff returnM_Inr_iff split: if_splits)
    with maybeExecute_decided ev have "decided E c a w True w'" by metis
    then show ?thesis using h again \<open>n = maa_action_id msg\<close> \<open>executed\<close> by auto
  next
    case new
    with r obtain a' w1 w2 where
      "maybeExecuteCoordinatorAction E c (a\<lparr>action_approvals := action_approvals a @ [b]\<rparr>) w =
        (Inr (executed, a'), w1)"
      "kvM (SetCoordinatorAction a') w1 = (Inr (), w2)" "emitActionEvent a' w2 = (Inr (), w')"
      "n = maa_action_id msg"
      by (auto simp: inlist bindM_Inr_iff thenM_Inr_iff returnM_Inr_iff)
    with maybeExecute_decided ev
    have "decided E c (a\<lparr>action_approvals := action_approvals a @ [b]\<rparr>) w executed w'" by metis
    then show ?thesis using h new \<open>n = maa_action_id msg\<close> by auto
  qed
qed

definition newAction :: "ctx \<Rightarrow> u64 \<Rightarrow> AnyMsg option \<Rightarrow> gostring \<Rightarrow> CoordinatorAction" where
  "newAction c n payload b = \<lparr>action_id = n, action_payload = payload, action_proposer = b,
     action_approvals = [b], action_status = COORDINATOR_ACTION_STATUS_PENDING,
     action_created_at = unixU64 c, action_expires_at = unixU64 c + coordinatorActionTTLSeconds,
     action_executed_at = 0\<rparr>"

lemma ProposeCoordinatorAction_Inr:
  assumes "ProposeCoordinatorAction E c msg w = (Inr (n, executed), w')"
  shows "\<exists>b m w1. canonicalAddr (envLib E) (mpa_creator msg) = Some b \<and>
    managersOf (w_kv w) = Some m \<and> b \<in> set (vm_addresses m) \<and>
    validateCoordinatorPayload (envLib E) (mpa_payload msg) b = Inr () \<and>
    w1 = w\<lparr>w_kv := kv_set NextCoordinatorActionIDKey (VBytes (putUint64BE (n + 1))) (w_kv w)\<rparr> \<and>
    decided E c (newAction c n (mpa_payload msg) b) w1 executed w'"
proof -
  from assms obtain b s1 a' w2 w3 where h: "canonicalAddr (envLib E) (mpa_creator msg) = Some b"
    "\<exists>m. managersOf (w_kv w) = Some m \<and> b \<in> set (vm_addresses m)"
    "validateCoordinatorPayload (envLib E) (mpa_payload msg) b = Inr ()"
    "AllocateCoordinatorActionID (w_kv w) = (Inr n, s1)"
    "maybeExecuteCoordinatorAction E c (newAction c n (mpa_payload msg) b) (w\<lparr>w_kv := s1\<rparr>) =
      (Inr (executed, a'), w2)"
    "kvM (SetCoordinatorAction a') w2 = (Inr (), w3)" "emitActionEvent a' w3 = (Inr (), w')"
    unfolding ProposeCoordinatorAction_def Let_def newAction_def
    by (auto simp: bindM_Inr_iff thenM_Inr_iff liftR_Inr_iff returnM_Inr_iff kvM_Inr_iff
        ValidateVoteManagerApprover_Inr_iff split: prod.splits)
  have "w3 = w'" using h(7) by (simp add: emitActionEvent_def succ_iffs)
  moreover have "s1 = kv_set NextCoordinatorActionIDKey (VBytes (putUint64BE (n + 1))) (w_kv w)"
    using AllocateCoordinatorActionID_Inr[OF h(4)] by simp
  ultimately show ?thesis using h maybeExecute_decided[OF h(5,6)] by blast
qed

section \<open>Properties\<close>

lemma actionOf_cong: "(\<And>k. hd k = 0x18 \<Longrightarrow> kv_get s' k = kv_get s k) \<Longrightarrow> actionOf s' = actionOf s"
  by (rule ext) (simp add: actionOf_def view_def key_simps)

lemma actionOf_id:
  assumes "kv_wf s" and "actionOf s n = Some a"
  shows "action_id a = n"
proof -
  have "kv_get s (CoordinatorActionKey n) = Some (VCoordinatorAction a)"
    using assms(2) by (simp add: actionOf_def view_Some_iff)
  from kv_wf_get[OF assms(1) this] have "CoordinatorActionKey n = CoordinatorActionKey (action_id a)"
    by (simp add: entry_ok_def key_simps)
  then show ?thesis by (simp add: key_simps)
qed

lemma payload_frame:
  assumes "kv_wf (w_kv w)" and "executeCoordinatorPayload E c p w = (Inr u, w')"
  shows "kv_wf (w_kv w')" and "actionOf (w_kv w') = actionOf (w_kv w)"
    and "hd k \<notin> {0x04, 0x0A, 0x13, 0x16} \<Longrightarrow> kv_get (w_kv w') k = kv_get (w_kv w) k"
  using payloadStep_frame[OF executeCoordinatorPayload_step[OF assms(2)] assms(1)]
  by (auto intro: actionOf_cong)

lemma storeAction_views:
  "actionOf (w_kv (storeAction a w)) = (actionOf (w_kv w))(action_id a \<mapsto> a)"
  "w_ext (storeAction a w) = w_ext w"
  "k \<noteq> CoordinatorActionKey (action_id a) \<Longrightarrow> kv_get (w_kv (storeAction a w)) k = kv_get (w_kv w) k"
  "kv_wf (w_kv w) \<Longrightarrow> kv_wf (w_kv (storeAction a w))"
  by (auto simp: storeAction_def actionOf_set_action get_simps kv_wf_set entry_ok_action)

lemma decided_executed:
  assumes "kv_wf (w_kv w)" and "decided E c a w True w'"
  shows "\<exists>m w1. managersOf (w_kv w) = Some m \<and>
    unat (policyThreshold m) \<le> card (backing (envLib E) m (action_approvals a)) \<and>
    executeCoordinatorPayload E c (action_payload a) w = (Inr (), w1) \<and>
    w' = storeAction (executedAt c a) w1 \<and>
    actionOf (w_kv w') = (actionOf (w_kv w))(action_id a \<mapsto> executedAt c a) \<and> kv_wf (w_kv w')"
proof -
  from assms(2) obtain m w1 where h: "managersOf (w_kv w) = Some m"
    "unat (policyThreshold m) \<le> card (backing (envLib E) m (action_approvals a))"
    "executeCoordinatorPayload E c (action_payload a) w = (Inr (), w1)"
    "w' = storeAction (executedAt c a) w1" by (auto simp: decided_def)
  note f = payload_frame[OF assms(1) h(3)]
  have "actionOf (w_kv w') = (actionOf (w_kv w))(action_id a \<mapsto> executedAt c a)"
    using f(2) by (simp add: h(4) storeAction_views executedAt_def)
  moreover have "kv_wf (w_kv w')" using f(1) by (simp add: h(4) storeAction_views)
  ultimately show ?thesis using h by blast
qed

lemma Approve_not_pending:
  assumes "actionOf (w_kv w) n = Some a" and "action_status a \<noteq> COORDINATOR_ACTION_STATUS_PENDING"
    and "maa_action_id msg = n"
  shows "\<exists>e. fst (ApproveCoordinatorAction E c msg w) = Inl e"
proof (rule ccontr)
  assume "\<not> ?thesis"
  then obtain v where "fst (ApproveCoordinatorAction E c msg w) = Inr v" by (metis old.sum.exhaust)
  then obtain m ex w' where "ApproveCoordinatorAction E c msg w = (Inr (m, ex), w')"
    by (metis prod.collapse)
  from ApproveCoordinatorAction_Inr[OF this] assms show False by auto
qed

lemma Propose_at_once:
  assumes "ProposeCoordinatorAction E c pmsg v = (Inr (k, True), v')"
  shows "\<exists>m. managersOf (w_kv v) = Some m \<and> policyThreshold m = 1"
proof -
  from ProposeCoordinatorAction_Inr[OF assms] obtain b m where
    h: "managersOf (w_kv v) = Some m"
    "decided E c (newAction c k (mpa_payload pmsg) b)
      (v\<lparr>w_kv := kv_set NextCoordinatorActionIDKey (VBytes (putUint64BE (k + 1))) (w_kv v)\<rparr>) True v'" by blast
  then have "unat (policyThreshold m) \<le> card (backing (envLib E) m [b])"
    by (auto simp: decided_def newAction_def managersOf_def view_set key_simps)
  also have "\<dots> \<le> card (set_option (canonicalAddr (envLib E) b))"
  proof (rule card_mono)
    show "finite (set_option (canonicalAddr (envLib E) b))" by (cases "canonicalAddr (envLib E) b") simp_all
  qed (auto simp: backing_def)
  also have "\<dots> \<le> 1" by (cases "canonicalAddr (envLib E) b") simp_all
  finally have "policyThreshold m \<le> 1" by (simp add: word_le_nat_alt)
  moreover have "policyThreshold m \<noteq> 0" by (simp add: NormalizeVoteManagerThreshold_def)
  ultimately have "policyThreshold m = 1" by (metis word_gt_0 order.not_eq_order_implies_strict word_less_1)
  with h(1) show ?thesis by blast
qed

text \<open>
  C35. Coordinator actions need a quorum. An accepted approval comes from a current vote
  manager and concerns a pending, unexpired action. It executes the payload only if, with this
  approval, at least as many distinct current managers stand behind the action as the policy
  in force before the execution demands; the action is then marked executed, other actions do
  not change, and no further approval of it is accepted. Without execution the quorum was not
  met and nothing but the list of approvals of this action changes, by the approver, who was
  not on it. A proposal executes at once only under a policy with threshold 1.
\<close>

theorem coordinator_quorum:
  assumes "kv_wf (w_kv w)" and "ApproveCoordinatorAction E c msg w = (Inr (n, executed), w')"
  shows "(\<exists>a b m as. actionOf (w_kv w) n = Some a \<and> action_status a = COORDINATOR_ACTION_STATUS_PENDING \<and>
      \<not> coordinatorActionExpired c a \<and> canonicalAddr (envLib E) (maa_creator msg) = Some b \<and>
      managersOf (w_kv w) = Some m \<and> b \<in> set (vm_addresses m) \<and>
      as = (if b \<in> set (action_approvals a) then action_approvals a else action_approvals a @ [b]) \<and>
      (executed \<longrightarrow> unat (policyThreshold m) \<le> card (backing (envLib E) m as) \<and>
        (\<exists>w1. executeCoordinatorPayload E c (action_payload a) w = (Inr (), w1) \<and> w_ext w' = w_ext w1 \<and>
          (\<forall>key. key \<noteq> CoordinatorActionKey n \<longrightarrow> kv_get (w_kv w') key = kv_get (w_kv w1) key)) \<and>
        actionOf (w_kv w') = (actionOf (w_kv w))(n \<mapsto> executedAt c (a\<lparr>action_approvals := as\<rparr>)) \<and>
        (\<forall>c' msg'. maa_action_id msg' = n \<longrightarrow>
          (\<exists>e. fst (ApproveCoordinatorAction E c' msg' w') = Inl e))) \<and>
      (\<not> executed \<longrightarrow> b \<notin> set (action_approvals a) \<and>
        word_of_nat (card (backing (envLib E) m as)) < policyThreshold m \<and>
        w' = storeAction (a\<lparr>action_approvals := as\<rparr>) w)) \<and>
    (\<forall>pmsg v k v'. ProposeCoordinatorAction E c pmsg v = (Inr (k, True), v') \<longrightarrow>
      (\<exists>m. managersOf (w_kv v) = Some m \<and> policyThreshold m = 1))"
proof (intro conjI allI impI)
  from ApproveCoordinatorAction_Inr[OF assms(2)] obtain a b m where
    h: "actionOf (w_kv w) n = Some a" "action_status a = COORDINATOR_ACTION_STATUS_PENDING"
    "\<not> coordinatorActionExpired c a" "canonicalAddr (envLib E) (maa_creator msg) = Some b"
    "managersOf (w_kv w) = Some m" "b \<in> set (vm_addresses m)"
    "if b \<in> set (action_approvals a) then executed \<and> decided E c a w True w'
     else decided E c (a\<lparr>action_approvals := action_approvals a @ [b]\<rparr>) w executed w'" by blast
  define as where "as = (if b \<in> set (action_approvals a) then action_approvals a else action_approvals a @ [b])"
  have dec: "decided E c (a\<lparr>action_approvals := as\<rparr>) w executed w'"
    and new: "\<not> executed \<longrightarrow> b \<notin> set (action_approvals a)"
    using h(7) by (auto simp: as_def split: if_splits)
  have id: "action_id a = n" by (rule actionOf_id[OF assms(1) h(1)])
  have yes: "unat (policyThreshold m) \<le> card (backing (envLib E) m as) \<and>
        (\<exists>w1. executeCoordinatorPayload E c (action_payload a) w = (Inr (), w1) \<and> w_ext w' = w_ext w1 \<and>
          (\<forall>key. key \<noteq> CoordinatorActionKey n \<longrightarrow> kv_get (w_kv w') key = kv_get (w_kv w1) key)) \<and>
        actionOf (w_kv w') = (actionOf (w_kv w))(n \<mapsto> executedAt c (a\<lparr>action_approvals := as\<rparr>)) \<and>
        (\<forall>c' msg'. maa_action_id msg' = n \<longrightarrow>
          (\<exists>e. fst (ApproveCoordinatorAction E c' msg' w') = Inl e))" if ex: executed
  proof -
    from dec ex have "decided E c (a\<lparr>action_approvals := as\<rparr>) w True w'" by simp
    from decided_executed[OF assms(1) this, simplified, unfolded id] obtain m' w1 where d: "managersOf (w_kv w) = Some m'"
      "unat (policyThreshold m') \<le> card (backing (envLib E) m' as)"
      "executeCoordinatorPayload E c (action_payload a) w = (Inr (), w1)"
      "w' = storeAction (executedAt c (a\<lparr>action_approvals := as\<rparr>)) w1"
      "actionOf (w_kv w') = (actionOf (w_kv w))(n \<mapsto> executedAt c (a\<lparr>action_approvals := as\<rparr>))" by blast
    have "action_id (executedAt c (a\<lparr>action_approvals := as\<rparr>)) = n" by (simp add: executedAt_def id)
    moreover have "\<exists>e. fst (ApproveCoordinatorAction E c' msg' w') = Inl e" if "maa_action_id msg' = n" for c' msg'
      by (rule Approve_not_pending[where n = n and a = "executedAt c (a\<lparr>action_approvals := as\<rparr>)"])
        (simp_all add: d(5) that executedAt_def)
    ultimately show ?thesis using d h(5) storeAction_views(2,3) by auto
  qed
  have no: "word_of_nat (card (backing (envLib E) m as)) < policyThreshold m \<and>
        w' = storeAction (a\<lparr>action_approvals := as\<rparr>) w" if "\<not> executed"
    using dec that h(5) by (auto simp: decided_def)
  show "\<exists>a b m as. actionOf (w_kv w) n = Some a \<and> action_status a = COORDINATOR_ACTION_STATUS_PENDING \<and>
      \<not> coordinatorActionExpired c a \<and> canonicalAddr (envLib E) (maa_creator msg) = Some b \<and>
      managersOf (w_kv w) = Some m \<and> b \<in> set (vm_addresses m) \<and>
      as = (if b \<in> set (action_approvals a) then action_approvals a else action_approvals a @ [b]) \<and>
      (executed \<longrightarrow> unat (policyThreshold m) \<le> card (backing (envLib E) m as) \<and>
        (\<exists>w1. executeCoordinatorPayload E c (action_payload a) w = (Inr (), w1) \<and> w_ext w' = w_ext w1 \<and>
          (\<forall>key. key \<noteq> CoordinatorActionKey n \<longrightarrow> kv_get (w_kv w') key = kv_get (w_kv w1) key)) \<and>
        actionOf (w_kv w') = (actionOf (w_kv w))(n \<mapsto> executedAt c (a\<lparr>action_approvals := as\<rparr>)) \<and>
        (\<forall>c' msg'. maa_action_id msg' = n \<longrightarrow>
          (\<exists>e. fst (ApproveCoordinatorAction E c' msg' w') = Inl e))) \<and>
      (\<not> executed \<longrightarrow> b \<notin> set (action_approvals a) \<and>
        word_of_nat (card (backing (envLib E) m as)) < policyThreshold m \<and>
        w' = storeAction (a\<lparr>action_approvals := as\<rparr>) w)"
    using h(1-6) as_def yes no new
    by (intro exI[of _ a] exI[of _ b] exI[of _ m] exI[of _ as] conjI impI) simp_all
qed (rule Propose_at_once)

text \<open>A policy of two managers, both needed, and a pending cancellation one has approved.\<close>

definition sampleUpgrade :: "unit UpgradeScheduler" where
  "sampleUpgrade = \<lparr>GetUpgradePlan = (\<lambda>_. Inr None), ScheduleUpgrade = (\<lambda>_. returnM ()),
     ClearUpgradePlan = returnM ()\<rparr>"

definition coordEnv :: "(unit, unit) env" where
  "coordEnv = sampleEnv\<lparr>upgradeKeeper := Some sampleUpgrade\<rparr>"

definition sampleAction :: CoordinatorAction where
  "sampleAction = \<lparr>action_id = 1,
     action_payload = Some \<lparr>type_url = str ''/svote.v1.MsgCancelUpgrade'', any_value = [1]\<rparr>,
     action_proposer = [1], action_approvals = [[1]], action_status = COORDINATOR_ACTION_STATUS_PENDING,
     action_created_at = 10, action_expires_at = 60, action_executed_at = 0\<rparr>"

definition coordStore :: vkv where
  "coordStore = [(VoteManagerSetKey, VVoteManagerSet \<lparr>vm_addresses = [[1], [2]], vm_threshold = 2\<rparr>),
     (CoordinatorActionKey 1, VCoordinatorAction sampleAction)]"

definition coordWorld :: "(unit, unit) world" where
  "coordWorld = \<lparr>w_kv = coordStore, w_ext = (), w_trees = []\<rparr>"

definition sampleApproval :: MsgApproveCoordinatorAction where
  "sampleApproval = \<lparr>maa_creator = [2], maa_action_id = 1\<rparr>"

lemma coordStore_wf: "kv_wf coordStore"
  by (simp add: kv_wf_def kv_ok_def coordStore_def entry_ok_def key_simps sampleAction_def)

lemma sampleApproval_run: "fst (ApproveCoordinatorAction coordEnv sampleCtx sampleApproval coordWorld) = Inr (1, True)"
  by code_simp

theorem coordinator_quorum_witness:
  "\<exists>w'. ApproveCoordinatorAction coordEnv sampleCtx sampleApproval coordWorld = (Inr (1, True), w') \<and>
     (\<exists>e. fst (ApproveCoordinatorAction coordEnv sampleCtx sampleApproval w') = Inl e)"
proof -
  note run = run_of_fst[of "ApproveCoordinatorAction coordEnv sampleCtx sampleApproval", OF sampleApproval_run]
  have wf: "kv_wf (w_kv coordWorld)" using coordStore_wf by (simp add: coordWorld_def)
  have "maa_action_id sampleApproval = 1" by (simp add: sampleApproval_def)
  with coordinator_quorum[OF wf run] run show ?thesis by blast
qed

lemma decided_expired:
  assumes "kv_wf (w_kv w)" and "decided E c a w executed w'"
    and "action_status a = COORDINATOR_ACTION_STATUS_PENDING"
    and "actionOf (w_kv w') n = Some b" and "action_status b = COORDINATOR_ACTION_STATUS_EXPIRED"
  shows "actionOf (w_kv w) n = Some b"
proof -
  from assms(2) obtain w1 a' where h: "w' = storeAction a' w1" "action_status a' \<noteq> COORDINATOR_ACTION_STATUS_EXPIRED"
    "w1 = w \<or> executeCoordinatorPayload E c (action_payload a) w = (Inr (), w1)"
    using assms(3) by (fastforce simp: decided_def executedAt_def split: if_splits)
  have "actionOf (w_kv w1) = actionOf (w_kv w)" using h(3) payload_frame(2)[OF assms(1)] by blast
  then show ?thesis using assms(4,5) h(1,2) by (auto simp: storeAction_views split: if_splits)
qed

text \<open>Either handler, when it succeeds, carries out a decision on a pending action.\<close>

lemma coordinator_decided:
  assumes "kv_wf (w_kv w)"
    and "ApproveCoordinatorAction E c amsg w = (Inr r, w') \<or> ProposeCoordinatorAction E c pmsg w = (Inr r, w')"
  shows "\<exists>w0 a executed. decided E c a w0 executed w' \<and>
    action_status a = COORDINATOR_ACTION_STATUS_PENDING \<and> kv_wf (w_kv w0) \<and> w_ext w0 = w_ext w \<and>
    (\<forall>k. hd k \<noteq> 0x19 \<longrightarrow> kv_get (w_kv w0) k = kv_get (w_kv w) k)"
  using assms(2)
proof
  assume "ApproveCoordinatorAction E c amsg w = (Inr r, w')"
  then have "ApproveCoordinatorAction E c amsg w = (Inr (fst r, snd r), w')" by simp
  from ApproveCoordinatorAction_Inr[OF this] obtain a b where
    a: "action_status a = COORDINATOR_ACTION_STATUS_PENDING"
    "if b \<in> set (action_approvals a) then snd r \<and> decided E c a w True w'
     else decided E c (a\<lparr>action_approvals := action_approvals a @ [b]\<rparr>) w (snd r) w'" by blast
  show ?thesis
  proof (cases "b \<in> set (action_approvals a)")
    case True
    with a assms(1) show ?thesis by auto
  next
    case False
    with a have "decided E c (a\<lparr>action_approvals := action_approvals a @ [b]\<rparr>) w (snd r) w'" by simp
    moreover have "action_status (a\<lparr>action_approvals := action_approvals a @ [b]\<rparr>) = COORDINATOR_ACTION_STATUS_PENDING"
      using a(1) by simp
    ultimately show ?thesis using assms(1) by blast
  qed
next
  assume "ProposeCoordinatorAction E c pmsg w = (Inr r, w')"
  then have "ProposeCoordinatorAction E c pmsg w = (Inr (fst r, snd r), w')" by simp
  from ProposeCoordinatorAction_Inr[OF this] obtain b where
    dec: "decided E c (newAction c (fst r) (mpa_payload pmsg) b)
      (w\<lparr>w_kv := kv_set NextCoordinatorActionIDKey (VBytes (putUint64BE (fst r + 1))) (w_kv w)\<rparr>) (snd r) w'"
    by blast
  show ?thesis
    by (rule exI, rule exI, rule exI, rule conjI, rule dec)
      (use assms(1) in \<open>auto simp: newAction_def kv_wf_set entry_ok_def key_simps get_simps\<close>)
qed



section \<open>The policy\<close>

definition policy_ok :: "lib \<Rightarrow> vkv \<Rightarrow> bool" where
  "policy_ok L s \<longleftrightarrow> (\<forall>m. managersOf s = Some m \<longrightarrow>
     vm_addresses m \<noteq> [] \<and> distinct (vm_addresses m) \<and>
     (\<forall>b \<in> set (vm_addresses m). \<exists>a. canonicalAddr L a = Some b) \<and>
     1 \<le> unat (vm_threshold m) \<and> unat (vm_threshold m) \<le> length (vm_addresses m))"

text \<open>
  What the code relies on of the address library: the printed form of a parsed address
  parses and prints as itself.
\<close>

definition canonical_ok :: "lib \<Rightarrow> bool" where
  "canonical_ok L \<longleftrightarrow> (\<forall>a b. canonicalAddr L a = Some b \<longrightarrow> canonicalAddr L b = Some b)"

lemma policy_ok_cong: "kv_get s' VoteManagerSetKey = kv_get s VoteManagerSetKey \<Longrightarrow> policy_ok L s' = policy_ok L s"
  by (simp add: policy_ok_def managersOf_def view_def)

lemma decided_step:
  assumes "decided E c a w executed w'"
  shows "\<exists>w1 b. w' = storeAction b w1 \<and> payloadStep E c (w_ext w) (w_kv w) (w_kv w1)"
proof (cases executed)
  case True
  with assms obtain w1 where "executeCoordinatorPayload E c (action_payload a) w = (Inr (), w1)"
    "w' = storeAction (executedAt c a) w1" by (auto simp: decided_def)
  then show ?thesis using executeCoordinatorPayload_step by blast
next
  case False
  with assms have "w' = storeAction a w" by (auto simp: decided_def)
  then show ?thesis by (intro exI[of _ w] exI[of _ a]) (simp add: other_module)
qed

lemma payloadStep_policy:
  assumes "payloadStep E c x s s'" and "kv_wf s" and "policy_ok (envLib E) s"
  shows "policy_ok (envLib E) s' \<and> (managersOf s \<noteq> None \<longrightarrow> managersOf s' \<noteq> None)"
  using assms(1)
proof cases
  case (new_policy addrs t0 managers t m)
  note p = ValidateAndNormalizeVoteManagerPolicy_Inr[OF new_policy(2)]
  have "managersOf s' = Some \<lparr>vm_addresses = managers, vm_threshold = t\<rparr>"
    by (simp add: new_policy(1) managersOf_def view_set key_simps okOpt_def)
  moreover have "\<exists>a. canonicalAddr (envLib E) a = Some b" if "b \<in> set managers" for b
  proof -
    have "Some b \<in> set (map (canonicalAddr (envLib E)) addrs)" using that by (simp flip: p(4))
    then show ?thesis by auto
  qed
  ultimately show ?thesis using p by (simp add: policy_ok_def)
next
  case (new_session msg r)
  from executeCreateVotingSession_Inr[OF assms(2) new_session] have
    same: "kv_get s' VoteManagerSetKey = kv_get s VoteManagerSetKey" by (auto simp: get_simps key_simps)
  from policy_ok_cong[OF same] same assms(3) show ?thesis by (simp add: managersOf_def view_def)
qed (use assms(3) in \<open>auto simp: policy_ok_def managersOf_def view_set view_delete key_simps\<close>)

lemma backing_all:
  assumes "canonical_ok L" and "\<forall>b \<in> set (vm_addresses m). \<exists>a. canonicalAddr L a = Some b"
  shows "backing L m (vm_addresses m) = set (vm_addresses m)"
  using assms unfolding backing_def canonical_ok_def by blast

text \<open>
  C37. The coordinator policy stays satisfiable. Whatever action is proposed, approved and
  executed, a vote-manager set that is in place stays in place, and its members stay
  distinct canonical addresses with a threshold between 1 and their number, so that the
  managers together always reach the threshold.
\<close>

theorem policy_stays_reachable:
  assumes "canonical_ok (envLib E)" and "kv_wf (w_kv w)" and "policy_ok (envLib E) (w_kv w)"
    and "ApproveCoordinatorAction E c amsg w = (Inr r, w') \<or> ProposeCoordinatorAction E c pmsg w = (Inr r, w')"
  shows "policy_ok (envLib E) (w_kv w') \<and> kv_wf (w_kv w') \<and>
    (managersOf (w_kv w) \<noteq> None \<longrightarrow> managersOf (w_kv w') \<noteq> None) \<and>
    (\<forall>m. managersOf (w_kv w') = Some m \<longrightarrow>
      unat (policyThreshold m) \<le> card (backing (envLib E) m (vm_addresses m)))"
proof -
  from coordinator_decided[OF assms(2,4)] obtain w0 a ex where dec: "decided E c a w0 ex w'" "kv_wf (w_kv w0)"
    "\<forall>k. hd k \<noteq> 0x19 \<longrightarrow> kv_get (w_kv w0) k = kv_get (w_kv w) k" by blast
  have man0: "kv_get (w_kv w0) VoteManagerSetKey = kv_get (w_kv w) VoteManagerSetKey"
    using dec(3) by (simp add: key_simps)
  have ok0: "policy_ok (envLib E) (w_kv w0)" using policy_ok_cong[OF man0] assms(3) by simp
  obtain w1 b where w1: "w' = storeAction b w1" "payloadStep E c (w_ext w0) (w_kv w0) (w_kv w1)"
    using decided_step[OF dec(1)] by blast
  note p = payloadStep_policy[OF w1(2) dec(2) ok0]
  have man: "kv_get (w_kv w') VoteManagerSetKey = kv_get (w_kv w1) VoteManagerSetKey"
    unfolding w1(1) by (rule storeAction_views(3)) (simp add: key_simps)
  have ok: "policy_ok (envLib E) (w_kv w')" using p policy_ok_cong[OF man] by simp
  moreover have "kv_wf (w_kv w')"
    using payloadStep_frame[OF w1(2) dec(2)] by (simp add: w1(1) storeAction_views(4))
  moreover have "managersOf (w_kv w) \<noteq> None \<longrightarrow> managersOf (w_kv w') \<noteq> None"
    using p man man0 by (simp add: managersOf_def view_def)
  moreover have "unat (policyThreshold m) \<le> card (backing (envLib E) m (vm_addresses m))"
    if m: "managersOf (w_kv w') = Some m" for m
  proof -
    have h: "distinct (vm_addresses m)" "\<forall>b \<in> set (vm_addresses m). \<exists>a. canonicalAddr (envLib E) a = Some b"
      "1 \<le> unat (vm_threshold m)" "unat (vm_threshold m) \<le> length (vm_addresses m)"
      using ok m by (simp_all add: policy_ok_def)
    have "policyThreshold m = vm_threshold m" using h(3) by (auto simp: NormalizeVoteManagerThreshold_def)
    then show ?thesis using h backing_all[OF assms(1) h(2)] by (simp add: distinct_card)
  qed
  ultimately show ?thesis by blast
qed

theorem policy_stays_reachable_witness:
  "\<exists>w'. ApproveCoordinatorAction coordEnv sampleCtx sampleApproval coordWorld = (Inr (1, True), w') \<and>
     policy_ok sampleLib (w_kv w') \<and> managersOf (w_kv w') \<noteq> None"
proof -
  note run = run_of_fst[of "ApproveCoordinatorAction coordEnv sampleCtx sampleApproval", OF sampleApproval_run]
  have L: "envLib coordEnv = sampleLib" by (simp add: coordEnv_def sampleEnv_def)
  have can: "canonical_ok (envLib coordEnv)"
    by (auto simp: canonical_ok_def L sampleLib_def canonicalAddr_def split: if_splits)
  have wf: "kv_wf (w_kv coordWorld)" using coordStore_wf by (simp add: coordWorld_def)
  have man: "managersOf (w_kv coordWorld) = Some \<lparr>vm_addresses = [[1], [2]], vm_threshold = 2\<rparr>"
    by (simp add: managersOf_def view_def coordWorld_def coordStore_def kv_get_def okOpt_def)
  then have pol: "policy_ok (envLib coordEnv) (w_kv coordWorld)"
    by (auto simp: policy_ok_def L sampleLib_def canonicalAddr_def)
  from policy_stays_reachable[OF can wf pol disjI1[OF run]] run man show ?thesis by (auto simp: L)
qed

section \<open>Endorsements\<close>

definition endorsed :: "vkv \<Rightarrow> gostring \<Rightarrow> bytes \<Rightarrow> bool" where
  "endorsed s i r \<longleftrightarrow> kv_get s (0x17 # i @ 0x00 # r) \<noteq> None"

definition endorserOf :: "vkv \<Rightarrow> gostring \<Rightarrow> gostring option" where
  "endorserOf s i = view decodeBytes s (0x16 # i)"

lemma GetEndorser_Some:
  "GetEndorser i s = (Inr (Some a), s') \<Longrightarrow> s' = s \<and> endorserOf s i = Some a"
  by (auto simp: GetEndorser_def succ_iffs key_simps bindR_Inr_iff kvGetAs_Inr_iff endorserOf_def view_Some_iff
      split: option.splits)

lemma endorsedKey_Inr_iff:
  "EndorsedRoundKey i r = Inr k \<longleftrightarrow> ValidateEndorserID i = Inr () \<and> length r = 32 \<and> k = 0x17 # i @ 0x00 # r"
  by (auto simp: key_simps bindR_Inr_iff)

lemma option_throw_Inr_iff:
  "(case x of None \<Rightarrow> throwM e | Some a \<Rightarrow> f a) s = (Inr b, s') \<longleftrightarrow> (\<exists>a. x = Some a \<and> f a s = (Inr b, s'))"
  by (cases x) (simp_all add: throwM_def)

lemma EndorseRound_Inr:
  assumes "EndorseRound E msg s = (Inr u, s')"
  shows "\<exists>a. endorserOf s (mer_endorser_id msg) = Some a \<and> canonicalAddr (envLib E) (mer_creator msg) = Some a \<and>
    ValidateEndorserID (mer_endorser_id msg) = Inr () \<and> length (mer_vote_round_id msg) = 32 \<and>
    roundOf s (mer_vote_round_id msg) \<noteq> None \<and>
    s' = kv_set (0x17 # mer_endorser_id msg @ 0x00 # mer_vote_round_id msg) (VBytes [1]) s"
  using assms unfolding EndorseRound_def
  by (auto simp: succ_iffs GetVoteRound_Inr_iff AddEndorsedRound_def endorsedKey_Inr_iff kvSet_def
      option_throw_Inr_iff dest!: GetEndorser_Some)

lemma ClearRoundEndorsement_Inr:
  assumes "ClearRoundEndorsement E msg s = (Inr u, s')"
  shows "\<exists>a. endorserOf s (mcl_endorser_id msg) = Some a \<and> canonicalAddr (envLib E) (mcl_creator msg) = Some a \<and>
    ValidateEndorserID (mcl_endorser_id msg) = Inr () \<and> length (mcl_vote_round_id msg) = 32 \<and>
    roundOf s (mcl_vote_round_id msg) \<noteq> None \<and>
    s' = kv_delete (0x17 # mcl_endorser_id msg @ 0x00 # mcl_vote_round_id msg) s"
  using assms unfolding ClearRoundEndorsement_def
  by (auto simp: succ_iffs GetVoteRound_Inr_iff DeleteEndorsedRound_def endorsedKey_Inr_iff kvDelete_def
      option_throw_Inr_iff dest!: GetEndorser_Some)

text \<open>Endorsements of different endorsers and rounds never share a key.\<close>

lemma endorsed_keys:
  assumes "ValidateEndorserID i = Inr ()" and "length r = 32" and "ValidateEndorserID j = Inr ()" and "length q = 32"
  shows "endorsed (kv_set (0x17 # i @ 0x00 # r) v s) j q \<longleftrightarrow> (j, q) = (i, r) \<or> endorsed s j q"
    and "endorsed (kv_delete (0x17 # i @ 0x00 # r) s) j q \<longleftrightarrow> (j, q) \<noteq> (i, r) \<and> endorsed s j q"
proof -
  have k: "EndorsedRoundKey i r = Inr (0x17 # i @ 0x00 # r)" "EndorsedRoundKey j q = Inr (0x17 # j @ 0x00 # q)"
    using assms by (simp_all add: endorsedKey_Inr_iff)
  show "endorsed (kv_set (0x17 # i @ 0x00 # r) v s) j q \<longleftrightarrow> (j, q) = (i, r) \<or> endorsed s j q"
    using endorsedRound.lookup_after_set[of "(i, r)" _ "(j, q)" _ v s] k
    unfolding endorsed_def prod.case by auto
  show "endorsed (kv_delete (0x17 # i @ 0x00 # r) s) j q \<longleftrightarrow> (j, q) \<noteq> (i, r) \<and> endorsed s j q"
    using endorsedRound.lookup_after_delete[of "(i, r)" _ "(j, q)" _ s] k
    unfolding endorsed_def prod.case by auto
qed

text \<open>
  Endorsing and clearing. Only the account mapped to an endorser id can endorse under it,
  and only a round that exists. The endorsement is what \<^verbatim>\<open>IsRoundEndorsed\<close> then reports, for
  this id and round and no other, and clearing it restores what every id and round reported
  before, except that this one is not endorsed.
\<close>

lemma endorsement_roundtrip:
  assumes "EndorseRound E msg s = (Inr u, s')"
    and "ClearRoundEndorsement E cmsg s' = (Inr v, s'')" and "mcl_endorser_id cmsg = mer_endorser_id msg"
    and "mcl_vote_round_id cmsg = mer_vote_round_id msg"
    and "ValidateEndorserID j = Inr ()" and "length q = 32"
  shows "(\<exists>a. endorserOf s (mer_endorser_id msg) = Some a \<and>
      canonicalAddr (envLib E) (mer_creator msg) = Some a \<and> canonicalAddr (envLib E) (mcl_creator cmsg) = Some a) \<and>
    roundOf s (mer_vote_round_id msg) \<noteq> None \<and>
    IsRoundEndorsed j q s' = (Inr ((j, q) = (mer_endorser_id msg, mer_vote_round_id msg) \<or> endorsed s j q), s') \<and>
    IsRoundEndorsed j q s'' = (Inr ((j, q) \<noteq> (mer_endorser_id msg, mer_vote_round_id msg) \<and> endorsed s j q), s'') \<and>
    (\<forall>k. hd k \<noteq> 0x17 \<longrightarrow> kv_get s'' k = kv_get s k)"
proof -
  let ?i = "mer_endorser_id msg" and ?r = "mer_vote_round_id msg"
  from EndorseRound_Inr[OF assms(1)] obtain a where a: "endorserOf s ?i = Some a"
    "canonicalAddr (envLib E) (mer_creator msg) = Some a" "ValidateEndorserID ?i = Inr ()" "length ?r = 32"
    "roundOf s ?r \<noteq> None" "s' = kv_set (0x17 # ?i @ 0x00 # ?r) (VBytes [1]) s" by blast
  from ClearRoundEndorsement_Inr[OF assms(2), unfolded assms(3,4)] obtain b where b: "endorserOf s' ?i = Some b"
    "canonicalAddr (envLib E) (mcl_creator cmsg) = Some b" "s'' = kv_delete (0x17 # ?i @ 0x00 # ?r) s'" by blast
  have "b = a" using a(1,6) b(1) by (simp add: endorserOf_def view_set)
  have report: "IsRoundEndorsed j q t = (Inr (endorsed t j q), t)" for t
    using endorsedKey_Inr_iff[of j q "0x17 # j @ 0x00 # q", THEN iffD2] assms(5,6)
    by (simp add: IsRoundEndorsed_def bindM_def liftR_def kvGet_def getM_def returnM_def endorsed_def)
  show ?thesis
    using a b \<open>b = a\<close> endorsed_keys[OF a(3,4) assms(5,6)] unfolding report
    by (auto simp: get_simps)
qed

end
