(* ===== verification/Ante.thy ===== *)
theory Ante
  imports Msg_Coordinator
begin

text \<open>
  The validation pipeline of vote transactions, \<^verbatim>\<open>src/x/vote/ante/validate.go\<close>, with the
  \<^verbatim>\<open>VoteMessage\<close> interface of \<^verbatim>\<open>src/x/vote/types/msgs.go\<close>: stateless validation, round,
  proposal and nullifier checks, then signatures and zero-knowledge proofs unless the
  transaction is only rechecked. The verifiers, the single-leaf root and the delegation
  digest are computed by Rust libraries and are parameters. Metrics are not modelled.

  The lemmas show that the pipeline only reads the store, which statements the verifiers
  accepted (in a batch, that each proof is anchored to its predecessor's new note), and that
  the handler of a cast or delegation the pipeline accepts does not fail.
\<close>

section \<open>Messages\<close>

datatype VoteMessage =
    CreateVotingSessionMsg MsgCreateVotingSession
  | DelegateVoteMsg MsgDelegateVote
  | CastVoteMsg MsgCastVote
  | CastVoteBatchMsg MsgCastVoteBatch
  | DelegateAndCastVoteBatchMsg MsgDelegateAndCastVoteBatch
  | RevealShareMsg MsgRevealShare
  | SubmitTallyMsg MsgSubmitTally

fun VM_ValidateBasic :: "VoteMessage \<Rightarrow> unit res" where
  "VM_ValidateBasic (CreateVotingSessionMsg m) = CreateVotingSession_ValidateBasic m"
| "VM_ValidateBasic (DelegateVoteMsg m) = DelegateVote_ValidateBasic m"
| "VM_ValidateBasic (CastVoteMsg m) = CastVote_ValidateBasic m"
| "VM_ValidateBasic (CastVoteBatchMsg m) = CastVoteBatch_ValidateBasic m"
| "VM_ValidateBasic (DelegateAndCastVoteBatchMsg m) = DelegateAndCastVoteBatch_ValidateBasic m"
| "VM_ValidateBasic (RevealShareMsg m) = RevealShare_ValidateBasic m"
| "VM_ValidateBasic (SubmitTallyMsg m) = SubmitTally_ValidateBasic m"

text \<open>A nil round id is an empty one.\<close>

fun VM_GetVoteRoundId :: "VoteMessage \<Rightarrow> bytes" where
  "VM_GetVoteRoundId (CreateVotingSessionMsg m) = []"
| "VM_GetVoteRoundId (DelegateVoteMsg m) = md_vote_round_id m"
| "VM_GetVoteRoundId (CastVoteMsg m) = mv_vote_round_id m"
| "VM_GetVoteRoundId (CastVoteBatchMsg m) = CastVoteBatch_GetVoteRoundId m"
| "VM_GetVoteRoundId (DelegateAndCastVoteBatchMsg m) =
     (case mdb_delegation m of None \<Rightarrow> [] | Some d \<Rightarrow> md_vote_round_id d)"
| "VM_GetVoteRoundId (RevealShareMsg m) = mr_vote_round_id m"
| "VM_GetVoteRoundId (SubmitTallyMsg m) = mt_vote_round_id m"

fun VM_GetNullifiers :: "VoteMessage \<Rightarrow> bytes list" where
  "VM_GetNullifiers (CreateVotingSessionMsg m) = []"
| "VM_GetNullifiers (DelegateVoteMsg m) = md_gov_nullifiers m"
| "VM_GetNullifiers (CastVoteMsg m) = [mv_van_nullifier m]"
| "VM_GetNullifiers (CastVoteBatchMsg m) = CastVoteBatch_GetNullifiers m"
| "VM_GetNullifiers (DelegateAndCastVoteBatchMsg m) = []"
| "VM_GetNullifiers (RevealShareMsg m) = [mr_share_nullifier m]"
| "VM_GetNullifiers (SubmitTallyMsg m) = []"

text \<open>\<open>None\<close> is the type 0, which only messages without nullifiers return.\<close>

fun VM_GetNullifierType :: "VoteMessage \<Rightarrow> NullifierType option" where
  "VM_GetNullifierType (DelegateVoteMsg m) = Some NullifierTypeGov"
| "VM_GetNullifierType (CastVoteMsg m) = Some NullifierTypeVoteAuthorityNote"
| "VM_GetNullifierType (CastVoteBatchMsg m) = Some NullifierTypeVoteAuthorityNote"
| "VM_GetNullifierType (RevealShareMsg m) = Some NullifierTypeShare"
| "VM_GetNullifierType _ = None"

section \<open>Verifiers\<close>

record DelegationInputs =
  di_rk :: bytes
  di_signed_note_nullifier :: bytes
  di_cmx_new :: bytes
  di_van_cmx :: bytes
  di_gov_nullifiers :: "bytes list"
  di_vote_round_id :: bytes
  di_nc_root :: bytes
  di_nullifier_imt_root :: bytes

record VoteCommitmentInputs =
  vi_van_nullifier :: bytes
  vi_r_vpk :: bytes
  vi_vote_authority_note_new :: bytes
  vi_vote_commitment :: bytes
  vi_proposal_id :: u32
  vi_vote_round_id :: bytes
  vi_anchor_height :: u64
  vi_vote_comm_tree_root :: bytes
  vi_ea_pk :: bytes

record VoteShareInputs =
  si_share_nullifier :: bytes
  si_enc_share :: bytes
  si_proposal_id :: u32
  si_vote_decision :: u32
  si_vote_round_id :: bytes
  si_anchor_height :: u64
  si_vote_comm_tree_root :: bytes

record verifiers =
  SigVerify :: "bytes \<Rightarrow> bytes \<Rightarrow> bytes \<Rightarrow> unit res"
  VerifyDelegation :: "bytes \<Rightarrow> DelegationInputs \<Rightarrow> unit res"
  VerifyVoteCommitment :: "bytes \<Rightarrow> VoteCommitmentInputs \<Rightarrow> unit res"
  VerifyVoteShare :: "bytes \<Rightarrow> VoteShareInputs \<Rightarrow> unit res"
  SingleLeafRoot :: "bytes \<Rightarrow> bytes res"
  ComputeDelegationSighash :: "bytes \<Rightarrow> bytes res"

section \<open>Signatures and proofs\<close>

definition commitmentInputs :: "MsgCastVote \<Rightarrow> bytes \<Rightarrow> bytes \<Rightarrow> VoteCommitmentInputs" where
  "commitmentInputs msg root eaPk =
     \<lparr>vi_van_nullifier = mv_van_nullifier msg, vi_r_vpk = mv_r_vpk msg,
      vi_vote_authority_note_new = mv_vote_authority_note_new msg,
      vi_vote_commitment = mv_vote_commitment msg, vi_proposal_id = mv_proposal_id msg,
      vi_vote_round_id = mv_vote_round_id msg, vi_anchor_height = mv_anchor_height msg,
      vi_vote_comm_tree_root = root, vi_ea_pk = eaPk\<rparr>"

definition verifyVoteCommitmentProof :: "verifiers \<Rightarrow> MsgCastVote \<Rightarrow> bytes \<Rightarrow> bytes \<Rightarrow> unit res" where
  "verifyVoteCommitmentProof V msg root eaPk =
     wrapErr ErrInvalidProof (VerifyVoteCommitment V (mv_proof msg) (commitmentInputs msg root eaPk))"

definition verifyDelegation ::
  "('s, 'p::ab_group_add) curve \<Rightarrow> verifiers \<Rightarrow> MsgDelegateVote \<Rightarrow> (vkv, unit) M" where
  "verifyDelegation C V msg =
     bindM (liftR (wrapErr ErrInvalidSignature (UnmarshalPublicKey C (md_rk msg)))) (\<lambda>_.
     bindM (liftR (wrapErr ErrInvalidField (ComputeDelegationSighash V (md_tx1_effects msg))))
       (\<lambda>canonicalSighash.
     bindM (liftR (wrapErr ErrInvalidSignature
       (SigVerify V (md_rk msg) canonicalSighash (md_spend_auth_sig msg)))) (\<lambda>_.
     bindM (GetVoteRound (md_vote_round_id msg)) (\<lambda>rd.
     liftR (wrapErr ErrInvalidProof (VerifyDelegation V (md_proof msg)
       \<lparr>di_rk = md_rk msg, di_signed_note_nullifier = md_signed_note_nullifier msg,
        di_cmx_new = md_cmx_new msg, di_van_cmx = md_van_cmx msg,
        di_gov_nullifiers = md_gov_nullifiers msg, di_vote_round_id = md_vote_round_id msg,
        di_nc_root = nc_root rd, di_nullifier_imt_root = nullifier_imt_root rd\<rparr>))))))"

definition verifyCastVote ::
  "lib \<Rightarrow> ('s, 'p::ab_group_add) curve \<Rightarrow> verifiers \<Rightarrow> MsgCastVote \<Rightarrow> (vkv, unit) M" where
  "verifyCastVote L C V msg =
     bindM (liftR (wrapErr ErrInvalidSignature (UnmarshalPublicKey C (mv_r_vpk msg)))) (\<lambda>_.
     let sighash = ComputeCastVoteSighash L msg in
     bindM (liftR (wrapErr ErrInvalidSignature
       (SigVerify V (mv_r_vpk msg) sighash (mv_vote_auth_sig msg)))) (\<lambda>_.
     bindM (GetCommitmentRootAtHeight (mv_vote_round_id msg) (mv_anchor_height msg)) (\<lambda>root.
     (case root of
        None \<Rightarrow> throwM ErrInvalidAnchorHeight
      | Some root \<Rightarrow>
          bindM (GetVoteRound (mv_vote_round_id msg)) (\<lambda>rd.
          liftR (verifyVoteCommitmentProof V msg root (ea_pk rd)))))))"

text \<open>The loop over the signatures of a batch.\<close>

definition batchSignatures ::
  "('s, 'p::ab_group_add) curve \<Rightarrow> verifiers \<Rightarrow> bytes \<Rightarrow> MsgCastVote list \<Rightarrow> unit res" where
  "batchSignatures C V digest votes =
     forR 0 (\<lambda>_ vote.
       bindR (wrapErr ErrInvalidSignature (UnmarshalPublicKey C (mv_r_vpk vote))) (\<lambda>_.
       wrapErr ErrInvalidSignature (SigVerify V (mv_r_vpk vote) digest (mv_vote_auth_sig vote)))) votes"

text \<open>The loop over its proofs, with the root the next proof is checked against.\<close>

fun batchProofs :: "verifiers \<Rightarrow> bytes \<Rightarrow> bytes \<Rightarrow> MsgCastVote list \<Rightarrow> unit res" where
  "batchProofs V eaPk proofRoot [] = Inr ()"
| "batchProofs V eaPk proofRoot (vote # votes) =
     bindR (verifyVoteCommitmentProof V vote proofRoot eaPk) (\<lambda>_.
     if votes \<noteq> [] then
       bindR (SingleLeafRoot V (mv_vote_authority_note_new vote)) (\<lambda>nextRoot.
       batchProofs V eaPk nextRoot votes)
     else Inr ())"

definition verifyCastVoteBatch ::
  "lib \<Rightarrow> ('s, 'p::ab_group_add) curve \<Rightarrow> verifiers \<Rightarrow> MsgCastVoteBatch \<Rightarrow> (vkv, unit) M" where
  "verifyCastVoteBatch L C V msg =
     (let digest = ComputeCastVoteBatchSighash L msg in
     bindM (liftR (batchSignatures C V digest (mb_votes msg))) (\<lambda>_.
     (case mb_votes msg of
        [] \<Rightarrow> throwM GoPanic
      | first # _ \<Rightarrow>
          bindM (GetCommitmentRootAtHeight (mv_vote_round_id first) (mv_anchor_height first)) (\<lambda>root.
          (case root of
             None \<Rightarrow> throwM ErrInvalidAnchorHeight
           | Some root \<Rightarrow>
               bindM (GetVoteRound (mv_vote_round_id first)) (\<lambda>rd.
               liftR (batchProofs V (ea_pk rd) root (mb_votes msg))))))))"

definition verifyDelegateAndCastVoteBatch ::
  "lib \<Rightarrow> ('s, 'p::ab_group_add) curve \<Rightarrow> verifiers \<Rightarrow> MsgDelegateAndCastVoteBatch \<Rightarrow> (vkv, unit) M" where
  "verifyDelegateAndCastVoteBatch L C V msg =
     (case (mdb_delegation msg, mdb_batch msg) of
        (Some delegation, Some batch) \<Rightarrow>
          let digest = ComputeDelegateAndCastVoteBatchSighash L msg in
          bindM (liftR (batchSignatures C V digest (mb_votes batch))) (\<lambda>_.
          thenM (verifyDelegation C V delegation) (
          bindM (GetVoteRound (md_vote_round_id delegation)) (\<lambda>rd.
          bindM (liftR (SingleLeafRoot V (md_van_cmx delegation))) (\<lambda>proofRoot.
          liftR (batchProofs V (ea_pk rd) proofRoot (mb_votes batch))))))
      | _ \<Rightarrow> throwM GoPanic)"

definition verifyRevealShare :: "verifiers \<Rightarrow> MsgRevealShare \<Rightarrow> (vkv, unit) M" where
  "verifyRevealShare V msg =
     bindM (GetCommitmentRootAtHeight (mr_vote_round_id msg) (mr_anchor_height msg)) (\<lambda>treeRoot.
     (case treeRoot of
        None \<Rightarrow> throwM ErrInvalidProof
      | Some root \<Rightarrow>
          liftR (wrapErr ErrInvalidProof (VerifyVoteShare V (mr_proof msg)
            \<lparr>si_share_nullifier = mr_share_nullifier msg, si_enc_share = mr_enc_share msg,
             si_proposal_id = mr_proposal_id msg, si_vote_decision = mr_vote_decision msg,
             si_vote_round_id = mr_vote_round_id msg, si_anchor_height = mr_anchor_height msg,
             si_vote_comm_tree_root = root\<rparr>))))"

fun verifyProofs ::
  "lib \<Rightarrow> ('s, 'p::ab_group_add) curve \<Rightarrow> verifiers \<Rightarrow> VoteMessage \<Rightarrow> (vkv, unit) M" where
  "verifyProofs L C V (CreateVotingSessionMsg m) = returnM ()"
| "verifyProofs L C V (DelegateVoteMsg m) = verifyDelegation C V m"
| "verifyProofs L C V (CastVoteMsg m) = verifyCastVote L C V m"
| "verifyProofs L C V (CastVoteBatchMsg m) = verifyCastVoteBatch L C V m"
| "verifyProofs L C V (DelegateAndCastVoteBatchMsg m) = verifyDelegateAndCastVoteBatch L C V m"
| "verifyProofs L C V (RevealShareMsg m) = verifyRevealShare V m"
| "verifyProofs L C V (SubmitTallyMsg m) = returnM ()"

section \<open>The pipeline\<close>

definition validateRoundStep :: "('x, 'h) env \<Rightarrow> 'x \<Rightarrow> ctx \<Rightarrow> VoteMessage \<Rightarrow> (vkv, unit) M" where
  "validateRoundStep E x c msg =
     (let roundID = VM_GetVoteRoundId msg in
      if roundID = [] then returnM ()
      else (case msg of
        SubmitTallyMsg m \<Rightarrow>
          thenM (ValidateRoundForTally roundID) (
          liftR (ValidateProposerIsCreator E x c (mt_creator m)))
      | _ \<Rightarrow> ValidateRoundForVoting c roundID))"

fun votesOf :: "VoteMessage \<Rightarrow> MsgCastVote list res" where
  "votesOf (CastVoteMsg m) = Inr [m]"
| "votesOf (CastVoteBatchMsg m) = Inr (mb_votes m)"
| "votesOf (DelegateAndCastVoteBatchMsg m) =
     (case mdb_batch m of None \<Rightarrow> Inl GoPanic | Some b \<Rightarrow> Inr (mb_votes b))"
| "votesOf _ = Inr []"

definition validateNullifierStep :: "VoteMessage \<Rightarrow> (vkv, unit) M" where
  "validateNullifierStep msg =
     (case msg of
        DelegateAndCastVoteBatchMsg m \<Rightarrow>
          (case (mdb_delegation m, mdb_batch m) of
             (Some delegation, Some batch) \<Rightarrow>
               thenM (CheckNullifiersUnique NullifierTypeGov (VM_GetVoteRoundId msg)
                 (md_gov_nullifiers delegation)) (
               CheckNullifiersUnique NullifierTypeVoteAuthorityNote (VM_GetVoteRoundId msg)
                 (CastVoteBatch_GetNullifiers batch))
           | _ \<Rightarrow> throwM GoPanic)
      | _ \<Rightarrow>
          let nullifiers = VM_GetNullifiers msg in
          if length nullifiers > 0 then
            (case VM_GetNullifierType msg of
               None \<Rightarrow> throwM GoPanic
             | Some t \<Rightarrow> CheckNullifiersUnique t (VM_GetVoteRoundId msg) nullifiers)
          else returnM ())"

definition ValidateVoteTx ::
  "('x, 'h) env \<Rightarrow> ('s, 'p::ab_group_add) curve \<Rightarrow> verifiers \<Rightarrow> 'x \<Rightarrow> ctx \<Rightarrow> bool \<Rightarrow> VoteMessage \<Rightarrow>
   (vkv, unit) M" where
  "ValidateVoteTx E C V x c isRecheck msg =
     bindM (liftR (VM_ValidateBasic msg)) (\<lambda>_.
     thenM (validateRoundStep E x c msg) (
     bindM (liftR (votesOf msg)) (\<lambda>votes.
     thenM (forM votes (\<lambda>vote. ValidateProposalId (mv_vote_round_id vote) (mv_proposal_id vote))) (
     thenM (validateNullifierStep msg) (
     if isRecheck then returnM ()
     else verifyProofs (envLib E) C V msg)))))"

section \<open>The pipeline only reads\<close>

lemma round_checks_read:
  "ValidateRoundForVoting c r s = (Inr u, s') \<Longrightarrow> s' = s"
  "ValidateRoundForTally r s = (Inr u, s') \<Longrightarrow> s' = s"
  by (auto simp: ValidateRoundForVoting_def ValidateRoundForTally_def succ_iffs GetVoteRound_Inr_iff
      split: if_splits)

lemma validateRoundStep_Inr:
  assumes "validateRoundStep E x c msg s = (Inr u, s')"
  shows "s' = s \<and> (VM_GetVoteRoundId msg \<noteq> [] \<longrightarrow> (case msg of
      SubmitTallyMsg m \<Rightarrow> ValidateRoundForTally (VM_GetVoteRoundId msg) s = (Inr (), s) \<and>
        ValidateProposerIsCreator E x c (mt_creator m) = Inr ()
    | _ \<Rightarrow> ValidateRoundForVoting c (VM_GetVoteRoundId msg) s = (Inr (), s)))"
proof (cases "VM_GetVoteRoundId msg = []")
  case True
  then show ?thesis using assms by (simp add: validateRoundStep_def returnM_def)
next
  case False
  then show ?thesis using assms round_checks_read
    by (cases msg) (fastforce simp: validateRoundStep_def succ_iffs)+
qed

lemma validateNullifierStep_Inr: "validateNullifierStep msg s = (Inr u, s') \<Longrightarrow> s' = s"
  by (auto simp: validateNullifierStep_def succ_iffs CheckNullifiersUnique_Inr_iff Let_def
      split: VoteMessage.splits option.splits if_splits)

lemma GetRoot_read: "GetCommitmentRootAtHeight r h s = (Inr a, s') \<Longrightarrow> s' = s"
  by (auto simp: GetCommitmentRootAtHeight_def kvGetAs_Inr_iff)

lemma verifyDelegation_read: "verifyDelegation C V m s = (Inr u, s') \<Longrightarrow> s' = s"
  by (auto simp: verifyDelegation_def succ_iffs GetVoteRound_Inr_iff)

lemma verifyProofs_read: "verifyProofs L C V msg s = (Inr u, s') \<Longrightarrow> s' = s"
  by (cases msg)
    (auto simp: verifyCastVote_def verifyCastVoteBatch_def verifyDelegateAndCastVoteBatch_def
      verifyRevealShare_def succ_iffs GetVoteRound_Inr_iff Let_def
      dest!: GetRoot_read verifyDelegation_read split: option.splits list.splits)

lemma ValidateVoteTx_Inr:
  assumes "ValidateVoteTx E C V x c isRecheck msg s = (Inr u, s')"
  shows "s' = s \<and> VM_ValidateBasic msg = Inr () \<and> validateRoundStep E x c msg s = (Inr (), s) \<and>
    (\<exists>votes. votesOf msg = Inr votes \<and> (\<forall>v \<in> set votes.
      ValidateProposalId (mv_vote_round_id v) (mv_proposal_id v) s = (Inr (), s))) \<and>
    validateNullifierStep msg s = (Inr (), s) \<and>
    (\<not> isRecheck \<longrightarrow> verifyProofs (envLib E) C V msg s = (Inr (), s))"
proof -
  from assms obtain s1 votes s2 s3 where h: "VM_ValidateBasic msg = Inr ()"
    "validateRoundStep E x c msg s = (Inr (), s1)" "votesOf msg = Inr votes"
    "forM votes (\<lambda>v. ValidateProposalId (mv_vote_round_id v) (mv_proposal_id v)) s1 = (Inr (), s2)"
    "validateNullifierStep msg s2 = (Inr (), s3)"
    "(if isRecheck then returnM () else verifyProofs (envLib E) C V msg) s3 = (Inr (), s')"
    unfolding ValidateVoteTx_def by (auto simp: succ_iffs)
  have s1: "s1 = s" using validateRoundStep_Inr[OF h(2)] by blast
  have "s2 = s1 \<and> (\<forall>v \<in> set votes. ValidateProposalId (mv_vote_round_id v) (mv_proposal_id v) s1 = (Inr (), s1))"
    by (rule forM_state_Inr[OF _ h(4)]) (simp add: ValidateProposalId_Inr_iff)
  moreover have "s3 = s2" using validateNullifierStep_Inr[OF h(5)] .
  moreover have "s' = s3" using h(6) verifyProofs_read by (auto simp: returnM_def split: if_splits)
  ultimately show ?thesis using h s1 by (auto split: if_splits)
qed

section \<open>Accepted votes execute\<close>

lemma returns_step:
  "m s = (Inr a, s') \<Longrightarrow> returns (bindM m f) s = returns (f a) s'"
  "n s = (Inr (), s') \<Longrightarrow> returns (thenM n k) s = returns k s'"
  by (simp_all add: returns_def bindM_def thenM_def)

lemma DelegateVote_returns:
  assumes "kv_wf s" and "length (md_vote_round_id m) = 32" and "distinct (md_gov_nullifiers m)"
    and "set (md_gov_nullifiers m) \<inter> nullifiersOf s NullifierTypeGov (md_vote_round_id m) = {}"
  shows "returns (DelegateVote m) s"
proof -
  let ?t = "setNulls NullifierTypeGov (md_vote_round_id m) (md_gov_nullifiers m) s"
  have "forM (md_gov_nullifiers m) (\<lambda>nf. CheckAndSetNullifier NullifierTypeGov (md_vote_round_id m) nf) s = (Inr (), ?t)"
    using assms(3,4) by (simp add: forM_check_and_set[OF assms(2)])
  moreover have "kv_wf ?t" by (rule kv_wf_setNulls[OF assms(1)])
  ultimately show ?thesis
    by (simp add: DelegateVote_def returns_step AppendCommitment_wf[OF _ assms(2)])
qed

lemma CastVote_returns:
  assumes "kv_wf s" and "ValidateProposalId (mv_vote_round_id m) (mv_proposal_id m) s = (Inr (), s)"
    and "GetCommitmentRootAtHeight (mv_vote_round_id m) (mv_anchor_height m) s = (Inr (Some root), s)"
    and "mv_van_nullifier m \<notin> nullifiersOf s NullifierTypeVoteAuthorityNote (mv_vote_round_id m)"
  shows "returns (CastVote m) s"
proof -
  let ?r = "mv_vote_round_id m" and ?T = NullifierTypeVoteAuthorityNote
  let ?t = "kv_set (nullifierKey ?T ?r (mv_van_nullifier m)) (VBytes [1]) s"
  have r: "length ?r = 32" using assms(2) by (simp add: ValidateProposalId_Inr_iff)
  have "CheckAndSetNullifier ?T ?r (mv_van_nullifier m) s = (Inr (), ?t)"
    using r assms(4) by (simp add: CheckAndSetNullifier_Inr_iff nullifierKey_def)
  moreover have "kv_wf ?t" using assms(1) by (simp add: kv_wf_set entry_ok_nullifier)
  ultimately show ?thesis using assms(2,3) kv_wf_appendStore[OF _ r]
    by (simp add: CastVote_def returns_step AppendCommitment_wf[OF _ r])
qed

lemma append_batch_returns:
  assumes "kv_wf s" and "length r = 32"
  shows "returns (bindM (AppendCommitment r a) (\<lambda>i. bindM (mapM (\<lambda>v. AppendCommitment r (f v)) vs) (\<lambda>js. returnM d))) s"
proof -
  have "kv_wf (appendStore r a s)" by (rule kv_wf_appendStore[OF assms])
  from mapM_append[OF assms(2) this, of f vs] obtain idx where
    "mapM (\<lambda>v. AppendCommitment r (f v)) vs (appendStore r a s) = (Inr idx, appendAll r (map f vs) (appendStore r a s))"
    by blast
  then show ?thesis by (simp add: returns_step AppendCommitment_wf[OF assms])
qed

lemma forM_pure: "\<forall>v \<in> set vs. f v s = (Inr (), s) \<Longrightarrow> forM vs f s = (Inr (), s)"
  by (induction vs) (auto simp: returnM_def thenM_def bindM_def)

lemma CastVoteBatch_returns:
  assumes "kv_wf s" and "CastVoteBatch_ValidateBasic m = Inr ()"
    and "\<forall>v \<in> set (mb_votes m). ValidateProposalId (mv_vote_round_id v) (mv_proposal_id v) s = (Inr (), s)"
    and "GetCommitmentRootAtHeight (mv_vote_round_id (hd (mb_votes m))) (mv_anchor_height (hd (mb_votes m))) s =
      (Inr (Some root), s)"
    and "CheckNullifiersUnique NullifierTypeVoteAuthorityNote (mv_vote_round_id (hd (mb_votes m)))
      (CastVoteBatch_GetNullifiers m) s = (Inr (), s)"
  shows "returns (CastVoteBatch L m) s"
proof -
  have ne: "mb_votes m \<noteq> []"
    using assms(2) by (simp add: CastVoteBatch_ValidateBasic_def CastVoteBatch_validateBasic_Inr)
  let ?r = "mv_vote_round_id (hd (mb_votes m))" and ?T = NullifierTypeVoteAuthorityNote
  have r: "length ?r = 32" using assms(3) hd_in_set[OF ne] by (simp add: ValidateProposalId_Inr_iff)
  have "kv_wf (setNulls ?T ?r (map mv_van_nullifier (mb_votes m)) s)" by (rule kv_wf_setNulls[OF assms(1)])
  moreover have "forM (mb_votes m) (\<lambda>v. ValidateProposalId (mv_vote_round_id v) (mv_proposal_id v)) s = (Inr (), s)"
    by (rule forM_pure) (rule assms(3))
  ultimately show ?thesis
    using assms(2,4,5) append_batch_returns[OF _ r]
    unfolding CastVoteBatch_def
    by (simp add: ne list.case_eq_if returns_step forM_set_nullifiers[OF r] liftR_def)
qed

lemma DelegateAndCast_returns:
  assumes "kv_wf s" and "DelegateAndCastVoteBatch_ValidateBasic m = Inr ()"
    and "mdb_delegation m = Some d" and "mdb_batch m = Some b"
    and "\<forall>v \<in> set (mb_votes b). ValidateProposalId (md_vote_round_id d) (mv_proposal_id v) s = (Inr (), s)"
    and "CheckNullifiersUnique NullifierTypeGov (md_vote_round_id d) (md_gov_nullifiers d) s = (Inr (), s)"
    and "CheckNullifiersUnique NullifierTypeVoteAuthorityNote (md_vote_round_id d)
      (CastVoteBatch_GetNullifiers b) s = (Inr (), s)"
    and "length (md_vote_round_id d) = 32"
  shows "returns (DelegateAndCastVoteBatch L m) s"
proof -
  let ?r = "md_vote_round_id d"
  have "forM (md_gov_nullifiers d) (\<lambda>nf. SetNullifier NullifierTypeGov ?r nf) s =
      (Inr (), setNulls NullifierTypeGov ?r (md_gov_nullifiers d) s)"
    using forM_set_nullifiers[OF assms(8), of "md_gov_nullifiers d" NullifierTypeGov "\<lambda>n. n"] by simp
  moreover have "forM (mb_votes b) (\<lambda>v. ValidateProposalId ?r (mv_proposal_id v)) s = (Inr (), s)"
    by (rule forM_pure) (rule assms(5))
  moreover have "kv_wf (setNulls NullifierTypeVoteAuthorityNote ?r (map mv_van_nullifier (mb_votes b))
      (setNulls NullifierTypeGov ?r (md_gov_nullifiers d) s))"
    by (intro kv_wf_setNulls assms(1))
  ultimately show ?thesis
    using assms(2-7) append_batch_returns[OF _ assms(8)]
    unfolding DelegateAndCastVoteBatch_def
    by (simp add: returns_step forM_set_nullifiers[OF assms(8)] liftR_def Let_def)
qed

lemma batch_shape:
  assumes "CastVoteBatch_validateBasic b m = Inr u"
  shows "mb_votes m \<noteq> []" and "CastVoteBatch_GetVoteRoundId m = mv_vote_round_id (hd (mb_votes m))"
    and "length (CastVoteBatch_GetVoteRoundId m) = 32"
    and "v \<in> set (mb_votes m) \<Longrightarrow> mv_vote_round_id v = CastVoteBatch_GetVoteRoundId m"
proof -
  note h = assms[unfolded CastVoteBatch_validateBasic_Inr]
  show ne: "mb_votes m \<noteq> []" using h by blast
  show r: "CastVoteBatch_GetVoteRoundId m = mv_vote_round_id (hd (mb_votes m))"
    using ne by (simp add: CastVoteBatch_GetVoteRoundId_def hd_conv_nth)
  have "CastVote_validateBasic b (hd (mb_votes m)) = Inr ()" using h hd_in_set[OF ne] by blast
  then show "length (CastVoteBatch_GetVoteRoundId m) = 32"
    unfolding r by (simp add: CastVote_validateBasic_def RoundIDLen_def)
  have "CastVoteBatch_GetVoteRoundId m = mv_vote_round_id (mb_votes m ! 0)"
    using ne by (simp add: CastVoteBatch_GetVoteRoundId_def)
  then show "v \<in> set (mb_votes m) \<Longrightarrow> mv_vote_round_id v = CastVoteBatch_GetVoteRoundId m"
    using h by metis
qed

lemma verifyCastVoteBatch_Inr:
  assumes "verifyCastVoteBatch L C V m s = (Inr u, s')" and "mb_votes m \<noteq> []"
  shows "\<exists>root rd. batchSignatures C V (ComputeCastVoteBatchSighash L m) (mb_votes m) = Inr () \<and>
    GetCommitmentRootAtHeight (mv_vote_round_id (hd (mb_votes m))) (mv_anchor_height (hd (mb_votes m))) s =
      (Inr (Some root), s) \<and>
    roundOf s (mv_vote_round_id (hd (mb_votes m))) = Some rd \<and>
    batchProofs V (ea_pk rd) root (mb_votes m) = Inr ()"
proof -
  from assms obtain root s1 rd where "batchSignatures C V (ComputeCastVoteBatchSighash L m) (mb_votes m) = Inr ()"
    "GetCommitmentRootAtHeight (mv_vote_round_id (hd (mb_votes m))) (mv_anchor_height (hd (mb_votes m))) s =
      (Inr (Some root), s1)"
    "GetVoteRound (mv_vote_round_id (hd (mb_votes m))) s1 = (Inr rd, s1)"
    "batchProofs V (ea_pk rd) root (mb_votes m) = Inr ()"
    unfolding verifyCastVoteBatch_def Let_def list.case_eq_if
    by (clarsimp simp: bindM_Inr_iff liftR_Inr_iff option_throw_Inr_iff GetVoteRound_Inr_iff)
  moreover from this(2) have "s1 = s" by (rule GetRoot_read)
  ultimately show ?thesis by (auto simp: GetVoteRound_Inr_iff)
qed

text \<open>What the pipeline established is what each handler needs.\<close>

lemma checked_vote_executes:
  assumes "kv_wf s" and "verifyProofs (envLib E) C V (CastVoteMsg m) s = (Inr (), s)"
    and "ValidateProposalId (mv_vote_round_id m) (mv_proposal_id m) s = (Inr (), s)"
    and "validateNullifierStep (CastVoteMsg m) s = (Inr (), s)"
  shows "returns (CastVote m) s"
proof -
  from assms(2) obtain root where
    "GetCommitmentRootAtHeight (mv_vote_round_id m) (mv_anchor_height m) s = (Inr (Some root), s)"
    by (auto simp: verifyCastVote_def succ_iffs option_throw_Inr_iff dest: GetRoot_read)
  then show ?thesis using assms(3,4)
    by (auto simp: validateNullifierStep_def CheckNullifiersUnique_Inr_iff intro!: CastVote_returns[OF assms(1)])
qed

lemma checked_batch_executes:
  assumes "kv_wf s" and "verifyProofs (envLib E) C V (CastVoteBatchMsg m) s = (Inr (), s)"
    and "CastVoteBatch_ValidateBasic m = Inr ()"
    and "\<forall>v \<in> set (mb_votes m). ValidateProposalId (mv_vote_round_id v) (mv_proposal_id v) s = (Inr (), s)"
    and "validateNullifierStep (CastVoteBatchMsg m) s = (Inr (), s)"
  shows "returns (CastVoteBatch (envLib E) m) s"
proof -
  have ne: "mb_votes m \<noteq> []"
    using assms(3) by (simp add: CastVoteBatch_ValidateBasic_def CastVoteBatch_validateBasic_Inr)
  from assms(2) have "verifyCastVoteBatch (envLib E) C V m s = (Inr (), s)" by simp
  from verifyCastVoteBatch_Inr[OF this ne] obtain root where
    "GetCommitmentRootAtHeight (mv_vote_round_id (hd (mb_votes m))) (mv_anchor_height (hd (mb_votes m))) s =
      (Inr (Some root), s)" by blast
  then show ?thesis using assms(3-5) ne
    by (intro CastVoteBatch_returns[OF assms(1)])
      (auto simp: validateNullifierStep_def CastVoteBatch_GetVoteRoundId_def CastVoteBatch_GetNullifiers_def
        Let_def hd_conv_nth)
qed

lemma checked_combination_executes:
  assumes "kv_wf s" and "DelegateAndCastVoteBatch_ValidateBasic m = Inr ()"
    and "votesOf (DelegateAndCastVoteBatchMsg m) = Inr votes"
    and "\<forall>v \<in> set votes. ValidateProposalId (mv_vote_round_id v) (mv_proposal_id v) s = (Inr (), s)"
    and "validateNullifierStep (DelegateAndCastVoteBatchMsg m) s = (Inr (), s)"
  shows "returns (DelegateAndCastVoteBatch (envLib E) m) s"
proof -
  from assms(2) obtain d b where db: "mdb_delegation m = Some d" "mdb_batch m = Some b"
    "DelegateVote_ValidateBasic d = Inr ()" "CastVoteBatch_validateBasic True b = Inr ()"
    "md_vote_round_id d = CastVoteBatch_GetVoteRoundId b"
    by (auto simp: DelegateAndCastVoteBatch_ValidateBasic_def bindR_Inr_iff split: option.splits)
  have r: "\<forall>v \<in> set (mb_votes b). mv_vote_round_id v = md_vote_round_id d" "length (md_vote_round_id d) = 32"
    using batch_shape[OF db(4)] db(5) by simp_all
  show ?thesis
  proof (rule DelegateAndCast_returns[OF assms(1,2) db(1,2) _ _ _ r(2)])
    show "\<forall>v \<in> set (mb_votes b). ValidateProposalId (md_vote_round_id d) (mv_proposal_id v) s = (Inr (), s)"
      using assms(3,4) db(2) r(1) by simp
    have "thenM (CheckNullifiersUnique NullifierTypeGov (md_vote_round_id d) (md_gov_nullifiers d))
        (CheckNullifiersUnique NullifierTypeVoteAuthorityNote (md_vote_round_id d) (CastVoteBatch_GetNullifiers b)) s =
        (Inr (), s)"
      using assms(5) db(1,2) by (simp add: validateNullifierStep_def)
    then show "CheckNullifiersUnique NullifierTypeGov (md_vote_round_id d) (md_gov_nullifiers d) s = (Inr (), s)"
      "CheckNullifiersUnique NullifierTypeVoteAuthorityNote (md_vote_round_id d) (CastVoteBatch_GetNullifiers b) s = (Inr (), s)"
      by (auto simp: thenM_Inr_iff CheckNullifiersUnique_Inr_iff)
  qed
qed

section \<open>Properties\<close>

text \<open>
  C14. Accepted votes execute. The pipeline does not change the store. A delegation it accepts,
  on first check or recheck, and a combined delegate-and-cast it accepts are executed without
  an error on that store; so are the votes and batches whose proofs it checked. (On a recheck
  the existence of the anchor root is not checked again.)
\<close>

theorem accepted_votes_execute:
  assumes "kv_wf s" and "ValidateVoteTx E C V x c isRecheck msg s = (Inr u, s')"
  shows "s' = s \<and> (case msg of
      DelegateVoteMsg m \<Rightarrow> \<exists>t. DelegateVote m s = (Inr (), t)
    | CastVoteMsg m \<Rightarrow> \<not> isRecheck \<longrightarrow> (\<exists>t. CastVote m s = (Inr (), t))
    | CastVoteBatchMsg m \<Rightarrow> \<not> isRecheck \<longrightarrow> (\<exists>d t. CastVoteBatch (envLib E) m s = (Inr d, t))
    | DelegateAndCastVoteBatchMsg m \<Rightarrow> \<exists>d t. DelegateAndCastVoteBatch (envLib E) m s = (Inr d, t)
    | _ \<Rightarrow> True)"
proof -
  from ValidateVoteTx_Inr[OF assms(2)] obtain votes where h: "s' = s" "VM_ValidateBasic msg = Inr ()"
    "votesOf msg = Inr votes" "\<forall>v \<in> set votes. ValidateProposalId (mv_vote_round_id v) (mv_proposal_id v) s = (Inr (), s)"
    "validateNullifierStep msg s = (Inr (), s)"
    "\<not> isRecheck \<longrightarrow> verifyProofs (envLib E) C V msg s = (Inr (), s)" by blast
  have "case msg of
      DelegateVoteMsg m \<Rightarrow> returns (DelegateVote m) s
    | CastVoteMsg m \<Rightarrow> \<not> isRecheck \<longrightarrow> returns (CastVote m) s
    | CastVoteBatchMsg m \<Rightarrow> \<not> isRecheck \<longrightarrow> returns (CastVoteBatch (envLib E) m) s
    | DelegateAndCastVoteBatchMsg m \<Rightarrow> returns (DelegateAndCastVoteBatch (envLib E) m) s
    | _ \<Rightarrow> True"
  proof (cases msg)
    case (DelegateVoteMsg m)
    with h(2,5) show ?thesis
      by (auto simp: validateNullifierStep_def DelegateVote_ValidateBasic_def RoundIDLen_def bindR_Inr_iff
          CheckNullifiersUnique_Inr_iff Let_def intro!: DelegateVote_returns[OF assms(1)] split: if_splits)
  next
    case (CastVoteMsg m)
    then show ?thesis using h(3-6) checked_vote_executes[OF assms(1), of E C V m] by auto
  next
    case (CastVoteBatchMsg m)
    then show ?thesis using h(2-6) checked_batch_executes[OF assms(1), of E C V m] by auto
  next
    case (DelegateAndCastVoteBatchMsg m)
    then show ?thesis using h(2-5) checked_combination_executes[OF assms(1), of m votes E] by auto
  qed simp_all
  then show ?thesis using h(1) by (auto simp: returns_def split: VoteMessage.splits)
qed

text \<open>Verifiers that accept everything, and a batch of two votes.\<close>

definition acceptAll :: verifiers where
  "acceptAll = \<lparr>SigVerify = (\<lambda>_ _ _. Inr ()), VerifyDelegation = (\<lambda>_ _. Inr ()),
     VerifyVoteCommitment = (\<lambda>_ _. Inr ()), VerifyVoteShare = (\<lambda>_ _. Inr ()),
     SingleLeafRoot = (\<lambda>b. Inr b), ComputeDelegationSighash = (\<lambda>b. Inr b)\<rparr>"

definition anteStore :: vkv where
  "anteStore = [(0x04 # replicate 32 4, VVoteRound (liveRound
       \<lparr>proposals := proposals sampleRound @ map (\<lambda>p. p\<lparr>prop_id := 2\<rparr>) (proposals sampleRound)\<rparr>)),
     (CommitmentRootKey (replicate 32 4) 7, VBytes [9])]"

lemma anteStore_wf: "kv_wf anteStore"
  using entry_ok_tree_bytes(2)[of "replicate 32 4" 7 "VBytes [9]"]
  by (simp add: kv_wf_def kv_ok_def anteStore_def entry_ok_round liveRound_def) (simp add: key_simps)

definition anteBatch :: MsgCastVoteBatch where
  "anteBatch = \<lparr>mb_votes = [(sampleVote [1])\<lparr>mv_r_vpk := enc7 F3\<rparr>,
     (sampleVote [2])\<lparr>mv_r_vpk := enc7 F3, mv_van_nullifier := replicate 32 9, mv_proposal_id := 2\<rparr>]\<rparr>"

lemma anteBatch_run:
  "fst (ValidateVoteTx sampleEnv curve7 acceptAll () sampleCtx False (CastVoteBatchMsg anteBatch) anteStore) = Inr ()"
  by code_simp

theorem accepted_votes_execute_witness:
  "\<exists>d t. CastVoteBatch sampleLib anteBatch anteStore = (Inr d, t)"
proof -
  note run = run_of_fst[of "ValidateVoteTx sampleEnv curve7 acceptAll () sampleCtx False (CastVoteBatchMsg anteBatch)",
      OF anteBatch_run]
  show ?thesis using accepted_votes_execute[OF anteStore_wf run] by (simp add: sampleEnv_def)
qed

lemma forR_Inr_iff': "forR i (\<lambda>_. f) xs = Inr u \<longleftrightarrow> (\<forall>y \<in> set xs. f y = Inr ())"
  by (induction xs arbitrary: i) (auto simp: bindR_Inr_iff)

lemma batchSignatures_Inr:
  "batchSignatures C V digest votes = Inr u \<longleftrightarrow> (\<forall>v \<in> set votes.
     (\<exists>P. UnmarshalPublicKey C (mv_r_vpk v) = Inr P) \<and>
     SigVerify V (mv_r_vpk v) digest (mv_vote_auth_sig v) = Inr ())"
  by (auto simp: batchSignatures_def forR_Inr_iff' bindR_Inr_iff)

text \<open>The root a proof of a batch is checked against.\<close>

fun proofRootAt :: "verifiers \<Rightarrow> bytes \<Rightarrow> MsgCastVote list \<Rightarrow> nat \<Rightarrow> bytes res" where
  "proofRootAt V root votes 0 = Inr root"
| "proofRootAt V root votes (Suc i) = SingleLeafRoot V (mv_vote_authority_note_new (votes ! i))"

lemma batchProofs_Inr:
  assumes "batchProofs V eaPk root votes = Inr u" and "i < length votes"
  shows "\<exists>R. proofRootAt V root votes i = Inr R \<and>
    VerifyVoteCommitment V (mv_proof (votes ! i)) (commitmentInputs (votes ! i) R eaPk) = Inr ()"
  using assms
proof (induction votes arbitrary: root i)
  case Nil
  then show ?case by simp
next
  case (Cons v votes)
  have v: "VerifyVoteCommitment V (mv_proof v) (commitmentInputs v root eaPk) = Inr ()"
    using Cons.prems(1) by (auto simp: bindR_Inr_iff verifyVoteCommitmentProof_def)
  show ?case
  proof (cases i)
    case 0
    then show ?thesis using v by simp
  next
    case (Suc j)
    then have "votes \<noteq> []" using Cons.prems(2) by auto
    with Cons.prems(1) obtain R where R: "SingleLeafRoot V (mv_vote_authority_note_new v) = Inr R"
      "batchProofs V eaPk R votes = Inr u" by (auto simp: bindR_Inr_iff)
    with Cons.IH[OF R(2), of j] Cons.prems(2) Suc show ?thesis by (cases j) auto
  qed
qed

text \<open>
  C15. What the verifiers have accepted for a batch. Every vote of a batch that passes the full
  pipeline is signed, by a key that decodes to a point other than the identity, over the
  digest of the whole batch; the first proof holds against the root the chain stored for the
  batch's anchor height, and each later proof against the single-leaf root of its
  predecessor's new note, so that no vote of the batch can be replaced, dropped or reordered
  alone. All proofs are against the key of the round, which is active.
\<close>

theorem batch_proofs_chained:
  assumes "ValidateVoteTx E C V x c False (CastVoteBatchMsg m) s = (Inr u, s')"
    and "votes = mb_votes m" and "r = CastVoteBatch_GetVoteRoundId m"
  shows "\<exists>rd root. roundOf s r = Some rd \<and> status rd = SESSION_STATUS_ACTIVE \<and>
    rootOf s r (mv_anchor_height (hd votes)) = Some root \<and>
    (\<forall>i < length votes.
      (\<exists>P. UnmarshalPublicKey C (mv_r_vpk (votes ! i)) = Inr P \<and> P \<noteq> 0) \<and>
      SigVerify V (mv_r_vpk (votes ! i)) (ComputeCastVoteBatchSighash (envLib E) m)
        (mv_vote_auth_sig (votes ! i)) = Inr () \<and>
      (\<exists>R. (if i = 0 then R = root
             else SingleLeafRoot V (mv_vote_authority_note_new (votes ! (i - 1))) = Inr R) \<and>
        VerifyVoteCommitment V (mv_proof (votes ! i)) (commitmentInputs (votes ! i) R (ea_pk rd)) = Inr ()))"
proof -
  from ValidateVoteTx_Inr[OF assms(1)] have h: "CastVoteBatch_ValidateBasic m = Inr ()"
    "validateRoundStep E x c (CastVoteBatchMsg m) s = (Inr (), s)"
    "verifyCastVoteBatch (envLib E) C V m s = (Inr (), s)" by auto
  have ne: "votes \<noteq> []" "r = mv_vote_round_id (hd votes)" "length r = 32"
    using batch_shape[OF h(1)[unfolded CastVoteBatch_ValidateBasic_def]] assms(2,3) by simp_all
  from verifyCastVoteBatch_Inr[OF h(3), folded assms(2), folded ne(2), OF ne(1)] obtain root rd where
    v: "batchSignatures C V (ComputeCastVoteBatchSighash (envLib E) m) votes = Inr ()"
    "GetCommitmentRootAtHeight r (mv_anchor_height (hd votes)) s = (Inr (Some root), s)"
    "roundOf s r = Some rd" "batchProofs V (ea_pk rd) root votes = Inr ()" by blast
  have "VM_GetVoteRoundId (CastVoteBatchMsg m) = r" "r \<noteq> []" using assms(3) ne(3) by auto
  then have "status rd = SESSION_STATUS_ACTIVE"
    using validateRoundStep_Inr[OF h(2)] v(3)
    by (auto simp: ValidateRoundForVoting_def succ_iffs GetVoteRound_Inr_iff)
  moreover have "\<exists>R. (if i = 0 then R = root
             else SingleLeafRoot V (mv_vote_authority_note_new (votes ! (i - 1))) = Inr R) \<and>
        VerifyVoteCommitment V (mv_proof (votes ! i)) (commitmentInputs (votes ! i) R (ea_pk rd)) = Inr ()"
    if "i < length votes" for i
    using batchProofs_Inr[OF v(4) that] by (cases i) auto
  ultimately show ?thesis
    using v nth_mem[of _ votes] UnmarshalPublicKey_nonzero
    unfolding batchSignatures_Inr GetCommitmentRootAtHeight_Some_iff by blast
qed

theorem batch_proofs_chained_witness:
  "\<exists>rd root. roundOf anteStore (replicate 32 4) = Some rd \<and>
     VerifyVoteCommitment acceptAll (mv_proof (mb_votes anteBatch ! 0))
       (commitmentInputs (mb_votes anteBatch ! 0) root (ea_pk rd)) = Inr ()"
proof -
  note run = run_of_fst[of "ValidateVoteTx sampleEnv curve7 acceptAll () sampleCtx False (CastVoteBatchMsg anteBatch)",
      OF anteBatch_run]
  have r: "replicate 32 4 = CastVoteBatch_GetVoteRoundId anteBatch"
    by (simp add: CastVoteBatch_GetVoteRoundId_def anteBatch_def sampleVote_def)
  have "0 < length (mb_votes anteBatch)" by (simp add: anteBatch_def)
  with batch_proofs_chained[OF run refl r] show ?thesis by blast
qed

end
