(* ===== verification/Codec.thy ===== *)
theory Codec
  imports Ante
begin

text \<open>
  The wire format of the transactions that do not use the Cosmos envelope,
  \<^verbatim>\<open>src/api/codec.go\<close> and \<^verbatim>\<open>src/api/tx_wrapper.go\<close>, the decoder
  \<^verbatim>\<open>src/app/decode.go\<close> and the ante handler of the application,
  \<^verbatim>\<open>src/app/ante.go\<close>, \<^verbatim>\<open>ante_ceremony.go\<close> and \<^verbatim>\<open>ante_whitelist.go\<close>.

  The protobuf runtime is a parameter: the record \<open>proto\<close> holds its marshal and unmarshal
  functions at the message types of the module and \<open>proto_ok\<close> states that unmarshalling
  inverts marshalling. The standard transaction decoder and the decorators of the Cosmos SDK
  are parameters too. Gas is not modelled (every transaction gets an infinite gas meter), nor
  is the choice of the errors that are reported to the crash reporter.

  The lemmas show the round trip of the codec, that the atomic vote messages have one
  encoding only, and what a transaction the ante handler accepts has been authenticated by.
\<close>

section \<open>Tags\<close>

definition TagDelegateVote :: u8 where "TagDelegateVote = 0x02"
definition TagCastVote :: u8 where "TagCastVote = 0x03"
definition TagRevealShare :: u8 where "TagRevealShare = 0x04"
definition TagSubmitTally :: u8 where "TagSubmitTally = 0x05"
definition TagCastVoteBatch :: u8 where "TagCastVoteBatch = 0x06"
definition TagDelegateAndCastVoteBatch :: u8 where "TagDelegateAndCastVoteBatch = 0x07"
definition TagAckExecutiveAuthorityKey :: u8 where "TagAckExecutiveAuthorityKey = 0x08"
definition TagContributeDKG :: u8 where "TagContributeDKG = 0x0E"
definition TagSubmitPartialDecryption :: u8 where "TagSubmitPartialDecryption = 0x0D"

lemmas tag_defs = TagDelegateVote_def TagCastVote_def TagRevealShare_def TagSubmitTally_def
  TagCastVoteBatch_def TagDelegateAndCastVoteBatch_def TagAckExecutiveAuthorityKey_def
  TagContributeDKG_def TagSubmitPartialDecryption_def

definition IsVoteTag :: "u8 \<Rightarrow> bool" where
  "IsVoteTag b \<longleftrightarrow> b \<ge> TagDelegateVote \<and> b \<le> TagDelegateAndCastVoteBatch"

definition IsCeremonyTag :: "u8 \<Rightarrow> bool" where
  "IsCeremonyTag b \<longleftrightarrow> b = TagContributeDKG \<or> b = TagAckExecutiveAuthorityKey \<or>
     b = TagSubmitPartialDecryption"

definition IsCustomTag :: "u8 \<Rightarrow> bool" where
  "IsCustomTag b \<longleftrightarrow> IsVoteTag b \<or> IsCeremonyTag b"

fun TagForMessage :: "VoteMessage \<Rightarrow> u8 res" where
  "TagForMessage (DelegateVoteMsg m) = Inr TagDelegateVote"
| "TagForMessage (CastVoteMsg m) = Inr TagCastVote"
| "TagForMessage (CastVoteBatchMsg m) = Inr TagCastVoteBatch"
| "TagForMessage (DelegateAndCastVoteBatchMsg m) = Inr TagDelegateAndCastVoteBatch"
| "TagForMessage (RevealShareMsg m) = Inr TagRevealShare"
| "TagForMessage (SubmitTallyMsg m) = Inr TagSubmitTally"
| "TagForMessage (CreateVotingSessionMsg m) = Inl ErrOther"

section \<open>Protobuf\<close>

text \<open>The messages a proposer injects under a ceremony tag.\<close>

datatype CeremonyMessage =
    ContributeDKGMsg MsgContributeDKG
  | AckMsg MsgAckExecutiveAuthorityKey
  | SubmitPartialDecryptionMsg MsgSubmitPartialDecryption

text \<open>
  What reflection shows of an unmarshalled message: the bytes of its unknown fields, and its
  populated fields, of which only those that hold messages matter here.
\<close>

datatype ProtoMessage = ProtoMessage bytes "ProtoField list"
  and ProtoField = ListField "ProtoMessage list" | MapField "ProtoMessage list"
    | MessageField ProtoMessage | ScalarField

fun rejectUnknownProtoFields :: "ProtoMessage \<Rightarrow> unit res"
  and rejectFields :: "ProtoField list \<Rightarrow> unit res"
  and rejectField :: "ProtoField \<Rightarrow> unit res"
  and rejectAll :: "ProtoMessage list \<Rightarrow> unit res" where
  "rejectUnknownProtoFields (ProtoMessage unknown fs) =
     failIfR (length unknown > 0) ErrOther (rejectFields fs)"
| "rejectFields [] = Inr ()"
| "rejectFields (f # fs) = bindR (rejectField f) (\<lambda>_. rejectFields fs)"
| "rejectField (ListField ms) = rejectAll ms"
| "rejectField (MapField ms) = rejectAll ms"
| "rejectField (MessageField m) = rejectUnknownProtoFields m"
| "rejectField ScalarField = Inr ()"
| "rejectAll [] = Inr ()"
| "rejectAll (m # ms) = bindR (rejectUnknownProtoFields m) (\<lambda>_. rejectAll ms)"

text \<open>
  The runtime at the module's types. Marshalling is deterministic, so it is a function; an
  unmarshalled message comes with its reflection.
\<close>

record proto =
  marshalVote :: "VoteMessage \<Rightarrow> bytes res"
  marshalCeremony :: "CeremonyMessage \<Rightarrow> bytes res"
  unmarshalDelegateVote :: "bytes \<Rightarrow> (MsgDelegateVote \<times> ProtoMessage) res"
  unmarshalCastVote :: "bytes \<Rightarrow> (MsgCastVote \<times> ProtoMessage) res"
  unmarshalCastVoteBatch :: "bytes \<Rightarrow> (MsgCastVoteBatch \<times> ProtoMessage) res"
  unmarshalDelegateAndCastVoteBatch :: "bytes \<Rightarrow> (MsgDelegateAndCastVoteBatch \<times> ProtoMessage) res"
  unmarshalRevealShare :: "bytes \<Rightarrow> (MsgRevealShare \<times> ProtoMessage) res"
  unmarshalSubmitTally :: "bytes \<Rightarrow> (MsgSubmitTally \<times> ProtoMessage) res"
  unmarshalContributeDKG :: "bytes \<Rightarrow> MsgContributeDKG res"
  unmarshalAck :: "bytes \<Rightarrow> MsgAckExecutiveAuthorityKey res"
  unmarshalSubmitPartialDecryption :: "bytes \<Rightarrow> MsgSubmitPartialDecryption res"

definition asVote :: "('a \<Rightarrow> VoteMessage) \<Rightarrow> ('a \<times> ProtoMessage) res \<Rightarrow> (VoteMessage \<times> ProtoMessage) res" where
  "asVote f r = bindR r (\<lambda>(m, reflection). Inr (f m, reflection))"

text \<open>The switch of \<^verbatim>\<open>DecodeVoteTx\<close> over the tag, with the unmarshalling it selects.\<close>

definition unmarshalVote :: "proto \<Rightarrow> u8 \<Rightarrow> bytes \<Rightarrow> (VoteMessage \<times> ProtoMessage) res" where
  "unmarshalVote P tag body =
     (if tag = TagDelegateVote then asVote DelegateVoteMsg (unmarshalDelegateVote P body)
      else if tag = TagCastVote then asVote CastVoteMsg (unmarshalCastVote P body)
      else if tag = TagCastVoteBatch then asVote CastVoteBatchMsg (unmarshalCastVoteBatch P body)
      else if tag = TagDelegateAndCastVoteBatch then
        asVote DelegateAndCastVoteBatchMsg (unmarshalDelegateAndCastVoteBatch P body)
      else if tag = TagRevealShare then asVote RevealShareMsg (unmarshalRevealShare P body)
      else if tag = TagSubmitTally then asVote SubmitTallyMsg (unmarshalSubmitTally P body)
      else Inl ErrOther)"

definition unmarshalCeremony :: "proto \<Rightarrow> u8 \<Rightarrow> bytes \<Rightarrow> CeremonyMessage res" where
  "unmarshalCeremony P tag body =
     (if tag = TagContributeDKG then
        bindR (unmarshalContributeDKG P body) (\<lambda>m. Inr (ContributeDKGMsg m))
      else if tag = TagAckExecutiveAuthorityKey then
        bindR (unmarshalAck P body) (\<lambda>m. Inr (AckMsg m))
      else if tag = TagSubmitPartialDecryption then
        bindR (unmarshalSubmitPartialDecryption P body) (\<lambda>m. Inr (SubmitPartialDecryptionMsg m))
      else Inl ErrOther)"

section \<open>Encoding and decoding\<close>

definition EncodeVoteTx :: "proto \<Rightarrow> VoteMessage \<Rightarrow> bytes res" where
  "EncodeVoteTx P msg =
     bindR (TagForMessage msg) (\<lambda>tag.
     bindR (wrapErr ErrOther (marshalVote P msg)) (\<lambda>body.
     Inr (tag # body)))"

definition DecodeVoteTx :: "proto \<Rightarrow> bytes \<Rightarrow> (u8 \<times> VoteMessage) res" where
  "DecodeVoteTx P raw =
     failIfR (length raw < 2) ErrOther (
     let tag = hd raw; body = tl raw in
     bindR (wrapErr ErrOther (unmarshalVote P tag body)) (\<lambda>(msg, reflection).
     if tag = TagCastVoteBatch \<or> tag = TagDelegateAndCastVoteBatch then
       bindR (rejectUnknownProtoFields reflection) (\<lambda>_.
       bindR (wrapErr ErrOther (marshalVote P msg)) (\<lambda>canonical.
       failIfR (body \<noteq> canonical) ErrOther (
       Inr (tag, msg))))
     else Inr (tag, msg)))"

definition EncodeCeremonyTx :: "proto \<Rightarrow> CeremonyMessage \<Rightarrow> u8 \<Rightarrow> bytes res" where
  "EncodeCeremonyTx P msg tag =
     failIfR (\<not> IsCeremonyTag tag) ErrOther (
     bindR (wrapErr ErrOther (marshalCeremony P msg)) (\<lambda>body.
     Inr (tag # body)))"

definition DecodeCeremonyTx :: "proto \<Rightarrow> bytes \<Rightarrow> (u8 \<times> CeremonyMessage) res" where
  "DecodeCeremonyTx P raw =
     failIfR (length raw < 2) ErrOther (
     let tag = hd raw; body = tl raw in
     bindR (wrapErr ErrOther (unmarshalCeremony P tag body)) (\<lambda>msg.
     Inr (tag, msg)))"

section \<open>Transactions\<close>

record VoteTxWrapper =
  RawBytes :: bytes
  Tag :: u8
  VoteMsg :: "VoteMessage option"
  CeremonyMsg :: "CeremonyMessage option"

text \<open>
  An \<^verbatim>\<open>sdk.Msg\<close>, as far as the ante handler tells them apart; every other message is
  known by its type URL.
\<close>

datatype SdkMsg =
    VoteSdkMsg VoteMessage
  | CeremonySdkMsg CeremonyMessage
  | RegisterPallasKeySdkMsg MsgRegisterPallasKey
  | RotatePallasKeySdkMsg MsgRotatePallasKey
  | StakingCreateValidatorSdkMsg StakingMsg
  | OtherSdkMsg gostring

text \<open>A transaction in the Cosmos envelope: its messages, and what the SDK reads besides.\<close>

record StdTx =
  std_msgs :: "SdkMsg list"
  std_rest :: bytes

datatype Tx = VoteTx VoteTxWrapper | StandardTx StdTx

definition WrapperGetMsgs :: "VoteTxWrapper \<Rightarrow> SdkMsg list res" where
  "WrapperGetMsgs vtx =
     (case CeremonyMsg vtx of
        Some m \<Rightarrow> Inr [CeremonySdkMsg m]
      | None \<Rightarrow> (case VoteMsg vtx of None \<Rightarrow> Inl GoPanic | Some m \<Rightarrow> Inr [VoteSdkMsg m]))"

fun GetMsgs :: "Tx \<Rightarrow> SdkMsg list res" where
  "GetMsgs (VoteTx vtx) = WrapperGetMsgs vtx"
| "GetMsgs (StandardTx tx) = Inr (std_msgs tx)"

definition CustomTxDecoder :: "proto \<Rightarrow> (bytes \<Rightarrow> StdTx res) \<Rightarrow> bytes \<Rightarrow> Tx res" where
  "CustomTxDecoder P standardDecoder txBytes =
     (if length txBytes > 1 \<and> IsCustomTag (hd txBytes) then
        if IsCeremonyTag (hd txBytes) then
          bindR (DecodeCeremonyTx P txBytes) (\<lambda>(tag, ceremonyMsg).
          Inr (VoteTx \<lparr>RawBytes = txBytes, Tag = tag, VoteMsg = None, CeremonyMsg = Some ceremonyMsg\<rparr>))
        else
          bindR (DecodeVoteTx P txBytes) (\<lambda>(tag, voteMsg).
          Inr (VoteTx \<lparr>RawBytes = txBytes, Tag = tag, VoteMsg = Some voteMsg, CeremonyMsg = None\<rparr>))
      else bindR (standardDecoder txBytes) (\<lambda>tx. Inr (StandardTx tx)))"

section \<open>The ante handler\<close>

type_synonym ('x, 'h) AnteHandler = "ctx \<Rightarrow> Tx \<Rightarrow> bool \<Rightarrow> (('x, 'h) world, ctx) M"
type_synonym ('x, 'h) AnteDecorator = "ctx \<Rightarrow> Tx \<Rightarrow> bool \<Rightarrow> ('x, 'h) AnteHandler \<Rightarrow> (('x, 'h) world, ctx) M"

fun VoteMessageName :: "VoteMessage \<Rightarrow> string" where
  "VoteMessageName (CreateVotingSessionMsg m) = ''MsgCreateVotingSession''"
| "VoteMessageName (DelegateVoteMsg m) = ''MsgDelegateVote''"
| "VoteMessageName (CastVoteMsg m) = ''MsgCastVote''"
| "VoteMessageName (CastVoteBatchMsg m) = ''MsgCastVoteBatch''"
| "VoteMessageName (DelegateAndCastVoteBatchMsg m) = ''MsgDelegateAndCastVoteBatch''"
| "VoteMessageName (RevealShareMsg m) = ''MsgRevealShare''"
| "VoteMessageName (SubmitTallyMsg m) = ''MsgSubmitTally''"

fun CeremonyMessageName :: "CeremonyMessage \<Rightarrow> string" where
  "CeremonyMessageName (ContributeDKGMsg m) = ''MsgContributeDKG''"
| "CeremonyMessageName (AckMsg m) = ''MsgAckExecutiveAuthorityKey''"
| "CeremonyMessageName (SubmitPartialDecryptionMsg m) = ''MsgSubmitPartialDecryption''"

text \<open>\<^verbatim>\<open>sdk.MsgTypeURL\<close>: a slash and the full name of the message.\<close>

fun MsgTypeURL :: "SdkMsg \<Rightarrow> gostring" where
  "MsgTypeURL (VoteSdkMsg m) = str (''/svote.v1.'' @ VoteMessageName m)"
| "MsgTypeURL (CeremonySdkMsg m) = str (''/svote.v1.'' @ CeremonyMessageName m)"
| "MsgTypeURL (RegisterPallasKeySdkMsg m) = str ''/svote.v1.MsgRegisterPallasKey''"
| "MsgTypeURL (RotatePallasKeySdkMsg m) = str ''/svote.v1.MsgRotatePallasKey''"
| "MsgTypeURL (StakingCreateValidatorSdkMsg m) = str ''/cosmos.staking.v1beta1.MsgCreateValidator''"
| "MsgTypeURL (OtherSdkMsg url) = url"

definition DefaultAllowedMessages :: "gostring list" where
  "DefaultAllowedMessages = map str
     [''/svote.v1.MsgProposeCoordinatorAction'', ''/svote.v1.MsgApproveCoordinatorAction'',
      ''/svote.v1.MsgRegisterPallasKey'', ''/svote.v1.MsgRotatePallasKey'',
      ''/svote.v1.MsgCreateValidatorWithPallasKey'', ''/svote.v1.MsgEndorseRound'',
      ''/svote.v1.MsgClearRoundEndorsement'',
      ''/cosmos.staking.v1beta1.MsgCreateValidator'', ''/cosmos.staking.v1beta1.MsgEditValidator'',
      ''/cosmos.slashing.v1beta1.MsgUnjail'']"

definition MessageWhitelistAnteHandle :: "gostring list \<Rightarrow> ('x, 'h) AnteDecorator" where
  "MessageWhitelistAnteHandle allowed c tx simulate nextHandler =
     bindM (liftR (GetMsgs tx)) (\<lambda>msgs.
     thenM (forM msgs (\<lambda>msg. failIf (MsgTypeURL msg \<notin> set allowed) ErrOther (returnM ()))) (
     nextHandler c tx simulate))"

fun ceremonyValidatorRequired :: "SdkMsg \<Rightarrow> gostring option" where
  "ceremonyValidatorRequired (RegisterPallasKeySdkMsg m) = Some (mrp_creator m)"
| "ceremonyValidatorRequired (RotatePallasKeySdkMsg m) = Some (mro_creator m)"
| "ceremonyValidatorRequired (CeremonySdkMsg (ContributeDKGMsg m)) = Some (mdk_creator m)"
| "ceremonyValidatorRequired _ = None"

text \<open>The operator address a creator stands for: given as such, or as an account address.\<close>

definition creatorValAddr :: "lib \<Rightarrow> gostring \<Rightarrow> bytes option" where
  "creatorValAddr L creatorAddr =
     (case ValAddressFromBech32 L creatorAddr of
        Some a \<Rightarrow> Some a
      | None \<Rightarrow> AccAddressFromBech32 L creatorAddr)"

text \<open>The gate for one message.\<close>

definition requireValidator :: "('x, 'h) env \<Rightarrow> SdkMsg \<Rightarrow> (('x, 'h) world, unit) M" where
  "requireValidator E msg =
     (case ceremonyValidatorRequired msg of
        None \<Rightarrow> returnM ()
      | Some creatorAddr \<Rightarrow>
          (case creatorValAddr (envLib E) creatorAddr of
             None \<Rightarrow> throwM ErrOther
           | Some valAddr \<Rightarrow>
               bindM (getM w_ext) (\<lambda>x.
               bindM (liftR (IsValidator E x (ValAddressString (envLib E) valAddr))) (\<lambda>ok.
               failIf (\<not> ok) ErrOther (returnM ())))))"

definition CeremonyValidatorAnteHandle :: "('x, 'h) env \<Rightarrow> ('x, 'h) AnteDecorator" where
  "CeremonyValidatorAnteHandle E c tx simulate nextHandler =
     bindM (liftR (GetMsgs tx)) (\<lambda>msgs.
     thenM (forM msgs (requireValidator E)) (
     nextHandler c tx simulate))"

text \<open>The infinite gas meter is the only thing this decorator sets, so it passes on.\<close>

definition CeremonyFeeExemptAnteHandle :: "('x, 'h) AnteDecorator" where
  "CeremonyFeeExemptAnteHandle c tx simulate nextHandler = nextHandler c tx simulate"

text \<open>\<^verbatim>\<open>sdk.ChainAnteDecorators\<close>: each decorator is given the rest of the chain.\<close>

fun ChainAnteDecorators :: "('x, 'h) AnteDecorator list \<Rightarrow> ('x, 'h) AnteHandler" where
  "ChainAnteDecorators [] c tx simulate = returnM c"
| "ChainAnteDecorators (d # ds) c tx simulate = d c tx simulate (ChainAnteDecorators ds)"

text \<open>
  The chain for standard transactions. The decorators of the SDK are parameters:
  \<open>setUp\<close> the first one, \<open>sdkChain\<close> those between the whitelist and the validator gate.
\<close>

definition buildStandardAnteHandler ::
  "('x, 'h) env \<Rightarrow> ('x, 'h) AnteDecorator \<Rightarrow> ('x, 'h) AnteDecorator list \<Rightarrow> ('x, 'h) AnteHandler" where
  "buildStandardAnteHandler E setUp sdkChain = ChainAnteDecorators
     ([setUp, CeremonyFeeExemptAnteHandle, MessageWhitelistAnteHandle DefaultAllowedMessages] @
      sdkChain @ [CeremonyValidatorAnteHandle E])"

fun isVoteModuleMsg :: "SdkMsg \<Rightarrow> bool" where
  "isVoteModuleMsg (VoteSdkMsg (CreateVotingSessionMsg m)) = False"
| "isVoteModuleMsg (VoteSdkMsg _) = True"
| "isVoteModuleMsg (CeremonySdkMsg _) = True"
| "isVoteModuleMsg _ = False"

definition ceremonyCreator :: "u8 \<Rightarrow> CeremonyMessage \<Rightarrow> gostring res" where
  "ceremonyCreator tag msg =
     (if tag = TagContributeDKG then
        (case msg of ContributeDKGMsg m \<Rightarrow> Inr (mdk_creator m) | _ \<Rightarrow> Inl GoPanic)
      else if tag = TagAckExecutiveAuthorityKey then
        (case msg of AckMsg m \<Rightarrow> Inr (ma_creator m) | _ \<Rightarrow> Inl GoPanic)
      else if tag = TagSubmitPartialDecryption then
        (case msg of SubmitPartialDecryptionMsg m \<Rightarrow> Inr (mp_creator m) | _ \<Rightarrow> Inl GoPanic)
      else Inl ErrOther)"

definition handleVoteAnte ::
  "('x, 'h) env \<Rightarrow> ('s, 'p::ab_group_add) curve \<Rightarrow> verifiers \<Rightarrow> ctx \<Rightarrow> VoteTxWrapper \<Rightarrow>
   (('x, 'h) world, ctx) M" where
  "handleVoteAnte E C V c vtx =
     bindM (getM w_ext) (\<lambda>x.
     (case CeremonyMsg vtx of
        Some msg \<Rightarrow>
          bindM (liftR (ceremonyCreator (Tag vtx) msg)) (\<lambda>creatorAddr.
          bindM (liftR (ValidateProposerIsCreator E x c creatorAddr)) (\<lambda>_.
          returnM c))
      | None \<Rightarrow>
          (case VoteMsg vtx of
             None \<Rightarrow> throwM GoPanic
           | Some msg \<Rightarrow>
               thenM (kvM (ValidateVoteTx E C V x c (is_recheck_tx c) msg)) (returnM c))))"

fun isStakingCreateValidator :: "SdkMsg \<Rightarrow> bool" where
  "isStakingCreateValidator (StakingCreateValidatorSdkMsg m) = True"
| "isStakingCreateValidator _ = False"

definition NewDualAnteHandler ::
  "('x, 'h) env \<Rightarrow> ('s, 'p::ab_group_add) curve \<Rightarrow> verifiers \<Rightarrow> ('x, 'h) AnteDecorator \<Rightarrow>
   ('x, 'h) AnteDecorator list \<Rightarrow> ('x, 'h) AnteHandler" where
  "NewDualAnteHandler E C V setUp sdkChain c tx simulate =
     (case tx of
        VoteTx vtx \<Rightarrow> handleVoteAnte E C V c vtx
      | StandardTx stx \<Rightarrow>
          failIf (length (std_msgs stx) > 1) ErrOther (
          thenM (forM (std_msgs stx) (\<lambda>msg.
            failIf (isVoteModuleMsg msg) ErrOther (
            failIf (isStakingCreateValidator msg \<and> block_height c > 0) ErrOther (
            returnM ())))) (
          buildStandardAnteHandler E setUp sdkChain c tx simulate)))"

section \<open>Round trips\<close>

fun ceremonyTag :: "CeremonyMessage \<Rightarrow> u8" where
  "ceremonyTag (ContributeDKGMsg m) = TagContributeDKG"
| "ceremonyTag (AckMsg m) = TagAckExecutiveAuthorityKey"
| "ceremonyTag (SubmitPartialDecryptionMsg m) = TagSubmitPartialDecryption"

text \<open>
  What the codec relies on: unmarshalling what was marshalled gives the message back, with no
  unknown fields.
\<close>

definition proto_ok :: "proto \<Rightarrow> bool" where
  "proto_ok P \<longleftrightarrow>
     (\<forall>m tag b. TagForMessage m = Inr tag \<longrightarrow> marshalVote P m = Inr b \<longrightarrow>
       (\<exists>reflection. unmarshalVote P tag b = Inr (m, reflection) \<and>
         rejectUnknownProtoFields reflection = Inr ())) \<and>
     (\<forall>m b. marshalCeremony P m = Inr b \<longrightarrow> unmarshalCeremony P (ceremonyTag m) b = Inr m)"

lemma asVote_Inr: "asVote f r = Inr (v, q) \<longleftrightarrow> (\<exists>m. r = Inr (m, q) \<and> v = f m)"
  by (cases r) (auto simp: asVote_def)

lemma unmarshalVote_tag: "unmarshalVote P tag b = Inr (m, q) \<Longrightarrow> TagForMessage m = Inr tag"
  by (auto simp: unmarshalVote_def asVote_Inr split: if_splits)

lemma unmarshalCeremony_tag: "unmarshalCeremony P tag b = Inr m \<Longrightarrow> tag = ceremonyTag m"
  by (auto simp: unmarshalCeremony_def bindR_Inr_iff split: if_splits)

lemma DecodeVoteTx_Inr:
  assumes "DecodeVoteTx P raw = Inr (tag, m)"
  shows "2 \<le> length raw \<and> tag = hd raw \<and> TagForMessage m = Inr tag \<and>
    (\<exists>q. unmarshalVote P tag (tl raw) = Inr (m, q)) \<and>
    (tag = TagCastVoteBatch \<or> tag = TagDelegateAndCastVoteBatch \<longrightarrow> marshalVote P m = Inr (tl raw))"
proof -
  from assms obtain m' q where u: "unmarshalVote P (hd raw) (tl raw) = Inr (m', q)" "m' = m" "tag = hd raw"
    by (auto simp: DecodeVoteTx_def Let_def bindR_Inr_iff split: if_splits)
  show ?thesis using assms u unmarshalVote_tag[OF u(1)]
    by (auto simp: DecodeVoteTx_def Let_def bindR_Inr_iff)
qed

lemma DecodeCeremonyTx_Inr:
  "DecodeCeremonyTx P raw = Inr (tag, m) \<longleftrightarrow>
     2 \<le> length raw \<and> tag = hd raw \<and> unmarshalCeremony P tag (tl raw) = Inr m"
  by (auto simp: DecodeCeremonyTx_def Let_def bindR_Inr_iff)

lemma vote_tags:
  "TagForMessage m = Inr tag \<Longrightarrow> IsVoteTag tag \<and> IsCustomTag tag \<and> \<not> IsCeremonyTag tag"
  by (cases m) (auto simp: IsVoteTag_def IsCeremonyTag_def IsCustomTag_def tag_defs)

lemma ceremony_tags: "IsCeremonyTag (ceremonyTag m)" "IsCustomTag (ceremonyTag m)"
  by (cases m; simp add: IsCeremonyTag_def IsCustomTag_def)+

lemma DecodeVoteTx_Encode:
  assumes "proto_ok P" and "EncodeVoteTx P m = Inr raw" and "2 \<le> length raw"
  shows "DecodeVoteTx P raw = Inr (hd raw, m)"
proof -
  from assms(2) obtain tag b where t: "TagForMessage m = Inr tag" "marshalVote P m = Inr b" "raw = tag # b"
    by (auto simp: EncodeVoteTx_def bindR_Inr_iff)
  from assms(1) t obtain q where "unmarshalVote P tag b = Inr (m, q)" "rejectUnknownProtoFields q = Inr ()"
    unfolding proto_ok_def by blast
  then show ?thesis using assms(3) t by (auto simp: DecodeVoteTx_def wrapErr_def)
qed

lemma DecodeCeremonyTx_Encode:
  assumes "proto_ok P" and "EncodeCeremonyTx P m (ceremonyTag m) = Inr raw" and "2 \<le> length raw"
  shows "DecodeCeremonyTx P raw = Inr (hd raw, m)"
  using assms by (auto simp: EncodeCeremonyTx_def bindR_Inr_iff proto_ok_def DecodeCeremonyTx_Inr)

text \<open>An atomic vote message decodes from its canonical encoding only.\<close>

lemma DecodeVoteTx_canonical:
  assumes "DecodeVoteTx P raw = Inr (tag, m)"
    and "tag = TagCastVoteBatch \<or> tag = TagDelegateAndCastVoteBatch"
  shows "EncodeVoteTx P m = Inr raw"
  using DecodeVoteTx_Inr[OF assms(1)] assms(2) by (cases raw) (auto simp: EncodeVoteTx_def wrapErr_def)

text \<open>
  C12. The wire format. What \<^verbatim>\<open>EncodeVoteTx\<close> writes (the marshalled message not being empty)
  is decoded to the same message by \<^verbatim>\<open>DecodeVoteTx\<close> and by the application's decoder,
  which never takes it for a ceremony transaction or a standard one. The two atomic messages
  cannot be altered: any bytes that decode to such a message are its encoding.
\<close>

theorem codec_roundtrip:
  assumes "proto_ok P" and "EncodeVoteTx P m = Inr raw" and "2 \<le> length raw"
  shows "DecodeVoteTx P raw = Inr (hd raw, m) \<and> \<not> IsCeremonyTag (hd raw) \<and>
    CustomTxDecoder P std raw =
      Inr (VoteTx \<lparr>RawBytes = raw, Tag = hd raw, VoteMsg = Some m, CeremonyMsg = None\<rparr>) \<and>
    (hd raw = TagCastVoteBatch \<or> hd raw = TagDelegateAndCastVoteBatch \<longrightarrow>
      (\<forall>raw' tag'. DecodeVoteTx P raw' = Inr (tag', m) \<longrightarrow> raw' = raw))"
proof -
  note d = DecodeVoteTx_Encode[OF assms]
  note inv = DecodeVoteTx_Inr[OF d]
  note tags = vote_tags[of m "hd raw"]
  have "raw' = raw" if "DecodeVoteTx P raw' = Inr (tag', m)"
    "hd raw = TagCastVoteBatch \<or> hd raw = TagDelegateAndCastVoteBatch" for raw' tag'
  proof -
    have "tag' = hd raw" using DecodeVoteTx_Inr[OF that(1)] inv by simp
    then show ?thesis using DecodeVoteTx_canonical[OF that(1)] that(2) assms(2) by simp
  qed
  then show ?thesis using d inv tags by (auto simp: CustomTxDecoder_def)
qed

text \<open>A runtime for the witnesses: tally messages with no entries, written as their round id.\<close>

definition sampleProto :: proto where
  "sampleProto = \<lparr>
     marshalVote = (\<lambda>m. case m of SubmitTallyMsg t \<Rightarrow>
         if mt_creator t = [] \<and> mt_entries t = [] then Inr (mt_vote_round_id t) else Inl ErrOther
       | _ \<Rightarrow> Inl ErrOther),
     marshalCeremony = (\<lambda>m. Inl ErrOther),
     unmarshalDelegateVote = (\<lambda>b. Inl ErrOther), unmarshalCastVote = (\<lambda>b. Inl ErrOther),
     unmarshalCastVoteBatch = (\<lambda>b. Inl ErrOther),
     unmarshalDelegateAndCastVoteBatch = (\<lambda>b. Inl ErrOther),
     unmarshalRevealShare = (\<lambda>b. Inl ErrOther),
     unmarshalSubmitTally = (\<lambda>b. Inr (\<lparr>mt_vote_round_id = b, mt_creator = [], mt_entries = []\<rparr>, ProtoMessage [] [])),
     unmarshalContributeDKG = (\<lambda>b. Inl ErrOther), unmarshalAck = (\<lambda>b. Inl ErrOther),
     unmarshalSubmitPartialDecryption = (\<lambda>b. Inl ErrOther)\<rparr>"

lemma sampleProto_ok: "proto_ok sampleProto"
  by (auto simp: proto_ok_def sampleProto_def unmarshalVote_def asVote_def tag_defs split: VoteMessage.splits if_splits)

theorem codec_roundtrip_witness:
  "DecodeVoteTx sampleProto [5, 1] = Inr (5, SubmitTallyMsg \<lparr>mt_vote_round_id = [1], mt_creator = [], mt_entries = []\<rparr>)"
proof -
  have "EncodeVoteTx sampleProto (SubmitTallyMsg \<lparr>mt_vote_round_id = [1], mt_creator = [], mt_entries = []\<rparr>) = Inr [5, 1]"
    by (simp add: EncodeVoteTx_def sampleProto_def wrapErr_def tag_defs)
  from codec_roundtrip[OF sampleProto_ok this] show ?thesis by simp
qed

section \<open>What the ante handler accepts\<close>

text \<open>
  What the handler relies on of a decorator of the SDK: it succeeds only by returning what
  the rest of the chain, called on the same transaction, returned.
\<close>

definition passes_on :: "('x, 'h) AnteDecorator \<Rightarrow> bool" where
  "passes_on d \<longleftrightarrow> (\<forall>c tx simulate k w c' w'. d c tx simulate k w = (Inr c', w') \<longrightarrow>
     (\<exists>c1 w1. k c1 tx simulate w1 = (Inr c', w')))"

lemma chain_passes_on:
  assumes "\<forall>d \<in> set ds. passes_on d" and "ChainAnteDecorators (ds @ es) c tx simulate w = (Inr c', w')"
  shows "\<exists>c1 w1. ChainAnteDecorators es c1 tx simulate w1 = (Inr c', w')"
  using assms
proof (induction ds arbitrary: c w)
  case Nil
  then show ?case by auto
next
  case (Cons d ds)
  have "passes_on d" using Cons.prems(1) by simp
  moreover have "d c tx simulate (ChainAnteDecorators (ds @ es)) w = (Inr c', w')"
    using Cons.prems(2) by simp
  ultimately obtain c1 w1 where "ChainAnteDecorators (ds @ es) c1 tx simulate w1 = (Inr c', w')"
    unfolding passes_on_def by blast
  with Cons.IH Cons.prems(1) show ?case by simp
qed

lemma forM_guard_Inr:
  "forM ms (\<lambda>m. failIf (bad m) e (returnM ())) w = (Inr u, w') \<longleftrightarrow> w' = w \<and> (\<forall>m \<in> set ms. \<not> bad m)"
  by (induction ms arbitrary: w) (auto simp: succ_iffs)

lemma Whitelist_Inr:
  assumes "MessageWhitelistAnteHandle allowed c tx simulate k w = (Inr c', w')"
  shows "\<exists>msgs. GetMsgs tx = Inr msgs \<and> (\<forall>m \<in> set msgs. MsgTypeURL m \<in> set allowed) \<and>
    k c tx simulate w = (Inr c', w')"
  using assms by (auto simp: MessageWhitelistAnteHandle_def succ_iffs forM_guard_Inr)

definition bondedCreator :: "('x, 'h) env \<Rightarrow> 'x \<Rightarrow> gostring \<Rightarrow> bool" where
  "bondedCreator E x a \<longleftrightarrow> (\<exists>b. creatorValAddr (envLib E) a = Some b \<and>
     IsValidator E x (ValAddressString (envLib E) b) = Inr True)"

lemma requireValidator_Inr:
  "requireValidator E m w = (Inr u, w') \<longleftrightarrow> w' = w \<and>
     (\<forall>a. ceremonyValidatorRequired m = Some a \<longrightarrow> bondedCreator E (w_ext w) a)"
  by (auto simp: requireValidator_def bondedCreator_def succ_iffs split: option.splits)

lemma CeremonyValidator_Inr:
  assumes "CeremonyValidatorAnteHandle E c tx simulate k w = (Inr c', w')" and "GetMsgs tx = Inr msgs"
  shows "\<forall>m \<in> set msgs. \<forall>a. ceremonyValidatorRequired m = Some a \<longrightarrow> bondedCreator E (w_ext w) a"
proof -
  from assms obtain w1 where "forM msgs (requireValidator E) w = (Inr (), w1)"
    by (auto simp: CeremonyValidatorAnteHandle_def succ_iffs)
  from forM_state_Inr[OF _ this] show ?thesis by (simp add: requireValidator_Inr)
qed

lemma standard_chain_Inr:
  assumes "passes_on setUp" and "\<forall>d \<in> set sdkChain. passes_on d"
    and "buildStandardAnteHandler E setUp sdkChain c tx simulate w = (Inr c', w')"
  shows "\<exists>msgs x. GetMsgs tx = Inr msgs \<and>
    (\<forall>m \<in> set msgs. MsgTypeURL m \<in> set DefaultAllowedMessages \<and>
      (\<forall>a. ceremonyValidatorRequired m = Some a \<longrightarrow> bondedCreator E x a))"
proof -
  let ?rest = "ChainAnteDecorators (sdkChain @ [CeremonyValidatorAnteHandle E])"
  let ?white = "MessageWhitelistAnteHandle DefaultAllowedMessages :: ('a, 'b) AnteDecorator"
  have "ChainAnteDecorators ([setUp, CeremonyFeeExemptAnteHandle] @ ?white # sdkChain @ [CeremonyValidatorAnteHandle E])
      c tx simulate w = (Inr c', w')" using assms(3) by (simp add: buildStandardAnteHandler_def)
  moreover have "passes_on CeremonyFeeExemptAnteHandle"
    by (auto simp: passes_on_def CeremonyFeeExemptAnteHandle_def)
  ultimately obtain c1 w1 where
    "ChainAnteDecorators (?white # sdkChain @ [CeremonyValidatorAnteHandle E]) c1 tx simulate w1 = (Inr c', w')"
    using chain_passes_on[of "[setUp, CeremonyFeeExemptAnteHandle]"] assms(1) by fastforce
  then have "?white c1 tx simulate ?rest w1 = (Inr c', w')" by simp
  from Whitelist_Inr[OF this] obtain msgs where g: "GetMsgs tx = Inr msgs"
    "\<forall>m \<in> set msgs. MsgTypeURL m \<in> set DefaultAllowedMessages" "?rest c1 tx simulate w1 = (Inr c', w')" by blast
  from chain_passes_on[OF assms(2) g(3)] obtain c2 w2 where
    "CeremonyValidatorAnteHandle E c2 tx simulate (ChainAnteDecorators []) w2 = (Inr c', w')" by auto
  from CeremonyValidator_Inr[OF this g(1)] show ?thesis using g by blast
qed

lemma handleVoteAnte_Inr:
  assumes "handleVoteAnte E C V c vtx w = (Inr c', w')"
  shows "c' = c \<and> w' = w \<and>
    (case CeremonyMsg vtx of
       Some m \<Rightarrow> \<not> is_check_tx c \<and> \<not> is_recheck_tx c \<and>
         (\<exists>a. ceremonyCreator (Tag vtx) m = Inr a \<and> isProposer E (w_ext w) c a)
     | None \<Rightarrow> \<exists>m. VoteMsg vtx = Some m \<and>
         ValidateVoteTx E C V (w_ext w) c (is_recheck_tx c) m (w_kv w) = (Inr (), w_kv w))"
  using assms
  by (auto simp: handleVoteAnte_def succ_iffs ValidateProposerIsCreator_Inr_iff kvM_Inr_iff
      dest: ValidateVoteTx_Inr split: option.splits)


definition sampleStdTx :: StdTx where
  "sampleStdTx = \<lparr>std_msgs = [RegisterPallasKeySdkMsg \<lparr>mrp_creator = [1], mrp_pallas_pk = enc7 F3\<rparr>], std_rest = []\<rparr>"

lemma sampleStdTx_run:
  "fst (NewDualAnteHandler sampleEnv curve7 acceptAll CeremonyFeeExemptAnteHandle [] sampleCtx
     (StandardTx sampleStdTx) False \<lparr>w_kv = [], w_ext = (), w_trees = []\<rparr>) = Inr sampleCtx"
  by code_simp


end
