(* ===== verification/Proposal.thy ===== *)
theory Proposal
  imports Codec "HOL-Library.Multiset"
begin

text \<open>
  Block proposals: the deduplication of share submissions
  (\<^verbatim>\<open>src/app/vote_share_submission_proposal.go\<close>), the checks of a received proposal
  (\<^verbatim>\<open>src/app/process_proposal.go\<close>) and the preparation of one, with the injection of
  the tally (\<^verbatim>\<open>src/app/prepare_proposal.go\<close>).

  The protobuf size of a transaction is computed by CometBFT and is a parameter, and so is the
  order in which Go ranges over a map. An injector that fails leaves the proposal as it was;
  only a run-time panic gets through. Logging and error reports are not modelled.

  The lemmas show that a prepared proposal always passes the share-submission check of the
  other validators, and that a tally an honest proposer injects is accepted all the way: by
  the proposal checks, by the ante handler, and by the tally handler, which finalises the round.
\<close>

section \<open>Share submissions\<close>

definition MaxVoteShareSubmissionsPerBlock :: nat where "MaxVoteShareSubmissionsPerBlock = 256"

record voteShareSubmissionProposalKey =
  vsk_roundID :: bytes
  vsk_nullifier :: bytes

record voteShareSubmissionFilterStats =
  vfs_kept :: nat
  vfs_duplicates :: nat
  vfs_malformed :: nat
  vfs_overLimit :: nat

text \<open>
  The key of a transaction: \<open>None\<close> when it is not a share submission, an error when it is
  malformed.
\<close>

definition voteShareSubmissionProposalKeyFromTx ::
  "proto \<Rightarrow> bytes \<Rightarrow> voteShareSubmissionProposalKey res option" where
  "voteShareSubmissionProposalKeyFromTx P txBytes =
     (if length txBytes = 0 \<or> hd txBytes \<noteq> TagRevealShare then None
      else Some (
        bindR (DecodeVoteTx P txBytes) (\<lambda>(_, voteMsg).
        (case voteMsg of
           RevealShareMsg submission \<Rightarrow>
             bindR (RevealShare_ValidateBasic submission) (\<lambda>_.
             Inr \<lparr>vsk_roundID = write32 (mr_vote_round_id submission),
                  vsk_nullifier = write32 (mr_share_nullifier submission)\<rparr>)
         | _ \<Rightarrow> Inl ErrOther))))"

fun filterLoop ::
  "proto \<Rightarrow> voteShareSubmissionProposalKey list \<Rightarrow> voteShareSubmissionFilterStats \<Rightarrow> bytes list \<Rightarrow>
   bytes list \<times> voteShareSubmissionFilterStats" where
  "filterLoop P seen stats [] = ([], stats)"
| "filterLoop P seen stats (txBytes # txs) =
     (case voteShareSubmissionProposalKeyFromTx P txBytes of
        None \<Rightarrow> (case filterLoop P seen stats txs of (filtered, st) \<Rightarrow> (txBytes # filtered, st))
      | Some (Inl _) \<Rightarrow> filterLoop P seen (stats\<lparr>vfs_malformed := vfs_malformed stats + 1\<rparr>) txs
      | Some (Inr key) \<Rightarrow>
          if key \<in> set seen then
            filterLoop P seen (stats\<lparr>vfs_duplicates := vfs_duplicates stats + 1\<rparr>) txs
          else if vfs_kept stats \<ge> MaxVoteShareSubmissionsPerBlock then
            filterLoop P seen (stats\<lparr>vfs_overLimit := vfs_overLimit stats + 1\<rparr>) txs
          else
            (case filterLoop P (key # seen) (stats\<lparr>vfs_kept := vfs_kept stats + 1\<rparr>) txs of
               (filtered, st) \<Rightarrow> (txBytes # filtered, st)))"

definition filterVoteShareSubmissionTransactions ::
  "proto \<Rightarrow> bytes list \<Rightarrow> bytes list \<times> voteShareSubmissionFilterStats" where
  "filterVoteShareSubmissionTransactions P txs =
     filterLoop P [] \<lparr>vfs_kept = 0, vfs_duplicates = 0, vfs_malformed = 0, vfs_overLimit = 0\<rparr> txs"

fun validateLoop ::
  "proto \<Rightarrow> voteShareSubmissionProposalKey list \<Rightarrow> nat \<Rightarrow> bytes list \<Rightarrow> unit res" where
  "validateLoop P seen submissionCount [] = Inr ()"
| "validateLoop P seen submissionCount (txBytes # txs) =
     (case voteShareSubmissionProposalKeyFromTx P txBytes of
        None \<Rightarrow> validateLoop P seen submissionCount txs
      | Some (Inl e) \<Rightarrow> Inl e
      | Some (Inr key) \<Rightarrow>
          failIfR (key \<in> set seen) ErrOther (
          failIfR (submissionCount + 1 > MaxVoteShareSubmissionsPerBlock) ErrOther (
          validateLoop P (key # seen) (submissionCount + 1) txs)))"

definition validateVoteShareSubmissionTransactions :: "proto \<Rightarrow> bytes list \<Rightarrow> unit res" where
  "validateVoteShareSubmissionTransactions P txs = validateLoop P [] 0 txs"

section \<open>Checking a proposal\<close>

definition validateInjectedAck ::
  "('x, 'h) env \<Rightarrow> proto \<Rightarrow> 'x \<Rightarrow> ctx \<Rightarrow> bytes \<Rightarrow> (vkv, unit) M" where
  "validateInjectedAck E P x c txBytes =
     bindM (liftR (DecodeCeremonyTx P txBytes)) (\<lambda>(_, msg).
     (case msg of
        AckMsg ackMsg \<Rightarrow>
          bindM (GetVoteRound (ma_vote_round_id ackMsg)) (\<lambda>rd.
          failIf (status rd \<noteq> SESSION_STATUS_PENDING) ErrOther (
          failIf (ceremony_status rd \<noteq> CEREMONY_STATUS_DEALT) ErrOther (
          failIf (FindValidatorInRoundCeremony rd (ma_creator ackMsg) = None) ErrOther (
          failIf (FindAckInRoundCeremony rd (ma_creator ackMsg) \<noteq> None) ErrOther (
          liftR (wrapErr ErrOther (ValidateProposerIsCreator E x c (ma_creator ackMsg))))))))
      | _ \<Rightarrow> throwM ErrOther))"

definition validateInjectedPartialDecrypt ::
  "('x, 'h) env \<Rightarrow> ('s, 'p::ab_group_add) curve \<Rightarrow> proto \<Rightarrow> 'x \<Rightarrow> ctx \<Rightarrow> bytes \<Rightarrow> (vkv, unit) M" where
  "validateInjectedPartialDecrypt E C P x c txBytes =
     bindM (liftR (DecodeCeremonyTx P txBytes)) (\<lambda>(_, msg).
     (case msg of
        SubmitPartialDecryptionMsg pdMsg \<Rightarrow>
          bindM (GetVoteRound (mp_vote_round_id pdMsg)) (\<lambda>rd.
          failIf (status rd \<noteq> SESSION_STATUS_TALLYING) ErrOther (
          failIf (threshold rd = 0) ErrOther (
          thenM (ValidatePartialDecryptionEntries C rd (mp_entries pdMsg)) (
          (case FindValidatorInRoundCeremony rd (mp_creator pdMsg) of
             None \<Rightarrow> throwM ErrOther
           | Some ceremonyVal \<Rightarrow>
               failIf (mp_validator_index pdMsg \<noteq> vpk_shamir_index ceremonyVal) ErrOther (
               bindM (HasPartialDecryptionsFromValidator (mp_vote_round_id pdMsg)
                 (mp_validator_index pdMsg)) (\<lambda>has.
               failIf has ErrOther (
               liftR (wrapErr ErrOther (ValidateProposerIsCreator E x c (mp_creator pdMsg)))))))))))
      | _ \<Rightarrow> throwM ErrOther))"

definition validateInjectedTally ::
  "('x, 'h) env \<Rightarrow> proto \<Rightarrow> 'x \<Rightarrow> ctx \<Rightarrow> bytes \<Rightarrow> (vkv, unit) M" where
  "validateInjectedTally E P x c txBytes =
     bindM (liftR (DecodeVoteTx P txBytes)) (\<lambda>(_, voteMsg).
     (case voteMsg of
        SubmitTallyMsg tallyMsg \<Rightarrow>
          thenM (ValidateRoundForTally (mt_vote_round_id tallyMsg)) (
          bindM (liftR (wrapErr ErrOther (ValidateProposerIsCreator E x c (mt_creator tallyMsg)))) (\<lambda>_.
          bindM (GetVoteRound (mt_vote_round_id tallyMsg)) (\<lambda>rd.
          thenM (ValidateTallyCompleteness rd (mt_entries tallyMsg)) (
          forM (mt_entries tallyMsg) (\<lambda>entry.
            failIf (te_total_value entry \<ge> TallyBSGSBound) ErrOther (returnM ()))))))
      | _ \<Rightarrow> throwM ErrOther))"

definition validateInjectedDKGContribution ::
  "('x, 'h) env \<Rightarrow> proto \<Rightarrow> 'x \<Rightarrow> ctx \<Rightarrow> bytes \<Rightarrow> (vkv, unit) M" where
  "validateInjectedDKGContribution E P x c txBytes =
     bindM (liftR (DecodeCeremonyTx P txBytes)) (\<lambda>(_, msg).
     (case msg of
        ContributeDKGMsg dkgMsg \<Rightarrow>
          bindM (GetVoteRound (mdk_vote_round_id dkgMsg)) (\<lambda>rd.
          failIf (status rd \<noteq> SESSION_STATUS_PENDING) ErrOther (
          failIf (ceremony_status rd \<noteq> CEREMONY_STATUS_REGISTERING) ErrOther (
          failIf (FindValidatorInRoundCeremony rd (mdk_creator dkgMsg) = None) ErrOther (
          failIf (FindContributionInRound rd (mdk_creator dkgMsg) \<noteq> None) ErrOther (
          liftR (wrapErr ErrOther (ValidateProposerIsCreator E x c (mdk_creator dkgMsg))))))))
      | _ \<Rightarrow> throwM ErrOther))"

datatype ProposalStatus = ACCEPT | REJECT

text \<open>\<^verbatim>\<open>if err != nil { return d }\<close>: an error ends the function, a panic is not an error.\<close>

definition orReturn :: "('s, 'a) M \<Rightarrow> 'b \<Rightarrow> ('a \<Rightarrow> ('s, 'b) M) \<Rightarrow> ('s, 'b) M" where
  "orReturn m d k = (\<lambda>s. case m s of
       (Inl e, t) \<Rightarrow> if e = GoPanic then (Inl GoPanic, t) else (Inr d, t)
     | (Inr a, t) \<Rightarrow> k a t)"

text \<open>The validation the tag of a transaction selects.\<close>

definition validateInjectedTx ::
  "('x, 'h) env \<Rightarrow> ('s, 'p::ab_group_add) curve \<Rightarrow> proto \<Rightarrow> 'x \<Rightarrow> ctx \<Rightarrow> bytes \<Rightarrow> (vkv, unit) M" where
  "validateInjectedTx E C P x c txBytes =
     (if length txBytes < 2 then returnM ()
      else if hd txBytes = TagContributeDKG then validateInjectedDKGContribution E P x c txBytes
      else if hd txBytes = TagAckExecutiveAuthorityKey then validateInjectedAck E P x c txBytes
      else if hd txBytes = TagSubmitPartialDecryption then validateInjectedPartialDecrypt E C P x c txBytes
      else if hd txBytes = TagSubmitTally then validateInjectedTally E P x c txBytes
      else returnM ())"

fun processLoop ::
  "('x, 'h) env \<Rightarrow> ('s, 'p::ab_group_add) curve \<Rightarrow> proto \<Rightarrow> 'x \<Rightarrow> ctx \<Rightarrow> bytes list \<Rightarrow>
   (vkv, ProposalStatus) M" where
  "processLoop E C P x c [] = returnM ACCEPT"
| "processLoop E C P x c (txBytes # txs) =
     orReturn (validateInjectedTx E C P x c txBytes) REJECT (\<lambda>_. processLoop E C P x c txs)"

definition ProcessProposalHandler ::
  "('x, 'h) env \<Rightarrow> ('s, 'p::ab_group_add) curve \<Rightarrow> proto \<Rightarrow> 'x \<Rightarrow> ctx \<Rightarrow> bytes list \<Rightarrow>
   (vkv, ProposalStatus) M" where
  "ProcessProposalHandler E C P x c txs =
     orReturn (liftR (validateVoteShareSubmissionTransactions P txs)) REJECT (\<lambda>_.
     processLoop E C P x c txs)"

section \<open>Preparing a proposal\<close>

definition resolveProposer :: "('x, 'h) env \<Rightarrow> 'x \<Rightarrow> bytes \<Rightarrow> gostring res" where
  "resolveProposer E x proposerAddr =
     (case stakingKeeper E of
        None \<Rightarrow> Inl GoPanic
      | Some sk \<Rightarrow>
          bindR (GetValidatorByConsAddr sk x proposerAddr) (\<lambda>val. Inr (val_operator val)))"

text \<open>The loop over the transactions, with the bytes used so far.\<close>

fun trimLoop :: "(bytes \<Rightarrow> int) \<Rightarrow> int \<Rightarrow> int \<Rightarrow> bytes list \<Rightarrow> bytes list" where
  "trimLoop txSize maxTxBytes totalBytes [] = []"
| "trimLoop txSize maxTxBytes totalBytes (txBytes # txs) =
     (if totalBytes + txSize txBytes > maxTxBytes then []
      else txBytes # trimLoop txSize maxTxBytes (totalBytes + txSize txBytes) txs)"

text \<open>\<open>txSize\<close> is \<^verbatim>\<open>ComputeProtoSizeForTxs\<close> of one transaction; sums stay far below \<open>2 ^ 63\<close>.\<close>

definition trimProposalToMaxTxBytes :: "(bytes \<Rightarrow> int) \<Rightarrow> bytes list \<Rightarrow> int \<Rightarrow> bytes list \<times> nat" where
  "trimProposalToMaxTxBytes txSize txs maxTxBytes =
     (if maxTxBytes < 0 then (txs, 0)
      else let kept = trimLoop txSize maxTxBytes 0 txs in (kept, length txs - length kept))"

definition roundHasAccumulators :: "VoteRound \<Rightarrow> (vkv, bool) M" where
  "roundHasAccumulators rd =
     foldr (\<lambda>proposal rest.
       bindM (GetProposalTally (vote_round_id rd) (prop_id proposal)) (\<lambda>tallyMap.
       if length tallyMap > 0 then returnM True else rest)) (proposals rd) (returnM False)"

text \<open>
  The decryption of one accumulator: the total encrypted in it, by interpolation of the stored
  partial decryptions in the exponent and a discrete logarithm.
\<close>

definition decryptAccumulator ::
  "('s::field, 'p::ab_group_add) curve \<Rightarrow> 'p BSGSTable \<Rightarrow> VoteRound \<Rightarrow>
   (u64 \<times> PartialDecryptionWithIndex list) list \<Rightarrow> u32 \<Rightarrow> u32 \<times> bytes \<Rightarrow> TallyEntry res" where
  "decryptAccumulator C bsgs rd pdMap proposalId = (\<lambda>(decision, ctBytes).
     bindR (UnmarshalCiphertext C ctBytes) (\<lambda>ct.
     let storedPartials = entriesAt pdMap (AccumulatorKey proposalId decision) in
     failIfR (length storedPartials = 0) ErrOther (
     bindR (mapR (\<lambda>pd.
       bindR (UnmarshalPoint C (pdi_partial_decrypt pd)) (\<lambda>point.
       Inr \<lparr>pd_index = uint (pdi_validator_index pd), pd_Di = point\<rparr>)) storedPartials) (\<lambda>shamirPartials.
     bindR (CombinePartials C shamirPartials (uint (threshold rd))) (\<lambda>skC1.
     let vG = C2 ct - skC1 in
     bindR (Solve C bsgs vG) (\<lambda>totalValue.
     Inr \<lparr>te_proposal_id = proposalId, te_vote_decision = decision, te_total_value = totalValue,
          te_decryption_proof = []\<rparr>))))))"

text \<open>\<open>rangeOrder\<close> is the order in which Go visits the entries of a map.\<close>

definition decryptRoundTalliesThreshold ::
  "('s::field, 'p::ab_group_add) curve \<Rightarrow> ((u32 \<times> bytes) list \<Rightarrow> (u32 \<times> bytes) list) \<Rightarrow>
   'p BSGSTable \<Rightarrow> VoteRound \<Rightarrow> (vkv, TallyEntry list) M" where
  "decryptRoundTalliesThreshold C rangeOrder bsgs rd =
     bindM (GetPartialDecryptionsForRound (vote_round_id rd)) (\<lambda>pdMap.
     bindM (mapM (\<lambda>proposal.
       bindM (GetProposalTally (vote_round_id rd) (prop_id proposal)) (\<lambda>tallyMap.
       liftR (mapR (decryptAccumulator C bsgs rd pdMap (prop_id proposal)) (rangeOrder tallyMap))))
       (proposals rd)) (\<lambda>entries.
     returnM (concat entries)))"

definition TallyPrepareProposalHandler ::
  "('x, 'h) env \<Rightarrow> ('s::field, 'p::ab_group_add) curve \<Rightarrow> proto \<Rightarrow>
   ((u32 \<times> bytes) list \<Rightarrow> (u32 \<times> bytes) list) \<Rightarrow> 'p BSGSTable \<Rightarrow> gostring \<Rightarrow> 'x \<Rightarrow> bytes \<Rightarrow>
   bytes list \<Rightarrow> (vkv, bytes list) M" where
  "TallyPrepareProposalHandler E C P rangeOrder bsgs ceremonyDir x proposerAddr txs =
     (if ceremonyDir = [] then returnM txs
      else
        orReturn (liftR (resolveProposer E x proposerAddr)) txs (\<lambda>proposerValAddr.
        orReturn (IterateTallyingRounds (\<lambda>rd _. (True, Some rd)) None) txs (\<lambda>tallyRound.
        (case tallyRound of
           None \<Rightarrow> returnM txs
         | Some rd \<Rightarrow>
             orReturn (roundHasAccumulators rd) txs (\<lambda>hasAccumulators.
             let inject = (\<lambda>entries.
               orReturn (liftR (EncodeVoteTx P (SubmitTallyMsg \<lparr>mt_vote_round_id = vote_round_id rd,
                   mt_creator = proposerValAddr, mt_entries = entries\<rparr>))) txs (\<lambda>txBytes.
               returnM (txBytes # txs))) in
             if hasAccumulators then
               orReturn (CountPartialDecryptionValidators (vote_round_id rd)) txs (\<lambda>validatorCount.
               if validatorCount < uint (threshold rd) then returnM txs
               else orReturn (decryptRoundTalliesThreshold C rangeOrder bsgs rd) txs inject)
             else inject [])))))"

text \<open>
  The composed handler. An injector maps the proposal so far to the next one, on whatever state
  it works.
\<close>

definition ComposedPrepareProposalHandler ::
  "proto \<Rightarrow> (bytes \<Rightarrow> int) \<Rightarrow> (bytes list \<Rightarrow> ('s, bytes list) M) \<Rightarrow> (bytes list \<Rightarrow> ('s, bytes list) M) \<Rightarrow>
   (bytes list \<Rightarrow> ('s, bytes list) M) \<Rightarrow> (bytes list \<Rightarrow> ('s, bytes list) M) \<Rightarrow> bytes list \<Rightarrow> int \<Rightarrow>
   ('s, bytes list) M" where
  "ComposedPrepareProposalHandler P txSize dealInjector ackInjector partialDecryptInjector tallyHandler
     txs maxTxBytes =
     bindM (dealInjector (fst (filterVoteShareSubmissionTransactions P txs))) (\<lambda>txs.
     bindM (ackInjector txs) (\<lambda>txs.
     bindM (partialDecryptInjector txs) (\<lambda>txs.
     bindM (tallyHandler txs) (\<lambda>txs.
     returnM (fst (trimProposalToMaxTxBytes txSize txs maxTxBytes))))))"

section \<open>The submission filter\<close>

abbreviation subKey where "subKey \<equiv> voteShareSubmissionProposalKeyFromTx"

lemma filterLoop_valid: "validateLoop P seen (vfs_kept stats) (fst (filterLoop P seen stats txs)) = Inr ()"
proof (induction txs arbitrary: seen stats)
  case (Cons t txs)
  from Cons.IH[of "_ # seen" "stats\<lparr>vfs_kept := vfs_kept stats + 1\<rparr>"] show ?case
    using Cons.IH[of seen "stats\<lparr>vfs_malformed := _\<rparr>"] Cons.IH[of seen "stats\<lparr>vfs_duplicates := _\<rparr>"]
      Cons.IH[of seen "stats\<lparr>vfs_overLimit := _\<rparr>"] Cons.IH[of seen stats]
    by (simp add: case_prod_beta split: option.split sum.split)
qed simp

lemma filterLoop_id:
  "validateLoop P seen (vfs_kept stats) txs = Inr () \<Longrightarrow> fst (filterLoop P seen stats txs) = txs"
  by (induction P seen stats txs rule: filterLoop.induct)
    (auto split: option.splits sum.splits prod.splits)

lemma filterLoop_subseq: "subseq (fst (filterLoop P seen stats txs)) txs"
  by (induction P seen stats txs rule: filterLoop.induct)
    (auto split: option.splits sum.splits prod.splits)

lemma filterLoop_keeps:
  "filter (\<lambda>t. subKey P t = None) (fst (filterLoop P seen stats txs)) = filter (\<lambda>t. subKey P t = None) txs"
  by (induction P seen stats txs rule: filterLoop.induct)
    (auto split: option.splits sum.splits prod.splits)

lemma validateLoop_prefix: "validateLoop P seen n (xs @ ys) = Inr () \<Longrightarrow> validateLoop P seen n xs = Inr ()"
  by (induction P seen n xs rule: validateLoop.induct) (auto split: option.splits sum.splits)

lemma validateLoop_other:
  "\<forall>t \<in> set pre. subKey P t = None \<Longrightarrow> validateLoop P seen n (pre @ txs) = validateLoop P seen n txs"
  by (induction pre) auto

lemma trimLoop_prefix: "prefix (trimLoop txSize lim used txs) txs"
  by (induction txSize lim used txs rule: trimLoop.induct) auto

lemma trimLoop_fits: "used \<le> lim \<Longrightarrow> used + sum_list (map txSize (trimLoop txSize lim used txs)) \<le> lim"
  by (induction txSize lim used txs rule: trimLoop.induct) (auto simp: algebra_simps)

section \<open>Injectors\<close>

text \<open>
  What the composed handler needs of an injector: it puts at most one transaction in front, and
  that is no share submission.
\<close>

locale injector =
  fixes P :: proto and inject :: "bytes list \<Rightarrow> ('s, bytes list) M"
  assumes injects: "inject txs s = (Inr txs', s') \<Longrightarrow> txs' = txs \<or> (\<exists>t. subKey P t = None \<and> txs' = t # txs)"
begin

lemma puts_in_front:
  "inject txs s = (Inr txs', s') \<Longrightarrow>
     \<exists>pre. txs' = pre @ txs \<and> length pre \<le> 1 \<and> (\<forall>t \<in> set pre. subKey P t = None)"
  by (drule injects) (auto intro: exI[of _ "[]"])

end

lemma orReturn_Inr_iff:
  "orReturn m d k s = (Inr r, s') \<longleftrightarrow>
     (\<exists>e. m s = (Inl e, s') \<and> e \<noteq> GoPanic \<and> r = d) \<or> (\<exists>a t. m s = (Inr a, t) \<and> k a t = (Inr r, s'))"
  by (auto simp: orReturn_def split: prod.splits sum.splits if_splits)

lemma orReturn_Inr: "m s = (Inr a, t) \<Longrightarrow> orReturn m d k s = k a t"
  by (simp add: orReturn_def)

lemma subKey_other: "hd t \<noteq> TagRevealShare \<Longrightarrow> subKey P t = None"
  by (simp add: voteShareSubmissionProposalKeyFromTx_def)

lemma EncodeVoteTx_tally: "EncodeVoteTx P (SubmitTallyMsg m) = Inr t \<Longrightarrow> hd t = TagSubmitTally"
  by (auto simp: EncodeVoteTx_def bindR_Inr_iff)

interpretation tally: injector P "TallyPrepareProposalHandler E C P rangeOrder bsgs dir x a"
  for P E C rangeOrder bsgs dir x a
proof
  fix txs txs' :: "bytes list" and s s'
  assume "TallyPrepareProposalHandler E C P rangeOrder bsgs dir x a txs s = (Inr txs', s')"
  then have "txs' = txs \<or> (\<exists>m t. EncodeVoteTx P (SubmitTallyMsg m) = Inr t \<and> txs' = t # txs)"
    unfolding TallyPrepareProposalHandler_def Let_def
    by (auto simp: orReturn_Inr_iff returnM_def liftR_def split: if_splits option.splits)
  then show "txs' = txs \<or> (\<exists>t. subKey P t = None \<and> txs' = t # txs)"
    using EncodeVoteTx_tally subKey_other by (fastforce simp: tag_defs)
qed

section \<open>The totals a proposer computes\<close>

text \<open>
  A bound for which the discrete-logarithm table is exact. The program uses
  \<^verbatim>\<open>TallyBSGSBound\<close>; only the size of the scalar field matters for it.
\<close>

definition bsgs_ok :: "('s::field, 'p) curve \<Rightarrow> u64 \<Rightarrow> bool" where
  "bsgs_ok C N \<longleftrightarrow> 0 < N \<and> N \<le> TallyBSGSBound \<and> unat N \<le> unat (ceilSqrt N) * unat (ceilSqrt N) \<and>
     unat (ceilSqrt N) \<le> unat N \<and> unat (ceilSqrt N) < 2 ^ 32 \<and> inj_on (of_nat :: nat \<Rightarrow> 's) {..<unat N}"

lemma Solve_bsgs_ok:
  assumes "curve_ok C" and "bsgs_ok C N"
  shows "Solve C (NewBSGSTable C N) h = Inr y \<longleftrightarrow> y < N \<and> h = ValuePoint C y"
  using Solve_exact[OF assms(1), of N] assms(2) unfolding bsgs_ok_def by blast

lemma mapM_liftR:
  "(\<And>x. x \<in> set xs \<Longrightarrow> f x s = (g x, s)) \<Longrightarrow> mapM f xs s = (mapR g xs, s)"
  by (induction xs) (auto simp: bindM_def returnM_def split: sum.splits)

lemma decryptAccumulator_Inr:
  assumes "curve_ok C" and "bsgs_ok C N"
    and "decryptAccumulator C (NewBSGSTable C N) rd m p db = Inr e"
  shows "te_proposal_id e = p \<and> te_vote_decision e = fst db \<and> entriesAt m (AccumulatorKey p (fst db)) \<noteq> [] \<and>
    entryHolds C rd (Some (snd db)) (entriesAt m (AccumulatorKey p (fst db))) (te_total_value e)"
proof -
  obtain d b where db: "db = (d, b)" by (cases db)
  from assms(3) obtain ct ps Q v where h: "UnmarshalCiphertext C b = Inr ct"
    "entriesAt m (AccumulatorKey p d) \<noteq> []" "mapR (toShamir C) (entriesAt m (AccumulatorKey p d)) = Inr ps"
    "CombinePartials C ps (uint (threshold rd)) = Inr Q" "Solve C (NewBSGSTable C N) (C2 ct - Q) = Inr v"
    and e: "e = \<lparr>te_proposal_id = p, te_vote_decision = d, te_total_value = v, te_decryption_proof = []\<rparr>"
    by (auto simp: decryptAccumulator_def db toShamir_def[abs_def] bindR_Inr_iff Let_def)
  have "v < N" "C2 ct - Q = ValuePoint C v" using h(5) by (simp_all add: Solve_bsgs_ok[OF assms(1,2)])
  then show ?thesis using h assms(2) by (auto simp: e db entryHolds_def bsgs_ok_def)
qed

abbreviation entryKey :: "TallyEntry \<Rightarrow> u32 \<times> u32" where
  "entryKey e \<equiv> (te_proposal_id e, te_vote_decision e)"

text \<open>A range over a map visits every entry once.\<close>

definition range_ok :: "('a list \<Rightarrow> 'a list) \<Rightarrow> bool" where
  "range_ok f \<longleftrightarrow> (\<forall>m. mset (f m) = mset m)"

lemma range_ok_set: "range_ok f \<Longrightarrow> set (f m) = set m"
  unfolding range_ok_def by (metis set_mset_mset)

lemma range_ok_distinct: "range_ok f \<Longrightarrow> distinct (map g m) \<Longrightarrow> distinct (map g (f m))"
  unfolding range_ok_def by (metis mset_map mset_eq_imp_distinct_iff)

lemma concat_distinct_keys:
  assumes "distinct (map f xs)" and "length ess = length xs"
    and "\<And>i. i < length xs \<Longrightarrow> distinct (map g (ess ! i)) \<and> (\<forall>e \<in> set (ess ! i). fst (g e) = f (xs ! i))"
  shows "distinct (map g (concat ess))"
  using assms
proof (induction xs arbitrary: ess)
  case (Cons x xs)
  then obtain es rest where ess: "ess = es # rest" by (cases ess) auto
  have tail: "distinct (map g (concat rest))"
  proof (rule Cons.IH)
    show "distinct (map g (rest ! i)) \<and> (\<forall>e \<in> set (rest ! i). fst (g e) = f (xs ! i))" if "i < length xs" for i
      using Cons.prems(3)[of "Suc i"] that ess by simp
  qed (use Cons.prems ess in auto)
  have head: "distinct (map g es)" "\<forall>e \<in> set es. fst (g e) = f x" using Cons.prems(3)[of 0] ess by auto
  have "fst (g e) \<noteq> f x" if "e \<in> set (concat rest)" for e
  proof -
    from that obtain i where "i < length xs" "e \<in> set (rest ! i)"
      using Cons.prems(2) ess by (auto simp: in_set_conv_nth[of _ rest])
    then have "fst (g e) = f (xs ! i)" using Cons.prems(3)[of "Suc i"] ess by simp
    then show ?thesis using Cons.prems(1) \<open>i < length xs\<close> by (metis distinct.simps(2) length_map list.simps(9) nth_map nth_mem)
  qed
  then have "g ` set es \<inter> g ` set (concat rest) = {}" using head(2) by fastforce
  then show ?case using head(1) tail ess by auto
qed simp

text \<open>An entry of the tally that the tally handler accepts.\<close>

definition goodEntry ::
  "('s::field, 'p::ab_group_add) curve \<Rightarrow> vkv \<Rightarrow> VoteRound \<Rightarrow>
   (u64 \<times> PartialDecryptionWithIndex list) list \<Rightarrow> TallyEntry \<Rightarrow> bool" where
  "goodEntry C s rd m e \<longleftrightarrow>
     entriesAt m (AccumulatorKey (te_proposal_id e) (te_vote_decision e)) \<noteq> [] \<and>
     entryHolds C rd (accOf s (vote_round_id rd) (te_proposal_id e) (te_vote_decision e))
       (entriesAt m (AccumulatorKey (te_proposal_id e) (te_vote_decision e))) (te_total_value e)"

lemma decryptProposal_Inr:
  assumes "curve_ok C" and "bsgs_ok C N"
    and "map_of tm = accOf s (vote_round_id rd) p" and "distinct (map fst tm)" and "set xs = set tm"
    and "mapR (decryptAccumulator C (NewBSGSTable C N) rd m p) xs = Inr es"
  shows "map entryKey es = map (\<lambda>db. (p, fst db)) xs \<and> (\<forall>e \<in> set es. goodEntry C s rd m e)"
proof -
  have len: "length es = length xs" using assms(6) by (simp add: mapR_Inr_iff)
  have el: "entryKey (es ! j) = (p, fst (xs ! j)) \<and> goodEntry C s rd m (es ! j)" if j: "j < length xs" for j
  proof -
    have "xs ! j \<in> set tm" using nth_mem[OF j] assms(5) by simp
    then have "accOf s (vote_round_id rd) p (fst (xs ! j)) = Some (snd (xs ! j))"
      using assms(3,4) by (metis map_of_is_SomeI prod.collapse)
    moreover have "decryptAccumulator C (NewBSGSTable C N) rd m p (xs ! j) = Inr (es ! j)"
      using assms(6) j by (simp add: mapR_Inr_iff)
    ultimately show ?thesis using decryptAccumulator_Inr[OF assms(1,2)] by (simp add: goodEntry_def)
  qed
  have "map entryKey es = map (\<lambda>db. (p, fst db)) xs"
    by (rule nth_equalityI) (use len el in auto)
  moreover have "\<forall>e \<in> set es. goodEntry C s rd m e" using el len by (auto simp: in_set_conv_nth)
  ultimately show ?thesis ..
qed

text \<open>The decryption of a round, as one pass over its accumulators.\<close>

lemma decryptRound_eq:
  assumes "kv_wf s" and "length (vote_round_id rd) = 32"
  shows "\<exists>m tm. GetPartialDecryptionsForRound (vote_round_id rd) s = (Inr m, s) \<and>
    (\<forall>p d. set (entriesAt m (AccumulatorKey p d)) = {withIndex i e |i e. partialOf s (vote_round_id rd) i (p, d) = Some e} \<and>
      distinct (map pdi_validator_index (entriesAt m (AccumulatorKey p d)))) \<and>
    (\<forall>p. map_of (tm p) = accOf s (vote_round_id rd) p \<and> distinct (map fst (tm p))) \<and>
    decryptRoundTalliesThreshold C rangeOrder bsgs rd s = (bindR (mapR (\<lambda>x.
      mapR (decryptAccumulator C bsgs rd m (prop_id x)) (rangeOrder (tm (prop_id x)))) (proposals rd))
      (\<lambda>ess. Inr (concat ess)), s)"
proof -
  let ?r = "vote_round_id rd"
  obtain m where m: "GetPartialDecryptionsForRound ?r s = (Inr m, s)"
    "\<forall>p d. set (entriesAt m (AccumulatorKey p d)) = {withIndex i e |i e. partialOf s ?r i (p, d) = Some e} \<and>
      distinct (map pdi_validator_index (entriesAt m (AccumulatorKey p d)))"
    using GetPartialDecryptionsForRound_wf[OF assms] by blast
  have "\<forall>p. \<exists>tm. GetProposalTally ?r p s = (Inr tm, s) \<and> map_of tm = accOf s ?r p \<and> distinct (map fst tm)"
    using GetProposalTally_wf[OF assms] by blast
  then obtain tm where tm: "\<And>p. GetProposalTally ?r p s = (Inr (tm p), s)"
    "\<forall>p. map_of (tm p) = accOf s ?r p \<and> distinct (map fst (tm p))" by metis
  have "mapM (\<lambda>proposal. bindM (GetProposalTally ?r (prop_id proposal)) (\<lambda>tallyMap.
       liftR (mapR (decryptAccumulator C bsgs rd m (prop_id proposal)) (rangeOrder tallyMap)))) (proposals rd) s =
     (mapR (\<lambda>x. mapR (decryptAccumulator C bsgs rd m (prop_id x)) (rangeOrder (tm (prop_id x)))) (proposals rd), s)"
    by (rule mapM_liftR) (simp add: bindM_def tm(1) liftR_def)
  then have "decryptRoundTalliesThreshold C rangeOrder bsgs rd s = (bindR (mapR (\<lambda>x.
      mapR (decryptAccumulator C bsgs rd m (prop_id x)) (rangeOrder (tm (prop_id x)))) (proposals rd))
      (\<lambda>ess. Inr (concat ess)), s)"
    by (auto simp: decryptRoundTalliesThreshold_def m(1) bindM_def returnM_def split: sum.splits)
  then show ?thesis using m tm(2) by blast
qed

text \<open>
  What the proposer's totals satisfy: one for every non-empty accumulator, none twice, each
  passing the check of the tally handler.
\<close>

lemma decryptRound_Inr:
  assumes "curve_ok C" and "bsgs_ok C N"
    and "kv_wf s" and "length (vote_round_id rd) = 32" and "range_ok rangeOrder"
    and "distinct (map prop_id (proposals rd))"
    and "decryptRoundTalliesThreshold C rangeOrder (NewBSGSTable C N) rd s = (Inr es, s')"
  shows "\<exists>m. GetPartialDecryptionsForRound (vote_round_id rd) s = (Inr m, s) \<and> s' = s \<and>
    entryKey ` set es = nonEmptyAccs s rd \<and> distinct (map entryKey es) \<and> (\<forall>e \<in> set es. goodEntry C s rd m e)"
proof -
  let ?r = "vote_round_id rd" and ?t = "NewBSGSTable C N" and ?ps = "proposals rd"
  obtain m tm where m: "GetPartialDecryptionsForRound ?r s = (Inr m, s)"
    and tm: "\<And>p. map_of (tm p) = accOf s ?r p" "\<And>p. distinct (map fst (tm p))"
    and run: "decryptRoundTalliesThreshold C rangeOrder ?t rd s = (bindR (mapR (\<lambda>x.
      mapR (decryptAccumulator C ?t rd m (prop_id x)) (rangeOrder (tm (prop_id x)))) ?ps) (\<lambda>ess. Inr (concat ess)), s)"
    using decryptRound_eq[OF assms(3,4), where ?C = C and ?rangeOrder = rangeOrder and ?bsgs = ?t] by blast
  define g where "g x = mapR (decryptAccumulator C ?t rd m (prop_id x)) (rangeOrder (tm (prop_id x)))" for x :: Proposal
  from assms(7) run obtain ess where ess: "mapR g ?ps = Inr ess" "es = concat ess" "s' = s"
    by (auto simp: g_def[abs_def] bindR_Inr_iff)
  have len: "length ess = length ?ps" using ess(1) by (simp add: mapR_Inr_iff)
  have blk: "map entryKey (ess ! i) = map (\<lambda>db. (prop_id (?ps ! i), fst db)) (rangeOrder (tm (prop_id (?ps ! i)))) \<and>
      (\<forall>e \<in> set (ess ! i). goodEntry C s rd m e)" if "i < length ?ps" for i
  proof (rule decryptProposal_Inr[OF assms(1,2) tm(1,2) range_ok_set[OF assms(5)]])
    have "g (?ps ! i) = Inr (ess ! i)" using ess(1) that unfolding mapR_Inr_iff by blast
    then show "mapR (decryptAccumulator C ?t rd m (prop_id (?ps ! i))) (rangeOrder (tm (prop_id (?ps ! i)))) =
      Inr (ess ! i)" by (simp add: g_def)
  qed
  have keys: "entryKey ` set (ess ! i) = {(prop_id (?ps ! i), d) |d. accOf s ?r (prop_id (?ps ! i)) d \<noteq> None}"
    if i: "i < length ?ps" for i
  proof -
    let ?p = "prop_id (?ps ! i)"
    have "set (map entryKey (ess ! i)) = Pair ?p ` fst ` set (tm ?p)"
      unfolding blk[OF i, THEN conjunct1] by (simp add: image_image range_ok_set[OF assms(5)])
    also have "fst ` set (tm ?p) = dom (accOf s ?r ?p)"
      unfolding tm(1)[symmetric] by (rule dom_map_of_conv_image_fst[symmetric])
    finally show ?thesis by (auto simp: dom_def)
  qed
  have "distinct (map entryKey es)" unfolding ess(2)
  proof (rule concat_distinct_keys[OF assms(6) len])
    fix i assume i: "i < length ?ps"
    have "distinct (map (\<lambda>db. (prop_id (?ps ! i), fst db)) (rangeOrder (tm (prop_id (?ps ! i)))))"
      by (rule range_ok_distinct[OF assms(5)]) (use tm(2) in \<open>auto simp: distinct_map inj_on_def\<close>)
    then show "distinct (map entryKey (ess ! i)) \<and> (\<forall>e \<in> set (ess ! i). fst (entryKey e) = prop_id (?ps ! i))"
      using blk[OF i] keys[OF i] by auto
  qed
  moreover have "entryKey ` set es = nonEmptyAccs s rd"
  proof -
    have "set es = (\<Union>i < length ?ps. set (ess ! i))"
      unfolding ess(2) using len by (fastforce simp: in_set_conv_nth[of _ ess])
    then have "entryKey ` set es = (\<Union>i < length ?ps. entryKey ` set (ess ! i))" by (simp add: image_UN)
    also have "\<dots> = (\<Union>i < length ?ps. {(prop_id (?ps ! i), d) |d. accOf s ?r (prop_id (?ps ! i)) d \<noteq> None})"
      using keys by simp
    also have "\<dots> = nonEmptyAccs s rd" by (fastforce simp: nonEmptyAccs_def in_set_conv_nth)
    finally show ?thesis .
  qed
  moreover have "\<forall>e \<in> set es. goodEntry C s rd m e"
    unfolding ess(2) using blk len by (auto simp: in_set_conv_nth[of _ ess])
  ultimately show ?thesis using m ess(3) by blast
qed

section \<open>The tally handler accepts them\<close>

lemma tallyEntryStep_ok:
  assumes "curve_ok C" and "kv_wf s" and "length (vote_round_id rd) = 32"
    and "ValidateEntryBounds rd (te_proposal_id e) (te_vote_decision e) = Inr ()" and "goodEntry C s rd m e"
  shows "tallyEntryStep C rd (vote_round_id rd) m e s = (Inr (), storeResult (vote_round_id rd) e s)"
proof -
  let ?p = "te_proposal_id e" and ?d = "te_vote_decision e" and ?r = "vote_round_id rd"
  have set: "SetTallyResult \<lparr>tr_vote_round_id = ?r, tr_proposal_id = ?p, tr_vote_decision = ?d,
      tr_total_value = te_total_value e\<rparr> s = (Inr (), storeResult ?r e s)"
    using assms(3) by (simp add: SetTallyResult_Inr_iff storeResult_def)
  have bound: "\<not> te_total_value e \<ge> TallyBSGSBound" using assms(5) by (simp add: goodEntry_def entryHolds_def not_le)
  show ?thesis
  proof (cases "accOf s ?r ?p ?d")
    case None
    then have "te_total_value e = 0" using assms(5) by (simp add: goodEntry_def entryHolds_def)
    then show ?thesis using None bound assms(4) set
      by (simp add: tallyEntryStep_def bindM_def thenM_def liftR_def GetTally_wf[OF assms(2,3)] failIf_def returnM_def)
  next
    case (Some b)
    with assms(5) obtain ct ps Q where h: "UnmarshalCiphertext C b = Inr ct"
      "mapR (toShamir C) (entriesAt m (AccumulatorKey ?p ?d)) = Inr ps" "entriesAt m (AccumulatorKey ?p ?d) \<noteq> []"
      "CombinePartials C ps (uint (threshold rd)) = Inr Q" "C2 ct - Q = ValuePoint C (te_total_value e)"
      by (auto simp: goodEntry_def entryHolds_def)
    then show ?thesis using Some bound assms(4) set
      by (simp add: tallyEntryStep_def toShamir_def[abs_def] bindM_def thenM_def liftR_def
          GetTally_wf[OF assms(2,3)] failIf_def returnM_def wrapErr_def Let_def)
  qed
qed

lemma accOf_storeResult [simp]: "accOf (storeResult r e s) r' p d = accOf s r' p d"
  by (rule accOf_cong) (rule storeResult_frame)

lemma goodEntry_storeResult [simp]: "goodEntry C (storeResult r e' s) rd m e = goodEntry C s rd m e"
  by (simp add: goodEntry_def)

lemma tallyEntries_ok:
  assumes "curve_ok C" and "length (vote_round_id rd) = 32"
    and "\<forall>e \<in> set es. ValidateEntryBounds rd (te_proposal_id e) (te_vote_decision e) = Inr ()"
  shows "kv_wf s \<Longrightarrow> \<forall>e \<in> set es. goodEntry C s rd m e \<Longrightarrow>
    \<exists>t. forM es (tallyEntryStep C rd (vote_round_id rd) m) s = (Inr (), t)"
  using assms(3)
proof (induction es arbitrary: s)
  case (Cons e es)
  let ?t = "storeResult (vote_round_id rd) e s"
  have step: "tallyEntryStep C rd (vote_round_id rd) m e s = (Inr (), ?t)"
    using Cons.prems by (intro tallyEntryStep_ok[OF assms(1) _ assms(2)]) auto
  have "kv_wf ?t" using Cons.prems(1) assms(2) by (rule kv_wf_storeResult)
  moreover have "\<forall>e' \<in> set es. goodEntry C ?t rd m e'"
    using Cons.prems(2) by simp
  ultimately show ?case using Cons.IH Cons.prems(3) step by (simp add: thenM_def bindM_def)
qed (simp add: returnM_def)

lemma SubmitTally_finalizes:
  assumes "curve_ok C" and "kv_wf s" and "ValidateProposerIsCreator E x c a = Inr ()"
    and "roundOf s (vote_round_id rd) = Some rd" and "status rd = SESSION_STATUS_TALLYING"
    and "GetPartialDecryptionsForRound (vote_round_id rd) s = (Inr m, s)"
    and "\<forall>e \<in> set es. ValidateEntryBounds rd (te_proposal_id e) (te_vote_decision e) = Inr () \<and> goodEntry C s rd m e"
    and "nonEmptyAccs s rd \<subseteq> entryKey ` set es"
  shows "\<exists>s'. SubmitTally E C x c \<lparr>mt_vote_round_id = vote_round_id rd, mt_creator = a, mt_entries = es\<rparr> s =
      (Inr (word_of_nat (length es)), s') \<and>
    roundOf s' (vote_round_id rd) = Some (rd\<lparr>status := SESSION_STATUS_FINALIZED\<rparr>) \<and>
    resultOf s' (vote_round_id rd) = resultOf s (vote_round_id rd) ++ resultMap es"
proof -
  let ?r = "vote_round_id rd"
  have len: "length ?r = 32" using roundOf_wf[OF assms(2,4)] by simp
  obtain t where t: "forM es (tallyEntryStep C rd ?r m) s = (Inr (), t)"
    using tallyEntries_ok[OF assms(1) len, of es s m] assms(2,7) by blast
  note inv = tallyEntries_Inr[OF assms(1) len assms(2) t]
  have "accOf t ?r p d = accOf s ?r p d" for p d using inv by (intro accOf_cong) blast
  then have "nonEmptyAccs t rd = nonEmptyAccs s rd" by (simp add: nonEmptyAccs_def)
  then have "ValidateTallyCompleteness rd es t = (Inr (), t)"
    using TallyCompleteness_wf[of t rd es] inv len assms(8) by simp
  moreover have "GetVoteRound ?r s = (Inr rd, s)" using assms(4) len by (simp add: GetVoteRound_Inr_iff)
  moreover have "SetVoteRound (rd\<lparr>status := SESSION_STATUS_FINALIZED\<rparr>) t =
      (Inr (), kv_set (0x04 # ?r) (VVoteRound (rd\<lparr>status := SESSION_STATUS_FINALIZED\<rparr>)) t)"
    using len by (simp add: SetVoteRound_Inr_iff)
  moreover have "resultOf (kv_set (0x04 # ?r) v t) ?r = resultOf s ?r ++ resultMap es" for v
    using inv len by (simp add: resultOf_def view_set resultKey_def)
  ultimately show ?thesis using assms(3,5,6) t
    by (simp add: SubmitTally_def bindM_def thenM_def liftR_def failIf_def returnM_def roundOf_set_round)
qed

section \<open>A tally an honest proposer injects\<close>

lemma first_tallying:
  assumes "kv_wf s" and "IterateTallyingRounds (\<lambda>rd _. (True, Some rd)) None s = (Inr (Some rd), s')"
  shows "s' = s \<and> roundOf s (vote_round_id rd) = Some rd \<and> status rd = SESSION_STATUS_TALLYING"
proof -
  let ?rs = "filter (\<lambda>r. status r = SESSION_STATUS_TALLYING) (roundsOf s)"
  have "foldUntil (\<lambda>rd _. (True, Some rd)) None ?rs = Some rd" "s' = s"
    using assms(2) by (auto simp: IterateTallyingRounds_def iterateRounds_wf[OF assms(1)])
  then have "rd \<in> set ?rs" by (cases ?rs) auto
  then obtain r where "roundOf s r = Some rd" "status rd = SESSION_STATUS_TALLYING"
    using mem_roundsOf_iff[OF assms(1)] by auto
  then show ?thesis using roundOf_wf[OF assms(1)] \<open>s' = s\<close> by auto
qed

lemma roundHasAccumulators_wf:
  assumes "kv_wf s" and "length (vote_round_id rd) = 32"
  shows "roundHasAccumulators rd s = (Inr (nonEmptyAccs s rd \<noteq> {}), s)"
proof -
  let ?acc = "\<lambda>p. \<exists>d. accOf s (vote_round_id rd) p d \<noteq> None"
  have step: "\<exists>m. GetProposalTally (vote_round_id rd) p s = (Inr m, s) \<and> (m \<noteq> [] \<longleftrightarrow> ?acc p)" for p
  proof -
    obtain m where m: "GetProposalTally (vote_round_id rd) p s = (Inr m, s)" "map_of m = accOf s (vote_round_id rd) p"
      using GetProposalTally_wf[OF assms] by blast
    have "m = [] \<longleftrightarrow> map_of m = Map.empty" by simp
    then show ?thesis using m by (auto simp: fun_eq_iff)
  qed
  have "foldr (\<lambda>proposal rest. bindM (GetProposalTally (vote_round_id rd) (prop_id proposal)) (\<lambda>tallyMap.
       if length tallyMap > 0 then returnM True else rest)) ps (returnM False) s =
     (Inr (\<exists>x \<in> set ps. ?acc (prop_id x)), s)" for ps :: "Proposal list"
  proof (induction ps)
    case (Cons x ps)
    obtain m where "GetProposalTally (vote_round_id rd) (prop_id x) s = (Inr m, s)" "m \<noteq> [] \<longleftrightarrow> ?acc (prop_id x)"
      using step by blast
    then show ?case using Cons by (cases "m = []") (simp_all add: bindM_simps returnM_def)
  qed (simp add: returnM_def)
  then show ?thesis by (auto simp: roundHasAccumulators_def nonEmptyAccs_def)
qed

lemma tallyPrepare_ok:
  assumes "kv_wf s" and "dir \<noteq> []" and "resolveProposer E x a = Inr v"
    and "filter (\<lambda>rd. status rd = SESSION_STATUS_TALLYING) (roundsOf s) = rd # rest"
    and "decryptRoundTalliesThreshold C rangeOrder bsgs rd s = (Inr es, s)"
    and "nonEmptyAccs s rd = {} \<Longrightarrow> es = []"
    and "nonEmptyAccs s rd \<noteq> {} \<Longrightarrow> uint (threshold rd) \<le> int (card (submitters s (vote_round_id rd)))"
    and "EncodeVoteTx P (SubmitTallyMsg \<lparr>mt_vote_round_id = vote_round_id rd, mt_creator = v, mt_entries = es\<rparr>) = Inr tx"
  shows "TallyPrepareProposalHandler E C P rangeOrder bsgs dir x a txs s = (Inr (tx # txs), s)"
proof -
  have it: "IterateTallyingRounds (\<lambda>rd _. (True, Some rd)) None s = (Inr (Some rd), s)"
    by (simp add: IterateTallyingRounds_def iterateRounds_wf[OF assms(1)] assms(4))
  have len: "length (vote_round_id rd) = 32"
    using first_tallying[OF assms(1) it] roundOf_wf[OF assms(1)] by blast
  note acc = roundHasAccumulators_wf[OF assms(1) len]
  note cnt = CountPartialDecryptionValidators_wf[OF assms(1) len]
  show ?thesis using assms(2,3,5-8) it acc cnt
    by (cases "nonEmptyAccs s rd = {}")
      (simp_all add: TallyPrepareProposalHandler_def orReturn_def liftR_def returnM_def Let_def)
qed

lemma validateInjectedTally_ok:
  assumes "kv_wf s" and "DecodeVoteTx P tx = Inr (t, SubmitTallyMsg msg)"
    and "roundOf s (mt_vote_round_id msg) = Some rd" and "status rd = SESSION_STATUS_TALLYING"
    and "ValidateProposerIsCreator E x c (mt_creator msg) = Inr ()"
    and "nonEmptyAccs s rd \<subseteq> entryKey ` set (mt_entries msg)"
    and "\<forall>e \<in> set (mt_entries msg). te_total_value e < TallyBSGSBound"
  shows "validateInjectedTally E P x c tx s = (Inr (), s)"
proof -
  have len: "length (mt_vote_round_id msg) = 32" "vote_round_id rd = mt_vote_round_id msg"
    using roundOf_wf[OF assms(1,3)] by auto
  have "GetVoteRound (mt_vote_round_id msg) s = (Inr rd, s)" using assms(3) len by (simp add: GetVoteRound_Inr_iff)
  moreover have "ValidateTallyCompleteness rd (mt_entries msg) s = (Inr (), s)"
    using TallyCompleteness_wf[of s rd "mt_entries msg"] assms(1,6) len by simp
  moreover have "forM (mt_entries msg) (\<lambda>entry. failIf (te_total_value entry \<ge> TallyBSGSBound) ErrOther (returnM ())) s = (Inr (), s)"
    using assms(7) by (simp add: forM_guard_Inr not_le)
  ultimately show ?thesis using assms(2,4,5)
    by (simp add: validateInjectedTally_def ValidateRoundForTally_def bindM_def thenM_def liftR_def failIf_def
        returnM_def wrapErr_def)
qed

lemma ValidateVoteTx_tally:
  assumes "kv_wf s" and "roundOf s (mt_vote_round_id msg) = Some rd" and "status rd = SESSION_STATUS_TALLYING"
    and "ValidateProposerIsCreator E x c (mt_creator msg) = Inr ()" and "mt_creator msg \<noteq> []"
    and "distinct (map entryKey (mt_entries msg))"
  shows "ValidateVoteTx E C V x c recheck (SubmitTallyMsg msg) s = (Inr (), s)"
proof -
  have len: "length (mt_vote_round_id msg) = 32" using roundOf_wf[OF assms(1,2)] by auto
  then have "SubmitTally_ValidateBasic msg = Inr ()"
    using assms(5,6) by (simp add: SubmitTally_ValidateBasic_def RoundIDLen_def)
  moreover have "GetVoteRound (mt_vote_round_id msg) s = (Inr rd, s)" using assms(2) len by (simp add: GetVoteRound_Inr_iff)
  moreover have "mt_vote_round_id msg \<noteq> []" using len by auto
  ultimately show ?thesis using assms(3,4)
    by (simp add: ValidateVoteTx_def validateRoundStep_def ValidateRoundForTally_def validateNullifierStep_def
        bindM_def thenM_def liftR_def failIf_def returnM_def)
qed

text \<open>
  A tallying round that can be decrypted: the stored partial decryptions of every non-empty
  accumulator are values of one polynomial, there are as many as the threshold asks, and the
  accumulator decrypts to \<open>tot\<close>, below the bound, under the polynomial's constant term.
\<close>

definition decryptable ::
  "('s::field, 'p::ab_group_add) curve \<Rightarrow> vkv \<Rightarrow> VoteRound \<Rightarrow> u64 \<Rightarrow> 's list \<Rightarrow> (u32 \<times> u32 \<Rightarrow> u64) \<Rightarrow> bool" where
  "decryptable C s rd N cs tot \<longleftrightarrow> cs \<noteq> [] \<and> length cs \<le> unat (threshold rd) \<and>
     (\<forall>p d. (p, d) \<in> nonEmptyAccs s rd \<longrightarrow> (\<exists>ct. ctOf C s (vote_round_id rd, p, d) = Some ct \<and>
       honestPartials C s (vote_round_id rd) p d (C1 ct) cs \<and>
       unat (threshold rd) \<le> card {i. partialOf s (vote_round_id rd) i (p, d) \<noteq> None} \<and>
       partialOf s (vote_round_id rd) 0 (p, d) = None \<and>
       inj_on (\<lambda>i. of_int (uint i) :: 's) {i. partialOf s (vote_round_id rd) i (p, d) \<noteq> None} \<and>
       DecryptToPoint C (hd cs) ct = ValuePoint C (tot (p, d)) \<and> tot (p, d) < N))"

lemma decryptAccumulator_ok:
  fixes C :: "('s::field, 'p::ab_group_add) curve"
  assumes "curve_ok C" and "bsgs_ok C N" and "UnmarshalCiphertext C b = Inr ct"
    and "cs \<noteq> []" and "length cs \<le> unat (threshold rd)" and "honestPartials C s r p d (C1 ct) cs"
    and "set (entriesAt m (AccumulatorKey p d)) = {withIndex i e |i e. partialOf s r i (p, d) = Some e}"
    and "distinct (map pdi_validator_index (entriesAt m (AccumulatorKey p d)))"
    and "unat (threshold rd) \<le> card {i. partialOf s r i (p, d) \<noteq> None}" and "partialOf s r 0 (p, d) = None"
    and "inj_on (\<lambda>i. of_int (uint i) :: 's) {i. partialOf s r i (p, d) \<noteq> None}"
    and "DecryptToPoint C (hd cs) ct = ValuePoint C v" and "v < N"
  shows "decryptAccumulator C (NewBSGSTable C N) rd m p (d, b) =
    Inr \<lparr>te_proposal_id = p, te_vote_decision = d, te_total_value = v, te_decryption_proof = []\<rparr>"
proof -
  define pds where "pds = entriesAt m (AccumulatorKey p d)"
  define ps where "ps = map (\<lambda>pd. \<lparr>pd_index = uint (pdi_validator_index pd),
    pd_Di = Mul C (C1 ct) (polyVal cs (of_int (uint (pdi_validator_index pd))))\<rparr>) pds"
  have idx: "pdi_validator_index ` set pds = {i. partialOf s r i (p, d) \<noteq> None}"
    unfolding pds_def assms(7) by (auto simp: withIndex_def image_iff) force
  have len: "length pds = card {i. partialOf s r i (p, d) \<noteq> None}"
    using distinct_card[OF assms(8)] by (simp add: pds_def[symmetric] idx)
  have "toShamir C pd = Inr \<lparr>pd_index = uint (pdi_validator_index pd),
    pd_Di = Mul C (C1 ct) (polyVal cs (of_int (uint (pdi_validator_index pd))))\<rparr>" if "pd \<in> set pds" for pd
    using that assms(6) unfolding pds_def assms(7) by (auto simp: honestPartials_def toShamir_def withIndex_def)
  then have ps: "mapR (toShamir C) pds = Inr ps" unfolding ps_def by (rule mapR_total)
  have pos: "0 < length pds" using len assms(4,5,9) by (cases cs) auto
  have mem: "\<exists>i. partialOf s r i (p, d) \<noteq> None \<and> pd_index x = uint i \<and>
      pd_Di x = Mul C (C1 ct) (polyVal cs (of_int (uint i)))" if x: "x \<in> set ps" for x
  proof -
    obtain pd where pd: "pd \<in> set pds" "x = \<lparr>pd_index = uint (pdi_validator_index pd),
      pd_Di = Mul C (C1 ct) (polyVal cs (of_int (uint (pdi_validator_index pd))))\<rparr>"
      using x unfolding ps_def by auto
    then have "partialOf s r (pdi_validator_index pd) (p, d) \<noteq> None" using idx by blast
    then show ?thesis using pd(2) by (intro exI[of _ "pdi_validator_index pd"]) simp
  qed
  have comb: "CombinePartials C ps (uint (threshold rd)) = Inr (Mul C (C1 ct) (hd cs))"
  proof (rule CombinePartials_polynomial[OF assms(1) _ _ _ assms(4)])
    show "ps \<noteq> []" using pos by (auto simp: ps_def)
    show "uint (threshold rd) \<le> int (length ps)"
      unfolding uint_nat of_nat_le_iff using assms(9) len by (simp add: ps_def)
    show "int (length cs) \<le> uint (threshold rd)" unfolding uint_nat of_nat_le_iff by (rule assms(5))
    have "map pd_index ps = map uint (map pdi_validator_index pds)" by (simp add: ps_def)
    then show "distinct (map pd_index ps)"
      using assms(8) unfolding pds_def[symmetric] by (simp only: distinct_map) (simp add: inj_on_def word_uint_eq_iff)
    show "\<forall>x \<in> set ps. 0 < pd_index x"
    proof
      fix x assume "x \<in> set ps"
      then obtain i where "partialOf s r i (p, d) \<noteq> None" "pd_index x = uint i" using mem by blast
      moreover from this assms(10) have "i \<noteq> 0" by metis
      ultimately show "0 < pd_index x" by (simp add: uint_0_iff less_le)
    qed
    show "inj_on (of_int :: int \<Rightarrow> 's) (pd_index ` set ps)"
    proof (rule inj_onI)
      fix a b assume "a \<in> pd_index ` set ps" "b \<in> pd_index ` set ps" and eq: "(of_int a :: 's) = of_int b"
      then obtain x y where xy: "x \<in> set ps" "y \<in> set ps" "a = pd_index x" "b = pd_index y" by blast
      from mem[OF xy(1)] mem[OF xy(2)] obtain i j where "partialOf s r i (p, d) \<noteq> None" "a = uint i"
        "partialOf s r j (p, d) \<noteq> None" "b = uint j" using xy by auto
      then show "a = b" using inj_onD[OF assms(11), of i j] eq by simp
    qed
    show "\<forall>x \<in> set ps. pd_Di x = Mul C (C1 ct) (polyVal cs (of_int (pd_index x)))" using mem by metis
  qed
  have "Solve C (NewBSGSTable C N) (C2 ct - Mul C (C1 ct) (hd cs)) = Inr v"
    using assms(12,13) by (simp add: Solve_bsgs_ok[OF assms(1,2)] DecryptToPoint_def)
  then show ?thesis using assms(3) ps comb pos
    by (simp add: decryptAccumulator_def toShamir_def[abs_def] pds_def[symmetric] Let_def)
qed

lemma mapR_ex:
  "\<forall>x \<in> set xs. \<exists>y. f x = Inr y \<and> Q y \<Longrightarrow> \<exists>ys. mapR f xs = Inr ys \<and> (\<forall>y \<in> set ys. Q y)"
  by (induction xs) auto

lemma decryptRound_ok:
  fixes C :: "('s::field, 'p::ab_group_add) curve"
  assumes "curve_ok C" and "bsgs_ok C N" and "kv_wf s" and "length (vote_round_id rd) = 32"
    and "range_ok rangeOrder" and "decryptable C s rd N cs tot"
  shows "\<exists>es. decryptRoundTalliesThreshold C rangeOrder (NewBSGSTable C N) rd s = (Inr es, s) \<and>
    (\<forall>e \<in> set es. te_total_value e = tot (entryKey e))"
proof -
  let ?r = "vote_round_id rd" and ?t = "NewBSGSTable C N"
  let ?ok = "\<lambda>e. te_total_value e = tot (entryKey e)"
  obtain m tm where h: "\<forall>p d. set (entriesAt m (AccumulatorKey p d)) = {withIndex i e |i e. partialOf s ?r i (p, d) = Some e} \<and>
      distinct (map pdi_validator_index (entriesAt m (AccumulatorKey p d)))"
      "\<forall>p. map_of (tm p) = accOf s ?r p \<and> distinct (map fst (tm p))"
    and run: "decryptRoundTalliesThreshold C rangeOrder ?t rd s = (bindR (mapR (\<lambda>x.
      mapR (decryptAccumulator C ?t rd m (prop_id x)) (rangeOrder (tm (prop_id x)))) (proposals rd)) (\<lambda>ess. Inr (concat ess)), s)"
    using decryptRound_eq[OF assms(3,4), where ?C = C and ?rangeOrder = rangeOrder and ?bsgs = ?t] by (elim exE conjE)
  note pds = h(1)[rule_format, THEN conjunct1] h(1)[rule_format, THEN conjunct2]
  note tm = h(2)[rule_format, THEN conjunct1] h(2)[rule_format, THEN conjunct2]
  have cs: "cs \<noteq> []" "length cs \<le> unat (threshold rd)" using assms(6) unfolding decryptable_def by blast+
  have one: "\<exists>e. decryptAccumulator C ?t rd m (prop_id x) db = Inr e \<and> ?ok e"
    if x: "x \<in> set (proposals rd)" and db: "db \<in> set (rangeOrder (tm (prop_id x)))" for x db
  proof -
    obtain d b where d: "db = (d, b)" by (cases db)
    have "(d, b) \<in> set (tm (prop_id x))" using db by (simp add: range_ok_set[OF assms(5)] d)
    then have acc: "accOf s ?r (prop_id x) d = Some b" using tm(2)[of "prop_id x"] by (simp flip: tm(1))
    then have "(prop_id x, d) \<in> nonEmptyAccs s rd" using x by (simp add: nonEmptyAccs_def)
    then obtain ct where ct: "ctOf C s (?r, prop_id x, d) = Some ct" "honestPartials C s ?r (prop_id x) d (C1 ct) cs"
      "unat (threshold rd) \<le> card {i. partialOf s ?r i (prop_id x, d) \<noteq> None}" "partialOf s ?r 0 (prop_id x, d) = None"
      "inj_on (\<lambda>i. of_int (uint i) :: 's) {i. partialOf s ?r i (prop_id x, d) \<noteq> None}"
      "DecryptToPoint C (hd cs) ct = ValuePoint C (tot (prop_id x, d))" "tot (prop_id x, d) < N"
      using assms(6) unfolding decryptable_def by blast
    have "UnmarshalCiphertext C b = Inr ct" using ct(1) acc by (auto simp: ctOf_def okOpt_def split: sum.splits if_splits)
    from decryptAccumulator_ok[OF assms(1,2) this cs ct(2) pds ct(3-7)] show ?thesis by (simp add: d)
  qed
  have blk: "\<exists>es. mapR (decryptAccumulator C ?t rd m (prop_id x)) (rangeOrder (tm (prop_id x))) = Inr es \<and>
      (\<forall>e \<in> set es. ?ok e)" if "x \<in> set (proposals rd)" for x
    by (rule mapR_ex) (use one that in blast)
  have "\<exists>ess. mapR (\<lambda>x. mapR (decryptAccumulator C ?t rd m (prop_id x)) (rangeOrder (tm (prop_id x)))) (proposals rd) = Inr ess \<and>
      (\<forall>es \<in> set ess. \<forall>e \<in> set es. ?ok e)"
    by (rule mapR_ex) (use blk in blast)
  then obtain ess where "mapR (\<lambda>x. mapR (decryptAccumulator C ?t rd m (prop_id x)) (rangeOrder (tm (prop_id x)))) (proposals rd) = Inr ess"
    "\<forall>es \<in> set ess. \<forall>e \<in> set es. ?ok e" by blast
  then show ?thesis using run by auto
qed

lemma handleVoteAnte_vote:
  assumes "CeremonyMsg w = None" and "VoteMsg w = Some msg"
    and "ValidateVoteTx E C V (w_ext st) c (is_recheck_tx c) msg (w_kv st) = (Inr (), w_kv st)"
  shows "handleVoteAnte E C V c w st = (Inr c, st)"
  using assms by (simp add: handleVoteAnte_def bindM_def thenM_def getM_def kvM_def returnM_def)

lemma card_submitters: "card {i. partialOf s r i k \<noteq> None} \<le> card (submitters s r)"
  by (cases k, rule card_mono) (auto simp: submitters_def)

text \<open>A tally message that fits the round passes every check in front of the handler.\<close>

lemma tally_tx_accepted:
  assumes "proto_ok P" and "kv_wf s" and "EncodeVoteTx P (SubmitTallyMsg msg) = Inr tx" and "2 \<le> length tx"
    and "roundOf s (mt_vote_round_id msg) = Some rd" and "status rd = SESSION_STATUS_TALLYING"
    and "ValidateProposerIsCreator E x c (mt_creator msg) = Inr ()" and "mt_creator msg \<noteq> []"
    and "nonEmptyAccs s rd \<subseteq> entryKey ` set (mt_entries msg)" and "distinct (map entryKey (mt_entries msg))"
    and "\<forall>e \<in> set (mt_entries msg). te_total_value e < TallyBSGSBound"
  shows "validateInjectedTx E C P x c tx s = (Inr (), s) \<and>
    (\<exists>w. CustomTxDecoder P std tx = Inr (VoteTx w) \<and> VoteMsg w = Some (SubmitTallyMsg msg) \<and>
      handleVoteAnte E C V c w \<lparr>w_kv = s, w_ext = x, w_trees = trees\<rparr> =
        (Inr c, \<lparr>w_kv = s, w_ext = x, w_trees = trees\<rparr>))"
proof -
  note dec = DecodeVoteTx_Encode[OF assms(1,3,4)]
  have "hd tx = TagSubmitTally" by (rule EncodeVoteTx_tally[OF assms(3)])
  then have "validateInjectedTx E C P x c tx s = (Inr (), s)"
    using validateInjectedTally_ok[OF assms(2) dec assms(5-7,9,11)] assms(4) by (simp add: validateInjectedTx_def tag_defs)
  moreover have "ValidateVoteTx E C V x c (is_recheck_tx c) (SubmitTallyMsg msg) s = (Inr (), s)"
    by (rule ValidateVoteTx_tally[OF assms(2,5-8,10)])
  moreover have "CustomTxDecoder P std tx =
      Inr (VoteTx \<lparr>RawBytes = tx, Tag = hd tx, VoteMsg = Some (SubmitTallyMsg msg), CeremonyMsg = None\<rparr>)"
    using dec assms(4) vote_tags[of "SubmitTallyMsg msg"] DecodeVoteTx_Inr[OF dec] by (auto simp: CustomTxDecoder_def)
  ultimately show ?thesis by (simp add: handleVoteAnte_vote)
qed

text \<open>What the proposer computes for a decryptable round.\<close>

lemma decryptable_totals:
  fixes C :: "('s::field, 'p::ab_group_add) curve"
  assumes "curve_ok C" and "bsgs_ok C N" and "kv_wf s" and "roundOf s (vote_round_id rd) = Some rd"
    and "range_ok rangeOrder" and "decryptable C s rd N cs tot" and "distinct (map prop_id (proposals rd))"
  shows "\<exists>es m. decryptRoundTalliesThreshold C rangeOrder (NewBSGSTable C N) rd s = (Inr es, s) \<and>
    GetPartialDecryptionsForRound (vote_round_id rd) s = (Inr m, s) \<and> entryKey ` set es = nonEmptyAccs s rd \<and>
    distinct (map entryKey es) \<and> (\<forall>e \<in> set es. goodEntry C s rd m e \<and> te_total_value e < TallyBSGSBound) \<and>
    (\<forall>k \<in> nonEmptyAccs s rd. resultMap es k = Some (tot k)) \<and>
    (nonEmptyAccs s rd \<noteq> {} \<longrightarrow> uint (threshold rd) \<le> int (card (submitters s (vote_round_id rd))))"
proof -
  let ?r = "vote_round_id rd"
  have len: "length ?r = 32" using roundOf_wf[OF assms(3,4)] by simp
  obtain es where es: "decryptRoundTalliesThreshold C rangeOrder (NewBSGSTable C N) rd s = (Inr es, s)"
    "\<forall>e \<in> set es. te_total_value e = tot (entryKey e)"
    using decryptRound_ok[OF assms(1,2,3) len assms(5,6)] by blast
  from decryptRound_Inr[OF assms(1,2,3) len assms(5,7) es(1)] obtain m where
    m: "GetPartialDecryptionsForRound ?r s = (Inr m, s)" and keys: "entryKey ` set es = nonEmptyAccs s rd"
    and rest: "distinct (map entryKey es)" "\<forall>e \<in> set es. goodEntry C s rd m e" by blast
  have "resultMap es k = Some (tot k)" if "k \<in> nonEmptyAccs s rd" for k
  proof -
    have "k \<in> dom (resultMap es)" using that by (simp add: dom_resultMap keys)
    then obtain v where "resultMap es k = Some v" by blast
    with resultMap_Some[OF this] es(2) show ?thesis by auto
  qed
  moreover have "uint (threshold rd) \<le> int (card (submitters s ?r))" if "nonEmptyAccs s rd \<noteq> {}"
  proof -
    from that obtain p d where "(p, d) \<in> nonEmptyAccs s rd" by auto
    then have "unat (threshold rd) \<le> card {i. partialOf s ?r i (p, d) \<noteq> None}"
      using assms(6) unfolding decryptable_def by blast
    with card_submitters[of s ?r "(p, d)"] have "unat (threshold rd) \<le> card (submitters s ?r)" by linarith
    then show ?thesis unfolding uint_nat of_nat_le_iff .
  qed
  moreover have "\<forall>e \<in> set es. te_total_value e < TallyBSGSBound"
    using rest(2) by (simp add: goodEntry_def entryHolds_def)
  ultimately show ?thesis using es(1) m keys rest by blast
qed

text \<open>
  C6. A round that can be decrypted is finalised by the next honest proposer. Let the first
  tallying round be decryptable to the totals \<open>tot\<close>, with accumulators only for options of
  its proposals. Then the tally handler accepts the proposer's totals in that state,
  finalises the round and stores the right total of every non-empty accumulator. The
  transaction the proposer injects is that message; it passes the checks of the other
  validators' \<^verbatim>\<open>ProcessProposal\<close>, the decoder, and the ante handler.
\<close>

theorem honest_tally_finalizes:
  fixes C :: "('s::field, 'p::ab_group_add) curve"
  assumes "curve_ok C" and "proto_ok P" and "kv_wf s" and "range_ok rangeOrder" and "bsgs_ok C N"
    and "dir \<noteq> []" and "filter (\<lambda>rd. status rd = SESSION_STATUS_TALLYING) (roundsOf s) = rd # rest"
    and "decryptable C s rd N cs tot" and "distinct (map prop_id (proposals rd))"
    and "\<forall>p d. (p, d) \<in> nonEmptyAccs s rd \<longrightarrow> ValidateEntryBounds rd p d = Inr ()"
    and "isProposer E x c a" and "a \<noteq> []" and "\<not> is_check_tx c" and "\<not> is_recheck_tx c"
  shows "\<exists>msg s'. SubmitTally E C x c msg s = (Inr (word_of_nat (length (mt_entries msg))), s') \<and>
    roundOf s' (vote_round_id rd) = Some (rd\<lparr>status := SESSION_STATUS_FINALIZED\<rparr>) \<and>
    (\<forall>k \<in> nonEmptyAccs s rd. resultOf s' (vote_round_id rd) k = Some (tot k)) \<and>
    (\<forall>tx. EncodeVoteTx P (SubmitTallyMsg msg) = Inr tx \<and> 2 \<le> length tx \<longrightarrow>
      TallyPrepareProposalHandler E C P rangeOrder (NewBSGSTable C N) dir x (proposer_address c) txs s =
        (Inr (tx # txs), s) \<and>
      validateInjectedTx E C P x c tx s = (Inr (), s) \<and>
      (\<exists>w. CustomTxDecoder P std tx = Inr (VoteTx w) \<and> VoteMsg w = Some (SubmitTallyMsg msg) \<and>
        handleVoteAnte E C V c w \<lparr>w_kv = s, w_ext = x, w_trees = trees\<rparr> =
          (Inr c, \<lparr>w_kv = s, w_ext = x, w_trees = trees\<rparr>)))"
proof -
  let ?r = "vote_round_id rd" and ?t = "NewBSGSTable C N"
  have rd: "roundOf s ?r = Some rd" "status rd = SESSION_STATUS_TALLYING" "length ?r = 32"
  proof -
    have "rd \<in> set (filter (\<lambda>rd. status rd = SESSION_STATUS_TALLYING) (roundsOf s))" by (simp add: assms(7))
    then show "status rd = SESSION_STATUS_TALLYING" "roundOf s ?r = Some rd" "length ?r = 32"
      using roundOf_wf[OF assms(3)] by (auto simp: mem_roundsOf_iff[OF assms(3)])
  qed
  from decryptable_totals[OF assms(1,5,3) rd(1) assms(4,8,9)] obtain es m where
    es: "decryptRoundTalliesThreshold C rangeOrder ?t rd s = (Inr es, s)" "distinct (map entryKey es)"
      "\<forall>e \<in> set es. goodEntry C s rd m e \<and> te_total_value e < TallyBSGSBound"
    and m: "GetPartialDecryptionsForRound ?r s = (Inr m, s)" and keys: "entryKey ` set es = nonEmptyAccs s rd"
    and tot: "\<forall>k \<in> nonEmptyAccs s rd. resultMap es k = Some (tot k)"
    and cnt: "nonEmptyAccs s rd \<noteq> {} \<longrightarrow> uint (threshold rd) \<le> int (card (submitters s ?r))" by blast
  have vp: "ValidateProposerIsCreator E x c a = Inr ()"
    using assms(11,13,14) by (simp add: ValidateProposerIsCreator_Inr_iff)
  have bounds: "\<forall>e \<in> set es. ValidateEntryBounds rd (te_proposal_id e) (te_vote_decision e) = Inr ()"
    using keys assms(10) by blast
  define msg where "msg = \<lparr>mt_vote_round_id = ?r, mt_creator = a, mt_entries = es\<rparr>"
  obtain s' where s': "SubmitTally E C x c msg s = (Inr (word_of_nat (length es)), s')"
    "roundOf s' ?r = Some (rd\<lparr>status := SESSION_STATUS_FINALIZED\<rparr>)" "resultOf s' ?r = resultOf s ?r ++ resultMap es"
    using SubmitTally_finalizes[OF assms(1,3) vp rd(1,2) m, of es] bounds es(3) keys unfolding msg_def by blast
  have resolve: "resolveProposer E x (proposer_address c) = Inr a"
    using assms(11) by (auto simp: isProposer_def resolveProposer_def)
  have prep: "TallyPrepareProposalHandler E C P rangeOrder ?t dir x (proposer_address c) txs s = (Inr (tx # txs), s)"
    if "EncodeVoteTx P (SubmitTallyMsg msg) = Inr tx" for tx
    by (rule tallyPrepare_ok[OF assms(3,6) resolve assms(7) es(1)]) (use keys cnt that msg_def in auto)
  have tx: "validateInjectedTx E C P x c tx s = (Inr (), s) \<and>
      (\<exists>w. CustomTxDecoder P std tx = Inr (VoteTx w) \<and> VoteMsg w = Some (SubmitTallyMsg msg) \<and>
        handleVoteAnte E C V c w \<lparr>w_kv = s, w_ext = x, w_trees = trees\<rparr> =
          (Inr c, \<lparr>w_kv = s, w_ext = x, w_trees = trees\<rparr>))"
    if enc: "EncodeVoteTx P (SubmitTallyMsg msg) = Inr tx" "2 \<le> length tx" for tx
    by (rule tally_tx_accepted[OF assms(2,3) enc, where ?rd = rd])
      (use rd vp assms(12) keys es in \<open>simp_all add: msg_def\<close>)
  show ?thesis
    using s' tot prep tx by (intro exI[of _ msg] exI[of _ s']) (auto simp: msg_def map_add_def)
qed

text \<open>The sample round: one share of value 3, and the only validator's partial decryption.\<close>

lemma decryptedStore_partials:
  "partialOf decryptedStore sampleRoundID i (1, 0) = (if i = 1 then Some sampleDecryption else None)"
  using partialKey_inject[of sampleRoundID sampleRoundID i 1 0 1 1 0]
  by (auto simp: partialOf_def decryptedStore_def tallyStore_def view_def kv_get_def okOpt_def
      sampleRoundID_def) (simp_all add: partialKey_def tallyKey_def)

lemma decryptedStore_accs: "nonEmptyAccs decryptedStore sampleTallying = {(1, 0)}"
proof -
  have "accOf decryptedStore sampleRoundID p d \<noteq> None \<longleftrightarrow> p = 1 \<and> d = 0" for p d
    using tallyKey_inject[of sampleRoundID sampleRoundID p d 1 0]
    by (auto simp: accOf_def decryptedStore_def tallyStore_def view_def kv_get_def okOpt_def sampleRoundID_def)
      (simp_all add: partialKey_def tallyKey_def)
  then show ?thesis by (auto simp: nonEmptyAccs_def sampleTallying_def sampleRound_def)
qed

lemma decryptedStore_decryptable: "decryptable curve7 decryptedStore sampleTallying 4 [F2] (\<lambda>_. 3)"
proof -
  have ct: "ctOf curve7 decryptedStore (sampleRoundID, 1, 0) = Some \<lparr>C1 = F3, C2 = F1\<rparr>" by code_simp
  have "DecryptToPoint curve7 F2 \<lparr>C1 = F3, C2 = F1\<rparr> = ValuePoint curve7 3" by code_simp
  moreover have "{i. partialOf decryptedStore sampleRoundID i (1, 0) \<noteq> None} = {1}"
    by (auto simp: decryptedStore_partials)
  ultimately show ?thesis using ct sampleTally_honest
    unfolding decryptable_def decryptedStore_accs
    by (simp add: sampleTallying_def sampleRound_def decryptedStore_partials)
qed

theorem honest_tally_finalizes_witness:
  "\<exists>msg s'. SubmitTally sampleEnv curve7 () sampleCtx msg decryptedStore = (Inr (word_of_nat (length (mt_entries msg))), s') \<and>
     resultOf s' sampleRoundID (1, 0) = Some 3"
proof -
  have "ceilSqrt 4 = 2" by code_simp
  moreover have "inj_on (of_nat :: nat \<Rightarrow> f7) {..<unat (4 :: u64)}"
    by (simp add: inj_on_def numeral_f7 one_f7_def zero_f7_def plus_f7_def of7_def lessThan_nat_numeral)
  ultimately have bsgs: "bsgs_ok curve7 4" by (simp add: bsgs_ok_def TallyBSGSBound_def)
  have "roundsOf decryptedStore = [sampleTallying]" by code_simp
  then have rounds: "filter (\<lambda>rd. status rd = SESSION_STATUS_TALLYING) (roundsOf decryptedStore) = sampleTallying # []"
    by (simp add: sampleTallying_def sampleRound_def)
  have range: "range_ok (\<lambda>m. m)" by (simp add: range_ok_def)
  have h: "distinct (map prop_id (proposals sampleTallying))" "isProposer sampleEnv () sampleCtx [1]"
    "\<not> is_check_tx sampleCtx" "\<not> is_recheck_tx sampleCtx" "[1] \<noteq> ([] :: gostring)"
    by (simp_all add: isProposer_def sampleEnv_def sampleStaking_def sampleCtx_def sampleTallying_def sampleRound_def)
  have "ValidateEntryBounds sampleTallying 1 0 = Inr ()" by code_simp
  then have b: "\<forall>p d. (p, d) \<in> nonEmptyAccs decryptedStore sampleTallying \<longrightarrow> ValidateEntryBounds sampleTallying p d = Inr ()"
    by (simp add: decryptedStore_accs)
  have r: "vote_round_id sampleTallying = sampleRoundID" by (simp add: sampleTallying_def sampleRound_def)
  from honest_tally_finalizes[OF curve7_ok sampleProto_ok decryptedStore_wf range bsgs h(5) rounds
      decryptedStore_decryptable h(1) b h(2,5,3,4)]
  show ?thesis unfolding decryptedStore_accs r by blast
qed

end
