(* ===== verification/Query_Server.thy ===== *)
theory Query_Server
  imports Proposal
begin

text \<open>
  The query server of the vote module, \<^verbatim>\<open>src/x/vote/keeper/query_server.go\<close>: one
  definition per query, with the gRPC status it answers on every error path, and what the
  answers say about the store. A \<^verbatim>\<open>nil\<close> request is \<open>None\<close>; a request or response message
  with a single field is that field.
\<close>

section \<open>Answers\<close>

datatype grpcCode = InvalidArgument | NotFound | Internal | GrpcPanic

type_synonym 'a query = "vkv \<Rightarrow> (grpcCode + 'a) \<times> vkv"

definition respond :: "'a \<Rightarrow> 'a query" where
  "respond a = (\<lambda>s. (Inr a, s))"

definition refuse :: "grpcCode \<Rightarrow> 'a query" where
  "refuse code = (\<lambda>s. (Inl code, s))"

definition refuseIf :: "bool \<Rightarrow> grpcCode \<Rightarrow> 'a query \<Rightarrow> 'a query" where
  "refuseIf c code q = (if c then refuse code else q)"

text \<open>\<^verbatim>\<open>if err != nil { return nil, status.Errorf(code, ...) }\<close> after a keeper call.\<close>

definition orStatus :: "(verr \<Rightarrow> grpcCode) \<Rightarrow> (vkv, 'a) M \<Rightarrow> ('a \<Rightarrow> 'b query) \<Rightarrow> 'b query" where
  "orStatus code m k = (\<lambda>s. case m s of
       (Inl e, t) \<Rightarrow> (Inl (if e = GoPanic then GrpcPanic else code e), t)
     | (Inr a, t) \<Rightarrow> k a t)"

definition withRequest :: "'r option \<Rightarrow> ('r \<Rightarrow> 'a query) \<Rightarrow> 'a query" where
  "withRequest req q = (case req of None \<Rightarrow> refuse InvalidArgument | Some r \<Rightarrow> q r)"

definition checkRoundID :: "bytes \<Rightarrow> 'a query \<Rightarrow> 'a query" where
  "checkRoundID roundID q = refuseIf (length roundID \<noteq> RoundIDLen) InvalidArgument q"

section \<open>Capabilities\<close>

record QueryProtocolCapabilitiesResponse =
  pc_atomic_cast_vote_batch :: bool
  pc_atomic_delegate_and_cast_vote_batch :: bool
  pc_atomic_delegate_and_cast_vote_batch_wire_tag :: u32

definition ProtocolCapabilities :: "QueryProtocolCapabilitiesResponse query" where
  "ProtocolCapabilities = respond \<lparr>pc_atomic_cast_vote_batch = True,
     pc_atomic_delegate_and_cast_vote_batch = True,
     pc_atomic_delegate_and_cast_vote_batch_wire_tag = 0x07\<rparr>"

section \<open>The commitment tree\<close>

definition CommitmentTreeAtHeight :: "(bytes \<times> u64) option \<Rightarrow> CommitmentTreeState query" where
  "CommitmentTreeAtHeight req =
     withRequest req (\<lambda>(roundID, h).
     checkRoundID roundID (
     orStatus (\<lambda>_. Internal) (GetCommitmentRootAtHeight roundID h) (\<lambda>root. case root of
       None \<Rightarrow> refuse NotFound
     | Some root \<Rightarrow>
         orStatus (\<lambda>_. Internal) (GetBlockLeafIndex roundID h) (\<lambda>found.
         let nextIndex = (case found of None \<Rightarrow> 0 | Some (startIndex, n) \<Rightarrow> startIndex + n) in
         respond (emptyTreeState\<lparr>tree_root := root, tree_height := h, next_index := nextIndex\<rparr>)))))"

definition LatestCommitmentTree :: "bytes option \<Rightarrow> CommitmentTreeState query" where
  "LatestCommitmentTree req =
     withRequest req (\<lambda>roundID.
     checkRoundID roundID (
     orStatus (\<lambda>_. Internal) (GetCommitmentTreeState roundID) respond))"

record QueryCommitmentLeavesRequest =
  cl_vote_round_id :: bytes
  cl_from_height :: u64
  cl_to_height :: u64

definition CommitmentLeaves ::
  "ctx \<Rightarrow> QueryCommitmentLeavesRequest option \<Rightarrow> (BlockCommitments list \<times> u64) query" where
  "CommitmentLeaves c req =
     withRequest req (\<lambda>req.
     checkRoundID (cl_vote_round_id req) (
     refuseIf (cl_to_height req \<noteq> 0 \<and> cl_to_height req < cl_from_height req) InvalidArgument (
     let toHeight =
       (if cl_to_height req = 0 then (if block_height c \<le> 0 then 0 else word_of_int (block_height c))
        else cl_to_height req) in
     if toHeight < cl_from_height req then respond ([], 0)
     else orStatus (\<lambda>_. Internal)
            (GetCommitmentLeaves (cl_vote_round_id req) (cl_from_height req) toHeight) respond)))"

section \<open>Rounds\<close>

definition VoteRoundQuery :: "bytes option \<Rightarrow> VoteRound query" where
  "VoteRoundQuery req =
     withRequest req (\<lambda>roundID.
     checkRoundID roundID (
     orStatus (\<lambda>_. NotFound) (GetVoteRound roundID) respond))"

definition ListRounds :: "unit option \<Rightarrow> VoteRound list query" where
  "ListRounds req =
     withRequest req (\<lambda>_.
     orStatus (\<lambda>_. Internal) (IterateAllRounds (\<lambda>rd rounds. (False, rounds @ [rd])) []) respond)"

record QueryRoundOverviewResponse =
  ro_current_rounds :: "VoteRound list"
  ro_completed_round_count :: u64

definition RoundOverview :: "unit option \<Rightarrow> QueryRoundOverviewResponse query" where
  "RoundOverview req =
     withRequest req (\<lambda>_.
     orStatus (\<lambda>_. Internal)
       (IterateAllRounds (\<lambda>rd resp.
          (False,
           if status rd = SESSION_STATUS_FINALIZED \<or> status rd = SESSION_STATUS_CEREMONY_FAILED
           then resp\<lparr>ro_completed_round_count := ro_completed_round_count resp + 1\<rparr>
           else resp\<lparr>ro_current_rounds := ro_current_rounds resp @ [rd]\<rparr>))
        \<lparr>ro_current_rounds = [], ro_completed_round_count = 0\<rparr>) respond)"

definition ActiveRound :: "unit option \<Rightarrow> VoteRound query" where
  "ActiveRound req =
     withRequest req (\<lambda>_.
     orStatus (\<lambda>_. Internal) (IterateActiveRounds (\<lambda>rd _. (True, Some rd)) None) (\<lambda>found.
     case found of None \<Rightarrow> refuse NotFound | Some rd \<Rightarrow> respond rd))"

definition ceremonyOf :: "VoteRound \<Rightarrow> CeremonyState" where
  "ceremonyOf rd = \<lparr>cs_status = ceremony_status rd, cs_ea_pk = ea_pk rd,
     cs_validators = ceremony_validators rd, cs_acks = ceremony_acks rd,
     cs_phase_start = ceremony_phase_start rd, cs_phase_timeout = ceremony_phase_timeout rd,
     cs_threshold = threshold rd, cs_feldman_commitments = feldman_commitments rd\<rparr>"

definition CeremonyStateQuery :: "unit option \<Rightarrow> CeremonyState option query" where
  "CeremonyStateQuery req =
     withRequest req (\<lambda>_.
     orStatus (\<lambda>_. Internal)
       (IterateAllRounds (\<lambda>rd source.
          if status rd = SESSION_STATUS_PENDING then (True, Some rd)
          else if ceremony_status rd = CEREMONY_STATUS_CONFIRMED then (False, Some rd)
          else (False, source)) None) (\<lambda>source.
     case source of None \<Rightarrow> respond None | Some rd \<Rightarrow> respond (Some (ceremonyOf rd))))"

section \<open>Tallies\<close>

definition ProposalTally :: "(bytes \<times> u32) option \<Rightarrow> (u32 \<times> bytes) list query" where
  "ProposalTally req =
     withRequest req (\<lambda>(roundID, proposalID).
     checkRoundID roundID (
     orStatus (\<lambda>_. Internal) (GetProposalTally roundID proposalID) respond))"

definition TallyResults :: "bytes option \<Rightarrow> TallyResult list query" where
  "TallyResults req =
     withRequest req (\<lambda>roundID.
     checkRoundID roundID (
     orStatus (\<lambda>_. Internal) (GetAllTallyResults roundID) respond))"

definition VoteSummary :: "bytes option \<Rightarrow> QueryVoteSummaryResponse query" where
  "VoteSummary req =
     withRequest req (\<lambda>roundID.
     checkRoundID roundID (
     orStatus (\<lambda>_. Internal) (GetVoteSummary roundID) respond))"

record StoredPartialDecryption =
  sp_validator_index :: u32
  sp_proposal_id :: u32
  sp_vote_decision :: u32
  sp_partial_decrypt :: bytes
  sp_dleq_proof :: bytes

text \<open>The two halves of an accumulator's map key, and the loop over the entries of one key.\<close>

definition storedPartials :: "u64 \<times> PartialDecryptionWithIndex list \<Rightarrow> StoredPartialDecryption list" where
  "storedPartials = (\<lambda>(accumulatorKey, partials).
     let proposalID = ucast (drop_bit 32 accumulatorKey); voteDecision = ucast accumulatorKey in
     map (\<lambda>p. \<lparr>sp_validator_index = pdi_validator_index p, sp_proposal_id = proposalID,
       sp_vote_decision = voteDecision, sp_partial_decrypt = pdi_partial_decrypt p,
       sp_dleq_proof = pdi_dleq_proof p\<rparr>) partials)"

definition entriesLess :: "StoredPartialDecryption \<Rightarrow> StoredPartialDecryption \<Rightarrow> bool" where
  "entriesLess a b =
     (if sp_proposal_id a \<noteq> sp_proposal_id b then sp_proposal_id a < sp_proposal_id b
      else if sp_vote_decision a \<noteq> sp_vote_decision b then sp_vote_decision a < sp_vote_decision b
      else sp_validator_index a < sp_validator_index b)"

text \<open>
  \<^verbatim>\<open>sort.Slice\<close>, which is not stable: elements that compare as equal may come in any order.
  The sorting below is one of them; the list it is applied to has no two such elements.
\<close>

fun insertBy :: "('a \<Rightarrow> 'a \<Rightarrow> bool) \<Rightarrow> 'a \<Rightarrow> 'a list \<Rightarrow> 'a list" where
  "insertBy lt x [] = [x]"
| "insertBy lt x (y # ys) = (if lt y x then y # insertBy lt x ys else x # y # ys)"

definition sortSlice :: "('a \<Rightarrow> 'a \<Rightarrow> bool) \<Rightarrow> 'a list \<Rightarrow> 'a list" where
  "sortSlice lt xs = foldr (insertBy lt) xs []"

definition PartialDecryptions ::
  "((u64 \<times> PartialDecryptionWithIndex list) list \<Rightarrow> (u64 \<times> PartialDecryptionWithIndex list) list) \<Rightarrow>
   bytes option \<Rightarrow> StoredPartialDecryption list query" where
  "PartialDecryptions rangeOrder req =
     withRequest req (\<lambda>roundID.
     checkRoundID roundID (
     orStatus (\<lambda>_. Internal) (GetPartialDecryptionsForRound roundID) (\<lambda>partialsByAccumulator.
     let entries = concat (map storedPartials (rangeOrder partialsByAccumulator)) in
     respond (sortSlice entriesLess entries))))"

section \<open>Governance and registries\<close>

record QueryVoteManagersResponse =
  qvm_vote_manager_addresses :: "gostring list"
  qvm_threshold :: u32
  qvm_min_ceremony_validators :: u32

definition VoteManagersQuery :: "unit option \<Rightarrow> QueryVoteManagersResponse query" where
  "VoteManagersQuery req =
     withRequest req (\<lambda>_.
     orStatus (\<lambda>_. Internal) GetVoteManagers (\<lambda>st.
     orStatus (\<lambda>_. Internal) GetMinCeremonyValidators (\<lambda>minCeremonyValidators.
     respond (case st of
        None \<Rightarrow> \<lparr>qvm_vote_manager_addresses = [], qvm_threshold = 0,
                 qvm_min_ceremony_validators = minCeremonyValidators\<rparr>
      | Some st \<Rightarrow> \<lparr>qvm_vote_manager_addresses = vm_addresses st, qvm_threshold = vm_threshold st,
                    qvm_min_ceremony_validators = minCeremonyValidators\<rparr>))))"

definition CoordinatorActionQuery :: "ctx \<Rightarrow> u64 option \<Rightarrow> CoordinatorAction query" where
  "CoordinatorActionQuery c req =
     withRequest req (\<lambda>actionID.
     refuseIf (actionID = 0) InvalidArgument (
     orStatus (\<lambda>e. if e = ErrCoordinatorActionNotFound then NotFound else Internal)
       (GetCoordinatorAction actionID) (\<lambda>action.
     respond
       (if action_status action = COORDINATOR_ACTION_STATUS_PENDING \<and> coordinatorActionExpired c action
        then action\<lparr>action_status := COORDINATOR_ACTION_STATUS_EXPIRED\<rparr> else action))))"

definition PendingCoordinatorActions :: "ctx \<Rightarrow> unit option \<Rightarrow> CoordinatorAction list query" where
  "PendingCoordinatorActions c req =
     withRequest req (\<lambda>_.
     orStatus (\<lambda>_. Internal)
       (IteratePendingCoordinatorActions (\<lambda>action actions.
          if coordinatorActionExpired c action then (False, actions)
          else (False, actions @ [action])) []) respond)"

definition PallasKeys :: "unit option \<Rightarrow> ValidatorPallasKey list query" where
  "PallasKeys req =
     withRequest req (\<lambda>_.
     orStatus (\<lambda>_. Internal) (IterateAllPallasKeys (\<lambda>vpk keys. (False, keys @ [vpk])) []) respond)"

definition Endorsers :: "unit option \<Rightarrow> Endorser list query" where
  "Endorsers req =
     withRequest req (\<lambda>_.
     orStatus (\<lambda>_. Internal) (IterateEndorsers (\<lambda>e endorsers. (False, endorsers @ [e])) []) respond)"

definition EndorsedRounds :: "gostring option \<Rightarrow> bytes list query" where
  "EndorsedRounds req =
     withRequest req (\<lambda>endorserID.
     case ValidateEndorserID endorserID of
       Inl _ \<Rightarrow> refuse InvalidArgument
     | Inr _ \<Rightarrow>
         orStatus (\<lambda>_. Internal)
           (IterateEndorsedRounds endorserID (\<lambda>roundID roundIDs. (False, roundIDs @ [roundID])) []) respond)"

section \<open>What the answers say about the store\<close>

lemma query_simps [simp]:
  "withRequest None q = refuse InvalidArgument" "withRequest (Some x) q = q x"
  "length r = 32 \<Longrightarrow> checkRoundID r q' = q'"
  "m s = (Inr a, t) \<Longrightarrow> orStatus code m k s = k a t"
  "respond b s = (Inr b, s)" "refuse z s = (Inl z, s)"
  by (simp_all add: withRequest_def checkRoundID_def refuseIf_def RoundIDLen_def orStatus_def respond_def refuse_def)

lemma orStatus_rounds:
  "kv_wf s \<Longrightarrow> orStatus code (iterateRounds filt cb acc) k s = k (foldUntil cb acc (filter filt (roundsOf s))) s"
  by (simp add: iterateRounds_wf)

lemma foldUntil_append: "foldUntil (\<lambda>x acc. (False, acc @ [x])) acc xs = acc @ xs"
  by (induction xs arbitrary: acc) simp_all

lemma ListRounds_wf: "kv_wf s \<Longrightarrow> ListRounds (Some ()) s = (Inr (roundsOf s), s)"
  by (simp add: ListRounds_def IterateAllRounds_def iterateRounds_wf foldUntil_append)

text \<open>A round that is over, finalized or failed.\<close>

definition completed :: "VoteRound \<Rightarrow> bool" where
  "completed rd \<longleftrightarrow> status rd = SESSION_STATUS_FINALIZED \<or> status rd = SESSION_STATUS_CEREMONY_FAILED"

lemma foldUntil_overview:
  "foldUntil (\<lambda>rd resp. (False, if completed rd
      then resp\<lparr>ro_completed_round_count := ro_completed_round_count resp + 1\<rparr>
      else resp\<lparr>ro_current_rounds := ro_current_rounds resp @ [rd]\<rparr>))
    \<lparr>ro_current_rounds = cs, ro_completed_round_count = n\<rparr> rds =
   \<lparr>ro_current_rounds = cs @ filter (\<lambda>rd. \<not> completed rd) rds,
    ro_completed_round_count = n + word_of_nat (length (filter completed rds))\<rparr>"
  by (induction rds arbitrary: cs n) simp_all

lemma RoundOverview_wf:
  assumes "kv_wf s"
  shows "RoundOverview (Some ()) s =
    (Inr \<lparr>ro_current_rounds = filter (\<lambda>rd. \<not> completed rd) (roundsOf s),
          ro_completed_round_count = word_of_nat (length (filter completed (roundsOf s)))\<rparr>, s)"
  by (simp add: RoundOverview_def IterateAllRounds_def orStatus_rounds[OF assms] foldUntil_overview
      flip: completed_def)

lemma foldUntil_first: "foldUntil (\<lambda>x _. (True, Some x)) None xs = (case xs of [] \<Rightarrow> None | x # _ \<Rightarrow> Some x)"
  by (cases xs) simp_all

lemma ActiveRound_wf:
  assumes "kv_wf s"
  shows "ActiveRound (Some ()) s =
    ((case find (\<lambda>rd. status rd = SESSION_STATUS_ACTIVE) (roundsOf s) of
        None \<Rightarrow> Inl NotFound | Some rd \<Rightarrow> Inr rd), s)"
proof -
  have "(case filter P xs of [] \<Rightarrow> None | x # _ \<Rightarrow> Some x) = find P xs" for P :: "VoteRound \<Rightarrow> bool" and xs
    by (induction xs) simp_all
  then show ?thesis
    by (simp add: ActiveRound_def IterateActiveRounds_def orStatus_rounds[OF assms] foldUntil_first
        split: option.split)
qed

text \<open>The first element that stops the scan, else the last that was noted.\<close>

definition firstOrLast :: "('a \<Rightarrow> bool) \<Rightarrow> ('a \<Rightarrow> bool) \<Rightarrow> 'a list \<Rightarrow> 'a option" where
  "firstOrLast stop note xs =
     (case find stop xs of Some x \<Rightarrow> Some x
      | None \<Rightarrow> if filter note xs = [] then None else Some (last (filter note xs)))"

lemma foldUntil_first_or_last:
  "foldUntil (\<lambda>x acc. if stop x then (True, Some x) else if note x then (False, Some x) else (False, acc)) acc xs =
     (case firstOrLast stop note xs of None \<Rightarrow> acc | Some x \<Rightarrow> Some x)"
  by (induction xs arbitrary: acc) (auto simp: firstOrLast_def split: option.splits)

lemma CeremonyStateQuery_wf:
  assumes "kv_wf s"
  shows "CeremonyStateQuery (Some ()) s =
    (Inr (map_option ceremonyOf (firstOrLast (\<lambda>rd. status rd = SESSION_STATUS_PENDING)
       (\<lambda>rd. ceremony_status rd = CEREMONY_STATUS_CONFIRMED) (roundsOf s))), s)"
  by (simp add: CeremonyStateQuery_def IterateAllRounds_def orStatus_rounds[OF assms]
      foldUntil_first_or_last split: option.split)

text \<open>The coordinator actions in the order of their ids.\<close>

definition actionsOf :: "vkv \<Rightarrow> CoordinatorAction list" where
  "actionsOf s = decoded decodeAction (kv_scan CoordinatorActionPrefix s)"

lemma action_decodes:
  assumes "kv_wf s" and "(k, v) \<in> set (kv_scan CoordinatorActionPrefix s)"
  shows "\<exists>a. decodeAction v = Inr a"
proof -
  from assms have "kv_get s k = Some v" "prefix CoordinatorActionPrefix k"
    by (simp_all add: kv_scan_iff[OF kv_wf_ok])
  with kv_wf_get[OF assms(1), of k v] show ?thesis
    by (cases v) (auto simp: key_simps prefix_def entry_ok_def)
qed

lemma mem_actionsOf_iff:
  assumes "kv_wf s"
  shows "a \<in> set (actionsOf s) \<longleftrightarrow> actionOf s (action_id a) = Some a"
proof -
  have "k = CoordinatorActionKey (action_id a)"
    if "kv_get s k = Some v" "prefix CoordinatorActionPrefix k" "decodeAction v = Inr a" for k v
    using kv_wf_get[OF assms that(1)] that(2,3) by (cases v) (auto simp: key_simps prefix_def entry_ok_def)
  moreover have "prefix CoordinatorActionPrefix (CoordinatorActionKey (action_id a))" by (simp add: key_simps)
  ultimately show ?thesis
    by (auto simp: actionsOf_def mem_decoded_iff kv_scan_iff[OF kv_wf_ok[OF assms]] actionOf_def view_Some_iff)
qed

lemma PendingCoordinatorActions_wf:
  assumes "kv_wf s"
  shows "PendingCoordinatorActions c (Some ()) s =
    (Inr (filter (\<lambda>a. action_status a = COORDINATOR_ACTION_STATUS_PENDING \<and> \<not> coordinatorActionExpired c a)
       (actionsOf s)), s)"
proof -
  let ?cb = "\<lambda>a acc. if action_status a \<noteq> COORDINATOR_ACTION_STATUS_PENDING then (False, acc)
    else if coordinatorActionExpired c a then (False, acc) else (False, acc @ [a])"
  have "iterLoop decodeAction (\<lambda>_. True) ?cb acc (kv_scan CoordinatorActionPrefix s) =
      Inr (foldUntil ?cb acc (actionsOf s))" for acc
    using iterLoop_decoded[of "kv_scan CoordinatorActionPrefix s" decodeAction "\<lambda>_. True" ?cb acc]
      action_decodes[OF assms] by (simp add: actionsOf_def)
  moreover have "foldUntil ?cb acc as = acc @ filter (\<lambda>a. action_status a = COORDINATOR_ACTION_STATUS_PENDING \<and>
      \<not> coordinatorActionExpired c a) as" for acc as
    by (induction as arbitrary: acc) auto
  ultimately have "IteratePendingCoordinatorActions (\<lambda>action actions.
      if coordinatorActionExpired c action then (False, actions) else (False, actions @ [action])) [] s =
    (Inr (filter (\<lambda>a. action_status a = COORDINATOR_ACTION_STATUS_PENDING \<and> \<not> coordinatorActionExpired c a)
       (actionsOf s)), s)"
    by (simp add: IteratePendingCoordinatorActions_def IterateCoordinatorActions_def kvScan_def bindM_def
        getM_def liftR_def)
  then show ?thesis by (simp add: PendingCoordinatorActions_def)
qed

section \<open>The sorted partial decryptions\<close>

lemma mset_sortSlice [simp]: "mset (sortSlice lt xs) = mset xs"
proof -
  have "mset (insertBy lt x ys) = add_mset x (mset ys)" for x ys by (induction ys) auto
  then show ?thesis unfolding sortSlice_def by (induction xs) simp_all
qed

lemma set_sortSlice [simp]: "set (sortSlice lt xs) = set xs"
  by (metis mset_sortSlice set_mset_mset)

lemma sorted_insertBy:
  assumes "transp lt" and "sorted_wrt lt ys" and "\<And>y. y \<in> set ys \<Longrightarrow> lt x y \<or> lt y x"
  shows "sorted_wrt lt (insertBy lt x ys)"
  using assms(2,3)
proof (induction ys)
  case (Cons y ys)
  have ins: "set (insertBy lt x ys) = insert x (set ys)" by (induction ys) auto
  show ?case
  proof (cases "lt y x")
    case True
    then show ?thesis using Cons ins by simp
  next
    case False
    then have "lt x y" using Cons.prems(2) by auto
    then show ?thesis using False Cons.prems(1) assms(1) by (auto dest: transpD)
  qed
qed simp

lemma sorted_sortSlice:
  assumes "transp lt" and "distinct xs" and "\<And>x y. x \<in> set xs \<Longrightarrow> y \<in> set xs \<Longrightarrow> x \<noteq> y \<Longrightarrow> lt x y \<or> lt y x"
  shows "sorted_wrt lt (sortSlice lt xs)"
  using assms(2,3)
proof (induction xs)
  case (Cons x xs)
  have "set (foldr (insertBy lt) xs []) = set xs" using set_sortSlice[of lt xs] by (simp add: sortSlice_def)
  with Cons sorted_insertBy[OF assms(1), of "sortSlice lt xs" x] show ?case by (auto simp: sortSlice_def)
qed (simp add: sortSlice_def)

lemma sorted_wrt_unique:
  assumes "sorted_wrt lt xs" and "sorted_wrt lt ys" and "set xs = set ys" and "\<And>x y. lt x y \<Longrightarrow> \<not> lt y x"
  shows "xs = ys"
  using assms(1-3)
proof (induction xs arbitrary: ys)
  case (Cons x xs)
  then obtain y ys' where ys: "ys = y # ys'" by (cases ys) auto
  have xy: "x = y"
  proof (rule ccontr)
    assume "x \<noteq> y"
    with Cons.prems ys have "x \<in> set ys'" "y \<in> set xs" by auto
    with Cons.prems ys assms(4)[of x y] show False by auto
  qed
  have "x \<notin> set xs" "x \<notin> set ys'" using Cons.prems ys xy assms(4)[of x x] by auto
  with Cons.prems(3) have "set xs = set ys'" unfolding ys xy by auto
  with Cons ys xy show ?case by auto
qed simp

lemma entriesLess_order:
  "transp entriesLess" "entriesLess a b \<Longrightarrow> \<not> entriesLess b a"
  "(sp_proposal_id a, sp_vote_decision a, sp_validator_index a) \<noteq>
     (sp_proposal_id b, sp_vote_decision b, sp_validator_index b) \<Longrightarrow> entriesLess a b \<or> entriesLess b a"
  by (auto simp: entriesLess_def transp_def split: if_splits)

lemma AccumulatorKey_halves: "AccumulatorKey (ucast (drop_bit 32 k)) (ucast k) = k"
  unfolding AccumulatorKey_def by (auto simp: bit_eq_iff bit_simps dest: bit_imp_le_length)

lemma halves_AccumulatorKey: "ucast (drop_bit 32 (AccumulatorKey p d)) = p" "ucast (AccumulatorKey p d) = d"
  unfolding AccumulatorKey_def by (auto simp: bit_eq_iff bit_simps dest: bit_imp_le_length)

text \<open>The map of partial decryptions has each accumulator once.\<close>

lemma partialsLoop_distinct:
  "partialsLoop n m es = Inr m' \<Longrightarrow> distinct (map fst m) \<Longrightarrow> distinct (map fst m')"
proof (induction n m es rule: partialsLoop.induct)
  case (2 n m k v es)
  then show ?case
    by (auto simp: bindR_Inr_iff mapAppend_def distinct_mapPut split: option.splits)
qed simp

lemma GetPartialDecryptionsForRound_distinct:
  "GetPartialDecryptionsForRound r s = (Inr m, s') \<Longrightarrow> distinct (map fst m)"
  by (auto simp: GetPartialDecryptionsForRound_def succ_iffs dest: partialsLoop_distinct)

definition storedPartial :: "u32 \<Rightarrow> u32 \<times> u32 \<Rightarrow> PartialDecryptionEntry \<Rightarrow> StoredPartialDecryption" where
  "storedPartial i = (\<lambda>(p, d) e. \<lparr>sp_validator_index = i, sp_proposal_id = p, sp_vote_decision = d,
     sp_partial_decrypt = pd_partial_decrypt e, sp_dleq_proof = pd_dleq_proof e\<rparr>)"

lemma storedPartials_distinct:
  assumes "distinct (map fst m)"
    and "\<And>p d. distinct (map pdi_validator_index (entriesAt m (AccumulatorKey p d)))"
  shows "distinct (map (\<lambda>e. (AccumulatorKey (sp_proposal_id e) (sp_vote_decision e), sp_validator_index e))
    (concat (map storedPartials m)))"
proof (rule concat_distinct_keys[OF assms(1)], goal_cases)
  case (2 i)
  obtain k ps where k: "m ! i = (k, ps)" by (cases "m ! i")
  have "entriesAt m k = ps" using 2 k assms(1) by (metis entriesAt_def map_of_is_SomeI nth_mem option.simps(5))
  then have "distinct (map pdi_validator_index ps)" using assms(2) AccumulatorKey_halves by metis
  then show ?case using 2 k
    by (auto simp: storedPartials_def AccumulatorKey_halves distinct_map comp_def inj_on_def)
qed simp

lemma storedPartials_set:
  assumes "distinct (map fst m)" and "\<And>p d. set (entriesAt m (AccumulatorKey p d)) =
    {withIndex i e |i e. partialOf s r i (p, d) = Some e}"
  shows "set (concat (map storedPartials m)) = {storedPartial i pd e |i pd e. partialOf s r i pd = Some e}"
    (is "?L = ?R")
proof (intro equalityI subsetI)
  fix x assume "x \<in> ?L"
  then obtain k ps p where m: "(k, ps) \<in> set m" "p \<in> set ps" and x: "x = \<lparr>sp_validator_index = pdi_validator_index p,
      sp_proposal_id = ucast (drop_bit 32 k), sp_vote_decision = ucast k,
      sp_partial_decrypt = pdi_partial_decrypt p, sp_dleq_proof = pdi_dleq_proof p\<rparr>"
    by (auto simp: storedPartials_def Let_def)
  have "p \<in> set (entriesAt m (AccumulatorKey (ucast (drop_bit 32 k)) (ucast k)))"
    using m assms(1) by (simp add: AccumulatorKey_halves entriesAt_def)
  then show "x \<in> ?R" unfolding assms(2) x by (auto simp: withIndex_def storedPartial_def)
next
  fix x assume "x \<in> ?R"
  then obtain i p d e where "partialOf s r i (p, d) = Some e" and x: "x = storedPartial i (p, d) e" by auto
  then have "withIndex i e \<in> set (entriesAt m (AccumulatorKey p d))" using assms(2) by blast
  then obtain ps where "(AccumulatorKey p d, ps) \<in> set m" "withIndex i e \<in> set ps"
    by (cases "map_of m (AccumulatorKey p d)") (auto simp: entriesAt_def dest: map_of_SomeD)
  moreover from this have "x \<in> set (storedPartials (AccumulatorKey p d, ps))"
    by (auto simp: x storedPartials_def storedPartial_def withIndex_def halves_AccumulatorKey Let_def image_iff
        intro!: bexI[of _ "withIndex i e"])
  ultimately show "x \<in> ?L" by auto
qed

lemma PartialDecryptions_wf:
  assumes "kv_wf s" and "length r = 32"
  shows "\<exists>es. sorted_wrt entriesLess es \<and>
    set es = {storedPartial i pd e |i pd e. partialOf s r i pd = Some e} \<and>
    (\<forall>f. range_ok f \<longrightarrow> PartialDecryptions f (Some r) s = (Inr es, s))"
proof -
  obtain m where m: "GetPartialDecryptionsForRound r s = (Inr m, s)"
    "\<And>p d. set (entriesAt m (AccumulatorKey p d)) = {withIndex i e |i e. partialOf s r i (p, d) = Some e}"
    "\<And>p d. distinct (map pdi_validator_index (entriesAt m (AccumulatorKey p d)))"
    using GetPartialDecryptionsForRound_wf[OF assms] by blast
  note dm = GetPartialDecryptionsForRound_distinct[OF m(1)]
  let ?all = "\<lambda>f. concat (map storedPartials (f m))"
  let ?key = "\<lambda>e. (AccumulatorKey (sp_proposal_id e) (sp_vote_decision e), sp_validator_index e)"
  have perm: "mset (?all f) = mset (?all id)" if "range_ok f" for f
    using that by (simp add: range_ok_def mset_concat mset_map flip: sum_mset_sum_list)
  have keys: "distinct (map ?key (?all id))" using storedPartials_distinct[OF dm m(3)] by simp
  have sorted: "sorted_wrt entriesLess (sortSlice entriesLess (?all f))" if "range_ok f" for f
  proof (rule sorted_sortSlice)
    have "mset (map ?key (?all f)) = mset (map ?key (?all id))" using perm[OF that] by (simp add: mset_map)
    from mset_eq_imp_distinct_iff[OF this] keys have d: "distinct (map ?key (?all f))" by simp
    then show "distinct (?all f)" by (simp add: distinct_map)
    show "entriesLess x y \<or> entriesLess y x" if "x \<in> set (?all f)" "y \<in> set (?all f)" "x \<noteq> y" for x y
      using d that by (intro entriesLess_order(3)) (auto simp: distinct_map inj_on_def)
  qed (rule entriesLess_order(1))
  have same: "sortSlice entriesLess (?all f) = sortSlice entriesLess (?all id)" if "range_ok f" for f
    using sorted_wrt_unique[OF sorted[OF that] sorted[of id]] perm[OF that] entriesLess_order(2)
    by (metis range_ok_def id_apply mset_eq_setD set_sortSlice)
  show ?thesis
  proof (intro exI conjI allI impI)
    show "sorted_wrt entriesLess (sortSlice entriesLess (?all id))" using sorted[of id] by (simp add: range_ok_def)
    show "set (sortSlice entriesLess (?all id)) = {storedPartial i pd e |i pd e. partialOf s r i pd = Some e}"
      using storedPartials_set[OF dm m(2)] by simp
    show "PartialDecryptions f (Some r) s = (Inr (sortSlice entriesLess (?all id)), s)" if "range_ok f" for f
      using m(1) assms(2) same[OF that] by (simp add: PartialDecryptions_def orStatus_def)
  qed
qed



end
