(* ===== verification/Leaf_Pages.thy ===== *)
theory Leaf_Pages
  imports Query_Server
begin

text \<open>
  Paging through the commitment leaves: a client that follows the \<open>next_from_height\<close> of
  \<^verbatim>\<open>CommitmentLeaves\<close> (\<^verbatim>\<open>src/x/vote/keeper/query_server.go\<close>, on
  \<^verbatim>\<open>GetCommitmentLeaves\<close> of \<^verbatim>\<open>keeper_voting.go\<close>) reaches the end and has then seen
  every indexed block of the range once, in order.
\<close>

section \<open>Big-endian numbers are ordered as their bytes\<close>

fun bytesValue :: "bytes \<Rightarrow> nat" where
  "bytesValue [] = 0"
| "bytesValue (b # bs) = unat b * 256 ^ length bs + bytesValue bs"

lemma bytesValue_bound: "bytesValue bs < 256 ^ length bs"
proof (induction bs)
  case (Cons b bs)
  have "unat b < 256" using unsigned_less[of b] by simp
  then have "(unat b + 1) * 256 ^ length bs \<le> 256 * 256 ^ length bs" by (intro mult_le_mono1) simp
  moreover have "bytesValue (b # bs) < (unat b + 1) * 256 ^ length bs" using Cons by simp
  ultimately have "bytesValue (b # bs) < 256 * 256 ^ length bs" by (rule less_le_trans[rotated])
  then show ?case by simp
qed simp

lemma bytesValue_less_iff:
  "length xs = length ys \<Longrightarrow> xs < ys \<longleftrightarrow> bytesValue xs < bytesValue ys"
proof (induction xs ys rule: list_induct2)
  case (Cons x xs y ys)
  have lt: "unat a * 256 ^ length xs + bytesValue as < unat b * 256 ^ length xs + bytesValue bs"
    if "a < b" "length as = length xs" for a b :: u8 and as bs
  proof -
    have "unat a * 256 ^ length xs + bytesValue as < (unat a + 1) * 256 ^ length xs"
      using bytesValue_bound[of as] that(2) by simp
    also have "\<dots> \<le> unat b * 256 ^ length xs"
      using that(1) by (intro mult_le_mono1) (simp add: word_less_nat_alt)
    finally show ?thesis by simp
  qed
  consider "x < y" | "x = y" | "y < x" by fastforce
  then show ?case
  proof cases
    case 1
    then show ?thesis using lt[of x y xs ys] Cons.hyps by simp
  next
    case 2
    then show ?thesis using Cons by simp
  next
    case 3
    then show ?thesis using lt[of y x ys xs] Cons.hyps by (auto dest: less_asym)
  qed
qed simp

lemma bytesValue_putUint64BE: "bytesValue (putUint64BE w) = unat w"
proof -
  have lt: "unat w < 18446744073709551616" using unsigned_less[of w] by simp
  have d: "unat (ucast (drop_bit k w) :: u8) = unat w div 2 ^ k mod 256" for k
    unfolding unsigned_ucast_eq unsigned_drop_bit_eq
    using lt by (simp add: take_bit_eq_mod drop_bit_eq_div)
  have d0: "unat (ucast w :: u8) = unat w mod 256" by (simp add: unsigned_ucast_eq take_bit_eq_mod)
  have s: "n div (a * 256) * 256 + n div a mod 256 = n div a" for n a :: nat
    by (simp add: div_mult2_eq)
  have "unat w div 2 ^ 56 < 256" using lt by (simp add: less_mult_imp_div_less)
  then have top: "unat w div 2 ^ 56 mod 256 = unat w div 2 ^ 56" by simp
  have "bytesValue (putUint64BE w) = unat w div 72057594037927936 * 72057594037927936 +
      (unat w div 281474976710656 mod 256 * 281474976710656 + (unat w div 1099511627776 mod 256 * 1099511627776 +
      (unat w div 4294967296 mod 256 * 4294967296 + (unat w div 16777216 mod 256 * 16777216 +
      (unat w div 65536 mod 256 * 65536 + (unat w div 256 mod 256 * 256 + unat w mod 256))))))"
    using top by (simp add: putUint64BE_def d d0)
  also have "\<dots> = unat w"
    using s[of "unat w" "2 ^ 48", simplified] s[of "unat w" "2 ^ 40", simplified]
      s[of "unat w" "2 ^ 32", simplified] s[of "unat w" "2 ^ 24", simplified] s[of "unat w" "2 ^ 16", simplified]
      s[of "unat w" "2 ^ 8", simplified] div_mult_mod_eq[of "unat w" 256] by linarith
  finally show ?thesis .
qed

lemma putUint64BE_less_iff: "putUint64BE a < putUint64BE b \<longleftrightarrow> a < b"
  by (simp add: bytesValue_less_iff bytesValue_putUint64BE word_less_nat_alt)

lemma below_next_height: "b \<noteq> NOT 0 \<Longrightarrow> h < b + 1 \<longleftrightarrow> h \<le> b" for b h :: u64
  by (simp add: word_less_nat_alt word_le_nat_alt unat_plus_one eq_neg_iff_add_eq_0 less_Suc_eq_le)

lemma between_prefix:
  fixes p :: bytes
  assumes "p @ x \<le> k" and "k < p @ y"
  shows "prefix p k"
  using assms
proof (induction p arbitrary: k)
  case (Cons b p)
  then show ?case by (cases k) auto
qed simp

section \<open>The block index\<close>

text \<open>
  What the index of a round holds: under each height the first leaf and the number of leaves
  of that block, all of them stored with 32 bytes, and the root of that height.
\<close>

definition indexedBlock :: "vkv \<Rightarrow> bytes \<Rightarrow> bytes \<times> kvval \<Rightarrow> bool" where
  "indexedBlock s r e \<longleftrightarrow> (\<exists>h first n. e = (BlockLeafIndexKey r h, VBytes (putUint64BE first @ putUint64BE n)) \<and>
     (\<forall>i < unat n. \<exists>b. leafOf s r (first + word_of_nat i) = Some b \<and> length b = 32) \<and>
     (\<exists>root. rootOf s r h = Some root \<and> length root = 32))"

definition blockIndex :: "vkv \<Rightarrow> bytes \<Rightarrow> (bytes \<times> kvval) list" where
  "blockIndex s r = kv_scan (BlockLeafIndexPrefixForRound r) s"

definition blockIndex_ok :: "vkv \<Rightarrow> bytes \<Rightarrow> bool" where
  "blockIndex_ok s r \<longleftrightarrow> kv_ok s \<and> (\<forall>e \<in> set (blockIndex s r). indexedBlock s r e)"

text \<open>The entries whose height lies in a range.\<close>

definition blocksIn :: "vkv \<Rightarrow> bytes \<Rightarrow> u64 \<Rightarrow> u64 \<Rightarrow> (bytes \<times> kvval) list" where
  "blocksIn s r a b = filter (\<lambda>e. case entryHeight r e of None \<Rightarrow> False | Some h \<Rightarrow> a \<le> h \<and> h \<le> b) (blockIndex s r)"

lemma entryHeight_key [simp]: "entryHeight r (BlockLeafIndexKey r h, v) = Some h"
  by (simp add: entryHeight_def key_simps)

lemma BlockLeafIndexKey_less: "BlockLeafIndexKey r a < BlockLeafIndexKey r b \<longleftrightarrow> a < b"
  by (simp add: key_simps lex_append_cancel putUint64BE_less_iff)

lemma BlockLeafIndexKey_le: "BlockLeafIndexKey r a \<le> BlockLeafIndexKey r b \<longleftrightarrow> a \<le> b"
  using BlockLeafIndexKey_less[of r b a] by (meson not_le)

abbreviation endKeyAt :: "bytes \<Rightarrow> u64 \<Rightarrow> bytes option" where
  "endKeyAt r b \<equiv> if b = NOT 0 then PrefixEndBytes (BlockLeafIndexPrefixForRound r)
     else Some (BlockLeafIndexKey r (b + 1))"

lemma iterator_blocksIn:
  assumes "blockIndex_ok s r"
  shows "kv_iterator (BlockLeafIndexKey r a) (endKeyAt r b) s = blocksIn s r a b"
proof -
  let ?p = "BlockLeafIndexPrefixForRound r"
  have key: "BlockLeafIndexKey r h = ?p @ putUint64BE h" for h by (simp add: key_simps)
  have pre: "prefix ?p k" if "BlockLeafIndexKey r a \<le> k" "before_end (endKeyAt r b) k" for k
  proof (cases "b = NOT 0")
    case True
    have "?p \<le> BlockLeafIndexKey r a" unfolding key using prefix_range_iff[of ?p "?p @ putUint64BE a"] by simp
    with True that show ?thesis using prefix_range_iff[of ?p k] by auto
  next
    case False
    then show ?thesis using that between_prefix[of ?p _ k] unfolding key by auto
  qed
  have iff: "BlockLeafIndexKey r a \<le> k \<and> before_end (endKeyAt r b) k \<longleftrightarrow>
      prefix ?p k \<and> before_end (PrefixEndBytes ?p) k \<and> ?p \<le> k \<and>
      (case entryHeight r (k, v) of None \<Rightarrow> False | Some h \<Rightarrow> a \<le> h \<and> h \<le> b)"
    if "(k, v) \<in> set s" for k v
  proof (cases "prefix ?p k")
    case True
    with that assms have "(k, v) \<in> set (blockIndex s r)"
      by (simp add: blockIndex_ok_def blockIndex_def kv_scan_iff kv_ok_mem_iff)
    with assms obtain h where k: "k = BlockLeafIndexKey r h" by (auto simp: blockIndex_ok_def indexedBlock_def)
    with True prefix_range_iff[of ?p k] show ?thesis
      by (auto simp: k BlockLeafIndexKey_le BlockLeafIndexKey_less below_next_height)
  next
    case False
    then show ?thesis using pre[of k] by blast
  qed
  show ?thesis
    unfolding kv_iterator_def blocksIn_def blockIndex_def kv_scan_def filter_filter
  proof (rule filter_cong[OF refl])
    fix e assume "e \<in> set s"
    then have "(fst e, snd e) \<in> set s" by simp
    from iff[OF this] prefix_range_iff[of ?p "fst e"]
    show "(BlockLeafIndexKey r a \<le> fst e \<and> before_end (endKeyAt r b) (fst e)) =
      ((?p \<le> fst e \<and> before_end (PrefixEndBytes ?p) (fst e)) \<and>
       (case entryHeight r e of None \<Rightarrow> False | Some h \<Rightarrow> a \<le> h \<and> h \<le> b))"
      unfolding prod.collapse by blast
  qed
qed

section \<open>A page is always returned\<close>

lemma kvGetAs_bytes_Some: "view decodeBytes s k = Some b \<Longrightarrow> kvGetAs decodeBytes k s = (Inr (Some b), s)"
  by (auto simp: view_Some_iff kvGetAs_Inr_iff)

lemma readLeaves_total:
  assumes "\<forall>i < n. \<exists>b. leafOf s r (first + word_of_nat i) = Some b \<and> length b = 32"
  shows "\<exists>ls. readLeaves r first n s = (Inr ls, s)"
  using assms
proof (induction n arbitrary: first)
  case (Suc n)
  have "\<exists>b. leafOf s r (first + 1 + word_of_nat i) = Some b \<and> length b = 32" if "i < n" for i
    using Suc.prems that by (metis Suc_less_eq add.assoc of_nat_Suc)
  with Suc.IH[of "first + 1"] obtain ls where "readLeaves r (first + 1) n s = (Inr ls, s)" by blast
  moreover obtain b where "leafOf s r first = Some b" "length b = 32" using Suc.prems[rule_format, of 0] by auto
  moreover have "kvGetAs decodeBytes (CommitmentLeafKey r first) s = (Inr (Some b), s)"
    using calculation(2) by (simp add: leafOf_def kvGetAs_bytes_Some)
  ultimately show ?case by (simp add: monad_simps nilBytes_def)
qed (simp add: returnM_def)

lemma indexedBlock_reads:
  assumes "indexedBlock s r (k, v)"
  shows "\<exists>val first n h. v = VBytes val \<and> \<not> length val < 16 \<and> readIndexEntry r k val = Some (first, n, h) \<and>
    (\<exists>b. readBlock r (first, n, h) s = (Inr b, s))"
proof -
  from assms obtain h first n root where k: "k = BlockLeafIndexKey r h" "v = VBytes (putUint64BE first @ putUint64BE n)"
    and leaves: "\<forall>i < unat n. \<exists>b. leafOf s r (first + word_of_nat i) = Some b \<and> length b = 32"
    and root: "rootOf s r h = Some root" "length root = 32" by (auto simp: indexedBlock_def)
  obtain ls where "readLeaves r first (unat n) s = (Inr ls, s)" using readLeaves_total[OF leaves] by blast
  then have "\<exists>b. readBlock r (first, n, h) s = (Inr b, s)"
    using root by (simp add: readBlock_def monad_simps GetCommitmentRootAtHeight_def rootOf_def
        kvGetAs_bytes_Some nilBytes_def)
  then show ?thesis using k by (simp add: readIndexEntry_def key_simps)
qed

lemma leavesLoop_total:
  assumes "\<forall>e \<in> set es. indexedBlock s r e"
  shows "\<exists>page. leavesLoop r b blocks lc es s = (Inr page, s)"
  using assms
proof (induction es arbitrary: blocks lc)
  case (Cons e es)
  obtain k v where e: "e = (k, v)" by (cases e)
  from Cons.prems e indexedBlock_reads[of s r k v] obtain val first n h bl where
    v: "v = VBytes val" "\<not> length val < 16" "readIndexEntry r k val = Some (first, n, h)"
    and bl: "readBlock r (first, n, h) s = (Inr bl, s)" by auto
  have nextKey: "\<exists>h'. getUint64BE (drop (length (RoundTreeKey r) + 1) k2) = Some h'"
    if "es = (k2, v2) # es'" for k2 v2 es'
  proof -
    from Cons.prems that have "indexedBlock s r (k2, v2)" by simp
    then show ?thesis by (auto simp: indexedBlock_def entryHeight_key[unfolded entryHeight_def, simplified])
  qed
  show ?case
  proof (cases "blocks \<noteq> [] \<and> lc + n > MaxCommitmentLeavesPerResponse")
    case True
    then show ?thesis using v by (simp add: e monad_simps)
  next
    case False
    have "\<exists>page. leavesLoop r b (blocks @ [bl]) (lc + n) es s = (Inr page, s)" using Cons by simp
    then show ?thesis using v bl False nextKey
      by (cases es) (auto simp: e monad_simps Let_def split: option.split)
  qed
qed (simp add: returnM_def)

section \<open>Following the pages\<close>

inductive leafPages :: "ctx \<Rightarrow> bytes \<Rightarrow> u64 \<Rightarrow> vkv \<Rightarrow> u64 \<Rightarrow> BlockCommitments list \<Rightarrow> bool" for c r b s where
  page_last: "CommitmentLeaves c (Some \<lparr>cl_vote_round_id = r, cl_from_height = a, cl_to_height = b\<rparr>) s =
     (Inr (bs, 0), s') \<Longrightarrow> leafPages c r b s a bs"
| page_next: "CommitmentLeaves c (Some \<lparr>cl_vote_round_id = r, cl_from_height = a, cl_to_height = b\<rparr>) s =
     (Inr (bs, n), s') \<Longrightarrow> n \<noteq> 0 \<Longrightarrow> leafPages c r b s n bs' \<Longrightarrow> leafPages c r b s a (bs @ bs')"

lemma leafPages_unique: "leafPages c r b s a bs \<Longrightarrow> leafPages c r b s a bs' \<Longrightarrow> bs' = bs"
proof (induction arbitrary: bs' rule: leafPages.induct)
  case (page_last a bs s')
  from page_last(2,1) show ?case by (cases rule: leafPages.cases) simp_all
next
  case (page_next a bs n s' rest)
  from page_next(5,1,2) show ?case by (cases rule: leafPages.cases) (use page_next.IH in simp_all)
qed

text \<open>The height at which the query stops.\<close>

definition upTo :: "ctx \<Rightarrow> u64 \<Rightarrow> u64" where
  "upTo c b = (if b = 0 then (if block_height c \<le> 0 then 0 else word_of_int (block_height c)) else b)"

lemma CommitmentLeaves_in_range:
  assumes "length r = 32" and "b = 0 \<or> a \<le> b"
  shows "CommitmentLeaves c (Some \<lparr>cl_vote_round_id = r, cl_from_height = a, cl_to_height = b\<rparr>) s =
    (if upTo c b < a then (Inr ([], 0), s)
     else orStatus (\<lambda>_. Internal) (GetCommitmentLeaves r a (upTo c b)) respond s)"
  using assms by (auto simp: CommitmentLeaves_def refuseIf_def upTo_def)

lemma blocksIn_heights:
  assumes "blockIndex_ok s r" and "e \<in> set (blocksIn s r a b)"
  shows "\<exists>h. entryHeight r e = Some h \<and> a \<le> h \<and> h \<le> b \<and> fst e = BlockLeafIndexKey r h \<and> indexedBlock s r e"
  using assms by (auto simp: blockIndex_ok_def blocksIn_def indexedBlock_def split: option.splits)

text \<open>What is left after a page is what the next page starts with.\<close>

lemma blocksIn_rest:
  assumes ok: "blockIndex_ok s r" and split: "blocksIn s r a b = inc @ e # rest" and h: "entryHeight r e = Some h"
  shows "blocksIn s r h b = e # rest" and "inc \<noteq> [] \<Longrightarrow> a < h"
proof -
  have sorted: "sorted_wrt (<) (map fst (inc @ e # rest))"
    using ok split unfolding blockIndex_ok_def iterator_blocksIn[OF ok, symmetric]
    by (metis store.iter_sorted)
  have key: "fst e = BlockLeafIndexKey r h" using blocksIn_heights[OF ok, of e a b] split h by auto
  have heights: "\<exists>i. entryHeight r x = Some i \<and> a \<le> i \<and> i \<le> b \<and> fst x = BlockLeafIndexKey r i"
    if "x \<in> set (inc @ e # rest)" for x
    using blocksIn_heights[OF ok, of x a b] that split by auto
  have ah: "a \<le> h" using heights[of e] h by auto
  let ?P = "\<lambda>x. case entryHeight r x of None \<Rightarrow> False | Some i \<Rightarrow> h \<le> i \<and> i \<le> b"
  have before: "\<exists>i. entryHeight r x = Some i \<and> a \<le> i \<and> i < h" if "x \<in> set inc" for x
    using sorted heights[of x] that key by (auto simp: sorted_wrt_append BlockLeafIndexKey_less)
  have after: "?P x" if "x \<in> set (e # rest)" for x
  proof -
    from that heights[of x] obtain i where i: "entryHeight r x = Some i" "i \<le> b" "fst x = BlockLeafIndexKey r i"
      by auto
    have "fst e \<le> fst x" using sorted that by (auto simp: sorted_wrt_append)
    with i key show ?thesis by (simp add: BlockLeafIndexKey_le)
  qed
  have "blocksIn s r h b = filter ?P (blocksIn s r a b)"
    unfolding blocksIn_def filter_filter using ah by (intro filter_cong) (auto split: option.splits)
  also have "\<dots> = filter ?P inc @ filter ?P (e # rest)" by (simp add: split)
  also have "filter ?P inc = []" using before by (fastforce simp: filter_empty_conv)
  also have "filter ?P (e # rest) = e # rest" using after by (simp only: filter_id_conv) blast
  finally show "blocksIn s r h b = e # rest" by simp
  show "inc \<noteq> [] \<Longrightarrow> a < h" using before[of "hd inc"] by (cases inc) (auto dest: le_less_trans)
qed

lemma leaf_pages_complete:
  assumes ok: "blockIndex_ok s r" and r: "length r = 32" and "b = 0 \<or> a \<le> b"
  shows "\<exists>bs. leafPages c r b s a bs \<and> list_all2 (describes s r) (blocksIn s r a (upTo c b)) bs"
  using assms(3)
proof (induction "length (blocksIn s r a (upTo c b))" arbitrary: a rule: less_induct)
  case less
  show ?case
  proof (cases "upTo c b < a")
    case True
    then have "blocksIn s r a (upTo c b) = []"
      by (auto simp: blocksIn_def filter_empty_conv split: option.splits)
    with True less.prems r show ?thesis
      by (intro exI[of _ "[]"]) (auto simp: CommitmentLeaves_in_range intro!: leafPages.page_last)
  next
    case False
    let ?es = "blocksIn s r a (upTo c b)"
    have "\<forall>e \<in> set ?es. indexedBlock s r e" using blocksIn_heights[OF ok] by blast
    from leavesLoop_total[OF this, of "upTo c b" "[]" 0] obtain blocks n
      where "leavesLoop r (upTo c b) [] 0 ?es s = (Inr (blocks, n), s)" by auto
    then have page: "GetCommitmentLeaves r a (upTo c b) s = (Inr (blocks, n), s)"
      unfolding GetCommitmentLeaves_def Let_def bindM_def getM_def by (simp only: iterator_blocksIn[OF ok] prod.case sum.case)
    from commitment_leaves_page[OF page] obtain inc rest where split: "?es = inc @ rest"
      and desc: "list_all2 (describes s r) inc blocks" and stop: "pageEnd r (upTo c b) rest n"
      and some: "rest \<noteq> [] \<longrightarrow> blocks \<noteq> []"
      unfolding iterator_blocksIn[OF ok] by blast
    have ask: "CommitmentLeaves c (Some \<lparr>cl_vote_round_id = r, cl_from_height = a, cl_to_height = b\<rparr>) s =
        (Inr (blocks, n), s)"
      using False page r less.prems by (simp add: CommitmentLeaves_in_range)
    show ?thesis
    proof (cases rest)
      case Nil
      with stop have "n = 0" by (simp add: pageEnd_def)
      with ask Nil split desc show ?thesis by (auto intro!: leafPages.page_last)
    next
      case (Cons e rest')
      obtain h where h: "entryHeight r e = Some h" "h \<le> upTo c b"
        using blocksIn_heights[OF ok, of e a "upTo c b"] split Cons by auto
      with stop Cons have n: "n = h" by (auto simp: pageEnd_def)
      have inc: "inc \<noteq> []" using some desc Cons by auto
      note rest = blocksIn_rest[OF ok split[unfolded Cons] h(1)]
      have "b = 0 \<or> h \<le> b" using h(2) by (auto simp: upTo_def split: if_splits)
      from less.hyps[OF _ this] rest(1) split Cons inc obtain bs' where
        "leafPages c r b s h bs'" "list_all2 (describes s r) (e # rest') bs'" by auto
      moreover have "h \<noteq> 0" using rest(2)[OF inc] by auto
      ultimately show ?thesis using ask n desc split Cons
        by (intro exI[of _ "blocks @ bs'"]) (auto intro: leafPages.page_next list_all2_appendI)
    qed
  qed
qed

text \<open>
  C27. Paging through the commitment leaves of a round is complete and ends. When the block
  index of the round is in order, a client that asks from a height and then follows
  \<open>next_from_height\<close> until it is 0 gets exactly one answer: the blocks of the index from that
  height up to the requested one (the current height when none is given), in ascending order,
  each once, each with its leaves, its first position and its root.
\<close>

theorem commitment_pages_complete:
  assumes "blockIndex_ok s r" and "length r = 32" and "b = 0 \<or> a \<le> b"
  shows "\<exists>bs. (leafPages c r b s a = (\<lambda>bs'. bs' = bs)) \<and>
    list_all2 (describes s r) (blocksIn s r a (upTo c b)) bs \<and>
    sorted_wrt (<) (map bc_height bs) \<and> list_all (\<lambda>bl. a \<le> bc_height bl \<and> bc_height bl \<le> upTo c b) bs"
proof -
  from leaf_pages_complete[OF assms] obtain bs where bs: "leafPages c r b s a bs"
    "list_all2 (describes s r) (blocksIn s r a (upTo c b)) bs" by blast
  have hs: "map (entryHeight r) (blocksIn s r a (upTo c b)) = map (\<lambda>bl. Some (bc_height bl)) bs"
    using bs(2) by (auto simp: list_all2_conv_all_nth describes_def intro!: nth_equalityI)
  have keys: "map fst (blocksIn s r a (upTo c b)) = map (\<lambda>bl. BlockLeafIndexKey r (bc_height bl)) bs"
  proof (rule nth_equalityI)
    show "length (map fst (blocksIn s r a (upTo c b))) = length (map (\<lambda>bl. BlockLeafIndexKey r (bc_height bl)) bs)"
      using bs(2) by (simp add: list_all2_lengthD)
    fix i assume i: "i < length (map fst (blocksIn s r a (upTo c b)))"
    with bs(2) have "entryHeight r (blocksIn s r a (upTo c b) ! i) = Some (bc_height (bs ! i))"
      by (auto simp: list_all2_conv_all_nth describes_def)
    with blocksIn_heights[OF assms(1), of "blocksIn s r a (upTo c b) ! i" a "upTo c b"] i bs(2)
    show "map fst (blocksIn s r a (upTo c b)) ! i = map (\<lambda>bl. BlockLeafIndexKey r (bc_height bl)) bs ! i"
      by (auto simp: list_all2_conv_all_nth)
  qed
  have "sorted_wrt (<) (map fst (blocksIn s r a (upTo c b)))"
    using assms(1) unfolding iterator_blocksIn[OF assms(1), symmetric] by (simp add: blockIndex_ok_def store.iter_sorted)
  then have "sorted_wrt (<) (map bc_height bs)"
    unfolding keys by (simp add: sorted_wrt_map BlockLeafIndexKey_less)
  moreover have "a \<le> bc_height bl \<and> bc_height bl \<le> upTo c b" if "bl \<in> set bs" for bl
  proof -
    from that have "Some (bc_height bl) \<in> set (map (entryHeight r) (blocksIn s r a (upTo c b)))" unfolding hs by auto
    then obtain e where "e \<in> set (blocksIn s r a (upTo c b))" "entryHeight r e = Some (bc_height bl)" by auto
    from blocksIn_heights[OF assms(1) this(1)] this(2) show ?thesis by auto
  qed
  moreover have "leafPages c r b s a = (\<lambda>bs'. bs' = bs)" using bs(1) leafPages_unique[OF bs(1)] by blast
  ultimately show ?thesis using bs(2) unfolding list_all_iff by blast
qed

text \<open>A round with one block of two leaves, asked up to the current height.\<close>

definition sampleLeaf :: "u8 \<Rightarrow> bytes" where "sampleLeaf b = replicate 32 b"

definition indexedStore :: vkv where
  "indexedStore =
     kv_set (BlockLeafIndexKey sampleRoundID 5) (VBytes (putUint64BE 0 @ putUint64BE 2))
     (kv_set (CommitmentRootKey sampleRoundID 5) (VBytes (sampleLeaf 9))
     (kv_set (CommitmentLeafKey sampleRoundID 1) (VBytes (sampleLeaf 8))
     (kv_set (CommitmentLeafKey sampleRoundID 0) (VBytes (sampleLeaf 7)) [])))"

lemma indexedStore_get:
  "kv_get indexedStore k =
     (if k = BlockLeafIndexKey sampleRoundID 5 then Some (VBytes (putUint64BE 0 @ putUint64BE 2))
      else if k = CommitmentRootKey sampleRoundID 5 then Some (VBytes (sampleLeaf 9))
      else if k = CommitmentLeafKey sampleRoundID 1 then Some (VBytes (sampleLeaf 8))
      else if k = CommitmentLeafKey sampleRoundID 0 then Some (VBytes (sampleLeaf 7)) else None)"
  by (simp add: indexedStore_def get_simps del: kv_set.simps)

lemma indexedStore_ok: "blockIndex_ok indexedStore sampleRoundID"
proof -
  have keys: "kv_ok indexedStore" by (simp add: indexedStore_def kv_ok_kv_set del: kv_set.simps)
  have "\<forall>i < unat (2::u64). \<exists>b. leafOf indexedStore sampleRoundID (0 + word_of_nat i) = Some b \<and> length b = 32"
  proof (intro allI impI)
    fix i :: nat assume "i < unat (2::u64)"
    then have "i = 0 \<or> i = 1" by auto
    moreover have "leafOf indexedStore sampleRoundID 0 = Some (sampleLeaf 7)"
      "leafOf indexedStore sampleRoundID 1 = Some (sampleLeaf 8)"
      by (simp_all add: leafOf_def view_def indexedStore_get key_simps okOpt_def)
    ultimately show "\<exists>b. leafOf indexedStore sampleRoundID (0 + word_of_nat i) = Some b \<and> length b = 32"
      by (auto simp: sampleLeaf_def)
  qed
  moreover have "rootOf indexedStore sampleRoundID 5 = Some (sampleLeaf 9)"
    by (simp add: rootOf_def view_def indexedStore_get key_simps)
  ultimately have "indexedBlock indexedStore sampleRoundID
      (BlockLeafIndexKey sampleRoundID 5, VBytes (putUint64BE 0 @ putUint64BE 2))"
    unfolding indexedBlock_def by (intro exI[of _ 5] exI[of _ 0] exI[of _ 2]) (simp add: sampleLeaf_def)
  moreover have "e = (BlockLeafIndexKey sampleRoundID 5, VBytes (putUint64BE 0 @ putUint64BE 2))"
    if "e \<in> set (blockIndex indexedStore sampleRoundID)" for e
  proof -
    obtain k v where e: "e = (k, v)" by (cases e)
    then show ?thesis using that
      by (auto simp: blockIndex_def kv_scan_iff[OF keys] indexedStore_get key_simps prefix_def split: if_splits)
  qed
  ultimately show ?thesis using keys unfolding blockIndex_ok_def by auto
qed

theorem commitment_pages_complete_witness:
  "\<exists>bs. leafPages sampleCtx sampleRoundID 0 indexedStore 1 bs \<and>
    list_all2 (describes indexedStore sampleRoundID) (blocksIn indexedStore sampleRoundID 1 (upTo sampleCtx 0)) bs"
  using commitment_pages_complete[OF indexedStore_ok, of 0 1 sampleCtx] by (auto simp: sampleRoundID_def)

end
