(* ===== verification/Genesis.thy ===== *)
theory Genesis
  imports Keeper_Registry
begin

text \<open>
  Genesis export and import of the vote module (\<^verbatim>\<open>src/x/vote/keeper/genesis.go\<close>) and the
  structural validation of a genesis state (\<^verbatim>\<open>src/x/vote/types/genesis.go\<close>).
  \<^verbatim>\<open>ExportGenesis\<close> walks every key prefix of the store and \<^verbatim>\<open>InitGenesis\<close> writes what it
  is given; the round trip shows which part of the store survives.
\<close>

section \<open>The genesis state\<close>

record NullifierEntry =
  ne_nullifier :: bytes
  ne_nullifier_type :: u32
  ne_round_id :: bytes

record EndorsedRound =
  eo_endorser_id :: gostring
  eo_vote_round_id :: bytes

record CommitmentLeaf =
  cl_index :: u64
  cl_value :: bytes

record GenesisCommitmentRoot =
  gr_height :: u64
  gr_root :: bytes

record GenesisBlockLeafIndex =
  gb_height :: u64
  gb_start_index :: u64
  gb_count :: u64

record GenesisRoundTree =
  rt_vote_round_id :: bytes
  rt_tree_state :: "CommitmentTreeState option"
  rt_commitment_leaves :: "CommitmentLeaf list"
  rt_commitment_roots :: "GenesisCommitmentRoot list"
  rt_block_leaf_indices :: "GenesisBlockLeafIndex list"

record GenesisTallyAccumulator =
  ga_round_id :: bytes
  ga_proposal_id :: u32
  ga_vote_decision :: u32
  ga_ciphertext :: bytes

record GenesisShareCount =
  gc_round_id :: bytes
  gc_proposal_id :: u32
  gc_vote_decision :: u32
  gc_count :: u64

record GenesisPartialDecryption =
  gp_round_id :: bytes
  gp_validator_index :: u32
  gp_proposal_id :: u32
  gp_vote_decision :: u32
  gp_partial_decrypt :: bytes
  gp_dleq_proof :: bytes

record GenesisState =
  gs_rounds :: "VoteRound list"
  gs_nullifiers :: "NullifierEntry list"
  gs_vote_manager_addresses :: "gostring list"
  gs_tally_results :: "TallyResult list"
  gs_pallas_keys :: "ValidatorPallasKey list"
  gs_tally_accumulators :: "GenesisTallyAccumulator list"
  gs_share_counts :: "GenesisShareCount list"
  gs_min_ceremony_validators :: u32
  gs_round_trees :: "GenesisRoundTree list"
  gs_partial_decryptions :: "GenesisPartialDecryption list"
  gs_endorsers :: "Endorser list"
  gs_endorsed_rounds :: "EndorsedRound list"
  gs_vote_manager_threshold :: u32
  gs_coordinator_actions :: "CoordinatorAction list"
  gs_next_coordinator_action_id :: u64

section \<open>Import\<close>

text \<open>
  In Go the nullifier type is a byte, and the import converts the entry's \<open>uint32\<close> to it, so
  the key is built from any byte and not only from the three types of \<^verbatim>\<open>keys.go\<close>.
\<close>

definition nullifierByteKey :: "u8 \<Rightarrow> bytes \<Rightarrow> bytes \<Rightarrow> bytes res" where
  [key_simps]: "nullifierByteKey b r nullifier =
     bindR (ValidateRoundID r) (\<lambda>_. Inr ([0x01] @ [b] @ r @ nullifier))"

lemma NullifierKey_byte: "NullifierKey t r n = nullifierByteKey (nullifierTypeByte t) r n"
  by (simp add: key_simps)

definition importNullifier :: "NullifierEntry \<Rightarrow> (vkv, unit) M" where
  "importNullifier entry =
     bindM (liftR (nullifierByteKey (ucast (ne_nullifier_type entry)) (ne_round_id entry) (ne_nullifier entry)))
       (\<lambda>key. kvSet key (VBytes [1]))"

definition importRoundTree :: "GenesisRoundTree \<Rightarrow> (vkv, unit) M" where
  "importRoundTree rt =
     (let r = rt_vote_round_id rt in
     thenM (case rt_tree_state rt of
         None \<Rightarrow> returnM ()
       | Some st \<Rightarrow> SetCommitmentTreeState r (if next_index st > 0 then st\<lparr>tree_height := 0\<rparr> else st)) (
     thenM (forM (rt_commitment_leaves rt) (\<lambda>leaf. kvSet (CommitmentLeafKey r (cl_index leaf)) (VBytes (cl_value leaf)))) (
     thenM (forM (rt_commitment_roots rt) (\<lambda>cr. SetCommitmentRootAtHeight r (gr_height cr) (gr_root cr))) (
     forM (rt_block_leaf_indices rt) (\<lambda>bli. SetBlockLeafIndex r (gb_height bli) (gb_start_index bli) (gb_count bli))))))"

text \<open>The coordinator actions, with the next action id they require.\<close>

fun importActions :: "u64 \<Rightarrow> CoordinatorAction list \<Rightarrow> (vkv, u64) M" where
  "importActions nextID [] = returnM nextID"
| "importActions nextID (action # actions) =
     thenM (SetCoordinatorAction action) (
     importActions (if nextID = 0 \<or> action_id action \<ge> nextID then action_id action + 1 else nextID) actions)"

definition importAccumulator :: "GenesisTallyAccumulator \<Rightarrow> (vkv, unit) M" where
  "importAccumulator acc =
     bindM (liftR (TallyKey (ga_round_id acc) (ga_proposal_id acc) (ga_vote_decision acc)))
       (\<lambda>key. kvSet key (VBytes (ga_ciphertext acc)))"

definition importShareCount :: "GenesisShareCount \<Rightarrow> (vkv, unit) M" where
  "importShareCount sc =
     bindM (liftR (ShareCountKey (gc_round_id sc) (gc_proposal_id sc) (gc_vote_decision sc)))
       (\<lambda>key. kvSet key (VBytes (putUint64BE (gc_count sc))))"

definition importPartial :: "GenesisPartialDecryption \<Rightarrow> (vkv, unit) M" where
  "importPartial pd = SetPartialDecryptions (gp_round_id pd) (gp_validator_index pd)
     [\<lparr>pd_proposal_id = gp_proposal_id pd, pd_vote_decision = gp_vote_decision pd,
       pd_partial_decrypt = gp_partial_decrypt pd, pd_dleq_proof = gp_dleq_proof pd\<rparr>]"

definition InitGenesis :: "lib \<Rightarrow> GenesisState option \<Rightarrow> (vkv, unit) M" where
  "InitGenesis L genesis = (case genesis of None \<Rightarrow> returnM () | Some gs \<Rightarrow>
     thenM (forM (gs_rounds gs) SetVoteRound) (
     thenM (forM (gs_round_trees gs) importRoundTree) (
     thenM (if gs_vote_manager_addresses gs \<noteq> []
            then SetVoteManagers L \<lparr>vm_addresses = gs_vote_manager_addresses gs, vm_threshold = gs_vote_manager_threshold gs\<rparr>
            else returnM ()) (
     bindM (importActions (gs_next_coordinator_action_id gs) (gs_coordinator_actions gs)) (\<lambda>nextID.
     thenM (if nextID \<noteq> 0 then SetNextCoordinatorActionID nextID else returnM ()) (
     thenM (forM (gs_endorsers gs) (\<lambda>x. SetEndorser (end_endorser_id x) (end_address x))) (
     thenM (forM (gs_endorsed_rounds gs) (\<lambda>x. AddEndorsedRound (eo_endorser_id x) (eo_vote_round_id x))) (
     thenM (SetMinCeremonyValidators (if gs_min_ceremony_validators gs = 0 then 1 else gs_min_ceremony_validators gs)) (
     thenM (forM (gs_nullifiers gs) importNullifier) (
     thenM (forM (gs_tally_results gs) SetTallyResult) (
     thenM (forM (gs_pallas_keys gs) SetPallasKey) (
     thenM (forM (gs_tally_accumulators gs) importAccumulator) (
     thenM (forM (gs_share_counts gs) importShareCount) (
     forM (gs_partial_decryptions gs) importPartial))))))))))))))"

section \<open>Export\<close>

text \<open>
  \<^verbatim>\<open>for ; iter.Valid(); iter.Next()\<close> with \<^verbatim>\<open>continue\<close> (\<open>None\<close>), \<^verbatim>\<open>append\<close> (\<open>Some\<close>)
  and early return of an error.
\<close>

fun collectR :: "('e \<Rightarrow> 'a option res) \<Rightarrow> 'e list \<Rightarrow> 'a list res" where
  "collectR f [] = Inr []"
| "collectR f (e # es) = bindR (f e) (\<lambda>r. bindR (collectR f es) (\<lambda>xs.
     Inr (case r of None \<Rightarrow> xs | Some x \<Rightarrow> x # xs)))"

text \<open>Reading an integer from too few bytes is an index panic.\<close>

definition readU64 :: "bytes \<Rightarrow> u64 res" where
  "readU64 b = (case getUint64BE b of None \<Rightarrow> Inl GoPanic | Some v \<Rightarrow> Inr v)"

definition readU32 :: "bytes \<Rightarrow> u32 res" where
  "readU32 b = (case getUint32BE b of None \<Rightarrow> Inl GoPanic | Some v \<Rightarrow> Inr v)"

definition exportLeaf :: "nat \<Rightarrow> bytes \<times> kvval \<Rightarrow> CommitmentLeaf option res" where
  "exportLeaf innerOffset e = bindR (readU64 (drop innerOffset (fst e))) (\<lambda>index.
     bindR (decodeBytes (snd e)) (\<lambda>leaf. Inr (Some \<lparr>cl_index = index, cl_value = leaf\<rparr>)))"

definition exportRoot :: "nat \<Rightarrow> bytes \<times> kvval \<Rightarrow> GenesisCommitmentRoot option res" where
  "exportRoot rootInnerOffset e = bindR (readU64 (drop rootInnerOffset (fst e))) (\<lambda>height.
     bindR (decodeBytes (snd e)) (\<lambda>root. Inr (Some \<lparr>gr_height = height, gr_root = root\<rparr>)))"

definition exportBlockIndex :: "nat \<Rightarrow> bytes \<times> kvval \<Rightarrow> GenesisBlockLeafIndex option res" where
  "exportBlockIndex bliInnerOffset e = bindR (readU64 (drop bliInnerOffset (fst e))) (\<lambda>height.
     bindR (decodeBytes (snd e)) (\<lambda>val.
       if length val < 16 then Inr None
       else bindR (readU64 (take 8 val)) (\<lambda>startIdx. bindR (readU64 (take 8 (drop 8 val))) (\<lambda>count.
         Inr (Some \<lparr>gb_height = height, gb_start_index = startIdx, gb_count = count\<rparr>)))))"

definition exportRoundTree :: "bytes \<Rightarrow> (vkv, GenesisRoundTree option) M" where
  "exportRoundTree r =
     bindM (GetCommitmentTreeState r) (\<lambda>state.
     if next_index state = 0 then returnM None
     else
       bindM (kvScan (CommitmentLeafPrefixForRound r)) (\<lambda>leafIter.
       bindM (liftR (collectR (exportLeaf (length (CommitmentLeafPrefixForRound r))) leafIter)) (\<lambda>leaves.
       bindM (kvScan (CommitmentRootPrefixForRound r)) (\<lambda>rootIter.
       bindM (liftR (collectR (exportRoot (length (CommitmentRootPrefixForRound r))) rootIter)) (\<lambda>roots.
       bindM (kvScan (BlockLeafIndexPrefixForRound r)) (\<lambda>bliIter.
       bindM (liftR (collectR (exportBlockIndex (length (BlockLeafIndexPrefixForRound r))) bliIter)) (\<lambda>blis.
       returnM (Some \<lparr>rt_vote_round_id = r, rt_tree_state = Some state, rt_commitment_leaves = leaves,
         rt_commitment_roots = roots, rt_block_leaf_indices = blis\<rparr>))))))))"

text \<open>
  The callback that collects the trees reads the same store; it drops a round whose tree does
  not export, and a panic in it is a panic of the export.
\<close>

definition collectTree :: "vkv \<Rightarrow> VoteRound \<Rightarrow> GenesisRoundTree list res \<Rightarrow> bool \<times> GenesisRoundTree list res" where
  "collectTree s rd acc =
     (case fst (exportRoundTree (vote_round_id rd) s) of
        Inl e \<Rightarrow> if e = GoPanic then (True, Inl GoPanic) else (False, acc)
      | Inr None \<Rightarrow> (False, acc)
      | Inr (Some rt) \<Rightarrow> (False, bindR acc (\<lambda>rts. Inr (rts @ [rt]))))"

definition exportNullifier :: "bytes \<times> kvval \<Rightarrow> NullifierEntry option res" where
  "exportNullifier e = (case e of (key, _) \<Rightarrow>
     if length key < 1 + 1 + RoundIDLen then Inr None
     else Inr (Some \<lparr>ne_nullifier = drop (1 + 1 + RoundIDLen) key, ne_nullifier_type = ucast (key ! 1),
       ne_round_id = take RoundIDLen (drop (1 + 1) key)\<rparr>))"

definition exportNullifiers :: "(vkv, NullifierEntry list) M" where
  "exportNullifiers = bindM (kvScan [0x01]) (\<lambda>es. liftR (collectR exportNullifier es))"

text \<open>The first zero byte ends the endorser id.\<close>

definition exportEndorsedRound :: "bytes \<times> kvval \<Rightarrow> EndorsedRound option res" where
  "exportEndorsedRound e = (case e of (key, _) \<Rightarrow>
     if length key < 1 + 1 + RoundIDLen then Inr None
     else let rest = drop 1 key; eid = takeWhile (\<lambda>b. b \<noteq> 0) rest; tail = dropWhile (\<lambda>b. b \<noteq> 0) rest in
       if tail = [] \<or> eid = [] \<or> length (tl tail) \<noteq> RoundIDLen then Inr None
       else Inr (Some \<lparr>eo_endorser_id = eid, eo_vote_round_id = tl tail\<rparr>))"

definition exportEndorsedRounds :: "(vkv, EndorsedRound list) M" where
  "exportEndorsedRounds = bindM (kvScan [0x17]) (\<lambda>es. liftR (collectR exportEndorsedRound es))"

definition exportTallyResults :: "(vkv, TallyResult list) M" where
  "exportTallyResults = bindM (kvScan [0x07]) (\<lambda>es.
     liftR (collectR (\<lambda>e. bindR (decodeTallyResult (snd e)) (\<lambda>r. Inr (Some r))) es))"

definition exportTallyAccumulator :: "bytes \<times> kvval \<Rightarrow> GenesisTallyAccumulator option res" where
  "exportTallyAccumulator e = (case e of (key, v) \<Rightarrow>
     if length key < 1 + RoundIDLen + 8 then Inr None
     else bindR (readU32 (drop (1 + RoundIDLen) key)) (\<lambda>proposalID.
       bindR (readU32 (drop (1 + RoundIDLen + 4) key)) (\<lambda>decision.
       bindR (decodeBytes v) (\<lambda>ct.
       Inr (Some \<lparr>ga_round_id = take RoundIDLen (drop 1 key), ga_proposal_id = proposalID,
         ga_vote_decision = decision, ga_ciphertext = ct\<rparr>)))))"

definition exportTallyAccumulators :: "(vkv, GenesisTallyAccumulator list) M" where
  "exportTallyAccumulators = bindM (kvScan [0x05]) (\<lambda>es. liftR (collectR exportTallyAccumulator es))"

definition exportPartialDecryption :: "bytes \<times> kvval \<Rightarrow> GenesisPartialDecryption option res" where
  "exportPartialDecryption e = (case e of (key, v) \<Rightarrow>
     if length key < 1 + RoundIDLen + 12 then Inr None
     else bindR (readU32 (drop (1 + RoundIDLen) key)) (\<lambda>validatorIndex.
       bindR (readU32 (drop (1 + RoundIDLen + 4) key)) (\<lambda>proposalID.
       bindR (readU32 (drop (1 + RoundIDLen + 8) key)) (\<lambda>decision.
       bindR (decodePartial v) (\<lambda>entry.
       Inr (Some \<lparr>gp_round_id = take RoundIDLen (drop 1 key), gp_validator_index = validatorIndex,
         gp_proposal_id = proposalID, gp_vote_decision = decision,
         gp_partial_decrypt = pd_partial_decrypt entry, gp_dleq_proof = pd_dleq_proof entry\<rparr>))))))"

definition exportPartialDecryptions :: "(vkv, GenesisPartialDecryption list) M" where
  "exportPartialDecryptions = bindM (kvScan [0x12]) (\<lambda>es. liftR (collectR exportPartialDecryption es))"

definition exportShareCount :: "bytes \<times> kvval \<Rightarrow> GenesisShareCount option res" where
  "exportShareCount e = (case e of (key, v) \<Rightarrow>
     if length key < 1 + RoundIDLen + 8 then Inr None
     else bindR (readU32 (drop (1 + RoundIDLen) key)) (\<lambda>proposalID.
       bindR (readU32 (drop (1 + RoundIDLen + 4) key)) (\<lambda>decision.
       bindR (decodeBytes v) (\<lambda>val.
       if length val < 8 then Inr None
       else bindR (readU64 val) (\<lambda>count.
       Inr (Some \<lparr>gc_round_id = take RoundIDLen (drop 1 key), gc_proposal_id = proposalID,
         gc_vote_decision = decision, gc_count = count\<rparr>))))))"

definition exportShareCounts :: "(vkv, GenesisShareCount list) M" where
  "exportShareCounts = bindM (kvScan [0x0B]) (\<lambda>es. liftR (collectR exportShareCount es))"

text \<open>The callback \<^verbatim>\<open>func(x) bool { xs = append(xs, x); return false }\<close>.\<close>

definition collect :: "'a \<Rightarrow> 'a list \<Rightarrow> bool \<times> 'a list" where
  "collect x xs = (False, xs @ [x])"

definition ExportGenesis :: "(vkv, GenesisState) M" where
  "ExportGenesis =
     bindM GetVoteManagers (\<lambda>vms.
     bindM (IterateCoordinatorActions collect []) (\<lambda>actions.
     bindM (kvHas NextCoordinatorActionIDKey) (\<lambda>hasNext.
     bindM (if hasNext \<or> actions \<noteq> [] then GetNextCoordinatorActionID else returnM 0) (\<lambda>nextID.
     bindM (IterateEndorsers collect []) (\<lambda>endorsers.
     bindM exportEndorsedRounds (\<lambda>endorsedRounds.
     bindM GetMinCeremonyValidators (\<lambda>minVal.
     bindM (IterateAllRounds collect []) (\<lambda>rounds.
     bindM (bindM (getM (\<lambda>s. s)) (\<lambda>s. bindM (IterateAllRounds (collectTree s) (Inr [])) liftR)) (\<lambda>roundTrees.
     bindM exportNullifiers (\<lambda>nullifiers.
     bindM exportTallyResults (\<lambda>tallyResults.
     bindM (IterateAllPallasKeys collect []) (\<lambda>pallasKeys.
     bindM exportTallyAccumulators (\<lambda>accumulators.
     bindM exportShareCounts (\<lambda>shareCounts.
     bindM exportPartialDecryptions (\<lambda>partials.
     returnM \<lparr>gs_rounds = rounds, gs_nullifiers = nullifiers,
       gs_vote_manager_addresses = (case vms of None \<Rightarrow> [] | Some m \<Rightarrow> vm_addresses m),
       gs_tally_results = tallyResults, gs_pallas_keys = pallasKeys,
       gs_tally_accumulators = accumulators, gs_share_counts = shareCounts,
       gs_min_ceremony_validators = minVal, gs_round_trees = roundTrees,
       gs_partial_decryptions = partials, gs_endorsers = endorsers,
       gs_endorsed_rounds = endorsedRounds,
       gs_vote_manager_threshold = (case vms of None \<Rightarrow> 0 | Some m \<Rightarrow> vm_threshold m),
       gs_coordinator_actions = actions, gs_next_coordinator_action_id = nextID\<rparr>)))))))))))))))"

section \<open>Validation\<close>

text \<open>
  A loop that checks each element, refuses a key it has already seen, and then checks the
  rest of the element. The errors carry no sentinel of their own.
\<close>

fun checkKeyed :: "('a \<Rightarrow> unit res) \<Rightarrow> ('a \<Rightarrow> 'k) \<Rightarrow> ('a \<Rightarrow> unit res) \<Rightarrow> 'k list \<Rightarrow> 'a list \<Rightarrow> unit res" where
  "checkKeyed pre key post seen [] = Inr ()"
| "checkKeyed pre key post seen (x # xs) =
     bindR (pre x) (\<lambda>_.
     failIfR (key x \<in> set seen) ErrOther (
     bindR (post x) (\<lambda>_. checkKeyed pre key post (key x # seen) xs)))"

lemma checkKeyed_Inr_iff:
  "checkKeyed pre key post seen xs = Inr () \<longleftrightarrow>
     (\<forall>x \<in> set xs. pre x = Inr () \<and> post x = Inr ()) \<and> distinct (map key xs) \<and> set seen \<inter> key ` set xs = {}"
  by (induction xs arbitrary: seen) (auto simp: bindR_Inr_iff)

definition validateApprovals :: "lib \<Rightarrow> gostring list \<Rightarrow> unit res" where
  "validateApprovals L approvals =
     checkKeyed (\<lambda>a. failIfR (\<not> validBech32 L a) ErrOther (Inr ())) (canonicalAddr L) (\<lambda>_. Inr ()) [] approvals"

definition validateAction :: "lib \<Rightarrow> CoordinatorAction \<Rightarrow> unit res" where
  "validateAction L action =
     failIfR (case action_payload action of None \<Rightarrow> True | Some p \<Rightarrow> type_url p = [] \<or> any_value p = []) ErrOther (
     failIfR (\<not> validBech32 L (action_proposer action)) ErrOther (
     failIfR (action_status action = COORDINATOR_ACTION_STATUS_UNSPECIFIED) ErrOther (
     validateApprovals L (action_approvals action))))"

definition ValidateGenesisState :: "lib \<Rightarrow> GenesisState option \<Rightarrow> unit res" where
  "ValidateGenesisState L genesis = (case genesis of None \<Rightarrow> Inr () | Some gs \<Rightarrow>
     bindR (checkKeyed (\<lambda>rd. failIfR (length (vote_round_id rd) \<noteq> RoundIDLen) ErrOther (
         failIfR (vote_end_time rd = 0) ErrOther (Inr ()))) vote_round_id (\<lambda>_. Inr ()) [] (gs_rounds gs)) (\<lambda>_.
     bindR (forR 0 (\<lambda>_ n. failIfR (ne_nullifier_type n > 2) ErrOther (
         failIfR (length (ne_round_id n) \<noteq> RoundIDLen) ErrOther (
         failIfR (ne_nullifier n = []) ErrOther (Inr ())))) (gs_nullifiers gs)) (\<lambda>_.
     bindR (ValidateAndNormalizeVoteManagerPolicy L (gs_vote_manager_addresses gs) (gs_vote_manager_threshold gs)) (\<lambda>_.
     bindR (forR 0 (\<lambda>_ r. failIfR (length (tr_vote_round_id r) \<noteq> RoundIDLen) ErrOther (Inr ())) (gs_tally_results gs)) (\<lambda>_.
     bindR (forR 0 (\<lambda>_ p. failIfR (vpk_validator_address p = []) ErrOther (
         failIfR (length (vpk_pallas_pk p) \<noteq> 32) ErrOther (Inr ()))) (gs_pallas_keys gs)) (\<lambda>_.
     bindR (forR 0 (\<lambda>_ a. failIfR (length (ga_round_id a) \<noteq> RoundIDLen) ErrOther (
         failIfR (length (ga_ciphertext a) \<noteq> 64) ErrOther (Inr ()))) (gs_tally_accumulators gs)) (\<lambda>_.
     bindR (forR 0 (\<lambda>_ sc. failIfR (length (gc_round_id sc) \<noteq> RoundIDLen) ErrOther (Inr ())) (gs_share_counts gs)) (\<lambda>_.
     bindR (forR 0 (\<lambda>_ pd. failIfR (length (gp_round_id pd) \<noteq> RoundIDLen) ErrOther (
         failIfR (gp_validator_index pd = 0) ErrOther (
         failIfR (length (gp_partial_decrypt pd) \<noteq> 32) ErrOther (Inr ())))) (gs_partial_decryptions gs)) (\<lambda>_.
     bindR (checkKeyed (\<lambda>x. ValidateEndorserID (end_endorser_id x)) end_endorser_id
         (\<lambda>x. failIfR (\<not> validBech32 L (end_address x)) ErrOther (Inr ())) [] (gs_endorsers gs)) (\<lambda>_.
     bindR (checkKeyed (\<lambda>x. bindR (ValidateEndorserID (eo_endorser_id x)) (\<lambda>_.
           failIfR (length (eo_vote_round_id x) \<noteq> RoundIDLen) ErrOther (Inr ())))
         (\<lambda>x. eo_endorser_id x @ [0] @ eo_vote_round_id x) (\<lambda>_. Inr ()) [] (gs_endorsed_rounds gs)) (\<lambda>_.
     bindR (checkKeyed (\<lambda>a. failIfR (action_id a = 0) ErrOther (Inr ())) action_id (validateAction L) []
         (gs_coordinator_actions gs)) (\<lambda>_.
     failIfR (gs_next_coordinator_action_id gs \<noteq> 0 \<and>
         list_ex (\<lambda>a. action_id a \<ge> gs_next_coordinator_action_id gs) (gs_coordinator_actions gs)) ErrOther (
     Inr ())))))))))))))"

end
