(* ===== verification/Genesis_Roundtrip.thy ===== *)
theory Genesis_Roundtrip
  imports Genesis
begin

text \<open>
  What survives an export and a re-import. The condition \<open>exportable\<close> is what the module's
  writers keep true of their store; under it the export returns and the import of the result
  rebuilds every entry, except that the shard data of the commitment trees is left out and
  the height of a tree starts at zero, so that the first block replays the tree's leaves.
\<close>

section \<open>Lists of writes\<close>

definition writes :: "(bytes \<times> kvval) list \<Rightarrow> vkv \<Rightarrow> vkv" where
  "writes W s = foldl (\<lambda>s (k, v). kv_set k v s) s W"

lemma writes_simps [simp]:
  "writes [] s = s" "writes ((k, v) # W) s = writes W (kv_set k v s)"
  "writes (W @ W') s = writes W' (writes W s)"
  by (simp_all add: writes_def)

lemma kv_wf_writes: "kv_wf s \<Longrightarrow> (\<And>k v. (k, v) \<in> set W \<Longrightarrow> entry_ok k v) \<Longrightarrow> kv_wf (writes W s)"
proof (induction W arbitrary: s)
  case Nil
  then show ?case by simp
next
  case (Cons e W)
  obtain k v where e: "e = (k, v)" by (cases e)
  have "kv_wf (kv_set k v s)" by (rule kv_wf_set) (use Cons.prems e in auto)
  moreover have "entry_ok k' v'" if "(k', v') \<in> set W" for k' v' using Cons.prems(2) that by simp
  ultimately show ?case using Cons.IH e by simp
qed

lemma get_writes: "kv_get (writes W s) k = (case map_of (rev W) k of None \<Rightarrow> kv_get s k | Some v \<Rightarrow> Some v)"
proof (induction W arbitrary: s)
  case Nil
  then show ?case by simp
next
  case (Cons e W)
  then show ?case by (cases e) (simp add: map_add_def get_simps split: option.splits)
qed

text \<open>Writes that agree with a map, and cover it, build it.\<close>

lemma get_writes_graph:
  assumes "\<And>k v. (k, v) \<in> set W \<longleftrightarrow> m k = Some v"
  shows "kv_get (writes W []) = m"
proof (rule ext)
  fix k
  show "kv_get (writes W []) k = m k"
  proof (cases "map_of (rev W) k")
    case None
    then have "k \<notin> fst ` set W" by (simp add: map_of_eq_None_iff)
    then have "m k \<noteq> Some v" for v using assms by (metis fst_conv image_eqI)
    then have "m k = None" by (cases "m k") auto
    then show ?thesis using None by (simp add: get_writes)
  next
    case (Some v)
    then have "(k, v) \<in> set W" by (auto dest: map_of_SomeD)
    with Some assms show ?thesis by (simp add: get_writes)
  qed
qed

lemma forM_writes:
  assumes "\<And>x t. x \<in> set xs \<Longrightarrow> f x t = (Inr (), writes (g x) t)"
  shows "forM xs f s = (Inr (), writes (concat (map g xs)) s)"
  using assms by (induction xs arbitrary: s) (simp_all add: returnM_def thenM_simps)

section \<open>Segments\<close>

text \<open>A scan whose entries export one by one, each to something that imports as that entry.\<close>

lemma collectR_segment:
  assumes "\<And>k v. (k, v) \<in> set es \<Longrightarrow> \<exists>x. f (k, v) = Inr (Some x) \<and> (\<forall>t. imp x t = (Inr (), kv_set k v t))"
  shows "\<exists>xs. collectR f es = Inr xs \<and> (\<forall>t. forM xs imp t = (Inr (), writes es t))"
  using assms
proof (induction es)
  case Nil
  then show ?case by (simp add: returnM_def)
next
  case (Cons e es)
  obtain k v where e: "e = (k, v)" by (cases e)
  obtain x where "f (k, v) = Inr (Some x)" "\<forall>t. imp x t = (Inr (), kv_set k v t)" using Cons.prems[of k v] e by auto
  moreover obtain xs where "collectR f es = Inr xs" "\<forall>t. forM xs imp t = (Inr (), writes es t)"
    using Cons.IH Cons.prems by (meson list.set_intros(2))
  ultimately show ?case using e by (auto intro!: exI[of _ "x # xs"] simp: thenM_simps)
qed

lemma collect_step [simp]: "(case collect x acc of (stop, a) \<Rightarrow> F stop a) = F False (acc @ [x])"
  by (simp add: collect_def)

lemma foldUntil_collect_all: "foldUntil collect acc xs = acc @ xs"
  by (induction xs arbitrary: acc) simp_all

lemma decoded_segment:
  assumes "\<And>k v. (k, v) \<in> set es \<Longrightarrow> \<exists>x. dec v = Inr x \<and> (\<forall>t. imp x t = (Inr (), writes (g x) t)) \<and> (k, v) \<in> set (g x)"
  shows "iterLoop dec (\<lambda>_. True) collect [] es = Inr (decoded dec es)"
    and "forM (decoded dec es) imp t = (Inr (), writes (concat (map g (decoded dec es))) t)"
proof -
  have "iterLoop dec (\<lambda>_. True) collect [] es = Inr (foldUntil collect [] (filter (\<lambda>_. True) (decoded dec es)))"
    by (rule iterLoop_decoded) (use assms in blast)
  then show "iterLoop dec (\<lambda>_. True) collect [] es = Inr (decoded dec es)" by (simp add: foldUntil_collect_all)
  show "forM (decoded dec es) imp t = (Inr (), writes (concat (map g (decoded dec es))) t)"
  proof (rule forM_writes)
    fix x t assume "x \<in> set (decoded dec es)"
    then obtain k v where "(k, v) \<in> set es" "dec v = Inr x" by (auto simp: mem_decoded_iff)
    with assms[of k v] show "imp x t = (Inr (), writes (g x) t)" by auto
  qed
qed

lemma eight_bytes_decode: "length b = 8 \<Longrightarrow> \<exists>v. getUint64BE b = Some v \<and> b = putUint64BE v"
proof -
  assume "length b = 8"
  then obtain b0 b1 b2 b3 b4 b5 b6 b7 where b: "b = [b0, b1, b2, b3, b4, b5, b6, b7]"
    by (auto simp: length_Suc_conv numeral_eq_Suc)
  obtain v where v: "getUint64BE b = Some v" by (simp add: b)
  have bits: "v = push_bit 56 (ucast b0) OR push_bit 48 (ucast b1) OR push_bit 40 (ucast b2) OR
      push_bit 32 (ucast b3) OR push_bit 24 (ucast b4) OR push_bit 16 (ucast b5) OR
      push_bit 8 (ucast b6) OR ucast b7"
    using v b by simp
  have "ucast (drop_bit 56 v) = b0" "ucast (drop_bit 48 v) = b1" "ucast (drop_bit 40 v) = b2"
    "ucast (drop_bit 32 v) = b3" "ucast (drop_bit 24 v) = b4" "ucast (drop_bit 16 v) = b5"
    "ucast (drop_bit 8 v) = b6" "ucast v = b7"
    unfolding bits by (auto simp: bit_eq_iff bit_simps dest: bit_imp_le_length)
  then show ?thesis using v by (auto simp: putUint64BE_def b)
qed

section \<open>Stores the module can export\<close>

definition nextActionID :: "vkv \<Rightarrow> u64 option" where
  "nextActionID s = (case kv_get s NextCoordinatorActionIDKey of Some (VBytes b) \<Rightarrow> getUint64BE b | _ \<Rightarrow> None)"

text \<open>
  Entries of a commitment tree lie under a stored round whose tree has leaves. The bytes
  \<open>0x0F\<close>, \<open>0x10\<close> and \<open>0x11\<close> start the keys of the tree library's shards, cap and
  checkpoints.
\<close>

definition treeEntry :: "vkv \<Rightarrow> bytes \<Rightarrow> kvval \<Rightarrow> bool" where
  "treeEntry s k v \<longleftrightarrow> 34 \<le> length k \<and>
     (let r = take 32 (tl k); sub = k ! 33; rest = drop 34 k in
      kv_has s (0x04 # r) \<and>
      (case kv_get s (RoundTreeStateKey r) of Some (VTreeState st) \<Rightarrow> next_index st \<noteq> 0 | _ \<Rightarrow> False) \<and>
      (if sub = 0x02 \<or> sub = 0x03 then length rest = 8 \<and> (case v of VBytes _ \<Rightarrow> True | _ \<Rightarrow> False)
       else if sub = 0x06 then rest = []
       else if sub = 0x08 then length rest = 8 \<and> (case v of VBytes b \<Rightarrow> length b = 16 | _ \<Rightarrow> False)
       else sub = 0x0F \<or> sub = 0x10 \<or> sub = 0x11))"

definition genesisEntry :: "lib \<Rightarrow> vkv \<Rightarrow> bytes \<Rightarrow> kvval \<Rightarrow> bool" where
  "genesisEntry L s k v =
     (if hd k = 0x01 then 34 \<le> length k \<and> v = VBytes [1]
      else if hd k = 0x0A then
        (case v of VVoteManagerSet m \<Rightarrow>
           ValidateAndNormalizeVoteManagerPolicy L (vm_addresses m) (vm_threshold m) = Inr (vm_addresses m, vm_threshold m)
         | _ \<Rightarrow> False)
      else if hd k = 0x0B then (case v of VBytes b \<Rightarrow> length b = 8 | _ \<Rightarrow> False)
      else if hd k = 0x0C then
        (case v of VPallasKey p \<Rightarrow>
           kv_get s (PallasKeyReverseLookupKey (vpk_pallas_pk p)) = Some (VBytes (vpk_validator_address p))
         | _ \<Rightarrow> False)
      else if hd k = 0x13 then
        k = MinCeremonyValidatorsKey \<and> (case v of VBytes b \<Rightarrow> length b = 4 \<and> b \<noteq> putUint32BE 0 | _ \<Rightarrow> False)
      else if hd k = 0x14 then treeEntry s k v
      else if hd k = 0x15 then
        (case v of VBytes a \<Rightarrow>
           (case kv_get s (PallasKeyKey a) of Some (VPallasKey p) \<Rightarrow> vpk_pallas_pk p = tl k | _ \<Rightarrow> False)
         | _ \<Rightarrow> False)
      else if hd k = 0x16 then EndorserAddressKey (tl k) = Inr k \<and> v \<noteq> VBytes []
      else if hd k = 0x17 then
        34 \<le> length k \<and> v = VBytes [1] \<and>
        EndorsedRoundKey (take (length k - 34) (tl k)) (drop (length k - 32) k) = Inr k
      else if hd k = 0x18 then
        (case v of VCoordinatorAction a \<Rightarrow> action_id a \<noteq> 0 \<and>
           (case nextActionID s of Some n \<Rightarrow> action_id a < n | None \<Rightarrow> False)
         | _ \<Rightarrow> False)
      else if hd k = 0x19 then
        k = NextCoordinatorActionIDKey \<and> (case v of VBytes b \<Rightarrow> length b = 8 \<and> b \<noteq> putUint64BE 0 | _ \<Rightarrow> False)
      else hd k = 0x04 \<or> hd k = 0x05 \<or> hd k = 0x07 \<or> hd k = 0x12)"

definition exportable :: "lib \<Rightarrow> vkv \<Rightarrow> bool" where
  "exportable L s \<longleftrightarrow> kv_wf s \<and> list_all (\<lambda>(k, v). genesisEntry L s k v) s"

lemma exportableD:
  assumes "exportable L s" and "kv_get s k = Some v"
  shows "genesisEntry L s k v" "entry_ok k v"
  using assms kv_wf_get[of s k v] by (auto simp: exportable_def list_all_iff kv_ok_mem_iff[OF kv_wf_ok, symmetric])

lemma exportable_wf: "exportable L s \<Longrightarrow> kv_wf s"
  by (simp add: exportable_def)

lemma mem_scan_tag:
  "exportable L s \<Longrightarrow> (k, v) \<in> set (kv_scan [t] s) \<longleftrightarrow> kv_get s k = Some v \<and> (\<exists>c. k = t # c)"
  by (auto simp: kv_scan_iff[OF kv_wf_ok[OF exportable_wf]] prefix_def)

text \<open>The tables of one entry.\<close>

lemma scan_one:
  assumes "exportable L s" and "\<And>c v. kv_get s (t # c) = Some v \<Longrightarrow> c = []"
  shows "set (kv_scan [t] s) = (case kv_get s [t] of None \<Rightarrow> {} | Some v \<Rightarrow> {([t], v)})"
proof -
  have "(k, v) \<in> set (kv_scan [t] s) \<longleftrightarrow> k = [t] \<and> kv_get s [t] = Some v" for k v
    using assms(2) by (auto simp: mem_scan_tag[OF assms(1)])
  then show ?thesis by (intro equalityI subrelI) (auto split: option.splits)
qed

lemma scan_singleton:
  assumes "exportable L s"
  shows "set (kv_scan [0x0A] s) = (case kv_get s [0x0A] of None \<Rightarrow> {} | Some v \<Rightarrow> {([0x0A], v)})"
    and "set (kv_scan [0x19] s) = (case kv_get s [0x19] of None \<Rightarrow> {} | Some v \<Rightarrow> {([0x19], v)})"
proof -
  show "set (kv_scan [0x0A] s) = (case kv_get s [0x0A] of None \<Rightarrow> {} | Some v \<Rightarrow> {([0x0A], v)})"
    by (rule scan_one[OF assms], drule exportableD(2)[OF assms]) (auto simp: entry_ok_def key_simps split: kvval.splits)
  show "set (kv_scan [0x19] s) = (case kv_get s [0x19] of None \<Rightarrow> {} | Some v \<Rightarrow> {([0x19], v)})"
    by (rule scan_one[OF assms], drule exportableD(1)[OF assms]) (auto simp: genesisEntry_def key_simps)
qed

text \<open>The parts of the fixed-width keys.\<close>

lemma split_round_ids:
  assumes "length c = 40"
  shows "\<exists>r p d. c = r @ putUint32BE p @ putUint32BE d \<and> length r = 32"
proof -
  let ?r = "take 32 c" and ?p = "take 4 (drop 32 c)" and ?d = "drop 4 (drop 32 c)"
  have "c = ?r @ ?p @ ?d" by (simp only: append_take_drop_id)
  moreover have "length ?p = 4" "length ?d = 4" "length ?r = 32" using assms by simp_all
  ultimately show ?thesis using four_bytes_decode[of ?p] four_bytes_decode[of ?d] by metis
qed

lemma ucast_byte [simp]: "ucast (ucast b :: u32) = b" for b :: u8
  by (rule bit_eqI) (simp add: bit_simps)

lemma readU32_put [simp]: "readU32 (putUint32BE v @ xs) = Inr v" "readU32 (putUint32BE v) = Inr v"
  by (simp_all add: readU32_def)

lemma readU64_put [simp]: "readU64 (putUint64BE v @ xs) = Inr v" "readU64 (putUint64BE v) = Inr v"
  by (simp_all add: readU64_def)

section \<open>Exporting and importing each table\<close>

lemma nullifier_segment:
  assumes "exportable L s"
  shows "\<exists>xs. exportNullifiers s = (Inr xs, s) \<and> (\<forall>t. forM xs importNullifier t = (Inr (), writes (kv_scan [0x01] s) t))"
proof -
  have "\<exists>x. exportNullifier (k, v) = Inr (Some x) \<and> (\<forall>t. importNullifier x t = (Inr (), kv_set k v t))"
    if m: "(k, v) \<in> set (kv_scan [0x01] s)" for k v
  proof -
    obtain c where k: "k = 0x01 # c" "kv_get s k = Some v" using m by (auto simp: mem_scan_tag[OF assms])
    have e: "33 \<le> length c" "v = VBytes [1]" using exportableD(1)[OF assms k(2)] k(1) by (auto simp: genesisEntry_def)
    obtain b d where c: "c = b # d" using e(1) by (cases c) auto
    have "d = take 32 d @ drop 32 d" "length (take 32 d) = 32" using e(1) c by simp_all
    then obtain r n where d: "d = r @ n" "length r = 32" by metis
    show ?thesis unfolding k(1) c d(1) e(2) using d(2)
      by (simp add: exportNullifier_def importNullifier_def RoundIDLen_def key_simps ValidateRoundID_ok
          bindM_def liftR_def kvSet_def modifyM_def)
  qed
  from collectR_segment[of "kv_scan [0x01] s" exportNullifier importNullifier, OF this]
  show ?thesis by (auto simp: exportNullifiers_def bindM_def kvScan_def getM_def liftR_def)
qed

lemma accumulator_segment:
  assumes "exportable L s"
  shows "\<exists>xs. exportTallyAccumulators s = (Inr xs, s) \<and> (\<forall>t. forM xs importAccumulator t = (Inr (), writes (kv_scan [0x05] s) t))"
proof -
  have "\<exists>x. exportTallyAccumulator (k, v) = Inr (Some x) \<and> (\<forall>t. importAccumulator x t = (Inr (), kv_set k v t))"
    if m: "(k, v) \<in> set (kv_scan [0x05] s)" for k v
  proof -
    obtain c where k: "k = 0x05 # c" "kv_get s k = Some v" using m by (auto simp: mem_scan_tag[OF assms])
    obtain b where e: "length c = 40" "v = VBytes b"
      using exportableD(2)[OF assms k(2)] k(1) by (auto simp: entry_ok_def split: kvval.splits)
    obtain r p d where c: "c = r @ putUint32BE p @ putUint32BE d" "length r = 32" using split_round_ids[OF e(1)] by blast
    show ?thesis unfolding k(1) c(1) e(2) using c(2)
      by (simp add: exportTallyAccumulator_def importAccumulator_def RoundIDLen_def key_simps ValidateRoundID_ok
          bindM_def liftR_def kvSet_def modifyM_def)
  qed
  from collectR_segment[of "kv_scan [0x05] s" exportTallyAccumulator importAccumulator, OF this]
  show ?thesis by (auto simp: exportTallyAccumulators_def bindM_def kvScan_def getM_def liftR_def)
qed

lemma share_count_segment:
  assumes "exportable L s"
  shows "\<exists>xs. exportShareCounts s = (Inr xs, s) \<and> (\<forall>t. forM xs importShareCount t = (Inr (), writes (kv_scan [0x0B] s) t))"
proof -
  have "\<exists>x. exportShareCount (k, v) = Inr (Some x) \<and> (\<forall>t. importShareCount x t = (Inr (), kv_set k v t))"
    if m: "(k, v) \<in> set (kv_scan [0x0B] s)" for k v
  proof -
    obtain c where k: "k = 0x0B # c" "kv_get s k = Some v" using m by (auto simp: mem_scan_tag[OF assms])
    obtain b where e: "length c = 40" "v = VBytes b"
      using exportableD(2)[OF assms k(2)] k(1) by (auto simp: entry_ok_def split: kvval.splits)
    have "length b = 8" using exportableD(1)[OF assms k(2)] k(1) e(2) by (simp add: genesisEntry_def)
    then obtain n where b: "b = putUint64BE n" using eight_bytes_decode by blast
    obtain r p d where c: "c = r @ putUint32BE p @ putUint32BE d" "length r = 32" using split_round_ids[OF e(1)] by blast
    show ?thesis unfolding k(1) c(1) e(2) b using c(2)
      by (simp add: exportShareCount_def importShareCount_def RoundIDLen_def key_simps ValidateRoundID_ok
          bindM_def liftR_def kvSet_def modifyM_def)
  qed
  from collectR_segment[of "kv_scan [0x0B] s" exportShareCount importShareCount, OF this]
  show ?thesis by (auto simp: exportShareCounts_def bindM_def kvScan_def getM_def liftR_def)
qed

lemma partial_segment:
  assumes "exportable L s"
  shows "\<exists>xs. exportPartialDecryptions s = (Inr xs, s) \<and> (\<forall>t. forM xs importPartial t = (Inr (), writes (kv_scan [0x12] s) t))"
proof -
  have "\<exists>x. exportPartialDecryption (k, v) = Inr (Some x) \<and> (\<forall>t. importPartial x t = (Inr (), kv_set k v t))"
    if m: "(k, v) \<in> set (kv_scan [0x12] s)" for k v
  proof -
    obtain c where k: "k = 0x12 # c" "kv_get s k = Some v" using m by (auto simp: mem_scan_tag[OF assms])
    obtain p where e: "length c = 44" "v = VPartialDecryption p"
      "drop 36 c = putUint32BE (pd_proposal_id p) @ putUint32BE (pd_vote_decision p)"
      using exportableD(2)[OF assms k(2)] k(1) by (auto simp: entry_ok_def split: kvval.splits)
    let ?r = "take 32 c" and ?i = "take 4 (drop 32 c)"
    have "c = ?r @ ?i @ drop 4 (drop 32 c)" by (simp only: append_take_drop_id)
    moreover have "drop 4 (drop 32 c) = putUint32BE (pd_proposal_id p) @ putUint32BE (pd_vote_decision p)"
      using e(3) by simp
    moreover have "length ?r = 32" "length ?i = 4" using e(1) by simp_all
    ultimately obtain r i where c: "c = r @ putUint32BE i @ putUint32BE (pd_proposal_id p) @ putUint32BE (pd_vote_decision p)"
      "length r = 32" using four_bytes_decode[of ?i] by metis
    show ?thesis unfolding k(1) c(1) e(2) using c(2)
      by (cases p) (simp add: exportPartialDecryption_def importPartial_def SetPartialDecryptions_def RoundIDLen_def key_simps
          ValidateRoundID_ok thenM_def bindM_def liftR_def kvSet_def modifyM_def returnM_def)
  qed
  from collectR_segment[of "kv_scan [0x12] s" exportPartialDecryption importPartial, OF this]
  show ?thesis by (auto simp: exportPartialDecryptions_def bindM_def kvScan_def getM_def liftR_def)
qed

lemma tally_result_segment:
  assumes "exportable L s"
  shows "\<exists>xs. exportTallyResults s = (Inr xs, s) \<and> (\<forall>t. forM xs SetTallyResult t = (Inr (), writes (kv_scan [0x07] s) t))"
proof -
  let ?f = "\<lambda>e. bindR (decodeTallyResult (snd e)) (\<lambda>r. Inr (Some r))"
  have "\<exists>x. ?f (k, v) = Inr (Some x) \<and> (\<forall>t. SetTallyResult x t = (Inr (), kv_set k v t))"
    if m: "(k, v) \<in> set (kv_scan [0x07] s)" for k v
  proof -
    obtain c where k: "k = 0x07 # c" "kv_get s k = Some v" using m by (auto simp: mem_scan_tag[OF assms])
    obtain r where "v = VTallyResult r" "TallyResultKey (tr_vote_round_id r) (tr_proposal_id r) (tr_vote_decision r) = Inr k"
      using exportableD(2)[OF assms k(2)] k(1) by (auto simp: entry_ok_def split: kvval.splits)
    then show ?thesis by (simp add: SetTallyResult_def bindM_def liftR_def kvSet_def modifyM_def)
  qed
  from collectR_segment[of "kv_scan [0x07] s" ?f SetTallyResult, OF this]
  show ?thesis by (auto simp: exportTallyResults_def bindM_def kvScan_def getM_def liftR_def)
qed

lemma endorsed_segment:
  assumes "exportable L s"
  shows "\<exists>xs. exportEndorsedRounds s = (Inr xs, s) \<and>
    (\<forall>t. forM xs (\<lambda>x. AddEndorsedRound (eo_endorser_id x) (eo_vote_round_id x)) t = (Inr (), writes (kv_scan [0x17] s) t))"
proof -
  let ?imp = "\<lambda>x. AddEndorsedRound (eo_endorser_id x) (eo_vote_round_id x)"
  have "\<exists>x. exportEndorsedRound (k, v) = Inr (Some x) \<and> (\<forall>t. ?imp x t = (Inr (), kv_set k v t))"
    if m: "(k, v) \<in> set (kv_scan [0x17] s)" for k v
  proof -
    obtain c where k: "k = 0x17 # c" "kv_get s k = Some v" using m by (auto simp: mem_scan_tag[OF assms])
    obtain x r where e: "EndorsedRoundKey x r = Inr k" "v = VBytes [1]"
      using exportableD(1)[OF assms k(2)] k(1) by (auto simp: genesisEntry_def)
    then have x: "ValidateEndorserID x = Inr ()" "length r = 32" "k = 0x17 # x @ 0x00 # r"
      by (auto simp: key_simps bindR_Inr_iff)
    then have z: "x \<noteq> []" "\<forall>b \<in> set x. b \<noteq> 0" using no_zero_in_endorser_id[of x] by (auto simp: ValidateEndorserID_Inr)
    then have "exportEndorsedRound (k, v) = Inr (Some \<lparr>eo_endorser_id = x, eo_vote_round_id = r\<rparr>)"
      using x(2) by (simp add: exportEndorsedRound_def x(3) Let_def RoundIDLen_def takeWhile_append2 dropWhile_append2)
    then show ?thesis using e by (simp add: AddEndorsedRound_def bindM_def liftR_def kvSet_def modifyM_def)
  qed
  from collectR_segment[of "kv_scan [0x17] s" exportEndorsedRound ?imp, OF this]
  show ?thesis by (auto simp: exportEndorsedRounds_def bindM_def kvScan_def getM_def liftR_def)
qed

text \<open>Endorsers.\<close>

lemma endorserLoop_segment:
  assumes "\<And>k v. (k, v) \<in> set es \<Longrightarrow> \<exists>x b. k = 0x16 # x \<and> EndorserAddressKey x = Inr k \<and> v = VBytes b \<and> b \<noteq> []"
  shows "\<exists>xs. (\<forall>acc. endorserLoop 1 collect acc es = Inr (acc @ xs)) \<and>
    (\<forall>t. forM xs (\<lambda>x. SetEndorser (end_endorser_id x) (end_address x)) t = (Inr (), writes es t))"
  using assms
proof (induction es)
  case Nil
  then show ?case by (simp add: returnM_def)
next
  case (Cons e es)
  obtain k v where e: "e = (k, v)" by (cases e)
  obtain x b where kv: "k = 0x16 # x" "EndorserAddressKey x = Inr k" "v = VBytes b" "b \<noteq> []"
    using Cons.prems[of k v] e by auto
  obtain xs where xs: "\<forall>acc. endorserLoop 1 collect acc es = Inr (acc @ xs)"
    "\<forall>t. forM xs (\<lambda>x. SetEndorser (end_endorser_id x) (end_address x)) t = (Inr (), writes es t)"
    using Cons.IH Cons.prems by (meson list.set_intros(2))
  have imp: "SetEndorser x b t = (Inr (), kv_set k v t)" for t
    using kv by (simp add: SetEndorser_def bindM_def liftR_def kvSet_def modifyM_def)
  show ?case
    by (rule exI[of _ "\<lparr>end_endorser_id = x, end_address = b\<rparr> # xs"])
      (use kv(1,3) xs imp in \<open>simp add: e thenM_simps\<close>)
qed

lemma endorser_segment:
  assumes "exportable L s"
  shows "\<exists>xs. IterateEndorsers collect [] s = (Inr xs, s) \<and>
    (\<forall>t. forM xs (\<lambda>x. SetEndorser (end_endorser_id x) (end_address x)) t = (Inr (), writes (kv_scan [0x16] s) t))"
proof -
  have "\<exists>x b. k = 0x16 # x \<and> EndorserAddressKey x = Inr k \<and> v = VBytes b \<and> b \<noteq> []"
    if m: "(k, v) \<in> set (kv_scan [0x16] s)" for k v
  proof -
    obtain c where k: "k = 0x16 # c" "kv_get s k = Some v" using m by (auto simp: mem_scan_tag[OF assms])
    then show ?thesis using exportableD[OF assms k(2)]
      by (auto simp: genesisEntry_def entry_ok_def split: kvval.splits)
  qed
  from endorserLoop_segment[of "kv_scan [0x16] s", OF this]
  show ?thesis by (auto simp: IterateEndorsers_def key_simps bindM_def kvScan_def getM_def liftR_def)
qed

text \<open>Rounds, coordinator actions and Pallas keys.\<close>

lemma round_segment:
  assumes "exportable L s"
  shows "IterateAllRounds collect [] s = (Inr (roundsOf s), s)"
    "\<exists>W. set W = set (kv_scan [0x04] s) \<and> (\<forall>t. forM (roundsOf s) SetVoteRound t = (Inr (), writes W t))"
proof -
  show "IterateAllRounds collect [] s = (Inr (roundsOf s), s)"
    by (simp add: IterateAllRounds_def iterateRounds_wf[OF exportable_wf[OF assms]] foldUntil_collect_all)
  let ?g = "\<lambda>rd. [(0x04 # vote_round_id rd, VVoteRound rd)]"
  have e: "\<exists>rd. decodeRound v = Inr rd \<and> (\<forall>t. SetVoteRound rd t = (Inr (), writes (?g rd) t)) \<and> (k, v) \<in> set (?g rd)"
    if m: "(k, v) \<in> set (kv_scan VoteRoundPrefix s)" for k v
    using round_scan_wf[OF exportable_wf[OF assms] m] by (auto simp: SetVoteRound_ok)
  have "set (concat (map ?g (roundsOf s))) = set (kv_scan [0x04] s)"
    using round_scan_wf[OF exportable_wf[OF assms]]
    by (fastforce simp: roundsOf_def mem_decoded_iff VoteRoundPrefix_def)
  then show "\<exists>W. set W = set (kv_scan [0x04] s) \<and> (\<forall>t. forM (roundsOf s) SetVoteRound t = (Inr (), writes W t))"
    using decoded_segment(2)[of "kv_scan VoteRoundPrefix s" decodeRound SetVoteRound ?g, OF e]
    unfolding roundsOf_def by blast
qed

lemma action_scan:
  assumes "exportable L s" and "(k, v) \<in> set (kv_scan CoordinatorActionPrefix s)"
  shows "\<exists>a n. v = VCoordinatorAction a \<and> k = CoordinatorActionKey (action_id a) \<and> action_id a \<noteq> 0 \<and>
    nextActionID s = Some n \<and> action_id a < n"
proof -
  obtain c where k: "k = 0x18 # c" "kv_get s k = Some v"
    using assms(2) by (auto simp: mem_scan_tag[OF assms(1)] CoordinatorActionPrefix_def)
  then show ?thesis using exportableD[OF assms(1) k(2)]
    by (auto simp: genesisEntry_def entry_ok_def split: kvval.splits option.splits)
qed

lemma importActions_writes:
  "(\<And>a. a \<in> set xs \<Longrightarrow> action_id a \<noteq> 0 \<and> action_id a < n) \<Longrightarrow> n \<noteq> 0 \<Longrightarrow>
   importActions n xs t = (Inr n, writes (map (\<lambda>a. (CoordinatorActionKey (action_id a), VCoordinatorAction a)) xs) t)"
proof (induction xs arbitrary: t)
  case Nil
  then show ?case by (simp add: returnM_def)
next
  case (Cons a xs)
  have a: "action_id a \<noteq> 0" "\<not> n \<le> action_id a" using Cons.prems(1)[of a] by auto
  have "importActions n xs t = (Inr n, writes (map (\<lambda>a. (CoordinatorActionKey (action_id a), VCoordinatorAction a)) xs) t)" for t
    using Cons by simp
  then show ?case using a Cons.prems(2)
    by (simp add: thenM_def bindM_def SetCoordinatorAction_def kvSet_def modifyM_def)
qed

lemma action_segment:
  assumes "exportable L s"
  shows "\<exists>xs nextID W. IterateCoordinatorActions collect [] s = (Inr xs, s) \<and>
    (if kv_has s NextCoordinatorActionIDKey \<or> xs \<noteq> [] then GetNextCoordinatorActionID else returnM 0) s = (Inr nextID, s) \<and>
    set W = set (kv_scan [0x18] s) \<union> set (kv_scan [0x19] s) \<and>
    (\<forall>t. bindM (importActions nextID xs) (\<lambda>n. if n \<noteq> 0 then SetNextCoordinatorActionID n else returnM ()) t = (Inr (), writes W t))"
proof -
  let ?es = "kv_scan CoordinatorActionPrefix s"
  let ?xs = "decoded decodeAction ?es"
  let ?w = "\<lambda>a. (CoordinatorActionKey (action_id a), VCoordinatorAction a)"
  note scan = action_scan[OF assms]
  have "iterLoop decodeAction (\<lambda>_. True) collect [] ?es = Inr (foldUntil collect [] (filter (\<lambda>_. True) ?xs))"
    by (rule iterLoop_decoded) (use scan in fastforce)
  then have it: "IterateCoordinatorActions collect [] s = (Inr ?xs, s)"
    by (simp add: IterateCoordinatorActions_def bindM_def kvScan_def getM_def liftR_def foldUntil_collect_all)
  have ws: "set (map ?w ?xs) = set (kv_scan [0x18] s)"
    using scan by (fastforce simp: mem_decoded_iff CoordinatorActionPrefix_def)
  show ?thesis
  proof (cases "kv_get s [0x19]")
    case None
    then have e: "?es = []" using scan by (cases ?es) (auto simp: nextActionID_def key_simps)
    have "kv_scan [0x19] s = []" using scan_singleton(2)[OF assms] None by simp
    then show ?thesis using it e None ws
      by (intro exI[of _ ?xs] exI[of _ 0] exI[of _ "[]"])
        (auto simp: kv_has_iff key_simps returnM_def bindM_def)
  next
    case (Some v)
    obtain b where b: "v = VBytes b" "length b = 8" "b \<noteq> putUint64BE 0"
      using exportableD(1)[OF assms Some] by (auto simp: genesisEntry_def split: kvval.splits)
    obtain n where n: "getUint64BE b = Some n" "b = putUint64BE n" using eight_bytes_decode[OF b(2)] by blast
    have nx: "nextActionID s = Some n" "n \<noteq> 0" using Some b n by (auto simp: nextActionID_def key_simps)
    have "action_id a \<noteq> 0 \<and> action_id a < n" if "a \<in> set ?xs" for a
      using scan nx that by (fastforce simp: mem_decoded_iff)
    note imp = importActions_writes[of ?xs n, OF this nx(2)]
    have s19: "set (kv_scan [0x19] s) = {([0x19], v)}" using scan_singleton(2)[OF assms] Some by simp
    show ?thesis
    proof (intro exI conjI allI)
      show "IterateCoordinatorActions collect [] s = (Inr ?xs, s)" by (rule it)
      show "(if kv_has s NextCoordinatorActionIDKey \<or> ?xs \<noteq> [] then GetNextCoordinatorActionID else returnM 0) s = (Inr n, s)"
        using Some b n by (simp add: kv_has_iff key_simps GetNextCoordinatorActionID_def kvGetAs_def kvGet_def
            bindM_def getM_def liftR_def returnM_def)
      show "set (map ?w ?xs @ [([0x19], v)]) = set (kv_scan [0x18] s) \<union> set (kv_scan [0x19] s)"
        by (simp only: set_append ws s19 list.set)
      show "bindM (importActions n ?xs) (\<lambda>n. if n \<noteq> 0 then SetNextCoordinatorActionID n else returnM ()) t =
          (Inr (), writes (map ?w ?xs @ [([0x19], v)]) t)" for t
        using imp nx(2) b(1) n(2)
        by (simp add: bindM_def SetNextCoordinatorActionID_def kvSet_def modifyM_def key_simps)
    qed
  qed
qed

lemma pallas_segment:
  assumes "exportable L s"
  shows "\<exists>xs W. IterateAllPallasKeys collect [] s = (Inr xs, s) \<and>
    set W = set (kv_scan [0x0C] s) \<union> set (kv_scan [0x15] s) \<and> (\<forall>t. forM xs SetPallasKey t = (Inr (), writes W t))"
proof -
  let ?es = "kv_scan PallasKeyPrefix s"
  let ?g = "\<lambda>p. [(0x0C # vpk_validator_address p, VPallasKey p), (0x15 # vpk_pallas_pk p, VBytes (vpk_validator_address p))]"
  let ?W = "concat (map ?g (decoded decodePallasKey ?es))"
  have scan: "\<exists>p. v = VPallasKey p \<and> k = 0x0C # vpk_validator_address p \<and>
      kv_get s (0x15 # vpk_pallas_pk p) = Some (VBytes (vpk_validator_address p))"
    if m: "(k, v) \<in> set ?es" for k v
  proof -
    obtain c where k: "k = 0x0C # c" "kv_get s k = Some v"
      using m by (auto simp: mem_scan_tag[OF assms] PallasKeyPrefix_def)
    then show ?thesis using exportableD[OF assms k(2)]
      by (auto simp: genesisEntry_def entry_ok_def key_simps split: kvval.splits)
  qed
  have e: "\<exists>p. decodePallasKey v = Inr p \<and> (\<forall>t. SetPallasKey p t = (Inr (), writes (?g p) t)) \<and> (k, v) \<in> set (?g p)"
    if m: "(k, v) \<in> set ?es" for k v
    using scan[OF m] by (auto simp: SetPallasKey_def thenM_def bindM_def kvSet_def modifyM_def key_simps)
  note seg = decoded_segment[of ?es decodePallasKey SetPallasKey ?g, OF e]
  have "set ?W \<subseteq> set (kv_scan [0x0C] s) \<union> set (kv_scan [0x15] s)"
    using scan by (fastforce simp: mem_decoded_iff mem_scan_tag[OF assms] PallasKeyPrefix_def)
  moreover have "set (kv_scan [0x0C] s) \<subseteq> set ?W"
    using scan by (fastforce simp: mem_decoded_iff PallasKeyPrefix_def)
  moreover have "(k, v) \<in> set ?W" if m: "(k, v) \<in> set (kv_scan [0x15] s)" for k v
  proof -
    obtain c where k: "k = 0x15 # c" "kv_get s k = Some v" using m by (auto simp: mem_scan_tag[OF assms])
    obtain a p where a: "v = VBytes a" "kv_get s (0x0C # a) = Some (VPallasKey p)" "vpk_pallas_pk p = c"
      using exportableD(1)[OF assms k(2)] k(1)
      by (auto simp: genesisEntry_def key_simps split: kvval.splits option.splits)
    then have m: "(0x0C # a, VPallasKey p) \<in> set ?es" by (simp add: mem_scan_tag[OF assms] PallasKeyPrefix_def)
    then have "p \<in> set (decoded decodePallasKey ?es)" by (auto simp: mem_decoded_iff)
    moreover have "vpk_validator_address p = a" using scan[OF m] by simp
    ultimately show ?thesis using k(1) a by auto
  qed
  ultimately have "set ?W = set (kv_scan [0x0C] s) \<union> set (kv_scan [0x15] s)" by auto
  moreover have "IterateAllPallasKeys collect [] s = (Inr (decoded decodePallasKey ?es), s)"
    using seg(1) by (simp add: IterateAllPallasKeys_def bindM_def kvScan_def getM_def liftR_def)
  ultimately show ?thesis using seg(2) by blast
qed

lemma manager_segment:
  assumes "exportable L s"
  shows "\<exists>vms W. GetVoteManagers s = (Inr vms, s) \<and> set W = set (kv_scan [0x0A] s) \<and>
    (\<forall>t. (if (case vms of None \<Rightarrow> [] | Some m \<Rightarrow> vm_addresses m) \<noteq> []
          then SetVoteManagers L \<lparr>vm_addresses = (case vms of None \<Rightarrow> [] | Some m \<Rightarrow> vm_addresses m),
            vm_threshold = (case vms of None \<Rightarrow> 0 | Some m \<Rightarrow> vm_threshold m)\<rparr>
          else returnM ()) t = (Inr (), writes W t))"
proof (cases "kv_get s [0x0A]")
  case None
  then show ?thesis using scan_singleton(1)[OF assms]
    by (intro exI[of _ None] exI[of _ "[]"])
      (simp add: GetVoteManagers_def kvGetAs_def kvGet_def bindM_def getM_def returnM_def key_simps)
next
  case (Some v)
  obtain m where m: "v = VVoteManagerSet m"
    and p: "ValidateAndNormalizeVoteManagerPolicy L (vm_addresses m) (vm_threshold m) = Inr (vm_addresses m, vm_threshold m)"
    using exportableD(1)[OF assms Some] by (auto simp: genesisEntry_def split: kvval.splits)
  note P = ValidateAndNormalizeVoteManagerPolicy_Inr[OF p]
  have thr: "NormalizeVoteManagerThreshold (vm_threshold m) = vm_threshold m" using P(5) by simp
  show ?thesis using scan_singleton(1)[OF assms] Some m p P(2) thr
    by (cases m, intro exI[of _ "Some m"] exI[of _ "[([0x0A], v)]"])
      (simp add: GetVoteManagers_def kvGetAs_def kvGet_def bindM_def getM_def returnM_def liftR_def key_simps
        SetVoteManagers_def kvSet_def modifyM_def)
qed

definition minCeremony :: "vkv \<Rightarrow> u32" where
  "minCeremony s = (case kv_get s MinCeremonyValidatorsKey of
     Some (VBytes b) \<Rightarrow> (case getUint32BE b of Some v \<Rightarrow> v | None \<Rightarrow> 1) | _ \<Rightarrow> 1)"

lemma min_segment:
  assumes "exportable L s"
  shows "GetMinCeremonyValidators s = (Inr (minCeremony s), s)" "minCeremony s \<noteq> 0"
proof -
  have "GetMinCeremonyValidators s = (Inr (minCeremony s), s) \<and> minCeremony s \<noteq> 0"
  proof (cases "kv_get s [0x13]")
    case None
    then show ?thesis
      by (simp add: GetMinCeremonyValidators_def minCeremony_def kvGetAs_def kvGet_def bindM_def getM_def returnM_def key_simps)
  next
    case (Some v)
    obtain b where b: "v = VBytes b" "length b = 4" "b \<noteq> putUint32BE 0"
      using exportableD(1)[OF assms Some] by (auto simp: genesisEntry_def split: kvval.splits)
    then show ?thesis using Some four_bytes_decode[OF b(2)]
      by (auto simp: GetMinCeremonyValidators_def minCeremony_def kvGetAs_def kvGet_def bindM_def getM_def
          returnM_def liftR_def key_simps)
  qed
  then show "GetMinCeremonyValidators s = (Inr (minCeremony s), s)" "minCeremony s \<noteq> 0" by auto
qed

section \<open>Commitment trees\<close>

definition treeWrites :: "vkv \<Rightarrow> bytes \<Rightarrow> (bytes \<times> kvval) list" where
  "treeWrites s r = (RoundTreeStateKey r, VTreeState (treeStateOf s r\<lparr>tree_height := 0\<rparr>)) #
     kv_scan (CommitmentLeafPrefixForRound r) s @ kv_scan (CommitmentRootPrefixForRound r) s @
     kv_scan (BlockLeafIndexPrefixForRound r) s"

text \<open>What is stored under one byte of a round's tree, with its eight-byte tail.\<close>

lemma mem_scan_tree:
  assumes "exportable L s" and "length r = 32" and "sub \<in> {0x02, 0x03, 0x08}"
  shows "(k, v) \<in> set (kv_scan (0x14 # r @ [sub]) s) \<longleftrightarrow>
    kv_get s k = Some v \<and> (\<exists>i b. k = 0x14 # r @ sub # putUint64BE i \<and> v = VBytes b \<and> (sub = 0x08 \<longrightarrow> length b = 16))"
proof
  assume "(k, v) \<in> set (kv_scan (0x14 # r @ [sub]) s)"
  then obtain c where k: "k = 0x14 # r @ sub # c" "kv_get s k = Some v"
    by (auto simp: kv_scan_iff[OF kv_wf_ok[OF exportable_wf[OF assms(1)]]] prefix_def)
  have "treeEntry s k v" using exportableD(1)[OF assms(1) k(2)] k(1) by (simp add: genesisEntry_def)
  then have "length c = 8 \<and> (\<exists>b. v = VBytes b \<and> (sub = 0x08 \<longrightarrow> length b = 16))"
    using assms(2,3) by (auto simp: treeEntry_def k(1) Let_def nth_append split: kvval.splits)
  then show "kv_get s k = Some v \<and> (\<exists>i b. k = 0x14 # r @ sub # putUint64BE i \<and> v = VBytes b \<and> (sub = 0x08 \<longrightarrow> length b = 16))"
    using k eight_bytes_decode[of c] by auto
next
  assume "kv_get s k = Some v \<and> (\<exists>i b. k = 0x14 # r @ sub # putUint64BE i \<and> v = VBytes b \<and> (sub = 0x08 \<longrightarrow> length b = 16))"
  then show "(k, v) \<in> set (kv_scan (0x14 # r @ [sub]) s)"
    by (auto simp: kv_scan_iff[OF kv_wf_ok[OF exportable_wf[OF assms(1)]]] prefix_def)
qed

lemma leaf_segment:
  assumes "exportable L s" and "length r = 32"
  shows "\<exists>xs. collectR (exportLeaf 34) (kv_scan (0x14 # r @ [0x02]) s) = Inr xs \<and>
    (\<forall>t. forM xs (\<lambda>leaf. kvSet (CommitmentLeafKey r (cl_index leaf)) (VBytes (cl_value leaf))) t =
       (Inr (), writes (kv_scan (0x14 # r @ [0x02]) s) t))"
proof (rule collectR_segment)
  fix k v assume "(k, v) \<in> set (kv_scan (0x14 # r @ [0x02]) s)"
  then obtain i b where "k = 0x14 # r @ 0x02 # putUint64BE i" "v = VBytes b"
    using mem_scan_tree[OF assms, of "0x02"] by auto
  then show "\<exists>x. exportLeaf 34 (k, v) = Inr (Some x) \<and>
      (\<forall>t. kvSet (CommitmentLeafKey r (cl_index x)) (VBytes (cl_value x)) t = (Inr (), kv_set k v t))"
    using assms(2) by (simp add: exportLeaf_def kvSet_def modifyM_def key_simps)
qed

lemma root_segment:
  assumes "exportable L s" and "length r = 32"
  shows "\<exists>xs. collectR (exportRoot 34) (kv_scan (0x14 # r @ [0x03]) s) = Inr xs \<and>
    (\<forall>t. forM xs (\<lambda>cr. SetCommitmentRootAtHeight r (gr_height cr) (gr_root cr)) t =
       (Inr (), writes (kv_scan (0x14 # r @ [0x03]) s) t))"
proof (rule collectR_segment)
  fix k v assume "(k, v) \<in> set (kv_scan (0x14 # r @ [0x03]) s)"
  then obtain i b where "k = 0x14 # r @ 0x03 # putUint64BE i" "v = VBytes b"
    using mem_scan_tree[OF assms, of "0x03"] by auto
  then show "\<exists>x. exportRoot 34 (k, v) = Inr (Some x) \<and>
      (\<forall>t. SetCommitmentRootAtHeight r (gr_height x) (gr_root x) t = (Inr (), kv_set k v t))"
    using assms(2) by (simp add: exportRoot_def SetCommitmentRootAtHeight_def kvSet_def modifyM_def key_simps)
qed

lemma block_index_segment:
  assumes "exportable L s" and "length r = 32"
  shows "\<exists>xs. collectR (exportBlockIndex 34) (kv_scan (0x14 # r @ [0x08]) s) = Inr xs \<and>
    (\<forall>t. forM xs (\<lambda>bli. SetBlockLeafIndex r (gb_height bli) (gb_start_index bli) (gb_count bli)) t =
       (Inr (), writes (kv_scan (0x14 # r @ [0x08]) s) t))"
proof (rule collectR_segment)
  fix k v assume "(k, v) \<in> set (kv_scan (0x14 # r @ [0x08]) s)"
  then obtain i b where k: "k = 0x14 # r @ 0x08 # putUint64BE i" "v = VBytes b" "length b = 16"
    using mem_scan_tree[OF assms, of "0x08"] by auto
  have "b = take 8 b @ drop 8 b" "length (take 8 b) = 8" "length (drop 8 b) = 8" using k(3) by simp_all
  then obtain m n where "b = putUint64BE m @ putUint64BE n"
    using eight_bytes_decode[of "take 8 b"] eight_bytes_decode[of "drop 8 b"] by metis
  then show "\<exists>x. exportBlockIndex 34 (k, v) = Inr (Some x) \<and>
      (\<forall>t. SetBlockLeafIndex r (gb_height x) (gb_start_index x) (gb_count x) t = (Inr (), kv_set k v t))"
    using assms(2) k(1,2) by (simp add: exportBlockIndex_def SetBlockLeafIndex_def kvSet_def modifyM_def key_simps)
qed

lemma tree_segment:
  assumes "exportable L s" and "length r = 32" and "next_index (treeStateOf s r) \<noteq> 0"
  shows "\<exists>rt. exportRoundTree r s = (Inr (Some rt), s) \<and>
    (\<forall>t. importRoundTree rt t = (Inr (), writes (treeWrites s r) t))"
proof -
  obtain leaves where l: "collectR (exportLeaf 34) (kv_scan (0x14 # r @ [0x02]) s) = Inr leaves"
    "\<forall>t. forM leaves (\<lambda>leaf. kvSet (CommitmentLeafKey r (cl_index leaf)) (VBytes (cl_value leaf))) t =
       (Inr (), writes (kv_scan (0x14 # r @ [0x02]) s) t)" using leaf_segment[OF assms(1,2)] by blast
  obtain roots where ro: "collectR (exportRoot 34) (kv_scan (0x14 # r @ [0x03]) s) = Inr roots"
    "\<forall>t. forM roots (\<lambda>cr. SetCommitmentRootAtHeight r (gr_height cr) (gr_root cr)) t =
       (Inr (), writes (kv_scan (0x14 # r @ [0x03]) s) t)" using root_segment[OF assms(1,2)] by blast
  obtain blis where bl: "collectR (exportBlockIndex 34) (kv_scan (0x14 # r @ [0x08]) s) = Inr blis"
    "\<forall>t. forM blis (\<lambda>bli. SetBlockLeafIndex r (gb_height bli) (gb_start_index bli) (gb_count bli)) t =
       (Inr (), writes (kv_scan (0x14 # r @ [0x08]) s) t)" using block_index_segment[OF assms(1,2)] by blast
  let ?rt = "\<lparr>rt_vote_round_id = r, rt_tree_state = Some (treeStateOf s r), rt_commitment_leaves = leaves,
     rt_commitment_roots = roots, rt_block_leaf_indices = blis\<rparr>"
  have "exportRoundTree r s = (Inr (Some ?rt), s)"
    using l(1) ro(1) bl(1) assms(2,3)
    by (simp add: exportRoundTree_def bindM_def GetCommitmentTreeState_wf[OF exportable_wf[OF assms(1)] assms(2)]
        kvScan_def getM_def liftR_def returnM_def key_simps)
  moreover have "importRoundTree ?rt t = (Inr (), writes (treeWrites s r) t)" for t
    using l(2) ro(2) bl(2) assms(3)
    by (simp add: importRoundTree_def Let_def treeWrites_def thenM_def bindM_def SetCommitmentTreeState_def
        kvSet_def modifyM_def key_simps word_gt_0)
  ultimately show ?thesis by blast
qed

definition roundTreeWrites :: "vkv \<Rightarrow> VoteRound \<Rightarrow> (bytes \<times> kvval) list" where
  "roundTreeWrites s rd = (if next_index (treeStateOf s (vote_round_id rd)) = 0 then [] else treeWrites s (vote_round_id rd))"

lemma trees_segment:
  assumes "exportable L s" and "\<And>rd. rd \<in> set rds \<Longrightarrow> length (vote_round_id rd) = 32"
  shows "\<exists>rts. (\<forall>acc. foldUntil (collectTree s) (Inr acc) rds = Inr (acc @ rts)) \<and>
    (\<forall>t. forM rts importRoundTree t = (Inr (), writes (concat (map (roundTreeWrites s) rds)) t))"
  using assms(2)
proof (induction rds)
  case Nil
  then show ?case by (simp add: returnM_def)
next
  case (Cons rd rds)
  let ?r = "vote_round_id rd"
  obtain rts where rts: "\<forall>acc. foldUntil (collectTree s) (Inr acc) rds = Inr (acc @ rts)"
    "\<forall>t. forM rts importRoundTree t = (Inr (), writes (concat (map (roundTreeWrites s) rds)) t)"
    using Cons by auto
  have len: "length ?r = 32" using Cons.prems by simp
  show ?case
  proof (cases "next_index (treeStateOf s ?r) = 0")
    case True
    then have "exportRoundTree ?r s = (Inr None, s)"
      by (simp add: exportRoundTree_def bindM_def returnM_def GetCommitmentTreeState_wf[OF exportable_wf[OF assms(1)] len])
    then have "collectTree s rd (Inr acc) = (False, Inr acc)" for acc by (simp add: collectTree_def)
    moreover have "roundTreeWrites s rd = []" using True by (simp add: roundTreeWrites_def)
    ultimately show ?thesis using rts by (intro exI[of _ rts]) simp
  next
    case False
    obtain rt where rt: "exportRoundTree ?r s = (Inr (Some rt), s)"
      "\<forall>t. importRoundTree rt t = (Inr (), writes (treeWrites s ?r) t)"
      using tree_segment[OF assms(1) len False] by blast
    have "collectTree s rd (Inr acc) = (False, Inr (acc @ [rt]))" for acc using rt(1) by (simp add: collectTree_def)
    moreover have "roundTreeWrites s rd = treeWrites s ?r" using False by (simp add: roundTreeWrites_def)
    ultimately show ?thesis using rts rt(2) by (intro exI[of _ "rt # rts"]) (simp add: thenM_simps)
  qed
qed

section \<open>The imported store\<close>

definition isShardKey :: "bytes \<Rightarrow> bool" where
  "isShardKey k \<longleftrightarrow> k \<noteq> [] \<and> hd k = 0x14 \<and> (k ! 33 = 0x0F \<or> k ! 33 = 0x10 \<or> k ! 33 = 0x11)"

text \<open>What a store holds after its export was imported into an empty one.\<close>

definition importedValue :: "kvval \<Rightarrow> kvval" where
  "importedValue v = (case v of VTreeState st \<Rightarrow> VTreeState (st\<lparr>tree_height := 0\<rparr>) | _ \<Rightarrow> v)"

lemma importedValue_simps [simp]:
  "importedValue (VTreeState st) = VTreeState (st\<lparr>tree_height := 0\<rparr>)"
  "(\<And>st. v \<noteq> VTreeState st) \<Longrightarrow> importedValue v = v"
  by (auto simp: importedValue_def split: kvval.splits)

definition genesisView :: "vkv \<Rightarrow> bytes \<Rightarrow> kvval option" where
  "genesisView s k =
     (if k = MinCeremonyValidatorsKey then Some (VBytes (putUint32BE (minCeremony s)))
      else if isShardKey k then None
      else map_option importedValue (kv_get s k))"

text \<open>Outside the trees and the minimum, the view is the store.\<close>

lemma genesisView_plain:
  assumes "exportable L s" and "k \<noteq> []" and "hd k \<noteq> 0x13" and "hd k \<noteq> 0x14"
  shows "genesisView s k = kv_get s k"
proof (cases "kv_get s k")
  case None
  then show ?thesis using assms by (auto simp: genesisView_def isShardKey_def key_simps)
next
  case (Some v)
  have "\<And>st. v \<noteq> VTreeState st" using exportableD(2)[OF assms(1) Some] assms by (auto simp: entry_ok_def split: if_splits)
  then show ?thesis using Some assms by (cases v) (auto simp: genesisView_def isShardKey_def key_simps)
qed

lemma treeStateOf_stored:
  assumes "exportable L s" and "length r = 32" and "next_index (treeStateOf s r) \<noteq> 0"
  shows "kv_get s (RoundTreeStateKey r) = Some (VTreeState (treeStateOf s r))"
  using assms(3) by (auto simp: treeStateOf_def view_def okOpt_def emptyTreeState_def split: option.splits sum.splits bind_splits)

lemma tree_view:
  assumes ex: "exportable L s"
  shows "(k, v) \<in> set (concat (map (roundTreeWrites s) (roundsOf s))) \<longleftrightarrow> (k \<noteq> [] \<and> hd k = 0x14 \<and> genesisView s k = Some v)"
proof
  assume "(k, v) \<in> set (concat (map (roundTreeWrites s) (roundsOf s)))"
  then obtain rd where rd: "rd \<in> set (roundsOf s)" "(k, v) \<in> set (roundTreeWrites s rd)" by auto
  let ?r = "vote_round_id rd"
  obtain r' where "roundOf s r' = Some rd" using mem_roundsOf_iff[OF exportable_wf[OF ex]] rd(1) by auto
  then have len: "length ?r = 32" using roundOf_wf[OF exportable_wf[OF ex]] by auto
  have n: "next_index (treeStateOf s ?r) \<noteq> 0" "(k, v) \<in> set (treeWrites s ?r)"
    using rd(2) by (auto simp: roundTreeWrites_def split: if_splits)
  consider (state) "k = RoundTreeStateKey ?r" "v = VTreeState (treeStateOf s ?r\<lparr>tree_height := 0\<rparr>)"
    | (scan) sub where "sub \<in> {0x02, 0x03, 0x08}" "(k, v) \<in> set (kv_scan (0x14 # ?r @ [sub]) s)"
    using n(2) by (auto simp: treeWrites_def key_simps)
  then show "k \<noteq> [] \<and> hd k = 0x14 \<and> genesisView s k = Some v"
  proof cases
    case state
    then show ?thesis using treeStateOf_stored[OF ex len n(1)] len
      by (simp add: genesisView_def isShardKey_def key_simps nth_append)
  next
    case scan
    then obtain i b where "kv_get s k = Some v" "k = 0x14 # ?r @ sub # putUint64BE i" "v = VBytes b"
      using mem_scan_tree[OF ex len scan(1)] by blast
    then show ?thesis using scan(1) len by (auto simp: genesisView_def isShardKey_def key_simps nth_append)
  qed
next
  assume g: "k \<noteq> [] \<and> hd k = 0x14 \<and> genesisView s k = Some v"
  then obtain w where w: "kv_get s k = Some w" "\<not> isShardKey k"
    by (auto simp: genesisView_def key_simps split: if_splits option.splits)
  have te: "treeEntry s k w" using exportableD(1)[OF ex w(1)] g by (simp add: genesisEntry_def)
  let ?r = "take 32 (tl k)"
  have len: "34 \<le> length k" using te by (simp add: treeEntry_def)
  then have r: "length ?r = 32" by simp
  have k: "k = 0x14 # ?r @ k ! 33 # drop 34 k"
  proof -
    have "k = hd k # take 32 (tl k) @ drop 32 (tl k)" using len by (cases k) auto
    moreover have "drop 32 (tl k) = k ! 33 # drop 34 k"
    proof -
      have "drop 33 k = k ! 33 # drop 34 k" using Cons_nth_drop_Suc[of 33 k] len by simp
      moreover have "drop 32 (tl k) = drop 33 k" using len by (cases k) simp_all
      ultimately show ?thesis by simp
    qed
    ultimately show ?thesis using g by metis
  qed
  obtain st where st: "kv_get s (RoundTreeStateKey ?r) = Some (VTreeState st)" "next_index st \<noteq> 0" and hasR: "kv_has s (0x04 # ?r)"
    using te by (auto simp: treeEntry_def Let_def split: option.splits kvval.splits)
  obtain rv where rv: "kv_get s (0x04 # ?r) = Some rv" using hasR by (auto simp: kv_has_iff)
  then obtain rd where rd: "rv = VVoteRound rd" "?r = vote_round_id rd"
    using exportableD(2)[OF ex rv] by (auto simp: entry_ok_round)
  have mem: "rd \<in> set (roundsOf s)"
    using rv rd by (auto simp: mem_roundsOf_iff[OF exportable_wf[OF ex]] roundOf_Some_iff)
  have ts: "treeStateOf s ?r = st" using st(1) by (simp add: treeStateOf_def view_def okOpt_def)
  have "(k, v) \<in> set (treeWrites s ?r)"
  proof (cases "k ! 33 = 0x06")
    case True
    then have "drop 34 k = []" using te by (auto simp: treeEntry_def Let_def)
    then have ks: "k = RoundTreeStateKey ?r" using k True by (simp add: key_simps)
    then have "w = VTreeState st" using w(1) st(1) by simp
    then have "v = VTreeState (st\<lparr>tree_height := 0\<rparr>)" using g w by (auto simp: genesisView_def key_simps split: if_splits)
    then show ?thesis using ks ts by (simp add: treeWrites_def)
  next
    case False
    then have sub: "k ! 33 \<in> {0x02, 0x03, 0x08}" using te w(2) g by (auto simp: treeEntry_def Let_def isShardKey_def split: if_splits)
    have "\<exists>b. w = VBytes b" using te sub by (auto simp: treeEntry_def Let_def split: kvval.splits)
    then have "v = w" using g w by (auto simp: genesisView_def key_simps split: if_splits)
    moreover have "(k, w) \<in> set (kv_scan (0x14 # ?r @ [k ! 33]) s)"
      using w(1) k by (auto simp: kv_scan_iff[OF kv_wf_ok[OF exportable_wf[OF ex]]] prefix_def)
    ultimately show ?thesis using sub by (auto simp: treeWrites_def key_simps)
  qed
  then show "(k, v) \<in> set (concat (map (roundTreeWrites s) (roundsOf s)))"
    using mem st(2) ts rd(2) by (auto simp: roundTreeWrites_def intro!: bexI[of _ rd])
qed

lemma tags_cover:
  assumes "exportable L s" and "kv_get s k = Some v"
  shows "k \<noteq> []" "hd k \<in> {0x01, 0x04, 0x05, 0x07, 0x0A, 0x0B, 0x0C, 0x12, 0x13, 0x14, 0x15, 0x16, 0x17, 0x18, 0x19}"
  using exportableD[OF assms] by (auto simp: entry_ok_def genesisEntry_def split: if_splits)

lemma plain_view:
  assumes "exportable L s" and "t \<noteq> 0x13" and "t \<noteq> 0x14"
  shows "(k, v) \<in> set (kv_scan [t] s) \<longleftrightarrow> (k \<noteq> [] \<and> hd k = t \<and> genesisView s k = Some v)"
proof (cases k)
  case Nil
  then show ?thesis by (simp add: mem_scan_tag[OF assms(1)])
next
  case (Cons b c)
  then show ?thesis using genesisView_plain[OF assms(1), of k] assms(2,3) by (auto simp: mem_scan_tag[OF assms(1)])
qed

text \<open>The import writes exactly the view.\<close>

definition plainTags :: "u8 list" where
  "plainTags = [0x01, 0x04, 0x05, 0x07, 0x0A, 0x0B, 0x0C, 0x12, 0x15, 0x16, 0x17, 0x18, 0x19]"

lemma plainTags_cover:
  assumes "exportable L s" and "genesisView s k = Some v"
  shows "k = MinCeremonyValidatorsKey \<or> (k \<noteq> [] \<and> hd k = 0x14) \<or> (k \<noteq> [] \<and> hd k \<in> set plainTags)"
proof (cases "k = MinCeremonyValidatorsKey")
  case False
  then obtain w where w: "kv_get s k = Some w" using assms(2) by (auto simp: genesisView_def split: if_splits)
  have "hd k \<noteq> 0x13" using exportableD(1)[OF assms(1) w] False by (auto simp: genesisEntry_def)
  then show ?thesis using tags_cover[OF assms(1) w] by (auto simp: plainTags_def)
qed simp

lemma plain_scans:
  assumes "exportable L s"
  shows "(k, v) \<in> (\<Union>t \<in> set plainTags. set (kv_scan [t] s)) \<longleftrightarrow> (k \<noteq> [] \<and> hd k \<in> set plainTags \<and> genesisView s k = Some v)"
proof -
  have "t \<noteq> 0x13 \<and> t \<noteq> 0x14" if "t \<in> set plainTags" for t using that by (auto simp: plainTags_def)
  then have "(k, v) \<in> set (kv_scan [t] s) \<longleftrightarrow> (k \<noteq> [] \<and> hd k = t \<and> genesisView s k = Some v)"
    if "t \<in> set plainTags" for t using plain_view[OF assms] that by blast
  then show ?thesis by blast
qed

lemma view_graph:
  assumes ex: "exportable L s"
    and W: "set W = (\<Union>t \<in> set plainTags. set (kv_scan [t] s)) \<union>
      set (concat (map (roundTreeWrites s) (roundsOf s))) \<union> {(MinCeremonyValidatorsKey, VBytes (putUint32BE (minCeremony s)))}"
  shows "(k, v) \<in> set W \<longleftrightarrow> genesisView s k = Some v"
proof -
  have m: "(k = MinCeremonyValidatorsKey \<and> v = VBytes (putUint32BE (minCeremony s))) \<longleftrightarrow>
      (k = MinCeremonyValidatorsKey \<and> genesisView s k = Some v)" by (auto simp: genesisView_def)
  have "(k, v) \<in> set W \<longleftrightarrow> (k \<noteq> [] \<and> hd k \<in> set plainTags \<and> genesisView s k = Some v) \<or>
      (k \<noteq> [] \<and> hd k = 0x14 \<and> genesisView s k = Some v) \<or> (k = MinCeremonyValidatorsKey \<and> genesisView s k = Some v)"
    unfolding W Un_iff plain_scans[OF ex] tree_view[OF ex] m[symmetric] by blast
  then show ?thesis using plainTags_cover[OF ex, of k v] by blast
qed

lemma genesisView_entry_ok:
  assumes "exportable L s" and "genesisView s k = Some v"
  shows "entry_ok k v"
proof (cases "k = MinCeremonyValidatorsKey")
  case True
  then show ?thesis using assms(2) by (auto simp: genesisView_def entry_ok_def key_simps)
next
  case False
  then obtain w where w: "kv_get s k = Some w" "v = importedValue w"
    using assms(2) by (auto simp: genesisView_def split: if_splits)
  then show ?thesis using exportableD(2)[OF assms(1) w(1)]
    by (cases w) (auto simp: entry_ok_def split: if_splits)
qed

section \<open>The round trip\<close>

lemma bindM_thenM: "bindM m (\<lambda>n. thenM (f n) k) = thenM (bindM m f) k"
  by (rule ext) (simp add: thenM_def bindM_def split: prod.splits sum.splits)

lemma export_import_writes:
  assumes ex: "exportable L s"
  shows "\<exists>gs W. ExportGenesis s = (Inr gs, s) \<and> InitGenesis L (Some gs) [] = (Inr (), writes W []) \<and>
    set W = (\<Union>t \<in> set plainTags. set (kv_scan [t] s)) \<union> set (concat (map (roundTreeWrites s) (roundsOf s))) \<union>
      {(MinCeremonyValidatorsKey, VBytes (putUint32BE (minCeremony s)))}"
proof -
  obtain vms Wm where m: "GetVoteManagers s = (Inr vms, s)" "set Wm = set (kv_scan [0x0A] s)"
    "\<And>t. (if (case vms of None \<Rightarrow> [] | Some m \<Rightarrow> vm_addresses m) \<noteq> []
          then SetVoteManagers L \<lparr>vm_addresses = (case vms of None \<Rightarrow> [] | Some m \<Rightarrow> vm_addresses m),
            vm_threshold = (case vms of None \<Rightarrow> 0 | Some m \<Rightarrow> vm_threshold m)\<rparr>
          else returnM ()) t = (Inr (), writes Wm t)" using manager_segment[OF ex] by blast
  obtain acts nextID Wa where a: "IterateCoordinatorActions collect [] s = (Inr acts, s)"
    "(if kv_has s NextCoordinatorActionIDKey \<or> acts \<noteq> [] then GetNextCoordinatorActionID else returnM 0) s = (Inr nextID, s)"
    "set Wa = set (kv_scan [0x18] s) \<union> set (kv_scan [0x19] s)"
    "\<And>t. bindM (importActions nextID acts) (\<lambda>n. if n \<noteq> 0 then SetNextCoordinatorActionID n else returnM ()) t = (Inr (), writes Wa t)"
    using action_segment[OF ex] by blast
  obtain ens where en: "IterateEndorsers collect [] s = (Inr ens, s)"
    "\<And>t. forM ens (\<lambda>x. SetEndorser (end_endorser_id x) (end_address x)) t = (Inr (), writes (kv_scan [0x16] s) t)"
    using endorser_segment[OF ex] by blast
  obtain eos where eo: "exportEndorsedRounds s = (Inr eos, s)"
    "\<And>t. forM eos (\<lambda>x. AddEndorsedRound (eo_endorser_id x) (eo_vote_round_id x)) t = (Inr (), writes (kv_scan [0x17] s) t)"
    using endorsed_segment[OF ex] by blast
  obtain Wr where ro: "set Wr = set (kv_scan [0x04] s)" "\<And>t. forM (roundsOf s) SetVoteRound t = (Inr (), writes Wr t)"
    using round_segment(2)[OF ex] by blast
  have "length (vote_round_id rd) = 32" if "rd \<in> set (roundsOf s)" for rd
    using that roundOf_wf[OF exportable_wf[OF ex]] by (auto simp: mem_roundsOf_iff[OF exportable_wf[OF ex]])
  then obtain rts where tr: "foldUntil (collectTree s) (Inr []) (roundsOf s) = Inr rts"
    "\<And>t. forM rts importRoundTree t = (Inr (), writes (concat (map (roundTreeWrites s) (roundsOf s))) t)"
    using trees_segment[OF ex, of "roundsOf s"] by fastforce
  obtain nfs where nf: "exportNullifiers s = (Inr nfs, s)" "\<And>t. forM nfs importNullifier t = (Inr (), writes (kv_scan [0x01] s) t)"
    using nullifier_segment[OF ex] by blast
  obtain res where re: "exportTallyResults s = (Inr res, s)" "\<And>t. forM res SetTallyResult t = (Inr (), writes (kv_scan [0x07] s) t)"
    using tally_result_segment[OF ex] by blast
  obtain pks Wp where pk: "IterateAllPallasKeys collect [] s = (Inr pks, s)"
    "set Wp = set (kv_scan [0x0C] s) \<union> set (kv_scan [0x15] s)" "\<And>t. forM pks SetPallasKey t = (Inr (), writes Wp t)"
    using pallas_segment[OF ex] by blast
  obtain accs where ac: "exportTallyAccumulators s = (Inr accs, s)" "\<And>t. forM accs importAccumulator t = (Inr (), writes (kv_scan [0x05] s) t)"
    using accumulator_segment[OF ex] by blast
  obtain scs where sc: "exportShareCounts s = (Inr scs, s)" "\<And>t. forM scs importShareCount t = (Inr (), writes (kv_scan [0x0B] s) t)"
    using share_count_segment[OF ex] by blast
  obtain pds where pd: "exportPartialDecryptions s = (Inr pds, s)" "\<And>t. forM pds importPartial t = (Inr (), writes (kv_scan [0x12] s) t)"
    using partial_segment[OF ex] by blast
  let ?gs = "\<lparr>gs_rounds = roundsOf s, gs_nullifiers = nfs,
    gs_vote_manager_addresses = (case vms of None \<Rightarrow> [] | Some m \<Rightarrow> vm_addresses m), gs_tally_results = res,
    gs_pallas_keys = pks, gs_tally_accumulators = accs, gs_share_counts = scs, gs_min_ceremony_validators = minCeremony s,
    gs_round_trees = rts, gs_partial_decryptions = pds, gs_endorsers = ens, gs_endorsed_rounds = eos,
    gs_vote_manager_threshold = (case vms of None \<Rightarrow> 0 | Some m \<Rightarrow> vm_threshold m),
    gs_coordinator_actions = acts, gs_next_coordinator_action_id = nextID\<rparr>"
  let ?min = "(MinCeremonyValidatorsKey, VBytes (putUint32BE (minCeremony s)))"
  let ?W = "Wr @ concat (map (roundTreeWrites s) (roundsOf s)) @ Wm @ Wa @ kv_scan [0x16] s @ kv_scan [0x17] s @ [?min] @
    kv_scan [0x01] s @ kv_scan [0x07] s @ Wp @ kv_scan [0x05] s @ kv_scan [0x0B] s @ kv_scan [0x12] s"
  have trees: "bindM (getM (\<lambda>s. s)) (\<lambda>s. bindM (IterateAllRounds (collectTree s) (Inr [])) liftR) s = (Inr rts, s)"
    using tr(1) by (simp add: bindM_def getM_def IterateAllRounds_def iterateRounds_wf[OF exportable_wf[OF ex]] liftR_def)
  have has: "kvHas NextCoordinatorActionIDKey s = (Inr (kv_has s NextCoordinatorActionIDKey), s)"
    by (simp add: kvHas_def getM_def)
  have ret: "returnM gs s = (Inr gs, s)" for gs :: GenesisState by (simp add: returnM_def)
  have "ExportGenesis s = (Inr ?gs, s)"
    unfolding ExportGenesis_def
    by (simp only: bindM_simps(1) m(1) a(1,2) has en(1) eo(1) min_segment(1)[OF ex]
        round_segment(1)[OF ex] trees nf(1) re(1) pk(1) ac(1) sc(1) pd(1) ret)
  moreover have minW: "SetMinCeremonyValidators (if minCeremony s = 0 then 1 else minCeremony s) t = (Inr (), writes [?min] t)" for t
    using min_segment(2)[OF ex] by (simp add: SetMinCeremonyValidators_def kvSet_def modifyM_def)
  have "InitGenesis L (Some ?gs) [] = (Inr (), writes ?W [])"
    unfolding InitGenesis_def option.case bindM_thenM GenesisState.simps
    by (simp only: thenM_simps(1) ro(2) tr(2) m(3) a(4) en(2) eo(2) minW nf(2) re(2) pk(3) ac(2) sc(2) pd(2) writes_simps(3))
  moreover have "set ?W = (\<Union>t \<in> set plainTags. set (kv_scan [t] s)) \<union> set (concat (map (roundTreeWrites s) (roundsOf s))) \<union> {?min}"
    unfolding set_append ro(1) m(2) a(3) pk(2) plainTags_def by auto
  ultimately show ?thesis by blast
qed

text \<open>
  C17. Export and import. A store in the shape the module keeps it exports, and importing the
  export into an empty store succeeds and rebuilds it: every entry is back with its value,
  nothing else is there, the minimum ceremony size is written out with its default, and only
  the tree library's shards, cap and checkpoints are gone. Each tree restarts at height zero
  with its leaves, roots and block index in place, so its shards are rebuilt from the leaves.
  The imported store is well-typed.
\<close>

theorem genesis_roundtrip:
  assumes ex: "exportable L s"
  shows "\<exists>gs s'. ExportGenesis s = (Inr gs, s) \<and> InitGenesis L (Some gs) [] = (Inr (), s') \<and>
    kv_get s' = genesisView s \<and> kv_wf s'"
proof -
  obtain gs W where gs: "ExportGenesis s = (Inr gs, s)" "InitGenesis L (Some gs) [] = (Inr (), writes W [])"
    and W: "set W = (\<Union>t \<in> set plainTags. set (kv_scan [t] s)) \<union> set (concat (map (roundTreeWrites s) (roundsOf s))) \<union>
      {(MinCeremonyValidatorsKey, VBytes (putUint32BE (minCeremony s)))}"
    using export_import_writes[OF ex] by blast
  note graph = view_graph[OF ex W]
  have "kv_get (writes W []) = genesisView s" by (rule get_writes_graph) (rule graph)
  moreover have "kv_wf (writes W [])"
    by (rule kv_wf_writes) (use graph genesisView_entry_ok[OF ex] in auto)
  ultimately show ?thesis using gs by blast
qed

text \<open>A store with a round, a nullifier, an accumulator, managers and a tree with one leaf.\<close>

definition sampleTreeState :: CommitmentTreeState where
  "sampleTreeState = \<lparr>next_index = 1, tree_root = [3], tree_height = 5, next_index_at_root = 1\<rparr>"

definition genesisStore :: vkv where
  "genesisStore =
     [([0x01, 0x02] @ sampleRoundID @ [9], VBytes [1]), (0x04 # sampleRoundID, VVoteRound sampleRound),
      (0x05 # sampleRoundID @ putUint32BE 1 @ putUint32BE 0, VBytes [4]),
      ([0x0A], VVoteManagerSet \<lparr>vm_addresses = [[1]], vm_threshold = 1\<rparr>),
      (CommitmentLeafKey sampleRoundID 0, VBytes [7]), (CommitmentRootKey sampleRoundID 5, VBytes [3]),
      (RoundTreeStateKey sampleRoundID, VTreeState sampleTreeState),
      (BlockLeafIndexKey sampleRoundID 5, VBytes (putUint64BE 0 @ putUint64BE 1)),
      (0x14 # sampleRoundID @ [0x10], VBytes [8])]"

theorem genesis_roundtrip_witness:
  "exportable sampleLib genesisStore \<and> (\<exists>gs s'. ExportGenesis genesisStore = (Inr gs, genesisStore) \<and>
    InitGenesis sampleLib (Some gs) [] = (Inr (), s') \<and>
    kv_get s' (CommitmentLeafKey sampleRoundID 0) = Some (VBytes [7]) \<and>
    kv_get s' (RoundTreeStateKey sampleRoundID) = Some (VTreeState (sampleTreeState\<lparr>tree_height := 0\<rparr>)) \<and>
    kv_get s' (0x14 # sampleRoundID @ [0x10]) = None)"
proof -
  have ex: "exportable sampleLib genesisStore" by code_simp
  have view: "genesisView genesisStore (CommitmentLeafKey sampleRoundID 0) = Some (VBytes [7])"
    "genesisView genesisStore (RoundTreeStateKey sampleRoundID) = Some (VTreeState (sampleTreeState\<lparr>tree_height := 0\<rparr>))"
    "genesisView genesisStore (0x14 # sampleRoundID @ [0x10]) = None"
    by code_simp+
  show ?thesis using genesis_roundtrip[OF ex] ex view by auto
qed

end
