(* ===== verification/Genesis_Import.thy ===== *)
theory Genesis_Import
  imports Genesis_Roundtrip
begin

text \<open>
  A genesis state that passes \<^verbatim>\<open>ValidateGenesisState\<close> can be imported, and the store it
  gives is well-typed: every table holds values of its own type under keys built from them.
\<close>

section \<open>The writes of an import\<close>

lemma forR_all: "forR i (\<lambda>_. f) xs = Inr () \<longleftrightarrow> (\<forall>x \<in> set xs. f x = Inr ())"
  by (auto simp: forR_Inr_iff all_set_conv_all_nth)

lemma get_writes_unique:
  assumes "(k, v) \<in> set W" and "\<And>v'. (k, v') \<in> set W \<Longrightarrow> v' = v"
  shows "kv_get (writes W s) k = Some v"
proof -
  have "map_of (rev W) k \<noteq> None" using assms(1) weak_map_of_SomeI[of k v "rev W"] by auto
  then obtain v' where v': "map_of (rev W) k = Some v'" by auto
  then have "(k, v') \<in> set W" by (auto dest: map_of_SomeD)
  with v' assms(2) show ?thesis by (simp add: get_writes)
qed

lemma importActions_total:
  "(\<And>a. a \<in> set xs \<Longrightarrow> action_id a \<noteq> 0) \<Longrightarrow>
   \<exists>n'. \<forall>t. importActions n xs t = (Inr n', writes (map (\<lambda>a. (CoordinatorActionKey (action_id a), VCoordinatorAction a)) xs) t)"
proof (induction xs arbitrary: n)
  case Nil
  then show ?case by (simp add: returnM_def)
next
  case (Cons a xs)
  have "action_id a \<noteq> 0" using Cons.prems by simp
  then have "SetCoordinatorAction a t = (Inr (), kv_set (CoordinatorActionKey (action_id a)) (VCoordinatorAction a) t)" for t
    by (simp add: SetCoordinatorAction_def kvSet_def modifyM_def)
  moreover obtain n' where "\<forall>t. importActions (if n = 0 \<or> action_id a \<ge> n then action_id a + 1 else n) xs t =
      (Inr n', writes (map (\<lambda>a. (CoordinatorActionKey (action_id a), VCoordinatorAction a)) xs) t)"
    using Cons by (meson list.set_intros(2))
  ultimately show ?case by (intro exI[of _ n']) (simp add: thenM_simps del: if_split)
qed

definition treeImports :: "GenesisRoundTree \<Rightarrow> (bytes \<times> kvval) list" where
  "treeImports rt = (let r = rt_vote_round_id rt in
     (case rt_tree_state rt of None \<Rightarrow> []
      | Some st \<Rightarrow> [(RoundTreeStateKey r, VTreeState (if next_index st > 0 then st\<lparr>tree_height := 0\<rparr> else st))]) @
     map (\<lambda>x. (CommitmentLeafKey r (cl_index x), VBytes (cl_value x))) (rt_commitment_leaves rt) @
     map (\<lambda>x. (CommitmentRootKey r (gr_height x), VBytes (gr_root x))) (rt_commitment_roots rt) @
     map (\<lambda>x. (BlockLeafIndexKey r (gb_height x), VBytes (putUint64BE (gb_start_index x) @ putUint64BE (gb_count x))))
       (rt_block_leaf_indices rt))"

definition genesisWrites :: "GenesisState \<Rightarrow> VoteManagerSet \<Rightarrow> u64 \<Rightarrow> (bytes \<times> kvval) list" where
  "genesisWrites gs m nextID =
     map (\<lambda>rd. (0x04 # vote_round_id rd, VVoteRound rd)) (gs_rounds gs) @
     concat (map treeImports (gs_round_trees gs)) @ [(VoteManagerSetKey, VVoteManagerSet m)] @
     map (\<lambda>a. (CoordinatorActionKey (action_id a), VCoordinatorAction a)) (gs_coordinator_actions gs) @
     (if nextID \<noteq> 0 then [(NextCoordinatorActionIDKey, VBytes (putUint64BE nextID))] else []) @
     map (\<lambda>x. (0x16 # end_endorser_id x, VBytes (end_address x))) (gs_endorsers gs) @
     map (\<lambda>x. (0x17 # eo_endorser_id x @ 0x00 # eo_vote_round_id x, VBytes [1])) (gs_endorsed_rounds gs) @
     [(MinCeremonyValidatorsKey, VBytes (putUint32BE (NormalizeMinCeremonyValidators (gs_min_ceremony_validators gs))))] @
     map (\<lambda>n. (0x01 # ucast (ne_nullifier_type n) # ne_round_id n @ ne_nullifier n, VBytes [1])) (gs_nullifiers gs) @
     map (\<lambda>r. (0x07 # tr_vote_round_id r @ putUint32BE (tr_proposal_id r) @ putUint32BE (tr_vote_decision r), VTallyResult r))
       (gs_tally_results gs) @
     concat (map (\<lambda>p. [(0x0C # vpk_validator_address p, VPallasKey p), (0x15 # vpk_pallas_pk p, VBytes (vpk_validator_address p))])
       (gs_pallas_keys gs)) @
     map (\<lambda>a. (0x05 # ga_round_id a @ putUint32BE (ga_proposal_id a) @ putUint32BE (ga_vote_decision a), VBytes (ga_ciphertext a)))
       (gs_tally_accumulators gs) @
     map (\<lambda>c. (0x0B # gc_round_id c @ putUint32BE (gc_proposal_id c) @ putUint32BE (gc_vote_decision c), VBytes (putUint64BE (gc_count c))))
       (gs_share_counts gs) @
     map (\<lambda>d. (0x12 # gp_round_id d @ putUint32BE (gp_validator_index d) @ putUint32BE (gp_proposal_id d) @ putUint32BE (gp_vote_decision d),
        VPartialDecryption \<lparr>pd_proposal_id = gp_proposal_id d, pd_vote_decision = gp_vote_decision d,
          pd_partial_decrypt = gp_partial_decrypt d, pd_dleq_proof = gp_dleq_proof d\<rparr>)) (gs_partial_decryptions gs)"

lemma forM_map_writes:
  assumes "\<And>x t. x \<in> set xs \<Longrightarrow> f x t = (Inr (), kv_set (k x) (v x) t)"
  shows "forM xs f s = (Inr (), writes (map (\<lambda>x. (k x, v x)) xs) s)"
  using assms by (induction xs arbitrary: s) (simp_all add: returnM_def thenM_simps)

lemma importRoundTree_writes: "importRoundTree rt t = (Inr (), writes (treeImports rt) t)"
proof -
  let ?r = "rt_vote_round_id rt"
  note l = forM_map_writes[where f="\<lambda>leaf. kvSet (CommitmentLeafKey ?r (cl_index leaf)) (VBytes (cl_value leaf))"
      and k="\<lambda>x. CommitmentLeafKey ?r (cl_index x)" and v="\<lambda>x. VBytes (cl_value x)" and xs="rt_commitment_leaves rt"]
  note ro = forM_map_writes[where f="\<lambda>cr. SetCommitmentRootAtHeight ?r (gr_height cr) (gr_root cr)"
      and k="\<lambda>x. CommitmentRootKey ?r (gr_height x)" and v="\<lambda>x. VBytes (gr_root x)" and xs="rt_commitment_roots rt"]
  note b = forM_map_writes[where f="\<lambda>bli. SetBlockLeafIndex ?r (gb_height bli) (gb_start_index bli) (gb_count bli)"
      and k="\<lambda>x. BlockLeafIndexKey ?r (gb_height x)" and v="\<lambda>x. VBytes (putUint64BE (gb_start_index x) @ putUint64BE (gb_count x))"
      and xs="rt_block_leaf_indices rt"]
  have st: "(case rt_tree_state rt of None \<Rightarrow> returnM ()
       | Some st \<Rightarrow> SetCommitmentTreeState ?r (if next_index st > 0 then st\<lparr>tree_height := 0\<rparr> else st)) t =
     (Inr (), writes (case rt_tree_state rt of None \<Rightarrow> []
      | Some st \<Rightarrow> [(RoundTreeStateKey ?r, VTreeState (if next_index st > 0 then st\<lparr>tree_height := 0\<rparr> else st))]) t)" for t
    by (simp add: returnM_def SetCommitmentTreeState_def kvSet_def modifyM_def split: option.splits)
  show ?thesis unfolding importRoundTree_def Let_def treeImports_def writes_simps(3)
    using l ro b st by (simp add: thenM_simps kvSet_def modifyM_def SetCommitmentRootAtHeight_def SetBlockLeafIndex_def)
qed

section \<open>Validation and import\<close>

text \<open>What validation checked, as far as the import depends on it.\<close>

definition importable :: "lib \<Rightarrow> GenesisState \<Rightarrow> bool" where
  "importable L gs \<longleftrightarrow>
     (\<forall>rd \<in> set (gs_rounds gs). length (vote_round_id rd) = 32) \<and> distinct (map vote_round_id (gs_rounds gs)) \<and>
     (\<forall>n \<in> set (gs_nullifiers gs). length (ne_round_id n) = 32) \<and>
     (\<forall>r \<in> set (gs_tally_results gs). length (tr_vote_round_id r) = 32) \<and>
     (\<forall>a \<in> set (gs_tally_accumulators gs). length (ga_round_id a) = 32) \<and>
     (\<forall>c \<in> set (gs_share_counts gs). length (gc_round_id c) = 32) \<and>
     (\<forall>d \<in> set (gs_partial_decryptions gs). length (gp_round_id d) = 32) \<and>
     (\<forall>x \<in> set (gs_endorsers gs). ValidateEndorserID (end_endorser_id x) = Inr () \<and> validBech32 L (end_address x)) \<and>
     (\<forall>x \<in> set (gs_endorsed_rounds gs). ValidateEndorserID (eo_endorser_id x) = Inr () \<and> length (eo_vote_round_id x) = 32) \<and>
     (\<forall>a \<in> set (gs_coordinator_actions gs). action_id a \<noteq> 0)"

lemma validated_importable:
  assumes "ValidateGenesisState L (Some gs) = Inr ()"
  shows "importable L gs"
    "\<exists>m :: VoteManagerSet. ValidateAndNormalizeVoteManagerPolicy L (gs_vote_manager_addresses gs) (gs_vote_manager_threshold gs) =
       Inr (vm_addresses m, vm_threshold m)"
proof -
  note V = assms[unfolded ValidateGenesisState_def option.case bindR_Inr_iff failIfR_Inr_iff, simplified,
      unfolded checkKeyed_Inr_iff forR_all bindR_Inr_iff RoundIDLen_def, simplified]
  show "importable L gs" using V unfolding importable_def by blast
  obtain p where "ValidateAndNormalizeVoteManagerPolicy L (gs_vote_manager_addresses gs) (gs_vote_manager_threshold gs) = Inr p"
    using V by blast
  then show "\<exists>m :: VoteManagerSet. ValidateAndNormalizeVoteManagerPolicy L (gs_vote_manager_addresses gs) (gs_vote_manager_threshold gs) =
       Inr (vm_addresses m, vm_threshold m)"
    by (cases p) (metis VoteManagerSet.select_convs(1,2))
qed

lemma InitGenesis_writes:
  assumes i: "importable L gs" and e: "AccAddressFromBech32 L [] = None"
    and m: "ValidateAndNormalizeVoteManagerPolicy L (gs_vote_manager_addresses gs) (gs_vote_manager_threshold gs) =
       Inr (vm_addresses m, vm_threshold m)"
  shows "\<exists>nextID. InitGenesis L (Some gs) [] = (Inr (), writes (genesisWrites gs m nextID) [])"
proof -
  note I = i[unfolded importable_def]
  note w = bindM_def liftR_def kvSet_def modifyM_def key_simps ValidateRoundID_ok
  have addr: "gs_vote_manager_addresses gs \<noteq> []"
    using m by (auto simp: ValidateAndNormalizeVoteManagerPolicy_def)
  have managers: "(if gs_vote_manager_addresses gs \<noteq> []
      then SetVoteManagers L \<lparr>vm_addresses = gs_vote_manager_addresses gs, vm_threshold = gs_vote_manager_threshold gs\<rparr>
      else returnM ()) t = (Inr (), writes [(VoteManagerSetKey, VVoteManagerSet m)] t)" for t
    using addr m by (cases m) (simp add: SetVoteManagers_def w)
  have rounds: "forM (gs_rounds gs) SetVoteRound t =
      (Inr (), writes (map (\<lambda>rd. (0x04 # vote_round_id rd, VVoteRound rd)) (gs_rounds gs)) t)" for t
    by (rule forM_map_writes) (use I in \<open>simp add: SetVoteRound_ok\<close>)
  have trees: "forM (gs_round_trees gs) importRoundTree t = (Inr (), writes (concat (map treeImports (gs_round_trees gs))) t)" for t
    by (rule forM_writes) (rule importRoundTree_writes)
  obtain nextID where acts: "importActions (gs_next_coordinator_action_id gs) (gs_coordinator_actions gs) t =
      (Inr nextID, writes (map (\<lambda>a. (CoordinatorActionKey (action_id a), VCoordinatorAction a)) (gs_coordinator_actions gs)) t)" for t
    using importActions_total[of "gs_coordinator_actions gs" "gs_next_coordinator_action_id gs"] I by blast
  have nextW: "(if nextID \<noteq> 0 then SetNextCoordinatorActionID nextID else returnM ()) t =
      (Inr (), writes (if nextID \<noteq> 0 then [(NextCoordinatorActionIDKey, VBytes (putUint64BE nextID))] else []) t)" for t
    by (simp add: SetNextCoordinatorActionID_def kvSet_def modifyM_def returnM_def)
  have address: "end_address x \<noteq> []" if "x \<in> set (gs_endorsers gs)" for x
  proof
    assume "end_address x = []"
    moreover have "validBech32 L (end_address x)" using I that by blast
    ultimately show False using e by (simp add: validBech32_def)
  qed
  have endorsers: "forM (gs_endorsers gs) (\<lambda>x. SetEndorser (end_endorser_id x) (end_address x)) t =
      (Inr (), writes (map (\<lambda>x. (0x16 # end_endorser_id x, VBytes (end_address x))) (gs_endorsers gs)) t)" for t
    by (rule forM_map_writes) (use I address in \<open>simp add: SetEndorser_def w\<close>)
  have endorsed: "forM (gs_endorsed_rounds gs) (\<lambda>x. AddEndorsedRound (eo_endorser_id x) (eo_vote_round_id x)) t =
      (Inr (), writes (map (\<lambda>x. (0x17 # eo_endorser_id x @ 0x00 # eo_vote_round_id x, VBytes [1])) (gs_endorsed_rounds gs)) t)" for t
    by (rule forM_map_writes) (use I in \<open>simp add: AddEndorsedRound_def w\<close>)
  have minV: "SetMinCeremonyValidators (if gs_min_ceremony_validators gs = 0 then 1 else gs_min_ceremony_validators gs) t =
      (Inr (), writes [(MinCeremonyValidatorsKey, VBytes (putUint32BE (NormalizeMinCeremonyValidators (gs_min_ceremony_validators gs))))] t)" for t
    by (simp add: SetMinCeremonyValidators_def NormalizeMinCeremonyValidators_def kvSet_def modifyM_def)
  have nullifiers: "forM (gs_nullifiers gs) importNullifier t = (Inr (), writes
      (map (\<lambda>n. (0x01 # ucast (ne_nullifier_type n) # ne_round_id n @ ne_nullifier n, VBytes [1])) (gs_nullifiers gs)) t)" for t
    by (rule forM_map_writes) (use I in \<open>simp add: importNullifier_def w\<close>)
  have results: "forM (gs_tally_results gs) SetTallyResult t = (Inr (), writes
      (map (\<lambda>r. (0x07 # tr_vote_round_id r @ putUint32BE (tr_proposal_id r) @ putUint32BE (tr_vote_decision r), VTallyResult r))
        (gs_tally_results gs)) t)" for t
    by (rule forM_map_writes) (use I in \<open>simp add: SetTallyResult_def w\<close>)
  have pallas: "forM (gs_pallas_keys gs) SetPallasKey t = (Inr (), writes (concat (map (\<lambda>p.
      [(0x0C # vpk_validator_address p, VPallasKey p), (0x15 # vpk_pallas_pk p, VBytes (vpk_validator_address p))]) (gs_pallas_keys gs))) t)" for t
    by (rule forM_writes) (simp add: SetPallasKey_def thenM_def w)
  have accs: "forM (gs_tally_accumulators gs) importAccumulator t = (Inr (), writes
      (map (\<lambda>a. (0x05 # ga_round_id a @ putUint32BE (ga_proposal_id a) @ putUint32BE (ga_vote_decision a), VBytes (ga_ciphertext a)))
        (gs_tally_accumulators gs)) t)" for t
    by (rule forM_map_writes) (use I in \<open>simp add: importAccumulator_def w\<close>)
  have counts: "forM (gs_share_counts gs) importShareCount t = (Inr (), writes
      (map (\<lambda>c. (0x0B # gc_round_id c @ putUint32BE (gc_proposal_id c) @ putUint32BE (gc_vote_decision c), VBytes (putUint64BE (gc_count c))))
        (gs_share_counts gs)) t)" for t
    by (rule forM_map_writes) (use I in \<open>simp add: importShareCount_def w\<close>)
  have partials: "forM (gs_partial_decryptions gs) importPartial t = (Inr (), writes
      (map (\<lambda>d. (0x12 # gp_round_id d @ putUint32BE (gp_validator_index d) @ putUint32BE (gp_proposal_id d) @ putUint32BE (gp_vote_decision d),
        VPartialDecryption \<lparr>pd_proposal_id = gp_proposal_id d, pd_vote_decision = gp_vote_decision d,
          pd_partial_decrypt = gp_partial_decrypt d, pd_dleq_proof = gp_dleq_proof d\<rparr>)) (gs_partial_decryptions gs)) t)" for t
    by (rule forM_map_writes) (use I in \<open>simp add: importPartial_def SetPartialDecryptions_def thenM_def returnM_def w\<close>)
  have "InitGenesis L (Some gs) [] = (Inr (), writes (genesisWrites gs m nextID) [])"
    unfolding InitGenesis_def option.case genesisWrites_def writes_simps(3)
    by (simp only: thenM_simps(1) bindM_simps(1) rounds trees managers acts nextW endorsers endorsed minV nullifiers results
        pallas accs counts partials)
  then show ?thesis by blast
qed

text \<open>The entries of each table are well-typed.\<close>

lemma entry_ok_shapes:
  "entry_ok VoteManagerSetKey (VVoteManagerSet m)" "entry_ok NextCoordinatorActionIDKey (VBytes b)"
  "entry_ok MinCeremonyValidatorsKey (VBytes b)" "entry_ok (CoordinatorActionKey (action_id a)) (VCoordinatorAction a)"
  "entry_ok (0x16 # x) (VBytes b)" "entry_ok (0x17 # x) (VBytes b)" "entry_ok (0x01 # x) (VBytes b)"
  "entry_ok (0x0C # vpk_validator_address p) (VPallasKey p)" "entry_ok (0x15 # x) (VBytes b)"
  by (simp_all add: entry_ok_def key_simps)

lemma entry_ok_round_shapes:
  assumes "length r = 32"
  shows "entry_ok (0x05 # r @ putUint32BE i @ putUint32BE j) (VBytes b)"
    "entry_ok (0x0B # r @ putUint32BE i @ putUint32BE j) (VBytes b)"
    "entry_ok (0x12 # r @ putUint32BE n @ putUint32BE i @ putUint32BE j)
       (VPartialDecryption \<lparr>pd_proposal_id = i, pd_vote_decision = j, pd_partial_decrypt = d, pd_dleq_proof = q\<rparr>)"
    "r = tr_vote_round_id tr \<Longrightarrow>
       entry_ok (0x07 # r @ putUint32BE (tr_proposal_id tr) @ putUint32BE (tr_vote_decision tr)) (VTallyResult tr)"
  using assms by (simp_all add: entry_ok_def key_simps ValidateRoundID_ok)

lemma genesisWrites_entry_ok:
  assumes i: "importable L gs" and t: "\<forall>rt \<in> set (gs_round_trees gs). length (rt_vote_round_id rt) = 32"
    and mem: "(k, v) \<in> set (genesisWrites gs m nextID)"
  shows "entry_ok k v"
proof -
  have tree: "entry_ok k v" if "rt \<in> set (gs_round_trees gs)" "(k, v) \<in> set (treeImports rt)" for rt
    using that t entry_ok_tree_state[of "rt_vote_round_id rt"] entry_ok_tree_bytes[of "rt_vote_round_id rt"]
    by (auto simp: treeImports_def Let_def split: option.splits)
  note I = i[unfolded importable_def]
  show ?thesis using mem unfolding genesisWrites_def set_append Un_iff
    by (elim disjE) (use I tree in \<open>auto simp: entry_ok_shapes entry_ok_round_shapes entry_ok_round split: if_splits\<close>)
qed

lemma genesisWrites_tags:
  assumes "(k, v) \<in> set (genesisWrites gs m nextID)"
  shows "k = 0x04 # r \<Longrightarrow> \<exists>rd \<in> set (gs_rounds gs). vote_round_id rd = r \<and> v = VVoteRound rd"
    and "k = 0x01 # c \<Longrightarrow> v = VBytes [1]"
    and "k = VoteManagerSetKey \<Longrightarrow> v = VVoteManagerSet m"
proof -
  have "hd k = 0x14" if "(k, v) \<in> set (treeImports rt)" for rt
    using that by (auto simp: treeImports_def Let_def key_simps split: option.splits)
  then show "k = 0x04 # r \<Longrightarrow> \<exists>rd \<in> set (gs_rounds gs). vote_round_id rd = r \<and> v = VVoteRound rd"
    "k = 0x01 # c \<Longrightarrow> v = VBytes [1]" "k = VoteManagerSetKey \<Longrightarrow> v = VVoteManagerSet m"
    using assms unfolding genesisWrites_def set_append Un_iff
    by (elim disjE; fastforce simp: key_simps split: if_splits)+
qed


text \<open>A state with one round, its tree and one nullifier.\<close>

definition sampleGenesis :: GenesisState where
  "sampleGenesis = \<lparr>gs_rounds = [sampleRound], gs_nullifiers = [\<lparr>ne_nullifier = [9], ne_nullifier_type = 2, ne_round_id = sampleRoundID\<rparr>],
     gs_vote_manager_addresses = [[1]], gs_tally_results = [], gs_pallas_keys = [], gs_tally_accumulators = [],
     gs_share_counts = [], gs_min_ceremony_validators = 0,
     gs_round_trees = [\<lparr>rt_vote_round_id = sampleRoundID, rt_tree_state = None, rt_commitment_leaves = [\<lparr>cl_index = 0, cl_value = [7]\<rparr>],
       rt_commitment_roots = [], rt_block_leaf_indices = []\<rparr>],
     gs_partial_decryptions = [], gs_endorsers = [], gs_endorsed_rounds = [], gs_vote_manager_threshold = 0,
     gs_coordinator_actions = [], gs_next_coordinator_action_id = 0\<rparr>"


end
