(* ===== verification/Retry_Schedule.thy ===== *)
theory Retry_Schedule
  imports Vote_Types "HOL-Library.Signed_Division"
begin

text \<open>
  When the helper server tries to prove and submit a share:
  \<^verbatim>\<open>src/internal/helper/retry_schedule.go\<close> and the polling times of
  \<^verbatim>\<open>src/internal/helper/store.go\<close>. A \<^verbatim>\<open>time.Time\<close> is the number of nanoseconds
  since the epoch, a \<^verbatim>\<open>time.Duration\<close> a number of nanoseconds; \<^verbatim>\<open>Sub\<close> saturates at the
  range of a 64-bit duration, division truncates towards zero. The random offset of the last
  attempt is an argument, and the JSON decoder of the stored progress a parameter.

  The lemmas show that the slots are at least ten seconds apart, start with the first attempt
  and stay before the cutoff, that a fresh schedule is always accepted when it is read back,
  that a share gets at most five proof attempts, and that polling never spins and never
  sleeps through the last thirty seconds.
\<close>

section \<open>Time\<close>

type_synonym time = int
type_synonym duration = int

definition Nanosecond :: duration where "Nanosecond = 1"
definition Second :: duration where "Second = 1000000000"
definition Minute :: duration where "Minute = 60 * Second"
definition Hour :: duration where "Hour = 60 * Minute"

text \<open>\<^verbatim>\<open>time.Unix(int64(v), 0)\<close>, \<^verbatim>\<open>Unix()\<close>, \<^verbatim>\<open>Sub\<close> and the zero time (1 January of year 1).\<close>

definition unixTime :: "u64 \<Rightarrow> time" where "unixTime v = sint v * Second"
definition unixSeconds :: "time \<Rightarrow> int" where "unixSeconds t = t div Second"
definition timeSub :: "time \<Rightarrow> time \<Rightarrow> duration" where
  "timeSub t u = max (- (2 ^ 63)) (min (2 ^ 63 - 1) (t - u))"
definition zeroTime :: time where "zeroTime = - 62135596800 * Second"

section \<open>The schedule of proof attempts\<close>

definition retryMaxDuration :: duration where "retryMaxDuration = 48 * Hour"
definition retrySafetyBuffer :: duration where "retrySafetyBuffer = 5 * Minute"
definition retryMinBuffer :: duration where "retryMinBuffer = 30 * Second"
definition retryFinalJitter :: duration where "retryFinalJitter = 10 * Minute"
definition retryMinSpacing :: duration where "retryMinSpacing = 10 * Second"

record retryState =
  FirstAttempt :: time
  FinalAttempt :: time
  NextSlot :: int
  LastAttempt :: time
  LastHeight :: u64

definition retryCutoff :: "time \<Rightarrow> u64 \<Rightarrow> time" where
  "retryCutoff firstAttempt voteEndTime =
     (let deadline = unixTime voteEndTime; remaining = timeSub deadline firstAttempt in
      if voteEndTime = 0 \<or> remaining \<le> retryMinBuffer then firstAttempt
      else
        let buffer = min retrySafetyBuffer (max retryMinBuffer (remaining sdiv 8));
            cutoff = deadline - buffer;
            maxCutoff = firstAttempt + retryMaxDuration in
        if cutoff > maxCutoff then maxCutoff else cutoff)"

definition queueSummaryMinute :: u64 where "queueSummaryMinute = 60"
definition queueSummaryHour :: u64 where "queueSummaryHour = 60 * queueSummaryMinute"

definition lastMinuteWindowStart :: "u64 \<Rightarrow> u64 \<Rightarrow> u64" where
  "lastMinuteWindowStart createdAtTime voteEndTime =
     (if voteEndTime \<le> createdAtTime then createdAtTime
      else
        let dur = voteEndTime - createdAtTime;
            window = dur * 40 div 100;
            window = (if window < 1 then 1 else window);
            window = (if window > 6 * queueSummaryHour then 6 * queueSummaryHour else window) in
        voteEndTime - window)"

definition finalRetryWindow :: "time \<Rightarrow> u64 \<Rightarrow> u64 \<Rightarrow> time \<times> time" where
  "finalRetryWindow now createdAtTime voteEndTime =
     (let cutoff = retryCutoff now voteEndTime in
      if cutoff = now then (now, now)
      else
        let remaining = timeSub (unixTime voteEndTime) now;
            jitter = min retryFinalJitter (min (remaining sdiv 8) (timeSub cutoff now));
            windowStart = unixTime (lastMinuteWindowStart createdAtTime voteEndTime) in
        if createdAtTime > 0 \<and> createdAtTime < voteEndTime \<and> now < windowStart then
          let windowStart = (if windowStart > cutoff then cutoff else windowStart);
              earliest = windowStart + (- jitter) sdiv 2; latest = windowStart + jitter sdiv 2;
              earliest = (if earliest < now then now else earliest);
              latest = (if latest > cutoff then cutoff else latest) in
          (earliest, latest)
        else (cutoff - jitter, cutoff))"

text \<open>\<open>Int64N\<close> stands for \<^verbatim>\<open>rand.Int64N\<close>, which panics unless its bound is positive.\<close>

definition newRetryState :: "(int \<Rightarrow> int) \<Rightarrow> time \<Rightarrow> u64 \<Rightarrow> u64 \<Rightarrow> retryState res" where
  "newRetryState Int64N now createdAtTime voteEndTime =
     (case finalRetryWindow now createdAtTime voteEndTime of (earliest, latest) \<Rightarrow>
        let n = sint ((word_of_int (timeSub latest earliest) :: u64) + 1) in
        failIfR (n \<le> 0) GoPanic (
        Inr \<lparr>FirstAttempt = now, FinalAttempt = earliest + Int64N n, NextSlot = 0,
             LastAttempt = zeroTime, LastHeight = 0\<rparr>))"

text \<open>The loop over the preferred offsets: the slots so far and the last of them.\<close>

fun retryLoop :: "time \<Rightarrow> time \<Rightarrow> time list \<Rightarrow> time \<Rightarrow> duration list \<Rightarrow> time list \<times> time" where
  "retryLoop start final slots previous [] = (slots, previous)"
| "retryLoop start final slots previous (offset # offsets) =
     (let next = start + offset;
          halfway = previous + timeSub final previous sdiv 2;
          next = (if next > halfway then halfway else next) in
      if timeSub next previous \<ge> retryMinSpacing \<and> timeSub final next \<ge> retryMinSpacing
      then retryLoop start final (slots @ [next]) next offsets
      else retryLoop start final slots previous offsets)"

definition retryTimes :: "time \<Rightarrow> time \<Rightarrow> time list" where
  "retryTimes start final =
     (case retryLoop start final [start] start [Minute, 10 * Minute, retryMaxDuration] of
        (slots, previous) \<Rightarrow>
          if timeSub final previous \<ge> retryMinSpacing then slots @ [final] else slots)"

text \<open>\<open>J\<close> stands for \<^verbatim>\<open>json.Unmarshal\<close> into the record.\<close>

definition decodeRetryState :: "(gostring \<Rightarrow> retryState option) \<Rightarrow> gostring \<Rightarrow> u64 \<Rightarrow> retryState option res" where
  "decodeRetryState J raw voteEndTime =
     (if raw = [] then Inr None
      else (case J raw of
         None \<Rightarrow> Inl ErrOther
       | Some state \<Rightarrow>
           failIfR (FirstAttempt state = zeroTime \<or> FinalAttempt state < FirstAttempt state \<or>
             FinalAttempt state > retryCutoff (FirstAttempt state) voteEndTime) ErrOther (
           failIfR (NextSlot state < 0 \<or>
             NextSlot state > int (length (retryTimes (FirstAttempt state) (FinalAttempt state)))) ErrOther (
           Inr (Some state)))))"

definition goIndex :: "'a list \<Rightarrow> int \<Rightarrow> 'a res" where
  "goIndex xs i = (if 0 \<le> i \<and> i < int (length xs) then Inr (xs ! nat i) else Inl GoPanic)"

text \<open>The loop that skips to the latest missed slot.\<close>

function latestMissed :: "time list \<Rightarrow> time \<Rightarrow> int \<Rightarrow> int res" where
  "latestMissed slots now slot =
     (if slot + 1 < int (length slots) then
        bindR (goIndex slots (slot + 1)) (\<lambda>t.
        if t \<le> now then latestMissed slots now (slot + 1) else Inr slot)
      else Inr slot)"
  by pat_completeness auto
termination by (relation "measure (\<lambda>(slots, now, slot). nat (int (length slots) - slot))") auto

definition due :: "retryState \<Rightarrow> time \<Rightarrow> u64 \<Rightarrow> (int \<times> time) res" where
  "due s now voteEndTime =
     (let slots = retryTimes (FirstAttempt s) (FinalAttempt s);
          cutoff = retryCutoff (FirstAttempt s) voteEndTime in
      if NextSlot s \<ge> int (length slots) \<or> now > cutoff then Inr (- 1, zeroTime)
      else
        bindR (latestMissed slots now (NextSlot s)) (\<lambda>slot.
        bindR (goIndex slots slot) (\<lambda>t.
        let earliest = LastAttempt s + retryMinSpacing;
            next = (if LastAttempt s \<noteq> zeroTime \<and> t < earliest then earliest else t) in
        if next > cutoff then Inr (- 1, zeroTime)
        else if next > now then Inr (- 1, next)
        else Inr (slot, next))))"

text \<open>
  The reservation in \<^verbatim>\<open>processShare\<close>: a due slot and a newer block are needed, and the
  attempts before the schedule was created consume slots too.
\<close>

datatype claim = NoSlot | SameHeight | Claimed retryState

definition claimSlot :: "int \<Rightarrow> time \<Rightarrow> u64 \<Rightarrow> u64 \<Rightarrow> retryState \<Rightarrow> claim res" where
  "claimSlot previousAttempts now voteEndTime blockHeight retry =
     bindR (due retry now voteEndTime) (\<lambda>(slot, _).
     if slot < 0 then Inr NoSlot
     else if blockHeight \<le> LastHeight retry then Inr SameHeight
     else Inr (Claimed (retry\<lparr>
       NextSlot := min (slot + 1 + previousAttempts)
         (int (length (retryTimes (FirstAttempt retry) (FinalAttempt retry)))),
       LastAttempt := now, LastHeight := blockHeight\<rparr>)))"

section \<open>Polling\<close>

definition shareSystemRetryBackoff :: duration where "shareSystemRetryBackoff = 10 * Second"
definition shareSystemRetryUrgentBackoff :: duration where "shareSystemRetryUrgentBackoff = 2 * Second"
definition shareSystemRetryDeadlineBuffer :: duration where "shareSystemRetryDeadlineBuffer = 30 * Second"
definition shareStalledRetryMaxBackoff :: duration where "shareStalledRetryMaxBackoff = 2 * Minute"

definition nextSharePollTime :: "time \<Rightarrow> u64 \<Rightarrow> duration \<Rightarrow> time" where
  "nextSharePollTime now voteEndTime backoff =
     (let scheduled = now + backoff in
      if voteEndTime = 0 then scheduled
      else
        let deadline = unixTime voteEndTime; remaining = timeSub deadline now in
        if remaining \<le> 0 then now + shareSystemRetryBackoff
        else
          let urgentStart = deadline - shareSystemRetryDeadlineBuffer in
          if now < urgentStart then (if scheduled > urgentStart then urgentStart else scheduled)
          else now + max Nanosecond (min shareSystemRetryUrgentBackoff (remaining sdiv 2)))"

definition nextShareSystemRetryTime :: "time \<Rightarrow> u64 \<Rightarrow> time" where
  "nextShareSystemRetryTime now voteEndTime = nextSharePollTime now voteEndTime shareSystemRetryBackoff"

text \<open>The doubling loop; \<open>retry\<close> counts up to \<open>retryCount\<close>, both bytes.\<close>

function stalledBackoff :: "u8 \<Rightarrow> u8 \<Rightarrow> duration \<Rightarrow> duration" where
  "stalledBackoff retry retryCount backoff =
     (if retry < retryCount \<and> backoff < shareStalledRetryMaxBackoff
      then stalledBackoff (retry + 1) retryCount (backoff * 2) else backoff)"
  by pat_completeness auto

termination
proof (relation "measure (\<lambda>(retry, retryCount, backoff). unat (retryCount - retry))")
  fix retry retryCount :: u8 and backoff :: duration
  assume a: "retry < retryCount \<and> backoff < shareStalledRetryMaxBackoff"
  then have nz: "retryCount - retry \<noteq> 0" by auto
  have "retryCount - (retry + 1) = retryCount - retry - 1" by simp
  then have "unat (retryCount - (retry + 1)) = unat (retryCount - retry) - 1"
    using unat_minus_one[OF nz] by (simp only:)
  moreover have "0 < unat (retryCount - retry)" using nz by (simp add: unat_gt_0)
  ultimately show "((retry + 1, retryCount, backoff * 2), retry, retryCount, backoff)
      \<in> measure (\<lambda>(retry, retryCount, backoff). unat (retryCount - retry))"
    by simp
qed simp

definition nextShareStalledRetryTime :: "time \<Rightarrow> u64 \<Rightarrow> u8 \<Rightarrow> time" where
  "nextShareStalledRetryTime now voteEndTime retryCount =
     (let backoff = stalledBackoff 1 retryCount shareSystemRetryBackoff;
          backoff = (if backoff > shareStalledRetryMaxBackoff then shareStalledRetryMaxBackoff else backoff) in
      nextSharePollTime now voteEndTime backoff)"

definition scheduleSecond :: "time \<Rightarrow> time" where "scheduleSecond at = unixSeconds at * Second"

definition scheduleRetryTime :: "time \<Rightarrow> time \<Rightarrow> time" where
  "scheduleRetryTime now at =
     (let scheduled = scheduleSecond at in if at > now \<and> \<not> scheduled > now then at else scheduled)"

declare latestMissed.simps [simp del] stalledBackoff.simps [simp del]

section \<open>The slots\<close>

lemmas durations = Second_def Minute_def Hour_def retryMaxDuration_def retrySafetyBuffer_def
  retryMinBuffer_def retryFinalJitter_def retryMinSpacing_def Nanosecond_def
  shareSystemRetryBackoff_def shareSystemRetryUrgentBackoff_def shareSystemRetryDeadlineBuffer_def
  shareStalledRetryMaxBackoff_def

lemma timeSub_ge_iff: "- (2 ^ 63) < c \<Longrightarrow> c < 2 ^ 63 \<Longrightarrow> c \<le> timeSub t u \<longleftrightarrow> c \<le> t - u"
  by (auto simp: timeSub_def)

lemma timeSub_le_iff: "- (2 ^ 63) < c \<Longrightarrow> c < 2 ^ 63 - 1 \<Longrightarrow> timeSub t u \<le> c \<longleftrightarrow> t - u \<le> c"
  by (auto simp: timeSub_def)

lemma sdiv_pos: "0 \<le> (a::int) \<Longrightarrow> 0 < b \<Longrightarrow> a sdiv b = a div b"
  by (cases "a = 0") (simp_all add: signed_divide_int_def)

lemma spacing_iff [simp]: "retryMinSpacing \<le> timeSub t u \<longleftrightarrow> u + retryMinSpacing \<le> t"
  by (subst timeSub_ge_iff) (auto simp: durations)

abbreviation spaced :: "time list \<Rightarrow> bool" where
  "spaced \<equiv> successively (\<lambda>a b. a + retryMinSpacing \<le> b)"

text \<open>What the loop keeps of the slots it has collected, at most \<open>n\<close> of them.\<close>

definition slotsInv :: "time \<Rightarrow> time \<Rightarrow> nat \<Rightarrow> time list \<Rightarrow> time \<Rightarrow> bool" where
  "slotsInv start final n slots previous \<longleftrightarrow> slots \<noteq> [] \<and> hd slots = start \<and> last slots = previous \<and>
     spaced slots \<and> length slots \<le> n \<and> (\<forall>t \<in> set slots. start \<le> t \<and> (t = start \<or> t \<le> final))"

lemma slotsInv_snoc:
  assumes "slotsInv start final n slots previous" "previous + retryMinSpacing \<le> t" "t \<le> final"
  shows "slotsInv start final (Suc n) (slots @ [t]) t"
proof -
  have "start \<le> previous" using assms(1) last_in_set[of slots] by (auto simp: slotsInv_def)
  moreover have "0 < retryMinSpacing" by (simp add: durations)
  ultimately have "start \<le> t" using assms(2) by simp
  with assms show ?thesis by (auto simp: slotsInv_def successively_append_iff)
qed

lemma retryLoop_slotsInv:
  assumes "retryLoop start final slots previous offsets = (slots', previous')"
    and "slotsInv start final n slots previous"
  shows "slotsInv start final (n + length offsets) slots' previous'"
  using assms
proof (induction offsets arbitrary: slots previous n)
  case (Cons offset offsets)
  define t where "t = (let next = start + offset; halfway = previous + timeSub final previous sdiv 2 in
    if next > halfway then halfway else next)"
  have "0 < retryMinSpacing" by (simp add: durations)
  show ?case
  proof (cases "previous + retryMinSpacing \<le> t \<and> t + retryMinSpacing \<le> final")
    case True
    then have "retryLoop start final (slots @ [t]) t offsets = (slots', previous')"
      using Cons.prems(1) by (simp add: Let_def t_def)
    moreover have "slotsInv start final (Suc n) (slots @ [t]) t"
      using slotsInv_snoc[OF Cons.prems(2)] True \<open>0 < retryMinSpacing\<close> by simp
    ultimately show ?thesis using Cons.IH by fastforce
  next
    case False
    then have "retryLoop start final slots previous offsets = (slots', previous')"
      using Cons.prems(1) by (auto simp: Let_def t_def)
    moreover have "slotsInv start final (Suc n) slots previous"
      using Cons.prems(2) by (simp add: slotsInv_def)
    ultimately show ?thesis using Cons.IH by fastforce
  qed
qed simp

lemma retryTimes_slotsInv: "\<exists>previous. slotsInv start final 5 (retryTimes start final) previous"
proof -
  obtain slots previous where l: "retryLoop start final [start] start [Minute, 10 * Minute, retryMaxDuration] = (slots, previous)"
    by fastforce
  have "slotsInv start final 1 [start] start" by (simp add: slotsInv_def)
  from retryLoop_slotsInv[OF l this] have i: "slotsInv start final 4 slots previous"
    by (simp add: eval_nat_numeral)
  then have j: "slotsInv start final 5 slots previous" by (simp add: slotsInv_def)
  show ?thesis using l j slotsInv_snoc[OF i, of final] by (auto simp: retryTimes_def)
qed

lemma spaced_less:
  assumes "spaced slots" "i < j" "j < length slots"
  shows "slots ! i + retryMinSpacing \<le> slots ! j"
  using assms(2,3)
proof (induction j)
  case (Suc j)
  have s: "slots ! j + retryMinSpacing \<le> slots ! Suc j"
    using assms(1) Suc.prems by (simp add: successively_conv_nth)
  have "0 < retryMinSpacing" by (simp add: durations)
  then show ?case using Suc s by (cases "i = j") auto
qed simp

lemma retryTimes_facts:
  "1 \<le> length (retryTimes start final)" "length (retryTimes start final) \<le> 5"
  "retryTimes start final ! 0 = start" "spaced (retryTimes start final)"
  "i < length (retryTimes start final) \<Longrightarrow> start \<le> retryTimes start final ! i"
  "start \<le> final \<Longrightarrow> i < length (retryTimes start final) \<Longrightarrow> retryTimes start final ! i \<le> final"
proof -
  obtain previous where "slotsInv start final 5 (retryTimes start final) previous"
    using retryTimes_slotsInv by blast
  then have s: "retryTimes start final \<noteq> []" "hd (retryTimes start final) = start"
    "spaced (retryTimes start final)" "length (retryTimes start final) \<le> 5"
    "\<forall>t \<in> set (retryTimes start final). start \<le> t \<and> (t = start \<or> t \<le> final)"
    by (simp_all add: slotsInv_def)
  show "1 \<le> length (retryTimes start final)" using s(1) by (simp add: Suc_le_eq)
  show "retryTimes start final ! 0 = start" using s(1,2) by (simp add: hd_conv_nth)
  show "length (retryTimes start final) \<le> 5" "spaced (retryTimes start final)" using s by simp_all
  show "i < length (retryTimes start final) \<Longrightarrow> start \<le> retryTimes start final ! i"
    using s(5) nth_mem by blast
  show "start \<le> final \<Longrightarrow> i < length (retryTimes start final) \<Longrightarrow> retryTimes start final ! i \<le> final"
    using s(5) nth_mem by fastforce
qed

section \<open>The cutoff and the window of the last attempt\<close>

lemma retryCutoff_bounds:
  "first \<le> retryCutoff first v" "retryCutoff first v \<le> first + retryMaxDuration"
  "retryCutoff first v \<noteq> first \<Longrightarrow> retryCutoff first v \<le> unixTime v - retryMinBuffer"
proof -
  define remaining where "remaining = timeSub (unixTime v) first"
  define buffer where "buffer = min retrySafetyBuffer (max retryMinBuffer (remaining sdiv 8))"
  have "first \<le> unixTime v - buffer \<and> retryMinBuffer \<le> buffer" if "\<not> remaining \<le> retryMinBuffer"
  proof -
    have "0 < remaining" "remaining \<le> unixTime v - first"
      using that unfolding remaining_def timeSub_def durations by auto
    moreover have "remaining sdiv 8 \<le> remaining" using calculation by (simp add: sdiv_pos)
    ultimately have "max retryMinBuffer (remaining sdiv 8) \<le> unixTime v - first" using that by simp
    then show ?thesis by (auto simp: buffer_def durations min_def)
  qed
  then show "first \<le> retryCutoff first v" "retryCutoff first v \<le> first + retryMaxDuration"
    "retryCutoff first v \<noteq> first \<Longrightarrow> retryCutoff first v \<le> unixTime v - retryMinBuffer"
    unfolding retryCutoff_def Let_def remaining_def[symmetric] buffer_def[symmetric]
    by (auto simp: durations)
qed

lemma finalRetryWindow_bounds:
  assumes "finalRetryWindow now c v = (earliest, latest)"
  shows "now \<le> earliest" "earliest \<le> latest" "latest \<le> retryCutoff now v"
    "latest - earliest \<le> retryFinalJitter"
proof -
  define cutoff where "cutoff = retryCutoff now v"
  define remaining where "remaining = timeSub (unixTime v) now"
  define jitter where "jitter = min retryFinalJitter (min (remaining sdiv 8) (timeSub cutoff now))"
  define ws where "ws = unixTime (lastMinuteWindowStart c v)"
  have c: "now \<le> cutoff" unfolding cutoff_def by (rule retryCutoff_bounds)
  have j: "0 \<le> jitter \<and> jitter \<le> cutoff - now \<and> jitter \<le> retryFinalJitter" if "cutoff \<noteq> now"
  proof -
    have "0 \<le> remaining" using retryCutoff_bounds(3)[of now v] that c
      unfolding cutoff_def[symmetric] remaining_def timeSub_def durations by auto
    moreover have "0 \<le> timeSub cutoff now" "timeSub cutoff now \<le> cutoff - now" using c by (auto simp: timeSub_def)
    ultimately show ?thesis by (auto simp: jitter_def sdiv_pos durations min_le_iff_disj)
  qed
  have half: "(- jitter) sdiv 2 = - (jitter div 2)" "jitter sdiv 2 = jitter div 2" if "0 \<le> jitter"
    using that by (auto simp: signed_divide_int_def sgn_if)
  have "now \<le> earliest \<and> earliest \<le> latest \<and> latest \<le> cutoff \<and> latest - earliest \<le> retryFinalJitter"
  proof (cases "cutoff = now")
    case True
    then show ?thesis using assms unfolding finalRetryWindow_def cutoff_def[symmetric] by (auto simp: durations)
  next
    case False
    have u: "finalRetryWindow now c v = (if c > 0 \<and> c < v \<and> now < ws
        then (max now (min ws cutoff - jitter div 2), min cutoff (min ws cutoff + jitter div 2))
        else (cutoff - jitter, cutoff))"
      using False half j[OF False] unfolding finalRetryWindow_def Let_def cutoff_def[symmetric] remaining_def[symmetric]
        jitter_def[symmetric] ws_def[symmetric] by auto
    have "now \<le> min ws cutoff" if "now < ws" using that c by simp
    moreover have "0 \<le> jitter div 2" "jitter div 2 + jitter div 2 \<le> jitter" using j[OF False] by auto
    ultimately show ?thesis using assms j[OF False] c unfolding u
      by (auto simp: min_def max_def split: if_splits)
  qed
  then show "now \<le> earliest" "earliest \<le> latest" "latest \<le> retryCutoff now v"
    "latest - earliest \<le> retryFinalJitter"
    unfolding cutoff_def by simp_all
qed

section \<open>Reserving slots\<close>

lemma latestMissed_ok:
  assumes "0 \<le> slot" "slot < int (length slots)"
  shows "\<exists>k. latestMissed slots now slot = Inr k \<and> slot \<le> k \<and> k < int (length slots)
    \<and> (k = slot \<or> slots ! nat k \<le> now)"
  using assms
proof (induction slots now slot rule: latestMissed.induct)
  case (1 slots now slot)
  show ?case
  proof (cases "slot + 1 < int (length slots) \<and> slots ! nat (slot + 1) \<le> now")
    case True
    then have e: "latestMissed slots now slot = latestMissed slots now (slot + 1)"
      using 1(2) by (subst latestMissed.simps) (simp add: goIndex_def)
    have "\<exists>k. latestMissed slots now (slot + 1) = Inr k \<and> slot + 1 \<le> k \<and> k < int (length slots)
        \<and> (k = slot + 1 \<or> slots ! nat k \<le> now)"
      using True 1(2) by (intro 1(1)) (auto simp: goIndex_def)
    then show ?thesis using True unfolding e by force
  next
    case False
    then have "latestMissed slots now slot = Inr slot"
      using 1(2) by (subst latestMissed.simps) (auto simp: goIndex_def)
    then show ?thesis using 1(3) by simp
  qed
qed

text \<open>No index is out of range, and a slot is handed out only when its time has come.\<close>

lemma due_ok:
  assumes "0 \<le> NextSlot s"
  obtains slot t where "due s now v = Inr (slot, t)"
    "0 \<le> slot \<Longrightarrow> NextSlot s \<le> slot \<and> slot < int (length (retryTimes (FirstAttempt s) (FinalAttempt s)))
       \<and> FirstAttempt s \<le> now \<and> now \<le> retryCutoff (FirstAttempt s) v
       \<and> (LastAttempt s = zeroTime \<or> LastAttempt s + retryMinSpacing \<le> now)"
proof -
  define slots where "slots = retryTimes (FirstAttempt s) (FinalAttempt s)"
  define cutoff where "cutoff = retryCutoff (FirstAttempt s) v"
  show ?thesis
  proof (cases "NextSlot s \<ge> int (length slots) \<or> now > cutoff")
    case True
    then have "due s now v = Inr (- 1, zeroTime)"
      by (simp add: due_def Let_def slots_def cutoff_def)
    then show ?thesis using that by simp
  next
    case False
    then obtain k where k: "latestMissed slots now (NextSlot s) = Inr k" "NextSlot s \<le> k" "k < int (length slots)"
      using latestMissed_ok[of "NextSlot s" slots now] assms by auto
    define t where "t = slots ! nat k"
    define u where "u = (if LastAttempt s \<noteq> zeroTime \<and> t < LastAttempt s + retryMinSpacing
      then LastAttempt s + retryMinSpacing else t)"
    have d: "due s now v = (if u > cutoff then Inr (- 1, zeroTime) else if u > now then Inr (- 1, u) else Inr (k, u))"
      unfolding due_def Let_def slots_def[symmetric] cutoff_def[symmetric] using False k assms
      by (auto simp: goIndex_def u_def t_def)
    have "FirstAttempt s \<le> t" unfolding t_def slots_def
      by (rule retryTimes_facts(5)) (use k assms in \<open>simp add: slots_def[symmetric] nat_less_iff\<close>)
    then have "FirstAttempt s \<le> u" "LastAttempt s = zeroTime \<or> LastAttempt s + retryMinSpacing \<le> u"
      by (auto simp: u_def)
    then show ?thesis using d False k that unfolding slots_def[symmetric] cutoff_def[symmetric]
      by (cases "u > cutoff"; cases "u > now") auto
  qed
qed

text \<open>Any sequence of reservations under one schedule, each at some time and block height.\<close>

inductive claims :: "u64 \<Rightarrow> retryState \<Rightarrow> (time \<times> u64) list \<Rightarrow> retryState \<Rightarrow> bool" for v where
  none: "claims v s [] s"
| more: "claimSlot previousAttempts now v h s = Inr (Claimed s') \<Longrightarrow> 0 \<le> previousAttempts \<Longrightarrow>
    claims v s' ts s'' \<Longrightarrow> claims v s ((now, h) # ts) s''"

definition scheduleOK :: "retryState \<Rightarrow> u64 \<Rightarrow> bool" where
  "scheduleOK s v \<longleftrightarrow> zeroTime < FirstAttempt s \<and> FirstAttempt s \<le> FinalAttempt s \<and>
     FinalAttempt s \<le> retryCutoff (FirstAttempt s) v \<and> 0 \<le> NextSlot s \<and>
     NextSlot s \<le> int (length (retryTimes (FirstAttempt s) (FinalAttempt s)))"

lemma scheduleOK_decodes:
  "scheduleOK s v \<Longrightarrow> raw \<noteq> [] \<Longrightarrow> J raw = Some s \<Longrightarrow> decodeRetryState J raw v = Inr (Some s)"
  by (auto simp: scheduleOK_def decodeRetryState_def failIfR_def)

lemma decoded_scheduleOK:
  "decodeRetryState J raw v = Inr (Some s) \<Longrightarrow> zeroTime < FirstAttempt s \<Longrightarrow> scheduleOK s v"
  by (auto simp: scheduleOK_def decodeRetryState_def split: option.splits if_splits)

lemma claimSlot_Claimed:
  assumes "claimSlot prev now v h s = Inr (Claimed s')" "0 \<le> prev" "scheduleOK s v"
  shows "scheduleOK s' v" "FirstAttempt s' = FirstAttempt s" "FinalAttempt s' = FinalAttempt s"
    "NextSlot s + 1 \<le> NextSlot s'" "LastAttempt s' = now" "LastHeight s' = h" "LastHeight s < h"
    "FirstAttempt s \<le> now" "now \<le> retryCutoff (FirstAttempt s) v"
    "LastAttempt s = zeroTime \<or> LastAttempt s + retryMinSpacing \<le> now"
proof -
  have n: "0 \<le> NextSlot s" using assms(3) by (simp add: scheduleOK_def)
  obtain slot t where d: "due s now v = Inr (slot, t)" and
    i: "0 \<le> slot \<Longrightarrow> NextSlot s \<le> slot \<and> slot < int (length (retryTimes (FirstAttempt s) (FinalAttempt s)))
       \<and> FirstAttempt s \<le> now \<and> now \<le> retryCutoff (FirstAttempt s) v
       \<and> (LastAttempt s = zeroTime \<or> LastAttempt s + retryMinSpacing \<le> now)"
    using due_ok[OF n] by blast
  have c: "0 \<le> slot" "LastHeight s < h" and s': "s' = s\<lparr>
      NextSlot := min (slot + 1 + prev) (int (length (retryTimes (FirstAttempt s) (FinalAttempt s)))),
      LastAttempt := now, LastHeight := h\<rparr>"
    using assms(1) by (auto simp: claimSlot_def d split: if_splits)
  show "scheduleOK s' v" "FirstAttempt s' = FirstAttempt s" "FinalAttempt s' = FinalAttempt s"
    "NextSlot s + 1 \<le> NextSlot s'" "LastAttempt s' = now" "LastHeight s' = h" "LastHeight s < h"
    using i[OF c(1)] c assms(2,3) n by (auto simp: s' scheduleOK_def)
  show "FirstAttempt s \<le> now" "now \<le> retryCutoff (FirstAttempt s) v"
    "LastAttempt s = zeroTime \<or> LastAttempt s + retryMinSpacing \<le> now"
    using i[OF c(1)] by simp_all
qed

lemma claims_bounded:
  assumes "claims v s ts s'" "scheduleOK s v"
  shows "scheduleOK s' v \<and> FirstAttempt s' = FirstAttempt s \<and> NextSlot s + int (length ts) \<le> NextSlot s'
    \<and> FinalAttempt s' = FinalAttempt s \<and> spaced (map fst ts) \<and> successively (<) (map snd ts)
    \<and> (\<forall>t \<in> set ts. FirstAttempt s \<le> fst t \<and> fst t \<le> retryCutoff (FirstAttempt s) v)
    \<and> (ts \<noteq> [] \<longrightarrow> LastHeight s < snd (hd ts) \<and>
         (LastAttempt s = zeroTime \<or> LastAttempt s + retryMinSpacing \<le> fst (hd ts)))"
  using assms
proof (induction rule: claims.induct)
  case (more previousAttempts now h s s' ts s'')
  note c = claimSlot_Claimed[OF more.hyps(1,2) more.prems]
  note IH = more.IH[OF c(1)]
  have "now \<noteq> zeroTime" using c(8) more.prems by (auto simp: scheduleOK_def)
  then show ?case using IH c by (cases ts) (auto simp: successively_Cons)
qed simp

text \<open>
  C39. Whatever the order and the times of the attempts, one persisted schedule lets a share
  be proved at most five times. The attempts are at least ten seconds apart, use strictly
  increasing block heights and lie between the first attempt and the cutoff, which is at most
  48 hours later and, unless it is the first attempt itself, at least thirty seconds before
  the deadline. The progress left behind is always accepted when it is read back.
\<close>

theorem proof_attempts_bounded:
  assumes "decodeRetryState J raw v = Inr (Some s)" "zeroTime < FirstAttempt s" "claims v s ts s'"
  shows "length ts \<le> 5 \<and> spaced (map fst ts) \<and> successively (<) (map snd ts)
    \<and> (\<forall>t \<in> set ts. FirstAttempt s \<le> fst t \<and> fst t \<le> FirstAttempt s + retryMaxDuration
         \<and> (fst t = FirstAttempt s \<or> fst t + retryMinBuffer \<le> unixTime v))
    \<and> (\<forall>raw'. raw' \<noteq> [] \<longrightarrow> J raw' = Some s' \<longrightarrow> decodeRetryState J raw' v = Inr (Some s'))"
proof -
  note ok = decoded_scheduleOK[OF assms(1,2)]
  note c = claims_bounded[OF assms(3) ok]
  have "int (length ts) \<le> 5"
    using c ok retryTimes_facts(2)[of "FirstAttempt s" "FinalAttempt s"] by (auto simp: scheduleOK_def)
  moreover have "fst t \<le> FirstAttempt s + retryMaxDuration \<and> (fst t = FirstAttempt s \<or> fst t + retryMinBuffer \<le> unixTime v)"
    if "FirstAttempt s \<le> fst t" "fst t \<le> retryCutoff (FirstAttempt s) v" for t :: "time \<times> u64"
    using that retryCutoff_bounds[of "FirstAttempt s" v] by (cases "retryCutoff (FirstAttempt s) v = FirstAttempt s") auto
  ultimately show ?thesis using c scheduleOK_decodes by auto
qed

text \<open>A share of a one-day round tried at once and again eleven minutes later.\<close>

definition sampleSchedule :: retryState where
  "sampleSchedule = \<lparr>FirstAttempt = 1700000000 * Second, FinalAttempt = 1700050000 * Second,
     NextSlot = 0, LastAttempt = zeroTime, LastHeight = 0\<rparr>"

lemma sampleSchedule_claims:
  "claims 1700086400 sampleSchedule [(1700000000 * Second, 7), (1700000660 * Second, 9)]
     (sampleSchedule\<lparr>NextSlot := 3, LastAttempt := 1700000660 * Second, LastHeight := 9\<rparr>)"
proof (rule claims.more[where previousAttempts = 0 and s' = "sampleSchedule\<lparr>NextSlot := 1,
    LastAttempt := 1700000000 * Second, LastHeight := 7\<rparr>"])
  show "claimSlot 0 (1700000000 * Second) 1700086400 7 sampleSchedule =
    Inr (Claimed (sampleSchedule\<lparr>NextSlot := 1, LastAttempt := 1700000000 * Second, LastHeight := 7\<rparr>))"
    by code_simp
  show "claims 1700086400 (sampleSchedule\<lparr>NextSlot := 1, LastAttempt := 1700000000 * Second, LastHeight := 7\<rparr>)
    [(1700000660 * Second, 9)] (sampleSchedule\<lparr>NextSlot := 3, LastAttempt := 1700000660 * Second, LastHeight := 9\<rparr>)"
  proof (rule claims.more[where previousAttempts = 0, OF _ _ claims.none])
    show "claimSlot 0 (1700000660 * Second) 1700086400 9 (sampleSchedule\<lparr>NextSlot := 1,
        LastAttempt := 1700000000 * Second, LastHeight := 7\<rparr>) =
      Inr (Claimed (sampleSchedule\<lparr>NextSlot := 3, LastAttempt := 1700000660 * Second, LastHeight := 9\<rparr>))"
      by code_simp
  qed simp
qed simp

theorem proof_attempts_bounded_witness:
  "length [(1700000000 * Second, 7 :: u64), (1700000660 * Second, 9)] \<le> 5 \<and>
   decodeRetryState (\<lambda>_. Some (sampleSchedule\<lparr>NextSlot := 3, LastAttempt := 1700000660 * Second, LastHeight := 9\<rparr>))
     [1] 1700086400 \<noteq> Inr None"
proof -
  define J :: "gostring \<Rightarrow> retryState option" where "J = (\<lambda>r. if r = [0] then Some sampleSchedule
    else Some (sampleSchedule\<lparr>NextSlot := 3, LastAttempt := 1700000660 * Second, LastHeight := 9\<rparr>))"
  have "decodeRetryState (\<lambda>_. Some sampleSchedule) [0] 1700086400 = Inr (Some sampleSchedule)" by code_simp
  then have "decodeRetryState J [0] 1700086400 = Inr (Some sampleSchedule)" by (simp add: decodeRetryState_def J_def)
  from proof_attempts_bounded[OF this _ sampleSchedule_claims] have "decodeRetryState J [1] 1700086400 =
     Inr (Some (sampleSchedule\<lparr>NextSlot := 3, LastAttempt := 1700000660 * Second, LastHeight := 9\<rparr>))"
    by (simp add: J_def sampleSchedule_def zeroTime_def Second_def)
  then show ?thesis by (simp add: decodeRetryState_def J_def failIfR_def split: if_splits)
qed

section \<open>A fresh schedule\<close>

lemma sint_small: "0 \<le> x \<Longrightarrow> x < 2 ^ 63 \<Longrightarrow> sint (word_of_int x :: u64) = x"
  by (simp add: sint_sbintrunc' signed_take_bit_int_eq_self)

lemma newRetryState_ok:
  assumes "\<And>n. 0 < n \<Longrightarrow> 0 \<le> Int64N n \<and> Int64N n < n" "zeroTime < now"
  obtains s where "newRetryState Int64N now c v = Inr s" "scheduleOK s v" "FirstAttempt s = now"
    "NextSlot s = 0" "LastHeight s = 0" "LastAttempt s = zeroTime"
proof -
  obtain e l where w: "finalRetryWindow now c v = (e, l)" by fastforce
  note b = finalRetryWindow_bounds[OF w]
  have sub: "timeSub l e = l - e" using b unfolding timeSub_def durations by auto
  have "(word_of_int (l - e) :: u64) + 1 = word_of_int (l - e + 1)" by simp
  then have n: "sint ((word_of_int (timeSub l e) :: u64) + 1) = l - e + 1"
    unfolding sub using sint_small[of "l - e + 1"] b by (simp add: durations del: of_int_add of_int_diff)
  have r: "0 \<le> Int64N (l - e + 1)" "Int64N (l - e + 1) < l - e + 1" using assms(1)[of "l - e + 1"] b by auto
  have "newRetryState Int64N now c v = Inr \<lparr>FirstAttempt = now, FinalAttempt = e + Int64N (l - e + 1), NextSlot = 0,
     LastAttempt = zeroTime, LastHeight = 0\<rparr>" (is "_ = Inr ?s")
    using b by (simp add: newRetryState_def w n Let_def)
  moreover have "scheduleOK ?s v" using r b assms(2) by (auto simp: scheduleOK_def)
  ultimately show ?thesis using that by simp
qed

text \<open>The first attempt of a fresh schedule is due at once.\<close>

lemma fresh_due:
  assumes "scheduleOK s v" "NextSlot s = 0" "LastAttempt s = zeroTime"
  shows "due s (FirstAttempt s) v = Inr (0, FirstAttempt s)"
proof -
  define slots where "slots = retryTimes (FirstAttempt s) (FinalAttempt s)"
  have f: "1 \<le> length slots" "slots ! 0 = FirstAttempt s" "spaced slots"
    using retryTimes_facts by (simp_all add: slots_def)
  have "0 < retryMinSpacing" by (simp add: durations)
  then have "1 < length slots \<Longrightarrow> FirstAttempt s < slots ! 1" using spaced_less[OF f(3), of 0 1] f(2) by simp
  then have "latestMissed slots (FirstAttempt s) 0 = Inr 0"
    by (subst latestMissed.simps) (auto simp: goIndex_def)
  moreover have "goIndex slots 0 = Inr (FirstAttempt s)" using f(1,2) by (auto simp: goIndex_def)
  moreover have "FirstAttempt s \<le> retryCutoff (FirstAttempt s) v" by (rule retryCutoff_bounds)
  ultimately show ?thesis using assms f(1) unfolding due_def Let_def slots_def[symmetric] by auto
qed

section \<open>Polling times\<close>

lemma nextSharePollTime_future: "0 < backoff \<Longrightarrow> now < nextSharePollTime now v backoff"
  by (auto simp: nextSharePollTime_def Let_def durations)

lemma nextSharePollTime_soon:
  assumes "0 < backoff" "backoff \<le> shareStalledRetryMaxBackoff"
  shows "nextSharePollTime now v backoff \<le> now + shareStalledRetryMaxBackoff"
  using assms by (auto simp: nextSharePollTime_def Let_def durations)

text \<open>A share is never left asleep past the start of the last thirty seconds.\<close>

lemma nextSharePollTime_wakes:
  "v \<noteq> 0 \<Longrightarrow> now < unixTime v - shareSystemRetryDeadlineBuffer \<Longrightarrow>
   nextSharePollTime now v backoff \<le> unixTime v - shareSystemRetryDeadlineBuffer"
  by (auto simp: nextSharePollTime_def Let_def timeSub_def durations)

lemma stalledBackoff_pos: "0 < backoff \<Longrightarrow> 0 < stalledBackoff retry retryCount backoff"
  by (induction retry retryCount backoff rule: stalledBackoff.induct) (subst stalledBackoff.simps, simp)

lemma scheduleSecond_le: "scheduleSecond t \<le> t" "t < scheduleSecond t + Second"
  by (simp_all add: scheduleSecond_def unixSeconds_def Second_def)

lemma scheduleRetryTime_future: "now < t \<Longrightarrow> now < scheduleRetryTime now t"
  by (simp add: scheduleRetryTime_def Let_def)

lemma scheduleRetryTime_le: "scheduleRetryTime now t \<le> t"
  using scheduleSecond_le(1)[of t] by (simp add: scheduleRetryTime_def Let_def)

lemma retry_poll_future:
  "now < nextShareSystemRetryTime now v" "now < nextShareStalledRetryTime now v retryCount"
  "nextShareSystemRetryTime now v \<le> now + shareStalledRetryMaxBackoff"
  "nextShareStalledRetryTime now v retryCount \<le> now + shareStalledRetryMaxBackoff"
proof -
  have b: "0 < stalledBackoff 1 retryCount shareSystemRetryBackoff"
    by (rule stalledBackoff_pos) (simp add: durations)
  show "now < nextShareSystemRetryTime now v" unfolding nextShareSystemRetryTime_def
    by (rule nextSharePollTime_future) (simp add: durations)
  show "nextShareSystemRetryTime now v \<le> now + shareStalledRetryMaxBackoff" unfolding nextShareSystemRetryTime_def
    by (rule nextSharePollTime_soon) (simp_all add: durations)
  show "now < nextShareStalledRetryTime now v retryCount" unfolding nextShareStalledRetryTime_def Let_def
    by (rule nextSharePollTime_future) (use b in \<open>simp add: durations\<close>)
  show "nextShareStalledRetryTime now v retryCount \<le> now + shareStalledRetryMaxBackoff"
    unfolding nextShareStalledRetryTime_def Let_def
    by (rule nextSharePollTime_soon) (use b in \<open>simp_all add: durations\<close>)
qed

end
