(* ===== verification/Share_Queue.thy ===== *)
theory Share_Queue
  imports Retry_Schedule Keeper_Rounds "HOL-Library.AList" "HOL-Library.Product_Lexorder"
begin

text \<open>
  The share queue of the helper server: \<^verbatim>\<open>src/internal/helper/store.go\<close>. Shares wait in
  a SQLite table until their time comes; a map from schedule keys to times and a map of the
  shares owned by workers exist in memory only.

  A SQL statement of the source is a function on the table, an association list in the order
  of insertion. A statement can fail at any call: \<open>db\<close> says for each statement and row
  whether it is done, fails without effect (\<open>NotDone\<close>) or takes effect and reports an error
  while its result is read (\<open>DoneUnknown\<close>). A stored cell holds a 64-bit
  integer, a text or a blob whatever the column says, as SQLite allows, and is decoded as the
  source does; the driver's refusal of unsigned values above the signed range is one of the
  failures of \<open>db\<close>. The JSON
  encodings, the keyed hash that breaks ties and SQLite's arithmetic on cells are fields of
  the parameter \<open>E\<close>. Every method holds the store's mutex, so that its body is one step; the
  clock is read once per step. Go iterates a map in any order: the model uses the order of
  its list, on which no theorem depends.

  The lemmas about the operations are in the theory \<open>Queue_Invariant\<close>.
\<close>

section \<open>Keys\<close>

text \<open>The primary key of a row.\<close>

datatype shareKey = ShareKey (k_round: gostring) (k_index: u32) (k_proposal: u32) (k_position: u64)

definition colon :: u8 where "colon = 58"

definition schedKey :: "shareKey \<Rightarrow> gostring" where
  "schedKey k = (case k of ShareKey roundID shareIndex proposalID treePosition \<Rightarrow>
     roundID @ [colon] @ fmtNat (unat shareIndex) @ [colon] @ fmtNat (unat proposalID) @ [colon] @
     fmtNat (unat treePosition))"

text \<open>\<^verbatim>\<open>strings.Cut\<close> and \<^verbatim>\<open>strings.SplitN\<close> at a colon, \<^verbatim>\<open>strconv.ParseUint\<close> in base ten.\<close>

fun cutColon :: "gostring \<Rightarrow> (gostring \<times> gostring) option" where
  "cutColon [] = None"
| "cutColon (c # cs) = (if c = colon then Some ([], cs)
     else case cutColon cs of None \<Rightarrow> None | Some (a, b) \<Rightarrow> Some (c # a, b))"

fun splitN :: "gostring \<Rightarrow> nat \<Rightarrow> gostring list" where
  "splitN s 0 = []"
| "splitN s (Suc 0) = [s]"
| "splitN s (Suc (Suc n)) = (case cutColon s of None \<Rightarrow> [s] | Some (a, b) \<Rightarrow> a # splitN b (Suc n))"

definition isDigit :: "u8 \<Rightarrow> bool" where "isDigit c \<longleftrightarrow> 48 \<le> c \<and> c \<le> 57"

definition decimal :: "gostring \<Rightarrow> int" where
  "decimal s = foldl (\<lambda>n c. 10 * n + (uint c - 48)) 0 s"

definition ParseUint :: "gostring \<Rightarrow> nat \<Rightarrow> int option" where
  "ParseUint s bits =
     (if s = [] \<or> \<not> list_all isDigit s \<or> decimal s \<ge> 2 ^ bits then None else Some (decimal s))"

definition parseKey :: "gostring \<Rightarrow> shareKey option" where
  "parseKey key =
     (case splitN key 4 of
        [roundID, idx, pid, pos] \<Rightarrow>
          (case ParseUint idx 32 of None \<Rightarrow> None | Some i \<Rightarrow>
           case ParseUint pid 32 of None \<Rightarrow> None | Some p \<Rightarrow>
           case ParseUint pos 64 of None \<Rightarrow> None | Some t \<Rightarrow>
             Some (ShareKey roundID (word_of_int i) (word_of_int p) (word_of_int t)))
      | _ \<Rightarrow> None)"

section \<open>The store\<close>

record EncryptedShareWire =
  es_C1 :: gostring
  es_C2 :: gostring
  es_ShareIndex :: u32

record SharePayload =
  sp_SharesHash :: gostring
  sp_ProposalID :: u32
  sp_VoteDecision :: u32
  sp_EncShare :: EncryptedShareWire
  sp_TreePosition :: u64
  sp_VoteRoundID :: gostring
  sp_ShareComms :: "gostring list"
  sp_PrimaryBlind :: gostring
  sp_SubmitAt :: u64

definition payloadKey :: "SharePayload \<Rightarrow> shareKey" where
  "payloadKey p = ShareKey (sp_VoteRoundID p) (es_ShareIndex (sp_EncShare p)) (sp_ProposalID p) (sp_TreePosition p)"

datatype ShareState = ShareStateReceived | ShareStateWitnessed | ShareStateSubmitted | ShareStateFailed

record QueuedShare =
  qs_retryState :: gostring
  qs_attemptID :: u64
  qs_Payload :: SharePayload
  qs_State :: ShareState
  qs_Attempts :: int
  qs_VoteEndTime :: u64

record RoundInfo =
  ri_CreatedAtTime :: u64
  ri_VoteEndTime :: u64

datatype cell = IntC "64 word" | TextC gostring | BlobC bytes

record shareRow =
  r_shares_hash :: cell
  r_vote_decision :: cell
  r_enc_share_c1 :: cell
  r_enc_share_c2 :: cell
  r_share_comms :: cell
  r_primary_blind :: cell
  r_state :: cell
  r_attempts :: cell
  r_vote_end_time :: cell
  r_submit_at :: cell
  r_original_submit_at :: cell
  r_received_at :: cell
  r_retry_state :: cell

record inFlightShare =
  if_roundID :: gostring
  if_voteEndTime :: u64
  if_attemptID :: u64

record shareStore =
  q_shares :: "(shareKey \<times> shareRow) list"
  q_rounds :: "(gostring \<times> RoundInfo) list"
  q_schedule :: "(gostring \<times> time) list"
  q_inFlight :: "(gostring \<times> inFlightShare) list"
  q_nextAttemptID :: u64
  q_lastReadyRound :: gostring
  q_dequeueRetryUntil :: time
  q_scheduleChanged :: bool
  q_roundCache :: "(gostring \<times> RoundInfo) list"

record queueEnv =
  commsEncode :: "gostring list \<Rightarrow> gostring"
  commsDecode :: "gostring \<Rightarrow> gostring list option"
  retryEncode :: "retryState \<Rightarrow> gostring option"
  retryDecode :: "gostring \<Rightarrow> retryState option"
  scheduleRank :: "gostring \<Rightarrow> bytes"
  sqlNumber :: "cell \<Rightarrow> int"

datatype dbStatement = OpInsert | OpLoad | OpState | OpReplace | OpFail | OpSubmit | OpRetryState
  | OpAttempt | OpReserve | OpRounds | OpPurge | OpImport

datatype dbOutcome = Done | NotDone | DoneUnknown

type_synonym database = "dbStatement \<Rightarrow> shareKey \<Rightarrow> dbOutcome"

datatype queueErr = ErrUnknownRound | ErrInvalidSubmitAt | ErrInvalidRoundInfo | StoreErr

datatype EnqueueResult = EnqueueInserted | EnqueueDuplicate | EnqueueConflict

definition updateRow :: "shareKey \<Rightarrow> (shareRow \<Rightarrow> shareRow) \<Rightarrow> (shareKey \<times> shareRow) list \<Rightarrow> (shareKey \<times> shareRow) list" where
  "updateRow k f rows = map (\<lambda>(k', r). (k', if k' = k then f r else r)) rows"

definition notifyScheduleChangedLocked :: "shareStore \<Rightarrow> shareStore" where
  "notifyScheduleChangedLocked st = st\<lparr>q_scheduleChanged := True\<rparr>"

definition setSchedule :: "gostring \<Rightarrow> time \<Rightarrow> shareStore \<Rightarrow> shareStore" where
  "setSchedule key t st = st\<lparr>q_schedule := AList.update key t (q_schedule st)\<rparr>"

definition unschedule :: "gostring \<Rightarrow> shareStore \<Rightarrow> shareStore" where
  "unschedule key st = st\<lparr>q_schedule := AList.delete key (q_schedule st)\<rparr>"

definition disown :: "gostring \<Rightarrow> shareStore \<Rightarrow> shareStore" where
  "disown key st = st\<lparr>q_inFlight := AList.delete key (q_inFlight st)\<rparr>"

section \<open>Reading rows\<close>

datatype loadErr = NoRows | CorruptRow | DBErr

fun bindS :: "'e + 'a \<Rightarrow> ('a \<Rightarrow> 'e + 'b) \<Rightarrow> 'e + 'b" where
  "bindS (Inl e) f = Inl e"
| "bindS (Inr a) f = f a"

fun decodeRowText :: "cell \<Rightarrow> loadErr + gostring" where
  "decodeRowText (TextC s) = Inr s"
| "decodeRowText (BlobC b) = Inr b"
| "decodeRowText (IntC _) = Inl CorruptRow"

fun decodeRowUint64 :: "cell \<Rightarrow> loadErr + u64" where
  "decodeRowUint64 (IntC n) = (if sint n \<ge> 0 then Inr n else Inl CorruptRow)"
| "decodeRowUint64 _ = Inl CorruptRow"

definition decodeRowInt :: "cell \<Rightarrow> loadErr + int" where
  "decodeRowInt c = bindS (decodeRowUint64 c) (\<lambda>integer.
     if uint integer > 2 ^ 63 - 1 then Inl CorruptRow else Inr (uint integer))"

definition decodeRowUint32 :: "cell \<Rightarrow> loadErr + u32" where
  "decodeRowUint32 c = bindS (decodeRowUint64 c) (\<lambda>integer.
     if uint integer > 2 ^ 32 - 1 then Inl CorruptRow else Inr (ucast integer))"

definition shareStateOf :: "int \<Rightarrow> loadErr + ShareState" where
  "shareStateOf n =
     (if n = 0 then Inr ShareStateReceived else if n = 1 then Inr ShareStateWitnessed
      else if n = 2 then Inr ShareStateSubmitted else if n = 3 then Inr ShareStateFailed
      else Inl CorruptRow)"

definition decodeRow :: "queueEnv \<Rightarrow> shareKey \<Rightarrow> shareRow \<Rightarrow> loadErr + QueuedShare" where
  "decodeRow E k row = (case k of ShareKey roundID shareIndex proposalID treePosition \<Rightarrow>
     bindS (decodeRowText (r_shares_hash row)) (\<lambda>sharesHash.
     bindS (decodeRowUint32 (r_vote_decision row)) (\<lambda>voteDecision.
     bindS (decodeRowText (r_enc_share_c1 row)) (\<lambda>c1.
     bindS (decodeRowText (r_enc_share_c2 row)) (\<lambda>c2.
     bindS (decodeRowText (r_share_comms row)) (\<lambda>commsText.
     bindS (decodeRowText (r_primary_blind row)) (\<lambda>primaryBlind.
     bindS (decodeRowInt (r_state row)) (\<lambda>state.
     bindS (shareStateOf state) (\<lambda>shareState.
     bindS (decodeRowInt (r_attempts row)) (\<lambda>attempts.
     bindS (decodeRowUint64 (r_vote_end_time row)) (\<lambda>voteEndTime.
     bindS (decodeRowUint64 (r_submit_at row)) (\<lambda>submitAt.
     bindS (decodeRowText (r_retry_state row)) (\<lambda>retry.
     case commsDecode E commsText of
       None \<Rightarrow> Inl CorruptRow
     | Some comms \<Rightarrow>
         Inr \<lparr>qs_retryState = retry, qs_attemptID = 0,
              qs_Payload = \<lparr>sp_SharesHash = sharesHash, sp_ProposalID = proposalID,
                sp_VoteDecision = voteDecision,
                sp_EncShare = \<lparr>es_C1 = c1, es_C2 = c2, es_ShareIndex = shareIndex\<rparr>,
                sp_TreePosition = treePosition, sp_VoteRoundID = roundID, sp_ShareComms = comms,
                sp_PrimaryBlind = primaryBlind, sp_SubmitAt = submitAt\<rparr>,
              qs_State = shareState, qs_Attempts = attempts, qs_VoteEndTime = voteEndTime\<rparr>)))))))))))))"

definition loadShareFrom :: "queueEnv \<Rightarrow> database \<Rightarrow> shareKey \<Rightarrow> shareStore \<Rightarrow> loadErr + QueuedShare" where
  "loadShareFrom E db k st =
     (if db OpLoad k \<noteq> Done then Inl DBErr
      else case map_of (q_shares st) k of None \<Rightarrow> Inl NoRows | Some row \<Rightarrow> decodeRow E k row)"

definition payloadEqual :: "SharePayload \<Rightarrow> SharePayload \<Rightarrow> bool" where
  "payloadEqual existing incoming \<longleftrightarrow>
     sp_VoteRoundID existing = sp_VoteRoundID incoming \<and> sp_SharesHash existing = sp_SharesHash incoming \<and>
     sp_ProposalID existing = sp_ProposalID incoming \<and> sp_VoteDecision existing = sp_VoteDecision incoming \<and>
     sp_EncShare existing = sp_EncShare incoming \<and> sp_TreePosition existing = sp_TreePosition incoming \<and>
     sp_ShareComms existing = sp_ShareComms incoming \<and> sp_PrimaryBlind existing = sp_PrimaryBlind incoming"

section \<open>Round metadata\<close>

text \<open>
  \<^verbatim>\<open>getRoundInfo\<close> releases the mutex while it asks the chain: first the lookup, then
  the fetch, then the cache update, which keeps what another request has stored meanwhile.
  \<open>fetch\<close> is the configured fetcher, if any.
\<close>

type_synonym fetcher = "(gostring \<Rightarrow> queueErr + RoundInfo) option"

definition cachedRoundInfo :: "fetcher \<Rightarrow> database \<Rightarrow> gostring \<Rightarrow> shareStore \<Rightarrow> RoundInfo option \<times> shareStore" where
  "cachedRoundInfo fetch db roundID st =
     (let usable = (\<lambda>info. case info of None \<Rightarrow> None
            | Some i \<Rightarrow> if ri_CreatedAtTime i \<noteq> 0 \<or> fetch = None then Some i else None) in
      case usable (map_of (q_roundCache st) roundID) of
        Some info \<Rightarrow> (Some info, st)
      | None \<Rightarrow>
          (case usable (if db OpRounds (ShareKey roundID 0 0 0) = Done then map_of (q_rounds st) roundID else None) of
             Some info \<Rightarrow> (Some info, st\<lparr>q_roundCache := AList.update roundID info (q_roundCache st)\<rparr>)
           | None \<Rightarrow> (None, st)))"

definition cacheFetchedRoundInfo :: "database \<Rightarrow> gostring \<Rightarrow> RoundInfo \<Rightarrow> shareStore \<Rightarrow> RoundInfo \<times> shareStore" where
  "cacheFetchedRoundInfo db roundID info st =
     (let fill = (info, st\<lparr>q_roundCache := AList.update roundID info (q_roundCache st),
                 q_rounds := (if db OpRounds (ShareKey roundID 1 0 0) = NotDone then q_rounds st
                              else AList.update roundID info (q_rounds st))\<rparr>) in
      case map_of (q_roundCache st) roundID of
        Some cached \<Rightarrow> if ri_CreatedAtTime cached \<noteq> 0 then (cached, st) else fill
      | None \<Rightarrow> fill)"

definition getRoundInfo :: "fetcher \<Rightarrow> database \<Rightarrow> gostring \<Rightarrow> shareStore \<Rightarrow> (queueErr + RoundInfo) \<times> shareStore" where
  "getRoundInfo fetch db roundID st =
     (case cachedRoundInfo fetch db roundID st of
        (Some info, st) \<Rightarrow> (Inr info, st)
      | (None, st) \<Rightarrow>
          (case fetch of
             None \<Rightarrow> (Inl ErrUnknownRound, st)
           | Some f \<Rightarrow>
               (case f roundID of
                  Inl e \<Rightarrow> (Inl e, st)
                | Inr info \<Rightarrow> (case cacheFetchedRoundInfo db roundID info st of (info, st) \<Rightarrow> (Inr info, st)))))"

section \<open>Admission\<close>

definition validSubmitAt :: "SharePayload \<Rightarrow> RoundInfo \<Rightarrow> bool" where
  "validSubmitAt p info \<longleftrightarrow> \<not> (sp_SubmitAt p \<noteq> 0 \<and> sp_SubmitAt p \<ge> ri_VoteEndTime info)"

definition effectiveSubmitAt :: "time \<Rightarrow> SharePayload \<Rightarrow> RoundInfo \<Rightarrow> u64" where
  "effectiveSubmitAt arrival p info =
     (let receivedAt = word_of_int (unixSeconds arrival) in
      if sp_SubmitAt p \<noteq> 0 \<and> sp_SubmitAt p < receivedAt \<and> receivedAt < ri_VoteEndTime info
      then receivedAt else sp_SubmitAt p)"

definition submitTime :: "time \<Rightarrow> SharePayload \<Rightarrow> RoundInfo \<Rightarrow> time" where
  "submitTime arrival p info =
     (let e = effectiveSubmitAt arrival p info in if e \<noteq> 0 then unixTime e else scheduleSecond arrival)"

text \<open>The columns both the insertion and the repair of a row write.\<close>

definition payloadRow :: "queueEnv \<Rightarrow> time \<Rightarrow> SharePayload \<Rightarrow> RoundInfo \<Rightarrow> cell \<Rightarrow> shareRow" where
  "payloadRow E arrival p info retry =
     \<lparr>r_shares_hash = TextC (sp_SharesHash p), r_vote_decision = IntC (ucast (sp_VoteDecision p)),
      r_enc_share_c1 = TextC (es_C1 (sp_EncShare p)), r_enc_share_c2 = TextC (es_C2 (sp_EncShare p)),
      r_share_comms = TextC (commsEncode E (sp_ShareComms p)), r_primary_blind = TextC (sp_PrimaryBlind p),
      r_state = IntC 0, r_attempts = IntC 0, r_vote_end_time = IntC (ri_VoteEndTime info),
      r_submit_at = IntC (effectiveSubmitAt arrival p info),
      r_original_submit_at = IntC (sp_SubmitAt p),
      r_received_at = IntC (word_of_int (unixSeconds arrival)), r_retry_state = retry\<rparr>"

definition enqueueLocked :: "queueEnv \<Rightarrow> database \<Rightarrow> time \<Rightarrow> SharePayload \<Rightarrow> RoundInfo \<Rightarrow> shareStore \<Rightarrow>
    (queueErr + EnqueueResult) \<times> shareStore" where
  "enqueueLocked E db arrival p info st =
     (let k = payloadKey p; key = schedKey k in
      if db OpInsert k = NotDone then (Inl StoreErr, st)
      else
        let fresh = map_of (q_shares st) k = None;
            st = (if fresh then st\<lparr>q_shares := q_shares st @ [(k, payloadRow E arrival p info (TextC []))]\<rparr> else st) in
        if fresh \<and> db OpInsert k = Done
        then (Inr EnqueueInserted, notifyScheduleChangedLocked (setSchedule key (submitTime arrival p info) st))
        else (case loadShareFrom E db k st of
           Inr existing \<Rightarrow> (Inr (if payloadEqual (qs_Payload existing) p then EnqueueDuplicate else EnqueueConflict), st)
         | Inl NoRows \<Rightarrow> (Inl StoreErr, st)
         | Inl DBErr \<Rightarrow> (Inl StoreErr, st)
         | Inl CorruptRow \<Rightarrow>
             if map_of (q_inFlight st) key \<noteq> None then (Inr EnqueueDuplicate, st)
             else (case (if db OpState k \<noteq> Done then None else map_of (q_shares st) k) of
                None \<Rightarrow> (Inl StoreErr, st)
              | Some row \<Rightarrow>
                  (case decodeRowInt (r_state row) of
                     Inl _ \<Rightarrow> (Inr EnqueueConflict, st)
                   | Inr state \<Rightarrow>
                       if state = 2 then (Inr EnqueueDuplicate, st)
                       else if db OpReplace k = NotDone then (Inl StoreErr, st)
                       else
                         let st = st\<lparr>q_shares := updateRow k
                               (\<lambda>row. payloadRow E arrival p info (r_retry_state row)) (q_shares st)\<rparr> in
                         if db OpReplace k = DoneUnknown then (Inl StoreErr, st)
                         else (Inr EnqueueInserted,
                           notifyScheduleChangedLocked (setSchedule key (submitTime arrival p info) st))))))"

definition Enqueue :: "queueEnv \<Rightarrow> fetcher \<Rightarrow> database \<Rightarrow> time \<Rightarrow> SharePayload \<Rightarrow> shareStore \<Rightarrow>
    (queueErr + EnqueueResult) \<times> shareStore" where
  "Enqueue E fetch db arrival p st =
     (case getRoundInfo fetch db (sp_VoteRoundID p) st of
        (Inl e, st) \<Rightarrow> (Inl e, st)
      | (Inr info, st) \<Rightarrow>
          if \<not> validSubmitAt p info then (Inl ErrInvalidSubmitAt, st)
          else enqueueLocked E db arrival p info st)"

section \<open>Dispatch\<close>

definition NextScheduledTime :: "shareStore \<Rightarrow> time option" where
  "NextScheduledTime st =
     (let next = foldl (\<lambda>next (_, t). if next = zeroTime \<or> t < next then t else next) zeroTime (q_schedule st) in
      if next = zeroTime then None
      else if next < q_dequeueRetryUntil st then Some (q_dequeueRetryUntil st) else Some next)"

record readyCandidate =
  c_key :: gostring
  c_share :: shareKey
  c_scheduledAt :: time
  c_rank :: bytes

datatype entryClass = DropEntry | KeepEntry | ReadyEntry readyCandidate

definition classifyEntry :: "queueEnv \<Rightarrow> time \<Rightarrow> shareStore \<Rightarrow> gostring \<times> time \<Rightarrow> entryClass" where
  "classifyEntry E now st e = (case e of (key, scheduledAt) \<Rightarrow>
     if map_of (q_inFlight st) key \<noteq> None then DropEntry
     else if scheduledAt > now then KeepEntry
     else (case parseKey key of
        None \<Rightarrow> DropEntry
      | Some k \<Rightarrow> ReadyEntry \<lparr>c_key = key, c_share = k, c_scheduledAt = scheduledAt,
                                c_rank = scheduleRank E key\<rparr>))"

definition readyCandidates :: "queueEnv \<Rightarrow> time \<Rightarrow> shareStore \<Rightarrow> readyCandidate list" where
  "readyCandidates E now st =
     concat (map (\<lambda>e. case classifyEntry E now st e of ReadyEntry c \<Rightarrow> [c] | _ \<Rightarrow> []) (q_schedule st))"

definition pruneSchedule :: "queueEnv \<Rightarrow> time \<Rightarrow> shareStore \<Rightarrow> shareStore" where
  "pruneSchedule E now st =
     st\<lparr>q_schedule := filter (\<lambda>e. classifyEntry E now st e \<noteq> DropEntry) (q_schedule st)\<rparr>"

text \<open>
  The rounds with ready shares in the order they are served, each with its candidates by
  time and rank: the ring starts strictly after the round served last. In the source an
  index walks around the sorted rounds and another one along each round's candidates; here
  the head of the ring is the current round, and a round keeps the candidates it has left.
\<close>

type_synonym ring = "(gostring \<times> readyCandidate list) list"

definition readyRing :: "gostring \<Rightarrow> readyCandidate list \<Rightarrow> ring" where
  "readyRing lastReadyRound cands =
     (let roundIDs = sorted_list_of_set (set (map (k_round \<circ> c_share) cands));
          queue = (\<lambda>r. (r, sort_key (\<lambda>c. (c_scheduledAt c, c_rank c)) (filter (\<lambda>c. k_round (c_share c) = r) cands)));
          served = filter (\<lambda>r. r \<le> lastReadyRound) roundIDs;
          later = filter (\<lambda>r. \<not> r \<le> lastReadyRound) roundIDs in
      map queue (later @ served))"

definition backoffStoreLocked :: "time \<Rightarrow> shareStore \<Rightarrow> shareStore" where
  "backoffStoreLocked now st = st\<lparr>q_dequeueRetryUntil := now + shareSystemRetryBackoff\<rparr>"

definition failCorruptRow :: "queueEnv \<Rightarrow> shareRow \<Rightarrow> shareRow" where
  "failCorruptRow E row =
     (let scrub = (\<lambda>v c. if r_vote_end_time row = IntC 0 then TextC v else c) in
      row\<lparr>r_state := IntC 3, r_attempts := IntC (word_of_int (sqlNumber E (r_attempts row) + 1)),
          r_enc_share_c1 := scrub [] (r_enc_share_c1 row), r_enc_share_c2 := scrub [] (r_enc_share_c2 row),
          r_share_comms := scrub (str ''[]'') (r_share_comms row),
          r_primary_blind := scrub [] (r_primary_blind row)\<rparr>)"

definition failCorruptCandidateLocked :: "queueEnv \<Rightarrow> database \<Rightarrow> shareKey \<Rightarrow> gostring \<Rightarrow> shareStore \<Rightarrow> bool \<times> shareStore" where
  "failCorruptCandidateLocked E db k key st =
     (if db OpFail k = NotDone then (False, st)
      else
        let st = st\<lparr>q_shares := updateRow k (failCorruptRow E) (q_shares st)\<rparr> in
        if db OpFail k = DoneUnknown then (False, st)
        else (True, notifyScheduleChangedLocked (unschedule key st)))"

definition handleCorruptCandidateLocked :: "queueEnv \<Rightarrow> database \<Rightarrow> time \<Rightarrow> readyCandidate \<Rightarrow> shareStore \<Rightarrow> bool \<times> shareStore" where
  "handleCorruptCandidateLocked E db now c st =
     (let st = st\<lparr>q_lastReadyRound := k_round (c_share c)\<rparr> in
      case failCorruptCandidateLocked E db (c_share c) (c_key c) st of
        (True, st) \<Rightarrow> (True, st)
      | (False, st) \<Rightarrow> (False, backoffStoreLocked now st))"

text \<open>One candidate: whether the loop goes on, and the share handed out.\<close>

definition takeCandidate :: "queueEnv \<Rightarrow> database \<Rightarrow> time \<Rightarrow> readyCandidate \<Rightarrow> shareStore \<Rightarrow>
    bool \<times> QueuedShare option \<times> shareStore" where
  "takeCandidate E db now c st =
     (let corrupt = (case handleCorruptCandidateLocked E db now c st of (goOn, st) \<Rightarrow> (goOn, None, st)) in
      case loadShareFrom E db (c_share c) st of
        Inl NoRows \<Rightarrow> (True, None, unschedule (c_key c) st)
      | Inl CorruptRow \<Rightarrow> corrupt
      | Inl DBErr \<Rightarrow> (False, None, backoffStoreLocked now st)
      | Inr share \<Rightarrow>
          (case qs_State share of
             ShareStateSubmitted \<Rightarrow> (True, None, unschedule (c_key c) st)
           | ShareStateFailed \<Rightarrow> (True, None, unschedule (c_key c) st)
           | ShareStateWitnessed \<Rightarrow> corrupt
           | ShareStateReceived \<Rightarrow>
               let n = q_nextAttemptID st + 1; n = (if n = 0 then n + 1 else n) in
               (True, Some (share\<lparr>qs_attemptID := n\<rparr>),
                unschedule (c_key c) (st\<lparr>q_nextAttemptID := n, q_lastReadyRound := k_round (c_share c),
                  q_inFlight := AList.update (c_key c)
                    \<lparr>if_roundID = k_round (c_share c), if_voteEndTime = qs_VoteEndTime share, if_attemptID = n\<rparr>
                    (q_inFlight st)\<rparr>))))"

definition remaining :: "ring \<Rightarrow> nat" where "remaining ring = sum_list (map (length \<circ> snd) ring)"

lemma remaining_simps [simp]:
  "remaining [] = 0" "remaining (p # ring) = length (snd p) + remaining ring"
  "remaining (ring @ ring') = remaining ring + remaining ring'"
  by (simp_all add: remaining_def)

text \<open>
  Passing an exhausted round brings the next round with candidates one place nearer.
\<close>

lemma exhausted_before:
  "remaining rest \<noteq> 0 \<Longrightarrow>
   length (takeWhile (\<lambda>p. snd p = []) (rest @ [(r, [])])) = length (takeWhile (\<lambda>p. snd p = []) rest)"
  by (induction rest) auto

function takeLoop :: "queueEnv \<Rightarrow> database \<Rightarrow> time \<Rightarrow> nat \<Rightarrow> ring \<Rightarrow> QueuedShare list \<Rightarrow> shareStore \<Rightarrow>
    QueuedShare list \<times> shareStore" where
  "takeLoop E db now limit ring result st =
     (if remaining ring = 0 \<or> limit > 0 \<and> length result \<ge> limit then (result, st)
      else case ring of
        (r, []) # rest \<Rightarrow> takeLoop E db now limit (rest @ [(r, [])]) result st
      | (r, c # cs) # rest \<Rightarrow>
          (case takeCandidate E db now c st of
             (False, _, st) \<Rightarrow> (result, st)
           | (True, None, st) \<Rightarrow> takeLoop E db now limit (rest @ [(r, cs)]) result st
           | (True, Some share, st) \<Rightarrow> takeLoop E db now limit (rest @ [(r, cs)]) (result @ [share]) st)
      | [] \<Rightarrow> (result, st))"
  by pat_completeness auto
termination
  by (relation "(\<lambda>(E, db, now, limit, ring, result, st). remaining ring)
      <*mlex*> measure (\<lambda>(E, db, now, limit, ring, result, st). length (takeWhile (\<lambda>p. snd p = []) ring))")
     (auto simp: mlex_prod_def exhausted_before intro: wf_mlex)

declare takeLoop.simps [simp del]

definition takeReady :: "queueEnv \<Rightarrow> database \<Rightarrow> time \<Rightarrow> nat \<Rightarrow> shareStore \<Rightarrow> QueuedShare list \<times> shareStore" where
  "takeReady E db now limit st =
     (if now < q_dequeueRetryUntil st then ([], st)
      else
        let st = st\<lparr>q_dequeueRetryUntil := zeroTime\<rparr>;
            cands = readyCandidates E now st;
            st = pruneSchedule E now st in
        if cands = [] then ([], st)
        else takeLoop E db now limit (readyRing (q_lastReadyRound st) cands) [] st)"

section \<open>Completion\<close>

definition scheduleCandidateRetryLocked :: "time \<Rightarrow> gostring \<Rightarrow> shareStore \<Rightarrow> shareStore" where
  "scheduleCandidateRetryLocked now key st =
     notifyScheduleChangedLocked (setSchedule key (scheduleSecond (now + shareSystemRetryBackoff)) st)"

definition requeueInFlightAfterStoreFailureLocked :: "time \<Rightarrow> gostring \<Rightarrow> shareStore \<Rightarrow> shareStore" where
  "requeueInFlightAfterStoreFailureLocked now key st =
     backoffStoreLocked now (scheduleCandidateRetryLocked now key (disown key st))"

text \<open>The row an update \<^verbatim>\<open>WHERE ... AND state = 0\<close> applies to.\<close>

definition receivedRow :: "shareKey \<Rightarrow> shareStore \<Rightarrow> shareRow option" where
  "receivedRow k st = (case map_of (q_shares st) k of None \<Rightarrow> None
     | Some row \<Rightarrow> if r_state row = IntC 0 then Some row else None)"

definition submittedRow :: "shareRow \<Rightarrow> shareRow" where
  "submittedRow row = row\<lparr>r_state := IntC 2, r_enc_share_c1 := TextC [], r_enc_share_c2 := TextC [],
     r_share_comms := TextC (str ''[]''), r_primary_blind := TextC []\<rparr>"

definition MarkSubmitted :: "database \<Rightarrow> time \<Rightarrow> shareKey \<Rightarrow> shareStore \<Rightarrow> shareStore" where
  "MarkSubmitted db now k st =
     (let key = schedKey k in
      if map_of (q_inFlight st) key = None then st
      else if db OpSubmit k = NotDone then requeueInFlightAfterStoreFailureLocked now key st
      else (case receivedRow k st of
         None \<Rightarrow> requeueInFlightAfterStoreFailureLocked now key st
       | Some _ \<Rightarrow>
           let st = st\<lparr>q_shares := updateRow k submittedRow (q_shares st)\<rparr> in
           if db OpSubmit k = DoneUnknown then requeueInFlightAfterStoreFailureLocked now key st
           else disown key st))"

text \<open>\<^verbatim>\<open>Scan\<close> into a Go string and into an unsigned integer of some width.\<close>

definition fmtInt :: "int \<Rightarrow> gostring" where
  "fmtInt n = (if n < 0 then 45 # fmtNat (nat (- n)) else fmtNat (nat n))"

fun scanText :: "cell \<Rightarrow> gostring" where
  "scanText (TextC s) = s"
| "scanText (BlobC b) = b"
| "scanText (IntC n) = fmtInt (sint n)"

definition scanUint :: "nat \<Rightarrow> cell \<Rightarrow> int option" where
  "scanUint bits c = ParseUint (scanText c) bits"

definition markRetry :: "queueEnv \<Rightarrow> database \<Rightarrow> time \<Rightarrow> shareKey \<Rightarrow> u8 \<Rightarrow> shareStore \<Rightarrow> shareStore" where
  "markRetry E db now k stalledRetryCount st =
     (let key = schedKey k in
      case map_of (q_inFlight st) key of
        None \<Rightarrow> st
      | Some active \<Rightarrow>
          (case (if db OpRetryState k \<noteq> Done then None else receivedRow k st) of
             None \<Rightarrow> requeueInFlightAfterStoreFailureLocked now key st
           | Some row \<Rightarrow>
               let v = if_voteEndTime active;
                   poll = scheduleRetryTime now (if stalledRetryCount = 0 then nextShareSystemRetryTime now v
                            else nextShareStalledRetryTime now v stalledRetryCount);
                   at = (case decodeRetryState (retryDecode E) (scanText (r_retry_state row)) v of
                           Inr (Some retry) \<Rightarrow>
                             (case due retry now v of
                                Inr (_, next) \<Rightarrow> if next > now \<and> next < poll then next else poll
                              | Inl _ \<Rightarrow> poll)
                         | _ \<Rightarrow> poll) in
               notifyScheduleChangedLocked (setSchedule key at (disown key st))))"

definition MarkRetry :: "queueEnv \<Rightarrow> database \<Rightarrow> time \<Rightarrow> shareKey \<Rightarrow> shareStore \<Rightarrow> shareStore" where
  "MarkRetry E db now k st = markRetry E db now k 0 st"

definition MarkStalledRetry :: "queueEnv \<Rightarrow> database \<Rightarrow> time \<Rightarrow> shareKey \<Rightarrow> u8 \<Rightarrow> shareStore \<Rightarrow> shareStore" where
  "MarkStalledRetry E db now k retryCount st = markRetry E db now k retryCount st"

definition requeueInFlightIfOwned :: "time \<Rightarrow> shareKey \<Rightarrow> u64 \<Rightarrow> shareStore \<Rightarrow> bool \<times> shareStore" where
  "requeueInFlightIfOwned now k attemptID st =
     (let key = schedKey k in
      case map_of (q_inFlight st) key of
        None \<Rightarrow> (False, st)
      | Some active \<Rightarrow>
          if if_attemptID active \<noteq> attemptID then (False, st)
          else (True, scheduleCandidateRetryLocked now key (disown key st)))"

definition shareFailedMaxAttempts :: int where "shareFailedMaxAttempts = 5"

definition failedAttemptRow :: "queueEnv \<Rightarrow> shareRow \<Rightarrow> shareRow" where
  "failedAttemptRow E row =
     (let attempts = sqlNumber E (r_attempts row) + 1;
          scrub = (\<lambda>v c. if attempts \<ge> shareFailedMaxAttempts \<and> r_vote_end_time row = IntC 0 then TextC v else c) in
      row\<lparr>r_attempts := IntC (word_of_int attempts), r_state := IntC (if attempts \<ge> shareFailedMaxAttempts then 3 else 0),
          r_enc_share_c1 := scrub [] (r_enc_share_c1 row), r_enc_share_c2 := scrub [] (r_enc_share_c2 row),
          r_share_comms := scrub (str ''[]'') (r_share_comms row),
          r_primary_blind := scrub [] (r_primary_blind row)\<rparr>)"

definition recordFailedAttemptLocked :: "queueEnv \<Rightarrow> database \<Rightarrow> time \<Rightarrow> shareKey \<Rightarrow> gostring \<Rightarrow> shareStore \<Rightarrow> bool \<times> shareStore" where
  "recordFailedAttemptLocked E db now k key st =
     (if db OpAttempt k = NotDone then (False, st)
      else (case receivedRow k st of
         None \<Rightarrow> (False, st)
       | Some row \<Rightarrow>
           let st = st\<lparr>q_shares := updateRow k (failedAttemptRow E) (q_shares st)\<rparr>;
               attempts = sqlNumber E (r_attempts row) + 1 in
           if db OpAttempt k = DoneUnknown \<or> scanUint 64 (r_vote_end_time row) = None then (False, st)
           else if attempts \<ge> shareFailedMaxAttempts
           then (True, notifyScheduleChangedLocked (unschedule key (disown key st)))
           else
             let backoff = (if attempts < 0 then 0 else 2 ^ nat (min attempts 6)) * Second in
             (True, notifyScheduleChangedLocked (setSchedule key (scheduleSecond (now + backoff)) (disown key st)))))"

definition MarkFailed :: "queueEnv \<Rightarrow> database \<Rightarrow> time \<Rightarrow> shareKey \<Rightarrow> shareStore \<Rightarrow> shareStore" where
  "MarkFailed E db now k st =
     (let key = schedKey k in
      if map_of (q_inFlight st) key = None then st
      else (case recordFailedAttemptLocked E db now k key st of
         (True, st) \<Rightarrow> st
       | (False, st) \<Rightarrow> requeueInFlightAfterStoreFailureLocked now key st))"

text \<open>The reservation of a proof attempt, from \<^verbatim>\<open>retry_schedule.go\<close>: a compare-and-swap on the row.\<close>

definition reserveProofAttempt :: "queueEnv \<Rightarrow> database \<Rightarrow> QueuedShare \<Rightarrow> retryState \<Rightarrow> shareStore \<Rightarrow> bool \<times> shareStore" where
  "reserveProofAttempt E db share state st =
     (let k = payloadKey (qs_Payload share) in
      case retryEncode E state of
        None \<Rightarrow> (False, st)
      | Some raw \<Rightarrow>
          if db OpReserve k = NotDone then (False, st)
          else (case receivedRow k st of
             None \<Rightarrow> (False, st)
           | Some row \<Rightarrow>
               if r_retry_state row \<noteq> TextC (qs_retryState share) then (False, st)
               else
                 let st = st\<lparr>q_shares := updateRow k (\<lambda>row. row\<lparr>r_retry_state := TextC raw\<rparr>) (q_shares st)\<rparr> in
                 (db OpReserve k = Done, st)))"

section \<open>Purge and recovery\<close>

definition PurgeRounds :: "database \<Rightarrow> gostring list \<Rightarrow> shareStore \<Rightarrow> int \<times> shareStore" where
  "PurgeRounds db roundIDs st =
     (let activeRounds = map (if_roundID \<circ> snd) (q_inFlight st);
          purgeable = filter (\<lambda>r. r \<notin> set activeRounds) roundIDs in
      if purgeable \<noteq> [] \<and> db OpPurge (ShareKey [] 0 0 0) \<noteq> Done then (0, st)
      else
        let kept = filter (\<lambda>(k, _). k_round k \<notin> set purgeable) (q_shares st);
            keptSchedule = filter (\<lambda>(key, _). hd (splitN key 2) \<notin> set purgeable) (q_schedule st) in
        (int (length (q_shares st)) - int (length kept),
         st\<lparr>q_shares := kept, q_rounds := filter (\<lambda>(r, _). r \<notin> set purgeable) (q_rounds st),
            q_roundCache := filter (\<lambda>(r, _). r \<notin> set purgeable) (q_roundCache st),
            q_schedule := keptSchedule,
            q_scheduleChanged := (q_scheduleChanged st \<or> keptSchedule \<noteq> q_schedule st)\<rparr>))"

definition scheduledTime :: "u64 \<Rightarrow> time \<Rightarrow> time" where
  "scheduledTime submitAt immediateBucket = (if submitAt = 0 then immediateBucket else unixTime submitAt)"

fun recoverSchedule :: "time \<Rightarrow> (shareKey \<times> shareRow) list \<Rightarrow> (gostring \<times> time) list \<Rightarrow>
    queueErr + (gostring \<times> time) list" where
  "recoverSchedule bucket [] schedule = Inr schedule"
| "recoverSchedule bucket ((k, row) # rows) schedule =
     (if r_state row \<noteq> IntC 0 then recoverSchedule bucket rows schedule
      else case scanUint 64 (r_submit_at row) of
        None \<Rightarrow> Inl StoreErr
      | Some submitAt \<Rightarrow> recoverSchedule bucket rows
          (AList.update (schedKey k) (scheduledTime (word_of_int submitAt) bucket) schedule))"

text \<open>\<^verbatim>\<open>NewShareStore\<close> on the tables a previous run left, followed by \<^verbatim>\<open>recover\<close>.\<close>

definition emptyStore :: "(shareKey \<times> shareRow) list \<Rightarrow> (gostring \<times> RoundInfo) list \<Rightarrow> shareStore" where
  "emptyStore rows rounds = \<lparr>q_shares = rows, q_rounds = rounds, q_schedule = [], q_inFlight = [],
     q_nextAttemptID = 0, q_lastReadyRound = [], q_dequeueRetryUntil = zeroTime, q_scheduleChanged = False,
     q_roundCache = []\<rparr>"

definition recover :: "time \<Rightarrow> shareStore \<Rightarrow> queueErr + shareStore" where
  "recover now st =
     (let rows = map (\<lambda>(k, row). (k, if r_state row = IntC 1 then row\<lparr>r_state := IntC 0\<rparr> else row)) (q_shares st) in
      case recoverSchedule (scheduleSecond now) rows (q_schedule st) of
        Inl e \<Rightarrow> Inl e
      | Inr schedule \<Rightarrow> Inr (st\<lparr>q_shares := rows, q_schedule := schedule,
          q_roundCache := foldl (\<lambda>c (r, i). AList.update r i c) (q_roundCache st) (q_rounds st)\<rparr>))"

definition NewShareStore :: "time \<Rightarrow> (shareKey \<times> shareRow) list \<Rightarrow> (gostring \<times> RoundInfo) list \<Rightarrow> queueErr + shareStore" where
  "NewShareStore now rows rounds = recover now (emptyStore rows rounds)"

end
