(* ===== verification/Queue_Invariant.thy ===== *)
theory Queue_Invariant
  imports Share_Queue "HOL-Library.Multiset"
begin

text \<open>
  What the share queue guarantees whatever statement of the database fails: schedule keys are
  read back as the share they name, every received share is either scheduled or owned by one
  worker, and a dispatch hands out each due share once.
\<close>

section \<open>Keys are read back\<close>

lemma digit_char: "m < 10 \<Longrightarrow> unat (word_of_nat (48 + m) :: u8) = 48 + m"
  by (simp add: unsigned_of_nat take_bit_nat_eq_self del: of_nat_add)

lemma fmtNat_digits: "list_all isDigit (fmtNat n)"
proof (induction n rule: fmtNat.induct)
  case (1 n)
  have d: "isDigit (word_of_nat (48 + m))" if "m < 10" for m
    using that digit_char[OF that] by (simp add: isDigit_def word_le_nat_alt del: of_nat_add)
  show ?case
  proof (cases "n < 10")
    case False
    then show ?thesis using 1 d[of "n mod 10"] by (subst fmtNat.simps) simp
  qed (use d in \<open>subst fmtNat.simps, simp\<close>)
qed

lemma fmtNat_not_Nil: "fmtNat n \<noteq> []"
  by (subst fmtNat.simps) simp

lemma decimal_snoc: "decimal (s @ [c]) = 10 * decimal s + (uint c - 48)"
  by (simp add: decimal_def)

lemma decimal_fmtNat: "decimal (fmtNat n) = int n"
proof (induction n rule: fmtNat.induct)
  case (1 n)
  have d: "uint (word_of_nat (48 + m) :: u8) - 48 = int m" if "m < 10" for m
    using digit_char[OF that] by (simp add: uint_nat del: of_nat_add)
  show ?case
  proof (cases "n < 10")
    case True
    then show ?thesis using d[of n] by (subst fmtNat.simps) (simp add: decimal_def)
  next
    case False
    have "10 * int (n div 10) + int (n mod 10) = int n" by (metis mult_div_mod_eq of_nat_add of_nat_mult of_nat_numeral)
    then show ?thesis using 1[OF False] False d[of "n mod 10"] by (subst fmtNat.simps) (simp add: decimal_snoc)
  qed
qed

lemma ParseUint_fmtNat: "int n < 2 ^ bits \<Longrightarrow> ParseUint (fmtNat n) bits = Some (int n)"
  by (simp add: ParseUint_def fmtNat_digits decimal_fmtNat fmtNat_not_Nil)

lemma fmtNat_no_colon: "colon \<notin> set (fmtNat n)"
  using fmtNat_digits[of n] by (auto simp: list_all_iff isDigit_def colon_def)

lemma cutColon_at: "colon \<notin> set a \<Longrightarrow> cutColon (a @ colon # b) = Some (a, b)"
  by (induction a) auto

lemma parseKey_schedKey:
  assumes "colon \<notin> set (k_round k)"
  shows "parseKey (schedKey k) = Some k"
proof -
  obtain r i p t where k: "k = ShareKey r i p t" by (cases k) auto
  have u: "int (unat i) < 2 ^ 32" "int (unat p) < 2 ^ 32" "int (unat t) < 2 ^ 64"
    using uint_lt2p[of i] uint_lt2p[of p] uint_lt2p[of t] by simp_all
  have "splitN (schedKey k) 4 = [r, fmtNat (unat i), fmtNat (unat p), fmtNat (unat t)]"
    using assms by (simp add: k schedKey_def eval_nat_numeral cutColon_at fmtNat_no_colon)
  then show ?thesis using u by (simp add: parseKey_def ParseUint_fmtNat k)
qed

lemma schedKey_inject:
  "colon \<notin> set (k_round k) \<Longrightarrow> colon \<notin> set (k_round k') \<Longrightarrow> schedKey k = schedKey k' \<longleftrightarrow> k = k'"
  using parseKey_schedKey by (metis option.inject)

lemma schedKey_round:
  assumes "colon \<notin> set (k_round k)"
  shows "hd (splitN (schedKey k) 2) = k_round k"
  using assms by (cases k) (simp add: schedKey_def eval_nat_numeral cutColon_at)

section \<open>The invariant\<close>

abbreviation waiting :: "shareStore \<Rightarrow> gostring \<Rightarrow> bool" where
  "waiting st key \<equiv> map_of (q_schedule st) key \<noteq> None"

abbreviation owned :: "shareStore \<Rightarrow> gostring \<Rightarrow> bool" where
  "owned st key \<equiv> map_of (q_inFlight st) key \<noteq> None"

abbreviation received :: "shareStore \<Rightarrow> shareKey \<Rightarrow> bool" where
  "received st k \<equiv> \<exists>row. map_of (q_shares st) k = Some row \<and> r_state row = IntC 0"

definition queueInv :: "shareStore \<Rightarrow> bool" where
  "queueInv st \<longleftrightarrow>
     distinct (map fst (q_shares st)) \<and> distinct (map fst (q_schedule st)) \<and> distinct (map fst (q_inFlight st)) \<and>
     (\<forall>k. map_of (q_shares st) k \<noteq> None \<longrightarrow> colon \<notin> set (k_round k)) \<and>
     (\<forall>k. received st k \<longrightarrow> waiting st (schedKey k) \<or> owned st (schedKey k)) \<and>
     (\<forall>key. waiting st key \<longrightarrow> \<not> owned st key \<and> (\<exists>k. key = schedKey k \<and> colon \<notin> set (k_round k))) \<and>
     (\<forall>key active. map_of (q_inFlight st) key = Some active \<longrightarrow>
        (\<exists>k. key = schedKey k \<and> received st k \<and> if_roundID active = k_round k))"

lemma queueInvD:
  assumes "queueInv st"
  shows "distinct (map fst (q_shares st))" "distinct (map fst (q_schedule st))" "distinct (map fst (q_inFlight st))"
    "map_of (q_shares st) k \<noteq> None \<Longrightarrow> colon \<notin> set (k_round k)"
    "received st k \<Longrightarrow> waiting st (schedKey k) \<or> owned st (schedKey k)"
    "waiting st key \<Longrightarrow> \<not> owned st key" "waiting st key \<Longrightarrow> \<exists>k. key = schedKey k \<and> colon \<notin> set (k_round k)"
    "map_of (q_inFlight st) key = Some active \<Longrightarrow> \<exists>k. key = schedKey k \<and> received st k \<and> if_roundID active = k_round k"
  using assms unfolding queueInv_def by blast+

lemma map_of_updateRow:
  "map_of (updateRow k f rows) k' = (if k' = k then map_option f (map_of rows k) else map_of rows k')"
  by (induction rows) (auto simp: updateRow_def)

lemma updateRow_keys [simp]: "map fst (updateRow k f rows) = map fst rows"
  by (induction rows) (auto simp: updateRow_def)

lemma updateRow_id [simp]: "updateRow k id rows = rows" "updateRow k (\<lambda>row. row) rows = rows"
  by (induction rows) (auto simp: updateRow_def)

lemma map_of_delete: "map_of (AList.delete k al) k' = (if k' = k then None else map_of al k')"
  by (simp add: delete_conv')

lemma map_of_update: "map_of (AList.update k v al) k' = (if k' = k then Some v else map_of al k')"
  by (simp add: update_conv')

lemmas lookups = map_of_updateRow map_of_delete map_of_update

text \<open>
  What an operation may do to one share, seen through the three tables. The operations below
  are instances: a worker gives the share back, or its row leaves the received state.
\<close>

lemma owned_row:
  assumes "queueInv st" "owned st (schedKey k)" "colon \<notin> set (k_round k)"
  shows "received st k"
proof -
  obtain active where "map_of (q_inFlight st) (schedKey k) = Some active" using assms(2) by auto
  from queueInvD(8)[OF assms(1) this] obtain k' where k': "schedKey k = schedKey k'" "received st k'" by auto
  then have "colon \<notin> set (k_round k')" using queueInvD(4)[OF assms(1)] by auto
  then show ?thesis using k' assms(3) schedKey_inject by blast
qed

lemma queueInv_requeue:
  assumes inv: "queueInv st" and own: "owned st (schedKey k)" and k: "colon \<notin> set (k_round k)"
    and "q_shares st' = updateRow k f (q_shares st)"
    and "q_schedule st' = AList.update (schedKey k) t (q_schedule st)"
    and "q_inFlight st' = AList.delete (schedKey k) (q_inFlight st)"
  shows "queueInv st'"
proof -
  note D = queueInvD[OF inv]
  show ?thesis unfolding queueInv_def assms(4-6)
  proof (intro conjI allI impI)
    fix key active assume a: "map_of (AList.delete (schedKey k) (q_inFlight st)) key = Some active"
    then have "key \<noteq> schedKey k" "map_of (q_inFlight st) key = Some active" by (auto simp: lookups split: if_splits)
    with D(8)[of key active] show "\<exists>k'. key = schedKey k' \<and>
        (\<exists>row. map_of (updateRow k f (q_shares st)) k' = Some row \<and> r_state row = IntC 0) \<and> if_roundID active = k_round k'"
      by (auto simp: lookups)
  next
    fix key assume "map_of (AList.update (schedKey k) t (q_schedule st)) key \<noteq> None"
    then show "\<not> map_of (AList.delete (schedKey k) (q_inFlight st)) key \<noteq> None"
      "\<exists>k'. key = schedKey k' \<and> colon \<notin> set (k_round k')"
      using D(6,7)[of key] k by (auto simp: lookups split: if_splits)
  next
    fix k' assume "\<exists>row. map_of (updateRow k f (q_shares st)) k' = Some row \<and> r_state row = IntC 0"
    then show "map_of (AList.update (schedKey k) t (q_schedule st)) (schedKey k') \<noteq> None \<or>
        map_of (AList.delete (schedKey k) (q_inFlight st)) (schedKey k') \<noteq> None"
      using D(5)[of k'] by (auto simp: lookups split: if_splits)
  next
    fix k' assume "map_of (updateRow k f (q_shares st)) k' \<noteq> None"
    then show "colon \<notin> set (k_round k')" using D(4)[of k'] k by (auto simp: lookups split: if_splits)
  qed (use D(1-3) in \<open>simp_all add: distinct_update distinct_delete\<close>)
qed

lemma queueInv_finish:
  assumes inv: "queueInv st" and k: "colon \<notin> set (k_round k)"
    and "q_shares st' = updateRow k f (q_shares st)" "\<And>row. map_of (q_shares st) k = Some row \<Longrightarrow> r_state (f row) \<noteq> IntC 0"
    and "q_schedule st' = q_schedule st \<or> q_schedule st' = AList.delete (schedKey k) (q_schedule st)"
    and "q_inFlight st' = AList.delete (schedKey k) (q_inFlight st)"
  shows "queueInv st'"
proof -
  note D = queueInvD[OF inv]
  have other: "schedKey k' \<noteq> schedKey k" if "received st k'" "k' \<noteq> k" for k'
    using that D(4)[of k'] k schedKey_inject by auto
  have s: "map_of (q_schedule st') key \<noteq> None \<Longrightarrow> waiting st key" for key
    using assms(5) by (auto simp: lookups split: if_splits)
  have s': "key \<noteq> schedKey k \<Longrightarrow> waiting st key \<Longrightarrow> map_of (q_schedule st') key \<noteq> None" for key
    using assms(5) by (auto simp: lookups split: if_splits)
  have d: "distinct (map fst (q_schedule st'))" using assms(5) D(2) by (auto simp: distinct_delete)
  have r: "received st' k' \<Longrightarrow> k' \<noteq> k \<and> received st k'" for k'
    using assms(4) unfolding assms(3) by (auto simp: lookups split: if_splits)
  show ?thesis unfolding queueInv_def assms(6)
  proof (intro conjI allI impI)
    fix k' assume "received st' k'"
    then have "k' \<noteq> k" "received st k'" using r by auto
    then show "waiting st' (schedKey k') \<or> map_of (AList.delete (schedKey k) (q_inFlight st)) (schedKey k') \<noteq> None"
      using D(5)[of k'] s' other by (auto simp: lookups)
  next
    fix key active assume a: "map_of (AList.delete (schedKey k) (q_inFlight st)) key = Some active"
    then have "key \<noteq> schedKey k" "map_of (q_inFlight st) key = Some active" by (auto simp: lookups split: if_splits)
    with D(8)[of key active] show "\<exists>k'. key = schedKey k' \<and> received st' k' \<and> if_roundID active = k_round k'"
      unfolding assms(3) by (auto simp: lookups)
  next
    fix key assume "waiting st' key"
    then show "\<not> map_of (AList.delete (schedKey k) (q_inFlight st)) key \<noteq> None"
      "\<exists>k'. key = schedKey k' \<and> colon \<notin> set (k_round k')"
      using s D(6,7)[of key] by (auto simp: lookups)
  next
    fix k' assume "map_of (q_shares st') k' \<noteq> None"
    then show "colon \<notin> set (k_round k')" using D(4)[of k'] k unfolding assms(3) by (auto simp: lookups split: if_splits)
  qed (use D(1,3) d in \<open>simp_all add: assms(3) distinct_delete\<close>)
qed

text \<open>A row comes in, or is repaired, while nobody owns it.\<close>

lemma queueInv_admit:
  assumes inv: "queueInv st" and own: "\<not> owned st (schedKey k)" and k: "colon \<notin> set (k_round k)"
    and "distinct (map fst (q_shares st'))" "\<And>k'. k' \<noteq> k \<Longrightarrow> map_of (q_shares st') k' = map_of (q_shares st) k'"
    and "q_schedule st' = AList.update (schedKey k) t (q_schedule st)" "q_inFlight st' = q_inFlight st"
  shows "queueInv st'"
proof -
  note D = queueInvD[OF inv]
  show ?thesis unfolding queueInv_def assms(6,7)
  proof (intro conjI allI impI)
    fix key active assume a: "map_of (q_inFlight st) key = Some active"
    then have "key \<noteq> schedKey k" using own by auto
    with D(8)[OF a] show "\<exists>k'. key = schedKey k' \<and> received st' k' \<and> if_roundID active = k_round k'"
      using assms(5) by metis
  next
    fix k' assume "map_of (q_shares st') k' \<noteq> None"
    then show "colon \<notin> set (k_round k')" using D(4)[of k'] k assms(5)[of k'] by (cases "k' = k") auto
  next
    fix k' assume "received st' k'"
    then show "map_of (AList.update (schedKey k) t (q_schedule st)) (schedKey k') \<noteq> None \<or> owned st (schedKey k')"
      using D(5)[of k'] assms(5)[of k'] by (cases "k' = k") (auto simp: lookups)
  qed (use D(2,3,6,7) own k assms(4) in \<open>auto simp: lookups distinct_update split: if_splits\<close>)
qed

lemma queueInv_rows:
  assumes inv: "queueInv st" and "q_shares st' = updateRow k f (q_shares st)"
    and "\<And>row. map_of (q_shares st) k = Some row \<Longrightarrow> r_state (f row) = r_state row"
    and "q_schedule st' = q_schedule st" "q_inFlight st' = q_inFlight st"
  shows "queueInv st'"
proof -
  note D = queueInvD[OF inv]
  have r: "received st' k' \<longleftrightarrow> received st k'" for k'
    unfolding assms(2) using assms(3) by (cases "k' = k") (auto simp: lookups)
  have s: "map_of (q_shares st') k' \<noteq> None \<longleftrightarrow> map_of (q_shares st) k' \<noteq> None" for k'
    unfolding assms(2) by (simp add: lookups)
  have d: "distinct (map fst (q_shares st'))" using D(1) unfolding assms(2) by simp
  show ?thesis using inv d unfolding queueInv_def r s assms(4,5) by blast
qed

lemmas primitive_defs = notifyScheduleChangedLocked_def setSchedule_def unschedule_def disown_def
  backoffStoreLocked_def scheduleCandidateRetryLocked_def requeueInFlightAfterStoreFailureLocked_def

lemma delete_idle: "map_of al key = None \<Longrightarrow> AList.delete key al = al"
  by (simp add: delete_notin_dom map_of_eq_None_iff)

section \<open>Every operation keeps the invariant\<close>

lemma requeue_failure_inv:
  assumes "queueInv st" "owned st (schedKey k)" "colon \<notin> set (k_round k)"
    and "q_shares st' = updateRow k f (q_shares st)" "q_schedule st' = q_schedule st" "q_inFlight st' = q_inFlight st"
  shows "queueInv (requeueInFlightAfterStoreFailureLocked now (schedKey k) st')"
  by (rule queueInv_requeue[OF assms(1-3), where f = f and t = "scheduleSecond (now + shareSystemRetryBackoff)"])
     (simp_all add: primitive_defs assms(4-6))

lemmas requeue_same_inv = requeue_failure_inv[where f = id, unfolded updateRow_id]

lemma MarkSubmitted_inv:
  assumes "queueInv st" "colon \<notin> set (k_round k)"
  shows "queueInv (MarkSubmitted db now k st)"
proof (cases "owned st (schedKey k)")
  case True
  have "queueInv (disown (schedKey k) (st\<lparr>q_shares := updateRow k submittedRow (q_shares st)\<rparr>))"
    by (rule queueInv_finish[OF assms, where f = submittedRow]) (simp_all add: disown_def submittedRow_def)
  then show ?thesis using assms True requeue_same_inv[OF assms(1) True assms(2)] requeue_failure_inv[OF assms(1) True assms(2)]
    by (simp add: MarkSubmitted_def Let_def split: option.split)
qed (simp add: MarkSubmitted_def assms)

lemma markRetry_inv:
  assumes "queueInv st" "colon \<notin> set (k_round k)"
  shows "queueInv (markRetry E db now k n st)"
proof (cases "owned st (schedKey k)")
  case True
  have "queueInv (notifyScheduleChangedLocked (setSchedule (schedKey k) t (disown (schedKey k) st)))" for t
    by (rule queueInv_requeue[OF assms(1) True assms(2), where f = id and t = t]) (simp_all add: primitive_defs)
  then show ?thesis using True requeue_same_inv[OF assms(1) True assms(2)]
    by (auto simp: markRetry_def Let_def split: option.split)
qed (simp add: markRetry_def assms)

lemma requeueInFlightIfOwned_inv:
  assumes "queueInv st" "colon \<notin> set (k_round k)"
  shows "queueInv (snd (requeueInFlightIfOwned now k n st))"
proof (cases "owned st (schedKey k)")
  case True
  have "queueInv (scheduleCandidateRetryLocked now (schedKey k) (disown (schedKey k) st))"
    by (rule queueInv_requeue[OF assms(1) True assms(2), where f = id and t = "scheduleSecond (now + shareSystemRetryBackoff)"])
       (simp_all add: primitive_defs)
  then show ?thesis using True assms by (auto simp: requeueInFlightIfOwned_def Let_def split: option.split)
qed (simp add: requeueInFlightIfOwned_def assms)

lemma receivedRow_Some: "receivedRow k st = Some row \<longleftrightarrow> map_of (q_shares st) k = Some row \<and> r_state row = IntC 0"
  by (auto simp: receivedRow_def split: option.splits)

lemma MarkFailed_inv:
  assumes "queueInv st" "colon \<notin> set (k_round k)"
  shows "queueInv (MarkFailed E db now k st)"
proof (cases "owned st (schedKey k)")
  case own: True
  let ?st = "st\<lparr>q_shares := updateRow k (failedAttemptRow E) (q_shares st)\<rparr>"
  note requeue = requeue_same_inv[OF assms(1) own assms(2)] requeue_failure_inv[OF assms(1) own assms(2), of ?st "failedAttemptRow E"]
  have later: "queueInv (notifyScheduleChangedLocked (setSchedule (schedKey k) t (disown (schedKey k) ?st)))" for t
    by (rule queueInv_requeue[OF assms(1) own assms(2), where f = "failedAttemptRow E" and t = t]) (simp_all add: primitive_defs)
  have failed: "queueInv (notifyScheduleChangedLocked (unschedule (schedKey k) (disown (schedKey k) ?st)))"
    if "receivedRow k st = Some row" "sqlNumber E (r_attempts row) + 1 \<ge> shareFailedMaxAttempts" for row
    by (rule queueInv_finish[OF assms, where f = "failedAttemptRow E"])
       (use that in \<open>simp_all add: primitive_defs receivedRow_Some failedAttemptRow_def Let_def\<close>)
  show ?thesis using own requeue later failed
    by (auto simp: MarkFailed_def recordFailedAttemptLocked_def Let_def split: option.split)
qed (simp add: MarkFailed_def assms)

lemma reserveProofAttempt_inv:
  "queueInv st \<Longrightarrow> queueInv (snd (reserveProofAttempt E db share state st))"
  by (auto simp: reserveProofAttempt_def Let_def split: option.split
      intro: queueInv_rows[where k = "payloadKey (qs_Payload share)" and st = st])

text \<open>
  An admission that writes a row learns that it did: reading the count of affected rows of a
  completed statement does not fail.
\<close>

definition reportsWrites :: "database \<Rightarrow> shareKey \<Rightarrow> bool" where
  "reportsWrites db k \<longleftrightarrow> db OpInsert k \<noteq> DoneUnknown \<and> db OpReplace k \<noteq> DoneUnknown"

lemma enqueueLocked_inv:
  assumes inv: "queueInv st" and c: "colon \<notin> set (sp_VoteRoundID p)" and db: "reportsWrites db (payloadKey p)"
  shows "queueInv (snd (enqueueLocked E db arrival p info st))"
proof -
  define k where "k = payloadKey p"
  have ck: "colon \<notin> set (k_round k)" using c by (simp add: k_def payloadKey_def)
  note D = queueInvD[OF inv]
  have fresh: "queueInv (notifyScheduleChangedLocked (setSchedule (schedKey k) t
      (st\<lparr>q_shares := q_shares st @ [(k, row)]\<rparr>)))" if "map_of (q_shares st) k = None" for t row
  proof (rule queueInv_admit[OF inv _ ck, where t = t])
    show "\<not> owned st (schedKey k)" using owned_row[OF inv _ ck] that by (metis option.distinct(1))
    show "distinct (map fst (q_shares (notifyScheduleChangedLocked (setSchedule (schedKey k) t
        (st\<lparr>q_shares := q_shares st @ [(k, row)]\<rparr>)))))"
      using D(1) that by (simp add: primitive_defs map_of_eq_None_iff)
  qed (use that in \<open>auto simp: primitive_defs map_add_def split: option.split\<close>)
  have repaired: "queueInv (notifyScheduleChangedLocked (setSchedule (schedKey k) t
      (st\<lparr>q_shares := updateRow k f (q_shares st)\<rparr>)))" if "map_of (q_inFlight st) (schedKey k) = None" for t f
    by (rule queueInv_admit[OF inv _ ck, where t = t]) (use D(1) that in \<open>auto simp: primitive_defs lookups\<close>)
  show ?thesis
  proof (cases "map_of (q_shares st) k")
    case None
    then show ?thesis using inv fresh[OF None] db
      by (cases "db OpInsert k") (simp_all add: enqueueLocked_def Let_def k_def[symmetric] reportsWrites_def)
  next
    case (Some row)
    then show ?thesis using inv repaired db
      by (cases "db OpReplace k")
         (auto simp: enqueueLocked_def Let_def k_def[symmetric] reportsWrites_def split: sum.split loadErr.split option.split)
  qed
qed

lemma map_of_kept_key: "map_of (filter (\<lambda>(k, _). P k) al) k = (if P k then map_of al k else None)"
  by (induction al) auto

lemma distinct_filter_keys: "distinct (map fst al) \<Longrightarrow> distinct (map fst (filter P al))"
  by (induction al) auto

lemma PurgeRounds_inv:
  assumes inv: "queueInv st"
  shows "queueInv (snd (PurgeRounds db roundIDs st))"
proof -
  note D = queueInvD[OF inv]
  define gone where "gone = set (filter (\<lambda>r. r \<notin> set (map (if_roundID \<circ> snd) (q_inFlight st))) roundIDs)"
  define st' where "st' = snd (PurgeRounds db roundIDs st)"
  have active: "if_roundID a \<notin> gone" if "map_of (q_inFlight st) key = Some a" for key a
    using map_of_SomeD[OF that] by (force simp: gone_def)
  show ?thesis
  proof (cases "st' = st")
    case False
    then have s: "q_shares st' = filter (\<lambda>(k, _). k_round k \<notin> gone) (q_shares st)"
      "q_schedule st' = filter (\<lambda>(key, _). hd (splitN key 2) \<notin> gone) (q_schedule st)"
      "q_inFlight st' = q_inFlight st"
      by (auto simp: st'_def PurgeRounds_def Let_def gone_def split: if_splits)
    have r: "received st' k \<Longrightarrow> received st k \<and> k_round k \<notin> gone" for k
      by (auto simp: s map_of_kept_key[where P = "\<lambda>k. k_round k \<notin> gone"] split: if_splits)
    have r': "received st k \<Longrightarrow> k_round k \<notin> gone \<Longrightarrow> received st' k" for k
      by (auto simp: s map_of_kept_key[where P = "\<lambda>k. k_round k \<notin> gone"])
    have w: "waiting st' key \<longleftrightarrow> waiting st key \<and> hd (splitN key 2) \<notin> gone" for key
      by (simp add: s map_of_kept_key[where P = "\<lambda>key. hd (splitN key 2) \<notin> gone"])
    have "queueInv st'" unfolding queueInv_def s(3) w
    proof (intro conjI allI impI)
      fix k assume k: "received st' k"
      then have "colon \<notin> set (k_round k)" using D(4)[of k] r[OF k] by auto
      then show "waiting st (schedKey k) \<and> hd (splitN (schedKey k) 2) \<notin> gone \<or> owned st (schedKey k)"
        using D(5)[of k] r[OF k] by (simp add: schedKey_round)
    next
      fix key active' assume a: "map_of (q_inFlight st) key = Some active'"
      then obtain k where "key = schedKey k" "received st k" "if_roundID active' = k_round k" using D(8) by blast
      then show "\<exists>k. key = schedKey k \<and> received st' k \<and> if_roundID active' = k_round k"
        using r'[of k] active[OF a] by auto
    next
      fix k assume "map_of (q_shares st') k \<noteq> None"
      then show "colon \<notin> set (k_round k)"
        using D(4)[of k] by (auto simp: s map_of_kept_key[where P = "\<lambda>k. k_round k \<notin> gone"] split: if_splits)
    qed (use D(1,2,3,6,7) in \<open>auto simp: s distinct_filter_keys\<close>)
    then show ?thesis by (simp add: st'_def)
  qed (use inv in \<open>simp add: st'_def\<close>)
qed

lemma recoverSchedule_distinct:
  "recoverSchedule bucket rows schedule = Inr schedule' \<Longrightarrow> distinct (map fst schedule) \<Longrightarrow> distinct (map fst schedule')"
  by (induction bucket rows schedule rule: recoverSchedule.induct)
     (auto simp: distinct_update split: if_splits option.splits)

lemma recoverSchedule_keys:
  "recoverSchedule bucket rows schedule = Inr schedule' \<Longrightarrow>
   map_of schedule' key \<noteq> None \<longleftrightarrow>
   map_of schedule key \<noteq> None \<or> (\<exists>k row. (k, row) \<in> set rows \<and> r_state row = IntC 0 \<and> key = schedKey k)"
proof (induction rows arbitrary: schedule)
  case (Cons r rows)
  obtain k row where r: "r = (k, row)" by fastforce
  show ?case
  proof (cases "r_state row = IntC 0")
    case True
    then obtain n where n: "scanUint 64 (r_submit_at row) = Some n" using Cons.prems r by (auto split: option.splits)
    then show ?thesis using Cons.IH[of "AList.update (schedKey k) (scheduledTime (word_of_int n) bucket) schedule"]
      Cons.prems True by (auto simp: r map_of_update)
  next
    case False
    then show ?thesis using Cons.IH[of schedule] Cons.prems by (auto simp: r)
  qed
qed simp

lemma NewShareStore_inv:
  assumes "NewShareStore now rows rounds = Inr st" "distinct (map fst rows)"
    and "\<And>k row. (k, row) \<in> set rows \<Longrightarrow> colon \<notin> set (k_round k)"
  shows "queueInv st"
proof -
  define f :: "shareRow \<Rightarrow> shareRow" where "f = (\<lambda>row. if r_state row = IntC 1 then row\<lparr>r_state := IntC 0\<rparr> else row)"
  define rows' where "rows' = map (\<lambda>(k, row). (k, f row)) rows"
  obtain schedule where r: "recoverSchedule (scheduleSecond now) rows' [] = Inr schedule"
    and st: "q_shares st = rows'" "q_schedule st = schedule" "q_inFlight st = []"
    using assms(1) by (auto simp: NewShareStore_def recover_def emptyStore_def rows'_def f_def Let_def split: sum.splits)
  have s: "map_of schedule key \<noteq> None \<longleftrightarrow> (\<exists>k row. (k, row) \<in> set rows' \<and> r_state row = IntC 0 \<and> key = schedKey k)" for key
    using recoverSchedule_keys[OF r, of key] by simp
  have ds: "distinct (map fst schedule)" using recoverSchedule_distinct[OF r] by simp
  have k: "map fst rows' = map fst rows" by (simp add: rows'_def comp_def case_prod_unfold)
  then have d: "distinct (map fst rows')" using assms(2) by simp
  have c: "(k, row) \<in> set rows' \<Longrightarrow> colon \<notin> set (k_round k)" for k row
    using assms(3) by (auto simp: rows'_def)
  show ?thesis unfolding queueInv_def st
  proof (intro conjI allI impI)
    fix k assume "\<exists>row. map_of rows' k = Some row \<and> r_state row = IntC 0"
    then show "map_of schedule (schedKey k) \<noteq> None \<or> map_of [] (schedKey k) \<noteq> None"
      using s map_of_SomeD by fastforce
  next
    fix k assume "map_of rows' k \<noteq> None"
    then show "colon \<notin> set (k_round k)" using c map_of_SomeD by fastforce
  next
    fix key assume "map_of schedule key \<noteq> None"
    then show "\<exists>k. key = schedKey k \<and> colon \<notin> set (k_round k)" using s c by auto
  qed (use d ds in auto)
qed

section \<open>Dispatch\<close>

text \<open>A candidate still stands for a due entry of the schedule.\<close>

definition candOK :: "time \<Rightarrow> shareStore \<Rightarrow> readyCandidate \<Rightarrow> bool" where
  "candOK now st c \<longleftrightarrow> c_key c = schedKey (c_share c) \<and> colon \<notin> set (k_round (c_share c)) \<and>
     map_of (q_schedule st) (c_key c) = Some (c_scheduledAt c) \<and> c_scheduledAt c \<le> now"

lemma classifyEntry_inv:
  assumes "queueInv st" "(key, t) \<in> set (q_schedule st)"
  obtains k where "key = schedKey k" "colon \<notin> set (k_round k)" "map_of (q_schedule st) key = Some t"
    "classifyEntry E now st (key, t) = (if t > now then KeepEntry
       else ReadyEntry \<lparr>c_key = key, c_share = k, c_scheduledAt = t, c_rank = scheduleRank E key\<rparr>)"
proof -
  note D = queueInvD[OF assms(1)]
  have w: "map_of (q_schedule st) key = Some t" using D(2) assms(2) by simp
  then obtain k where k: "key = schedKey k" "colon \<notin> set (k_round k)" using D(7)[of key] by auto
  moreover have "map_of (q_inFlight st) key = None" using D(6)[of key] w by simp
  ultimately show ?thesis using that w by (simp add: classifyEntry_def parseKey_schedKey)
qed

lemma pruneSchedule_inv: "queueInv st \<Longrightarrow> pruneSchedule E now st = st"
proof -
  assume inv: "queueInv st"
  have "classifyEntry E now st e \<noteq> DropEntry" if "e \<in> set (q_schedule st)" for e
  proof -
    obtain key t where e: "e = (key, t)" by fastforce
    with that have "(key, t) \<in> set (q_schedule st)" by simp
    from classifyEntry_inv[OF inv this, of E now] show ?thesis unfolding e by (metis entryClass.distinct(1,3))
  qed
  then have "filter (\<lambda>e. classifyEntry E now st e \<noteq> DropEntry) (q_schedule st) = q_schedule st"
    by (simp add: filter_id_conv)
  then show ?thesis by (simp add: pruneSchedule_def)
qed

lemma readyCandidates_keys:
  assumes "\<And>e. e \<in> set es \<Longrightarrow> classifyEntry E now st e = (if snd e > now then KeepEntry
      else ReadyEntry \<lparr>c_key = fst e, c_share = sk e, c_scheduledAt = snd e, c_rank = scheduleRank E (fst e)\<rparr>)"
  shows "map c_key (concat (map (\<lambda>e. case classifyEntry E now st e of ReadyEntry c \<Rightarrow> [c] | _ \<Rightarrow> []) es))
    = map fst (filter (\<lambda>e. snd e \<le> now) es)"
  using assms by (induction es) auto

lemma readyCandidates_inv:
  assumes inv: "queueInv st"
  shows "distinct (map c_key (readyCandidates E now st))"
    and "c \<in> set (readyCandidates E now st) \<Longrightarrow> candOK now st c"
    and "map_of (q_schedule st) key = Some t \<Longrightarrow> t \<le> now \<Longrightarrow> key \<in> c_key ` set (readyCandidates E now st)"
proof -
  define sk where "sk e = (THE k. fst e = schedKey k \<and> colon \<notin> set (k_round k))" for e :: "gostring \<times> time"
  have c: "classifyEntry E now st e = (if snd e > now then KeepEntry
      else ReadyEntry \<lparr>c_key = fst e, c_share = sk e, c_scheduledAt = snd e, c_rank = scheduleRank E (fst e)\<rparr>)
      \<and> fst e = schedKey (sk e) \<and> colon \<notin> set (k_round (sk e)) \<and> map_of (q_schedule st) (fst e) = Some (snd e)"
    if e: "e \<in> set (q_schedule st)" for e
  proof -
    obtain key t where kt: "e = (key, t)" by fastforce
    obtain k where k: "key = schedKey k" "colon \<notin> set (k_round k)" "map_of (q_schedule st) key = Some t"
      "classifyEntry E now st (key, t) = (if t > now then KeepEntry
       else ReadyEntry \<lparr>c_key = key, c_share = k, c_scheduledAt = t, c_rank = scheduleRank E key\<rparr>)"
      using classifyEntry_inv[OF inv, of key t E now] e kt by auto
    have "sk e = k" unfolding sk_def kt by (rule the_equality) (use k schedKey_inject in auto)
    then show ?thesis using k kt by simp
  qed
  have k: "map c_key (readyCandidates E now st) = map fst (filter (\<lambda>e. snd e \<le> now) (q_schedule st))"
    unfolding readyCandidates_def by (rule readyCandidates_keys[where sk = sk]) (rule c[THEN conjunct1])
  show "distinct (map c_key (readyCandidates E now st))"
    unfolding k by (rule distinct_filter_keys) (rule queueInvD(2)[OF inv])
  show "candOK now st c" if m: "c \<in> set (readyCandidates E now st)"
  proof -
    obtain e where e: "e \<in> set (q_schedule st)" "classifyEntry E now st e = ReadyEntry c"
      using m by (fastforce simp: readyCandidates_def split: entryClass.splits)
    then show ?thesis using c[OF e(1)] by (auto simp: candOK_def split: if_splits)
  qed
  show "key \<in> c_key ` set (readyCandidates E now st)" if "map_of (q_schedule st) key = Some t" "t \<le> now"
  proof -
    have "key \<in> set (map c_key (readyCandidates E now st))"
      unfolding k using map_of_SomeD[OF that(1)] that(2) by force
    then show ?thesis by simp
  qed
qed

text \<open>The ring holds every candidate once.\<close>

abbreviation ringCands :: "ring \<Rightarrow> readyCandidate list" where "ringCands ring \<equiv> concat (map snd ring)"

lemma mset_partition:
  "distinct rs \<Longrightarrow> (\<And>c. c \<in> set cs \<Longrightarrow> f c \<in> set rs) \<Longrightarrow>
   mset (concat (map (\<lambda>r. filter (\<lambda>c. f c = r) cs) rs)) = mset cs"
proof (induction rs arbitrary: cs)
  case (Cons r rs)
  have "mset (concat (map (\<lambda>r'. filter (\<lambda>c. f c = r') cs) rs)) =
      mset (concat (map (\<lambda>r'. filter (\<lambda>c. f c = r') (filter (\<lambda>c. f c \<noteq> r) cs)) rs))"
    using Cons.prems(1) by (intro arg_cong[where f = mset] arg_cong[where f = concat] map_cong) (auto intro: filter_cong)
  also have "\<dots> = mset (filter (\<lambda>c. f c \<noteq> r) cs)"
    using Cons.prems by (intro Cons.IH) auto
  finally have "mset (concat (map (\<lambda>r'. filter (\<lambda>c. f c = r') cs) rs)) = filter_mset (\<lambda>c. f c \<noteq> r) (mset cs)"
    by (simp add: mset_filter)
  then show ?case using multiset_partition[of "mset cs" "\<lambda>c. f c = r"] by (simp add: mset_filter)
next
  case Nil
  then show ?case by (cases cs) auto
qed

lemma readyRing_cands: "mset (ringCands (readyRing lastRound cands)) = mset cands"
proof -
  define rs where "rs = filter (\<lambda>r. \<not> r \<le> lastRound) (sorted_list_of_set (set (map (k_round \<circ> c_share) cands)))
    @ filter (\<lambda>r. r \<le> lastRound) (sorted_list_of_set (set (map (k_round \<circ> c_share) cands)))"
  have rs: "distinct rs" "\<And>c. c \<in> set cands \<Longrightarrow> k_round (c_share c) \<in> set rs" by (auto simp: rs_def)
  have "mset (ringCands (readyRing lastRound cands)) =
      mset (concat (map (\<lambda>r. filter (\<lambda>c. k_round (c_share c) = r) cands) rs))"
    by (simp add: readyRing_def Let_def rs_def mset_concat comp_def del: map_append)
  then show ?thesis using mset_partition[OF rs(1), of cands "\<lambda>c. k_round (c_share c)"] rs(2) by simp
qed

text \<open>What handling one candidate, or several, does to the store and hands out.\<close>

definition handedOut :: "shareStore \<Rightarrow> shareStore \<Rightarrow> QueuedShare \<Rightarrow> bool" where
  "handedOut st st' share \<longleftrightarrow>
     (let k = payloadKey (qs_Payload share); key = schedKey k in
      received st k \<and> waiting st key \<and> qs_State share = ShareStateReceived \<and> qs_attemptID share \<noteq> 0 \<and>
      (\<exists>active. map_of (q_inFlight st') key = Some active \<and> if_attemptID active = qs_attemptID share))"

definition onlyTouches :: "shareStore \<Rightarrow> shareStore \<Rightarrow> shareKey set \<Rightarrow> bool" where
  "onlyTouches st st' ks \<longleftrightarrow>
     (\<forall>k. k \<notin> ks \<longrightarrow> map_of (q_shares st') k = map_of (q_shares st) k) \<and>
     (\<forall>key. key \<notin> schedKey ` ks \<longrightarrow> map_of (q_schedule st') key = map_of (q_schedule st) key \<and>
        map_of (q_inFlight st') key = map_of (q_inFlight st) key)"

lemma onlyTouches_trans:
  "onlyTouches st st1 ks \<Longrightarrow> onlyTouches st1 st2 ks' \<Longrightarrow> onlyTouches st st2 (ks \<union> ks')"
  by (simp add: onlyTouches_def image_Un)

lemma onlyTouches_mono:
  assumes "onlyTouches st st' ks" "ks \<subseteq> ks'"
  shows "onlyTouches st st' ks'"
proof -
  have "k \<notin> ks' \<Longrightarrow> k \<notin> ks" "key \<notin> schedKey ` ks' \<Longrightarrow> key \<notin> schedKey ` ks" for k key
    using assms(2) by auto
  then show ?thesis using assms(1) by (simp add: onlyTouches_def)
qed

lemma handleCorrupt_inv:
  assumes inv: "queueInv st" and c: "candOK now st c"
    and h: "handleCorruptCandidateLocked E db now c st = (goOn, st')"
  shows "queueInv st'" "onlyTouches st st' {c_share c}" "goOn \<Longrightarrow> \<not> waiting st' (c_key c)"
    "db OpFail (c_share c) = Done \<Longrightarrow> goOn"
proof -
  let ?k = "c_share c"
  have key: "c_key c = schedKey ?k" and ck: "colon \<notin> set (k_round ?k)" and w: "waiting st (schedKey ?k)"
    using c by (auto simp: candOK_def)
  have idle: "AList.delete (schedKey ?k) (q_inFlight st) = q_inFlight st"
    using queueInvD(6)[OF inv w] by (intro delete_idle) simp
  have same: "queueInv st1" if "q_shares st1 = q_shares st" "q_schedule st1 = q_schedule st" "q_inFlight st1 = q_inFlight st" for st1
    by (rule queueInv_rows[OF inv, where f = id and k = ?k]) (simp_all add: that)
  have fail: "queueInv st1" if "q_shares st1 = updateRow ?k (failCorruptRow E) (q_shares st)" "q_inFlight st1 = q_inFlight st"
      "q_schedule st1 = q_schedule st \<or> q_schedule st1 = AList.delete (schedKey ?k) (q_schedule st)" for st1
    by (rule queueInv_finish[OF inv ck, where f = "failCorruptRow E"])
       (use that idle in \<open>simp_all add: failCorruptRow_def Let_def\<close>)
  note d = handleCorruptCandidateLocked_def failCorruptCandidateLocked_def Let_def primitive_defs key
  show "queueInv st'"
  proof (cases "db OpFail ?k = NotDone")
    case True
    then show ?thesis using h by (intro same) (auto simp: d)
  next
    case False
    then show ?thesis using h by (intro fail) (cases "db OpFail ?k"; auto simp: d)+
  qed
  show "onlyTouches st st' {?k}" "goOn \<Longrightarrow> \<not> waiting st' (c_key c)" "db OpFail ?k = Done \<Longrightarrow> goOn"
    using h by (cases "db OpFail ?k"; auto simp: d onlyTouches_def lookups)+
qed

lemma bindS_Inr_iff: "bindS m f = Inr b \<longleftrightarrow> (\<exists>a. m = Inr a \<and> f a = Inr b)"
  by (cases m) auto

lemma bindS_Inl_iff: "bindS m f = Inl e \<longleftrightarrow> m = Inl e \<or> (\<exists>a. m = Inr a \<and> f a = Inl e)"
  by (cases m) auto

lemma decodeRowInt_zero: "decodeRowInt c = Inr 0 \<longleftrightarrow> c = IntC 0"
  by (cases c) (auto simp: decodeRowInt_def uint_0_iff split: if_splits)

lemma decodeRow_state:
  assumes "decodeRow E k row = Inr share"
  shows "payloadKey (qs_Payload share) = k" "qs_State share = ShareStateReceived \<longleftrightarrow> r_state row = IntC 0"
  using assms
  by (auto simp: decodeRow_def payloadKey_def bindS_Inr_iff shareStateOf_def decodeRowInt_zero[symmetric]
      split: shareKey.splits option.splits if_splits)

lemma decode_Inl:
  "decodeRowText c \<noteq> Inl NoRows" "decodeRowText c \<noteq> Inl DBErr" "decodeRowUint32 c \<noteq> Inl NoRows"
  "decodeRowUint32 c \<noteq> Inl DBErr" "decodeRowUint64 c \<noteq> Inl NoRows" "decodeRowUint64 c \<noteq> Inl DBErr"
  "decodeRowInt c \<noteq> Inl NoRows" "decodeRowInt c \<noteq> Inl DBErr" "shareStateOf n \<noteq> Inl NoRows" "shareStateOf n \<noteq> Inl DBErr"
  by (cases c; simp add: decodeRowUint32_def decodeRowInt_def shareStateOf_def)+

lemma decodeRow_Inl: "decodeRow E k row \<noteq> Inl NoRows" "decodeRow E k row \<noteq> Inl DBErr"
  by (auto simp: decodeRow_def bindS_Inl_iff decode_Inl split: shareKey.splits option.splits)

lemma takeCandidate_cases:
  assumes "takeCandidate E db now c st = (goOn, share, st')"
  obtains (gone) "st' = unschedule (c_key c) st" "goOn" "share = None" "\<not> received st (c_share c)"
    | (corrupt) "handleCorruptCandidateLocked E db now c st = (goOn, st')" "share = None"
    | (error) "st' = backoffStoreLocked now st" "\<not> goOn" "share = None" "db OpLoad (c_share c) \<noteq> Done"
    | (taken) row share' n where "map_of (q_shares st) (c_share c) = Some row"
        "decodeRow E (c_share c) row = Inr share'" "qs_State share' = ShareStateReceived"
        "goOn" "share = Some (share'\<lparr>qs_attemptID := n\<rparr>)" "n \<noteq> 0"
        "q_shares st' = q_shares st" "q_schedule st' = AList.delete (c_key c) (q_schedule st)"
        "q_inFlight st' = AList.update (c_key c) \<lparr>if_roundID = k_round (c_share c),
           if_voteEndTime = qs_VoteEndTime share', if_attemptID = n\<rparr> (q_inFlight st)"
proof (cases "loadShareFrom E db (c_share c) st")
  case (Inl e)
  then show ?thesis
  proof (cases e)
    case NoRows
    then have "map_of (q_shares st) (c_share c) = None"
      using Inl by (auto simp: loadShareFrom_def decodeRow_Inl split: if_splits option.splits)
    then show ?thesis using assms Inl NoRows gone by (simp add: takeCandidate_def)
  next
    case CorruptRow
    then show ?thesis using assms Inl corrupt by (auto simp: takeCandidate_def Let_def split: prod.splits)
  next
    case DBErr
    then have "db OpLoad (c_share c) \<noteq> Done"
      using Inl by (auto simp: loadShareFrom_def decodeRow_Inl split: if_splits option.splits)
    then show ?thesis using assms Inl DBErr error by (simp add: takeCandidate_def)
  qed
next
  case (Inr share')
  then obtain row where row: "map_of (q_shares st) (c_share c) = Some row" "decodeRow E (c_share c) row = Inr share'"
    by (auto simp: loadShareFrom_def split: if_splits option.splits)
  show ?thesis
  proof (cases "qs_State share'")
    case ShareStateReceived
    then show ?thesis using assms Inr
      by (intro taken[OF row, of "if q_nextAttemptID st + 1 = 0 then q_nextAttemptID st + 1 + 1 else q_nextAttemptID st + 1"])
         (auto simp: takeCandidate_def Let_def unschedule_def)
  next
    case ShareStateWitnessed
    then show ?thesis using assms Inr corrupt by (auto simp: takeCandidate_def Let_def split: prod.splits)
  next
    case ShareStateSubmitted
    then have "\<not> received st (c_share c)" using decodeRow_state[OF row(2)] row(1) by auto
    then show ?thesis using assms Inr ShareStateSubmitted gone by (simp add: takeCandidate_def)
  next
    case ShareStateFailed
    then have "\<not> received st (c_share c)" using decodeRow_state[OF row(2)] row(1) by auto
    then show ?thesis using assms Inr ShareStateFailed gone by (simp add: takeCandidate_def)
  qed
qed

lemma queueInv_take:
  assumes inv: "queueInv st" and k: "colon \<notin> set (k_round k)" and r: "received st k"
    and "q_shares st' = q_shares st" "q_schedule st' = AList.delete (schedKey k) (q_schedule st)"
    and "q_inFlight st' = AList.update (schedKey k) active (q_inFlight st)" "if_roundID active = k_round k"
  shows "queueInv st'"
proof -
  note D = queueInvD[OF inv]
  show ?thesis unfolding queueInv_def assms(4-6)
  proof (intro conjI allI impI)
    fix key a assume "map_of (AList.update (schedKey k) active (q_inFlight st)) key = Some a"
    then show "\<exists>k'. key = schedKey k' \<and> received st k' \<and> if_roundID a = k_round k'"
      using D(8)[of key a] r assms(7) by (auto simp: lookups split: if_splits)
  next
    fix key assume "map_of (AList.delete (schedKey k) (q_schedule st)) key \<noteq> None"
    then show "\<not> map_of (AList.update (schedKey k) active (q_inFlight st)) key \<noteq> None"
      "\<exists>k'. key = schedKey k' \<and> colon \<notin> set (k_round k')"
      using D(6,7)[of key] by (auto simp: lookups split: if_splits)
  next
    fix k' assume "received st k'"
    then show "map_of (AList.delete (schedKey k) (q_schedule st)) (schedKey k') \<noteq> None \<or>
        map_of (AList.update (schedKey k) active (q_inFlight st)) (schedKey k') \<noteq> None"
      using D(5)[of k'] by (auto simp: lookups)
  next
    fix k' assume "map_of (q_shares st) k' \<noteq> None"
    then show "colon \<notin> set (k_round k')" by (rule D(4))
  qed (use D(1-3) in \<open>simp_all add: distinct_update distinct_delete\<close>)
qed

lemma takeCandidate_inv:
  assumes inv: "queueInv st" and c: "candOK now st c"
    and t: "takeCandidate E db now c st = (goOn, share, st')"
  shows "queueInv st' \<and> onlyTouches st st' {c_share c} \<and> (goOn \<longrightarrow> \<not> waiting st' (c_key c)) \<and>
    (share \<noteq> None \<longrightarrow> goOn) \<and> ((\<forall>op k. db op k = Done) \<longrightarrow> goOn) \<and>
    (\<forall>s. share = Some s \<longrightarrow> payloadKey (qs_Payload s) = c_share c \<and> handedOut st st' s)"
proof -
  let ?k = "c_share c"
  have key: "c_key c = schedKey ?k" and ck: "colon \<notin> set (k_round ?k)" and w: "waiting st (schedKey ?k)"
    using c by (auto simp: candOK_def)
  have idle: "AList.delete (schedKey ?k) (q_inFlight st) = q_inFlight st"
    using queueInvD(6)[OF inv w] by (intro delete_idle) simp
  from t show ?thesis
  proof (cases rule: takeCandidate_cases)
    case gone
    have "queueInv (unschedule (schedKey ?k) st)"
      by (rule queueInv_finish[OF inv ck, where f = id]) (use gone idle in \<open>auto simp: unschedule_def\<close>)
    then show ?thesis using gone by (simp add: key onlyTouches_def unschedule_def lookups)
  next
    case corrupt
    from handleCorrupt_inv[OF inv c corrupt(1)] show ?thesis using corrupt(2) by simp
  next
    case error
    have "queueInv (backoffStoreLocked now st)"
      by (rule queueInv_rows[OF inv, where f = id and k = ?k]) (simp_all add: backoffStoreLocked_def)
    then show ?thesis using error by (auto simp: onlyTouches_def backoffStoreLocked_def)
  next
    case (taken row share' n)
    have st: "payloadKey (qs_Payload share') = ?k" "r_state row = IntC 0" using decodeRow_state[OF taken(2)] taken(3) by simp_all
    have "queueInv st'"
      by (rule queueInv_take[OF inv ck _ taken(7) taken(8,9)[unfolded key]]) (use taken(1) st(2) in auto)
    moreover have "handedOut st st' (share'\<lparr>qs_attemptID := n\<rparr>)"
      using st taken w by (auto simp: handedOut_def Let_def key lookups)
    ultimately show ?thesis using st taken by (auto simp: onlyTouches_def key lookups)
  qed
qed

text \<open>The whole loop.\<close>

definition ringOK :: "time \<Rightarrow> shareStore \<Rightarrow> ring \<Rightarrow> bool" where
  "ringOK now st ring \<longleftrightarrow> distinct (map c_share (ringCands ring)) \<and> (\<forall>c \<in> set (ringCands ring). candOK now st c)"

lemma onlyTouches_cand:
  assumes "onlyTouches st st' {k}" "candOK now st c" "c_share c \<noteq> k" "colon \<notin> set (k_round k)"
  shows "candOK now st' c"
proof -
  have "c_key c \<noteq> schedKey k" using assms(2-4) schedKey_inject by (auto simp: candOK_def)
  then have "map_of (q_schedule st') (c_key c) = map_of (q_schedule st) (c_key c)"
    using assms(1) by (simp add: onlyTouches_def)
  then show ?thesis using assms(2) by (auto simp: candOK_def)
qed

lemma ringOK_step:
  assumes "ringOK now st ((r, c # cs) # rest)" "onlyTouches st st' {c_share c}"
  shows "ringOK now st' (rest @ [(r, cs)])"
proof -
  have d: "distinct (map c_share (c # cs @ ringCands rest))"
    and ok: "\<And>c'. c' \<in> set (c # cs @ ringCands rest) \<Longrightarrow> candOK now st c'"
    using assms(1) by (auto simp: ringOK_def)
  have "candOK now st' c'" if m: "c' \<in> set (cs @ ringCands rest)" for c'
  proof (rule onlyTouches_cand[OF assms(2)])
    show "c_share c' \<noteq> c_share c" using d m by (metis distinct.simps(2) image_eqI list.set_map list.simps(9))
    show "candOK now st c'" "colon \<notin> set (k_round (c_share c))" using ok[of c'] ok[of c] m by (auto simp: candOK_def)
  qed
  moreover have "distinct (map c_share (ringCands (rest @ [(r, cs)])))" using d by (simp add: Int_commute)
  ultimately show ?thesis by (auto simp: ringOK_def)
qed

lemma handedOut_later:
  assumes "handedOut st1 st2 s" "onlyTouches st st1 {k}" "payloadKey (qs_Payload s) \<noteq> k"
    and "colon \<notin> set (k_round k)" "colon \<notin> set (k_round (payloadKey (qs_Payload s)))"
  shows "handedOut st st2 s"
proof -
  have "schedKey (payloadKey (qs_Payload s)) \<noteq> schedKey k" using assms(3-5) schedKey_inject by blast
  then show ?thesis using assms(1-3) by (simp add: handedOut_def Let_def onlyTouches_def)
qed

lemma handedOut_earlier:
  assumes "handedOut st st1 s" "onlyTouches st1 st2 ks" "payloadKey (qs_Payload s) \<notin> ks"
    and "\<And>k. k \<in> ks \<Longrightarrow> colon \<notin> set (k_round k)" "colon \<notin> set (k_round (payloadKey (qs_Payload s)))"
  shows "handedOut st st2 s"
proof -
  have "schedKey (payloadKey (qs_Payload s)) \<notin> schedKey ` ks" using assms(3-5) schedKey_inject by blast
  then show ?thesis using assms(1,2) by (simp add: handedOut_def Let_def onlyTouches_def)
qed

definition dispatched :: "database \<Rightarrow> nat \<Rightarrow> shareStore \<Rightarrow> readyCandidate set \<Rightarrow> QueuedShare list \<Rightarrow>
    QueuedShare list \<Rightarrow> shareStore \<Rightarrow> bool" where
  "dispatched db limit st cs result shares st' \<longleftrightarrow>
     queueInv st' \<and> onlyTouches st st' (c_share ` cs) \<and> (0 < limit \<longrightarrow> length shares \<le> limit) \<and>
     ((\<forall>op k. db op k = Done) \<and> limit = 0 \<longrightarrow> (\<forall>c \<in> cs. \<not> waiting st' (c_key c))) \<and>
     (\<exists>new. shares = result @ new \<and> distinct (map (payloadKey \<circ> qs_Payload) new) \<and>
        (\<forall>s \<in> set new. payloadKey (qs_Payload s) \<in> c_share ` cs \<and> handedOut st st' s))"

lemma dispatched_stop:
  "queueInv st' \<Longrightarrow> onlyTouches st st' (c_share ` cs) \<Longrightarrow> (0 < limit \<Longrightarrow> length result \<le> limit) \<Longrightarrow>
   cs = {} \<or> 0 < limit \<or> \<not> (\<forall>op k. db op k = Done) \<Longrightarrow> dispatched db limit st cs result result st'"
  by (auto simp: dispatched_def)

lemma dispatched_step:
  assumes T: "queueInv st1 \<and> onlyTouches st st1 {c_share c} \<and> (goOn \<longrightarrow> \<not> waiting st1 (c_key c)) \<and>
      (share \<noteq> None \<longrightarrow> goOn) \<and> ((\<forall>op k. db op k = Done) \<longrightarrow> goOn) \<and>
      (\<forall>s. share = Some s \<longrightarrow> payloadKey (qs_Payload s) = c_share c \<and> handedOut st st1 s)"
    and "goOn" and IH: "dispatched db limit st1 cs (case share of None \<Rightarrow> result | Some s \<Rightarrow> result @ [s]) shares st'"
    and c: "c_share c \<notin> c_share ` cs" "\<forall>c' \<in> insert c cs. candOK now st c'"
  shows "dispatched db limit st (insert c cs) result shares st'"
proof -
  have colons: "colon \<notin> set (k_round k)" if "k \<in> c_share ` insert c cs" for k using that c(2) by (auto simp: candOK_def)
  have keys: "c_key c = schedKey (c_share c)" using c(2) by (simp add: candOK_def)
  have "schedKey (c_share c) \<notin> schedKey ` c_share ` cs" using colons c(1) schedKey_inject by (metis image_iff image_insert insertCI)
  then have still: "waiting st' (c_key c) \<longleftrightarrow> waiting st1 (c_key c)"
    using IH unfolding keys dispatched_def onlyTouches_def by simp
  obtain new where new: "shares = (case share of None \<Rightarrow> result | Some s \<Rightarrow> result @ [s]) @ new"
      "distinct (map (payloadKey \<circ> qs_Payload) new)"
      "\<forall>s \<in> set new. payloadKey (qs_Payload s) \<in> c_share ` cs \<and> handedOut st1 st' s"
    using IH by (auto simp: dispatched_def)
  have later: "handedOut st st' s" if "s \<in> set new" for s
  proof (rule handedOut_later)
    show "handedOut st1 st' s" "onlyTouches st st1 {c_share c}" using new(3) that T by blast+
    have m: "payloadKey (qs_Payload s) \<in> c_share ` cs" using new(3) that by blast
    then show "payloadKey (qs_Payload s) \<noteq> c_share c" using c(1) by metis
    show "colon \<notin> set (k_round (c_share c))" "colon \<notin> set (k_round (payloadKey (qs_Payload s)))"
      using colons m by simp_all
  qed
  have first: "handedOut st st' s" if "share = Some s" for s
  proof (rule handedOut_earlier)
    have s: "payloadKey (qs_Payload s) = c_share c" "handedOut st st1 s" using T that by blast+
    show "handedOut st st1 s" by (rule s(2))
    show "onlyTouches st1 st' (c_share ` cs)" using IH by (simp add: dispatched_def)
    show "payloadKey (qs_Payload s) \<notin> c_share ` cs" using s c(1) by simp
    show "\<And>k. k \<in> c_share ` cs \<Longrightarrow> colon \<notin> set (k_round k)" "colon \<notin> set (k_round (payloadKey (qs_Payload s)))"
      using s colons by simp_all
  qed
  have touch: "onlyTouches st st' (c_share ` insert c cs)"
    using onlyTouches_trans[of st st1 "{c_share c}" st' "c_share ` cs"] T IH by (simp add: dispatched_def)
  define all where "all = (case share of None \<Rightarrow> new | Some s \<Rightarrow> s # new)"
  have "shares = result @ all" using new(1) by (simp add: all_def split: option.splits)
  moreover have "distinct (map (payloadKey \<circ> qs_Payload) all)"
    using new(2,3) T c(1) by (auto simp: all_def split: option.splits)
  moreover have "\<forall>s \<in> set all. payloadKey (qs_Payload s) \<in> c_share ` insert c cs \<and> handedOut st st' s"
    using new(3) later first T by (auto simp: all_def split: option.splits)
  moreover have "queueInv st'" "0 < limit \<longrightarrow> length shares \<le> limit"
    "(\<forall>op k. db op k = Done) \<and> limit = 0 \<longrightarrow> (\<forall>c' \<in> insert c cs. \<not> waiting st' (c_key c'))"
    using IH T \<open>goOn\<close> still by (auto simp: dispatched_def)
  ultimately show ?thesis using touch unfolding dispatched_def by blast
qed

lemma takeLoop_stop:
  "remaining ring = 0 \<or> limit > 0 \<and> length result \<ge> limit \<Longrightarrow> takeLoop E db now limit ring result st = (result, st)"
  by (subst takeLoop.simps) simp

lemma takeLoop_skip:
  "\<not> (remaining rest = 0 \<or> limit > 0 \<and> length result \<ge> limit) \<Longrightarrow>
   takeLoop E db now limit ((r, []) # rest) result st = takeLoop E db now limit (rest @ [(r, [])]) result st"
  by (subst takeLoop.simps) auto

lemma takeLoop_cand:
  assumes "\<not> (limit > 0 \<and> length result \<ge> limit)" "takeCandidate E db now c st = (goOn, share, st1)"
  shows "takeLoop E db now limit ((r, c # cs) # rest) result st =
    (if goOn then takeLoop E db now limit (rest @ [(r, cs)]) (case share of None \<Rightarrow> result | Some s \<Rightarrow> result @ [s]) st1
     else (result, st1))"
  using assms by (subst takeLoop.simps) (auto split: option.split)

lemma takeLoop_inv:
  assumes "queueInv st" "ringOK now st ring" "takeLoop E db now limit ring result st = (shares, st')"
    and "0 < limit \<Longrightarrow> length result \<le> limit"
  shows "dispatched db limit st (set (ringCands ring)) result shares st'"
  using assms
proof (induction E db now limit ring result st rule: takeLoop.induct)
  case (1 E db now limit ring result st)
  note inv = 1(4) and ok = 1(5) and loop = 1(6) and len = 1(7)
  show ?case
  proof (cases "remaining ring = 0 \<or> limit > 0 \<and> length result \<ge> limit")
    case True
    have "ringCands ring = []" if "remaining ring = 0" using that by (induction ring) auto
    moreover have "shares = result" "st' = st" using loop takeLoop_stop[OF True] by simp_all
    moreover have "onlyTouches st st X" for X by (simp add: onlyTouches_def)
    moreover have "set (ringCands ring) = {} \<or> 0 < limit" using True calculation(1) by (metis empty_set)
    ultimately show ?thesis using inv len dispatched_stop[of st st "set (ringCands ring)" limit result db] by blast
  next
    case go: False
    then obtain r cs' rest where ring: "ring = (r, cs') # rest" by (cases ring) auto
    show ?thesis
    proof (cases cs')
      case Nil
      have l: "takeLoop E db now limit (rest @ [(r, [])]) result st = (shares, st')"
        using loop takeLoop_skip[of rest limit result] go by (simp add: ring Nil)
      have "ringOK now st (rest @ [(r, [])])" using ok by (simp add: ring Nil ringOK_def)
      from 1(1)[OF go ring refl Nil inv this l len] show ?thesis by (simp add: ring Nil)
    next
      case (Cons c cs)
      obtain goOn share st1 where t: "takeCandidate E db now c st = (goOn, share, st1)" by (metis prod_cases3)
      have c: "candOK now st c" using ok by (simp add: ring Cons ringOK_def)
      note T = takeCandidate_inv[OF inv c t]
      have lim: "\<not> (limit > 0 \<and> length result \<ge> limit)" using go by simp
      have cands: "set (ringCands ring) = insert c (set (ringCands (rest @ [(r, cs)])))" by (auto simp: ring Cons)
      show ?thesis
      proof (cases goOn)
        case False
        then have e: "shares = result" "st' = st1" using loop takeLoop_cand[OF lim t] by (simp_all add: ring Cons)
        have "onlyTouches st st1 (c_share ` set (ringCands ring))"
          using T unfolding cands onlyTouches_def by simp
        then show ?thesis using T False len unfolding e by (intro dispatched_stop) auto
      next
        case True
        define result' where "result' = (case share of None \<Rightarrow> result | Some s \<Rightarrow> result @ [s])"
        have l: "takeLoop E db now limit (rest @ [(r, cs)]) result' st1 = (shares, st')"
          using loop takeLoop_cand[OF lim t] True by (simp add: ring Cons result'_def)
        have "ringOK now st1 (rest @ [(r, cs)])" by (rule ringOK_step[of now st r c cs rest]) (use ok T in \<open>simp_all add: ring Cons\<close>)
        moreover have "0 < limit \<Longrightarrow> length result' \<le> limit" using lim by (auto simp: result'_def split: option.splits)
        ultimately have IH: "dispatched db limit st1 (set (ringCands (rest @ [(r, cs)]))) result' shares st'"
          using T l 1(2)[OF go ring refl Cons t[symmetric], of share st1] 1(3)[OF go ring refl Cons t[symmetric], of share st1] True
          by (cases share) (auto simp: result'_def)
        show ?thesis unfolding cands
        proof (rule dispatched_step[OF T True IH[unfolded result'_def]])
          show "\<forall>c' \<in> insert c (set (ringCands (rest @ [(r, cs)]))). candOK now st c'"
            using ok by (auto simp: ringOK_def ring Cons)
          show "c_share c \<notin> c_share ` set (ringCands (rest @ [(r, cs)]))"
            using ok by (auto simp: ringOK_def ring Cons)
        qed
      qed
    qed
  qed
qed

lemma takeReady_dispatched:
  assumes inv: "queueInv st" and t: "takeReady E db now limit st = (shares, st')" and now: "q_dequeueRetryUntil st \<le> now"
  shows "dispatched db limit st {c. candOK now st c} [] shares st'"
proof -
  define st0 where "st0 = st\<lparr>q_dequeueRetryUntil := zeroTime\<rparr>"
  define cands where "cands = readyCandidates E now st0"
  have same: "q_shares st0 = q_shares st" "q_schedule st0 = q_schedule st" "q_inFlight st0 = q_inFlight st"
    by (simp_all add: st0_def)
  have inv0: "queueInv st0"
    by (rule queueInv_rows[OF inv, where f = id and k = "ShareKey [] 0 0 0"]) (simp_all add: same)
  have ok: "\<And>c. candOK now st0 c \<longleftrightarrow> candOK now st c" by (simp add: candOK_def same)
  note R = readyCandidates_inv[OF inv0, where E = E and now = now, folded cands_def]
  have run: "takeReady E db now limit st = (if cands = [] then ([], st0)
      else takeLoop E db now limit (readyRing (q_lastReadyRound st0) cands) [] st0)"
    using now pruneSchedule_inv[OF inv0, of E now]
    by (simp add: takeReady_def Let_def st0_def[symmetric] cands_def)
  have d0: "dispatched db limit st0 (set cands) [] shares st'"
  proof (cases "cands = []")
    case True
    then show ?thesis using t run inv0 by (auto intro!: dispatched_stop simp: onlyTouches_def)
  next
    case False
    note m = readyRing_cands[of "q_lastReadyRound st0" cands]
    have "distinct (map schedKey (map c_share cands))"
    proof -
      have "map schedKey (map c_share cands) = map c_key cands" using R(2) by (simp add: candOK_def)
      then show ?thesis using R(1) by (simp only:)
    qed
    then have "distinct (map c_share cands)" by (simp only: distinct_map)
    then have "distinct (map c_share (ringCands (readyRing (q_lastReadyRound st0) cands)))"
      using m mset_eq_imp_distinct_iff[of "map c_share cands"] by (metis mset_map)
    moreover have "set (ringCands (readyRing (q_lastReadyRound st0) cands)) = set cands" by (rule mset_eq_setD[OF m])
    ultimately have "ringOK now st0 (readyRing (q_lastReadyRound st0) cands)"
      and e: "set (ringCands (readyRing (q_lastReadyRound st0) cands)) = set cands"
      using R(2) unfolding ringOK_def by blast+
    then show ?thesis
      using takeLoop_inv[OF inv0, of now "readyRing (q_lastReadyRound st0) cands" E db limit "[]" shares st'] t run False
      unfolding e by simp
  qed
  have sub: "set cands \<subseteq> {c. candOK now st c}" using R(2) ok by blast
  have all: "c_key c \<in> c_key ` set cands" if "candOK now st c" for c
  proof (rule R(3)[of "c_key c" "c_scheduledAt c"])
    show "map_of (q_schedule st0) (c_key c) = Some (c_scheduledAt c)" "c_scheduledAt c \<le> now"
      using that by (auto simp: candOK_def same)
  qed
  have h: "handedOut st0 st' s \<longleftrightarrow> handedOut st st' s" for s by (simp add: handedOut_def same)
  have o: "onlyTouches st0 st' ks \<longleftrightarrow> onlyTouches st st' ks" for ks by (simp add: onlyTouches_def same)
  have "onlyTouches st st' (c_share ` {c. candOK now st c})"
    using d0 onlyTouches_mono[OF _ image_mono[OF sub], of st st'] unfolding dispatched_def o by simp
  moreover have "\<not> waiting st' (c_key c)" if u: "(\<forall>op k. db op k = Done) \<and> limit = 0" "candOK now st c" for c
  proof -
    obtain c' where "c' \<in> set cands" "c_key c = c_key c'" using all[OF u(2)] by auto
    then show ?thesis using d0 u(1) by (simp add: dispatched_def)
  qed
  moreover obtain new where "shares = [] @ new" "distinct (map (payloadKey \<circ> qs_Payload) new)"
    "\<forall>s \<in> set new. payloadKey (qs_Payload s) \<in> c_share ` set cands \<and> handedOut st st' s"
    using d0 unfolding dispatched_def h by blast
  moreover have "queueInv st'" "0 < limit \<longrightarrow> length shares \<le> limit" using d0 by (simp_all add: dispatched_def)
  ultimately show ?thesis using image_mono[OF sub, of c_share] unfolding dispatched_def by blast
qed

text \<open>
  A dispatch hands out only shares whose time has come and whose row is in the received
  state, none of them twice and none that a worker already owns; each is owned under the
  attempt number it carries afterwards, and no more than the limit are taken. When no
  statement fails and there is no limit, nothing that is due stays behind.
\<close>

lemma dispatch_exact:
  assumes inv: "queueInv st" and t: "takeReady E db now limit st = (shares, st')"
  shows "distinct (map (payloadKey \<circ> qs_Payload) shares) \<and> (0 < limit \<longrightarrow> length shares \<le> limit) \<and>
    (\<forall>s \<in> set shares. let k = payloadKey (qs_Payload s); key = schedKey k in
       received st k \<and> \<not> owned st key \<and> (\<exists>t \<le> now. map_of (q_schedule st) key = Some t) \<and>
       (\<exists>active. map_of (q_inFlight st') key = Some active \<and> if_attemptID active = qs_attemptID s \<and> qs_attemptID s \<noteq> 0)) \<and>
    ((\<forall>op k. db op k = Done) \<and> limit = 0 \<and> q_dequeueRetryUntil st \<le> now \<longrightarrow>
       (\<forall>key t. map_of (q_schedule st') key = Some t \<longrightarrow> now < t))"
proof (cases "q_dequeueRetryUntil st \<le> now")
  case True
  note d = takeReady_dispatched[OF inv t True]
  note D = queueInvD[OF inv]
  have "let k = payloadKey (qs_Payload s); key = schedKey k in
       received st k \<and> \<not> owned st key \<and> (\<exists>t \<le> now. map_of (q_schedule st) key = Some t) \<and>
       (\<exists>active. map_of (q_inFlight st') key = Some active \<and> if_attemptID active = qs_attemptID s \<and> qs_attemptID s \<noteq> 0)"
    if m: "s \<in> set shares" for s
  proof -
    have "payloadKey (qs_Payload s) \<in> c_share ` {c. candOK now st c}" and h: "handedOut st st' s"
      using d m unfolding dispatched_def by force+
    then obtain c where c: "candOK now st c" "payloadKey (qs_Payload s) = c_share c" by blast
    have "map_of (q_schedule st) (schedKey (c_share c)) = Some (c_scheduledAt c)" "c_scheduledAt c \<le> now"
      using c(1) by (auto simp: candOK_def)
    then show ?thesis using h D(6)[of "schedKey (c_share c)"] unfolding handedOut_def Let_def c(2) by auto
  qed
  moreover have "now < t" if all: "\<forall>op k. db op k = Done" "limit = 0" and w: "map_of (q_schedule st') key = Some t" for key t
  proof (rule ccontr)
    assume "\<not> now < t"
    have gone: "\<not> waiting st' (c_key c)" if "candOK now st c" for c using d all that by (simp add: dispatched_def)
    have "key \<notin> schedKey ` c_share ` {c. candOK now st c}" using gone w by (auto simp: candOK_def)
    then have s: "map_of (q_schedule st) key = Some t" using d w by (simp add: dispatched_def onlyTouches_def)
    then obtain k where "key = schedKey k" "colon \<notin> set (k_round k)" using D(7)[of key] by auto
    then have "candOK now st \<lparr>c_key = key, c_share = k, c_scheduledAt = t, c_rank = []\<rparr>"
      using s \<open>\<not> now < t\<close> by (simp add: candOK_def)
    from gone[OF this] show False using w by simp
  qed
  ultimately show ?thesis using d unfolding dispatched_def by auto
next
  case False
  then show ?thesis using t by (auto simp: takeReady_def)
qed

text \<open>A queue with one share, due one second after it was received.\<close>

definition sampleQueueEnv :: queueEnv where
  "sampleQueueEnv = \<lparr>commsEncode = concat, commsDecode = (\<lambda>s. Some [s]), retryEncode = (\<lambda>_. Some [1]),
     retryDecode = (\<lambda>_. None), scheduleRank = (\<lambda>key. key),
     sqlNumber = (\<lambda>c. case c of IntC n \<Rightarrow> sint n | _ \<Rightarrow> 0)\<rparr>"

definition samplePayload :: SharePayload where
  "samplePayload = \<lparr>sp_SharesHash = str ''hash'', sp_ProposalID = 1, sp_VoteDecision = 0,
     sp_EncShare = \<lparr>es_C1 = str ''c1'', es_C2 = str ''c2'', es_ShareIndex = 2\<rparr>, sp_TreePosition = 7,
     sp_VoteRoundID = str ''ab'', sp_ShareComms = [str ''comm''], sp_PrimaryBlind = str ''blind'', sp_SubmitAt = 5\<rparr>"

definition sampleRow :: shareRow where
  "sampleRow = payloadRow sampleQueueEnv (4 * Second) samplePayload
     \<lparr>ri_CreatedAtTime = 1, ri_VoteEndTime = 60\<rparr> (TextC [])"

definition sampleQueue :: shareStore where
  "sampleQueue = (case NewShareStore (4 * Second) [(payloadKey samplePayload, sampleRow)] [] of Inr st \<Rightarrow> st
     | Inl _ \<Rightarrow> emptyStore [] [])"

lemma sampleQueue_started:
  "NewShareStore (4 * Second) [(payloadKey samplePayload, sampleRow)] [] = Inr sampleQueue"
  by code_simp

lemma sampleQueue_inv: "queueInv sampleQueue"
  by (rule NewShareStore_inv[OF sampleQueue_started]) (auto simp: payloadKey_def samplePayload_def str_def colon_def)

end
