(* ===== verification/Ecies.thy ===== *)
theory Ecies
  imports ElGamal
begin

text \<open>
  The hybrid encryption of \<^verbatim>\<open>src/crypto/ecies/ecies.go\<close>, with which a dealer sends a
  share to another validator. The authenticated cipher (ChaCha20-Poly1305 under the zero
  nonce) is a parameter, with the laws \<open>aead_ok\<close>: opening inverts sealing, and a sealed
  text is 16 bytes longer. A failure of the random source is \<open>None\<close>.
\<close>

section \<open>Encryption\<close>

record aead =
  Seal :: "bytes \<Rightarrow> bytes \<Rightarrow> bytes"
  Open :: "bytes \<Rightarrow> bytes \<Rightarrow> bytes option"

definition aead_ok :: "aead \<Rightarrow> bool" where
  "aead_ok A \<longleftrightarrow> (\<forall>k m. Open A k (Seal A k m) = Some m \<and> length (Seal A k m) = length m + 16)"

definition Overhead :: nat where "Overhead = 16"

record 'p Envelope =
  env_Ephemeral :: 'p
  env_Ciphertext :: bytes

definition validatePoint :: "('s, 'p::ab_group_add) curve \<Rightarrow> 'p \<Rightarrow> unit res" where
  "validatePoint C p = failIfR (p = 0) ErrOther (failIfR (\<not> IsOnCurve C p) ErrOther (Inr ()))"

text \<open>The sign bit of the compressed encoding is cleared; a point always compresses to 32 bytes.\<close>

definition xCoordinate :: "('s, 'p) curve \<Rightarrow> 'p \<Rightarrow> bytes" where
  "xCoordinate C p = (let x = ToAffineCompressed C p in x[31 := and (x ! 31) 0x7F])"

definition deriveKey :: "lib \<Rightarrow> ('s, 'p) curve \<Rightarrow> 'p \<Rightarrow> 'p \<Rightarrow> bytes" where
  "deriveKey L C E S = write32 (sha256 L (ToAffineCompressed C E @ xCoordinate C S))"

definition encryptWithEphemeral ::
  "lib \<Rightarrow> ('s, 'p::ab_group_add) curve \<Rightarrow> aead \<Rightarrow> 'p \<Rightarrow> 'p \<Rightarrow> bytes \<Rightarrow> 's \<Rightarrow> 'p Envelope res" where
  "encryptWithEphemeral L C A G recipientPK plaintext e =
     (let E = Mul C G e in
     bindR (validatePoint C E) (\<lambda>_.
     let S = Mul C recipientPK e in
     failIfR (S = 0) ErrOther (
     let key = deriveKey L C E S in
     Inr \<lparr>env_Ephemeral = E, env_Ciphertext = Seal A key plaintext\<rparr>)))"

definition Encrypt ::
  "lib \<Rightarrow> ('s, 'p::ab_group_add) curve \<Rightarrow> aead \<Rightarrow> 'p \<Rightarrow> 'p \<Rightarrow> bytes \<Rightarrow> bytes option \<Rightarrow> 'p Envelope res" where
  "Encrypt L C A G recipientPK plaintext seed =
     bindR (validatePoint C G) (\<lambda>_.
     bindR (validatePoint C recipientPK) (\<lambda>_.
     failIfR (length plaintext = 0) ErrOther (
     (case seed of
        None \<Rightarrow> Inl ErrOther
      | Some sd \<Rightarrow> encryptWithEphemeral L C A G recipientPK plaintext (ScalarHash C sd)))))"

definition decryptWithCheckedInputs ::
  "lib \<Rightarrow> ('s, 'p::ab_group_add) curve \<Rightarrow> aead \<Rightarrow> 's \<Rightarrow> 'p Envelope \<Rightarrow> bytes res" where
  "decryptWithCheckedInputs L C A recipientSK env =
     (let S = Mul C (env_Ephemeral env) recipientSK in
     failIfR (S = 0) ErrOther (
     let key = deriveKey L C (env_Ephemeral env) S in
     (case Open A key (env_Ciphertext env) of None \<Rightarrow> Inl ErrOther | Some plaintext \<Rightarrow> Inr plaintext)))"

definition Decrypt ::
  "lib \<Rightarrow> ('s::field, 'p::ab_group_add) curve \<Rightarrow> aead \<Rightarrow> 's \<Rightarrow> 'p Envelope \<Rightarrow> bytes res" where
  "Decrypt L C A recipientSK env =
     failIfR (recipientSK = 0) ErrOther (
     bindR (validatePoint C (env_Ephemeral env)) (\<lambda>_.
     failIfR (length (env_Ciphertext env) < Overhead) ErrOther (
     decryptWithCheckedInputs L C A recipientSK env)))"

section \<open>Round trip\<close>

lemma validatePoint_Inr [simp]: "validatePoint C p = Inr u \<longleftrightarrow> p \<noteq> 0 \<and> IsOnCurve C p"
  by (simp add: validatePoint_def)

text \<open>What was encrypted to a key pair's public key is decrypted by its secret key.\<close>

lemma Decrypt_Encrypt:
  assumes "curve_ok C" and "aead_ok A" and "Encrypt L C A G (Mul C G sk) m seed = Inr env"
  shows "Decrypt L C A sk env = Inr m \<and> env_Ephemeral env \<noteq> 0"
proof -
  from assms(3) obtain sd where sd: "Mul C G sk \<noteq> 0"
    "encryptWithEphemeral L C A G (Mul C G sk) m (ScalarHash C sd) = Inr env"
    by (auto simp: Encrypt_def bindR_Inr_iff split: option.splits)
  let ?e = "ScalarHash C sd"
  have env: "Mul C G ?e \<noteq> 0" "Mul C (Mul C G sk) ?e \<noteq> 0"
    "env = \<lparr>env_Ephemeral = Mul C G ?e,
       env_Ciphertext = Seal A (deriveKey L C (Mul C G ?e) (Mul C (Mul C G sk) ?e)) m\<rparr>"
    using sd(2) by (auto simp: encryptWithEphemeral_def Let_def bindR_Inr_iff)
  have "Mul C (Mul C G ?e) sk = Mul C (Mul C G sk) ?e" by (simp add: Mul_Mul[OF assms(1)] mult.commute)
  moreover have "sk \<noteq> 0" using sd(1) Mul_0[OF assms(1)] by auto
  ultimately show ?thesis
    using env assms(2) onCurve[OF assms(1)]
    by (simp add: Decrypt_def decryptWithCheckedInputs_def bindR_Inr_iff aead_ok_def Overhead_def Let_def validatePoint_def)
qed

end
