(* ===== verification/Injectors.thy ===== *)
theory Injectors
  imports Proposal Ecies "HOL-Library.AList"
begin

text \<open>
  What a block proposer does for the ceremony and for the tally besides the tally itself:
  the injectors of \<^verbatim>\<open>src/app/prepare_proposal_ceremony.go\<close> (distributed key generation
  and acknowledgement) and \<^verbatim>\<open>src/app/prepare_proposal_partial_decrypt.go\<close>.

  They work on the validator's own state, the record \<open>node\<close>: the store of the vote module,
  the files of the ceremony directory by name, and the cache of key shares. Whether the
  operating system lets a file be written, opened or removed is a parameter (\<open>fsOps\<close>), and
  so are the random values (scalars, seeds) and the contents of the key file. Overwriting
  scalars and buffers in memory has no counterpart; logging and error reports neither.

  The lemmas show that a share recovered by the acknowledgement is the one the chain's
  verification key is for, that honest contributions make every acknowledgement succeed, that
  the partial decryptions made with the share are accepted by the proposal checks and by the
  handler, and that a proposal prepared with these injectors is never rejected for its share
  submissions.
\<close>

section \<open>The validator's state\<close>

type_synonym files = "(gostring \<times> bytes) list"

record 's node =
  n_kv :: vkv
  n_files :: files
  n_shareCache :: "(gostring \<times> 's) list"

record fsOps =
  canWrite :: "gostring \<Rightarrow> bool"
  canOpen :: "gostring \<Rightarrow> bool"
  canRemove :: "gostring \<Rightarrow> bool"

definition kvN :: "(vkv, 'a) M \<Rightarrow> ('s node, 'a) M" where
  "kvN m = (\<lambda>n. case m (n_kv n) of (r, s) \<Rightarrow> (r, n\<lparr>n_kv := s\<rparr>))"

definition readFile :: "gostring \<Rightarrow> ('s node, bytes) M" where
  "readFile name = (\<lambda>n. case map_of (n_files n) name of None \<Rightarrow> (Inl ErrOther, n) | Some b \<Rightarrow> (Inr b, n))"

definition writeFile :: "fsOps \<Rightarrow> gostring \<Rightarrow> bytes \<Rightarrow> ('s node, unit) M" where
  "writeFile F name data =
     failIf (\<not> canWrite F name) ErrOther (
     modifyM (\<lambda>n. n\<lparr>n_files := AList.update name data (n_files n)\<rparr>))"

text \<open>\<^verbatim>\<open>hex.DecodeString\<close>: digits of either case, in pairs.\<close>

definition fromHexChar :: "u8 \<Rightarrow> u8 option" where
  "fromHexChar c =
     (if 48 \<le> c \<and> c \<le> 57 then Some (c - 48)
      else if 97 \<le> c \<and> c \<le> 102 then Some (c - 87)
      else if 65 \<le> c \<and> c \<le> 70 then Some (c - 55)
      else None)"

fun hexDecode :: "gostring \<Rightarrow> bytes option" where
  "hexDecode [] = Some []"
| "hexDecode (a # b # cs) =
     (case (fromHexChar a, fromHexChar b, hexDecode cs) of
        (Some x, Some y, Some bs) \<Rightarrow> Some ((16 * x + y) # bs)
      | _ \<Rightarrow> None)"
| "hexDecode _ = None"

definition sharePathForRound :: "bytes \<Rightarrow> gostring" where
  "sharePathForRound roundID = str ''share.'' @ hexEncode roundID"

definition coeffsPathForRound :: "bytes \<Rightarrow> gostring" where
  "coeffsPathForRound roundID = str ''coeffs.'' @ hexEncode roundID"

definition writeCoeffs :: "('s, 'p) curve \<Rightarrow> fsOps \<Rightarrow> gostring \<Rightarrow> 's list \<Rightarrow> ('s node, unit) M" where
  "writeCoeffs C F path coeffs = writeFile F path (concat (map (ScalarBytes C) coeffs))"

definition loadCoeffs :: "('s, 'p) curve \<Rightarrow> gostring \<Rightarrow> nat \<Rightarrow> ('s node, 's list) M" where
  "loadCoeffs C path expectedT =
     bindM (readFile path) (\<lambda>raw.
     failIf (length raw \<noteq> expectedT * 32) ErrOther (
     liftR (mapR (\<lambda>i. case ScalarSetBytes C (take 32 (drop (i * 32) raw)) of
         None \<Rightarrow> Inl ErrOther | Some s \<Rightarrow> Inr s) [0..<expectedT])))"

text \<open>Overwrite with zeros, then remove; each step may fail and is then skipped.\<close>

definition zeroAndDelete :: "fsOps \<Rightarrow> gostring \<Rightarrow> (bytes \<Rightarrow> bytes) \<Rightarrow> files \<Rightarrow> files" where
  "zeroAndDelete F name zero files =
     (case map_of files name of
        None \<Rightarrow> files
      | Some data \<Rightarrow>
          if \<not> canOpen F name then files
          else if canRemove F name then filter (\<lambda>f. fst f \<noteq> name) files
          else AList.update name (zero data) files)"

definition zeroAndDeleteCoeffsFile :: "fsOps \<Rightarrow> gostring \<Rightarrow> bytes \<Rightarrow> ('s node, unit) M" where
  "zeroAndDeleteCoeffsFile F dir roundID =
     (if dir = [] then returnM ()
      else modifyM (\<lambda>n. n\<lparr>n_files := zeroAndDelete F (coeffsPathForRound roundID)
        (\<lambda>data. replicate (length data) 0) (n_files n)\<rparr>))"

definition zeroAndDeleteShareFile :: "fsOps \<Rightarrow> gostring \<Rightarrow> bytes \<Rightarrow> ('s node, unit) M" where
  "zeroAndDeleteShareFile F dir roundID =
     (if dir = [] then returnM ()
      else modifyM (\<lambda>n. n\<lparr>n_files := zeroAndDelete F (sharePathForRound roundID)
        (\<lambda>data. replicate 32 0 @ drop 32 data) (n_files n)\<rparr>))"

definition loadShareForRound :: "('s::field, 'p) curve \<Rightarrow> gostring \<Rightarrow> bytes \<Rightarrow> ('s node, 's) M" where
  "loadShareForRound C dir roundID =
     failIf (dir = []) ErrOther (
     bindM (readFile (sharePathForRound roundID)) (\<lambda>raw. liftR (UnmarshalSecretKey C raw)))"

text \<open>The guarded loader of the validator's key: \<open>raw\<close> is what reading the key file returns.\<close>

definition pallasSkLoader :: "('s::field, 'p) curve \<Rightarrow> gostring \<Rightarrow> bytes res \<Rightarrow> 's res" where
  "pallasSkLoader C pallasSkPath raw =
     failIfR (pallasSkPath = []) ErrOther (bindR raw (UnmarshalSecretKey C))"

section \<open>Contributing to the key generation\<close>

record dkgRandom =
  rnd_proofSeeds :: "bytes option list"
  rnd_ecies :: "nat \<Rightarrow> bytes option"

text \<open>The loop over the ceremony validators that encrypts the shares.\<close>

fun dealLoop ::
  "lib \<Rightarrow> ('s::field, 'p::ab_group_add) curve \<Rightarrow> aead \<Rightarrow> dkgRandom \<Rightarrow> gostring \<Rightarrow> 's Share list \<Rightarrow> nat \<Rightarrow>
   ValidatorPallasKey list \<Rightarrow> DealerPayload list res" where
  "dealLoop L C A R proposerValAddr shares i [] = Inr []"
| "dealLoop L C A R proposerValAddr shares i (v # vs) =
     (if vpk_validator_address v = proposerValAddr then dealLoop L C A R proposerValAddr shares (Suc i) vs
      else
        bindR (UnmarshalPublicKey C (vpk_pallas_pk v)) (\<lambda>recipientPk.
        failIfR (i \<ge> length shares) GoPanic (
        bindR (Encrypt L C A (PallasGenerator C) recipientPk
          (ScalarBytes C (share_value (shares ! i))) (rnd_ecies R i)) (\<lambda>env.
        bindR (dealLoop L C A R proposerValAddr shares (Suc i) vs) (\<lambda>payloads.
        Inr (\<lparr>dp_validator_address = vpk_validator_address v,
              dp_ephemeral_pk = ToAffineCompressed C (env_Ephemeral env),
              dp_ciphertext = env_Ciphertext env\<rparr> # payloads))))))"

definition CeremonyDKGContributionPrepareProposalHandler ::
  "('x, 'h) env \<Rightarrow> ('s::field, 'p::ab_group_add) curve \<Rightarrow> proto \<Rightarrow> aead \<Rightarrow> fsOps \<Rightarrow> 's res \<Rightarrow> gostring \<Rightarrow>
   's \<Rightarrow> (nat \<Rightarrow> 's) \<Rightarrow> dkgRandom \<Rightarrow> 'x \<Rightarrow> ctx \<Rightarrow> bytes list \<Rightarrow> ('s node, bytes list) M" where
  "CeremonyDKGContributionPrepareProposalHandler E C P A F pallasSk ceremonyDir secret coeffRnd R x c txs =
     orReturn (liftR pallasSk) txs (\<lambda>_.
     orReturn (liftR (resolveProposer E x (proposer_address c))) txs (\<lambda>proposerValAddr.
     orReturn (kvN (FindFirstPendingRound CEREMONY_STATUS_REGISTERING)) txs (\<lambda>result.
     (case result of
        None \<Rightarrow> returnM txs
      | Some rd \<Rightarrow>
          if FindValidatorInRoundCeremony rd proposerValAddr = None then returnM txs
          else if FindContributionInRound rd proposerValAddr \<noteq> None then returnM txs
          else
            let G = PallasGenerator C; n = int (length (ceremony_validators rd)) in
            orReturn (liftR (ThresholdForN n)) txs (\<lambda>t.
            orReturn (liftR (Split coeffRnd secret t n)) txs (\<lambda>(shares, coeffs).
            orReturn (liftR (FeldmanCommit C G coeffs)) txs (\<lambda>commitmentPts.
            let feldmanCommitments = map (ToAffineCompressed C) commitmentPts in
            orReturn (liftR (GenerateConstantTermProof (envLib E) C (hd coeffs) (chain_id c)
              (vote_round_id rd) proposerValAddr feldmanCommitments (rnd_proofSeeds R))) txs (\<lambda>constantTermProof.
            orReturn (if ceremonyDir \<noteq> []
              then writeCoeffs C F (coeffsPathForRound (vote_round_id rd)) coeffs else returnM ()) txs (\<lambda>_.
            orReturn (liftR (dealLoop (envLib E) C A R proposerValAddr shares 0 (ceremony_validators rd))) txs (\<lambda>payloads.
            orReturn (liftR (EncodeCeremonyTx P (ContributeDKGMsg
              \<lparr>mdk_creator = proposerValAddr, mdk_vote_round_id = vote_round_id rd,
               mdk_feldman_commitments = feldmanCommitments, mdk_payloads = payloads,
               mdk_constant_term_proof = constantTermProof\<rparr>) TagContributeDKG)) txs (\<lambda>txBytes.
            returnM (txBytes # txs))))))))))))"

section \<open>Acknowledging\<close>

text \<open>The share another contributor sent: decrypted, and checked against its commitments.\<close>

definition contributedShare ::
  "lib \<Rightarrow> ('s::field, 'p::ab_group_add) curve \<Rightarrow> aead \<Rightarrow> 's \<Rightarrow> gostring \<Rightarrow> int \<Rightarrow> DKGContribution \<Rightarrow> 's res" where
  "contributedShare L C A pallasSk proposerValAddr shamirIndex contrib =
     (case find (\<lambda>p. dp_validator_address p = proposerValAddr) (dkg_payloads contrib) of
        None \<Rightarrow> Inl ErrOther
      | Some payload \<Rightarrow>
          bindR (UnmarshalPublicKey C (dp_ephemeral_pk payload)) (\<lambda>ephPk.
          bindR (Decrypt L C A pallasSk \<lparr>env_Ephemeral = ephPk, env_Ciphertext = dp_ciphertext payload\<rparr>) (\<lambda>shareBytes.
          bindR (UnmarshalSecretKey C shareBytes) (\<lambda>shareSk.
          bindR (deserializeFeldmanCommitments C (dkg_feldman_commitments contrib)) (\<lambda>contribCommitments.
          bindR (VerifyFeldmanShare C (PallasGenerator C) contribCommitments shamirIndex shareSk) (\<lambda>ok.
          failIfR (\<not> ok) ErrOther (
          Inr shareSk)))))))"

fun combineShares ::
  "lib \<Rightarrow> ('s::field, 'p::ab_group_add) curve \<Rightarrow> aead \<Rightarrow> 's \<Rightarrow> gostring \<Rightarrow> int \<Rightarrow> 's \<Rightarrow> DKGContribution list \<Rightarrow> 's res" where
  "combineShares L C A pallasSk proposerValAddr shamirIndex combinedShare [] = Inr combinedShare"
| "combineShares L C A pallasSk proposerValAddr shamirIndex combinedShare (contrib # contribs) =
     (if dkg_validator_address contrib = proposerValAddr
      then combineShares L C A pallasSk proposerValAddr shamirIndex combinedShare contribs
      else
        bindR (contributedShare L C A pallasSk proposerValAddr shamirIndex contrib) (\<lambda>shareSk.
        combineShares L C A pallasSk proposerValAddr shamirIndex (combinedShare + shareSk) contribs))"

definition ackDKGRound ::
  "lib \<Rightarrow> ('s::field, 'p::ab_group_add) curve \<Rightarrow> aead \<Rightarrow> 's \<Rightarrow> VoteRound \<Rightarrow> gostring \<Rightarrow> int \<Rightarrow> ('s node, bytes \<times> 's) M" where
  "ackDKGRound L C A pallasSk rd proposerValAddr shamirIndex =
     bindM (loadCoeffs C (coeffsPathForRound (vote_round_id rd)) (unat (threshold rd))) (\<lambda>coeffs.
     bindM (liftR (EvalPolynomial coeffs shamirIndex)) (\<lambda>ownPartial.
     bindM (liftR (combineShares L C A pallasSk proposerValAddr shamirIndex ownPartial (dkg_contributions rd))) (\<lambda>combinedShare.
     bindM (liftR (deserializeFeldmanCommitments C (feldman_commitments rd))) (\<lambda>combinedCommitments.
     bindM (liftR (VerifyFeldmanShare C (PallasGenerator C) combinedCommitments shamirIndex combinedShare)) (\<lambda>ok.
     failIf (\<not> ok) ErrOther (
     returnM (ScalarBytes C combinedShare, combinedShare)))))))"

definition CeremonyAckPrepareProposalHandler ::
  "('x, 'h) env \<Rightarrow> ('s::field, 'p::ab_group_add) curve \<Rightarrow> proto \<Rightarrow> aead \<Rightarrow> fsOps \<Rightarrow> 's res \<Rightarrow> gostring \<Rightarrow>
   'x \<Rightarrow> ctx \<Rightarrow> bytes list \<Rightarrow> ('s node, bytes list) M" where
  "CeremonyAckPrepareProposalHandler E C P A F pallasSk ceremonyDir x c txs =
     orReturn (liftR pallasSk) txs (\<lambda>sk.
     orReturn (liftR (resolveProposer E x (proposer_address c))) txs (\<lambda>proposerValAddr.
     orReturn (kvN (FindFirstPendingRound CEREMONY_STATUS_DEALT)) txs (\<lambda>result.
     (case result of
        None \<Rightarrow> returnM txs
      | Some rd \<Rightarrow>
          if FindAckInRoundCeremony rd proposerValAddr \<noteq> None then returnM txs
          else (case FindValidatorInRoundCeremony rd proposerValAddr of
             None \<Rightarrow> returnM txs
           | Some ceremonyVal \<Rightarrow>
               if vpk_shamir_index ceremonyVal = 0 then returnM txs
               else
                 orReturn (ackDKGRound (envLib E) C A sk rd proposerValAddr (uint (vpk_shamir_index ceremonyVal)))
                   txs (\<lambda>(secretBytes, _).
                 orReturn (if ceremonyDir \<noteq> []
                   then writeFile F (sharePathForRound (vote_round_id rd)) secretBytes else returnM ()) txs (\<lambda>_.
                 orReturn (liftR (EncodeCeremonyTx P (AckMsg
                   \<lparr>ma_creator = proposerValAddr,
                    ma_ack_signature = sha256 (envLib E) (AckDigestDomain @ ea_pk rd @ proposerValAddr),
                    ma_vote_round_id = vote_round_id rd\<rparr>) TagAckExecutiveAuthorityKey)) txs (\<lambda>txBytes.
                 returnM (txBytes # txs)))))))))"

section \<open>Partial decryptions\<close>

text \<open>Whether a round is over for the validator: not found, finalised or failed.\<close>

definition roundOver :: "bytes \<Rightarrow> ('s node, bool) M" where
  "roundOver roundID = orReturn (kvN (GetVoteRound roundID)) True (\<lambda>r.
     returnM (status r = SESSION_STATUS_FINALIZED \<or> status r = SESSION_STATUS_CEREMONY_FAILED))"

definition evictShare :: "gostring \<Rightarrow> ('s node, unit) M" where
  "evictShare roundHex = modifyM (\<lambda>n. n\<lparr>n_shareCache := filter (\<lambda>e. fst e \<noteq> roundHex) (n_shareCache n)\<rparr>)"

definition evictShares :: "fsOps \<Rightarrow> gostring \<Rightarrow> ('s node, unit) M" where
  "evictShares F ceremonyDir =
     bindM (getM (\<lambda>n. map fst (n_shareCache n))) (\<lambda>keys.
     forM keys (\<lambda>roundHex.
       (case hexDecode roundHex of
          None \<Rightarrow> evictShare roundHex
        | Some roundID \<Rightarrow>
            bindM (roundOver roundID) (\<lambda>over.
            if over then thenM (evictShare roundHex) (zeroAndDeleteShareFile F ceremonyDir roundID)
            else returnM ()))))"

definition cleanOrphanedShareFiles :: "fsOps \<Rightarrow> gostring \<Rightarrow> ('s node, unit) M" where
  "cleanOrphanedShareFiles F ceremonyDir =
     (if ceremonyDir = [] then returnM ()
      else bindM (getM (\<lambda>n. map fst (n_files n))) (\<lambda>names.
        forM names (\<lambda>name.
          if \<not> prefix (str ''share.'') name then returnM ()
          else (case hexDecode (drop 6 name) of
             None \<Rightarrow> returnM ()
           | Some roundID \<Rightarrow>
               bindM (roundOver roundID) (\<lambda>over.
               if over then zeroAndDeleteShareFile F ceremonyDir roundID else returnM ())))))"

definition cleanObsoleteCoeffFiles :: "fsOps \<Rightarrow> gostring \<Rightarrow> ('s node, unit) M" where
  "cleanObsoleteCoeffFiles F ceremonyDir =
     (if ceremonyDir = [] then returnM ()
      else bindM (getM (\<lambda>n. map fst (n_files n))) (\<lambda>names.
        forM names (\<lambda>name.
          if \<not> prefix (str ''coeffs.'') name then returnM ()
          else (case hexDecode (drop 7 name) of
             None \<Rightarrow> returnM ()
           | Some roundID \<Rightarrow>
               bindM (orReturn (kvN (GetVoteRound roundID)) True (\<lambda>r.
                 returnM (status r \<noteq> SESSION_STATUS_PENDING))) (\<lambda>obsolete.
               if obsolete then zeroAndDeleteCoeffsFile F ceremonyDir roundID else returnM ())))))"

definition loadShareForRoundCached :: "('s::field, 'p) curve \<Rightarrow> gostring \<Rightarrow> bytes \<Rightarrow> ('s node, 's) M" where
  "loadShareForRoundCached C ceremonyDir roundID =
     (let roundHex = hexEncode roundID in
     bindM (getM n_shareCache) (\<lambda>cache.
     (case map_of cache roundHex of
        Some share \<Rightarrow> returnM share
      | None \<Rightarrow>
          bindM (loadShareForRound C ceremonyDir roundID) (\<lambda>share.
          thenM (modifyM (\<lambda>n. n\<lparr>n_shareCache := AList.update roundHex share (n_shareCache n)\<rparr>))
            (returnM share)))))"

definition partialDecryptEntry ::
  "lib \<Rightarrow> ('s::field, 'p::ab_group_add) curve \<Rightarrow> (u32 \<Rightarrow> u32 \<Rightarrow> bytes option) \<Rightarrow> 's \<Rightarrow> u32 \<Rightarrow>
   u32 \<times> bytes \<Rightarrow> PartialDecryptionEntry res" where
  "partialDecryptEntry L C seeds share proposalId = (\<lambda>(decision, ctBytes).
     bindR (UnmarshalCiphertext C ctBytes) (\<lambda>ct.
     let Di = Mul C (C1 ct) share in
     failIfR (\<not> IsOnCurve C Di) ErrOther (
     bindR (GeneratePartialDecryptDLEQ L C share (C1 ct) (seeds proposalId decision)) (\<lambda>dleqProof.
     Inr \<lparr>pd_proposal_id = proposalId, pd_vote_decision = decision,
          pd_partial_decrypt = ToAffineCompressed C Di, pd_dleq_proof = dleqProof\<rparr>))))"

definition partialDecryptEntries ::
  "lib \<Rightarrow> ('s::field, 'p::ab_group_add) curve \<Rightarrow> ((u32 \<times> bytes) list \<Rightarrow> (u32 \<times> bytes) list) \<Rightarrow>
   (u32 \<Rightarrow> u32 \<Rightarrow> bytes option) \<Rightarrow> 's \<Rightarrow> VoteRound \<Rightarrow> (vkv, PartialDecryptionEntry list) M" where
  "partialDecryptEntries L C rangeOrder seeds share rd =
     bindM (mapM (\<lambda>proposal.
       bindM (GetProposalTally (vote_round_id rd) (prop_id proposal)) (\<lambda>tallyMap.
       liftR (mapR (partialDecryptEntry L C seeds share (prop_id proposal)) (rangeOrder tallyMap))))
       (proposals rd)) (\<lambda>entries.
     returnM (concat entries))"

definition PartialDecryptPrepareProposalInjector ::
  "('x, 'h) env \<Rightarrow> ('s::field, 'p::ab_group_add) curve \<Rightarrow> proto \<Rightarrow> fsOps \<Rightarrow>
   ((u32 \<times> bytes) list \<Rightarrow> (u32 \<times> bytes) list) \<Rightarrow> gostring \<Rightarrow> (u32 \<Rightarrow> u32 \<Rightarrow> bytes option) \<Rightarrow>
   'x \<Rightarrow> bytes \<Rightarrow> bytes list \<Rightarrow> ('s node, bytes list) M" where
  "PartialDecryptPrepareProposalInjector E C P F rangeOrder ceremonyDir seeds x proposerAddr txs =
     (if ceremonyDir = [] then returnM txs
      else
        orReturn (liftR (resolveProposer E x proposerAddr)) txs (\<lambda>proposerValAddr.
        thenM (evictShares F ceremonyDir) (
        thenM (cleanObsoleteCoeffFiles F ceremonyDir) (
        thenM (cleanOrphanedShareFiles F ceremonyDir) (
        orReturn (kvN (IterateTallyingRounds (\<lambda>rd _. (True, Some rd)) None)) txs (\<lambda>tallyRound.
        (case tallyRound of
           None \<Rightarrow> returnM txs
         | Some rd \<Rightarrow>
             (case FindValidatorInRoundCeremony rd proposerValAddr of
                None \<Rightarrow> returnM txs
              | Some ceremonyVal \<Rightarrow>
                  let validatorIndex = vpk_shamir_index ceremonyVal in
                  orReturn (kvN (HasPartialDecryptionsFromValidator (vote_round_id rd) validatorIndex)) txs (\<lambda>has.
                  if has then returnM txs
                  else
                    orReturn (loadShareForRoundCached C ceremonyDir (vote_round_id rd)) txs (\<lambda>share.
                    orReturn (kvN (partialDecryptEntries (envLib E) C rangeOrder seeds share rd)) txs (\<lambda>entries.
                    if length entries = 0 then returnM txs
                    else
                      orReturn (liftR (EncodeCeremonyTx P (SubmitPartialDecryptionMsg
                        \<lparr>mp_vote_round_id = vote_round_id rd, mp_creator = proposerValAddr,
                         mp_validator_index = validatorIndex, mp_entries = entries\<rparr>)
                        TagSubmitPartialDecryption)) txs (\<lambda>txBytes.
                      returnM (txBytes # txs)))))))))))))"

section \<open>The injectors put at most one transaction in front\<close>

lemma EncodeCeremonyTx_hd: "EncodeCeremonyTx P m tag = Inr t \<Longrightarrow> hd t = tag"
  by (auto simp: EncodeCeremonyTx_def bindR_Inr_iff)

lemma ceremonyTx_subKey:
  assumes "EncodeCeremonyTx P m tag = Inr t" and "tag \<noteq> TagRevealShare"
  shows "subKey P t = None"
  by (rule subKey_other) (use EncodeCeremonyTx_hd[OF assms(1)] assms(2) in simp)

lemma kvN_Inr_iff: "kvN m n = (Inr a, n') \<longleftrightarrow> (\<exists>s. m (n_kv n) = (Inr a, s) \<and> n' = n\<lparr>n_kv := s\<rparr>)"
  by (auto simp: kvN_def split: prod.splits)

lemma injector_kvN: "injector P inject \<Longrightarrow> injector P (\<lambda>txs. kvN (inject txs))"
  unfolding injector_def by (auto simp: kvN_Inr_iff)

text \<open>
  A run that ends with the proposal as it was or with one transaction more in front. The rules
  follow the structure of the injectors, which give up by returning the proposal unchanged.
\<close>

definition addsOne :: "proto \<Rightarrow> bytes list \<Rightarrow> ('s, bytes list) M \<Rightarrow> bool" where
  "addsOne P txs m \<longleftrightarrow>
     (\<forall>s txs' s'. m s = (Inr txs', s') \<longrightarrow> txs' = txs \<or> (\<exists>t. subKey P t = None \<and> txs' = t # txs))"

lemma addsOne_return: "addsOne P txs (returnM txs)"
  by (simp add: addsOne_def returnM_def)

lemma addsOne_cons: "subKey P t = None \<Longrightarrow> addsOne P txs (returnM (t # txs))"
  by (simp add: addsOne_def returnM_def)

lemma addsOne_orReturn: "(\<And>a. addsOne P txs (k a)) \<Longrightarrow> addsOne P txs (orReturn m txs k)"
  unfolding addsOne_def by (auto simp: orReturn_Inr_iff)

lemma addsOne_thenM: "addsOne P txs k \<Longrightarrow> addsOne P txs (thenM m k)"
  unfolding addsOne_def by (auto simp: thenM_def bindM_Inr_iff)

lemma addsOne_encoded:
  assumes "tag \<noteq> TagRevealShare"
  shows "addsOne P txs (orReturn (liftR (EncodeCeremonyTx P m tag)) txs (\<lambda>t. returnM (t # txs)))"
  using ceremonyTx_subKey[OF _ assms] unfolding addsOne_def by (auto simp: orReturn_Inr_iff liftR_def returnM_def)

lemma addsOne_if: "addsOne P txs m \<Longrightarrow> addsOne P txs k \<Longrightarrow> addsOne P txs (if b then m else k)"
  by simp

lemma addsOne_option: "addsOne P txs m \<Longrightarrow> (\<And>a. addsOne P txs (k a)) \<Longrightarrow> addsOne P txs (case opt of None \<Rightarrow> m | Some a \<Rightarrow> k a)"
  by (cases opt) auto

lemma addsOne_prod: "(\<And>a b. addsOne P txs (k a b)) \<Longrightarrow> addsOne P txs (case ab of (a, b) \<Rightarrow> k a b)"
  by (cases ab) auto

lemmas addsOne_rules = addsOne_return addsOne_encoded addsOne_if addsOne_option addsOne_prod addsOne_orReturn addsOne_thenM

lemma injector_addsOne: "(\<And>txs. addsOne P txs (inject txs)) \<Longrightarrow> injector P inject"
  unfolding addsOne_def injector_def by blast

interpretation dkg: injector P "CeremonyDKGContributionPrepareProposalHandler E C P A F sk dir secret coeffRnd R x c"
  for P E C A F sk dir secret coeffRnd R x c
  unfolding CeremonyDKGContributionPrepareProposalHandler_def Let_def
  by (rule injector_addsOne) (intro addsOne_rules; simp add: tag_defs)

interpretation ack: injector P "CeremonyAckPrepareProposalHandler E C P A F sk dir x c"
  for P E C A F sk dir x c
  unfolding CeremonyAckPrepareProposalHandler_def Let_def
  by (rule injector_addsOne) (intro addsOne_rules; simp add: tag_defs)

interpretation partial: injector P "PartialDecryptPrepareProposalInjector E C P F rangeOrder dir seeds x a"
  for P E C F rangeOrder dir seeds x a
  unfolding PartialDecryptPrepareProposalInjector_def Let_def
  by (rule injector_addsOne) (intro addsOne_rules; simp add: tag_defs)

interpretation tallyN: injector P "\<lambda>txs. kvN (TallyPrepareProposalHandler E C P rangeOrder bsgs dir x a txs)"
  for P E C rangeOrder bsgs dir x a
  by (rule injector_kvN) (rule tally.injector_axioms)

section \<open>The wired handler\<close>

text \<open>What the proposer reads besides the chain: key, directory, randomness, map orders, table.\<close>

record ('s, 'p) proposerInputs =
  pi_pallasSk :: "'s res"
  pi_ceremonyDir :: gostring
  pi_fs :: fsOps
  pi_aead :: aead
  pi_secret :: 's
  pi_coeffs :: "nat \<Rightarrow> 's"
  pi_random :: dkgRandom
  pi_seeds :: "u32 \<Rightarrow> u32 \<Rightarrow> bytes option"
  pi_rangeOrder :: "(u32 \<times> bytes) list \<Rightarrow> (u32 \<times> bytes) list"
  pi_bsgs :: "'p BSGSTable"

text \<open>The four handlers as the application composes them.\<close>

definition PrepareProposal ::
  "('x, 'h) env \<Rightarrow> ('s::field, 'p::ab_group_add) curve \<Rightarrow> proto \<Rightarrow> (bytes \<Rightarrow> int) \<Rightarrow> ('s, 'p) proposerInputs \<Rightarrow>
   'x \<Rightarrow> ctx \<Rightarrow> bytes list \<Rightarrow> int \<Rightarrow> ('s node, bytes list) M" where
  "PrepareProposal E C P txSize I x c =
     ComposedPrepareProposalHandler P txSize
       (CeremonyDKGContributionPrepareProposalHandler E C P (pi_aead I) (pi_fs I) (pi_pallasSk I)
          (pi_ceremonyDir I) (pi_secret I) (pi_coeffs I) (pi_random I) x c)
       (CeremonyAckPrepareProposalHandler E C P (pi_aead I) (pi_fs I) (pi_pallasSk I) (pi_ceremonyDir I) x c)
       (PartialDecryptPrepareProposalInjector E C P (pi_fs I) (pi_rangeOrder I) (pi_ceremonyDir I)
          (pi_seeds I) x (proposer_address c))
       (\<lambda>txs. kvN (TallyPrepareProposalHandler E C P (pi_rangeOrder I) (pi_bsgs I) (pi_ceremonyDir I) x
          (proposer_address c) txs))"

text \<open>Four injectors over one codec, composed.\<close>

locale proposal = deal: injector P inject1 + ack: injector P inject2 +
  partial: injector P inject3 + tally: injector P inject4
  for P :: proto and inject1 inject2 inject3 inject4 :: "bytes list \<Rightarrow> ('s, bytes list) M"
begin

lemma composed_shape:
  assumes "ComposedPrepareProposalHandler P txSize inject1 inject2 inject3 inject4 txs lim s = (Inr out, s')"
  shows "\<exists>pre. length pre \<le> 4 \<and> (\<forall>t \<in> set pre. subKey P t = None) \<and>
    out = fst (trimProposalToMaxTxBytes txSize (pre @ fst (filterVoteShareSubmissionTransactions P txs)) lim)"
proof -
  let ?f = "fst (filterVoteShareSubmissionTransactions P txs)"
  from assms obtain a1 a2 a3 a4 t1 t2 t3 t4 where
    r: "inject1 ?f s = (Inr a1, t1)" "inject2 a1 t1 = (Inr a2, t2)" "inject3 a2 t2 = (Inr a3, t3)"
      "inject4 a3 t3 = (Inr a4, t4)" and out: "out = fst (trimProposalToMaxTxBytes txSize a4 lim)"
    by (auto simp: ComposedPrepareProposalHandler_def bindM_Inr_iff returnM_def)
  from deal.puts_in_front[OF r(1)] ack.puts_in_front[OF r(2)] partial.puts_in_front[OF r(3)]
    tally.puts_in_front[OF r(4)] obtain p1 p2 p3 p4 where
    p: "a1 = p1 @ ?f" "a2 = p2 @ a1" "a3 = p3 @ a2" "a4 = p4 @ a3"
      "length p1 \<le> 1" "length p2 \<le> 1" "length p3 \<le> 1" "length p4 \<le> 1"
      "\<forall>t \<in> set p1. subKey P t = None" "\<forall>t \<in> set p2. subKey P t = None"
      "\<forall>t \<in> set p3. subKey P t = None" "\<forall>t \<in> set p4. subKey P t = None" by blast
  then show ?thesis using out by (intro exI[of _ "p4 @ p3 @ p2 @ p1"]) auto
qed

lemma composed_accepted:
  assumes "ComposedPrepareProposalHandler P txSize inject1 inject2 inject3 inject4 txs lim s = (Inr out, s')"
  shows "\<exists>pre kept. prefix out (pre @ kept) \<and> length pre \<le> 4 \<and> (\<forall>t \<in> set pre. subKey P t = None) \<and>
    subseq kept txs \<and> filter (\<lambda>t. subKey P t = None) kept = filter (\<lambda>t. subKey P t = None) txs \<and>
    (validateVoteShareSubmissionTransactions P txs = Inr () \<longrightarrow> kept = txs) \<and>
    validateVoteShareSubmissionTransactions P out = Inr () \<and>
    (if lim < 0 then out = pre @ kept else (\<Sum>t \<leftarrow> out. txSize t) \<le> lim)"
proof -
  define kept where "kept = fst (filterVoteShareSubmissionTransactions P txs)"
  from composed_shape[OF assms] obtain pre where
    pre: "length pre \<le> 4" "\<forall>t \<in> set pre. subKey P t = None"
      "out = fst (trimProposalToMaxTxBytes txSize (pre @ kept) lim)" unfolding kept_def by blast
  have out: "prefix out (pre @ kept)" "if lim < 0 then out = pre @ kept else (\<Sum>t \<leftarrow> out. txSize t) \<le> lim"
    using trimLoop_prefix trimLoop_fits[of 0 lim txSize "pre @ kept"]
    by (auto simp: pre(3) trimProposalToMaxTxBytes_def Let_def)
  have "validateLoop P [] 0 kept = Inr ()"
    using filterLoop_valid[of P "[]" "\<lparr>vfs_kept = 0, vfs_duplicates = 0, vfs_malformed = 0, vfs_overLimit = 0\<rparr>" txs]
    by (simp add: kept_def filterVoteShareSubmissionTransactions_def)
  then have "validateLoop P [] 0 (pre @ kept) = Inr ()" by (simp add: validateLoop_other[OF pre(2)])
  then have "validateVoteShareSubmissionTransactions P out = Inr ()"
    using out(1) validateLoop_prefix[of P "[]" 0 out] by (auto simp: validateVoteShareSubmissionTransactions_def prefix_def)
  moreover have "subseq kept txs" "filter (\<lambda>t. subKey P t = None) kept = filter (\<lambda>t. subKey P t = None) txs"
    "validateVoteShareSubmissionTransactions P txs = Inr () \<Longrightarrow> kept = txs"
    using filterLoop_id[of P "[]" "\<lparr>vfs_kept = 0, vfs_duplicates = 0, vfs_malformed = 0, vfs_overLimit = 0\<rparr>" txs]
    by (simp_all add: kept_def filterVoteShareSubmissionTransactions_def filterLoop_subseq filterLoop_keeps
        validateVoteShareSubmissionTransactions_def)
  ultimately show ?thesis using pre(1,2) out by blast
qed

end

interpretation wired: proposal P
  "CeremonyDKGContributionPrepareProposalHandler E C P (pi_aead I) (pi_fs I) (pi_pallasSk I)
     (pi_ceremonyDir I) (pi_secret I) (pi_coeffs I) (pi_random I) x c"
  "CeremonyAckPrepareProposalHandler E C P (pi_aead I) (pi_fs I) (pi_pallasSk I) (pi_ceremonyDir I) x c"
  "PartialDecryptPrepareProposalInjector E C P (pi_fs I) (pi_rangeOrder I) (pi_ceremonyDir I)
     (pi_seeds I) x (proposer_address c)"
  "\<lambda>txs. kvN (TallyPrepareProposalHandler E C P (pi_rangeOrder I) (pi_bsgs I) (pi_ceremonyDir I) x
     (proposer_address c) txs)"
  for E C P I x c
  by (intro proposal.intro dkg.injector_axioms ack.injector_axioms partial.injector_axioms tallyN.injector_axioms)

text \<open>
  C16. A prepared proposal. What the composed handler returns is, up to the byte limit, at most
  four injected transactions, none a share submission, followed by the transactions received
  from the mempool, in order. Of those only share submissions are left out, and none when the
  list was valid already. The result always passes the share-submission check with which the
  other validators start \<^verbatim>\<open>ProcessProposal\<close>, and it fits the byte limit.
\<close>

theorem prepared_proposal_accepted:
  assumes "PrepareProposal E C P txSize I x c txs lim n = (Inr out, n')"
  shows "\<exists>pre kept. prefix out (pre @ kept) \<and> length pre \<le> 4 \<and>
    (\<forall>t \<in> set pre. voteShareSubmissionProposalKeyFromTx P t = None) \<and>
    subseq kept txs \<and> filter (\<lambda>t. subKey P t = None) kept = filter (\<lambda>t. subKey P t = None) txs \<and>
    (validateVoteShareSubmissionTransactions P txs = Inr () \<longrightarrow> kept = txs) \<and>
    validateVoteShareSubmissionTransactions P out = Inr () \<and>
    (if lim < 0 then out = pre @ kept else (\<Sum>t \<leftarrow> out. txSize t) \<le> lim)"
  using assms unfolding PrepareProposal_def by (rule wired.composed_accepted)

text \<open>
  A proposer that closes a round in which nobody voted, drops a malformed share submission, and
  has room for one more transaction.
\<close>

definition sampleInputs :: "(f7, f7) proposerInputs" where
  "sampleInputs = \<lparr>pi_pallasSk = Inr F3, pi_ceremonyDir = [1],
     pi_fs = \<lparr>canWrite = \<lambda>_. True, canOpen = \<lambda>_. True, canRemove = \<lambda>_. True\<rparr>,
     pi_aead = \<lparr>Seal = \<lambda>k m. m @ replicate 16 0, Open = \<lambda>k ct. Some (take (length ct - 16) ct)\<rparr>,
     pi_secret = F2, pi_coeffs = \<lambda>_. F1,
     pi_random = \<lparr>rnd_proofSeeds = [Some [1]], rnd_ecies = \<lambda>_. Some [1]\<rparr>,
     pi_seeds = \<lambda>_ _. Some [1], pi_rangeOrder = (\<lambda>m. m), pi_bsgs = NewBSGSTable curve7 4\<rparr>"

definition sampleNode :: "f7 node" where
  "sampleNode = \<lparr>n_kv = [(0x04 # sampleRoundID, VVoteRound sampleTallying)], n_files = [], n_shareCache = []\<rparr>"

lemma samplePrepare_run:
  "fst (PrepareProposal sampleEnv curve7 sampleProto (\<lambda>t. int (length t)) sampleInputs () (sampleCtx\<lparr>proposer_address := []\<rparr>)
     [[TagRevealShare, 1], [9, 9, 9], [9, 9]] 37 sampleNode) = Inr [TagSubmitTally # sampleRoundID, [9, 9, 9]]"
  by code_simp

theorem prepared_proposal_accepted_witness:
  "validateVoteShareSubmissionTransactions sampleProto [TagSubmitTally # sampleRoundID, [9, 9, 9]] = Inr ()"
proof -
  note run = run_of_fst[of "PrepareProposal sampleEnv curve7 sampleProto (\<lambda>t. int (length t)) sampleInputs ()
     (sampleCtx\<lparr>proposer_address := []\<rparr>) [[TagRevealShare, 1], [9, 9, 9], [9, 9]] 37", OF samplePrepare_run]
  from prepared_proposal_accepted[OF run] show ?thesis by blast
qed

end
