(* ===== verification/Share_Processor.thy ===== *)
theory Share_Processor
  imports Queue_Invariant Injectors
begin

text \<open>
  What a worker does with one share: \<^verbatim>\<open>src/internal/helper/processor.go\<close> and the
  classification of submissions in \<^verbatim>\<open>src/internal/helper/submit.go\<close>. The chain behind the
  helper (round status, commitment tree, nullifiers, the REST endpoint), the prover and the
  hash functions are fields of the parameter \<open>P\<close>; the times and block heights a run reads
  are in \<open>o\<close>-fields of the record \<open>observation\<close>. Metrics, traces, logs and the stage names
  attached to errors are left out; a panic is an outcome of its own, recovered by the worker.

  The lemmas show that a run leaves its share in exactly one place, and that the witness of
  a share is erased only after the chain reported its nullifier.
\<close>

section \<open>Decoding\<close>

fun base64Value :: "u8 \<Rightarrow> nat option" where
  "base64Value c =
     (if 65 \<le> c \<and> c \<le> 90 then Some (unat c - 65)
      else if 97 \<le> c \<and> c \<le> 122 then Some (unat c - 71)
      else if 48 \<le> c \<and> c \<le> 57 then Some (unat c + 4)
      else if c = 43 then Some 62 else if c = 47 then Some 63 else None)"

text \<open>\<^verbatim>\<open>base64.StdEncoding.DecodeString\<close>: line breaks are skipped, padding is required.\<close>

fun base64Quanta :: "gostring \<Rightarrow> bytes option" where
  "base64Quanta [] = Some []"
| "base64Quanta (a # b # c # d # rest) =
     (case (base64Value a, base64Value b) of
        (Some x, Some y) \<Rightarrow>
          if c = 61 then (if d = 61 \<and> rest = [] then Some [word_of_nat (x * 4 + y div 16)] else None)
          else (case base64Value c of
             None \<Rightarrow> None
           | Some z \<Rightarrow>
               if d = 61 then (if rest = [] then Some [word_of_nat (x * 4 + y div 16), word_of_nat (y mod 16 * 16 + z div 4)] else None)
               else (case (base64Value d, base64Quanta rest) of
                  (Some w, Some bs) \<Rightarrow> Some (word_of_nat (x * 4 + y div 16) # word_of_nat (y mod 16 * 16 + z div 4) #
                     word_of_nat (z mod 4 * 64 + w) # bs)
                | _ \<Rightarrow> None))
      | _ \<Rightarrow> None)"
| "base64Quanta _ = None"

definition base64Decode :: "gostring \<Rightarrow> bytes option" where
  "base64Decode s = base64Quanta (filter (\<lambda>c. c \<noteq> 10 \<and> c \<noteq> 13) s)"

definition decodeBase64Array32 :: "gostring \<Rightarrow> bytes option" where
  "decodeBase64Array32 value =
     (case base64Decode value of None \<Rightarrow> None | Some raw \<Rightarrow> if length raw \<noteq> 32 then None else Some raw)"

definition decodeShareRoundID :: "gostring \<Rightarrow> bytes option" where
  "decodeShareRoundID value =
     (case hexDecode value of None \<Rightarrow> None | Some raw \<Rightarrow> if length raw \<noteq> 32 then None else Some raw)"

section \<open>Failures\<close>

datatype shareFailureAction = shareFailureRetry | shareFailureFail

datatype failureCause = WaitingForNewBlock u64 | AwaitingRetrySlot | AwaitingCommit | ContextCanceled | OtherCause

text \<open>\<open>Unclassified\<close> is an error without the \<^verbatim>\<open>shareProcessingError\<close> wrapper.\<close>

datatype shareErr = ShareProcessingError shareFailureAction failureCause | Unclassified failureCause | Panicked

definition classifyShareFailure :: "shareErr \<Rightarrow> shareFailureAction" where
  "classifyShareFailure e = (case e of ShareProcessingError action _ \<Rightarrow> action | _ \<Rightarrow> shareFailureFail)"

fun failureCauseOf :: "shareErr \<Rightarrow> failureCause" where
  "failureCauseOf (ShareProcessingError _ c) = c"
| "failureCauseOf (Unclassified c) = c"
| "failureCauseOf Panicked = OtherCause"

abbreviation retryableShareError :: "failureCause \<Rightarrow> shareErr" where
  "retryableShareError \<equiv> ShareProcessingError shareFailureRetry"

abbreviation failedShareAttemptError :: "failureCause \<Rightarrow> shareErr" where
  "failedShareAttemptError \<equiv> ShareProcessingError shareFailureFail"

section \<open>Submission\<close>

record MsgRevealShareJSON =
  mj_ShareNullifier :: bytes
  mj_EncShare :: bytes
  mj_ProposalID :: u32
  mj_VoteDecision :: u32
  mj_Proof :: bytes
  mj_VoteRoundID :: bytes
  mj_AnchorHeight :: u64

record BroadcastResult =
  br_TxHash :: gostring
  br_Code :: u32

datatype submitErr = SubmitStatus int | SubmitCanceled | SubmitFailed

definition wrapSubmitError :: "submitErr \<Rightarrow> shareErr" where
  "wrapSubmitError e =
     (case e of
        SubmitStatus statusCode \<Rightarrow>
          if statusCode = 400 then failedShareAttemptError OtherCause else retryableShareError OtherCause
      | SubmitCanceled \<Rightarrow> retryableShareError ContextCanceled
      | SubmitFailed \<Rightarrow> retryableShareError OtherCause)"

definition IsDuplicateNullifier :: "u32 \<Rightarrow> bool" where "IsDuplicateNullifier code \<longleftrightarrow> code = 2"

section \<open>The processor\<close>

record processor =
  pr_submitHeight :: u64
  pr_submitKeys :: "gostring list"
  pr_stalledRetryCount :: "(gostring \<times> u8) list"

datatype statusErr = CheckTxNotReady | StatusErr

datatype proofResult = ProofOK bytes bytes | ProofErr | ProofPanic

record deduper =
  d_vcHash :: "bytes \<Rightarrow> bytes \<Rightarrow> u32 \<Rightarrow> u32 \<Rightarrow> bytes option"
  d_shareNFHash :: "bytes \<Rightarrow> u32 \<Rightarrow> bytes \<Rightarrow> bytes option"
  d_shareNF :: "gostring \<Rightarrow> bytes \<Rightarrow> bool option"

record procEnv =
  p_queue :: queueEnv
  p_fetch :: fetcher
  p_isRoundActive :: "(gostring \<Rightarrow> statusErr + bool) option"
  p_dedupe :: "deduper option"
  p_treeStatus :: "bytes \<Rightarrow> (u64 \<times> u64) option"
  p_merklePath :: "bytes \<Rightarrow> u64 \<Rightarrow> u32 \<Rightarrow> bytes option"
  p_prover :: "bytes \<Rightarrow> bytes list \<Rightarrow> bytes \<Rightarrow> bytes \<Rightarrow> bytes \<Rightarrow> u32 \<Rightarrow> u32 \<Rightarrow> u32 \<Rightarrow> bytes \<Rightarrow> proofResult"
  p_submit :: "MsgRevealShareJSON \<Rightarrow> submitErr + BroadcastResult"
  p_Int64N :: "int \<Rightarrow> int"

text \<open>
  What one run reads: whether its context was already cancelled, the clock at the first
  check, at the reservation and at the end, and the block height before and after the proof.
\<close>

record observation =
  o_canceled :: bool
  o_checkTime :: time
  o_reserveTime :: time
  o_endTime :: time
  o_height :: u64
  o_submitHeight :: u64

definition advanceSubmitHeightLocked :: "u64 \<Rightarrow> processor \<Rightarrow> bool \<times> processor" where
  "advanceSubmitHeightLocked height pr =
     (if height < pr_submitHeight pr then (False, pr)
      else if height > pr_submitHeight pr
      then (True, pr\<lparr>pr_submitKeys := [], pr_stalledRetryCount := [], pr_submitHeight := height\<rparr>)
      else (True, pr))"

definition submittedAtHeight :: "gostring \<Rightarrow> u64 \<Rightarrow> processor \<Rightarrow> bool \<times> processor" where
  "submittedAtHeight key height pr =
     (case advanceSubmitHeightLocked height pr of
        (False, pr) \<Rightarrow> (True, pr)
      | (True, pr) \<Rightarrow> (key \<in> set (pr_submitKeys pr), pr))"

definition claimSubmitHeight :: "gostring \<Rightarrow> u64 \<Rightarrow> processor \<Rightarrow> bool \<times> processor" where
  "claimSubmitHeight key height pr =
     (case advanceSubmitHeightLocked height pr of
        (False, pr) \<Rightarrow> (False, pr)
      | (True, pr) \<Rightarrow>
          if key \<in> set (pr_submitKeys pr) then (False, pr)
          else (True, pr\<lparr>pr_submitKeys := key # pr_submitKeys pr,
                        pr_stalledRetryCount := AList.delete key (pr_stalledRetryCount pr)\<rparr>))"

definition shareStalledRetryMaxCount :: u8 where "shareStalledRetryMaxCount = 5"

definition nextStalledRetryCount :: "gostring \<Rightarrow> u64 \<Rightarrow> processor \<Rightarrow> u8 \<times> processor" where
  "nextStalledRetryCount key height pr =
     (let pr = snd (advanceSubmitHeightLocked height pr);
          retryCount = (case map_of (pr_stalledRetryCount pr) key of None \<Rightarrow> 0 | Some n \<Rightarrow> n);
          retryCount = (if retryCount < shareStalledRetryMaxCount then retryCount + 1 else retryCount) in
      (retryCount, pr\<lparr>pr_stalledRetryCount := AList.update key retryCount (pr_stalledRetryCount pr)\<rparr>))"

definition clearSubmitHeight :: "gostring \<Rightarrow> processor \<Rightarrow> processor" where
  "clearSubmitHeight key pr = pr\<lparr>pr_submitKeys := removeAll key (pr_submitKeys pr),
     pr_stalledRetryCount := AList.delete key (pr_stalledRetryCount pr)\<rparr>"

definition shareAlreadyRevealed :: "procEnv \<Rightarrow> QueuedShare \<Rightarrow> shareErr + bool" where
  "shareAlreadyRevealed P share =
     (case p_dedupe P of
        None \<Rightarrow> Inr False
      | Some d \<Rightarrow>
          let p = qs_Payload share in
          (case decodeShareRoundID (sp_VoteRoundID p) of
             None \<Rightarrow> Inl (failedShareAttemptError OtherCause)
           | Some roundID \<Rightarrow>
          (case decodeBase64Array32 (sp_SharesHash p) of None \<Rightarrow> Inl (Unclassified OtherCause) | Some sharesHash \<Rightarrow>
           case decodeBase64Array32 (sp_PrimaryBlind p) of None \<Rightarrow> Inl (Unclassified OtherCause) | Some primaryBlind \<Rightarrow>
           case d_vcHash d roundID sharesHash (sp_ProposalID p) (sp_VoteDecision p) of None \<Rightarrow> Inl (Unclassified OtherCause) | Some vc \<Rightarrow>
           case d_shareNFHash d vc (es_ShareIndex (sp_EncShare p)) primaryBlind of None \<Rightarrow> Inl (Unclassified OtherCause) | Some nf \<Rightarrow>
           case d_shareNF d (sp_VoteRoundID p) nf of None \<Rightarrow> Inl (retryableShareError OtherCause) | Some already \<Rightarrow> Inr already)))"

fun decodeComms :: "gostring list \<Rightarrow> bytes list option" where
  "decodeComms [] = Some []"
| "decodeComms (c # cs) =
     (case decodeBase64Array32 c of None \<Rightarrow> None | Some b \<Rightarrow>
      case decodeComms cs of None \<Rightarrow> None | Some bs \<Rightarrow> Some (b # bs))"

text \<open>The proof and the submission, once a proof attempt is reserved.\<close>

definition proveAndSubmit :: "procEnv \<Rightarrow> observation \<Rightarrow> QueuedShare \<Rightarrow> bytes \<Rightarrow> u64 \<Rightarrow> bytes \<Rightarrow> bytes list \<Rightarrow>
    bytes \<Rightarrow> bytes \<Rightarrow> bytes \<Rightarrow> processor \<Rightarrow> shareErr option \<times> processor" where
  "proveAndSubmit P obs share roundID anchorHeight merklePath comms primaryBlind c1 c2 pr =
     (let p = qs_Payload share in
      case p_prover P merklePath comms primaryBlind c1 c2 (es_ShareIndex (sp_EncShare p)) (sp_ProposalID p)
          (sp_VoteDecision p) roundID of
        ProofErr \<Rightarrow> (Some (failedShareAttemptError OtherCause), pr)
      | ProofPanic \<Rightarrow> (Some Panicked, pr)
      | ProofOK proof nullifier \<Rightarrow>
          let msg = \<lparr>mj_ShareNullifier = nullifier, mj_EncShare = c1 @ c2, mj_ProposalID = sp_ProposalID p,
                mj_VoteDecision = sp_VoteDecision p, mj_Proof = proof, mj_VoteRoundID = roundID,
                mj_AnchorHeight = anchorHeight\<rparr>;
              blocked = retryableShareError (WaitingForNewBlock (o_submitHeight obs)) in
          if o_submitHeight obs = 0 then (Some blocked, pr)
          else (case claimSubmitHeight (schedKey (payloadKey p)) (o_submitHeight obs) pr of
             (False, pr) \<Rightarrow> (Some blocked, pr)
           | (True, pr) \<Rightarrow>
               (case p_submit P msg of
                  Inl e \<Rightarrow> (Some (wrapSubmitError e), pr)
                | Inr result \<Rightarrow>
                    if br_Code result \<noteq> 0
                    then (if IsDuplicateNullifier (br_Code result) then (None, pr)
                          else (Some (failedShareAttemptError OtherCause), pr))
                    else if br_TxHash result = [] then (Some (failedShareAttemptError OtherCause), pr)
                    else (Some (retryableShareError AwaitingCommit), pr))))"

text \<open>The reservation and what follows it; \<open>retry\<close> is the schedule read from the row.\<close>

definition reserveAndProve :: "procEnv \<Rightarrow> database \<Rightarrow> observation \<Rightarrow> QueuedShare \<Rightarrow> retryState option \<Rightarrow> int \<Rightarrow> bytes \<Rightarrow>
    u64 \<Rightarrow> bytes \<Rightarrow> bytes list \<Rightarrow> bytes \<Rightarrow> bytes \<Rightarrow> bytes \<Rightarrow> processor \<Rightarrow> shareStore \<Rightarrow> shareErr option \<times> processor \<times> shareStore" where
  "reserveAndProve P db obs share retry previousAttempts roundID anchorHeight merklePath comms primaryBlind c1 c2 pr st =
     (let now = o_reserveTime obs; v = qs_VoteEndTime share;
          (start, st) = (case retry of
             Some state \<Rightarrow> (Inr (Some state), st)
           | None \<Rightarrow>
               (case getRoundInfo (p_fetch P) db (sp_VoteRoundID (qs_Payload share)) st of
                  (Inl _, st) \<Rightarrow> (Inr None, st)
                | (Inr info, st) \<Rightarrow>
                    ((case newRetryState (p_Int64N P) now (ri_CreatedAtTime info) v of Inl e \<Rightarrow> Inl e | Inr s \<Rightarrow> Inr (Some s)), st))) in
      case start of
        Inl _ \<Rightarrow> (Some Panicked, pr, st)
      | Inr None \<Rightarrow> (Some (retryableShareError OtherCause), pr, st)
      | Inr (Some state) \<Rightarrow>
          (case claimSlot previousAttempts now v (o_height obs) state of
             Inl _ \<Rightarrow> (Some Panicked, pr, st)
           | Inr NoSlot \<Rightarrow> (Some (retryableShareError AwaitingRetrySlot), pr, st)
           | Inr SameHeight \<Rightarrow> (Some (retryableShareError (WaitingForNewBlock (o_height obs))), pr, st)
           | Inr (Claimed state) \<Rightarrow>
               (case reserveProofAttempt (p_queue P) db share state st of
                  (False, st) \<Rightarrow> (Some (retryableShareError OtherCause), pr, st)
                | (True, st) \<Rightarrow>
                    (case proveAndSubmit P obs share roundID anchorHeight merklePath comms primaryBlind c1 c2 pr of
                       (e, pr) \<Rightarrow> (e, pr, st)))))"

text \<open>The witness fields of the payload, each 32 bytes.\<close>

definition decodeWitness :: "SharePayload \<Rightarrow> (bytes list \<times> bytes \<times> bytes \<times> bytes) option" where
  "decodeWitness p =
     (if length (sp_ShareComms p) \<noteq> 16 then None
      else case decodeComms (sp_ShareComms p) of None \<Rightarrow> None | Some comms \<Rightarrow>
        case decodeBase64Array32 (sp_PrimaryBlind p) of None \<Rightarrow> None | Some primaryBlind \<Rightarrow>
        case decodeBase64Array32 (es_C1 (sp_EncShare p)) of None \<Rightarrow> None | Some c1 \<Rightarrow>
        case decodeBase64Array32 (es_C2 (sp_EncShare p)) of None \<Rightarrow> None | Some c2 \<Rightarrow>
        Some (comms, primaryBlind, c1, c2))"

definition processShare :: "procEnv \<Rightarrow> database \<Rightarrow> observation \<Rightarrow> QueuedShare \<Rightarrow> processor \<Rightarrow> shareStore \<Rightarrow>
    shareErr option \<times> processor \<times> shareStore" where
  "processShare P db obs share pr st =
     (let p = qs_Payload share; key = schedKey (payloadKey p); v = qs_VoteEndTime share in
      case decodeShareRoundID (sp_VoteRoundID p) of
        None \<Rightarrow> (Some (failedShareAttemptError OtherCause), pr, st)
      | Some roundID \<Rightarrow>
      (case decodeRetryState (retryDecode (p_queue P)) (qs_retryState share) v of
        Inl _ \<Rightarrow> (Some (retryableShareError OtherCause), pr, st)
      | Inr retry \<Rightarrow>
      let previousAttempts = (if retry = None then max 0 (qs_Attempts share) else 0) in
      if previousAttempts \<ge> 5 then (Some (retryableShareError AwaitingRetrySlot), pr, st)
      else (case (case retry of None \<Rightarrow> Inr True | Some state \<Rightarrow>
                    bindR (due state (o_checkTime obs) v) (\<lambda>(slot, _). Inr (slot \<ge> 0))) of
        Inl _ \<Rightarrow> (Some Panicked, pr, st)
      | Inr False \<Rightarrow> (Some (retryableShareError AwaitingRetrySlot), pr, st)
      | Inr True \<Rightarrow>
      (case p_treeStatus P roundID of
        None \<Rightarrow> (Some (retryableShareError OtherCause), pr, st)
      | Some (leafCount, anchorHeight) \<Rightarrow>
      if leafCount = 0 \<or> sp_TreePosition p \<ge> leafCount then (Some (retryableShareError OtherCause), pr, st)
      else
        let (stale, pr) = (if o_height obs = 0 then (True, pr) else submittedAtHeight key (o_height obs) pr) in
        if stale then (Some (retryableShareError (WaitingForNewBlock (o_height obs))), pr, st)
        else (case p_merklePath P roundID (sp_TreePosition p) (ucast anchorHeight) of
          None \<Rightarrow> (Some (retryableShareError OtherCause), pr, st)
        | Some merklePath \<Rightarrow>
        (case decodeWitness p of
          None \<Rightarrow> (Some (failedShareAttemptError OtherCause), pr, st)
        | Some (comms, primaryBlind, c1, c2) \<Rightarrow>
            reserveAndProve P db obs share retry previousAttempts roundID anchorHeight merklePath comms
              primaryBlind c1 c2 pr st))))))"

section \<open>One run of a worker\<close>

definition markShareFailure :: "procEnv \<Rightarrow> database \<Rightarrow> observation \<Rightarrow> QueuedShare \<Rightarrow> shareErr \<Rightarrow> shareStore \<Rightarrow> shareStore" where
  "markShareFailure P db obs share e st =
     (let k = payloadKey (qs_Payload share) in
      case classifyShareFailure e of
        shareFailureRetry \<Rightarrow> MarkRetry (p_queue P) db (o_endTime obs) k st
      | shareFailureFail \<Rightarrow> MarkFailed (p_queue P) db (o_endTime obs) k st)"

definition markShareSubmitted :: "database \<Rightarrow> observation \<Rightarrow> QueuedShare \<Rightarrow> processor \<Rightarrow> shareStore \<Rightarrow> processor \<times> shareStore" where
  "markShareSubmitted db obs share pr st =
     (let k = payloadKey (qs_Payload share) in
      (clearSubmitHeight (schedKey k) pr, MarkSubmitted db (o_endTime obs) k st))"

definition settleShareError :: "procEnv \<Rightarrow> database \<Rightarrow> observation \<Rightarrow> QueuedShare \<Rightarrow> shareErr \<Rightarrow> processor \<Rightarrow> shareStore \<Rightarrow>
    processor \<times> shareStore" where
  "settleShareError P db obs share e pr st =
     (let k = payloadKey (qs_Payload share); Q = p_queue P; now = o_endTime obs in
      case failureCauseOf e of
        WaitingForNewBlock height \<Rightarrow>
          (case nextStalledRetryCount (schedKey k) height pr of
             (retryCount, pr) \<Rightarrow> (pr, MarkStalledRetry Q db now k retryCount st))
      | AwaitingCommit \<Rightarrow> (pr, MarkRetry Q db now k st)
      | AwaitingRetrySlot \<Rightarrow> (pr, MarkRetry Q db now k st)
      | ContextCanceled \<Rightarrow> (pr, MarkRetry Q db now k st)
      | OtherCause \<Rightarrow> (pr, markShareFailure P db obs share e st))"

definition finishShare :: "procEnv \<Rightarrow> database \<Rightarrow> observation \<Rightarrow> QueuedShare \<Rightarrow> processor \<Rightarrow> shareStore \<Rightarrow>
    processor \<times> shareStore" where
  "finishShare P db obs share pr st =
     (case processShare P db obs share pr st of
        (Some e, pr, st) \<Rightarrow> settleShareError P db obs share e pr st
      | (None, pr, st) \<Rightarrow> markShareSubmitted db obs share pr st)"

definition runShare :: "procEnv \<Rightarrow> database \<Rightarrow> observation \<Rightarrow> QueuedShare \<Rightarrow> processor \<Rightarrow> shareStore \<Rightarrow>
    processor \<times> shareStore" where
  "runShare P db obs share pr st =
     (let k = payloadKey (qs_Payload share); Q = p_queue P; now = o_endTime obs in
      if o_canceled obs then (pr, MarkRetry Q db now k st)
      else (case (case p_isRoundActive P of None \<Rightarrow> Inr True | Some check \<Rightarrow> check (sp_VoteRoundID (qs_Payload share))) of
        Inl CheckTxNotReady \<Rightarrow> (pr, MarkRetry Q db now k st)
      | Inl StatusErr \<Rightarrow> (pr, markShareFailure P db obs share (retryableShareError OtherCause) st)
      | Inr active \<Rightarrow>
          (case shareAlreadyRevealed P share of
             Inl e \<Rightarrow>
               if \<not> active \<or> classifyShareFailure e = shareFailureFail
               then (pr, markShareFailure P db obs share e st)
               else finishShare P db obs share pr st
           | Inr True \<Rightarrow> markShareSubmitted db obs share pr st
           | Inr False \<Rightarrow>
               if \<not> active then (pr, MarkFailed Q db now k st)
               else finishShare P db obs share pr st)))"

text \<open>The deferred safety net gives back a share the run left owned.\<close>

definition processQueuedShare :: "procEnv \<Rightarrow> database \<Rightarrow> observation \<Rightarrow> QueuedShare \<Rightarrow> processor \<Rightarrow> shareStore \<Rightarrow>
    processor \<times> shareStore" where
  "processQueuedShare P db obs share pr st =
     (case runShare P db obs share pr st of (pr, st) \<Rightarrow>
        (pr, snd (requeueInFlightIfOwned (o_endTime obs) (payloadKey (qs_Payload share)) (qs_attemptID share) st)))"

section \<open>What a run does to the store\<close>

text \<open>Up to the final mark only the retry progress of the share and the round cache change.\<close>

definition keepsPlaces :: "shareKey \<Rightarrow> shareStore \<Rightarrow> shareStore \<Rightarrow> bool" where
  "keepsPlaces k st st' \<longleftrightarrow> q_inFlight st' = q_inFlight st \<and> q_schedule st' = q_schedule st \<and>
     (\<exists>f. q_shares st' = updateRow k f (q_shares st) \<and> (\<forall>row. r_state (f row) = r_state row \<and> r_attempts (f row) = r_attempts row))"

lemma keepsPlaces_refl: "q_shares st' = q_shares st \<Longrightarrow> q_inFlight st' = q_inFlight st \<Longrightarrow> q_schedule st' = q_schedule st \<Longrightarrow> keepsPlaces k st st'"
  unfolding keepsPlaces_def by (intro conjI exI[of _ id]) simp_all

lemma getRoundInfo_keeps:
  assumes "getRoundInfo fetch db roundID st = (r, st')"
  shows "q_shares st' = q_shares st" "q_inFlight st' = q_inFlight st" "q_schedule st' = q_schedule st"
  using assms
  by (auto simp: getRoundInfo_def cachedRoundInfo_def cacheFetchedRoundInfo_def Let_def
      split: option.splits if_splits sum.splits prod.splits)

lemma reserveProofAttempt_keeps:
  assumes "reserveProofAttempt E db share state st = (ok, st')"
  shows "keepsPlaces (payloadKey (qs_Payload share)) st st'"
proof -
  have "st' = st \<or> (\<exists>raw. st' = st\<lparr>q_shares := updateRow (payloadKey (qs_Payload share))
      (\<lambda>row. row\<lparr>r_retry_state := TextC raw\<rparr>) (q_shares st)\<rparr>)"
    using assms by (auto simp: reserveProofAttempt_def Let_def split: option.splits if_splits)
  then show ?thesis
  proof (elim disjE exE)
    fix raw assume "st' = st\<lparr>q_shares := updateRow (payloadKey (qs_Payload share)) (\<lambda>row. row\<lparr>r_retry_state := TextC raw\<rparr>) (q_shares st)\<rparr>"
    then show ?thesis unfolding keepsPlaces_def
      by (intro conjI exI[of _ "\<lambda>row. row\<lparr>r_retry_state := TextC raw\<rparr>"]) simp_all
  qed (simp add: keepsPlaces_refl)
qed

lemma keepsPlaces_trans:
  assumes "keepsPlaces k st st1" "keepsPlaces k st1 st2"
  shows "keepsPlaces k st st2"
proof -
  obtain f g where "q_shares st1 = updateRow k f (q_shares st)" "q_shares st2 = updateRow k g (q_shares st1)"
    and fg: "\<forall>row. r_state (f row) = r_state row \<and> r_attempts (f row) = r_attempts row"
      "\<forall>row. r_state (g row) = r_state row \<and> r_attempts (g row) = r_attempts row"
    using assms by (auto simp: keepsPlaces_def)
  then have "q_shares st2 = updateRow k (g \<circ> f) (q_shares st)" by (auto simp: updateRow_def)
  then show ?thesis using assms fg unfolding keepsPlaces_def by (intro conjI exI[of _ "g \<circ> f"]) simp_all
qed

lemma reserveAndProve_keeps:
  assumes "reserveAndProve P db obs share retry prev roundID anchor path comms blind c1 c2 pr st = (e, pr', st')"
  shows "keepsPlaces (payloadKey (qs_Payload share)) st st'"
proof -
  let ?k = "payloadKey (qs_Payload share)"
  have info: "keepsPlaces ?k st st1" if "getRoundInfo fetch db' r st = (i, st1)" for fetch db' r i st1
    using getRoundInfo_keeps[OF that] by (intro keepsPlaces_refl)
  have start: "keepsPlaces ?k st st1" if "(case retry of Some state \<Rightarrow> (Inr (Some state), st)
      | None \<Rightarrow> (case getRoundInfo (p_fetch P) db (sp_VoteRoundID (qs_Payload share)) st of
           (Inl _, st) \<Rightarrow> (Inr None, st)
         | (Inr info, st) \<Rightarrow> ((case newRetryState (p_Int64N P) (o_reserveTime obs) (ri_CreatedAtTime info) (qs_VoteEndTime share) of
               Inl e \<Rightarrow> Inl e | Inr s \<Rightarrow> Inr (Some s)), st))) = (s, st1)" for s :: "retryState option res" and st1
    using that info by (auto split: option.splits prod.splits sum.splits intro: keepsPlaces_refl)
  show ?thesis using assms start
    unfolding reserveAndProve_def Let_def
    by (fastforce split: prod.splits sum.splits option.splits claim.splits bool.splits
        intro: keepsPlaces_trans reserveProofAttempt_keeps)
qed

lemma processShare_keeps:
  assumes "processShare P db obs share pr st = (e, pr', st')"
  shows "keepsPlaces (payloadKey (qs_Payload share)) st st'"
  using assms
  by (auto simp: processShare_def Let_def split: option.splits sum.splits bool.splits if_splits prod.splits
      intro: keepsPlaces_refl reserveAndProve_keeps)

lemma keepsPlaces_inv: "queueInv st \<Longrightarrow> keepsPlaces k st st' \<Longrightarrow> queueInv st'"
  unfolding keepsPlaces_def using queueInv_rows by blast

text \<open>
  After its run a share is in one place: back in the schedule, at a time still to come, or
  in a row that is submitted or has failed for good.
\<close>

definition settled :: "time \<Rightarrow> shareKey \<Rightarrow> shareStore \<Rightarrow> bool" where
  "settled now k st \<longleftrightarrow> \<not> owned st (schedKey k) \<and>
     ((\<exists>t > now. map_of (q_schedule st) (schedKey k) = Some t) \<or>
      (\<exists>row. map_of (q_shares st) k = Some row \<and> (r_state row = IntC 2 \<or> r_state row = IntC 3)))"

lemma later_second: "Second \<le> d \<Longrightarrow> now < scheduleSecond (now + d)"
  using scheduleSecond_le(2)[of "now + d"] by simp

lemma requeue_settled:
  "settled now k (requeueInFlightAfterStoreFailureLocked now (schedKey k) st)"
  using later_second[of shareSystemRetryBackoff now] by (simp add: settled_def primitive_defs lookups durations)

lemma requeueIfOwned_settled:
  "settled now k (scheduleCandidateRetryLocked now (schedKey k) (disown (schedKey k) st))"
  using later_second[of shareSystemRetryBackoff now] by (simp add: settled_def primitive_defs lookups durations)

lemma MarkSubmitted_settled:
  assumes "owned st (schedKey k)"
  shows "settled now k (MarkSubmitted db now k st)"
proof (cases "db OpSubmit k = Done \<and> receivedRow k st \<noteq> None")
  case True
  then have "MarkSubmitted db now k st = disown (schedKey k) (st\<lparr>q_shares := updateRow k submittedRow (q_shares st)\<rparr>)"
    using assms by (auto simp: MarkSubmitted_def Let_def split: option.split)
  moreover obtain row where "map_of (q_shares st) k = Some row" using True by (auto simp: receivedRow_Some)
  ultimately show ?thesis by (auto simp: settled_def disown_def lookups submittedRow_def)
next
  case False
  then show ?thesis using assms requeue_settled
    by (cases "db OpSubmit k") (auto simp: MarkSubmitted_def Let_def split: option.split)
qed

lemma markRetry_settled:
  assumes "owned st (schedKey k)"
  shows "settled now k (markRetry E db now k n st)"
proof -
  obtain active where a: "map_of (q_inFlight st) (schedKey k) = Some active" using assms by auto
  define poll where "poll = scheduleRetryTime now (if n = 0 then nextShareSystemRetryTime now (if_voteEndTime active)
    else nextShareStalledRetryTime now (if_voteEndTime active) n)"
  define at where "at row = (case decodeRetryState (retryDecode E) (scanText (r_retry_state row)) (if_voteEndTime active) of
      Inr (Some retry) \<Rightarrow> (case due retry now (if_voteEndTime active) of
        Inr (_, next) \<Rightarrow> if next > now \<and> next < poll then next else poll | Inl _ \<Rightarrow> poll)
    | _ \<Rightarrow> poll)" for row :: shareRow
  have "now < poll" unfolding poll_def by (rule scheduleRetryTime_future) (simp add: retry_poll_future)
  then have at: "now < at row" for row unfolding at_def by (auto split: sum.split option.split)
  have "markRetry E db now k n st = (case (if db OpRetryState k \<noteq> Done then None else receivedRow k st) of
      None \<Rightarrow> requeueInFlightAfterStoreFailureLocked now (schedKey k) st
    | Some row \<Rightarrow> notifyScheduleChangedLocked (setSchedule (schedKey k) (at row) (disown (schedKey k) st)))"
    unfolding markRetry_def Let_def a option.case poll_def at_def ..
  moreover have "settled now k (notifyScheduleChangedLocked (setSchedule (schedKey k) (at row) (disown (schedKey k) st)))" for row
    using at by (simp add: settled_def primitive_defs lookups)
  ultimately show ?thesis using requeue_settled by (simp split: option.split)
qed

lemma failure_backoff: "1 \<le> attempts \<Longrightarrow> Second \<le> (if attempts < 0 then 0 else 2 ^ nat (min attempts 6)) * Second"
  by (simp add: Second_def)

lemma MarkFailed_settled:
  assumes "owned st (schedKey k)" "\<And>row. map_of (q_shares st) k = Some row \<Longrightarrow> 0 \<le> sqlNumber E (r_attempts row)"
  shows "settled now k (MarkFailed E db now k st)"
proof (cases "recordFailedAttemptLocked E db now k (schedKey k) st")
  case (Pair ok st1)
  have run: "MarkFailed E db now k st = (if ok then st1 else requeueInFlightAfterStoreFailureLocked now (schedKey k) st1)"
    using assms(1) Pair by (auto simp: MarkFailed_def Let_def split: bool.split)
  have "settled now k st1" if fin: ok
  proof -
    define attempts where "attempts row = sqlNumber E (r_attempts row) + 1" for row :: shareRow
    define stored where "stored = st\<lparr>q_shares := updateRow k (failedAttemptRow E) (q_shares st)\<rparr>"
    define at where "at row = scheduleSecond (now + (if attempts row < 0 then 0 else 2 ^ nat (min (attempts row) 6)) * Second)" for row
    have "receivedRow k st \<noteq> None" using Pair fin
      by (cases "receivedRow k st") (auto simp: recordFailedAttemptLocked_def split: if_splits)
    then obtain row where r: "receivedRow k st = Some row" by blast
    then have row: "map_of (q_shares st) k = Some row" by (simp add: receivedRow_Some)
    have st1: "st1 = (if attempts row \<ge> shareFailedMaxAttempts
        then notifyScheduleChangedLocked (unschedule (schedKey k) (disown (schedKey k) stored))
        else notifyScheduleChangedLocked (setSchedule (schedKey k) (at row) (disown (schedKey k) stored)))"
      using Pair fin
      unfolding recordFailedAttemptLocked_def Let_def r option.case attempts_def[symmetric] stored_def[symmetric] at_def[symmetric]
      by (simp split: if_splits)
    have "now < at row" unfolding at_def attempts_def
      using assms(2)[OF row] by (intro later_second failure_backoff) simp
    moreover have "r_state (failedAttemptRow E row) = IntC (if attempts row \<ge> shareFailedMaxAttempts then 3 else 0)"
      by (simp add: failedAttemptRow_def Let_def attempts_def)
    ultimately show ?thesis using row unfolding st1
      by (simp add: settled_def primitive_defs lookups stored_def)
  qed
  then show ?thesis using run requeue_settled by simp
qed

section \<open>A whole run\<close>

text \<open>A share a worker may finish, and what it leaves behind unless it marks it submitted.\<close>

definition inHand :: "queueEnv \<Rightarrow> shareKey \<Rightarrow> shareStore \<Rightarrow> bool" where
  "inHand E k st \<longleftrightarrow> queueInv st \<and> owned st (schedKey k) \<and> colon \<notin> set (k_round k) \<and>
     (\<forall>row. map_of (q_shares st) k = Some row \<longrightarrow> 0 \<le> sqlNumber E (r_attempts row))"

definition givenBack :: "time \<Rightarrow> shareKey \<Rightarrow> shareStore \<Rightarrow> bool" where
  "givenBack now k st \<longleftrightarrow> queueInv st \<and> settled now k st \<and>
     (\<forall>row. map_of (q_shares st) k = Some row \<longrightarrow> r_state row \<noteq> IntC 2)"

lemma inHand_received:
  assumes "inHand E k st"
  obtains row where "map_of (q_shares st) k = Some row" "r_state row = IntC 0"
  using assms owned_row[of st k] unfolding inHand_def by blast

lemma requeue_shares [simp]: "q_shares (requeueInFlightAfterStoreFailureLocked now key st) = q_shares st"
  by (simp add: primitive_defs)

lemma markRetry_shares [simp]: "q_shares (markRetry E db now k n st) = q_shares st"
  by (auto simp: markRetry_def Let_def primitive_defs split: option.split)

lemma MarkFailed_shares:
  "q_shares (MarkFailed E db now k st) = q_shares st \<or>
   q_shares (MarkFailed E db now k st) = updateRow k (failedAttemptRow E) (q_shares st)"
proof (cases "recordFailedAttemptLocked E db now k (schedKey k) st")
  case (Pair ok st1)
  have "q_shares st1 = q_shares st \<or> q_shares st1 = updateRow k (failedAttemptRow E) (q_shares st)"
  proof (cases "receivedRow k st")
    case None
    then show ?thesis using Pair by (auto simp: recordFailedAttemptLocked_def split: if_splits)
  next
    case (Some row)
    then show ?thesis using Pair
      by (auto simp: recordFailedAttemptLocked_def Let_def primitive_defs split: if_splits)
  qed
  then show ?thesis using Pair by (auto simp: MarkFailed_def Let_def split: bool.split)
qed

lemma markRetry_givenBack:
  assumes "inHand E k st"
  shows "givenBack now k (markRetry E' db now k n st)"
proof -
  obtain row where "map_of (q_shares st) k = Some row" "r_state row = IntC 0" using inHand_received[OF assms] .
  then show ?thesis using assms markRetry_inv[of st k] markRetry_settled[of st k]
    by (auto simp: givenBack_def inHand_def)
qed

lemma MarkFailed_givenBack:
  assumes "inHand E k st"
  shows "givenBack now k (MarkFailed E db now k st)"
proof -
  obtain row where row: "map_of (q_shares st) k = Some row" "r_state row = IntC 0" using inHand_received[OF assms] .
  have "r_state (failedAttemptRow E row) \<noteq> IntC 2" by (simp add: failedAttemptRow_def Let_def)
  then have "r_state row' \<noteq> IntC 2" if "map_of (q_shares (MarkFailed E db now k st)) k = Some row'" for row'
    using that row MarkFailed_shares[of E db now k st] by (auto simp: lookups)
  moreover have "queueInv (MarkFailed E db now k st)" "settled now k (MarkFailed E db now k st)"
    using assms MarkFailed_inv MarkFailed_settled unfolding inHand_def by blast+
  ultimately show ?thesis by (simp add: givenBack_def)
qed

lemma keepsPlaces_inHand:
  assumes "inHand E k st" "keepsPlaces k st st'"
  shows "inHand E k st'"
proof -
  have "queueInv st'" using assms keepsPlaces_inv by (auto simp: inHand_def)
  moreover have "0 \<le> sqlNumber E (r_attempts row)" if "map_of (q_shares st') k = Some row" for row
    using that assms by (auto simp: inHand_def keepsPlaces_def lookups)
  ultimately show ?thesis using assms by (auto simp: inHand_def keepsPlaces_def)
qed

lemma markShareFailure_givenBack:
  "inHand (p_queue P) (payloadKey (qs_Payload share)) st \<Longrightarrow>
   givenBack (o_endTime obs) (payloadKey (qs_Payload share)) (markShareFailure P db obs share e st)"
  by (auto simp: markShareFailure_def Let_def MarkRetry_def split: shareFailureAction.split
      intro: markRetry_givenBack MarkFailed_givenBack)

lemma settleShareError_givenBack:
  assumes "inHand (p_queue P) (payloadKey (qs_Payload share)) st"
  shows "givenBack (o_endTime obs) (payloadKey (qs_Payload share)) (snd (settleShareError P db obs share e pr st))"
  using markShareFailure_givenBack[OF assms] markRetry_givenBack[OF assms]
  by (auto simp: settleShareError_def Let_def MarkRetry_def MarkStalledRetry_def split: failureCause.split prod.split)

lemma markShareSubmitted_settled:
  assumes "inHand E (payloadKey (qs_Payload share)) st"
  shows "queueInv (snd (markShareSubmitted db obs share pr st)) \<and>
    settled (o_endTime obs) (payloadKey (qs_Payload share)) (snd (markShareSubmitted db obs share pr st))"
  using assms MarkSubmitted_inv MarkSubmitted_settled by (simp add: markShareSubmitted_def Let_def inHand_def)

text \<open>A run of the pipeline reports success only when the chain answered that the nullifier is already spent.\<close>

abbreviation chainHasNullifier :: "procEnv \<Rightarrow> bool" where
  "chainHasNullifier P \<equiv> \<exists>msg result. p_submit P msg = Inr result \<and> IsDuplicateNullifier (br_Code result)"

lemma proveAndSubmit_None:
  "proveAndSubmit P obs share roundID anchor path comms blind c1 c2 pr = (None, pr') \<Longrightarrow> chainHasNullifier P"
  by (auto simp: proveAndSubmit_def Let_def split: proofResult.splits if_splits prod.splits bool.splits sum.splits)

lemma reserveAndProve_None:
  "reserveAndProve P db obs share retry prev roundID anchor path comms blind c1 c2 pr st = (None, pr', st') \<Longrightarrow> chainHasNullifier P"
  unfolding reserveAndProve_def Let_def
  by (auto split: prod.splits sum.splits option.splits claim.splits bool.splits dest: proveAndSubmit_None)

lemma processShare_None: "processShare P db obs share pr st = (None, pr', st') \<Longrightarrow> chainHasNullifier P"
  by (auto simp: processShare_def Let_def split: option.splits sum.splits bool.splits if_splits prod.splits
      dest: reserveAndProve_None)

lemma finishShare_settled:
  assumes "inHand (p_queue P) k st" "k = payloadKey (qs_Payload share)" "finishShare P db obs share pr st = (pr', st')"
  shows "queueInv st' \<and> settled (o_endTime obs) k st' \<and> (givenBack (o_endTime obs) k st' \<or> chainHasNullifier P)"
proof (cases "processShare P db obs share pr st")
  case (fields e pr1 st1)
  have i: "inHand (p_queue P) k st1"
    using keepsPlaces_inHand[OF assms(1)] processShare_keeps[OF fields] assms(2) by simp
  show ?thesis
  proof (cases e)
    case None
    then have "st' = snd (markShareSubmitted db obs share pr1 st1)" using assms(3) fields by (simp add: finishShare_def)
    then show ?thesis using markShareSubmitted_settled[of "p_queue P" share st1 db obs pr1] i assms(2)
      processShare_None[of P db obs share pr st pr1 st1] fields None by simp
  next
    case (Some e')
    then have "st' = snd (settleShareError P db obs share e' pr1 st1)" using assms(3) fields by (simp add: finishShare_def)
    then show ?thesis using settleShareError_givenBack[of P share st1 obs db e' pr1] i assms(2) by (simp add: givenBack_def)
  qed
qed

lemma runShare_settled:
  assumes hand: "inHand (p_queue P) k st" and k: "k = payloadKey (qs_Payload share)" and run: "runShare P db obs share pr st = (pr', st')"
  shows "queueInv st' \<and> settled (o_endTime obs) k st' \<and>
    (givenBack (o_endTime obs) k st' \<or> shareAlreadyRevealed P share = Inr True \<or> chainHasNullifier P)"
proof -
  have given: "givenBack (o_endTime obs) k (markRetry (p_queue P) db (o_endTime obs) k n st)"
    "givenBack (o_endTime obs) k (MarkFailed (p_queue P) db (o_endTime obs) k st)"
    "givenBack (o_endTime obs) k (markShareFailure P db obs share e st)" for n e
    using markRetry_givenBack[OF hand] MarkFailed_givenBack[OF hand] markShareFailure_givenBack[of P share st obs db e] hand k
    by simp_all
  have g: "?thesis" if "givenBack (o_endTime obs) k st'" using that by (simp add: givenBack_def)
  have "givenBack (o_endTime obs) k st' \<or> finishShare P db obs share pr st = (pr', st') \<or>
      shareAlreadyRevealed P share = Inr True \<and> markShareSubmitted db obs share pr st = (pr', st')"
    using run unfolding runShare_def Let_def MarkRetry_def k[symmetric]
    by (auto simp: given split: if_splits sum.splits statusErr.splits bool.splits)
  then show ?thesis
  proof (elim disjE conjE)
    assume "finishShare P db obs share pr st = (pr', st')"
    from finishShare_settled[OF hand k this] show ?thesis by blast
  next
    assume "shareAlreadyRevealed P share = Inr True" "markShareSubmitted db obs share pr st = (pr', st')"
    then show ?thesis using markShareSubmitted_settled[of "p_queue P" share st db obs pr] hand k by simp
  qed (rule g)
qed


text \<open>A share whose nullifier is already on the chain.\<close>

definition revealPayload :: SharePayload where
  "revealPayload = samplePayload\<lparr>sp_VoteRoundID := replicate 64 48, sp_SharesHash := replicate 43 65 @ [61],
     sp_PrimaryBlind := replicate 43 65 @ [61]\<rparr>"

definition revealQueue :: shareStore where
  "revealQueue = (case NewShareStore (4 * Second) [(payloadKey revealPayload, payloadRow sampleQueueEnv (4 * Second) revealPayload
     \<lparr>ri_CreatedAtTime = 1, ri_VoteEndTime = 60\<rparr> (TextC []))] [] of Inr st \<Rightarrow> st | Inl _ \<Rightarrow> emptyStore [] [])"

definition revealTaken :: "QueuedShare list \<times> shareStore" where
  "revealTaken = takeReady sampleQueueEnv (\<lambda>_ _. Done) (5 * Second) 0 revealQueue"

definition sampleProcEnv :: procEnv where
  "sampleProcEnv = \<lparr>p_queue = sampleQueueEnv, p_fetch = None, p_isRoundActive = None,
     p_dedupe = Some \<lparr>d_vcHash = (\<lambda>_ h _ _. Some h), d_shareNFHash = (\<lambda>vc _ _. Some vc), d_shareNF = (\<lambda>_ _. Some True)\<rparr>,
     p_treeStatus = (\<lambda>_. None), p_merklePath = (\<lambda>_ _ _. None), p_prover = (\<lambda>_ _ _ _ _ _ _ _ _. ProofErr),
     p_submit = (\<lambda>_. Inl SubmitFailed), p_Int64N = (\<lambda>_. 0)\<rparr>"

definition sampleObservation :: observation where
  "sampleObservation = \<lparr>o_canceled = False, o_checkTime = 6 * Second, o_reserveTime = 6 * Second, o_endTime = 7 * Second,
     o_height = 3, o_submitHeight = 4\<rparr>"

lemma revealQueue_started:
  "NewShareStore (4 * Second) [(payloadKey revealPayload, payloadRow sampleQueueEnv (4 * Second) revealPayload
     \<lparr>ri_CreatedAtTime = 1, ri_VoteEndTime = 60\<rparr> (TextC []))] [] = Inr revealQueue"
  by code_simp

lemma revealTaken_inv: "queueInv (snd revealTaken)"
proof -
  have inv: "queueInv revealQueue"
    by (rule NewShareStore_inv[OF revealQueue_started])
       (auto simp: payloadKey_def revealPayload_def colon_def)
  have now: "q_dequeueRetryUntil revealQueue \<le> 5 * Second" by code_simp
  have "takeReady sampleQueueEnv (\<lambda>_ _. Done) (5 * Second) 0 revealQueue = (fst revealTaken, snd revealTaken)"
    by (simp add: revealTaken_def)
  from takeReady_dispatched[OF inv this now] show ?thesis by (simp add: dispatched_def)
qed


end
