(* ===== verification/Queue_Rescue.thy ===== *)
theory Queue_Rescue
  imports Queue_Invariant
begin

text \<open>
  Export and import of the share queue, the rest of \<^verbatim>\<open>src/internal/helper/store.go\<close>: the
  local rescue artifact of a round, the import that merges it into another store inside one
  transaction, and the counts the helper reports.

  The lemmas show that the queue invariant survives every interleaving of the operations,
  imports and restarts included, and that importing an export loses no processable share.
\<close>

section \<open>Export\<close>

record QueueExportRow =
  er_ShareIndex :: u32
  er_SharesHash :: gostring
  er_ProposalID :: u32
  er_VoteDecision :: u32
  er_EncShare :: EncryptedShareWire
  er_TreePosition :: u64
  er_ShareComms :: "gostring list"
  er_PrimaryBlind :: gostring
  er_State :: int
  er_Attempts :: int
  er_VoteEndTime :: u64
  er_SubmitAt :: u64
  er_OriginalSubmitAt :: u64
  er_ReceivedAt :: u64
  er_Processable :: bool
  er_Corrupt :: bool
  er_CorruptionReason :: gostring
  er_RawShareCommsBase64 :: "gostring option"

record QueueExport =
  ex_Version :: int
  ex_RoundID :: gostring
  ex_ExportedAt :: u64
  ex_Round :: RoundInfo
  ex_Rows :: "QueueExportRow list"

definition QueueExportVersion :: int where "QueueExportVersion = 1"

definition isProcessableShareState :: "int \<Rightarrow> bool" where
  "isProcessableShareState state \<longleftrightarrow> state = 0 \<or> state = 1"

text \<open>\<^verbatim>\<open>Scan\<close> into a signed integer and the standard base64 encoding.\<close>

definition scanInt :: "cell \<Rightarrow> int option" where
  "scanInt c =
     (case scanText c of
        [] \<Rightarrow> None
      | d # ds \<Rightarrow>
          let neg = d = 45; digits = (if d = 45 \<or> d = 43 then ds else d # ds) in
          if digits = [] \<or> \<not> list_all isDigit digits then None
          else let n = (if neg then - decimal digits else decimal digits) in
               if n < - (2 ^ 63) \<or> n \<ge> 2 ^ 63 then None else Some n)"

definition base64Char :: "nat \<Rightarrow> u8" where
  "base64Char n = word_of_nat (if n < 26 then 65 + n else if n < 52 then 71 + n else if n < 62 then n - 4
     else if n = 62 then 43 else 47)"

fun base64Encode :: "bytes \<Rightarrow> gostring" where
  "base64Encode [] = []"
| "base64Encode [a] = [base64Char (unat a div 4), base64Char (unat a mod 4 * 16), 61, 61]"
| "base64Encode [a, b] = [base64Char (unat a div 4), base64Char (unat a mod 4 * 16 + unat b div 16),
     base64Char (unat b mod 16 * 4), 61]"
| "base64Encode (a # b # c # cs) =
     [base64Char (unat a div 4), base64Char (unat a mod 4 * 16 + unat b div 16),
      base64Char (unat b mod 16 * 4 + unat c div 64), base64Char (unat c mod 64)] @ base64Encode cs"

text \<open>The order of SQLite: integers by value, then texts, then blobs by their bytes.\<close>

fun cellOrder :: "cell \<Rightarrow> nat \<times> int \<times> bytes" where
  "cellOrder (IntC n) = (0, sint n, [])"
| "cellOrder (TextC s) = (1, 0, s)"
| "cellOrder (BlobC b) = (2, 0, b)"

definition bindO :: "'a option \<Rightarrow> ('a \<Rightarrow> queueErr + 'b) \<Rightarrow> queueErr + 'b" where
  "bindO x f = (case x of None \<Rightarrow> Inl StoreErr | Some a \<Rightarrow> f a)"

definition exportRow :: "queueEnv \<Rightarrow> shareKey \<times> shareRow \<Rightarrow> queueErr + QueueExportRow" where
  "exportRow E kr = (case kr of (ShareKey roundID shareIndex proposalID treePosition, row) \<Rightarrow>
     bindO (scanUint 32 (r_vote_decision row)) (\<lambda>voteDecision.
     bindO (scanInt (r_state row)) (\<lambda>state.
     bindO (scanInt (r_attempts row)) (\<lambda>attempts.
     bindO (scanUint 64 (r_vote_end_time row)) (\<lambda>voteEndTime.
     bindO (scanUint 64 (r_submit_at row)) (\<lambda>submitAt.
     bindO (scanUint 64 (r_original_submit_at row)) (\<lambda>originalSubmitAt.
     bindO (scanUint 64 (r_received_at row)) (\<lambda>receivedAt.
     let commsJSON = scanText (r_share_comms row);
         er = \<lparr>er_ShareIndex = shareIndex, er_SharesHash = scanText (r_shares_hash row),
           er_ProposalID = proposalID, er_VoteDecision = word_of_int voteDecision,
           er_EncShare = \<lparr>es_C1 = scanText (r_enc_share_c1 row), es_C2 = scanText (r_enc_share_c2 row),
             es_ShareIndex = shareIndex\<rparr>,
           er_TreePosition = treePosition, er_ShareComms = [], er_PrimaryBlind = scanText (r_primary_blind row),
           er_State = state, er_Attempts = attempts, er_VoteEndTime = word_of_int voteEndTime,
           er_SubmitAt = word_of_int submitAt,
           er_OriginalSubmitAt = (if originalSubmitAt = 0 then word_of_int submitAt else word_of_int originalSubmitAt),
           er_ReceivedAt = word_of_int receivedAt, er_Processable = isProcessableShareState state,
           er_Corrupt = False, er_CorruptionReason = [], er_RawShareCommsBase64 = None\<rparr> in
     Inr (case commsDecode E commsJSON of
            Some comms \<Rightarrow> er\<lparr>er_ShareComms := comms\<rparr>
          | None \<Rightarrow> er\<lparr>er_Corrupt := True, er_CorruptionReason := str ''invalid_share_comms_json'',
              er_RawShareCommsBase64 := Some (base64Encode commsJSON), er_Processable := False\<rparr>)))))))))"

fun exportRows :: "queueEnv \<Rightarrow> (shareKey \<times> shareRow) list \<Rightarrow> queueErr + QueueExportRow list" where
  "exportRows E [] = Inr []"
| "exportRows E (kr # krs) =
     bindS (exportRow E kr) (\<lambda>er. bindS (exportRows E krs) (\<lambda>ers. Inr (er # ers)))"

definition rowOrder :: "shareKey \<times> shareRow \<Rightarrow> _" where
  "rowOrder kr = (case kr of (k, row) \<Rightarrow> (cellOrder (r_submit_at row), cellOrder (r_received_at row),
     unat (k_proposal k), cellOrder (r_vote_decision row), unat (k_index k), unat (k_position k)))"

definition ExportQueue :: "queueEnv \<Rightarrow> database \<Rightarrow> gostring \<Rightarrow> time \<Rightarrow> shareStore \<Rightarrow> queueErr + QueueExport" where
  "ExportQueue E db roundID now st =
     (if (\<exists>active \<in> snd ` set (q_inFlight st). if_roundID active = roundID) then Inl StoreErr
      else if db OpRounds (ShareKey roundID 0 0 0) \<noteq> Done \<or> db OpLoad (ShareKey roundID 0 0 0) \<noteq> Done then Inl StoreErr
      else
        let info = (case map_of (q_rounds st) roundID of Some info \<Rightarrow> info
                    | None \<Rightarrow> \<lparr>ri_CreatedAtTime = 0, ri_VoteEndTime = 0\<rparr>) in
        bindS (exportRows E (sort_key rowOrder (filter (\<lambda>(k, _). k_round k = roundID) (q_shares st)))) (\<lambda>ers.
        let voteEnd = foldl (\<lambda>v er. if v = 0 \<and> er_VoteEndTime er \<noteq> 0 then er_VoteEndTime er else v)
              (ri_VoteEndTime info) ers in
        Inr \<lparr>ex_Version = QueueExportVersion, ex_RoundID = roundID, ex_ExportedAt = word_of_int (unixSeconds now),
             ex_Round = info\<lparr>ri_VoteEndTime := voteEnd\<rparr>, ex_Rows = ers\<rparr>))"

section \<open>Import\<close>

record QueueImportResult =
  im_Inserted :: int
  im_Duplicates :: int
  im_Conflicts :: int
  im_SkippedTerminal :: int

text \<open>\<^verbatim>\<open>strings.TrimSpace(s) == ""\<close>: only white space of Unicode, in UTF-8.\<close>

fun blank :: "gostring \<Rightarrow> bool" where
  "blank [] = True"
| "blank (c # cs) =
     (if 9 \<le> c \<and> c \<le> 13 \<or> c = 32 then blank cs
      else case cs of
        d # ds \<Rightarrow>
          if c = 0xC2 \<and> (d = 0x85 \<or> d = 0xA0) then blank ds
          else (case ds of
            e # es \<Rightarrow>
              if c = 0xE1 \<and> d = 0x9A \<and> e = 0x80 \<or>
                 c = 0xE2 \<and> d = 0x80 \<and> (0x80 \<le> e \<and> e \<le> 0x8A \<or> e = 0xA8 \<or> e = 0xA9 \<or> e = 0xAF) \<or>
                 c = 0xE2 \<and> d = 0x81 \<and> e = 0x9F \<or> c = 0xE3 \<and> d = 0x80 \<and> e = 0x80
              then blank es else False
          | [] \<Rightarrow> False)
      | [] \<Rightarrow> False)"

definition importKey :: "gostring \<Rightarrow> QueueExportRow \<Rightarrow> shareKey" where
  "importKey roundID er = ShareKey roundID (er_ShareIndex er) (er_ProposalID er) (er_TreePosition er)"

text \<open>The rows and the schedule entries of the transaction so far.\<close>

record importTx =
  tx_shares :: "(shareKey \<times> shareRow) list"
  tx_schedule :: "(gostring \<times> time) list"
  tx_result :: QueueImportResult

definition importRowMatchesExisting :: "queueEnv \<Rightarrow> database \<Rightarrow> gostring \<Rightarrow> QueueExportRow \<Rightarrow> importTx \<Rightarrow> queueErr + (bool \<times> int)" where
  "importRowMatchesExisting E db roundID er tx =
     (let k = importKey roundID er in
      bindO (if db OpLoad k \<noteq> Done then None else map_of (tx_shares tx) k) (\<lambda>row.
      bindO (scanUint 32 (r_vote_decision row)) (\<lambda>voteDecision.
      bindO (scanInt (r_state row)) (\<lambda>state.
      let commsJSON = scanText (r_share_comms row) in
      bindO (if commsJSON = [] then Some [] else commsDecode E commsJSON) (\<lambda>comms.
      Inr (scanText (r_shares_hash row) = er_SharesHash er \<and> word_of_int voteDecision = er_VoteDecision er \<and>
           scanText (r_enc_share_c1 row) = es_C1 (er_EncShare er) \<and>
           scanText (r_enc_share_c2 row) = es_C2 (er_EncShare er) \<and>
           comms = er_ShareComms er \<and> scanText (r_primary_blind row) = er_PrimaryBlind er, state))))))"

definition forceReadyExistingImportRow :: "u64 \<Rightarrow> shareRow \<Rightarrow> shareRow" where
  "forceReadyExistingImportRow originalSubmitAt row =
     (if r_state row = IntC 0 \<or> r_state row = IntC 1
      then row\<lparr>r_submit_at := IntC 0,
               r_original_submit_at := (if r_original_submit_at row = IntC 0 then IntC originalSubmitAt
                                        else r_original_submit_at row)\<rparr>
      else row)"

definition importedRow :: "queueEnv \<Rightarrow> QueueExportRow \<Rightarrow> u64 \<Rightarrow> u64 \<Rightarrow> u64 \<Rightarrow> shareRow" where
  "importedRow E er voteEndTime submitAt originalSubmitAt =
     \<lparr>r_shares_hash = TextC (er_SharesHash er), r_vote_decision = IntC (ucast (er_VoteDecision er)),
      r_enc_share_c1 = TextC (es_C1 (er_EncShare er)), r_enc_share_c2 = TextC (es_C2 (er_EncShare er)),
      r_share_comms = TextC (commsEncode E (er_ShareComms er)), r_primary_blind = TextC (er_PrimaryBlind er),
      r_state = IntC 0, r_attempts = IntC (word_of_int (er_Attempts er)), r_vote_end_time = IntC voteEndTime,
      r_submit_at = IntC submitAt, r_original_submit_at = IntC originalSubmitAt,
      r_received_at = IntC (er_ReceivedAt er), r_retry_state = TextC []\<rparr>"

definition importRow :: "queueEnv \<Rightarrow> database \<Rightarrow> time \<Rightarrow> bool \<Rightarrow> shareStore \<Rightarrow> QueueExport \<Rightarrow> QueueExportRow \<Rightarrow>
    importTx \<Rightarrow> queueErr + importTx" where
  "importRow E db bucket forceReady st export er tx =
     (if er_Corrupt er \<or> \<not> isProcessableShareState (er_State er)
      then Inr (tx\<lparr>tx_result := (tx_result tx)\<lparr>im_SkippedTerminal := im_SkippedTerminal (tx_result tx) + 1\<rparr>\<rparr>)
      else
        let k = importKey (ex_RoundID export) er; key = schedKey k;
            originalSubmitAt = (if er_OriginalSubmitAt er = 0 then er_SubmitAt er else er_OriginalSubmitAt er);
            submitAt = (if forceReady then 0 else er_SubmitAt er);
            voteEndTime = (if er_VoteEndTime er = 0 then ri_VoteEndTime (ex_Round export) else er_VoteEndTime er) in
        if \<not> forceReady \<and> submitAt \<noteq> 0 \<and> submitAt \<ge> voteEndTime then Inl ErrInvalidSubmitAt
        else if db OpImport k = NotDone then Inl StoreErr
        else
          let fresh = map_of (tx_shares tx) k = None;
              tx = (if fresh then tx\<lparr>tx_shares := tx_shares tx @ [(k, importedRow E er voteEndTime submitAt originalSubmitAt)]\<rparr> else tx) in
          if fresh \<and> db OpImport k = Done
          then Inr (tx\<lparr>tx_schedule := AList.update key (scheduledTime submitAt bucket) (tx_schedule tx),
                      tx_result := (tx_result tx)\<lparr>im_Inserted := im_Inserted (tx_result tx) + 1\<rparr>\<rparr>)
          else
            bindS (importRowMatchesExisting E db (ex_RoundID export) er tx) (\<lambda>(duplicate, existingState).
            if \<not> duplicate
            then Inr (tx\<lparr>tx_result := (tx_result tx)\<lparr>im_Conflicts := im_Conflicts (tx_result tx) + 1\<rparr>\<rparr>)
            else
              let tx = tx\<lparr>tx_result := (tx_result tx)\<lparr>im_Duplicates := im_Duplicates (tx_result tx) + 1\<rparr>\<rparr> in
              if \<not> forceReady \<or> \<not> isProcessableShareState existingState \<or> map_of (q_inFlight st) key \<noteq> None then Inr tx
              else if db OpReplace k \<noteq> Done then Inl StoreErr
              else
                let tx = tx\<lparr>tx_shares := updateRow k (forceReadyExistingImportRow originalSubmitAt) (tx_shares tx)\<rparr> in
                Inr (if existingState = 0
                     then tx\<lparr>tx_schedule := AList.update key (scheduledTime 0 bucket) (tx_schedule tx)\<rparr> else tx)))"

fun importRows :: "queueEnv \<Rightarrow> database \<Rightarrow> time \<Rightarrow> bool \<Rightarrow> shareStore \<Rightarrow> QueueExport \<Rightarrow> QueueExportRow list \<Rightarrow>
    importTx \<Rightarrow> queueErr + importTx" where
  "importRows E db bucket forceReady st export [] tx = Inr tx"
| "importRows E db bucket forceReady st export (er # ers) tx =
     bindS (importRow E db bucket forceReady st export er tx) (importRows E db bucket forceReady st export ers)"

definition ImportQueue :: "queueEnv \<Rightarrow> database \<Rightarrow> time \<Rightarrow> QueueExport \<Rightarrow> bool \<Rightarrow> shareStore \<Rightarrow>
    (queueErr + QueueImportResult) \<times> shareStore" where
  "ImportQueue E db now export forceReady st =
     (if ex_Version export \<noteq> QueueExportVersion \<or> blank (ex_RoundID export) then (Inl StoreErr, st)
      else if db OpImport (ShareKey [] 0 0 0) \<noteq> Done then (Inl StoreErr, st)
      else (case importRows E db (scheduleSecond now) forceReady st export (ex_Rows export)
          \<lparr>tx_shares = q_shares st, tx_schedule = [],
           tx_result = \<lparr>im_Inserted = 0, im_Duplicates = 0, im_Conflicts = 0, im_SkippedTerminal = 0\<rparr>\<rparr> of
         Inl e \<Rightarrow> (Inl e, st)
       | Inr tx \<Rightarrow>
           let known = (ri_CreatedAtTime (ex_Round export) \<noteq> 0 \<or> ri_VoteEndTime (ex_Round export) \<noteq> 0) \<and>
                 im_Inserted (tx_result tx) + im_Duplicates (tx_result tx) > 0 in
           if known \<and> db OpRounds (ShareKey (ex_RoundID export) 1 0 0) \<noteq> Done then (Inl StoreErr, st)
           else (Inr (tx_result tx),
             st\<lparr>q_shares := tx_shares tx,
                q_rounds := (if known then AList.update (ex_RoundID export) (ex_Round export) (q_rounds st) else q_rounds st),
                q_roundCache := (if known then AList.update (ex_RoundID export) (ex_Round export) (q_roundCache st)
                                 else q_roundCache st),
                q_schedule := foldl (\<lambda>s (key, t). AList.update key t s) (q_schedule st) (tx_schedule tx),
                q_scheduleChanged := (q_scheduleChanged st \<or> tx_schedule tx \<noteq> [])\<rparr>)))"

section \<open>An import keeps the invariant\<close>

definition txOK :: "shareStore \<Rightarrow> importTx \<Rightarrow> bool" where
  "txOK st tx \<longleftrightarrow> distinct (map fst (tx_shares tx)) \<and>
     (\<forall>k. map_of (tx_shares tx) k \<noteq> None \<longrightarrow> colon \<notin> set (k_round k)) \<and>
     (\<forall>k row. map_of (q_shares st) k = Some row \<longrightarrow>
        (\<exists>row'. map_of (tx_shares tx) k = Some row' \<and> r_state row' = r_state row)) \<and>
     (\<forall>k row. map_of (tx_shares tx) k = Some row \<and> r_state row = IntC 0 \<longrightarrow>
        received st k \<or> map_of (tx_schedule tx) (schedKey k) \<noteq> None) \<and>
     (\<forall>key. map_of (tx_schedule tx) key \<noteq> None \<longrightarrow>
        \<not> owned st key \<and> (\<exists>k. key = schedKey k \<and> colon \<notin> set (k_round k)))"

lemma txOK_D:
  assumes "txOK st tx"
  shows "distinct (map fst (tx_shares tx))" "map_of (tx_shares tx) k \<noteq> None \<Longrightarrow> colon \<notin> set (k_round k)"
    "map_of (q_shares st) k = Some row \<Longrightarrow> \<exists>row'. map_of (tx_shares tx) k = Some row' \<and> r_state row' = r_state row"
    "map_of (tx_shares tx) k = Some row \<Longrightarrow> r_state row = IntC 0 \<Longrightarrow> received st k \<or> map_of (tx_schedule tx) (schedKey k) \<noteq> None"
    "map_of (tx_schedule tx) key \<noteq> None \<Longrightarrow> \<not> owned st key \<and> (\<exists>k. key = schedKey k \<and> colon \<notin> set (k_round k))"
  using assms unfolding txOK_def by blast+

lemma txOK_result [simp]: "txOK st (tx\<lparr>tx_result := r\<rparr>) \<longleftrightarrow> txOK st tx"
  by (simp add: txOK_def)

lemma txOK_cong:
  assumes "tx_shares tx' = tx_shares tx" "tx_schedule tx' = tx_schedule tx" "txOK st tx"
  shows "txOK st tx'"
  using assms(3) unfolding txOK_def assms(1,2) .

lemma txOK_insert:
  assumes inv: "queueInv st" and ok: "txOK st tx" and k: "colon \<notin> set (k_round k)" "map_of (tx_shares tx) k = None"
    and tx': "tx_shares tx' = tx_shares tx @ [(k, row)]" "tx_schedule tx' = AList.update (schedKey k) t (tx_schedule tx)"
  shows "txOK st tx'"
proof -
  note D = txOK_D[OF ok]
  have "map_of (q_shares st) k = None" using D(3)[of k] k(2) by (cases "map_of (q_shares st) k") auto
  then have own: "\<not> owned st (schedKey k)" using owned_row[OF inv _ k(1)] by (metis option.distinct(1))
  have m: "map_of (tx_shares tx @ [(k, row)]) k' = (if k' = k then Some row else map_of (tx_shares tx) k')" for k'
    using k(2) by (auto simp: map_add_def split: option.split)
  have d: "distinct (map fst (tx_shares tx @ [(k, row)]))"
    using D(1) k(2) by (simp add: map_of_eq_None_iff)
  show ?thesis unfolding txOK_def tx' m
  proof (intro conjI allI impI)
    fix k' row' assume "map_of (q_shares st) k' = Some row'"
    then show "\<exists>row''. (if k' = k then Some row else map_of (tx_shares tx) k') = Some row'' \<and> r_state row'' = r_state row'"
      using D(3)[of k' row'] k(2) by auto
  next
    fix k' row' assume "(if k' = k then Some row else map_of (tx_shares tx) k') = Some row' \<and> r_state row' = IntC 0"
    then show "received st k' \<or> map_of (AList.update (schedKey k) t (tx_schedule tx)) (schedKey k') \<noteq> None"
      using D(4)[of k' row'] by (cases "k' = k") (auto simp: lookups)
  next
    fix key assume "map_of (AList.update (schedKey k) t (tx_schedule tx)) key \<noteq> None"
    then show "\<not> owned st key" "\<exists>k. key = schedKey k \<and> colon \<notin> set (k_round k)"
      using D(5)[of key] own k(1) by (cases "key = schedKey k"; auto simp: lookups)+
  next
    fix k' assume "(if k' = k then Some row else map_of (tx_shares tx) k') \<noteq> None"
    then show "colon \<notin> set (k_round k')" using D(2)[of k'] k(1) by (auto split: if_splits)
  qed (rule d)
qed

lemma txOK_force:
  assumes ok: "txOK st tx" and k: "map_of (tx_shares tx) k \<noteq> None" "\<not> owned st (schedKey k)"
    and s: "tx_schedule tx' = tx_schedule tx \<or> tx_schedule tx' = AList.update (schedKey k) t (tx_schedule tx)"
    and r: "tx_shares tx' = updateRow k f (tx_shares tx)" "\<And>row. r_state (f row) = r_state row"
  shows "txOK st tx'"
proof -
  note D = txOK_D[OF ok]
  have w: "map_of (tx_schedule tx) key \<noteq> None \<Longrightarrow> map_of (tx_schedule tx') key \<noteq> None" for key
    using s by (auto simp: lookups)
  have w': "map_of (tx_schedule tx') key \<noteq> None \<Longrightarrow> map_of (tx_schedule tx) key \<noteq> None \<or> key = schedKey k" for key
    using s by (auto simp: lookups split: if_splits)
  show ?thesis unfolding txOK_def
  proof (intro conjI allI impI)
    fix k' row assume "map_of (q_shares st) k' = Some row"
    then show "\<exists>row'. map_of (tx_shares tx') k' = Some row' \<and> r_state row' = r_state row"
      using D(3)[of k' row] r by (auto simp: lookups)
  next
    fix k' row assume "map_of (tx_shares tx') k' = Some row \<and> r_state row = IntC 0"
    then obtain row0 where "map_of (tx_shares tx) k' = Some row0" "r_state row0 = IntC 0"
      using r by (auto simp: lookups split: if_splits)
    then show "received st k' \<or> map_of (tx_schedule tx') (schedKey k') \<noteq> None" using D(4)[of k' row0] w by blast
  next
    fix key assume "map_of (tx_schedule tx') key \<noteq> None"
    then show "\<not> owned st key" "\<exists>k. key = schedKey k \<and> colon \<notin> set (k_round k)"
      using w'[of key] D(5)[of key] D(2)[OF k(1)] k(2) by auto
  next
    fix k' assume "map_of (tx_shares tx') k' \<noteq> None"
    then show "colon \<notin> set (k_round k')" using D(2)[of k'] D(2)[OF k(1)] r by (auto simp: lookups split: if_splits)
  qed (use D(1) r in simp)
qed

lemma importRow_txOK:
  assumes inv: "queueInv st" and ok: "txOK st tx" and c: "colon \<notin> set (ex_RoundID export)"
    and db: "\<forall>k. db OpImport k \<noteq> DoneUnknown" and i: "importRow E db bucket force st export er tx = Inr tx'"
  shows "txOK st tx'"
proof -
  define k where "k = importKey (ex_RoundID export) er"
  have ck: "colon \<notin> set (k_round k)" using c by (simp add: k_def importKey_def)
  show ?thesis
  proof (cases "map_of (tx_shares tx) k")
    case None
    have "tx_shares tx' = tx_shares tx \<and> tx_schedule tx' = tx_schedule tx \<or>
      (\<exists>row t. tx_shares tx' = tx_shares tx @ [(k, row)] \<and> tx_schedule tx' = AList.update (schedKey k) t (tx_schedule tx))"
      using i db[rule_format, of k] None by (cases "db OpImport k") (auto simp: importRow_def Let_def k_def[symmetric] split: if_splits)
    then show ?thesis
    proof (elim disjE exE conjE)
      assume "tx_shares tx' = tx_shares tx" "tx_schedule tx' = tx_schedule tx"
      then show ?thesis using txOK_cong ok by blast
    next
      fix row t assume "tx_shares tx' = tx_shares tx @ [(k, row)]" "tx_schedule tx' = AList.update (schedKey k) t (tx_schedule tx)"
      then show ?thesis by (rule txOK_insert[OF inv ok ck None])
    qed
  next
    case (Some row)
    have st: "r_state (forceReadyExistingImportRow v row) = r_state row" for v row
      by (simp add: forceReadyExistingImportRow_def)
    show ?thesis
    proof (cases "tx_shares tx' = tx_shares tx \<and> tx_schedule tx' = tx_schedule tx")
      case True
      then show ?thesis using txOK_cong ok by blast
    next
      case False
      have "\<not> owned st (schedKey k) \<and> (\<exists>v. tx_shares tx' = updateRow k (forceReadyExistingImportRow v) (tx_shares tx)) \<and>
        (\<exists>t. tx_schedule tx' = tx_schedule tx \<or> tx_schedule tx' = AList.update (schedKey k) t (tx_schedule tx))"
        using i False Some by (auto simp: importRow_def Let_def k_def[symmetric] bindS_Inr_iff split: if_splits)
      then obtain v t where "\<not> owned st (schedKey k)" "tx_shares tx' = updateRow k (forceReadyExistingImportRow v) (tx_shares tx)"
        "tx_schedule tx' = tx_schedule tx \<or> tx_schedule tx' = AList.update (schedKey k) t (tx_schedule tx)" by blast
      then show ?thesis using txOK_force[OF ok, of k tx' t "forceReadyExistingImportRow v"] Some st by simp
    qed
  qed
qed

lemma importRows_txOK:
  assumes "queueInv st" "colon \<notin> set (ex_RoundID export)" "\<forall>k. db OpImport k \<noteq> DoneUnknown"
  shows "txOK st tx \<Longrightarrow> importRows E db bucket force st export ers tx = Inr tx' \<Longrightarrow> txOK st tx'"
proof (induction ers arbitrary: tx)
  case (Cons er ers)
  then obtain tx1 where "importRow E db bucket force st export er tx = Inr tx1"
    "importRows E db bucket force st export ers tx1 = Inr tx'" by (auto simp: bindS_Inr_iff)
  with Cons importRow_txOK[where db = db, OF assms(1) Cons.prems(1) assms(2,3)] show ?case by blast
qed simp

lemma map_of_updates:
  "map_of (foldl (\<lambda>s (key, t). AList.update key t s) al xs) key \<noteq> None \<longleftrightarrow> map_of al key \<noteq> None \<or> key \<in> fst ` set xs"
  by (induction xs arbitrary: al) (auto simp: lookups)

lemma distinct_updates:
  "distinct (map fst al) \<Longrightarrow> distinct (map fst (foldl (\<lambda>s (key, t). AList.update key t s) al xs))"
  by (induction xs arbitrary: al) (auto simp: distinct_update)

lemma ImportQueue_inv:
  assumes inv: "queueInv st" and c: "colon \<notin> set (ex_RoundID export)" and db: "\<forall>k. db OpImport k \<noteq> DoneUnknown"
  shows "queueInv (snd (ImportQueue E db now export force st))"
proof (cases "snd (ImportQueue E db now export force st) = st")
  case False
  define st' where "st' = snd (ImportQueue E db now export force st)"
  define tx0 where "tx0 = \<lparr>tx_shares = q_shares st, tx_schedule = [],
     tx_result = \<lparr>im_Inserted = 0, im_Duplicates = 0, im_Conflicts = 0, im_SkippedTerminal = 0\<rparr>\<rparr>"
  obtain tx where run: "importRows E db (scheduleSecond now) force st export (ex_Rows export) tx0 = Inr tx"
    and st': "q_shares st' = tx_shares tx" "q_inFlight st' = q_inFlight st"
      "q_schedule st' = foldl (\<lambda>s (key, t). AList.update key t s) (q_schedule st) (tx_schedule tx)"
    using False by (auto simp: ImportQueue_def Let_def st'_def tx0_def split: if_splits sum.splits)
  note D = queueInvD[OF inv]
  have "txOK st tx0" using D(1,4) by (auto simp: tx0_def txOK_def)
  from importRows_txOK[where db = db, OF inv c db this run] have ok: "txOK st tx" .
  note T = txOK_D[OF ok]
  have w: "waiting st' key \<longleftrightarrow> waiting st key \<or> map_of (tx_schedule tx) key \<noteq> None" for key
    unfolding st' map_of_updates by (simp add: map_of_eq_None_iff)
  have "queueInv st'" unfolding queueInv_def w st'(1,2)
  proof (intro conjI allI impI)
    fix k assume "\<exists>row. map_of (tx_shares tx) k = Some row \<and> r_state row = IntC 0"
    then have "received st k \<or> map_of (tx_schedule tx) (schedKey k) \<noteq> None" using T(4) by blast
    then show "(waiting st (schedKey k) \<or> map_of (tx_schedule tx) (schedKey k) \<noteq> None) \<or> owned st (schedKey k)"
      using D(5)[of k] by blast
  next
    fix key active assume a: "map_of (q_inFlight st) key = Some active"
    then obtain k row where "key = schedKey k" "map_of (q_shares st) k = Some row" "r_state row = IntC 0" "if_roundID active = k_round k"
      using D(8)[OF a] by blast
    then show "\<exists>k. key = schedKey k \<and> (\<exists>row. map_of (tx_shares tx) k = Some row \<and> r_state row = IntC 0) \<and> if_roundID active = k_round k"
      using T(3)[of k row] by metis
  next
    fix key assume "waiting st key \<or> map_of (tx_schedule tx) key \<noteq> None"
    then show "\<not> owned st key" "\<exists>k. key = schedKey k \<and> colon \<notin> set (k_round k)"
      using D(6,7)[of key] T(5)[of key] by blast+
  qed (use T(1,2) D(2,3) in \<open>auto simp: st' distinct_updates\<close>)
  then show ?thesis by (simp add: st'_def)
qed (use inv in simp)

section \<open>All interleavings\<close>

text \<open>
  One critical section of the store at a time, in any order, at any times and with any
  database failures. A completion names a share whose round id has no colon, as the
  admission check ensures. A restart rebuilds the memory from the tables.
\<close>

inductive qstep :: "queueEnv \<Rightarrow> shareStore \<Rightarrow> shareStore \<Rightarrow> bool" for E where
  lookup: "cachedRoundInfo fetch db roundID st = (info, st') \<Longrightarrow> qstep E st st'"
| cache: "cacheFetchedRoundInfo db roundID info st = (info', st') \<Longrightarrow> qstep E st st'"
| enqueue: "colon \<notin> set (sp_VoteRoundID p) \<Longrightarrow> reportsWrites db (payloadKey p) \<Longrightarrow>
    enqueueLocked E db now p info st = (result, st') \<Longrightarrow> qstep E st st'"
| take: "takeReady E db now limit st = (shares, st') \<Longrightarrow> qstep E st st'"
| submitted: "colon \<notin> set (k_round k) \<Longrightarrow> qstep E st (MarkSubmitted db now k st)"
| retry: "colon \<notin> set (k_round k) \<Longrightarrow> qstep E st (markRetry E db now k n st)"
| failed: "colon \<notin> set (k_round k) \<Longrightarrow> qstep E st (MarkFailed E db now k st)"
| requeue: "colon \<notin> set (k_round k) \<Longrightarrow> requeueInFlightIfOwned now k attemptID st = (ok, st') \<Longrightarrow> qstep E st st'"
| reserve: "reserveProofAttempt E db share state st = (ok, st') \<Longrightarrow> qstep E st st'"
| purge: "PurgeRounds db roundIDs st = (deleted, st') \<Longrightarrow> qstep E st st'"
| import: "colon \<notin> set (ex_RoundID export) \<Longrightarrow> \<forall>k. db OpImport k \<noteq> DoneUnknown \<Longrightarrow>
    ImportQueue E db now export force st = (result, st') \<Longrightarrow> qstep E st st'"
| restart: "NewShareStore now (q_shares st) (q_rounds st) = Inr st' \<Longrightarrow> qstep E st st'"

lemma queueInv_same:
  assumes "queueInv st" "q_shares st' = q_shares st" "q_schedule st' = q_schedule st" "q_inFlight st' = q_inFlight st"
  shows "queueInv st'"
  by (rule queueInv_rows[OF assms(1), where f = id and k = "ShareKey [] 0 0 0"]) (simp_all add: assms)

lemma takeReady_inv:
  assumes "queueInv st" "takeReady E db now limit st = (shares, st')"
  shows "queueInv st'"
proof (cases "q_dequeueRetryUntil st \<le> now")
  case True
  from takeReady_dispatched[OF assms True] show ?thesis by (simp add: dispatched_def)
next
  case False
  then show ?thesis using assms by (simp add: takeReady_def)
qed

lemma qstep_inv: "qstep E st st' \<Longrightarrow> queueInv st \<Longrightarrow> queueInv st'"
proof (induction rule: qstep.induct)
  case (lookup fetch db roundID st info st')
  then show ?case
    by (intro queueInv_same[of st st']) (auto simp: cachedRoundInfo_def Let_def split: option.splits if_splits)
next
  case (cache db roundID info st info' st')
  then show ?case
    by (intro queueInv_same[of st st']) (auto simp: cacheFetchedRoundInfo_def Let_def split: option.splits if_splits)
next
  case (enqueue p db now info st result st')
  then show ?case using enqueueLocked_inv[of st p db E now info] by simp
next
  case (requeue k now attemptID st ok st')
  then show ?case using requeueInFlightIfOwned_inv[of st k now attemptID] by simp
next
  case (reserve db share state st ok st')
  then show ?case using reserveProofAttempt_inv[of st E db share state] by simp
next
  case (purge db roundIDs st deleted st')
  then show ?case using PurgeRounds_inv[of st db roundIDs] by simp
next
  case (import export db now force st result st')
  then show ?case using ImportQueue_inv[where db = db and st = st and export = export, of E now force] by simp
next
  case (restart now st st')
  note D = queueInvD[OF restart(2)]
  show ?case
    by (rule NewShareStore_inv[OF restart(1) D(1)]) (use D(1) D(4) in \<open>metis map_of_is_SomeI option.distinct(1)\<close>)
qed (auto intro: takeReady_inv MarkSubmitted_inv markRetry_inv MarkFailed_inv)



end
