(* ===== verification/Queue_Report.thy ===== *)
theory Queue_Report
  imports Queue_Rescue
begin

text \<open>
  The reports of the share queue: \<^verbatim>\<open>Status\<close> and the public histogram \<^verbatim>\<open>QueueSummary\<close> of
  \<^verbatim>\<open>src/internal/helper/store.go\<close>, and that the histogram covers the voting window of its
  round and counts every share of the round once.
\<close>

section \<open>Status\<close>

record QueueStatus =
  st_Total :: int
  st_Pending :: int
  st_Ready :: int
  st_NotYetDue :: int
  st_Processing :: int
  st_Submitted :: int
  st_Failed :: int

definition emptyStatus :: QueueStatus where
  "emptyStatus = \<lparr>st_Total = 0, st_Pending = 0, st_Ready = 0, st_NotYetDue = 0, st_Processing = 0,
     st_Submitted = 0, st_Failed = 0\<rparr>"

text \<open>A Go map reads as the zero value where it has no entry.\<close>

definition statusAt :: "(gostring \<times> QueueStatus) list \<Rightarrow> gostring \<Rightarrow> QueueStatus" where
  "statusAt result r = (case map_of result r of None \<Rightarrow> emptyStatus | Some s \<Rightarrow> s)"

text \<open>\<^verbatim>\<open>GROUP BY round_id, state\<close> with the size of each group.\<close>

definition stateGroups :: "(shareKey \<times> shareRow) list \<Rightarrow> (gostring \<times> cell \<times> int) list" where
  "stateGroups rows =
     (let pairs = map (\<lambda>(k, row). (k_round k, r_state row)) rows in
      map (\<lambda>(r, c). (r, c, int (length (filter (\<lambda>p. p = (r, c)) pairs)))) (remdups pairs))"

definition statusGroup :: "(gostring \<times> QueueStatus) list \<Rightarrow> gostring \<times> cell \<times> int \<Rightarrow> (gostring \<times> QueueStatus) list" where
  "statusGroup result = (\<lambda>(r, c, n).
     case scanInt c of
       None \<Rightarrow> result
     | Some state \<Rightarrow>
         let entry = statusAt result r;
             entry = entry\<lparr>st_Total := st_Total entry + n\<rparr>;
             entry = (if state = 0 then entry\<lparr>st_Pending := st_Pending entry + n\<rparr>
                      else if state = 2 then entry\<lparr>st_Submitted := st_Submitted entry + n\<rparr>
                      else if state = 3 then entry\<lparr>st_Failed := st_Failed entry + n\<rparr> else entry) in
         AList.update r entry result)"

definition statusActive :: "(gostring \<times> QueueStatus) list \<Rightarrow> gostring \<times> inFlightShare \<Rightarrow> (gostring \<times> QueueStatus) list" where
  "statusActive result = (\<lambda>(key, active).
     let entry = statusAt result (if_roundID active) in
     AList.update (if_roundID active) (entry\<lparr>st_Processing := st_Processing entry + 1\<rparr>) result)"

definition statusScheduled :: "time \<Rightarrow> (gostring \<times> QueueStatus) list \<Rightarrow> gostring \<times> time \<Rightarrow> (gostring \<times> QueueStatus) list" where
  "statusScheduled now result = (\<lambda>(key, scheduledAt).
     case cutColon key of
       None \<Rightarrow> result
     | Some (roundID, _) \<Rightarrow>
         (case map_of result roundID of
            None \<Rightarrow> result
          | Some entry \<Rightarrow>
              AList.update roundID
                (if scheduledAt > now then entry\<lparr>st_NotYetDue := st_NotYetDue entry + 1\<rparr>
                 else entry\<lparr>st_Ready := st_Ready entry + 1\<rparr>) result))"

text \<open>\<open>None\<close> is the \<^verbatim>\<open>nil\<close> map of a failed query.\<close>

definition Status :: "database \<Rightarrow> time \<Rightarrow> shareStore \<Rightarrow> (gostring \<times> QueueStatus) list option" where
  "Status db now st =
     (if db OpLoad (ShareKey [] 0 0 0) \<noteq> Done then None
      else
        let result = foldl statusGroup [] (stateGroups (q_shares st));
            result = foldl statusActive result (q_inFlight st) in
        Some (foldl (statusScheduled now) result (q_schedule st)))"

section \<open>The public histogram\<close>

definition queueSummaryDay :: u64 where "queueSummaryDay = 24 * queueSummaryHour"
definition maxQueueSummaryBuckets :: u64 where "maxQueueSummaryBuckets = 4096"

definition queueSummaryPolicyBucketSeconds :: "u64 \<Rightarrow> u64" where
  "queueSummaryPolicyBucketSeconds durationSeconds =
     (if durationSeconds \<ge> 21 * queueSummaryDay then 6 * queueSummaryHour
      else if durationSeconds \<ge> 7 * queueSummaryDay then 3 * queueSummaryHour
      else if durationSeconds \<ge> queueSummaryDay then queueSummaryHour
      else if durationSeconds \<ge> queueSummaryHour then 15 * queueSummaryMinute
      else queueSummaryMinute)"

definition queueSummaryBucketIndex :: "u64 \<Rightarrow> u64 \<Rightarrow> u64 \<Rightarrow> u64 \<Rightarrow> int \<Rightarrow> int" where
  "queueSummaryBucketIndex ts createdAtTime voteEndTime bucketSeconds bucketCount =
     (if bucketCount \<le> 1 \<or> ts \<le> createdAtTime then 0
      else if ts \<ge> voteEndTime then bucketCount - 1
      else
        let idx = sint ((ts - createdAtTime) div bucketSeconds) in
        if idx \<ge> bucketCount then bucketCount - 1 else idx)"

record QueueSummaryBucket =
  sb_Start :: u64
  sb_End :: u64
  sb_Submitted :: int
  sb_PendingFuture :: int
  sb_OverduePending :: int
  sb_Processing :: int
  sb_Failed :: int
  sb_Total :: int

record QueueSummary =
  su_RoundID :: gostring
  su_BucketSeconds :: u64
  su_CreatedAtTime :: u64
  su_VoteEndTime :: u64
  su_GeneratedAt :: u64
  su_LastMinuteStart :: u64
  su_Ready :: int
  su_NotYetDue :: int
  su_Processing :: int
  su_Buckets :: "QueueSummaryBucket list"

datatype reportErr = ReportErr queueErr | ReportPanic

definition emptyBucket :: "RoundInfo \<Rightarrow> u64 \<Rightarrow> nat \<Rightarrow> QueueSummaryBucket" where
  "emptyBucket info bucketSeconds i =
     (let start = ri_CreatedAtTime info + word_of_nat i * bucketSeconds;
          stop = start + bucketSeconds;
          stop = (if stop > ri_VoteEndTime info then ri_VoteEndTime info else stop) in
      \<lparr>sb_Start = start, sb_End = stop, sb_Submitted = 0, sb_PendingFuture = 0, sb_OverduePending = 0,
       sb_Processing = 0, sb_Failed = 0, sb_Total = 0\<rparr>)"

text \<open>The bucket and the totals of one row, with the time it counts under.\<close>

definition countRow :: "shareStore \<Rightarrow> time \<Rightarrow> gostring \<Rightarrow> int \<Rightarrow> u64 \<Rightarrow> QueueSummary \<Rightarrow> nat \<Rightarrow> QueueSummary" where
  "countRow st now key state effectiveTime summary idx =
     (let bucket = su_Buckets summary ! idx;
          (bucket, summary) =
            (if map_of (q_inFlight st) key \<noteq> None
             then (bucket\<lparr>sb_Processing := sb_Processing bucket + 1\<rparr>, summary\<lparr>su_Processing := su_Processing summary + 1\<rparr>)
             else if state = 0
             then (if effectiveTime \<le> su_GeneratedAt summary
                   then bucket\<lparr>sb_OverduePending := sb_OverduePending bucket + 1\<rparr>
                   else bucket\<lparr>sb_PendingFuture := sb_PendingFuture bucket + 1\<rparr>,
                   case map_of (q_schedule st) key of
                     None \<Rightarrow> summary
                   | Some scheduledAt \<Rightarrow>
                       if scheduledAt > now then summary\<lparr>su_NotYetDue := su_NotYetDue summary + 1\<rparr>
                       else summary\<lparr>su_Ready := su_Ready summary + 1\<rparr>)
             else if state = 1
             then (bucket\<lparr>sb_Processing := sb_Processing bucket + 1\<rparr>, summary\<lparr>su_Processing := su_Processing summary + 1\<rparr>)
             else if state = 2 then (bucket\<lparr>sb_Submitted := sb_Submitted bucket + 1\<rparr>, summary)
             else if state = 3 then (bucket\<lparr>sb_Failed := sb_Failed bucket + 1\<rparr>, summary)
             else (bucket, summary));
          bucket = bucket\<lparr>sb_Total := sb_Total bucket + 1\<rparr> in
      summary\<lparr>su_Buckets := (su_Buckets summary)[idx := bucket]\<rparr>)"

definition summaryRow :: "shareStore \<Rightarrow> time \<Rightarrow> RoundInfo \<Rightarrow> shareKey \<times> shareRow \<Rightarrow> QueueSummary \<Rightarrow>
    reportErr + QueueSummary" where
  "summaryRow st now info kr summary = (case kr of (k, row) \<Rightarrow>
     (case (scanInt (r_state row), scanUint 64 (r_submit_at row), scanUint 64 (r_received_at row)) of
        (Some state, Some submitAt, Some receivedAt) \<Rightarrow>
          let effectiveTime = (if submitAt \<noteq> 0 then word_of_int submitAt
                else if receivedAt \<noteq> 0 then word_of_int receivedAt else ri_CreatedAtTime info);
              idx = queueSummaryBucketIndex effectiveTime (ri_CreatedAtTime info) (ri_VoteEndTime info)
                (su_BucketSeconds summary) (int (length (su_Buckets summary))) in
          if idx < 0 \<or> idx \<ge> int (length (su_Buckets summary)) then Inl ReportPanic
          else Inr (countRow st now (schedKey k) state effectiveTime summary (nat idx))
      | _ \<Rightarrow> Inl (ReportErr StoreErr)))"

fun summaryRows :: "shareStore \<Rightarrow> time \<Rightarrow> RoundInfo \<Rightarrow> (shareKey \<times> shareRow) list \<Rightarrow> QueueSummary \<Rightarrow>
    reportErr + QueueSummary" where
  "summaryRows st now info [] summary = Inr summary"
| "summaryRows st now info (kr # krs) summary =
     bindS (summaryRow st now info kr summary) (summaryRows st now info krs)"

text \<open>The summary before any row is counted.\<close>

definition emptySummary :: "gostring \<Rightarrow> time \<Rightarrow> RoundInfo \<Rightarrow> reportErr + QueueSummary" where
  "emptySummary roundID now info =
     (if ri_CreatedAtTime info = 0 then Inl (ReportErr ErrInvalidRoundInfo)
      else if ri_VoteEndTime info \<le> ri_CreatedAtTime info then Inl (ReportErr ErrInvalidRoundInfo)
      else
        let dur = ri_VoteEndTime info - ri_CreatedAtTime info;
            bucketSeconds = queueSummaryPolicyBucketSeconds dur;
            bucketCount64 = dur div bucketSeconds;
            bucketCount64 = (if dur mod bucketSeconds \<noteq> 0 then bucketCount64 + 1 else bucketCount64) in
        if bucketCount64 = 0 \<or> bucketCount64 > maxQueueSummaryBuckets then Inl (ReportErr ErrInvalidRoundInfo)
        else Inr \<lparr>su_RoundID = roundID, su_BucketSeconds = bucketSeconds,
               su_CreatedAtTime = ri_CreatedAtTime info, su_VoteEndTime = ri_VoteEndTime info,
               su_GeneratedAt = word_of_int (unixSeconds now),
               su_LastMinuteStart = lastMinuteWindowStart (ri_CreatedAtTime info) (ri_VoteEndTime info),
               su_Ready = 0, su_NotYetDue = 0, su_Processing = 0,
               su_Buckets = map (emptyBucket info bucketSeconds) [0..<unat bucketCount64]\<rparr>)"

definition QueueSummaryOf :: "fetcher \<Rightarrow> database \<Rightarrow> gostring \<Rightarrow> time \<Rightarrow> shareStore \<Rightarrow>
    (reportErr + QueueSummary) \<times> shareStore" where
  "QueueSummaryOf fetch db roundID now st =
     (case getRoundInfo fetch db roundID st of
        (Inl e, st) \<Rightarrow> (Inl (ReportErr e), st)
      | (Inr info, st) \<Rightarrow>
          (bindS (emptySummary roundID now info) (\<lambda>summary.
             if db OpLoad (ShareKey roundID 0 0 0) \<noteq> Done then Inl (ReportErr StoreErr)
             else summaryRows st now info (filter (\<lambda>(k, _). k_round k = roundID) (q_shares st)) summary), st))"

section \<open>The index of a bucket\<close>

lemma policy_bounds:
  "60 \<le> unat (queueSummaryPolicyBucketSeconds d)" "unat (queueSummaryPolicyBucketSeconds d) \<le> 21600"
  by (simp_all add: queueSummaryPolicyBucketSeconds_def queueSummaryHour_def queueSummaryMinute_def)

lemma sint_quotient:
  assumes "60 \<le> unat (bs :: u64)"
  shows "sint (x div bs) = int (unat x div unat bs)"
proof -
  have "unat x div unat bs \<le> unat x div 60" using assms by (intro div_le_mono2) simp_all
  also have "\<dots> < 2 ^ 63"
  proof -
    have "unat x < 2 ^ 64" using unsigned_less[of x] by simp
    then show ?thesis by simp
  qed
  finally have "int (unat x div unat bs) < 2 ^ 63" by (simp add: of_nat_less_numeral_iff)
  moreover have "x div bs = word_of_int (int (unat x div unat bs))"
    by (simp only: word_div_def uint_nat zdiv_int)
  ultimately show ?thesis by (simp only: sint_small of_nat_0_le_iff)
qed

lemma bucket_index_bounds:
  assumes "60 \<le> unat bs" and "0 < n"
  shows "0 \<le> queueSummaryBucketIndex ts c v bs n" "queueSummaryBucketIndex ts c v bs n < n"
  using assms(2) by (auto simp: queueSummaryBucketIndex_def sint_quotient[OF assms(1)] Let_def)

section \<open>Every row is counted once\<close>

lemma sum_list_update_int: "i < length xs \<Longrightarrow> sum_list (xs[i := x]) = sum_list xs - xs ! i + x" for xs :: "int list"
proof (induction xs arbitrary: i)
  case (Cons y ys)
  then show ?case by (cases i) auto
qed simp

definition bucketParts :: "QueueSummaryBucket \<Rightarrow> int" where
  "bucketParts b = sb_Submitted b + sb_PendingFuture b + sb_OverduePending b + sb_Processing b + sb_Failed b"

text \<open>What the loop over the rows maintains; the windows of the buckets stay as they were made.\<close>

definition counted :: "QueueSummary \<Rightarrow> int \<Rightarrow> QueueSummary \<Rightarrow> bool" where
  "counted su0 n su \<longleftrightarrow>
     map (\<lambda>b. (sb_Start b, sb_End b)) (su_Buckets su) = map (\<lambda>b. (sb_Start b, sb_End b)) (su_Buckets su0) \<and>
     su_BucketSeconds su = su_BucketSeconds su0 \<and> su_CreatedAtTime su = su_CreatedAtTime su0 \<and>
     su_VoteEndTime su = su_VoteEndTime su0 \<and> su_LastMinuteStart su = su_LastMinuteStart su0 \<and>
     sum_list (map sb_Total (su_Buckets su)) = n \<and>
     su_Processing su = sum_list (map sb_Processing (su_Buckets su)) \<and>
     list_all (\<lambda>b. bucketParts b \<le> sb_Total b) (su_Buckets su)"

lemma counted_length: "counted su0 n su \<Longrightarrow> length (su_Buckets su) = length (su_Buckets su0)"
  unfolding counted_def using map_eq_imp_length_eq by blast

text \<open>One bucket replaced by one with one more row in it.\<close>

lemma counted_update:
  assumes su: "counted su0 n su" and i: "i < length (su_Buckets su)"
    and su': "su_Buckets su' = (su_Buckets su)[i := b]" "su_BucketSeconds su' = su_BucketSeconds su"
      "su_CreatedAtTime su' = su_CreatedAtTime su" "su_VoteEndTime su' = su_VoteEndTime su"
      "su_LastMinuteStart su' = su_LastMinuteStart su"
    and b: "sb_Start b = sb_Start (su_Buckets su ! i)" "sb_End b = sb_End (su_Buckets su ! i)"
      "sb_Total b = sb_Total (su_Buckets su ! i) + 1" "bucketParts b \<le> bucketParts (su_Buckets su ! i) + 1"
    and p: "su_Processing su' - su_Processing su = sb_Processing b - sb_Processing (su_Buckets su ! i)"
  shows "counted su0 (n + 1) su'"
proof -
  have same: "map (\<lambda>b. (sb_Start b, sb_End b)) ((su_Buckets su)[i := b]) = map (\<lambda>b. (sb_Start b, sb_End b)) (su_Buckets su)"
    using i b(1,2) by (simp add: map_update list_update_same_conv)
  have parts: "bucketParts x \<le> sb_Total x" if "x \<in> set (su_Buckets su)" for x
    using su that by (simp add: counted_def list_all_iff)
  have "bucketParts b \<le> sb_Total b" using parts[OF nth_mem[OF i]] b(3,4) by linarith
  then have "list_all (\<lambda>b. bucketParts b \<le> sb_Total b) ((su_Buckets su)[i := b])"
    using parts set_update_subset_insert[of "su_Buckets su" i b] by (auto simp: list_all_iff)
  moreover have "sum_list (map sb_Total ((su_Buckets su)[i := b])) = sum_list (map sb_Total (su_Buckets su)) + 1"
    using i b(3) by (simp add: map_update sum_list_update_int)
  moreover have "sum_list (map sb_Processing ((su_Buckets su)[i := b])) =
      sum_list (map sb_Processing (su_Buckets su)) - sb_Processing (su_Buckets su ! i) + sb_Processing b"
    using i by (simp add: map_update sum_list_update_int)
  ultimately show ?thesis using su p unfolding counted_def su' same by simp
qed

lemma countRow_counted:
  assumes "counted su0 n su" and "i < length (su_Buckets su)"
  shows "counted su0 (n + 1) (countRow st now key state t su i)"
  unfolding countRow_def
  by (cases "map_of (q_schedule st) key")
    (auto simp: Let_def bucketParts_def intro!: counted_update[OF assms])

lemma summaryRows_counted:
  assumes "counted su0 n su" and "60 \<le> unat (su_BucketSeconds su0)" and "su_Buckets su0 \<noteq> []"
  shows "summaryRows st now info krs su \<noteq> Inl ReportPanic \<and>
    (\<forall>su'. summaryRows st now info krs su = Inr su' \<longrightarrow> counted su0 (n + int (length krs)) su')"
  using assms(1)
proof (induction krs arbitrary: su n)
  case (Cons kr krs)
  obtain k row where kr: "kr = (k, row)" by (cases kr)
  have len: "0 < int (length (su_Buckets su))" using counted_length[OF Cons.prems] assms(3) by simp
  have bs: "60 \<le> unat (su_BucketSeconds su)" using Cons.prems assms(2) by (simp add: counted_def)
  have row: "summaryRow st now info kr su \<noteq> Inl ReportPanic \<and>
      (\<forall>su'. summaryRow st now info kr su = Inr su' \<longrightarrow> counted su0 (n + 1) su')"
  proof -
    have "\<not> queueSummaryBucketIndex ts c v (su_BucketSeconds su) (int (length (su_Buckets su))) < 0"
      "\<not> int (length (su_Buckets su)) \<le> queueSummaryBucketIndex ts c v (su_BucketSeconds su) (int (length (su_Buckets su)))"
      "counted su0 (n + 1) (countRow st now key state t su
         (nat (queueSummaryBucketIndex ts c v (su_BucketSeconds su) (int (length (su_Buckets su))))))" for ts c v key state t
      using bucket_index_bounds[OF bs len, of ts c v] by (auto intro!: countRow_counted[OF Cons.prems])
    then show ?thesis by (simp add: summaryRow_def kr Let_def split: option.split)
  qed
  show ?case
  proof (cases "summaryRow st now info kr su")
    case (Inl e)
    then show ?thesis using row by simp
  next
    case (Inr su1)
    then have "counted su0 (n + 1) su1" using row by simp
    from Cons.IH[OF this] Inr show ?thesis by (simp add: algebra_simps)
  qed
qed simp

section \<open>The windows of the buckets\<close>

text \<open>The shape of a fresh summary in plain arithmetic.\<close>

lemma emptySummary_shape:
  assumes "emptySummary r now info = Inr su" and "unat (ri_VoteEndTime info) < 2 ^ 63"
  defines "c \<equiv> unat (ri_CreatedAtTime info)" and "e \<equiv> unat (ri_VoteEndTime info)" and "B \<equiv> unat (su_BucketSeconds su)"
  shows "c < e" and "60 \<le> B" and "B \<le> 21600" and "0 < length (su_Buckets su)" and "length (su_Buckets su) \<le> 4096"
    and "(length (su_Buckets su) - 1) * B < e - c" and "e - c \<le> length (su_Buckets su) * B"
    and "su_Buckets su = map (emptyBucket info (su_BucketSeconds su)) [0..<length (su_Buckets su)]"
    and "su_CreatedAtTime su = ri_CreatedAtTime info" "su_VoteEndTime su = ri_VoteEndTime info"
    and "su_LastMinuteStart su = lastMinuteWindowStart (ri_CreatedAtTime info) (ri_VoteEndTime info)"
proof -
  define d where "d = ri_VoteEndTime info - ri_CreatedAtTime info"
  define bs where "bs = queueSummaryPolicyBucketSeconds d"
  define n where "n = (if d mod bs \<noteq> 0 then d div bs + 1 else d div bs)"
  from assms(1) have lt: "ri_CreatedAtTime info < ri_VoteEndTime info" and n: "n \<noteq> 0" "n \<le> 4096"
    and su: "su = \<lparr>su_RoundID = r, su_BucketSeconds = bs,
               su_CreatedAtTime = ri_CreatedAtTime info, su_VoteEndTime = ri_VoteEndTime info,
               su_GeneratedAt = word_of_int (unixSeconds now),
               su_LastMinuteStart = lastMinuteWindowStart (ri_CreatedAtTime info) (ri_VoteEndTime info),
               su_Ready = 0, su_NotYetDue = 0, su_Processing = 0,
               su_Buckets = map (emptyBucket info bs) [0..<unat n]\<rparr>"
    by (auto simp: emptySummary_def Let_def maxQueueSummaryBuckets_def not_le not_less n_def
        simp flip: d_def bs_def split: if_splits)
  show ce: "c < e" using lt by (simp add: c_def e_def word_less_nat_alt)
  have ud: "unat d = e - c" using lt by (simp add: d_def c_def e_def unat_sub)
  have B: "B = unat bs" by (simp add: B_def su)
  show b1: "60 \<le> B" and "B \<le> 21600" using policy_bounds[of d] by (simp_all add: B bs_def)
  have len: "length (su_Buckets su) = unat n" by (simp add: su)
  show pos: "0 < length (su_Buckets su)" using n(1) unat_eq_zero[of n] by (simp add: len)
  show "length (su_Buckets su) \<le> 4096" using n(2) by (simp add: len word_le_nat_alt)
  have quot: "unat (d div bs) = (e - c) div B" by (simp add: unat_div ud B)
  have "(e - c) div B < 2 ^ 63" using b1 assms(2) by (simp add: e_def div_le_dividend[THEN le_less_trans] less_imp_diff_less)
  then have small: "unat (d div bs) < 2 ^ 63" by (simp add: quot)
  have "d div bs + 1 \<noteq> 0"
  proof
    assume "d div bs + 1 = 0"
    then have "d div bs = - 1" by (simp add: eq_neg_iff_add_eq_0)
    then show False using small by (simp add: unsigned_minus_1_eq_mask mask_eq_exp_minus_1)
  qed
  moreover have "d mod bs = 0 \<longleftrightarrow> (e - c) mod B = 0"
    using unat_mod[of d bs] unat_eq_zero[of "d mod bs"] unfolding ud B by simp
  ultimately have un: "unat n = (if (e - c) mod B = 0 then (e - c) div B else Suc ((e - c) div B))"
    by (simp add: n_def unat_plus_one quot)
  have dm: "(e - c) div B * B + (e - c) mod B = e - c" by simp
  have mb: "(e - c) mod B < B" using b1 by simp
  show "e - c \<le> length (su_Buckets su) * B" unfolding len un using dm mb by (simp only: mult_Suc split: if_split) linarith
  show "(length (su_Buckets su) - 1) * B < e - c"
    unfolding len un using dm mb ce b1 by (cases "(e - c) div B") (auto simp: algebra_simps)
  show "su_Buckets su = map (emptyBucket info (su_BucketSeconds su)) [0..<length (su_Buckets su)]"
    "su_CreatedAtTime su = ri_CreatedAtTime info" "su_VoteEndTime su = ri_VoteEndTime info"
    "su_LastMinuteStart su = lastMinuteWindowStart (ri_CreatedAtTime info) (ri_VoteEndTime info)"
    by (simp_all add: su)
qed

lemma emptySummary_counted:
  assumes "emptySummary r now info = Inr su"
  shows "counted su 0 su" "60 \<le> unat (su_BucketSeconds su)" "su_Buckets su \<noteq> []"
proof -
  from assms show "su_Buckets su \<noteq> []" "60 \<le> unat (su_BucketSeconds su)"
    by (auto simp: emptySummary_def Let_def unat_eq_zero policy_bounds split: if_splits)
  from assms show "counted su 0 su"
    by (auto simp: emptySummary_def counted_def list_all_iff bucketParts_def emptyBucket_def Let_def comp_def
        sum_list_0 split: if_splits)
qed

lemma emptyBucket_window:
  assumes "unat (ri_VoteEndTime info) < 2 ^ 63" and "unat bs \<le> 21600" and "i < 2 ^ 63"
    and "unat (ri_CreatedAtTime info) + i * unat bs < unat (ri_VoteEndTime info)"
  shows "unat (sb_Start (emptyBucket info bs i)) = unat (ri_CreatedAtTime info) + i * unat bs"
    and "unat (sb_End (emptyBucket info bs i)) =
      min (unat (ri_CreatedAtTime info) + Suc i * unat bs) (unat (ri_VoteEndTime info))"
proof -
  have i: "unat (word_of_nat i :: u64) = i" using assms(3) by (simp add: unat_of_nat)
  have m: "unat (word_of_nat i * bs) = i * unat bs"
    using assms(1,4) i unat_mult_lem[of "word_of_nat i :: u64" bs] by simp
  have s: "unat (ri_CreatedAtTime info + word_of_nat i * bs) = unat (ri_CreatedAtTime info) + i * unat bs"
    using assms(1,4) m unat_add_lem[of "ri_CreatedAtTime info" "word_of_nat i * bs"] by simp
  have e: "unat (ri_CreatedAtTime info + word_of_nat i * bs + bs) = unat (ri_CreatedAtTime info) + Suc i * unat bs"
  proof -
    have "unat (ri_CreatedAtTime info + word_of_nat i * bs) + unat bs < 2 ^ LENGTH(64)"
      unfolding s using assms(1,2,4) by simp
    from unat_add_lem[THEN iffD1, OF this] show ?thesis by (simp add: s)
  qed
  show "unat (sb_Start (emptyBucket info bs i)) = unat (ri_CreatedAtTime info) + i * unat bs"
    using s by (simp add: emptyBucket_def Let_def)
  show "unat (sb_End (emptyBucket info bs i)) =
      min (unat (ri_CreatedAtTime info) + Suc i * unat bs) (unat (ri_VoteEndTime info))"
    using e by (auto simp: emptyBucket_def Let_def word_less_nat_alt)
qed

text \<open>The windows of consecutive buckets meet, and together they are the voting window.\<close>

definition windowsCover :: "u64 \<Rightarrow> u64 \<Rightarrow> (u64 \<times> u64) list \<Rightarrow> bool" where
  "windowsCover a b ws \<longleftrightarrow> ws \<noteq> [] \<and> fst (hd ws) = a \<and> snd (last ws) = b \<and>
     (\<forall>i. Suc i < length ws \<longrightarrow> snd (ws ! i) = fst (ws ! Suc i)) \<and> list_all (\<lambda>(s, e). s < e) ws"

lemma emptySummary_windows:
  assumes "emptySummary r now info = Inr su" and "unat (ri_VoteEndTime info) < 2 ^ 63"
  shows "windowsCover (ri_CreatedAtTime info) (ri_VoteEndTime info)
    (map (\<lambda>b. (sb_Start b, sb_End b)) (su_Buckets su))"
proof -
  note S = emptySummary_shape[OF assms]
  define n where "n = length (su_Buckets su)"
  let ?c = "unat (ri_CreatedAtTime info)" and ?e = "unat (ri_VoteEndTime info)" and ?B = "unat (su_BucketSeconds su)"
  have inside: "?c + i * ?B < ?e" "i < 2 ^ 63" if "i < n" for i
  proof -
    have "i * ?B \<le> (n - 1) * ?B" using that by (intro mult_le_mono1) simp
    then show "?c + i * ?B < ?e" using S(1,6) unfolding n_def by linarith
    show "i < 2 ^ 63" using that S(5) by (simp add: n_def)
  qed
  note W = emptyBucket_window[OF assms(2) S(3) inside(2) inside(1)]
  have nth: "su_Buckets su ! i = emptyBucket info (su_BucketSeconds su) i" if "i < n" for i
    using S(8) that by (metis n_def add_0 nth_map_upt diff_zero)
  have ne: "su_Buckets su \<noteq> []" "0 < n" using S(4) by (auto simp: n_def)
  show ?thesis unfolding windowsCover_def
  proof (intro conjI allI impI)
    show "map (\<lambda>b. (sb_Start b, sb_End b)) (su_Buckets su) \<noteq> []" using ne by simp
    show "fst (hd (map (\<lambda>b. (sb_Start b, sb_End b)) (su_Buckets su))) = ri_CreatedAtTime info"
      using ne W(1)[of 0] nth[of 0] by (simp add: hd_map hd_conv_nth word_unat_eq_iff)
    have "?e \<le> ?c + Suc (n - 1) * ?B" using S(1,7) ne(2) by (simp add: n_def)
    then show "snd (last (map (\<lambda>b. (sb_Start b, sb_End b)) (su_Buckets su))) = ri_VoteEndTime info"
      using ne W(2)[of "n - 1"] nth[of "n - 1"] by (simp add: last_map last_conv_nth n_def word_unat_eq_iff)
    fix i assume "Suc i < length (map (\<lambda>b. (sb_Start b, sb_End b)) (su_Buckets su))"
    then have "Suc i < n" by (simp add: n_def)
    then show "snd (map (\<lambda>b. (sb_Start b, sb_End b)) (su_Buckets su) ! i) =
        fst (map (\<lambda>b. (sb_Start b, sb_End b)) (su_Buckets su) ! Suc i)"
      using W(2)[of i] W(1)[of "Suc i"] inside(1)[of "Suc i"] nth[of i] nth[of "Suc i"]
      by (simp add: n_def word_unat_eq_iff)
  next
    have "sb_Start (su_Buckets su ! i) < sb_End (su_Buckets su ! i)" if "i < n" for i
      using W[OF that that] inside(1)[OF that] S(2) nth[OF that] by (simp add: word_less_nat_alt)
    then show "list_all (\<lambda>(s, e). s < e) (map (\<lambda>b. (sb_Start b, sb_End b)) (su_Buckets su))"
      by (simp add: list_all_length n_def)
  qed
qed

lemma lastMinute_inside:
  assumes "c < v" and "unat v - unat c \<le> 4096 * 21600"
  shows "c \<le> lastMinuteWindowStart c v" "lastMinuteWindowStart c v < v"
proof -
  define d where "d = v - c"
  have ud: "unat d = unat v - unat c" "0 < unat d" using unat_sub[of c v] assms(1) by (simp_all add: d_def word_less_nat_alt word_le_nat_alt)
  have "unat (d * 40) = unat d * 40" using ud assms(2) unat_mult_lem[of d 40] by simp
  then have q: "unat (d * 40 div 100) = unat d * 40 div 100" by (simp add: unat_div)
  define w where "w = (let w = d * 40 div 100; w = (if w < 1 then 1 else w) in
      if w > 6 * queueSummaryHour then 6 * queueSummaryHour else w)"
  have w: "0 < unat w" "unat w \<le> unat d"
    using q ud(2) by (auto simp: w_def Let_def word_less_nat_alt queueSummaryHour_def queueSummaryMinute_def)
  have eq: "lastMinuteWindowStart c v = v - w"
    using assms(1) unfolding lastMinuteWindowStart_def w_def d_def Let_def by (simp only: not_le[symmetric] if_False)
  have "unat (v - w) = unat v - unat w" using w ud by (intro unat_sub) (simp add: word_le_nat_alt)
  then show "c \<le> lastMinuteWindowStart c v" "lastMinuteWindowStart c v < v"
    using w ud assms(1) unfolding eq by (simp_all add: word_le_nat_alt word_less_nat_alt)
qed

text \<open>
  C40. The public histogram of a round. Building it never indexes outside its buckets. When it
  is returned, and the round ends before the year in which 63-bit seconds run out, it has
  between 1 and 4096 buckets whose windows follow each other without gap or overlap from the
  creation of the round to its end; the totals of the buckets add up to the number of shares of
  the round in the table, so every share is counted in one bucket, and no bucket counts more
  shares by state than it holds; the number of shares in progress is the sum over the buckets;
  and the start of the last-minute period lies inside the round.
\<close>

theorem queue_summary_exact:
  "fst (QueueSummaryOf fetch db r now st) \<noteq> Inl ReportPanic \<and>
   (\<forall>su st'. QueueSummaryOf fetch db r now st = (Inr su, st') \<longrightarrow> unat (su_VoteEndTime su) < 2 ^ 63 \<longrightarrow>
      1 \<le> length (su_Buckets su) \<and> length (su_Buckets su) \<le> 4096 \<and>
      windowsCover (su_CreatedAtTime su) (su_VoteEndTime su) (map (\<lambda>b. (sb_Start b, sb_End b)) (su_Buckets su)) \<and>
      sum_list (map sb_Total (su_Buckets su)) = int (length (filter (\<lambda>(k, _). k_round k = r) (q_shares st'))) \<and>
      list_all (\<lambda>b. bucketParts b \<le> sb_Total b) (su_Buckets su) \<and>
      su_Processing su = sum_list (map sb_Processing (su_Buckets su)) \<and>
      su_CreatedAtTime su \<le> su_LastMinuteStart su \<and> su_LastMinuteStart su < su_VoteEndTime su)"
proof -
  obtain got st1 where got: "getRoundInfo fetch db r st = (got, st1)" by fastforce
  show ?thesis
  proof (cases got)
    case (Inl e)
    then show ?thesis using got by (simp add: QueueSummaryOf_def)
  next
    case (Inr info)
    show ?thesis
    proof (cases "emptySummary r now info")
      case (Inl e)
      then show ?thesis using got Inr by (auto simp: QueueSummaryOf_def emptySummary_def Let_def split: if_splits)
    next
      case s0: (Inr su0)
      let ?rows = "filter (\<lambda>(k, _). k_round k = r) (q_shares st1)"
      have run: "QueueSummaryOf fetch db r now st = (if db OpLoad (ShareKey r 0 0 0) \<noteq> Done then Inl (ReportErr StoreErr)
          else summaryRows st1 now info ?rows su0, st1)"
        using got Inr s0 by (simp add: QueueSummaryOf_def)
      note C = summaryRows_counted[OF emptySummary_counted[OF s0], of st1 now info ?rows]
      have "fst (QueueSummaryOf fetch db r now st) \<noteq> Inl ReportPanic" using C by (simp add: run)
      moreover have "1 \<le> length (su_Buckets su) \<and> length (su_Buckets su) \<le> 4096 \<and>
          windowsCover (su_CreatedAtTime su) (su_VoteEndTime su) (map (\<lambda>b. (sb_Start b, sb_End b)) (su_Buckets su)) \<and>
          sum_list (map sb_Total (su_Buckets su)) = int (length ?rows) \<and>
          list_all (\<lambda>b. bucketParts b \<le> sb_Total b) (su_Buckets su) \<and>
          su_Processing su = sum_list (map sb_Processing (su_Buckets su)) \<and>
          su_CreatedAtTime su \<le> su_LastMinuteStart su \<and> su_LastMinuteStart su < su_VoteEndTime su"
        if "summaryRows st1 now info ?rows su0 = Inr su" "unat (su_VoteEndTime su) < 2 ^ 63" for su
      proof -
        from C that(1) have cs: "counted su0 (int (length ?rows)) su" by simp
        have v: "unat (ri_VoteEndTime info) < 2 ^ 63" using that(2) cs s0
          by (auto simp: counted_def emptySummary_def Let_def split: if_splits)
        note S = emptySummary_shape[OF s0 v] and W = emptySummary_windows[OF s0 v]
        have "unat (ri_VoteEndTime info) - unat (ri_CreatedAtTime info) \<le> 4096 * 21600"
          using S(7) mult_le_mono[OF S(5) S(3)] by linarith
        note L = lastMinute_inside[OF _ this]
        have lt: "ri_CreatedAtTime info < ri_VoteEndTime info" using S(1) by (simp add: word_less_nat_alt)
        have "1 \<le> length (su_Buckets su)" "length (su_Buckets su) \<le> 4096"
          using S(4,5) counted_length[OF cs] by linarith+
        then show ?thesis using cs W L[OF lt] unfolding counted_def S(9,10,11) by simp
      qed
      ultimately show ?thesis by (auto simp: run split: if_splits)
    qed
  qed
qed

definition sampleFetch :: fetcher where
  "sampleFetch = Some (\<lambda>_. Inr \<lparr>ri_CreatedAtTime = 1, ri_VoteEndTime = 101\<rparr>)"

definition sampleSummary :: "(reportErr + QueueSummary) \<times> shareStore" where
  "sampleSummary = QueueSummaryOf sampleFetch (\<lambda>_ _. Done) (str ''ab'') (4 * Second) sampleQueue"

theorem queue_summary_exact_witness:
  "\<exists>su. fst sampleSummary = Inr su \<and> length (su_Buckets su) = 2 \<and> sum_list (map sb_Total (su_Buckets su)) = 1 \<and>
     windowsCover 1 101 (map (\<lambda>b. (sb_Start b, sb_End b)) (su_Buckets su))"
proof -
  have "(case fst sampleSummary of Inr su \<Rightarrow> su_CreatedAtTime su = 1 \<and> su_VoteEndTime su = 101 \<and>
      length (su_Buckets su) = 2 | Inl _ \<Rightarrow> False)" by code_simp
  then obtain su where su: "fst sampleSummary = Inr su" "su_CreatedAtTime su = 1" "su_VoteEndTime su = 101"
    "length (su_Buckets su) = 2" by (auto split: sum.splits)
  have rows: "length (filter (\<lambda>(k, _). k_round k = str ''ab'') (q_shares (snd sampleSummary))) = 1" by code_simp
  have "QueueSummaryOf sampleFetch (\<lambda>_ _. Done) (str ''ab'') (4 * Second) sampleQueue = (Inr su, snd sampleSummary)"
    using su(1) by (simp add: sampleSummary_def prod_eq_iff)
  then show ?thesis
    using queue_summary_exact[of sampleFetch "\<lambda>_ _. Done" "str ''ab''" "4 * Second" sampleQueue] su rows by auto
qed

end
