(* ===== verification/Key_Delivery.thy ===== *)
theory Key_Delivery
  imports Injectors
begin

text \<open>
  From the key generation to the shares: honest contributions, what the last of them leaves in
  the round (\<^verbatim>\<open>finalizeDKG\<close>), and the acknowledgement with which each validator recovers
  its share. The lemmas show that every honest validator's acknowledgement succeeds, that the
  share it stores is the value of the joint polynomial at its index, and that the transaction
  is accepted by the proposal check and by the handler.
\<close>

section \<open>Honest contributions\<close>

definition sharesOf :: "'s::field list \<Rightarrow> nat \<Rightarrow> 's Share list" where
  "sharesOf cs n = map (\<lambda>i. \<lparr>share_index = int i + 1, share_value = polyVal cs (of_int (int i + 1))\<rparr>) [0..<n]"

lemma Split_Inr:
  assumes "Split rnd secret t n = Inr (shares, coeffs)"
  shows "1 \<le> t \<and> t \<le> n \<and> length coeffs = nat t \<and> hd coeffs = secret \<and> shares = sharesOf coeffs (nat n)"
proof -
  let ?cs = "secret # map rnd [1..<nat t]"
  have h: "1 \<le> t" "t \<le> n" "coeffs = ?cs"
    and sh: "mapR (\<lambda>i. bindR (evalPolynomial ?cs (int i + 1)) (\<lambda>v.
      Inr \<lparr>share_index = int i + 1, share_value = v\<rparr>)) [0..<nat n] = Inr shares"
    using assms by (auto simp: Split_def Let_def bindR_Inr_iff)
  have "mapR (\<lambda>i. bindR (evalPolynomial ?cs (int i + 1)) (\<lambda>v.
      Inr \<lparr>share_index = int i + 1, share_value = v\<rparr>)) [0..<nat n] = Inr (sharesOf ?cs (nat n))"
    unfolding sharesOf_def by (rule mapR_total) (simp add: evalPolynomial_Inr)
  then show ?thesis using sh h by simp
qed

text \<open>
  The contribution of a validator with polynomial \<open>cs\<close>: commitments to its coefficients, and
  its values encrypted to the other validators.
\<close>

definition honestContribution ::
  "lib \<Rightarrow> ('s::field, 'p::ab_group_add) curve \<Rightarrow> aead \<Rightarrow> ValidatorPallasKey list \<Rightarrow> 's list \<Rightarrow> DKGContribution \<Rightarrow> bool" where
  "honestContribution L C A vs cs k \<longleftrightarrow>
     dkg_feldman_commitments k = map (ToAffineCompressed C) (map (Mul C (PallasGenerator C)) cs) \<and>
     (\<exists>R. dealLoop L C A R (dkg_validator_address k) (sharesOf cs (length vs)) 0 vs = Inr (dkg_payloads k))"

text \<open>The payload of the validator at a position.\<close>

lemma dealLoop_payload:
  assumes "dealLoop L C A R me shares i vs = Inr ps" and "distinct (map vpk_validator_address vs)"
    and "j < length vs" and "vpk_validator_address (vs ! j) \<noteq> me"
  shows "\<exists>p pk env. find (\<lambda>p. dp_validator_address p = vpk_validator_address (vs ! j)) ps = Some p \<and>
    UnmarshalPublicKey C (vpk_pallas_pk (vs ! j)) = Inr pk \<and>
    Encrypt L C A (PallasGenerator C) pk (ScalarBytes C (share_value (shares ! (i + j)))) (rnd_ecies R (i + j)) = Inr env \<and>
    dp_ephemeral_pk p = ToAffineCompressed C (env_Ephemeral env) \<and> dp_ciphertext p = env_Ciphertext env"
  using assms
proof (induction vs arbitrary: i j ps)
  case (Cons v vs)
  show ?case
  proof (cases "vpk_validator_address v = me")
    case True
    with Cons.prems(4) obtain j' where j: "j = Suc j'" by (cases j) auto
    show ?thesis using Cons.IH[of "Suc i" ps j'] Cons.prems True j by simp
  next
    case False
    from Cons.prems(1) False obtain pk env rest where h: "UnmarshalPublicKey C (vpk_pallas_pk v) = Inr pk"
      "Encrypt L C A (PallasGenerator C) pk (ScalarBytes C (share_value (shares ! i))) (rnd_ecies R i) = Inr env"
      "dealLoop L C A R me shares (Suc i) vs = Inr rest"
      "ps = \<lparr>dp_validator_address = vpk_validator_address v,
              dp_ephemeral_pk = ToAffineCompressed C (env_Ephemeral env),
              dp_ciphertext = env_Ciphertext env\<rparr> # rest"
      by (auto simp: bindR_Inr_iff)
    show ?thesis
    proof (cases j)
      case 0
      then show ?thesis using h by simp
    next
      case (Suc j')
      have "vs ! j' \<in> set vs" using Cons.prems(3) Suc by simp
      then have "vpk_validator_address (vs ! j') \<noteq> vpk_validator_address v"
        using Cons.prems(2) by (metis distinct.simps(2) imageI list.set_map list.simps(9))
      then show ?thesis using Cons.IH[OF h(3), of j'] Cons.prems Suc h(4) by simp
    qed
  qed
qed simp

lemma deserialize_compressed:
  "curve_ok C \<Longrightarrow> pts \<noteq> [] \<Longrightarrow> deserializeFeldmanCommitments C (map (ToAffineCompressed C) pts) = Inr pts"
  by (simp add: deserializeFeldmanCommitments_def mapR_Inr_iff Decompress_compress)

lemma VerifyFeldmanShare_commit:
  assumes "curve_ok C" and "cs \<noteq> []" and "0 < i"
  shows "VerifyFeldmanShare C (PallasGenerator C) (map (Mul C (PallasGenerator C)) cs) i s = Inr (s = polyVal cs (of_int i))"
  using assms by (simp add: VerifyFeldmanShare_def EvalCommitmentPolynomial_commit onCurve generator_nonzero Mul_inject)

lemma UnmarshalSecretKey_bytes:
  "curve_ok C \<Longrightarrow> s \<noteq> 0 \<Longrightarrow> UnmarshalSecretKey C (ScalarBytes C s) = Inr s"
  by (simp add: UnmarshalSecretKey_def scalar_bytes_length scalar_roundtrip CompressedPointSize_def)

text \<open>A validator recovers the value an honest contributor sent it.\<close>

lemma contributedShare_honest:
  assumes "curve_ok C" and "aead_ok A" and "honestContribution L C A vs cs k" and "cs \<noteq> []"
    and "distinct (map vpk_validator_address vs)" and "j < length vs"
    and "vpk_validator_address (vs ! j) \<noteq> dkg_validator_address k"
    and "vpk_pallas_pk (vs ! j) = ToAffineCompressed C (Mul C (PallasGenerator C) sk)"
    and "polyVal cs (of_int (int j + 1)) \<noteq> 0"
  shows "contributedShare L C A sk (vpk_validator_address (vs ! j)) (int j + 1) k = Inr (polyVal cs (of_int (int j + 1)))"
proof -
  let ?G = "PallasGenerator C" and ?v = "polyVal cs (of_int (int j + 1))"
  from assms(3) obtain R where R: "dealLoop L C A R (dkg_validator_address k) (sharesOf cs (length vs)) 0 vs = Inr (dkg_payloads k)"
    and cm: "dkg_feldman_commitments k = map (ToAffineCompressed C) (map (Mul C ?G) cs)"
    unfolding honestContribution_def by blast
  from dealLoop_payload[OF R assms(5-7)] obtain p pk env where
    p: "find (\<lambda>p. dp_validator_address p = vpk_validator_address (vs ! j)) (dkg_payloads k) = Some p"
      "UnmarshalPublicKey C (vpk_pallas_pk (vs ! j)) = Inr pk"
      "Encrypt L C A ?G pk (ScalarBytes C (share_value (sharesOf cs (length vs) ! j))) (rnd_ecies R j) = Inr env"
      "dp_ephemeral_pk p = ToAffineCompressed C (env_Ephemeral env)" "dp_ciphertext p = env_Ciphertext env"
    by auto
  have pk: "pk = Mul C ?G sk"
    using p(2) UnmarshalPublicKey_nonzero[OF p(2)] assms(1,8)
    by (auto simp: UnmarshalPublicKey_def Decompress_compress bindR_Inr_iff)
  have "share_value (sharesOf cs (length vs) ! j) = ?v" using assms(6) by (simp add: sharesOf_def)
  with Decrypt_Encrypt[OF assms(1,2) p(3)[unfolded pk]] have
    dec: "Decrypt L C A sk env = Inr (ScalarBytes C ?v)" "env_Ephemeral env \<noteq> 0" by simp_all
  moreover from dec(1) have "Decrypt L C A sk \<lparr>env_Ephemeral = env_Ephemeral env, env_Ciphertext = env_Ciphertext env\<rparr> =
      Inr (ScalarBytes C ?v)" by (cases env) simp
  ultimately show ?thesis
    using p(1,4,5) cm assms(1,4,9)
    by (simp add: contributedShare_def UnmarshalPublicKey_compress UnmarshalSecretKey_bytes
        deserialize_compressed VerifyFeldmanShare_commit del: map_map)
qed

lemma combineShares_sum:
  assumes "\<And>k. k \<in> set ks \<Longrightarrow> dkg_validator_address k \<noteq> a \<Longrightarrow> contributedShare L C A sk a i k = Inr (f k)"
  shows "combineShares L C A sk a i acc ks = Inr (acc + (\<Sum>k \<leftarrow> filter (\<lambda>k. dkg_validator_address k \<noteq> a) ks. f k))"
  using assms by (induction ks arbitrary: acc) (simp_all add: algebra_simps)

text \<open>The sum over all contributions, split at a contributor.\<close>

lemma sum_split_contributor:
  fixes f :: "DKGContribution \<Rightarrow> 'a::comm_monoid_add"
  assumes "distinct (map dkg_validator_address ks)" and "k \<in> set ks" and "dkg_validator_address k = a"
  shows "(\<Sum>k \<leftarrow> ks. f k) = f k + (\<Sum>k \<leftarrow> filter (\<lambda>k. dkg_validator_address k \<noteq> a) ks. f k)"
  using assms
proof (induction ks)
  case (Cons x xs)
  show ?case
  proof (cases "x = k")
    case True
    then have "filter (\<lambda>k. dkg_validator_address k \<noteq> a) xs = xs"
      using Cons.prems by (auto simp: filter_id_conv image_iff)
    then show ?thesis using True Cons.prems by simp
  next
    case False
    then have "dkg_validator_address x \<noteq> a" using Cons.prems by (auto simp: image_iff)
    then show ?thesis using False Cons by (simp add: ac_simps)
  qed
qed simp

section \<open>Recovering the share\<close>

lemma take_drop_concat:
  "\<forall>x \<in> set xs. length (f x) = m \<Longrightarrow> i < length xs \<Longrightarrow> take m (drop (i * m) (concat (map f xs))) = f (xs ! i)"
proof (induction xs arbitrary: i)
  case (Cons x xs)
  then show ?case by (cases i) auto
qed simp

lemma length_concat_const: "\<forall>x \<in> set xs. length (f x) = m \<Longrightarrow> length (concat (map f xs)) = length xs * m"
  by (induction xs) simp_all

lemma loadCoeffs_written:
  assumes "curve_ok C" and "map_of (n_files n) path = Some (concat (map (ScalarBytes C) cs))"
  shows "loadCoeffs C path (length cs) n = (Inr cs, n)"
proof -
  have len: "\<forall>c \<in> set cs. length (ScalarBytes C c) = 32" by (simp add: scalar_bytes_length[OF assms(1)])
  have "mapR (\<lambda>i. case ScalarSetBytes C (take 32 (drop (i * 32) (concat (map (ScalarBytes C) cs)))) of
      None \<Rightarrow> Inl ErrOther | Some s \<Rightarrow> Inr s) [0..<length cs] = Inr cs"
    by (simp add: mapR_Inr_iff take_drop_concat[OF len] scalar_roundtrip[OF assms(1)])
  then show ?thesis
    using assms(2) length_concat_const[OF len]
    by (simp add: loadCoeffs_def readFile_def bindM_def failIf_def liftR_def)
qed

text \<open>The polynomials of the contributors, and the value the validator with an index gets.\<close>

definition jointPoly :: "(gostring \<Rightarrow> 's::field list) \<Rightarrow> VoteRound \<Rightarrow> 's list" where
  "jointPoly poly rd = sumPolys (map (\<lambda>k. poly (dkg_validator_address k)) (dkg_contributions rd))"

text \<open>
  A round dealt by honest contributors with polynomials \<open>poly\<close> to the validators \<open>vs\<close>, all
  of the round's threshold.
\<close>

definition honestlyDealt ::
  "lib \<Rightarrow> ('s::field, 'p::ab_group_add) curve \<Rightarrow> aead \<Rightarrow> ValidatorPallasKey list \<Rightarrow> (gostring \<Rightarrow> 's list) \<Rightarrow> VoteRound \<Rightarrow> bool" where
  "honestlyDealt L C A vs poly rd \<longleftrightarrow>
     0 < unat (threshold rd) \<and> dkg_contributions rd \<noteq> [] \<and> distinct (map dkg_validator_address (dkg_contributions rd)) \<and>
     (\<forall>k \<in> set (dkg_contributions rd). honestContribution L C A vs (poly (dkg_validator_address k)) k \<and>
        length (poly (dkg_validator_address k)) = unat (threshold rd)) \<and>
     feldman_commitments rd = map (ToAffineCompressed C) (map (Mul C (PallasGenerator C)) (jointPoly poly rd))"

lemma honestlyDealt_joint:
  assumes "honestlyDealt L C A vs poly rd"
  shows "length (jointPoly poly rd) = unat (threshold rd) \<and> jointPoly poly rd \<noteq> [] \<and>
    polyVal (jointPoly poly rd) x = (\<Sum>k \<leftarrow> dkg_contributions rd. polyVal (poly (dkg_validator_address k)) x)"
proof -
  define css where "css = map (\<lambda>k. poly (dkg_validator_address k)) (dkg_contributions rd)"
  have h: "css \<noteq> []" "\<forall>cs \<in> set css. length cs = unat (threshold rd)" "0 < unat (threshold rd)"
    using assms by (auto simp: honestlyDealt_def css_def)
  then have "length (hd css) = unat (threshold rd)" by (simp add: hd_in_set)
  then show ?thesis using h polyVal_sumPolys[OF h(1), of x]
    by (auto simp: jointPoly_def css_def[symmetric] sumPolys_def) (simp add: css_def o_def)
qed

lemma ackDKGRound_honest:
  assumes "curve_ok C" and "aead_ok A" and deal: "honestlyDealt L C A vs poly rd"
    and "distinct (map vpk_validator_address vs)" and "j < length vs" and "vpk_validator_address (vs ! j) = a"
    and "vpk_pallas_pk (vs ! j) = ToAffineCompressed C (Mul C (PallasGenerator C) sk)"
    and "a \<in> set (map dkg_validator_address (dkg_contributions rd))"
    and "map_of (n_files n) (coeffsPathForRound (vote_round_id rd)) = Some (concat (map (ScalarBytes C) (poly a)))"
    and "\<forall>k \<in> set (dkg_contributions rd). dkg_validator_address k \<noteq> a \<longrightarrow>
      polyVal (poly (dkg_validator_address k)) (of_int (int j + 1)) \<noteq> 0"
  shows "ackDKGRound L C A sk rd a (int j + 1) n =
    (Inr (ScalarBytes C (polyVal (jointPoly poly rd) (of_int (int j + 1))), polyVal (jointPoly poly rd) (of_int (int j + 1))), n)"
proof -
  let ?x = "of_int (int j + 1) :: 'a" and ?ks = "dkg_contributions rd"
  let ?f = "\<lambda>k. polyVal (poly (dkg_validator_address k)) ?x"
  from assms(8) obtain k0 where k0: "k0 \<in> set ?ks" "dkg_validator_address k0 = a" by auto
  have honest: "\<And>k. k \<in> set ?ks \<Longrightarrow> honestContribution L C A vs (poly (dkg_validator_address k)) k"
    "\<And>k. k \<in> set ?ks \<Longrightarrow> length (poly (dkg_validator_address k)) = unat (threshold rd)" "0 < unat (threshold rd)"
    "distinct (map dkg_validator_address ?ks)"
    "feldman_commitments rd = map (ToAffineCompressed C) (map (Mul C (PallasGenerator C)) (jointPoly poly rd))"
    using deal unfolding honestlyDealt_def by blast+
  have own: "length (poly a) = unat (threshold rd)" "poly a \<noteq> []" using honest(2)[OF k0(1)] honest(3) k0(2) by auto
  have load: "loadCoeffs C (coeffsPathForRound (vote_round_id rd)) (unat (threshold rd)) n = (Inr (poly a), n)"
    using loadCoeffs_written[OF assms(1,9)] own(1) by simp
  have others: "contributedShare L C A sk a (int j + 1) k = Inr (?f k)" if k: "k \<in> set ?ks" "dkg_validator_address k \<noteq> a" for k
  proof -
    have "poly (dkg_validator_address k) \<noteq> []" using honest(2)[OF k(1)] honest(3) by auto
    from contributedShare_honest[OF assms(1,2) honest(1)[OF k(1)] this assms(4,5) _ assms(7)] k assms(6,10)
    show ?thesis by auto
  qed
  have comb: "combineShares L C A sk a (int j + 1) (polyVal (poly a) ?x) ?ks = Inr (polyVal (jointPoly poly rd) ?x)"
    using combineShares_sum[OF others, where ?acc = "polyVal (poly a) ?x"]
      sum_split_contributor[OF honest(4) k0, of ?f] honestlyDealt_joint[OF deal, of ?x] k0(2) by simp
  show ?thesis
    using load comb own(2) honestlyDealt_joint[OF deal, of ?x] assms(1) honest(5)
    by (simp add: ackDKGRound_def bindM_def liftR_def failIf_def returnM_def EvalPolynomial_def evalPolynomial_Inr
        deserialize_compressed VerifyFeldmanShare_commit del: map_map of_int_add)
qed

section \<open>The finished key generation\<close>

lemma foldUntil_find:
  "foldUntil (\<lambda>x res. if Q x then (True, Some x) else (False, res)) None xs = find Q xs"
  by (induction xs) simp_all

lemma FindFirstPendingRound_wf:
  assumes "kv_wf s"
  shows "FindFirstPendingRound cs s =
    (Inr (find (\<lambda>r. ceremony_status r = cs) (filter (\<lambda>r. status r = SESSION_STATUS_PENDING) (roundsOf s))), s)"
  by (simp add: FindFirstPendingRound_def IteratePendingRounds_def iterateRounds_wf[OF assms] foldUntil_find)

lemma FindFirstPendingRound_Some:
  assumes "kv_wf s" and "FindFirstPendingRound cs s = (Inr (Some rd), s')"
  shows "s' = s \<and> roundOf s (vote_round_id rd) = Some rd \<and> length (vote_round_id rd) = 32 \<and>
    status rd = SESSION_STATUS_PENDING \<and> ceremony_status rd = cs"
proof -
  from assms(2) have f: "find (\<lambda>r. ceremony_status r = cs) (filter (\<lambda>r. status r = SESSION_STATUS_PENDING) (roundsOf s)) = Some rd"
    "s' = s" by (auto simp: FindFirstPendingRound_wf[OF assms(1)])
  from f(1) have "rd \<in> set (filter (\<lambda>r. status r = SESSION_STATUS_PENDING) (roundsOf s))" "ceremony_status rd = cs"
    unfolding find_Some_iff by (auto dest: nth_mem)
  then show ?thesis using f(2) roundOf_wf[OF assms(1)] by (auto simp: mem_roundsOf_iff[OF assms(1)])
qed

lemma unmarshal_commitments:
  assumes "curve_ok C" and "mapR (UnmarshalPublicKey C) (map (ToAffineCompressed C) pts) = Inr qs"
  shows "qs = pts"
proof (rule nth_equalityI)
  show len: "length qs = length pts" using assms(2) by (simp add: mapR_Inr_iff)
  fix i assume "i < length qs"
  then have "UnmarshalPublicKey C (ToAffineCompressed C (pts ! i)) = Inr (qs ! i)"
    using assms(2) len by (simp add: mapR_Inr_iff)
  then show "qs ! i = pts ! i"
    by (auto simp: UnmarshalPublicKey_def Decompress_compress[OF assms(1)] bindR_Inr_iff)
qed

text \<open>
  The last contribution of an honest key generation leaves an honestly dealt round, in which
  every validator has its position as index and no share is zero.
\<close>

lemma finalizeDKG_honest:
  assumes "curve_ok C" and fin: "finalizeDKG C c rd0 m thr = Inr rd" and thr: "1 \<le> thr" "thr < 2 ^ 32"
    and "distinct (map dkg_validator_address (dkg_contributions rd0))"
    and honest: "\<forall>k \<in> set (dkg_contributions rd0). int (length (poly (dkg_validator_address k))) = thr \<and>
      honestContribution L C A (ceremony_validators rd0) (poly (dkg_validator_address k)) k"
  shows "honestlyDealt L C A (ceremony_validators rd0) poly rd \<and> ceremony_acks rd = ceremony_acks rd0 \<and>
    dkg_contributions rd = dkg_contributions rd0 \<and>
    ceremony_validators rd = assignShamirIndices 0 (ceremony_validators rd0) \<and>
    (\<forall>j < length (ceremony_validators rd0). polyVal (jointPoly poly rd) (of_int (int j + 1)) \<noteq> 0)"
proof -
  let ?ks = "dkg_contributions rd0" and ?G = "PallasGenerator C"
  define css where "css = map (\<lambda>k. poly (dkg_validator_address k)) ?ks"
  from finalizeDKG_Inr[OF fin] obtain qss combined log where
    q: "mapR (\<lambda>k. mapR (UnmarshalPublicKey C) (dkg_feldman_commitments k)) ?ks = Inr qss"
      "CombineCommitments C qss = Inr combined"
    and vk: "\<forall>i \<in> {1..int (length (ceremony_validators rd0))}. \<exists>vk. EvalCommitmentPolynomial C combined i = Inr vk \<and> vk \<noteq> 0"
    and rd: "rd = rd0\<lparr>ea_pk := ToAffineCompressed C (hd combined),
      feldman_commitments := map (ToAffineCompressed C) combined, threshold := word_of_int thr,
      ceremony_validators := assignShamirIndices 0 (ceremony_validators rd0),
      ceremony_phase_start := unixU64 c, ceremony_phase_timeout := DefaultDealTimeout,
      ceremony_status := CEREMONY_STATUS_DEALT, ceremony_log := log\<rparr>" by (elim exE conjE)
  have "qss = map (map (Mul C ?G)) css"
  proof (rule nth_equalityI)
    show len: "length qss = length (map (map (Mul C ?G)) css)" using q(1) by (simp add: mapR_Inr_iff css_def)
    fix i assume i: "i < length qss"
    then have k: "?ks ! i \<in> set ?ks" using len by (simp add: css_def)
    have "mapR (UnmarshalPublicKey C) (dkg_feldman_commitments (?ks ! i)) = Inr (qss ! i)"
      using q(1) i len unfolding mapR_Inr_iff by (simp add: css_def)
    then show "qss ! i = map (map (Mul C ?G)) css ! i"
      using honest k unmarshal_commitments[OF assms(1)] i len by (auto simp: honestContribution_def css_def simp del: map_map)
  qed
  moreover have "qss \<noteq> []" using CombineCommitments_Inr[OF q(2)] by simp
  ultimately have css: "css \<noteq> []" "qss = map (map (Mul C ?G)) css" by auto
  have len: "\<forall>cs \<in> set css. length cs = nat thr" using honest by (auto simp: css_def)
  then have hd: "length (hd css) = nat thr" using css(1) by (simp add: hd_in_set)
  have comb: "combined = map (Mul C ?G) (sumPolys css)"
    using q(2) CombineCommitments_commit[OF assms(1) css(1)] hd len thr(1) unfolding css(2) by force
  have "uint (word_of_int thr :: u32) = thr" using thr by (simp add: uint_word_of_int)
  then have t: "unat (threshold rd) = nat thr" unfolding unat_eq_nat_uint by (simp add: rd)
  have joint: "jointPoly poly rd = sumPolys css" by (simp add: jointPoly_def rd css_def)
  have "honestlyDealt L C A (ceremony_validators rd0) poly rd"
    unfolding honestlyDealt_def joint t using assms(5) honest css(1) thr(1)
    by (auto simp: rd comb css_def)
  moreover have "polyVal (jointPoly poly rd) (of_int (int j + 1)) \<noteq> 0" if "j < length (ceremony_validators rd0)" for j
  proof -
    have "sumPolys css \<noteq> []" using hd thr(1) by (simp add: sumPolys_def)
    from EvalCommitmentPolynomial_commit[OF assms(1) this, of "int j + 1" ?G] bspec[OF vk, of "int j + 1"] that
    have "Mul C ?G (polyVal (sumPolys css) (of_int (int j + 1))) \<noteq> 0" by (auto simp: comb simp del: of_int_add)
    then show ?thesis unfolding joint using Mul_0[OF assms(1)] by auto
  qed
  ultimately show ?thesis by (simp add: rd del: of_int_add)
qed

section \<open>The acknowledgement\<close>

text \<open>Acknowledgements and the log do not matter for what was dealt.\<close>

lemma honestlyDealt_acks:
  "jointPoly poly (rd\<lparr>ceremony_acks := acks, ceremony_log := log\<rparr>) = jointPoly poly rd"
  "honestlyDealt L C A vs poly (rd\<lparr>ceremony_acks := acks, ceremony_log := log\<rparr>) = honestlyDealt L C A vs poly rd"
  by (simp_all add: honestlyDealt_def jointPoly_def)

lemma find_at_position:
  "distinct (map f xs) \<Longrightarrow> j < length xs \<Longrightarrow> find (\<lambda>x. f x = f (xs ! j)) xs = Some (xs ! j)"
  by (auto simp: find_Some_iff distinct_conv_nth intro!: exI[of _ j])

lemma assignShamirIndices_nth:
  assumes "j < length vs"
  shows "vpk_shamir_index (assignShamirIndices 0 vs ! j) = word_of_nat (Suc j)"
proof -
  have "map vpk_shamir_index (assignShamirIndices 0 vs) ! j = map word_of_nat [1..<Suc (length vs)] ! j"
    using assignShamirIndices_indices[of 0 vs] by simp
  then show ?thesis using assms by (simp del: upt_Suc)
qed

lemma index_u32:
  assumes "Suc j < 2 ^ 32"
  shows "uint (word_of_nat (Suc j) :: u32) = int j + 1" and "(word_of_nat (Suc j) :: u32) \<noteq> 0"
proof -
  show eq: "uint (word_of_nat (Suc j) :: u32) = int j + 1"
    using assms by (simp add: unsigned_of_nat take_bit_nat_eq_self del: of_nat_Suc)
  show "(word_of_nat (Suc j) :: u32) \<noteq> 0"
  proof
    assume "(word_of_nat (Suc j) :: u32) = 0"
    then have "uint (word_of_nat (Suc j) :: u32) = 0" by (simp only: unsigned_0)
    then show False using eq by linarith
  qed
qed

lemma find_assigned:
  assumes "distinct (map vpk_validator_address vs)" and "j < length vs"
    and "ceremony_validators rd = assignShamirIndices 0 vs"
  shows "\<exists>v. FindValidatorInRoundCeremony rd (vpk_validator_address (vs ! j)) = Some v \<and>
    vpk_shamir_index v = word_of_nat (Suc j)"
proof -
  let ?ws = "assignShamirIndices 0 vs"
  have "vpk_validator_address (?ws ! j) = vpk_validator_address (vs ! j)"
    using assms(2) by (metis assignShamirIndices_addresses nth_map)
  moreover have "find (\<lambda>v. vpk_validator_address v = vpk_validator_address (?ws ! j)) ?ws = Some (?ws ! j)"
    by (rule find_at_position) (use assms in simp_all)
  ultimately show ?thesis using assms(2,3) assignShamirIndices_nth by (simp add: FindValidatorInRoundCeremony_def)
qed

lemma loadShare_written:
  assumes "curve_ok C" and "dir \<noteq> []" and "s \<noteq> 0"
    and "map_of (n_files n) (sharePathForRound r) = Some (ScalarBytes C s)"
  shows "loadShareForRound C dir r n = (Inr s, n)"
  using assms by (simp add: loadShareForRound_def readFile_def bindM_def failIf_def liftR_def UnmarshalSecretKey_bytes)

definition ackMessage :: "('x, 'h) env \<Rightarrow> VoteRound \<Rightarrow> gostring \<Rightarrow> MsgAckExecutiveAuthorityKey" where
  "ackMessage E rd a = \<lparr>ma_creator = a, ma_ack_signature = sha256 (envLib E) (AckDigestDomain @ ea_pk rd @ a),
     ma_vote_round_id = vote_round_id rd\<rparr>"

text \<open>A fitting acknowledgement passes the proposal check and the handler.\<close>

lemma ack_accepted:
  assumes "proto_ok P" and "kv_wf s" and "FindFirstPendingRound CEREMONY_STATUS_DEALT s = (Inr (Some rd), s)"
    and "FindValidatorInRoundCeremony rd a = Some v" and "FindAckInRoundCeremony rd a = None"
    and "ValidateProposerIsCreator E x c a = Inr ()"
    and "EncodeCeremonyTx P (AckMsg (ackMessage E rd a)) TagAckExecutiveAuthorityKey = Inr tx" and "2 \<le> length tx"
  shows "validateInjectedTx E C P x c tx s = (Inr (), s) \<and>
    (\<exists>s'. AckExecutiveAuthorityKey E x c (ackMessage E rd a) s = (Inr (), s'))"
proof -
  note rd = FindFirstPendingRound_Some[OF assms(2,3)]
  then have get: "GetVoteRound (vote_round_id rd) s = (Inr rd, s)" by (simp add: GetVoteRound_Inr_iff)
  have tag: "hd tx = TagAckExecutiveAuthorityKey" by (rule EncodeCeremonyTx_hd[OF assms(7)])
  have dec: "DecodeCeremonyTx P tx = Inr (hd tx, AckMsg (ackMessage E rd a))"
    by (rule DecodeCeremonyTx_Encode[OF assms(1) _ assms(8)]) (simp add: assms(7))
  have "validateInjectedTx E C P x c tx s = (Inr (), s)"
    using rd get tag dec assms(4-6,8)
    by (simp add: validateInjectedTx_def validateInjectedAck_def bindM_def liftR_def failIf_def ackMessage_def tag_defs wrapErr_def)
  moreover have "\<exists>s'. AckExecutiveAuthorityKey E x c (ackMessage E rd a) s = (Inr (), s')"
    using rd get assms(4-6)
    by (simp add: AckExecutiveAuthorityKey_def GetPendingRoundWithCeremony_def bindM_def liftR_def failIf_def
        ackMessage_def sha256AckDigest_def returnM_def Let_def)
      (auto simp: SetVoteRound_Inr_iff AppendCeremonyLog_def)
  ultimately show ?thesis ..
qed

text \<open>
  C7. Honest key generation delivers the shares. Let the round be what \<^verbatim>\<open>finalizeDKG\<close>
  made of honest contributions (acknowledgements and log aside), and let the proposer be the
  validator at position \<open>j\<close>, with its own coefficients on disk, the key registered for it,
  and no zero among the values sent to it. Then its acknowledgement is injected, it is
  accepted by the other validators' proposal check and by the handler, and the file it leaves
  loads as the joint polynomial's value at index \<open>j + 1\<close>. That is the scalar behind the
  verification key which the round's commitments give for the index.
\<close>

theorem honest_ack_accepted:
  fixes C :: "('s::field, 'p::ab_group_add) curve"
  assumes "curve_ok C" and "aead_ok A" and "proto_ok P" and "kv_wf (n_kv n)"
    and "finalizeDKG C c0 rd0 m thr = Inr rd1" and "1 \<le> thr" and "thr < 2 ^ 32"
    and "vs = ceremony_validators rd0" and "distinct (map vpk_validator_address vs)" and "length vs < 2 ^ 32"
    and "distinct (map dkg_validator_address (dkg_contributions rd0))"
    and "\<forall>k \<in> set (dkg_contributions rd0). int (length (poly (dkg_validator_address k))) = thr \<and>
      honestContribution (envLib E) C A vs (poly (dkg_validator_address k)) k"
    and "rd = rd1\<lparr>ceremony_acks := acks, ceremony_log := log\<rparr>"
    and "FindFirstPendingRound CEREMONY_STATUS_DEALT (n_kv n) = (Inr (Some rd), n_kv n)"
    and "j < length vs" and "a = vpk_validator_address (vs ! j)" and "a \<notin> set (map ack_validator_address acks)"
    and "a \<in> set (map dkg_validator_address (dkg_contributions rd0))"
    and "vpk_pallas_pk (vs ! j) = ToAffineCompressed C (Mul C (PallasGenerator C) sk)"
    and "map_of (n_files n) (coeffsPathForRound (vote_round_id rd)) = Some (concat (map (ScalarBytes C) (poly a)))"
    and "\<forall>k \<in> set (dkg_contributions rd0). dkg_validator_address k \<noteq> a \<longrightarrow>
      polyVal (poly (dkg_validator_address k)) (of_int (int j + 1)) \<noteq> 0"
    and "isProposer E x c a" and "\<not> is_check_tx c" and "\<not> is_recheck_tx c"
    and "dir \<noteq> []" and "canWrite F (sharePathForRound (vote_round_id rd))"
    and "EncodeCeremonyTx P (AckMsg (ackMessage E rd a)) TagAckExecutiveAuthorityKey = Inr tx" and "2 \<le> length tx"
  shows "\<exists>n' share pts. CeremonyAckPrepareProposalHandler E C P A F (Inr sk) dir x c txs n = (Inr (tx # txs), n') \<and>
    n_kv n' = n_kv n \<and> loadShareForRound C dir (vote_round_id rd) n' = (Inr share, n') \<and>
    share = polyVal (jointPoly poly rd) (of_int (int j + 1)) \<and>
    deserializeFeldmanCommitments C (feldman_commitments rd) = Inr pts \<and>
    EvalCommitmentPolynomial C pts (int j + 1) = Inr (Mul C (PallasGenerator C) share) \<and>
    validateInjectedTx E C P x c tx (n_kv n) = (Inr (), n_kv n) \<and>
    (\<exists>s'. AckExecutiveAuthorityKey E x c (ackMessage E rd a) (n_kv n) = (Inr (), s'))"
proof -
  let ?S = "polyVal (jointPoly poly rd) (of_int (int j + 1))" and ?r = "vote_round_id rd"
  define n' where "n' = n\<lparr>n_files := AList.update (sharePathForRound ?r) (ScalarBytes C ?S) (n_files n)\<rparr>"
  have fin: "honestlyDealt (envLib E) C A vs poly rd" "dkg_contributions rd = dkg_contributions rd0"
    "ceremony_validators rd = assignShamirIndices 0 vs" "?S \<noteq> 0"
    using finalizeDKG_honest[OF assms(1,5-7,11) assms(12)[unfolded assms(8)]] assms(8,15)
    by (simp_all add: assms(13) honestlyDealt_acks del: of_int_add)
  obtain v where v: "FindValidatorInRoundCeremony rd a = Some v" "vpk_shamir_index v = word_of_nat (Suc j)"
    using find_assigned[OF assms(9,15) fin(3)] assms(16) by blast
  have "Suc j < 2 ^ 32" using assms(10,15) by simp
  note idx = index_u32[OF this]
  have ack: "FindAckInRoundCeremony rd a = None" using assms(13,17) by (simp add: Find_None_iff)
  note run = ackDKGRound_honest[OF assms(1,2) fin(1) assms(9,15) assms(16)[symmetric] assms(19) _ assms(20)]
  have vp: "ValidateProposerIsCreator E x c a = Inr ()" using assms(22-24) by (simp add: ValidateProposerIsCreator_Inr_iff)
  have "resolveProposer E x (proposer_address c) = Inr a" using assms(22) by (auto simp: isProposer_def resolveProposer_def)
  then have "CeremonyAckPrepareProposalHandler E C P A F (Inr sk) dir x c txs n = (Inr (tx # txs), n')"
    using assms(14,18,21,25-27) v ack idx run fin(2)
    by (simp add: CeremonyAckPrepareProposalHandler_def orReturn_def liftR_def kvN_def writeFile_def failIf_def
        modifyM_def returnM_def ackMessage_def n'_def del: of_int_add)
  moreover have "loadShareForRound C dir ?r n' = (Inr ?S, n')"
    by (rule loadShare_written[OF assms(1,25) fin(4)]) (simp add: n'_def update_conv')
  moreover have "jointPoly poly rd \<noteq> []" using honestlyDealt_joint[OF fin(1)] by blast
  then have "deserializeFeldmanCommitments C (feldman_commitments rd) = Inr (map (Mul C (PallasGenerator C)) (jointPoly poly rd))"
    "EvalCommitmentPolynomial C (map (Mul C (PallasGenerator C)) (jointPoly poly rd)) (int j + 1) = Inr (Mul C (PallasGenerator C) ?S)"
    using fin(1) assms(1) EvalCommitmentPolynomial_commit[OF assms(1), of "jointPoly poly rd" "int j + 1"]
    unfolding honestlyDealt_def by (simp_all add: deserialize_compressed del: of_int_add map_map)
  moreover note ack_accepted[OF assms(3,4,14) v(1) ack vp assms(27,28)]
  ultimately show ?thesis by (intro exI[of _ n'] exI[of _ ?S]) (simp add: n'_def)
qed

section \<open>A ceremony of two validators\<close>

text \<open>Both deal the polynomial \<open>1 + x\<close>, so the joint one is \<open>2 + 2 x\<close>. Their keys are 3 and 5.\<close>

definition sampleAead :: aead where
  "sampleAead = \<lparr>Seal = \<lambda>k m. m @ replicate 16 0, Open = \<lambda>k ct. Some (take (length ct - 16) ct)\<rparr>"

lemma sampleAead_ok: "aead_ok sampleAead"
  by (simp add: aead_ok_def sampleAead_def)

definition sampleRandom :: dkgRandom where
  "sampleRandom = \<lparr>rnd_proofSeeds = [Some [1]], rnd_ecies = \<lambda>_. Some [1]\<rparr>"

definition sampleVals :: "ValidatorPallasKey list" where
  "sampleVals = [\<lparr>vpk_validator_address = [1], vpk_pallas_pk = enc7 F2, vpk_shamir_index = 0\<rparr>,
     \<lparr>vpk_validator_address = [2], vpk_pallas_pk = enc7 F1, vpk_shamir_index = 0\<rparr>]"

definition dealtBy :: "gostring \<Rightarrow> DKGContribution" where
  "dealtBy a = \<lparr>dkg_validator_address = a, dkg_feldman_commitments = [enc7 F3, enc7 F3],
     dkg_payloads = (case dealLoop sampleLib curve7 sampleAead sampleRandom a (sharesOf [F1, F1] 2) 0 sampleVals of
       Inr ps \<Rightarrow> ps | Inl _ \<Rightarrow> [])\<rparr>"

definition sampleJoint :: VoteRound where
  "sampleJoint = sampleRound\<lparr>status := SESSION_STATUS_PENDING, ceremony_status := CEREMONY_STATUS_REGISTERING,
     ceremony_validators := sampleVals, dkg_contributions := [dealtBy [1], dealtBy [2]]\<rparr>"

definition sampleJointDealt :: VoteRound where
  "sampleJointDealt = (case finalizeDKG curve7 sampleCtx sampleJoint 2 2 of Inr rd \<Rightarrow> rd | Inl _ \<Rightarrow> sampleJoint)"

definition sampleAckTx :: bytes where "sampleAckTx = [TagAckExecutiveAuthorityKey, 1]"

text \<open>A runtime that knows one ceremony message, written as a single byte.\<close>

definition ceremonyProto :: "CeremonyMessage \<Rightarrow> proto" where
  "ceremonyProto m = sampleProto\<lparr>
     marshalCeremony := (\<lambda>m'. if m' = m then Inr [1] else Inl ErrOther),
     unmarshalContributeDKG := (\<lambda>_. case m of ContributeDKGMsg k \<Rightarrow> Inr k | _ \<Rightarrow> Inl ErrOther),
     unmarshalAck := (\<lambda>_. case m of AckMsg k \<Rightarrow> Inr k | _ \<Rightarrow> Inl ErrOther),
     unmarshalSubmitPartialDecryption := (\<lambda>_. case m of SubmitPartialDecryptionMsg k \<Rightarrow> Inr k | _ \<Rightarrow> Inl ErrOther)\<rparr>"

lemma ceremonyProto_ok: "proto_ok (ceremonyProto m)"
proof -
  have "unmarshalVote (ceremonyProto m) = unmarshalVote sampleProto" "marshalVote (ceremonyProto m) = marshalVote sampleProto"
    by (simp_all add: fun_eq_iff unmarshalVote_def ceremonyProto_def)
  moreover have "\<forall>m' b. marshalCeremony (ceremonyProto m) m' = Inr b \<longrightarrow> unmarshalCeremony (ceremonyProto m) (ceremonyTag m') b = Inr m'"
    by (cases m) (auto simp: ceremonyProto_def unmarshalCeremony_def tag_defs split: if_splits)
  ultimately show ?thesis using sampleProto_ok by (simp add: proto_ok_def)
qed

definition deliveryNode :: "f7 node" where
  "deliveryNode = \<lparr>n_kv = [(0x04 # sampleRoundID, VVoteRound sampleJointDealt)],
     n_files = [(coeffsPathForRound sampleRoundID, enc7 F1 @ enc7 F1)], n_shareCache = []\<rparr>"

definition allFiles :: fsOps where
  "allFiles = \<lparr>canWrite = \<lambda>_. True, canOpen = \<lambda>_. True, canRemove = \<lambda>_. True\<rparr>"

lemma sampleJoint_dealt: "finalizeDKG curve7 sampleCtx sampleJoint 2 2 = Inr sampleJointDealt"
proof -
  have "\<not> isl (finalizeDKG curve7 sampleCtx sampleJoint 2 2)" by code_simp
  then show ?thesis by (auto simp: sampleJointDealt_def split: sum.splits)
qed

lemma dealtBy_honest: "a \<in> {[1], [2]} \<Longrightarrow> honestContribution sampleLib curve7 sampleAead sampleVals [F1, F1] (dealtBy a)"
proof -
  assume "a \<in> {[1], [2]}"
  moreover have "\<not> isl (dealLoop sampleLib curve7 sampleAead sampleRandom [1] (sharesOf [F1, F1] 2) 0 sampleVals)"
    "\<not> isl (dealLoop sampleLib curve7 sampleAead sampleRandom [2] (sharesOf [F1, F1] 2) 0 sampleVals)" by code_simp+
  ultimately have "dealLoop sampleLib curve7 sampleAead sampleRandom a (sharesOf [F1, F1] 2) 0 sampleVals = Inr (dkg_payloads (dealtBy a))"
    by (auto simp: dealtBy_def split: sum.splits)
  moreover have "length sampleVals = 2" by (simp add: sampleVals_def)
  moreover have "[enc7 F3, enc7 F3] = map (ToAffineCompressed curve7) (map (Mul curve7 (PallasGenerator curve7)) [F1, F1])" by code_simp
  ultimately show ?thesis unfolding honestContribution_def by (auto simp: dealtBy_def)
qed

theorem honest_ack_accepted_witness:
  "\<exists>n'. CeremonyAckPrepareProposalHandler sampleEnv curve7 (ceremonyProto (AckMsg (ackMessage sampleEnv sampleJointDealt [1])))
      sampleAead allFiles (Inr F3) [1] () sampleCtx [] deliveryNode = (Inr [sampleAckTx], n') \<and>
    loadShareForRound curve7 [1] sampleRoundID n' = (Inr F4, n')"
proof -
  let ?P = "ceremonyProto (AckMsg (ackMessage sampleEnv sampleJointDealt [1]))"
  have id: "vote_round_id sampleJointDealt = sampleRoundID" by code_simp
  have wf: "kv_wf (n_kv deliveryNode)"
    using id by (simp add: deliveryNode_def kv_wf_def kv_ok_def entry_ok_round sampleRoundID_def)
  have "fst (FindFirstPendingRound CEREMONY_STATUS_DEALT (n_kv deliveryNode)) = Inr (Some sampleJointDealt)" by code_simp
  then have first: "FindFirstPendingRound CEREMONY_STATUS_DEALT (n_kv deliveryNode) = (Inr (Some sampleJointDealt), n_kv deliveryNode)"
    by (simp add: FindFirstPendingRound_wf[OF wf])
  have acks: "sampleJointDealt = sampleJointDealt\<lparr>ceremony_acks := ceremony_acks sampleJointDealt, ceremony_log := ceremony_log sampleJointDealt\<rparr>"
    by simp
  have noack: "[1] \<notin> set (map ack_validator_address (ceremony_acks sampleJointDealt))" by code_simp
  have vs: "sampleVals = ceremony_validators sampleJoint" "dkg_contributions sampleJoint = [dealtBy [1], dealtBy [2]]"
    by (simp_all add: sampleJoint_def)
  have addr: "dkg_validator_address (dealtBy a) = a" for a by (simp add: dealtBy_def)
  have val: "0 < length sampleVals" "[1] = vpk_validator_address (sampleVals ! 0)" "distinct (map vpk_validator_address sampleVals)"
    "length sampleVals < 2 ^ 32" "vpk_pallas_pk (sampleVals ! 0) = ToAffineCompressed curve7 (Mul curve7 (PallasGenerator curve7) F3)"
    by (simp_all add: sampleVals_def) code_simp
  have tx: "EncodeCeremonyTx ?P (AckMsg (ackMessage sampleEnv sampleJointDealt [1])) TagAckExecutiveAuthorityKey = Inr sampleAckTx"
    by (simp add: EncodeCeremonyTx_def ceremonyProto_def sampleAckTx_def IsCeremonyTag_def wrapErr_def)
  have onDisk: "map_of (n_files deliveryNode) (coeffsPathForRound (vote_round_id sampleJointDealt)) =
      Some (concat (map (ScalarBytes curve7) [F1, F1]))"
    by (simp add: deliveryNode_def id curve7_def)
  have pos: "polyVal [F1, F1] (of_int (int 0 + 1)) \<noteq> 0" by code_simp
  have S: "polyVal (jointPoly (\<lambda>_. [F1, F1]) sampleJointDealt) (of_int (int 0 + 1)) = F4" by code_simp
  have pr: "isProposer sampleEnv () sampleCtx [1]" "\<not> is_check_tx sampleCtx" "\<not> is_recheck_tx sampleCtx"
    by (simp_all add: isProposer_def sampleEnv_def sampleStaking_def sampleCtx_def)
  have ks: "distinct (map dkg_validator_address (dkg_contributions sampleJoint))"
    "[1] \<in> set (map dkg_validator_address (dkg_contributions sampleJoint))"
    "\<forall>k \<in> set (dkg_contributions sampleJoint). int (length [F1, F1]) = 2 \<and>
      honestContribution (envLib sampleEnv) curve7 sampleAead sampleVals [F1, F1] k"
    "\<forall>k \<in> set (dkg_contributions sampleJoint). dkg_validator_address k \<noteq> [1] \<longrightarrow> polyVal [F1, F1] (of_int (int 0 + 1)) \<noteq> 0"
    using dealtBy_honest pos by (simp_all add: vs addr sampleEnv_def)
  have misc: "(1 :: int) \<le> 2" "(2 :: int) < 2 ^ 32" "[1] \<noteq> ([] :: gostring)" "2 \<le> length sampleAckTx"
    "canWrite allFiles (sharePathForRound (vote_round_id sampleJointDealt))"
    by (simp_all add: sampleAckTx_def allFiles_def)
  show ?thesis
    using honest_ack_accepted[OF curve7_ok sampleAead_ok ceremonyProto_ok wf sampleJoint_dealt misc(1,2) vs(1) val(3,4)
        ks(1,3) acks first val(1,2) noack ks(2) val(5) onDisk ks(4) pr misc(3,5) tx misc(4), of "[]"]
    unfolding S id by blast
qed

end
