(* ===== verification/Partial_Delivery.thy ===== *)
theory Partial_Delivery
  imports Key_Delivery
begin

text \<open>
  From the shares to the partial decryptions: the cleaning of caches and files with which the
  injector of \<^verbatim>\<open>src/app/prepare_proposal_partial_decrypt.go\<close> starts, and the message it
  injects. The lemmas show that the cleaning keeps the shares of every round that is not over
  and removes the others, and that what an honest validator submits is accepted and consists
  of the share's multiples of the accumulators.
\<close>

section \<open>File names\<close>

lemma fromHexChar_hexDigit: "n < 16 \<Longrightarrow> fromHexChar (hexDigit n) = Some (word_of_nat n)"
proof -
  have "list_all (\<lambda>n. fromHexChar (hexDigit n) = Some (word_of_nat n)) [0..<16]" by code_simp
  then show "n < 16 \<Longrightarrow> fromHexChar (hexDigit n) = Some (word_of_nat n)" by (simp add: list_all_iff)
qed

lemma nibbles: "16 * word_of_nat (unat w div 16) + word_of_nat (unat w mod 16) = (w :: u8)"
proof -
  have "16 * word_of_nat (unat w div 16) + word_of_nat (unat w mod 16) = (word_of_nat (16 * (unat w div 16) + unat w mod 16) :: u8)"
    by (simp only: of_nat_add of_nat_mult of_nat_numeral)
  then show ?thesis by simp
qed

lemma hex_roundtrip: "hexDecode (hexEncode b) = Some b"
proof (induction b)
  case (Cons w b)
  have "unat w < 2 ^ LENGTH(8)" by (rule unsigned_less)
  then have "unat w div 16 < 16" by simp
  then show ?case using Cons by (simp add: hexEncode_def fromHexChar_hexDigit nibbles)
qed (simp add: hexEncode_def)

lemma sharePath_inject: "sharePathForRound r = sharePathForRound r' \<longleftrightarrow> r = r'"
  by (metis sharePathForRound_def hex_roundtrip option.inject same_append_eq)

lemma sharePath_coeffsPath: "sharePathForRound r \<noteq> coeffsPathForRound r'"
  by (simp add: sharePathForRound_def coeffsPathForRound_def str_def)

section \<open>Cleaning\<close>

lemma map_of_filter_fst: "map_of (filter (\<lambda>f. fst f \<noteq> a) xs) b = (if b = a then None else map_of xs b)"
  by (induction xs) auto

lemma zeroAndDelete_map:
  "map_of (zeroAndDelete F name zero fs) name' =
     (if name' = name \<and> canOpen F name
      then if canRemove F name then None else map_option zero (map_of fs name) else map_of fs name')"
  by (auto simp: zeroAndDelete_def map_of_filter_fst update_conv' split: option.splits)

text \<open>Whether the round is over for the validator's files.\<close>

definition overIn :: "vkv \<Rightarrow> bytes \<Rightarrow> bool" where
  "overIn s r \<longleftrightarrow> (case roundOf s r of None \<Rightarrow> True
     | Some rd \<Rightarrow> status rd = SESSION_STATUS_FINALIZED \<or> status rd = SESSION_STATUS_CEREMONY_FAILED)"

lemma GetVoteRound_total:
  assumes "kv_wf s"
  shows "\<exists>e. e \<noteq> GoPanic \<and> GetVoteRound r s = ((case roundOf s r of None \<Rightarrow> Inl e | Some rd \<Rightarrow> Inr rd), s)"
proof (cases "length r = 32")
  case True
  then show ?thesis by (intro exI[of _ ErrRoundNotFound]) (simp add: GetVoteRound_wf[OF assms])
next
  case False
  then have "roundOf s r = None" using roundOf_wf[OF assms, of r] by (cases "roundOf s r") auto
  moreover have "GetVoteRound r s = (Inl ErrInvalidRoundIDLen, s)"
    using False by (simp add: GetVoteRound_def key_simps ValidateRoundID_bad bindM_def liftR_def)
  ultimately show ?thesis by (intro exI[of _ ErrInvalidRoundIDLen]) simp
qed

lemma orReturn_GetVoteRound:
  assumes "kv_wf (n_kv n)"
  shows "orReturn (kvN (GetVoteRound r)) d k n = (case roundOf (n_kv n) r of None \<Rightarrow> (Inr d, n) | Some rd \<Rightarrow> k rd n)"
  using GetVoteRound_total[OF assms, of r] by (auto simp: orReturn_def kvN_def split: option.splits)

lemma roundOver_wf: "kv_wf (n_kv n) \<Longrightarrow> roundOver r n = (Inr (overIn (n_kv n) r), n)"
  by (auto simp: roundOver_def orReturn_GetVoteRound overIn_def returnM_def split: option.splits)

text \<open>A loop that keeps an invariant and never fails.\<close>

lemma forM_total_invariant:
  assumes "\<And>x n. Inv n \<Longrightarrow> \<exists>n'. f x n = (Inr (), n') \<and> Inv n'"
  shows "Inv n \<Longrightarrow> \<exists>n'. forM xs f n = (Inr (), n') \<and> Inv n'"
proof (induction xs arbitrary: n)
  case (Cons x xs)
  from assms[OF Cons.prems] obtain n' where "f x n = (Inr (), n')" "Inv n'" by blast
  with Cons.IH[of n'] show ?case by (auto simp: thenM_def bindM_def)
qed (simp add: returnM_def)

text \<open>
  What the cleaning keeps: the store, and of the rounds that are not over the share files and
  the cached shares.
\<close>

definition keepsLive :: "'s node \<Rightarrow> 's node \<Rightarrow> bool" where
  "keepsLive n n' \<longleftrightarrow> n_kv n' = n_kv n \<and> (\<forall>r. \<not> overIn (n_kv n) r \<longrightarrow>
     map_of (n_files n') (sharePathForRound r) = map_of (n_files n) (sharePathForRound r) \<and>
     map_of (n_shareCache n') (hexEncode r) = map_of (n_shareCache n) (hexEncode r))"

lemma keepsLive_refl: "keepsLive n n"
  by (simp add: keepsLive_def)

lemma keepsLive_trans: "keepsLive n n' \<Longrightarrow> keepsLive n' n'' \<Longrightarrow> keepsLive n n''"
  by (simp add: keepsLive_def)

lemma evictShare_run: "evictShare h n = (Inr (), n\<lparr>n_shareCache := filter (\<lambda>e. fst e \<noteq> h) (n_shareCache n)\<rparr>)"
  by (simp add: evictShare_def modifyM_def)

lemma zeroAndDeleteShareFile_run:
  "\<exists>fs. zeroAndDeleteShareFile F dir r n = (Inr (), n\<lparr>n_files := fs\<rparr>) \<and>
     (\<forall>name. name \<noteq> sharePathForRound r \<longrightarrow> map_of fs name = map_of (n_files n) name)"
  by (auto simp: zeroAndDeleteShareFile_def returnM_def modifyM_def zeroAndDelete_map
      intro: exI[of _ "n_files n"] exI[of _ "zeroAndDelete F (sharePathForRound r) z (n_files n)" for z])

lemma zeroAndDeleteCoeffsFile_run:
  "\<exists>fs. zeroAndDeleteCoeffsFile F dir r n = (Inr (), n\<lparr>n_files := fs\<rparr>) \<and>
     (\<forall>name. name \<noteq> coeffsPathForRound r \<longrightarrow> map_of fs name = map_of (n_files n) name)"
  by (auto simp: zeroAndDeleteCoeffsFile_def returnM_def modifyM_def zeroAndDelete_map
      intro: exI[of _ "n_files n"] exI[of _ "zeroAndDelete F (coeffsPathForRound r) z (n_files n)" for z])

lemma deleteShareFile_keeps:
  assumes "overIn (n_kv n) r"
  shows "\<exists>n'. zeroAndDeleteShareFile F dir r n = (Inr (), n') \<and> keepsLive n n'"
proof -
  obtain fs where fs: "zeroAndDeleteShareFile F dir r n = (Inr (), n\<lparr>n_files := fs\<rparr>)"
    "\<forall>name. name \<noteq> sharePathForRound r \<longrightarrow> map_of fs name = map_of (n_files n) name"
    using zeroAndDeleteShareFile_run by blast
  moreover have "sharePathForRound r' \<noteq> sharePathForRound r" if "\<not> overIn (n_kv n) r'" for r'
    using that assms by (auto simp: sharePath_inject)
  ultimately show ?thesis by (intro exI[of _ "n\<lparr>n_files := fs\<rparr>"]) (simp add: keepsLive_def)
qed

lemma evictShare_keeps:
  assumes "\<And>r. h = hexEncode r \<Longrightarrow> overIn (n_kv n) r"
  shows "\<exists>n'. evictShare h n = (Inr (), n') \<and> keepsLive n n'"
  using assms by (auto simp: evictShare_run keepsLive_def map_of_filter_fst)

lemma evictShares_keeps:
  fixes n :: "'s node"
  assumes "kv_wf (n_kv n)"
  shows "\<exists>n'. evictShares F dir n = (Inr (), n') \<and> keepsLive n n'"
proof -
  define step :: "gostring \<Rightarrow> ('s node, unit) M" where "step = (\<lambda>h. case hexDecode h of
          None \<Rightarrow> evictShare h
        | Some roundID \<Rightarrow>
            bindM (roundOver roundID) (\<lambda>over.
            if over then thenM (evictShare h) (zeroAndDeleteShareFile F dir roundID) else returnM ()))"
  have "\<exists>n2. step h n1 = (Inr (), n2) \<and> keepsLive n n2" if n1: "keepsLive n n1" for h n1
  proof -
    have kv: "n_kv n1 = n_kv n" "kv_wf (n_kv n1)" using n1 assms by (simp_all add: keepsLive_def)
    have over: "overIn (n_kv n1) r" if "h = hexEncode r" "hexDecode h = None \<or> (\<exists>r'. hexDecode h = Some r' \<and> overIn (n_kv n1) r')" for r
      using that by (auto simp: hex_roundtrip)
    consider "hexDecode h = None" | r where "hexDecode h = Some r" "overIn (n_kv n1) r"
      | r where "hexDecode h = Some r" "\<not> overIn (n_kv n1) r" by (cases "hexDecode h") auto
    then show ?thesis
    proof cases
      case 1
      then obtain n2 where "evictShare h n1 = (Inr (), n2)" "keepsLive n1 n2" using evictShare_keeps[of h n1] over by blast
      then show ?thesis using 1 keepsLive_trans[OF n1] by (auto simp: step_def)
    next
      case 2
      then obtain n2 where n2: "evictShare h n1 = (Inr (), n2)" "keepsLive n1 n2" using evictShare_keeps[of h n1] over by blast
      then have "overIn (n_kv n2) r" using 2 by (simp add: keepsLive_def)
      then obtain n3 where "zeroAndDeleteShareFile F dir r n2 = (Inr (), n3)" "keepsLive n2 n3" using deleteShareFile_keeps by blast
      then show ?thesis using 2 n2 keepsLive_trans[OF keepsLive_trans[OF n1 n2(2)]] roundOver_wf[OF kv(2), of r]
        by (auto simp: step_def bindM_def thenM_def)
    next
      case 3
      then show ?thesis using n1 roundOver_wf[OF kv(2), of r] by (auto simp: step_def bindM_def returnM_def)
    qed
  qed
  then have "\<exists>n'. forM xs step n = (Inr (), n') \<and> keepsLive n n'" for xs
    by (rule forM_total_invariant) (assumption, rule keepsLive_refl)
  then show ?thesis by (simp add: evictShares_def bindM_def getM_def step_def)
qed

lemma cleanObsoleteCoeffFiles_keeps:
  fixes n :: "'s node"
  assumes "kv_wf (n_kv n)"
  shows "\<exists>n'. cleanObsoleteCoeffFiles F dir n = (Inr (), n') \<and> keepsLive n n'"
proof -
  define step :: "gostring \<Rightarrow> ('s node, unit) M" where "step = (\<lambda>name :: gostring.
          if \<not> prefix (str ''coeffs.'') name then returnM ()
          else (case hexDecode (drop 7 name) of
             None \<Rightarrow> returnM ()
           | Some roundID \<Rightarrow>
               bindM (orReturn (kvN (GetVoteRound roundID)) True (\<lambda>r.
                 returnM (status r \<noteq> SESSION_STATUS_PENDING))) (\<lambda>obsolete.
               if obsolete then zeroAndDeleteCoeffsFile F dir roundID else returnM ())))"
  have del: "\<exists>n2. zeroAndDeleteCoeffsFile F dir r n1 = (Inr (), n2) \<and> keepsLive n n2" if "keepsLive n n1" for r n1
    using zeroAndDeleteCoeffsFile_run[of F dir r n1] that sharePath_coeffsPath by (auto simp: keepsLive_def)
  have "\<exists>n2. step name n1 = (Inr (), n2) \<and> keepsLive n n2" if n1: "keepsLive n n1" for name n1
  proof -
    have "kv_wf (n_kv n1)" using n1 assms by (simp add: keepsLive_def)
    then show ?thesis using n1 del[OF n1]
      by (auto simp: step_def bindM_def returnM_def orReturn_GetVoteRound split: option.splits if_splits)
  qed
  then have "\<exists>n'. forM xs step n = (Inr (), n') \<and> keepsLive n n'" for xs
    by (rule forM_total_invariant) (assumption, rule keepsLive_refl)
  then show ?thesis
    using keepsLive_refl[of n] by (auto simp: cleanObsoleteCoeffFiles_def bindM_def getM_def step_def returnM_def)
qed

lemma cleanOrphanedShareFiles_keeps:
  fixes n :: "'s node"
  assumes "kv_wf (n_kv n)"
  shows "\<exists>n'. cleanOrphanedShareFiles F dir n = (Inr (), n') \<and> keepsLive n n'"
proof -
  define step :: "gostring \<Rightarrow> ('s node, unit) M" where "step = (\<lambda>name :: gostring.
          if \<not> prefix (str ''share.'') name then returnM ()
          else (case hexDecode (drop 6 name) of
             None \<Rightarrow> returnM ()
           | Some roundID \<Rightarrow>
               bindM (roundOver roundID) (\<lambda>over.
               if over then zeroAndDeleteShareFile F dir roundID else returnM ())))"
  have "\<exists>n2. step name n1 = (Inr (), n2) \<and> keepsLive n n2" if n1: "keepsLive n n1" for name n1
  proof -
    have kv: "kv_wf (n_kv n1)" using n1 assms by (simp add: keepsLive_def)
    have "\<exists>n2. zeroAndDeleteShareFile F dir r n1 = (Inr (), n2) \<and> keepsLive n n2" if "overIn (n_kv n1) r" for r
      using deleteShareFile_keeps[OF that] keepsLive_trans[OF n1] by blast
    then show ?thesis using n1
      by (auto simp: step_def bindM_def returnM_def roundOver_wf[OF kv] split: option.splits)
  qed
  then have "\<exists>n'. forM xs step n = (Inr (), n') \<and> keepsLive n n'" for xs
    by (rule forM_total_invariant) (assumption, rule keepsLive_refl)
  then show ?thesis
    using keepsLive_refl[of n] by (auto simp: cleanOrphanedShareFiles_def bindM_def getM_def step_def returnM_def)
qed

text \<open>The three cleaning steps, in the order the injector takes them.\<close>

lemma cleaning_keeps:
  assumes "kv_wf (n_kv n)"
  shows "\<exists>n'. keepsLive n n' \<and> thenM (evictShares F dir) (thenM (cleanObsoleteCoeffFiles F dir)
    (thenM (cleanOrphanedShareFiles F dir) k)) n = k n'"
proof -
  obtain n1 where n1: "evictShares F dir n = (Inr (), n1)" "keepsLive n n1" using evictShares_keeps[OF assms] by blast
  then have wf1: "kv_wf (n_kv n1)" using assms by (simp add: keepsLive_def)
  obtain n2 where n2: "cleanObsoleteCoeffFiles F dir n1 = (Inr (), n2)" "keepsLive n1 n2"
    using cleanObsoleteCoeffFiles_keeps[OF wf1] by blast
  then have wf2: "kv_wf (n_kv n2)" using wf1 by (simp add: keepsLive_def)
  obtain n3 where n3: "cleanOrphanedShareFiles F dir n2 = (Inr (), n3)" "keepsLive n2 n3"
    using cleanOrphanedShareFiles_keeps[OF wf2] by blast
  then show ?thesis using n1 n2 keepsLive_trans[OF n1(2) keepsLive_trans[OF n2(2) n3(2)]]
    by (intro exI[of _ n3]) (simp add: thenM_def bindM_def)
qed

lemma loadShareCached_ok:
  assumes "curve_ok C" and "dir \<noteq> []" and "share \<noteq> 0"
    and "case map_of (n_shareCache n) (hexEncode r) of
      None \<Rightarrow> map_of (n_files n) (sharePathForRound r) = Some (ScalarBytes C share) | Some k \<Rightarrow> k = share"
  shows "\<exists>n'. loadShareForRoundCached C dir r n = (Inr share, n') \<and> n_kv n' = n_kv n"
proof (cases "map_of (n_shareCache n) (hexEncode r)")
  case None
  then have "loadShareForRound C dir r n = (Inr share, n)" using assms loadShare_written[OF assms(1-3)] by simp
  then show ?thesis using None
    by (simp add: loadShareForRoundCached_def bindM_def thenM_def getM_def modifyM_def returnM_def Let_def)
next
  case (Some k)
  then show ?thesis using assms(4) by (simp add: loadShareForRoundCached_def bindM_def getM_def returnM_def Let_def)
qed

section \<open>The entries\<close>

abbreviation partialKeyOf :: "PartialDecryptionEntry \<Rightarrow> u32 \<times> u32" where
  "partialKeyOf e \<equiv> (pd_proposal_id e, pd_vote_decision e)"

text \<open>An entry that is the share's multiple of its accumulator, with a proof that verifies.\<close>

definition goodPartial ::
  "lib \<Rightarrow> ('s::field, 'p::ab_group_add) curve \<Rightarrow> vkv \<Rightarrow> VoteRound \<Rightarrow> 's \<Rightarrow> PartialDecryptionEntry \<Rightarrow> bool" where
  "goodPartial L C s rd share e \<longleftrightarrow> partialKeyOf e \<in> nonEmptyAccs s rd \<and>
     (\<exists>ct. ctOf C s (vote_round_id rd, pd_proposal_id e, pd_vote_decision e) = Some ct \<and>
       UnmarshalPoint C (pd_partial_decrypt e) = Inr (Mul C (C1 ct) share) \<and>
       VerifyPartialDecryptDLEQ L C (pd_dleq_proof e) (Mul C (PallasGenerator C) share) (C1 ct) (Mul C (C1 ct) share) = Inr ())"

text \<open>Accumulators that parse, with a first component other than the identity.\<close>

definition accsOk :: "('s, 'p::ab_group_add) curve \<Rightarrow> vkv \<Rightarrow> VoteRound \<Rightarrow> bool" where
  "accsOk C s rd \<longleftrightarrow> (\<forall>p d. (p, d) \<in> nonEmptyAccs s rd \<longrightarrow>
     (\<exists>ct. ctOf C s (vote_round_id rd, p, d) = Some ct \<and> C1 ct \<noteq> 0))"

lemma ctOf_Some_iff:
  "ctOf C s (r, p, d) = Some ct \<longleftrightarrow> length r = 32 \<and> (\<exists>b. accOf s r p d = Some b \<and> UnmarshalCiphertext C b = Inr ct)"
  by (cases "accOf s r p d"; cases "UnmarshalCiphertext C (the (accOf s r p d))") (auto simp: ctOf_def okOpt_def)

lemma partialDecryptEntry_ok:
  assumes "curve_ok C" and "share \<noteq> 0" and "seeds p d \<noteq> None" and "UnmarshalCiphertext C b = Inr ct" and "C1 ct \<noteq> 0"
  shows "\<exists>e. partialDecryptEntry L C seeds share p (d, b) = Inr e \<and> partialKeyOf e = (p, d) \<and>
    UnmarshalPoint C (pd_partial_decrypt e) = Inr (Mul C (C1 ct) share) \<and>
    VerifyPartialDecryptDLEQ L C (pd_dleq_proof e) (Mul C (PallasGenerator C) share) (C1 ct) (Mul C (C1 ct) share) = Inr ()"
proof -
  from assms(3) obtain sd where sd: "seeds p d = Some sd" by blast
  obtain pf where "GeneratePartialDecryptDLEQ L C share (C1 ct) (Some sd) = Inr pf"
    "VerifyPartialDecryptDLEQ L C pf (Mul C (PallasGenerator C) share) (C1 ct) (Mul C (C1 ct) share) = Inr ()"
    using dleq_complete[OF assms(1,2,5)] by blast
  then show ?thesis using sd assms(1,4)
    by (simp add: partialDecryptEntry_def Let_def onCurve UnmarshalPoint_compress)
qed

lemma partialDecryptEntry_good:
  assumes "curve_ok C" and "share \<noteq> 0" and "\<forall>p d. seeds p d \<noteq> None" and "accsOk C s rd"
    and "p \<in> prop_id ` set (proposals rd)" and "accOf s (vote_round_id rd) p (fst db) = Some (snd db)"
  shows "\<exists>e. partialDecryptEntry L C seeds share p db = Inr e \<and> partialKeyOf e = (p, fst db) \<and> goodPartial L C s rd share e"
proof -
  obtain d b where d: "db = (d, b)" by (cases db)
  have pd: "(p, d) \<in> nonEmptyAccs s rd" using assms(5,6) d by (simp add: nonEmptyAccs_def)
  then obtain ct where ct: "ctOf C s (vote_round_id rd, p, d) = Some ct" "C1 ct \<noteq> 0"
    using assms(4) unfolding accsOk_def by blast
  have "UnmarshalCiphertext C b = Inr ct"
    using ct(1) assms(6) d by (auto simp: ctOf_Some_iff)
  from partialDecryptEntry_ok[OF assms(1,2) _ this ct(2), of seeds p d L] assms(3) obtain e where
    "partialDecryptEntry L C seeds share p (d, b) = Inr e" "partialKeyOf e = (p, d)"
    "UnmarshalPoint C (pd_partial_decrypt e) = Inr (Mul C (C1 ct) share)"
    "VerifyPartialDecryptDLEQ L C (pd_dleq_proof e) (Mul C (PallasGenerator C) share) (C1 ct) (Mul C (C1 ct) share) = Inr ()"
    by blast
  then show ?thesis using pd ct(1) by (intro exI[of _ e]) (simp add: d goodPartial_def)
qed

lemma partialDecryptEntries_ok:
  assumes "curve_ok C" and "kv_wf s" and "length (vote_round_id rd) = 32" and "range_ok rangeOrder"
    and "share \<noteq> 0" and "\<forall>p d. seeds p d \<noteq> None" and "accsOk C s rd"
  shows "\<exists>es. partialDecryptEntries L C rangeOrder seeds share rd s = (Inr es, s) \<and>
    partialKeyOf ` set es = nonEmptyAccs s rd \<and> (\<forall>e \<in> set es. goodPartial L C s rd share e)"
proof -
  let ?r = "vote_round_id rd" and ?ps = "prop_id ` set (proposals rd)"
  have "\<forall>p. \<exists>tm. GetProposalTally ?r p s = (Inr tm, s) \<and> map_of tm = accOf s ?r p \<and> distinct (map fst tm)"
    using GetProposalTally_wf[OF assms(2,3)] by blast
  then obtain tm where tm: "\<And>p. GetProposalTally ?r p s = (Inr (tm p), s)"
    "\<And>p. map_of (tm p) = accOf s ?r p" "\<And>p. distinct (map fst (tm p))" by metis
  have acc: "accOf s ?r p d = Some b \<longleftrightarrow> (d, b) \<in> set (rangeOrder (tm p))" for p d b
    using tm(3)[of p] by (simp add: range_ok_set[OF assms(4)] flip: tm(2))
  have "\<exists>e. partialDecryptEntry L C seeds share p db = Inr e \<and> partialKeyOf e = (p, fst db) \<and> goodPartial L C s rd share e"
    if "p \<in> ?ps" "db \<in> set (rangeOrder (tm p))" for p db
    by (rule partialDecryptEntry_good[OF assms(1,5-7) that(1)]) (use that(2) in \<open>simp add: acc\<close>)
  then obtain g where g: "\<And>p db. p \<in> ?ps \<Longrightarrow> db \<in> set (rangeOrder (tm p)) \<Longrightarrow>
      partialDecryptEntry L C seeds share p db = Inr (g p db) \<and> partialKeyOf (g p db) = (p, fst db) \<and>
      goodPartial L C s rd share (g p db)" by metis
  define es where "es = concat (map (\<lambda>x. map (g (prop_id x)) (rangeOrder (tm (prop_id x)))) (proposals rd))"
  have "mapR (partialDecryptEntry L C seeds share (prop_id x)) (rangeOrder (tm (prop_id x))) =
      Inr (map (g (prop_id x)) (rangeOrder (tm (prop_id x))))" if "x \<in> set (proposals rd)" for x
    by (rule mapR_total, rule g[THEN conjunct1]) (use that in auto)
  then have "mapM (\<lambda>proposal. bindM (GetProposalTally ?r (prop_id proposal)) (\<lambda>tallyMap.
       liftR (mapR (partialDecryptEntry L C seeds share (prop_id proposal)) (rangeOrder tallyMap)))) (proposals rd) s =
     (Inr (map (\<lambda>x. map (g (prop_id x)) (rangeOrder (tm (prop_id x)))) (proposals rd)), s)"
    by (intro mapM_pure) (simp add: bindM_def tm(1) liftR_def)
  then have run: "partialDecryptEntries L C rangeOrder seeds share rd s = (Inr es, s)"
    by (simp add: partialDecryptEntries_def bindM_def returnM_def es_def)
  have mem: "e \<in> set es \<longleftrightarrow> (\<exists>p \<in> ?ps. \<exists>db \<in> set (rangeOrder (tm p)). e = g p db)" for e by (auto simp: es_def)
  have good: "\<forall>e \<in> set es. goodPartial L C s rd share e"
  proof
    fix e assume "e \<in> set es"
    then obtain p db where "p \<in> ?ps" "db \<in> set (rangeOrder (tm p))" "e = g p db" unfolding mem by blast
    then show "goodPartial L C s rd share e" using g[of p db] by simp
  qed
  have "(p, d) \<in> partialKeyOf ` set es" if pd: "(p, d) \<in> nonEmptyAccs s rd" for p d
  proof -
    from pd obtain b where p: "p \<in> ?ps" and db: "(d, b) \<in> set (rangeOrder (tm p))" by (auto simp: nonEmptyAccs_def acc)
    then have "g p (d, b) \<in> set es" using mem by blast
    moreover have "partialKeyOf (g p (d, b)) = (p, d)" using g[OF p db] by simp
    ultimately show ?thesis by (intro image_eqI[of _ _ "g p (d, b)"]) simp_all
  qed
  moreover have "partialKeyOf ` set es \<subseteq> nonEmptyAccs s rd" using good by (auto simp: goodPartial_def)
  ultimately have keys: "partialKeyOf ` set es = nonEmptyAccs s rd" by (intro equalityI subrelI; blast)
  show ?thesis by (intro exI[of _ es] conjI run keys good)
qed

section \<open>Acceptance\<close>

lemma ValidateAndDecode_ok:
  assumes "kv_wf s" and "length (vote_round_id rd) = 32" and "es \<noteq> []"
    and "nonEmptyAccs s rd \<subseteq> partialKeyOf ` set es" and "\<forall>e \<in> set es. goodPartial L C s rd share e"
    and "\<forall>p d. (p, d) \<in> nonEmptyAccs s rd \<longrightarrow> ValidateEntryBounds rd p d = Inr ()"
  shows "\<exists>vs. ValidateAndDecodePartialDecryptionEntries C rd es s = (Inr vs, s)"
proof -
  let ?r = "vote_round_id rd"
  define f where "f = (\<lambda>entry :: PartialDecryptionEntry.
       bindM (liftR (wrapErr ErrInvalidField (UnmarshalPoint C (pd_partial_decrypt entry)))) (\<lambda>Di.
       bindM (liftR (ValidateEntryBounds rd (pd_proposal_id entry) (pd_vote_decision entry))) (\<lambda>_.
       bindM (GetTally ?r (pd_proposal_id entry) (pd_vote_decision entry)) (\<lambda>accBytes.
       (case accBytes of
          None \<Rightarrow> throwM ErrInvalidField
        | Some b \<Rightarrow>
            bindM (liftR (UnmarshalCiphertext C b)) (\<lambda>ct. returnM (entry, Di, ct)))))))"
  have "\<exists>v. f e s = (Inr v, s)" if e: "e \<in> set es" for e
  proof -
    from assms(5) e obtain ct where k: "partialKeyOf e \<in> nonEmptyAccs s rd"
      and ct: "ctOf C s (?r, pd_proposal_id e, pd_vote_decision e) = Some ct"
      and D: "UnmarshalPoint C (pd_partial_decrypt e) = Inr (Mul C (C1 ct) share)" unfolding goodPartial_def by blast
    from ct obtain b where "accOf s ?r (pd_proposal_id e) (pd_vote_decision e) = Some b" "UnmarshalCiphertext C b = Inr ct"
      unfolding ctOf_Some_iff by blast
    then show ?thesis using k D assms(6)
      by (simp add: f_def bindM_def liftR_def wrapErr_def GetTally_wf[OF assms(1,2)] returnM_def)
  qed
  then obtain v where "\<And>e. e \<in> set es \<Longrightarrow> f e s = (Inr (v e), s)" by metis
  then have "mapM f es s = (Inr (map v es), s)" by (rule mapM_pure)
  moreover have "ValidatePartialDecryptionCompleteness rd es s = (Inr (), s)"
    using TallyCompleteness_wf[OF assms(1,2), THEN conjunct2, of es] assms(4) by simp
  ultimately show ?thesis using assms(3)
    by (simp add: ValidateAndDecodePartialDecryptionEntries_def failIf_def thenM_def bindM_def f_def)
qed

text \<open>
  What a submission needs to be accepted, by the proposal check and by the handler: \<open>share\<close>
  is the scalar behind the verification key of the index.
\<close>

definition fittingSubmission ::
  "('x, 'h) env \<Rightarrow> ('s::field, 'p::ab_group_add) curve \<Rightarrow> 'x \<Rightarrow> ctx \<Rightarrow> vkv \<Rightarrow> VoteRound \<Rightarrow> 's \<Rightarrow>
   MsgSubmitPartialDecryption \<Rightarrow> bool" where
  "fittingSubmission E C x c s rd share msg \<longleftrightarrow>
     roundOf s (mp_vote_round_id msg) = Some rd \<and> status rd = SESSION_STATUS_TALLYING \<and> threshold rd \<noteq> 0 \<and>
     (\<exists>v. FindValidatorInRoundCeremony rd (mp_creator msg) = Some v \<and> vpk_shamir_index v = mp_validator_index msg) \<and>
     mp_validator_index msg \<notin> submitters s (mp_vote_round_id msg) \<and>
     ValidateProposerIsCreator E x c (mp_creator msg) = Inr () \<and>
     (\<exists>pts. deserializeFeldmanCommitments C (feldman_commitments rd) = Inr pts \<and>
       EvalCommitmentPolynomial C pts (uint (mp_validator_index msg)) = Inr (Mul C (PallasGenerator C) share)) \<and>
     mp_entries msg \<noteq> [] \<and> nonEmptyAccs s rd = partialKeyOf ` set (mp_entries msg) \<and>
     (\<forall>e \<in> set (mp_entries msg). goodPartial (envLib E) C s rd share e) \<and>
     (\<forall>p d. (p, d) \<in> nonEmptyAccs s rd \<longrightarrow> ValidateEntryBounds rd p d = Inr ())"

lemma fitting_decoded:
  assumes "kv_wf s" and fit: "fittingSubmission E C x c s rd share msg"
  shows "\<exists>vs. ValidateAndDecodePartialDecryptionEntries C rd (mp_entries msg) s = (Inr vs, s) \<and>
    (\<forall>(e, D, ct) \<in> set vs. VerifyPartialDecryptDLEQ (envLib E) C (pd_dleq_proof e)
       (Mul C (PallasGenerator C) share) (C1 ct) D = Inr ())"
proof -
  have r: "vote_round_id rd = mp_vote_round_id msg" "length (vote_round_id rd) = 32"
    using roundOf_wf[OF assms(1)] fit unfolding fittingSubmission_def by metis+
  have good: "\<forall>e \<in> set (mp_entries msg). goodPartial (envLib E) C s rd share e" "mp_entries msg \<noteq> []"
    "nonEmptyAccs s rd \<subseteq> partialKeyOf ` set (mp_entries msg)"
    "\<forall>p d. (p, d) \<in> nonEmptyAccs s rd \<longrightarrow> ValidateEntryBounds rd p d = Inr ()"
    using fit unfolding fittingSubmission_def by blast+
  obtain vs where vs: "ValidateAndDecodePartialDecryptionEntries C rd (mp_entries msg) s = (Inr vs, s)"
    using ValidateAndDecode_ok[OF assms(1) r(2) good(2,3,1,4)] by blast
  note dec = ValidateAndDecode_Inr[OF assms(1) r(2) vs]
  have fsts: "map fst vs = mp_entries msg" using dec by blast
  have "VerifyPartialDecryptDLEQ (envLib E) C (pd_dleq_proof e) (Mul C (PallasGenerator C) share) (C1 ct) D = Inr ()"
    if m: "(e, D, ct) \<in> set vs" for e D ct
  proof -
    have "e \<in> set (map fst vs)" using m by force
    then have "goodPartial (envLib E) C s rd share e" using good(1) fsts by simp
    then obtain ct' where g: "ctOf C s (vote_round_id rd, pd_proposal_id e, pd_vote_decision e) = Some ct'"
      "UnmarshalPoint C (pd_partial_decrypt e) = Inr (Mul C (C1 ct') share)"
      "VerifyPartialDecryptDLEQ (envLib E) C (pd_dleq_proof e) (Mul C (PallasGenerator C) share) (C1 ct') (Mul C (C1 ct') share) = Inr ()"
      unfolding goodPartial_def by blast
    have "UnmarshalPoint C (pd_partial_decrypt e) = Inr D"
      "ctOf C s (vote_round_id rd, pd_proposal_id e, pd_vote_decision e) = Some ct" using dec m by blast+
    then show ?thesis using g by simp
  qed
  then show ?thesis using vs by blast
qed

lemma partial_submission_accepted:
  assumes "kv_wf s" and fit: "fittingSubmission E C x c s rd share msg"
  shows "\<exists>s'. SubmitPartialDecryption E C x c msg s = (Inr (), s') \<and>
    partialOf s' (mp_vote_round_id msg) (mp_validator_index msg) = partialMap (mp_entries msg)"
proof -
  let ?r = "mp_vote_round_id msg" and ?i = "mp_validator_index msg"
  obtain v pts where h: "roundOf s ?r = Some rd" "status rd = SESSION_STATUS_TALLYING"
    "FindValidatorInRoundCeremony rd (mp_creator msg) = Some v" "vpk_shamir_index v = ?i" "?i \<notin> submitters s ?r"
    "ValidateProposerIsCreator E x c (mp_creator msg) = Inr ()"
    "deserializeFeldmanCommitments C (feldman_commitments rd) = Inr pts"
    "EvalCommitmentPolynomial C pts (uint ?i) = Inr (Mul C (PallasGenerator C) share)"
    using fit unfolding fittingSubmission_def by blast
  have r: "length ?r = 32" using roundOf_wf[OF assms(1) h(1)] by simp
  have get: "GetVoteRound ?r s = (Inr rd, s)" using h(1) r by (simp add: GetVoteRound_Inr_iff)
  have has: "HasPartialDecryptionsFromValidator ?r ?i s = (Inr False, s)"
    using HasPartialDecryptionsFromValidator_wf[OF assms(1) r, of ?i] h(5) by simp
  obtain vs where vs: "ValidateAndDecodePartialDecryptionEntries C rd (mp_entries msg) s = (Inr vs, s)"
    "\<forall>(e, D, ct) \<in> set vs. VerifyPartialDecryptDLEQ (envLib E) C (pd_dleq_proof e)
       (Mul C (PallasGenerator C) share) (C1 ct) D = Inr ()" using fitting_decoded[OF assms] by blast
  then have ver: "forM vs (\<lambda>(entry, Di, ct). liftR (wrapErr ErrInvalidField
      (VerifyPartialDecryptDLEQ (envLib E) C (pd_dleq_proof entry) (Mul C (PallasGenerator C) share) (C1 ct) Di))) s = (Inr (), s)"
    unfolding forM_verify_Inr by blast
  obtain s' where s': "SetPartialDecryptions ?r ?i (mp_entries msg) s = (Inr (), s')"
    "partialOf s' ?r ?i = partialOf s ?r ?i ++ partialMap (mp_entries msg)"
    using SetPartialDecryptions_ok[OF r assms(1), of ?i "mp_entries msg"] r by auto
  have "partialOf s ?r ?i = Map.empty" using h(5) by (auto simp: submitters_def)
  moreover have "SubmitPartialDecryption E C x c msg s = (Inr (), s')"
    using get has vs(1) ver s'(1) h(2-4,6-8)
    by (simp add: SubmitPartialDecryption_def bindM_def thenM_def liftR_def failIf_def wrapErr_def)
  ultimately show ?thesis using s'(2) by simp
qed

lemma partial_tx_accepted:
  assumes "proto_ok P" and "kv_wf s" and fit: "fittingSubmission E C x c s rd share msg"
    and "EncodeCeremonyTx P (SubmitPartialDecryptionMsg msg) TagSubmitPartialDecryption = Inr tx" and "2 \<le> length tx"
  shows "validateInjectedTx E C P x c tx s = (Inr (), s)"
proof -
  let ?r = "mp_vote_round_id msg" and ?i = "mp_validator_index msg"
  obtain v where h: "roundOf s ?r = Some rd" "status rd = SESSION_STATUS_TALLYING" "threshold rd \<noteq> 0"
    "FindValidatorInRoundCeremony rd (mp_creator msg) = Some v" "vpk_shamir_index v = ?i" "?i \<notin> submitters s ?r"
    "ValidateProposerIsCreator E x c (mp_creator msg) = Inr ()"
    using fit unfolding fittingSubmission_def by blast
  have r: "length ?r = 32" using roundOf_wf[OF assms(2) h(1)] by simp
  have "GetVoteRound ?r s = (Inr rd, s)" using h(1) r by (simp add: GetVoteRound_Inr_iff)
  moreover have "HasPartialDecryptionsFromValidator ?r ?i s = (Inr False, s)"
    using HasPartialDecryptionsFromValidator_wf[OF assms(2) r, of ?i] h(6) by simp
  moreover obtain vs where "ValidateAndDecodePartialDecryptionEntries C rd (mp_entries msg) s = (Inr vs, s)"
    using fitting_decoded[OF assms(2) fit] by blast
  moreover have "hd tx = TagSubmitPartialDecryption" by (rule EncodeCeremonyTx_hd[OF assms(4)])
  moreover have "DecodeCeremonyTx P tx = Inr (hd tx, SubmitPartialDecryptionMsg msg)"
    by (rule DecodeCeremonyTx_Encode[OF assms(1) _ assms(5)]) (simp add: assms(4))
  ultimately show ?thesis using h(2-5,7) assms(5)
    by (simp add: validateInjectedTx_def validateInjectedPartialDecrypt_def ValidatePartialDecryptionEntries_def
        bindM_def thenM_def liftR_def failIf_def returnM_def wrapErr_def tag_defs)
qed

lemma kvN_reads: "m (n_kv n) = (Inr a, n_kv n) \<Longrightarrow> kvN m n = (Inr a, n)"
  by (simp add: kvN_def)

text \<open>The injector reaches its end: the share survived the cleaning.\<close>

lemma partialInjector_run:
  assumes "curve_ok C" and "kv_wf (n_kv n)" and "dir \<noteq> []" and "resolveProposer E x pa = Inr a"
    and "filter (\<lambda>rd. status rd = SESSION_STATUS_TALLYING) (roundsOf (n_kv n)) = rd # rest"
    and "FindValidatorInRoundCeremony rd a = Some v" and "vpk_shamir_index v \<notin> submitters (n_kv n) (vote_round_id rd)"
    and "share \<noteq> 0" and "case map_of (n_shareCache n) (hexEncode (vote_round_id rd)) of
      None \<Rightarrow> map_of (n_files n) (sharePathForRound (vote_round_id rd)) = Some (ScalarBytes C share) | Some k \<Rightarrow> k = share"
    and "partialDecryptEntries (envLib E) C rangeOrder seeds share rd (n_kv n) = (Inr es, n_kv n)" and "es \<noteq> []"
    and "EncodeCeremonyTx P (SubmitPartialDecryptionMsg \<lparr>mp_vote_round_id = vote_round_id rd, mp_creator = a,
      mp_validator_index = vpk_shamir_index v, mp_entries = es\<rparr>) TagSubmitPartialDecryption = Inr tx"
  shows "\<exists>n'. PartialDecryptPrepareProposalInjector E C P F rangeOrder dir seeds x pa txs n = (Inr (tx # txs), n') \<and>
    n_kv n' = n_kv n"
proof -
  let ?s = "n_kv n" and ?r = "vote_round_id rd"
  have first: "IterateTallyingRounds (\<lambda>rd _. (True, Some rd)) None ?s = (Inr (Some rd), ?s)"
    by (simp add: IterateTallyingRounds_def iterateRounds_wf[OF assms(2)] assms(5))
  note rd = first_tallying[OF assms(2) first]
  then have len: "length ?r = 32" "\<not> overIn ?s ?r" using roundOf_wf[OF assms(2)] by (auto simp: overIn_def)
  have has: "HasPartialDecryptionsFromValidator ?r (vpk_shamir_index v) ?s = (Inr False, ?s)"
    using HasPartialDecryptionsFromValidator_wf[OF assms(2) len(1)] assms(7) by simp
  define tail where "tail = orReturn (kvN (IterateTallyingRounds (\<lambda>rd _. (True, Some rd)) None)) txs (\<lambda>tallyRound.
        (case tallyRound of
           None \<Rightarrow> returnM txs
         | Some rd \<Rightarrow>
             (case FindValidatorInRoundCeremony rd a of
                None \<Rightarrow> returnM txs
              | Some ceremonyVal \<Rightarrow>
                  let validatorIndex = vpk_shamir_index ceremonyVal in
                  orReturn (kvN (HasPartialDecryptionsFromValidator (vote_round_id rd) validatorIndex)) txs (\<lambda>has.
                  if has then returnM txs
                  else
                    orReturn (loadShareForRoundCached C dir (vote_round_id rd)) txs (\<lambda>share.
                    orReturn (kvN (partialDecryptEntries (envLib E) C rangeOrder seeds share rd)) txs (\<lambda>entries.
                    if length entries = 0 then returnM txs
                    else
                      orReturn (liftR (EncodeCeremonyTx P (SubmitPartialDecryptionMsg
                        \<lparr>mp_vote_round_id = vote_round_id rd, mp_creator = a,
                         mp_validator_index = validatorIndex, mp_entries = entries\<rparr>)
                        TagSubmitPartialDecryption)) txs (\<lambda>txBytes.
                      returnM (txBytes # txs))))))))"
  obtain n1 where n1: "keepsLive n n1" "thenM (evictShares F dir) (thenM (cleanObsoleteCoeffFiles F dir)
      (thenM (cleanOrphanedShareFiles F dir) tail)) n = tail n1" using cleaning_keeps[OF assms(2)] by blast
  then have kv: "n_kv n1 = ?s" by (simp add: keepsLive_def)
  have "case map_of (n_shareCache n1) (hexEncode ?r) of
      None \<Rightarrow> map_of (n_files n1) (sharePathForRound ?r) = Some (ScalarBytes C share) | Some k \<Rightarrow> k = share"
    using n1(1) len(2) assms(9) by (auto simp: keepsLive_def split: option.splits)
  then obtain n2 where n2: "loadShareForRoundCached C dir ?r n1 = (Inr share, n2)" "n_kv n2 = ?s"
    using loadShareCached_ok[OF assms(1,3,8)] kv by metis
  have "kvN (IterateTallyingRounds (\<lambda>rd _. (True, Some rd)) None) n1 = (Inr (Some rd), n1)"
    "kvN (HasPartialDecryptionsFromValidator ?r (vpk_shamir_index v)) n1 = (Inr False, n1)"
    "kvN (partialDecryptEntries (envLib E) C rangeOrder seeds share rd) n2 = (Inr es, n2)"
    using first has assms(10) kv n2(2) by (intro kvN_reads; simp)+
  then have "tail n1 = (Inr (tx # txs), n2)"
    using n2(1) assms(6,11,12) by (simp add: tail_def orReturn_def liftR_def returnM_def Let_def)
  moreover have "PartialDecryptPrepareProposalInjector E C P F rangeOrder dir seeds x pa txs n = tail n1"
    using n1(2) assms(3,4) by (simp add: PartialDecryptPrepareProposalInjector_def orReturn_def liftR_def tail_def)
  ultimately show ?thesis using n2(2) by auto
qed

text \<open>
  C8. Honest partial decryptions. Let the first tallying round have accumulators for options
  of its proposals only, let the proposer be a ceremony validator that has not submitted yet,
  and let its share, cached or on disk, be the scalar behind its index's verification key. Then
  the cleaning that comes first keeps the share, and the injected transaction is accepted
  by the other validators' proposal check and by the handler. Every stored entry is the
  share's multiple of its accumulator's first component.
\<close>

theorem honest_partial_decryption_accepted:
  fixes C :: "('s::field, 'p::ab_group_add) curve"
  assumes "curve_ok C" and "proto_ok P" and "kv_wf (n_kv n)" and "range_ok rangeOrder" and "\<forall>p d. seeds p d \<noteq> None"
    and "dir \<noteq> []" and "filter (\<lambda>rd. status rd = SESSION_STATUS_TALLYING) (roundsOf (n_kv n)) = rd # rest"
    and "threshold rd \<noteq> 0" and "accsOk C (n_kv n) rd" and "nonEmptyAccs (n_kv n) rd \<noteq> {}"
    and "\<forall>p d. (p, d) \<in> nonEmptyAccs (n_kv n) rd \<longrightarrow> ValidateEntryBounds rd p d = Inr ()"
    and "isProposer E x c a" and "\<not> is_check_tx c" and "\<not> is_recheck_tx c"
    and "FindValidatorInRoundCeremony rd a = Some v" and "vpk_shamir_index v \<notin> submitters (n_kv n) (vote_round_id rd)"
    and "deserializeFeldmanCommitments C (feldman_commitments rd) = Inr pts" and "share \<noteq> 0"
    and "EvalCommitmentPolynomial C pts (uint (vpk_shamir_index v)) = Inr (Mul C (PallasGenerator C) share)"
    and "case map_of (n_shareCache n) (hexEncode (vote_round_id rd)) of
      None \<Rightarrow> map_of (n_files n) (sharePathForRound (vote_round_id rd)) = Some (ScalarBytes C share) | Some k \<Rightarrow> k = share"
  shows "\<exists>es s'. SubmitPartialDecryption E C x c \<lparr>mp_vote_round_id = vote_round_id rd, mp_creator = a,
      mp_validator_index = vpk_shamir_index v, mp_entries = es\<rparr> (n_kv n) = (Inr (), s') \<and>
    dom (partialOf s' (vote_round_id rd) (vpk_shamir_index v)) = nonEmptyAccs (n_kv n) rd \<and>
    (\<forall>p d e. partialOf s' (vote_round_id rd) (vpk_shamir_index v) (p, d) = Some e \<longrightarrow>
      (\<exists>ct. ctOf C (n_kv n) (vote_round_id rd, p, d) = Some ct \<and>
        UnmarshalPoint C (pd_partial_decrypt e) = Inr (Mul C (C1 ct) share))) \<and>
    (\<forall>tx. EncodeCeremonyTx P (SubmitPartialDecryptionMsg \<lparr>mp_vote_round_id = vote_round_id rd, mp_creator = a,
        mp_validator_index = vpk_shamir_index v, mp_entries = es\<rparr>) TagSubmitPartialDecryption = Inr tx \<and> 2 \<le> length tx \<longrightarrow>
      validateInjectedTx E C P x c tx (n_kv n) = (Inr (), n_kv n) \<and>
      (\<exists>n'. PartialDecryptPrepareProposalInjector E C P F rangeOrder dir seeds x (proposer_address c) txs n =
        (Inr (tx # txs), n') \<and> n_kv n' = n_kv n))"
proof -
  let ?s = "n_kv n" and ?r = "vote_round_id rd" and ?i = "vpk_shamir_index v"
  have "rd \<in> set (filter (\<lambda>rd. status rd = SESSION_STATUS_TALLYING) (roundsOf ?s))" by (simp add: assms(7))
  then have rd: "roundOf ?s ?r = Some rd" "status rd = SESSION_STATUS_TALLYING" "length ?r = 32"
    using roundOf_wf[OF assms(3)] by (auto simp: mem_roundsOf_iff[OF assms(3)])
  obtain es where es: "partialDecryptEntries (envLib E) C rangeOrder seeds share rd ?s = (Inr es, ?s)"
    "partialKeyOf ` set es = nonEmptyAccs ?s rd" "\<forall>e \<in> set es. goodPartial (envLib E) C ?s rd share e"
    using partialDecryptEntries_ok[OF assms(1,3) rd(3) assms(4,18,5,9)] by blast
  define msg where "msg = \<lparr>mp_vote_round_id = ?r, mp_creator = a, mp_validator_index = ?i, mp_entries = es\<rparr>"
  have ne: "es \<noteq> []" using es(2) assms(10) by auto
  have "ValidateProposerIsCreator E x c a = Inr ()" using assms(12-14) by (simp add: ValidateProposerIsCreator_Inr_iff)
  then have fit: "fittingSubmission E C x c ?s rd share msg"
    using rd assms(8,11,15-17,19) es ne by (auto simp: fittingSubmission_def msg_def)
  obtain s' where s': "SubmitPartialDecryption E C x c msg ?s = (Inr (), s')"
    "partialOf s' ?r ?i = partialMap es"
    using partial_submission_accepted[OF assms(3) fit] unfolding msg_def by auto
  have stored: "\<exists>ct. ctOf C ?s (?r, p, d) = Some ct \<and> UnmarshalPoint C (pd_partial_decrypt e) = Inr (Mul C (C1 ct) share)"
    if "partialOf s' ?r ?i (p, d) = Some e" for p d e
  proof -
    have "e \<in> set es" "partialKeyOf e = (p, d)" using that s'(2) by (auto simp: partialMap_def dest!: map_of_SomeD)
    then show ?thesis using es(3) unfolding goodPartial_def by fastforce
  qed
  have resolve: "resolveProposer E x (proposer_address c) = Inr a" using assms(12) by (auto simp: isProposer_def resolveProposer_def)
  note run = partialInjector_run[OF assms(1,3,6) resolve assms(7,15,16,18,20) es(1) ne, folded msg_def]
  have "dom (partialOf s' ?r ?i) = nonEmptyAccs ?s rd"
    unfolding s'(2) es(2)[symmetric] by (auto simp: partialMap_def dom_map_of_conv_image_fst image_iff)
  then show ?thesis
    using s'(1) stored run partial_tx_accepted[OF assms(2,3) fit] unfolding msg_def[symmetric]
    by (intro exI[of _ es] exI[of _ s']) (simp add: msg_def)
qed

text \<open>The sample round, with the only validator's share on disk.\<close>

definition shareNode :: "f7 node" where
  "shareNode = \<lparr>n_kv = tallyStore, n_files = [(sharePathForRound sampleRoundID, enc7 F2)], n_shareCache = []\<rparr>"

lemma tallyStore_accs: "nonEmptyAccs tallyStore sampleTallying = {(1, 0)}"
proof -
  have "accOf tallyStore sampleRoundID p d \<noteq> None \<longleftrightarrow> p = 1 \<and> d = 0" for p d
    using tallyKey_inject[of sampleRoundID sampleRoundID p d 1 0]
    by (auto simp: accOf_def tallyStore_def view_def kv_get_def okOpt_def sampleRoundID_def)
      (simp_all add: tallyKey_def)
  then show ?thesis by (auto simp: nonEmptyAccs_def sampleTallying_def sampleRound_def)
qed

lemma tallyStore_submitters: "submitters tallyStore sampleRoundID = {}"
  by (auto simp: submitters_def partialOf_def tallyStore_def view_def kv_get_def partialKey_def tallyKey_def)

theorem honest_partial_decryption_accepted_witness:
  "\<exists>es s'. SubmitPartialDecryption sampleEnv curve7 () sampleCtx \<lparr>mp_vote_round_id = sampleRoundID, mp_creator = [1],
      mp_validator_index = 1, mp_entries = es\<rparr> tallyStore = (Inr (), s') \<and>
    dom (partialOf s' sampleRoundID 1) = {(1, 0)}"
proof -
  let ?v = "\<lparr>vpk_validator_address = [1], vpk_pallas_pk = enc7 F3, vpk_shamir_index = 1\<rparr>"
  have kv: "n_kv shareNode = tallyStore" by (simp add: shareNode_def)
  have ct: "ctOf curve7 tallyStore (sampleRoundID, 1, 0) = Some \<lparr>C1 = F3, C2 = F1\<rparr>" by code_simp
  have r: "vote_round_id sampleTallying = sampleRoundID" "threshold sampleTallying \<noteq> 0"
    by (simp_all add: sampleTallying_def sampleRound_def)
  have accs: "accsOk curve7 (n_kv shareNode) sampleTallying" "nonEmptyAccs (n_kv shareNode) sampleTallying \<noteq> {}"
    using ct by (simp_all add: accsOk_def kv tallyStore_accs r zero_f7_def)
  have "ValidateEntryBounds sampleTallying 1 0 = Inr ()" by code_simp
  then have b: "\<forall>p d. (p, d) \<in> nonEmptyAccs (n_kv shareNode) sampleTallying \<longrightarrow> ValidateEntryBounds sampleTallying p d = Inr ()"
    by (simp add: kv tallyStore_accs)
  have "roundsOf tallyStore = [sampleTallying]" by code_simp
  then have rounds: "filter (\<lambda>rd. status rd = SESSION_STATUS_TALLYING) (roundsOf (n_kv shareNode)) = sampleTallying # []"
    by (simp add: kv sampleTallying_def sampleRound_def)
  have wf: "kv_wf (n_kv shareNode)" by (simp add: kv tallyStore_wf)
  have pr: "isProposer sampleEnv () sampleCtx [1]" "\<not> is_check_tx sampleCtx" "\<not> is_recheck_tx sampleCtx"
    by (simp_all add: isProposer_def sampleEnv_def sampleStaking_def sampleCtx_def)
  have v: "FindValidatorInRoundCeremony sampleTallying [1] = Some ?v" by code_simp
  have sub: "vpk_shamir_index ?v \<notin> submitters (n_kv shareNode) (vote_round_id sampleTallying)"
    by (simp add: kv r tallyStore_submitters)
  have key: "deserializeFeldmanCommitments curve7 (feldman_commitments sampleTallying) = Inr [F6]"
    "EvalCommitmentPolynomial curve7 [F6] (uint (vpk_shamir_index ?v)) = Inr (Mul curve7 (PallasGenerator curve7) F2)" by code_simp+
  have disk: "case map_of (n_shareCache shareNode) (hexEncode (vote_round_id sampleTallying)) of
      None \<Rightarrow> map_of (n_files shareNode) (sharePathForRound (vote_round_id sampleTallying)) = Some (ScalarBytes curve7 F2)
    | Some k \<Rightarrow> k = F2" by (simp add: shareNode_def r curve7_def)
  have misc: "range_ok (\<lambda>m. m)" "\<forall>p d. (\<lambda>_ _. Some [1]) (p :: u32) (d :: u32) \<noteq> (None :: bytes option)" "[1] \<noteq> ([] :: gostring)" "F2 \<noteq> 0"
    by (simp_all add: range_ok_def zero_f7_def)
  from honest_partial_decryption_accepted[OF curve7_ok sampleProto_ok wf misc(1,2,3) rounds r(2) accs b pr v sub key(1) misc(4)
      key(2) disk, of allFiles "[]"]
  obtain es s' where "SubmitPartialDecryption sampleEnv curve7 () sampleCtx \<lparr>mp_vote_round_id = sampleRoundID, mp_creator = [1],
      mp_validator_index = vpk_shamir_index ?v, mp_entries = es\<rparr> tallyStore = (Inr (), s')"
    "dom (partialOf s' sampleRoundID (vpk_shamir_index ?v)) = {(1, 0)}"
    unfolding kv r tallyStore_accs by (elim exE conjE)
  then show ?thesis by auto
qed

end
