(* ===== verification/Share_Ingress.thy ===== *)
theory Share_Ingress
  imports Share_Processor Queue_Report Partial_Delivery
begin

text \<open>
  How a share comes into the helper: the HTTP handlers of \<^verbatim>\<open>src/internal/helper/api.go\<close> and
  the time-out receipt of \<^verbatim>\<open>src/internal/restingress/timeout.go\<close>. What the handlers ask (the
  chain, the commitment tree, the hash and the payload validator of the proof library, the
  field arithmetic of the curve library) is the record \<open>apiEnv\<close>: a getter that is \<^verbatim>\<open>nil\<close> is
  \<open>None\<close>, one that returns \<^verbatim>\<open>nil\<close> is \<open>Some None\<close>. A request carries what its body decodes to.
  Metrics, traces and logs are left out.

  The lemmas show that an accepted share is in the queue in a form the worker can decode, that
  it passed every configured check, and that any other answer leaves the queue alone.
\<close>

section \<open>Requests and answers\<close>

datatype bodyErr = BodyTimeout | BodyInvalid

datatype bodyEnd = AtEOF | AnotherObject | EndErr bodyErr

record shareRequest =
  rq_token :: gostring
  rq_attempts :: "gostring list"
  rq_body :: "bodyErr + SharePayload"
  rq_bodyEnd :: bodyEnd

datatype submitReply = HttpError int | Queued | Duplicate | Crashed

datatype ingressErr = InvalidSharePayload | InvalidCommitment | InvalidRoundChoice | UnknownRound | RoundNotFound
  | TxNotReady | ValidationUnavailable | OtherIngress | IngressPanic

record ('s, 'p) apiEnv =
  a_ingressAllowed :: "bool option"
  a_hasStore :: bool
  a_token :: gostring
  a_exposeQueueStatus :: "bool option"
  a_exposeQueueSummary :: "bool option"
  a_queue :: queueEnv
  a_fetch :: fetcher
  a_curve :: "('s, 'p) curve"
  a_canonicalFp :: "bytes \<Rightarrow> bool"
  a_payloadValidator :: "(bytes \<Rightarrow> bytes list \<Rightarrow> bytes \<Rightarrow> bytes \<Rightarrow> bytes \<Rightarrow> u32 \<Rightarrow> bool option) option option"
  a_roundStatus :: "(gostring \<Rightarrow> ingressErr + bool) option option"
  a_choiceValidator :: "(gostring \<Rightarrow> u32 \<Rightarrow> u32 \<Rightarrow> ingressErr + unit) option option"
  a_vcHash :: "(bytes \<Rightarrow> bytes \<Rightarrow> u32 \<Rightarrow> u32 \<Rightarrow> bytes option) option option"
  a_tree :: "(bytes \<Rightarrow> u64 \<Rightarrow> bytes option option) option option"
  a_shareNullifier :: "(gostring \<Rightarrow> bytes \<Rightarrow> bool option) option option"

section \<open>The fields of a payload\<close>

definition VoteCommitmentShareCount :: nat where "VoteCommitmentShareCount = 16"
definition MaxShareIndex :: nat where "MaxShareIndex = VoteCommitmentShareCount - 1"
definition MaxTreePosition :: u64 where "MaxTreePosition = 2 ^ 32 - 1"

definition validateB64Field :: "gostring \<Rightarrow> nat \<Rightarrow> bool" where
  "validateB64Field value n \<longleftrightarrow> (case base64Decode value of None \<Rightarrow> False | Some b \<Rightarrow> length b = n)"

definition validateCanonicalB64Field :: "('s, 'p) apiEnv \<Rightarrow> gostring \<Rightarrow> bool" where
  "validateCanonicalB64Field A value \<longleftrightarrow>
     (case decodeBase64Array32 value of None \<Rightarrow> False | Some b \<Rightarrow> a_canonicalFp A b)"

text \<open>\<open>None\<close> is an error; the payload comes back with its round id in lower case.\<close>

definition validatePayload :: "('s, 'p::ab_group_add) apiEnv \<Rightarrow> SharePayload \<Rightarrow> SharePayload option" where
  "validatePayload A p =
     (if \<not> validateB64Field (sp_SharesHash p) 32 then None
      else if \<not> validateCanonicalB64Field A (sp_SharesHash p) then None
      else if \<not> validateB64Field (es_C1 (sp_EncShare p)) 32 then None
      else if \<not> validateB64Field (es_C2 (sp_EncShare p)) 32 then None
      else
        let c1 = (case base64Decode (es_C1 (sp_EncShare p)) of None \<Rightarrow> [] | Some b \<Rightarrow> b);
            c2 = (case base64Decode (es_C2 (sp_EncShare p)) of None \<Rightarrow> [] | Some b \<Rightarrow> b) in
        (case UnmarshalCiphertext (a_curve A) (c1 @ c2) of
           Inl _ \<Rightarrow> None
         | Inr ct \<Rightarrow>
             if C1 ct = 0 \<or> C2 ct = 0 then None
             else if unat (es_ShareIndex (sp_EncShare p)) > MaxShareIndex then None
             else if unat (sp_VoteDecision p) \<ge> MaxVoteOptions then None
             else if sp_ProposalID p < MinProposalID \<or> unat (sp_ProposalID p) > MaxProposals then None
             else if sp_TreePosition p > MaxTreePosition then None
             else (case hexDecode (sp_VoteRoundID p) of
                None \<Rightarrow> None
              | Some roundBytes \<Rightarrow>
                  if length roundBytes \<noteq> 32 then None
                  else if \<not> a_canonicalFp A roundBytes then None
                  else if length (sp_ShareComms p) \<noteq> VoteCommitmentShareCount then None
                  else if \<not> list_all (\<lambda>c. validateB64Field c 32 \<and> validateCanonicalB64Field A c) (sp_ShareComms p) then None
                  else if \<not> validateB64Field (sp_PrimaryBlind p) 32 then None
                  else if \<not> validateCanonicalB64Field A (sp_PrimaryBlind p) then None
                  else Some (p\<lparr>sp_VoteRoundID := hexEncode roundBytes\<rparr>))))"

section \<open>The checks against the chain\<close>

text \<open>
  The commitments go into an array of 16: missing ones stay zero, and writing a seventeenth
  panics.
\<close>

definition checkPayloadConsistency ::
  "SharePayload \<Rightarrow> (bytes \<Rightarrow> bytes list \<Rightarrow> bytes \<Rightarrow> bytes \<Rightarrow> bytes \<Rightarrow> u32 \<Rightarrow> bool option) option \<Rightarrow> ingressErr + unit" where
  "checkPayloadConsistency p validator =
     (case validator of
        None \<Rightarrow> Inl ValidationUnavailable
      | Some validator \<Rightarrow>
          (case decodeBase64Array32 (sp_SharesHash p) of None \<Rightarrow> Inl OtherIngress | Some sharesHash \<Rightarrow>
           case decodeBase64Array32 (sp_PrimaryBlind p) of None \<Rightarrow> Inl OtherIngress | Some primaryBlind \<Rightarrow>
           case decodeBase64Array32 (es_C1 (sp_EncShare p)) of None \<Rightarrow> Inl OtherIngress | Some encC1 \<Rightarrow>
           case decodeBase64Array32 (es_C2 (sp_EncShare p)) of None \<Rightarrow> Inl OtherIngress | Some encC2 \<Rightarrow>
           case decodeComms (take VoteCommitmentShareCount (sp_ShareComms p)) of None \<Rightarrow> Inl OtherIngress | Some comms \<Rightarrow>
           if length (sp_ShareComms p) > VoteCommitmentShareCount then Inl IngressPanic
           else
             let shareComms = comms @ replicate (VoteCommitmentShareCount - length comms) (replicate 32 0) in
             (case validator sharesHash shareComms primaryBlind encC1 encC2 (es_ShareIndex (sp_EncShare p)) of
                None \<Rightarrow> Inl OtherIngress
              | Some valid \<Rightarrow> if \<not> valid then Inl InvalidSharePayload else Inr ())))"

definition validatePayloadConsistency :: "('s, 'p) apiEnv \<Rightarrow> SharePayload \<Rightarrow> ingressErr + unit" where
  "validatePayloadConsistency A p =
     (case a_payloadValidator A of
        None \<Rightarrow> Inr ()
      | Some None \<Rightarrow> Inl ValidationUnavailable
      | Some (Some validator) \<Rightarrow> checkPayloadConsistency p (Some validator))"

definition validateShareChoice :: "('s, 'p) apiEnv \<Rightarrow> SharePayload \<Rightarrow> ingressErr + unit" where
  "validateShareChoice A p =
     (case a_choiceValidator A of
        None \<Rightarrow> Inr ()
      | Some None \<Rightarrow> Inl ValidationUnavailable
      | Some (Some validator) \<Rightarrow> validator (sp_VoteRoundID p) (sp_ProposalID p) (sp_VoteDecision p))"

definition verifyCommitment :: "('s, 'p) apiEnv \<Rightarrow> SharePayload \<Rightarrow> ingressErr + unit" where
  "verifyCommitment A p =
     (case (a_vcHash A, a_tree A) of
        (None, None) \<Rightarrow> Inr ()
      | (None, Some _) \<Rightarrow> Inl ValidationUnavailable
      | (Some _, None) \<Rightarrow> Inl ValidationUnavailable
      | (Some None, Some _) \<Rightarrow> Inl ValidationUnavailable
      | (Some (Some _), Some None) \<Rightarrow> Inl ValidationUnavailable
      | (Some (Some vcHash), Some (Some leafAt)) \<Rightarrow>
          (case hexDecode (sp_VoteRoundID p) of None \<Rightarrow> Inl OtherIngress | Some roundBytes \<Rightarrow>
           case base64Decode (sp_SharesHash p) of None \<Rightarrow> Inl OtherIngress | Some shBytes \<Rightarrow>
           case vcHash (write32 roundBytes) (write32 shBytes) (sp_ProposalID p) (sp_VoteDecision p) of
             None \<Rightarrow> Inl OtherIngress
           | Some computed \<Rightarrow>
           case leafAt roundBytes (sp_TreePosition p) of
             None \<Rightarrow> Inl OtherIngress
           | Some None \<Rightarrow> Inl InvalidCommitment
           | Some (Some onChain) \<Rightarrow> if computed \<noteq> onChain then Inl InvalidCommitment else Inr ()))"

section \<open>Submission\<close>

definition authorizeSubmit :: "('s, 'p) apiEnv \<Rightarrow> gostring \<Rightarrow> bool" where
  "authorizeSubmit A provided \<longleftrightarrow> a_token A = [] \<or> provided = a_token A"

definition ensureIngressAllowed :: "('s, 'p) apiEnv \<Rightarrow> bool" where
  "ensureIngressAllowed A \<longleftrightarrow> a_ingressAllowed A = None \<or> a_ingressAllowed A = Some True"

definition WriteTimeout :: "gostring list \<Rightarrow> bodyErr \<Rightarrow> bool" where
  "WriteTimeout tokens err \<longleftrightarrow> err = BodyTimeout \<and> length tokens = 1 \<and> length (hd tokens) = 64 \<and>
     (case hexDecode (hd tokens) of None \<Rightarrow> False | Some d \<Rightarrow> hexEncode d = hd tokens)"

definition bodyReply :: "shareRequest \<Rightarrow> bodyErr \<Rightarrow> submitReply" where
  "bodyReply req err = (if WriteTimeout (rq_attempts req) err then HttpError 408 else HttpError 400)"

text \<open>The answers to the errors of the four checks.\<close>

definition consistencyReply :: "ingressErr \<Rightarrow> submitReply" where
  "consistencyReply e = (if e = IngressPanic then Crashed else if e = InvalidSharePayload then HttpError 400
     else if e = ValidationUnavailable then HttpError 503 else HttpError 500)"

definition statusReply :: "ingressErr \<Rightarrow> submitReply" where
  "statusReply e = (if e = IngressPanic then Crashed else if e = UnknownRound \<or> e = RoundNotFound then HttpError 400
     else if e = TxNotReady then HttpError 503 else HttpError 500)"

definition choiceReply :: "ingressErr \<Rightarrow> submitReply" where
  "choiceReply e = (if e = IngressPanic then Crashed
     else if e = InvalidRoundChoice \<or> e = UnknownRound \<or> e = RoundNotFound then HttpError 400
     else if e = ValidationUnavailable then HttpError 503 else HttpError 500)"

definition commitmentReply :: "ingressErr \<Rightarrow> submitReply" where
  "commitmentReply e = (if e = IngressPanic then Crashed else if e = InvalidCommitment then HttpError 400
     else if e = ValidationUnavailable then HttpError 503 else HttpError 500)"

definition checkRoundStatus :: "('s, 'p) apiEnv \<Rightarrow> SharePayload \<Rightarrow> submitReply option" where
  "checkRoundStatus A p =
     (case a_roundStatus A of
        None \<Rightarrow> None
      | Some None \<Rightarrow> Some (HttpError 503)
      | Some (Some checker) \<Rightarrow>
          (case checker (sp_VoteRoundID p) of
             Inl e \<Rightarrow> Some (statusReply e)
           | Inr active \<Rightarrow> if \<not> active then Some (HttpError 409) else None))"

definition enqueueReply :: "queueErr + EnqueueResult \<Rightarrow> submitReply" where
  "enqueueReply result =
     (case result of
        Inl e \<Rightarrow> if e = ErrUnknownRound \<or> e = ErrInvalidSubmitAt then HttpError 400 else HttpError 500
      | Inr EnqueueConflict \<Rightarrow> HttpError 409
      | Inr EnqueueDuplicate \<Rightarrow> Duplicate
      | Inr EnqueueInserted \<Rightarrow> Queued)"

definition handleSubmitShare :: "('s, 'p::ab_group_add) apiEnv \<Rightarrow> database \<Rightarrow> time \<Rightarrow> shareRequest \<Rightarrow> shareStore \<Rightarrow>
    submitReply \<times> shareStore" where
  "handleSubmitShare A db now req st =
     (if \<not> ensureIngressAllowed A then (HttpError 503, st)
      else if \<not> a_hasStore A then (HttpError 503, st)
      else if \<not> authorizeSubmit A (rq_token req) then (HttpError 401, st)
      else (case rq_body req of
         Inl e \<Rightarrow> (bodyReply req e, st)
       | Inr payload \<Rightarrow>
      (case rq_bodyEnd req of
         AnotherObject \<Rightarrow> (HttpError 400, st)
       | EndErr e \<Rightarrow> (bodyReply req e, st)
       | AtEOF \<Rightarrow>
      (case validatePayload A payload of
         None \<Rightarrow> (HttpError 400, st)
       | Some p \<Rightarrow>
      (case validatePayloadConsistency A p of
         Inl e \<Rightarrow> (consistencyReply e, st)
       | Inr _ \<Rightarrow>
      (case checkRoundStatus A p of
         Some reply \<Rightarrow> (reply, st)
       | None \<Rightarrow>
      (case validateShareChoice A p of
         Inl e \<Rightarrow> (choiceReply e, st)
       | Inr _ \<Rightarrow>
      (case verifyCommitment A p of
         Inl e \<Rightarrow> (commitmentReply e, st)
       | Inr _ \<Rightarrow>
      (case Enqueue (a_queue A) (a_fetch A) db now p st of
         (result, st) \<Rightarrow> (enqueueReply result, st))))))))))"

section \<open>Status\<close>

text \<open>
  \<^verbatim>\<open>strings.ToLower\<close> on letters of ASCII; a string with any other letter is refused as an id
  whatever its lower case is.
\<close>

definition ToLower :: "gostring \<Rightarrow> gostring" where
  "ToLower s = map (\<lambda>c. if 65 \<le> c \<and> c \<le> 90 then c + 32 else c) s"

datatype 'a reply = ErrorReply int | JSONReply 'a | PanicReply

definition handleShareStatus :: "('s, 'p) apiEnv \<Rightarrow> gostring \<Rightarrow> gostring \<Rightarrow> gostring \<Rightarrow> gostring reply" where
  "handleShareStatus A token roundVar nullifierVar =
     (if \<not> ensureIngressAllowed A then ErrorReply 503
      else if \<not> a_hasStore A then ErrorReply 503
      else if \<not> authorizeSubmit A token then ErrorReply 401
      else
        let roundID = ToLower (TrimSpace roundVar); nullifierHex = ToLower (TrimSpace nullifierVar) in
        if length roundID \<noteq> 64 then ErrorReply 400
        else if length nullifierHex \<noteq> 64 then ErrorReply 400
        else (case hexDecode roundID of
           None \<Rightarrow> ErrorReply 400
         | Some _ \<Rightarrow>
             (case hexDecode nullifierHex of
                None \<Rightarrow> ErrorReply 400
              | Some nf \<Rightarrow>
                  if length nf \<noteq> 32 then ErrorReply 400
                  else (case a_shareNullifier A of
                     Some (Some checker) \<Rightarrow>
                       (case checker roundID nf of
                          None \<Rightarrow> ErrorReply 500
                        | Some onChain \<Rightarrow> JSONReply (if onChain then str ''confirmed'' else str ''pending''))
                   | _ \<Rightarrow> JSONReply (str ''pending'')))))"

definition handleStatus :: "('s, 'p) apiEnv \<Rightarrow> gostring reply" where
  "handleStatus A =
     (if \<not> ensureIngressAllowed A then ErrorReply 503
      else if \<not> a_hasStore A then ErrorReply 503
      else JSONReply (str ''ok''))"

definition handleQueueStatus :: "('s, 'p) apiEnv \<Rightarrow> database \<Rightarrow> time \<Rightarrow> gostring \<Rightarrow> shareStore \<Rightarrow>
    (gostring \<times> QueueStatus) list option reply" where
  "handleQueueStatus A db now token st =
     (if \<not> ensureIngressAllowed A then ErrorReply 503
      else if a_exposeQueueStatus A \<noteq> Some True then ErrorReply 404
      else if \<not> a_hasStore A then ErrorReply 503
      else if \<not> authorizeSubmit A token then ErrorReply 401
      else JSONReply (Status db now st))"

definition handleQueueSummary :: "('s, 'p) apiEnv \<Rightarrow> database \<Rightarrow> time \<Rightarrow> gostring \<Rightarrow> shareStore \<Rightarrow>
    QueueSummary reply \<times> shareStore" where
  "handleQueueSummary A db now roundVar st =
     (if a_exposeQueueSummary A \<noteq> Some True then (ErrorReply 404, st)
      else if \<not> a_hasStore A then (ErrorReply 503, st)
      else
        let roundID = ToLower (TrimSpace roundVar) in
        if length roundID \<noteq> 64 then (ErrorReply 400, st)
        else if hexDecode roundID = None then (ErrorReply 400, st)
        else (case QueueSummaryOf (a_fetch A) db roundID now st of
           (Inr summary, st) \<Rightarrow> (JSONReply summary, st)
         | (Inl (ReportErr e), st) \<Rightarrow>
             (ErrorReply (if e = ErrUnknownRound then 404 else if e = ErrInvalidRoundInfo then 400 else 500), st)
         | (Inl ReportPanic, st) \<Rightarrow> (PanicReply, st)))"

section \<open>What validation establishes\<close>

lemma hexDigit_no_colon: "n < 16 \<Longrightarrow> hexDigit n \<noteq> colon"
proof -
  have "list_all (\<lambda>n. hexDigit n \<noteq> colon) [0..<16]" by code_simp
  then show "n < 16 \<Longrightarrow> hexDigit n \<noteq> colon" by (simp add: list_all_iff)
qed

lemma hexEncode_no_colon: "colon \<notin> set (hexEncode r)"
proof -
  have "unat x div 16 < 16 \<and> unat x mod 16 < 16" for x :: u8
  proof -
    have "unat x < 2 ^ LENGTH(8)" by (rule unsigned_less)
    then show ?thesis by simp
  qed
  then show ?thesis using hexDigit_no_colon by (auto simp: hexEncode_def dest: sym)
qed

lemma validateB64Field_decodes: "validateB64Field v 32 \<Longrightarrow> \<exists>b. decodeBase64Array32 v = Some b \<and> base64Decode v = Some b \<and> length b = 32"
  by (auto simp: validateB64Field_def decodeBase64Array32_def split: option.splits)

lemma decodeComms_total: "list_all (\<lambda>c. validateB64Field c 32) cs \<Longrightarrow> \<exists>bs. decodeComms cs = Some bs"
  by (induction cs) (auto dest!: validateB64Field_decodes)

lemma decodeWitness_cong:
  assumes "sp_ShareComms p = sp_ShareComms q" "sp_PrimaryBlind p = sp_PrimaryBlind q" "sp_EncShare p = sp_EncShare q"
  shows "decodeWitness p = decodeWitness q"
  unfolding decodeWitness_def assms by (rule refl)

text \<open>An admitted payload: its fields decode, and its numbers are in range.\<close>

definition wellFormed :: "SharePayload \<Rightarrow> bytes \<Rightarrow> bool" where
  "wellFormed p r \<longleftrightarrow> sp_VoteRoundID p = hexEncode r \<and> length r = 32 \<and> decodeShareRoundID (sp_VoteRoundID p) = Some r \<and>
     decodeWitness p \<noteq> None \<and> decodeBase64Array32 (sp_SharesHash p) \<noteq> None \<and>
     unat (es_ShareIndex (sp_EncShare p)) < 16 \<and> unat (sp_VoteDecision p) < 8 \<and>
     1 \<le> unat (sp_ProposalID p) \<and> unat (sp_ProposalID p) \<le> 50 \<and> unat (sp_TreePosition p) < 2 ^ 32"

lemma validatePayload_wellFormed:
  assumes "validatePayload A q = Some p"
  shows "\<exists>r. hexDecode (sp_VoteRoundID q) = Some r \<and> p = q\<lparr>sp_VoteRoundID := hexEncode r\<rparr> \<and> wellFormed p r"
proof -
  from assms obtain r where f: "validateB64Field (sp_SharesHash q) 32" "validateB64Field (es_C1 (sp_EncShare q)) 32"
    "validateB64Field (es_C2 (sp_EncShare q)) 32" "validateB64Field (sp_PrimaryBlind q) 32"
    "list_all (\<lambda>c. validateB64Field c 32 \<and> validateCanonicalB64Field A c) (sp_ShareComms q)"
    and n: "length (sp_ShareComms q) = 16" "unat (es_ShareIndex (sp_EncShare q)) \<le> 15"
    "unat (sp_VoteDecision q) < 8" "sp_ProposalID q \<noteq> 0" "unat (sp_ProposalID q) \<le> 50" "sp_TreePosition q \<le> 2 ^ 32 - 1"
    and r: "hexDecode (sp_VoteRoundID q) = Some r" "length r = 32" and p: "p = q\<lparr>sp_VoteRoundID := hexEncode r\<rparr>"
    by (auto simp: validatePayload_def Let_def MaxShareIndex_def VoteCommitmentShareCount_def MaxVoteOptions_def
        MaxProposals_def MinProposalID_def MaxTreePosition_def not_le not_less
        split: if_splits option.splits sum.splits)
  have "list_all (\<lambda>c. validateB64Field c 32) (sp_ShareComms q)" using f(5) by (simp add: list_all_iff)
  from decodeComms_total[OF this] obtain bs where "decodeComms (sp_ShareComms q) = Some bs" by blast
  then have "decodeWitness q \<noteq> None"
    using n(1) f(2-4)[THEN validateB64Field_decodes] by (auto simp: decodeWitness_def)
  moreover have "decodeWitness p = decodeWitness q" unfolding p by (rule decodeWitness_cong) simp_all
  moreover have "decodeShareRoundID (hexEncode r) = Some r" using r(2) by (simp add: decodeShareRoundID_def hex_roundtrip)
  moreover have "unat (sp_TreePosition q) < 2 ^ 32" using n(6) by (simp add: word_le_nat_alt)
  moreover have "1 \<le> unat (sp_ProposalID q)" using n(4) unat_eq_zero[of "sp_ProposalID q"] by simp
  ultimately show ?thesis using r f(1)[THEN validateB64Field_decodes] n(2,3,5)
    by (intro exI[of _ r]) (auto simp: p wellFormed_def)
qed

section \<open>What the queue holds afterwards\<close>

lemma decodeRow_payloadRow:
  assumes "commsDecode E (commsEncode E (sp_ShareComms p)) = Some (sp_ShareComms p)"
    and "0 \<le> sint (ri_VoteEndTime info)" and "0 \<le> sint (effectiveSubmitAt t p info)"
  shows "decodeRow E (payloadKey p) (payloadRow E t p info (TextC retry)) =
    Inr \<lparr>qs_retryState = retry, qs_attemptID = 0, qs_Payload = p\<lparr>sp_SubmitAt := effectiveSubmitAt t p info\<rparr>,
         qs_State = ShareStateReceived, qs_Attempts = 0, qs_VoteEndTime = ri_VoteEndTime info\<rparr>"
proof -
  have vd: "decodeRowUint32 (IntC (ucast (sp_VoteDecision p))) = Inr (sp_VoteDecision p)"
  proof -
    have l: "uint (sp_VoteDecision p) < 2 ^ 32" "0 \<le> uint (sp_VoteDecision p)"
      using unsigned_less[of "sp_VoteDecision p"] by simp_all
    then have u: "uint (ucast (sp_VoteDecision p) :: u64) = uint (sp_VoteDecision p)"
      by (simp add: unsigned_ucast_eq take_bit_int_eq_self_iff)
    have "sint (word_of_int (uint (sp_VoteDecision p)) :: u64) = uint (sp_VoteDecision p)"
      by (rule sint_small) (use l in simp_all)
    then have "sint (ucast (sp_VoteDecision p) :: u64) = uint (sp_VoteDecision p)" by (simp only: ucast_eq)
    moreover have "ucast (ucast (sp_VoteDecision p) :: u64) = sp_VoteDecision p"  by (auto simp: bit_eq_iff bit_simps dest: bit_imp_le_length)
    ultimately show ?thesis using l by (simp add: decodeRowUint32_def u del: unsigned_ucast_eq)
  qed
  show ?thesis using assms vd
    by (cases p) (auto simp: decodeRow_def payloadKey_def payloadRow_def decodeRowInt_def shareStateOf_def)
qed

text \<open>The admission writes the row and schedules it, or changes nothing.\<close>

lemma enqueueLocked_effect:
  assumes run: "enqueueLocked E db t p info st = (result, st')" and db: "reportsWrites db (payloadKey p)"
  shows "(result \<noteq> Inr EnqueueInserted \<longrightarrow> st' = st) \<and>
    (result = Inr EnqueueInserted \<longrightarrow>
       (\<exists>retry. map_of (q_shares st') (payloadKey p) = Some (payloadRow E t p info retry) \<and>
          (retry = TextC [] \<or> (\<exists>row. map_of (q_shares st) (payloadKey p) = Some row \<and> retry = r_retry_state row))) \<and>
       waiting st' (schedKey (payloadKey p)))"
proof -
  define k where "k = payloadKey p"
  have unknown: "db OpInsert k \<noteq> DoneUnknown" "db OpReplace k \<noteq> DoneUnknown" using db by (simp_all add: reportsWrites_def k_def)
  show ?thesis
  proof (cases "map_of (q_shares st) k")
    case None
    then show ?thesis using run unknown
      by (cases "db OpInsert k")
         (auto simp: enqueueLocked_def Let_def k_def[symmetric] primitive_defs lookups map_add_def)
  next
    case (Some row)
    then show ?thesis using run unknown
      by (cases "db OpReplace k")
         (auto simp: enqueueLocked_def Let_def k_def[symmetric] primitive_defs lookups
           split: if_splits sum.splits loadErr.splits option.splits)
  qed
qed

text \<open>
  The round times the helper works with are stored as signed integers: the driver refuses
  larger ones.
\<close>

definition timesFit :: "fetcher \<Rightarrow> database \<Rightarrow> shareStore \<Rightarrow> bool" where
  "timesFit fetch db st \<longleftrightarrow>
     (\<forall>r info st1. getRoundInfo fetch db r st = (Inr info, st1) \<longrightarrow> 0 \<le> sint (ri_VoteEndTime info))"

text \<open>No row has anything but text as its retry progress.\<close>

definition retryTexts :: "shareStore \<Rightarrow> bool" where
  "retryTexts st \<longleftrightarrow> (\<forall>k row. map_of (q_shares st) k = Some row \<longrightarrow> (\<exists>s. r_retry_state row = TextC s))"

lemma effectiveSubmitAt_fits:
  assumes "validSubmitAt p info" and "0 \<le> sint (ri_VoteEndTime info)"
  shows "0 \<le> sint (effectiveSubmitAt t p info)"
proof -
  have fits: "0 \<le> sint x" if "x < ri_VoteEndTime info" for x :: u64
  proof -
    have "uint (word_of_int (sint (ri_VoteEndTime info)) :: u64) = sint (ri_VoteEndTime info) mod 2 ^ 64"
      by (simp only: uint_word_of_int) simp
    then have "uint (ri_VoteEndTime info) < 2 ^ 63"
      using assms(2) sint_lt[of "ri_VoteEndTime info"]
      unfolding scast_eq[of "ri_VoteEndTime info", symmetric] scast_id by simp
    then have "uint x < 2 ^ 63" using that by (simp add: word_less_def)
    from sint_small[OF _ this] show ?thesis by simp
  qed
  show ?thesis using assms(1) fits[of "sp_SubmitAt p"] fits[of "word_of_int (unixSeconds t)"]
    by (auto simp: effectiveSubmitAt_def validSubmitAt_def Let_def not_le)
qed

text \<open>A share the worker finds in the queue and can decode.\<close>

definition queuedFor :: "queueEnv \<Rightarrow> SharePayload \<Rightarrow> shareStore \<Rightarrow> bool" where
  "queuedFor E p st \<longleftrightarrow> received st (payloadKey p) \<and> waiting st (schedKey (payloadKey p)) \<and>
     (\<exists>row share submitAt. map_of (q_shares st) (payloadKey p) = Some row \<and> decodeRow E (payloadKey p) row = Inr share \<and>
        qs_Payload share = p\<lparr>sp_SubmitAt := submitAt\<rparr> \<and> decodeWitness (qs_Payload share) = decodeWitness p)"

lemma Enqueue_effect:
  assumes run: "Enqueue E fetch db t p st = (result, st')" and db: "reportsWrites db (payloadKey p)"
    and inv: "queueInv st" and c: "colon \<notin> set (sp_VoteRoundID p)"
    and comms: "\<forall>cs. commsDecode E (commsEncode E cs) = Some cs" and times: "timesFit fetch db st" and retry: "retryTexts st"
  shows "queueInv st'" and "result \<noteq> Inr EnqueueInserted \<Longrightarrow>
      q_shares st' = q_shares st \<and> q_schedule st' = q_schedule st \<and> q_inFlight st' = q_inFlight st"
    and "result = Inr EnqueueInserted \<Longrightarrow> queuedFor E p st'"
proof -
  obtain got st1 where got: "getRoundInfo fetch db (sp_VoteRoundID p) st = (got, st1)" by fastforce
  note keeps = getRoundInfo_keeps[OF got]
  have inv1: "queueInv st1" using queueInv_same[OF inv] keeps by simp
  show "queueInv st'"
  proof (cases got)
    case (Inr info)
    then show ?thesis using run got inv1 enqueueLocked_inv[OF inv1 c db, of E t info]
      by (simp add: Enqueue_def split: if_splits)
  qed (use run got inv1 in \<open>simp add: Enqueue_def\<close>)
  show "q_shares st' = q_shares st \<and> q_schedule st' = q_schedule st \<and> q_inFlight st' = q_inFlight st"
    if "result \<noteq> Inr EnqueueInserted"
    using run got keeps that by (cases got) (auto simp: Enqueue_def dest!: enqueueLocked_effect[OF _ db] split: if_splits)
  show "queuedFor E p st'" if "result = Inr EnqueueInserted"
  proof -
    from run got that obtain info where info: "got = Inr info" "validSubmitAt p info"
      and enq: "enqueueLocked E db t p info st1 = (result, st')"
      by (cases got) (auto simp: Enqueue_def split: if_splits)
    have v: "0 \<le> sint (ri_VoteEndTime info)" using times got info(1) by (auto simp: timesFit_def)
    from enqueueLocked_effect[OF enq db] that obtain rs where
      row: "map_of (q_shares st') (payloadKey p) = Some (payloadRow E t p info rs)" "waiting st' (schedKey (payloadKey p))"
      and rs: "rs = TextC [] \<or> (\<exists>row. map_of (q_shares st1) (payloadKey p) = Some row \<and> rs = r_retry_state row)" by blast
    from rs retry keeps(1) obtain s where s: "rs = TextC s" by (auto simp: retryTexts_def)
    note dec = decodeRow_payloadRow[OF comms[rule_format] v effectiveSubmitAt_fits[OF info(2) v], of t s]
    show ?thesis unfolding queuedFor_def
    proof (intro conjI exI)
      show "map_of (q_shares st') (payloadKey p) = Some (payloadRow E t p info (TextC s))"
        "map_of (q_shares st') (payloadKey p) = Some (payloadRow E t p info (TextC s))" using row(1) s by simp_all
      show "r_state (payloadRow E t p info (TextC s)) = IntC 0" by (simp add: payloadRow_def)
      show "waiting st' (schedKey (payloadKey p))" by (rule row(2))
      show "decodeRow E (payloadKey p) (payloadRow E t p info (TextC s)) = Inr \<lparr>qs_retryState = s, qs_attemptID = 0,
          qs_Payload = p\<lparr>sp_SubmitAt := effectiveSubmitAt t p info\<rparr>,
          qs_State = ShareStateReceived, qs_Attempts = 0, qs_VoteEndTime = ri_VoteEndTime info\<rparr>" by (rule dec)
    qed (auto intro: decodeWitness_cong)
  qed
qed

text \<open>What the configured checks found out about an accepted payload.\<close>

definition passedChecks :: "('s, 'p) apiEnv \<Rightarrow> SharePayload \<Rightarrow> bytes \<Rightarrow> bool" where
  "passedChecks A p r \<longleftrightarrow>
     (\<forall>f. a_roundStatus A = Some (Some f) \<longrightarrow> f (sp_VoteRoundID p) = Inr True) \<and>
     (\<forall>f. a_choiceValidator A = Some (Some f) \<longrightarrow> f (sp_VoteRoundID p) (sp_ProposalID p) (sp_VoteDecision p) = Inr ()) \<and>
     (\<forall>f. a_payloadValidator A = Some (Some f) \<longrightarrow> (\<exists>sharesHash comms blind c1 c2.
        decodeBase64Array32 (sp_SharesHash p) = Some sharesHash \<and> decodeWitness p = Some (comms, blind, c1, c2) \<and>
        f sharesHash comms blind c1 c2 (es_ShareIndex (sp_EncShare p)) = Some True)) \<and>
     (\<forall>f leafAt. a_vcHash A = Some (Some f) \<longrightarrow> a_tree A = Some (Some leafAt) \<longrightarrow> (\<exists>sharesHash commitment.
        decodeBase64Array32 (sp_SharesHash p) = Some sharesHash \<and>
        f r sharesHash (sp_ProposalID p) (sp_VoteDecision p) = Some commitment \<and>
        leafAt r (sp_TreePosition p) = Some (Some commitment)))"

lemma decodeComms_length: "decodeComms cs = Some bs \<Longrightarrow> length bs = length cs"
  by (induction cs arbitrary: bs) (auto split: option.splits)

lemma consistency_passed:
  assumes "wellFormed p r" and "validatePayloadConsistency A p = Inr ()" and "a_payloadValidator A = Some (Some f)"
  shows "\<exists>sharesHash comms blind c1 c2. decodeBase64Array32 (sp_SharesHash p) = Some sharesHash \<and>
    decodeWitness p = Some (comms, blind, c1, c2) \<and> f sharesHash comms blind c1 c2 (es_ShareIndex (sp_EncShare p)) = Some True"
proof -
  from assms(1) obtain comms blind c1 c2 sh where d: "decodeComms (sp_ShareComms p) = Some comms"
    "decodeBase64Array32 (sp_PrimaryBlind p) = Some blind" "decodeBase64Array32 (es_C1 (sp_EncShare p)) = Some c1"
    "decodeBase64Array32 (es_C2 (sp_EncShare p)) = Some c2" "decodeBase64Array32 (sp_SharesHash p) = Some sh"
    and n: "length (sp_ShareComms p) = 16"
    by (auto simp: wellFormed_def decodeWitness_def split: if_splits option.splits)
  have "f sh comms blind c1 c2 (es_ShareIndex (sp_EncShare p)) = Some True"
    using assms(2,3) d n decodeComms_length[OF d(1)]
    by (auto simp: validatePayloadConsistency_def checkPayloadConsistency_def VoteCommitmentShareCount_def Let_def
        split: option.splits if_splits)
  then show ?thesis using d n by (simp add: decodeWitness_def)
qed

lemma write32_exact: "length b = 32 \<Longrightarrow> write32 b = b"
  by (simp add: write32_def)

lemma commitment_passed:
  assumes "wellFormed p r" and "verifyCommitment A p = Inr ()"
    and "a_vcHash A = Some (Some f)" and "a_tree A = Some (Some leafAt)"
  shows "\<exists>sharesHash commitment. decodeBase64Array32 (sp_SharesHash p) = Some sharesHash \<and>
    f r sharesHash (sp_ProposalID p) (sp_VoteDecision p) = Some commitment \<and>
    leafAt r (sp_TreePosition p) = Some (Some commitment)"
proof -
  from assms(1) obtain sh where sh: "decodeBase64Array32 (sp_SharesHash p) = Some sh" by (auto simp: wellFormed_def)
  then have b: "base64Decode (sp_SharesHash p) = Some sh" "length sh = 32"
    by (auto simp: decodeBase64Array32_def split: option.splits if_splits)
  have r: "hexDecode (sp_VoteRoundID p) = Some r" "length r = 32" using assms(1) by (simp_all add: wellFormed_def hex_roundtrip)
  show ?thesis using assms(2-4) b r sh
    by (auto simp: verifyCommitment_def write32_exact split: option.splits if_splits)
qed

text \<open>What a submission that reaches the queue went through.\<close>

lemma handleSubmitShare_cases:
  assumes "handleSubmitShare A db now req st = (reply, st')"
  shows "st' = st \<and> reply \<notin> {Queued, Duplicate} \<or>
    (\<exists>q p r result. rq_body req = Inr q \<and> authorizeSubmit A (rq_token req) \<and> validatePayload A q = Some p \<and>
       wellFormed p r \<and> passedChecks A p r \<and> Enqueue (a_queue A) (a_fetch A) db now p st = (result, st') \<and>
       reply = enqueueReply result)"
proof -
  have replies: "bodyReply req e \<notin> {Queued, Duplicate}" "consistencyReply i \<notin> {Queued, Duplicate}"
    "choiceReply i \<notin> {Queued, Duplicate}" "commitmentReply i \<notin> {Queued, Duplicate}"
    "checkRoundStatus A p = Some reply' \<Longrightarrow> reply' \<notin> {Queued, Duplicate}" for e i p reply'
    by (auto simp: bodyReply_def consistencyReply_def choiceReply_def commitmentReply_def checkRoundStatus_def statusReply_def
        split: option.splits sum.splits if_splits)
  show ?thesis
  proof (cases "\<exists>q p. rq_body req = Inr q \<and> authorizeSubmit A (rq_token req) \<and> validatePayload A q = Some p \<and>
      validatePayloadConsistency A p = Inr () \<and> checkRoundStatus A p = None \<and> validateShareChoice A p = Inr () \<and>
      verifyCommitment A p = Inr () \<and> handleSubmitShare A db now req st =
        (case Enqueue (a_queue A) (a_fetch A) db now p st of (result, st) \<Rightarrow> (enqueueReply result, st))")
    case False
    then have "st' = st \<and> reply \<notin> {Queued, Duplicate}"
      using assms replies
      by (auto simp: handleSubmitShare_def split: if_splits sum.splits bodyEnd.splits option.splits)
    then show ?thesis by blast
  next
    case True
    then obtain q p where c: "rq_body req = Inr q" "authorizeSubmit A (rq_token req)" "validatePayload A q = Some p"
      "validatePayloadConsistency A p = Inr ()" "checkRoundStatus A p = None" "validateShareChoice A p = Inr ()"
      "verifyCommitment A p = Inr ()" and run: "handleSubmitShare A db now req st =
        (case Enqueue (a_queue A) (a_fetch A) db now p st of (result, st) \<Rightarrow> (enqueueReply result, st))" by blast
    from validatePayload_wellFormed[OF c(3)] obtain r where r: "wellFormed p r" by blast
    have "passedChecks A p r" unfolding passedChecks_def
      using consistency_passed[OF r c(4)] commitment_passed[OF r c(7)] c(5,6)
      by (auto simp: checkRoundStatus_def validateShareChoice_def split: sum.splits if_splits)
    then show ?thesis using c r run assms by (auto split: prod.splits)
  qed
qed

text \<open>
  C10. A share the helper accepts can be processed. Whatever the answer, the queue keeps its
  invariant, with no assumption on the round id: validation has put it into lower-case hex.
  Any answer but \<open>queued\<close> leaves the shares, the schedule and the owners as they were. After
  \<open>queued\<close>, the share is in the received state and scheduled under its key, its row decodes to
  the payload that was sent (with the effective submission time), the round id and every witness
  field the worker needs decode to 32 bytes, all numbers are in range, and the configured checks
  held: the round is active, the choice exists in it, the payload matches its commitments, and
  the vote commitment recomputed from the payload is the leaf at the claimed position. The
  assumptions are that the JSON of the commitments reads back, that the database reports the
  rows it writes, that stored times fit in a signed integer, and that retry progress is text.
\<close>

theorem admitted_share_processable:
  assumes inv: "queueInv st" and run: "handleSubmitShare A db now req st = (reply, st')"
    and writes: "\<forall>k. reportsWrites db k"
    and comms: "\<forall>cs. commsDecode (a_queue A) (commsEncode (a_queue A) cs) = Some cs"
    and times: "timesFit (a_fetch A) db st" and retry: "retryTexts st"
  shows "queueInv st' \<and>
    (reply \<noteq> Queued \<longrightarrow> q_shares st' = q_shares st \<and> q_schedule st' = q_schedule st \<and> q_inFlight st' = q_inFlight st) \<and>
    (reply = Queued \<longrightarrow> (\<exists>q p r. rq_body req = Inr q \<and> authorizeSubmit A (rq_token req) \<and>
       validatePayload A q = Some p \<and> wellFormed p r \<and> passedChecks A p r \<and> queuedFor (a_queue A) p st'))"
  using handleSubmitShare_cases[OF run]
proof
  assume "st' = st \<and> reply \<notin> {Queued, Duplicate}"
  then show ?thesis using inv by auto
next
  assume "\<exists>q p r result. rq_body req = Inr q \<and> authorizeSubmit A (rq_token req) \<and> validatePayload A q = Some p \<and>
       wellFormed p r \<and> passedChecks A p r \<and> Enqueue (a_queue A) (a_fetch A) db now p st = (result, st') \<and>
       reply = enqueueReply result"
  then obtain q p r result where c: "rq_body req = Inr q" "authorizeSubmit A (rq_token req)" "validatePayload A q = Some p"
    "wellFormed p r" "passedChecks A p r" and enq: "Enqueue (a_queue A) (a_fetch A) db now p st = (result, st')"
    and reply: "reply = enqueueReply result" by blast
  have colon: "colon \<notin> set (sp_VoteRoundID p)" using c(4) hexEncode_no_colon by (auto simp: wellFormed_def)
  note E = Enqueue_effect[OF enq writes[rule_format] inv colon comms times retry]
  have "reply = Queued \<longleftrightarrow> result = Inr EnqueueInserted"
    by (auto simp: reply enqueueReply_def split: sum.splits EnqueueResult.splits if_splits)
  then show ?thesis using E c by auto
qed

section \<open>A request that is accepted\<close>

lemma base64Char_value:
  assumes "n < 64"
  shows "base64Value (base64Char n) = Some n" "base64Char n \<noteq> 61" "base64Char n \<noteq> 10" "base64Char n \<noteq> 13"
proof -
  have "list_all (\<lambda>n. base64Value (base64Char n) = Some n \<and> base64Char n \<noteq> 61 \<and> base64Char n \<noteq> 10 \<and> base64Char n \<noteq> 13)
      [0..<64]" by code_simp
  with assms show "base64Value (base64Char n) = Some n" "base64Char n \<noteq> 61" "base64Char n \<noteq> 10" "base64Char n \<noteq> 13"
    by (simp_all add: list_all_iff)
qed

lemma byte_bound: "unat (x :: u8) < 256"
proof -
  have "unat x < 2 ^ LENGTH(8)" by (rule unsigned_less)
  then show ?thesis by simp
qed

lemma sextets:
  fixes a b c :: u8
  shows "unat a div 4 < 64" "unat a mod 4 * 16 < 64" "unat a mod 4 * 16 + unat b div 16 < 64" "unat b mod 16 * 4 < 64"
    "unat b mod 16 * 4 + unat c div 64 < 64" "unat c mod 64 < 64"
  using byte_bound[of a] byte_bound[of b] byte_bound[of c] by auto

lemma octets:
  fixes b c :: u8
  shows "unat b div 16 div 16 = 0" "unat b div 16 mod 16 = unat b div 16" "unat c div 64 div 4 = 0"
    "unat c div 64 mod 4 = unat c div 64" "word_of_nat (unat b div 16) * 16 + word_of_nat (unat b mod 16) = b"
    "word_of_nat (unat c div 64) * 64 + word_of_nat (unat c mod 64) = c"
proof -
  show "unat b div 16 div 16 = 0" "unat b div 16 mod 16 = unat b div 16" "unat c div 64 div 4 = 0"
    "unat c div 64 mod 4 = unat c div 64" using byte_bound[of b] byte_bound[of c] by (auto simp flip: div_mult2_eq)
  show "word_of_nat (unat b div 16) * 16 + word_of_nat (unat b mod 16) = b" using nibbles[of b] by (simp add: mult.commute)
  have "word_of_nat (unat c div 64) * 64 + word_of_nat (unat c mod 64) = (word_of_nat (unat c div 64 * 64 + unat c mod 64) :: u8)"
    by (simp only: of_nat_add of_nat_mult of_nat_numeral)
  then show "word_of_nat (unat c div 64) * 64 + word_of_nat (unat c mod 64) = c" by simp
qed

lemma base64_roundtrip: "base64Decode (base64Encode bs) = Some bs"
  unfolding base64Decode_def
  by (induction bs rule: base64Encode.induct)
     (simp_all add: base64Char_value sextets octets del: base64Value.simps)

text \<open>Lists of strings as one string, every byte marked and every string ended.\<close>

definition markString :: "gostring \<Rightarrow> gostring" where
  "markString s = concat (map (\<lambda>c. [1, c]) s) @ [0]"

fun unmark :: "gostring \<Rightarrow> gostring \<Rightarrow> gostring list option" where
  "unmark cur [] = (if cur = [] then Some [] else None)"
| "unmark cur [c] = (if c = 0 then Some [cur] else None)"
| "unmark cur (c # d # cs) =
     (if c = 0 then map_option ((#) cur) (unmark [] (d # cs)) else unmark (cur @ [d]) cs)"

lemma unmark_string: "unmark cur (concat (map (\<lambda>c. [1, c]) s) @ 0 # cs) = map_option ((#) (cur @ s)) (unmark [] cs)"
  by (induction s arbitrary: cur) (cases cs; simp)+

lemma unmark_mark: "unmark [] (concat (map markString ss)) = Some ss"
  by (induction ss) (simp_all add: markString_def unmark_string)

definition ingressQueue :: queueEnv where
  "ingressQueue = sampleQueueEnv\<lparr>commsEncode := \<lambda>cs. concat (map markString cs), commsDecode := unmark []\<rparr>"

definition pointText :: "u8 \<Rightarrow> gostring" where
  "pointText c = base64Encode (c # replicate 31 0)"

definition ingressPayload :: SharePayload where
  "ingressPayload = \<lparr>sp_SharesHash = pointText 9, sp_ProposalID = 1, sp_VoteDecision = 0,
     sp_EncShare = \<lparr>es_C1 = pointText 2, es_C2 = pointText 5, es_ShareIndex = 2\<rparr>, sp_TreePosition = 7,
     sp_VoteRoundID = str ''AB'' @ replicate 62 48, sp_ShareComms = replicate 16 (pointText 1),
     sp_PrimaryBlind = pointText 3, sp_SubmitAt = 5\<rparr>"

definition ingressEnv :: "(f7, f7) apiEnv" where
  "ingressEnv = \<lparr>a_ingressAllowed = Some True, a_hasStore = True, a_token = str ''secret'',
     a_exposeQueueStatus = None, a_exposeQueueSummary = Some True, a_queue = ingressQueue,
     a_fetch = Some (\<lambda>_. Inr \<lparr>ri_CreatedAtTime = 1, ri_VoteEndTime = 60\<rparr>), a_curve = curve7,
     a_canonicalFp = (\<lambda>b. last b < 64), a_payloadValidator = Some (Some (\<lambda>_ _ _ _ _ _. Some True)),
     a_roundStatus = Some (Some (\<lambda>_. Inr True)),
     a_choiceValidator = Some (Some (\<lambda>_ p d. if p = 1 \<and> d < 3 then Inr () else Inl InvalidRoundChoice)),
     a_vcHash = Some (Some (\<lambda>r h p d. Some h)),
     a_tree = Some (Some (\<lambda>r pos. Some (if pos = 7 then Some (9 # replicate 31 0) else None))),
     a_shareNullifier = None\<rparr>"

definition ingressRequest :: shareRequest where
  "ingressRequest = \<lparr>rq_token = str ''secret'', rq_attempts = [], rq_body = Inr ingressPayload, rq_bodyEnd = AtEOF\<rparr>"

lemma pointText_decodes: "base64Decode (pointText c) = Some (c # replicate 31 0)"
  "decodeBase64Array32 (pointText c) = Some (c # replicate 31 0)"
  by (simp_all add: pointText_def base64_roundtrip decodeBase64Array32_def)

lemma ingressPayload_valid:
  "validatePayload ingressEnv ingressPayload = Some (ingressPayload\<lparr>sp_VoteRoundID := hexEncode (0xAB # replicate 31 0)\<rparr>)"
proof -
  have "UnmarshalCiphertext curve7 ((2 # replicate 31 0) @ (5 # replicate 31 0)) = Inr \<lparr>C1 = F2, C2 = F5\<rparr>" by code_simp
  moreover have "hexDecode (str ''AB'' @ replicate 62 48) = Some (0xAB # replicate 31 0)" by code_simp
  moreover have "F2 \<noteq> 0" "F5 \<noteq> 0" by code_simp+
  ultimately show ?thesis
    by (simp add: validatePayload_def ingressPayload_def ingressEnv_def validateB64Field_def
        validateCanonicalB64Field_def pointText_decodes Let_def MaxShareIndex_def VoteCommitmentShareCount_def
        MaxVoteOptions_def MaxProposals_def MinProposalID_def MaxTreePosition_def list_all_iff)
qed

lemma ingressRequest_queued:
  "fst (handleSubmitShare ingressEnv (\<lambda>_ _. Done) (4 * Second) ingressRequest (emptyStore [] [])) = Queued"
proof -
  let ?p = "ingressPayload\<lparr>sp_VoteRoundID := hexEncode (0xAB # replicate 31 0)\<rparr>"
  have "decodeComms (replicate n (pointText c)) = Some (replicate n (c # replicate 31 0))" for n c
    by (induction n) (simp_all add: pointText_decodes)
  then have "validatePayloadConsistency ingressEnv ?p = Inr ()"
    by (simp add: validatePayloadConsistency_def checkPayloadConsistency_def ingressEnv_def ingressPayload_def
        pointText_decodes VoteCommitmentShareCount_def)
  moreover have "verifyCommitment ingressEnv ?p = Inr ()"
    by (simp add: verifyCommitment_def ingressEnv_def ingressPayload_def pointText_decodes hex_roundtrip write32_def)
  moreover have "checkRoundStatus ingressEnv ?p = None" "validateShareChoice ingressEnv ?p = Inr ()"
    "ensureIngressAllowed ingressEnv" "a_hasStore ingressEnv" "authorizeSubmit ingressEnv (rq_token ingressRequest)"
    "rq_body ingressRequest = Inr ingressPayload" "rq_bodyEnd ingressRequest = AtEOF"
    by (simp_all add: checkRoundStatus_def validateShareChoice_def ensureIngressAllowed_def authorizeSubmit_def
        ingressEnv_def ingressRequest_def ingressPayload_def)
  moreover have "fst (Enqueue (a_queue ingressEnv) (a_fetch ingressEnv) (\<lambda>_ _. Done) (4 * Second) ?p (emptyStore [] [])) =
      Inr EnqueueInserted"
    by (simp add: Enqueue_def ingressEnv_def getRoundInfo_def cachedRoundInfo_def cacheFetchedRoundInfo_def
        emptyStore_def Let_def enqueueLocked_def validSubmitAt_def ingressPayload_def)
  ultimately show ?thesis
    by (auto simp: handleSubmitShare_def ingressPayload_valid enqueueReply_def split: prod.split)
qed

theorem admitted_share_processable_witness:
  "\<exists>p r. validatePayload ingressEnv ingressPayload = Some p \<and> wellFormed p r \<and>
     passedChecks ingressEnv p r \<and> queuedFor ingressQueue p
       (snd (handleSubmitShare ingressEnv (\<lambda>_ _. Done) (4 * Second) ingressRequest (emptyStore [] [])))"
proof -
  define out where "out = handleSubmitShare ingressEnv (\<lambda>_ _. Done) (4 * Second) ingressRequest (emptyStore [] [])"
  have run: "handleSubmitShare ingressEnv (\<lambda>_ _. Done) (4 * Second) ingressRequest (emptyStore [] []) = (Queued, snd out)"
    using ingressRequest_queued by (simp add: out_def prod_eq_iff)
  have inv: "queueInv (emptyStore [] [])" by (simp add: queueInv_def emptyStore_def)
  have times: "timesFit (a_fetch ingressEnv) (\<lambda>_ _. Done) (emptyStore [] [])"
    by (auto simp: timesFit_def ingressEnv_def getRoundInfo_def cachedRoundInfo_def cacheFetchedRoundInfo_def
        emptyStore_def Let_def)
  have retry: "retryTexts (emptyStore [] [])" by (simp add: retryTexts_def emptyStore_def)
  have q: "a_queue ingressEnv = ingressQueue" "rq_body ingressRequest = Inr ingressPayload"
    by (simp_all add: ingressEnv_def ingressRequest_def)
  have comms: "\<forall>cs. commsDecode (a_queue ingressEnv) (commsEncode (a_queue ingressEnv) cs) = Some cs"
    by (simp add: q ingressQueue_def unmark_mark)
  show ?thesis
    using admitted_share_processable[OF inv run _ comms times retry] q by (auto simp: reportsWrites_def out_def)
qed

end
