(* ===== verification/Spec2Isabelle.thy ===== *)
theory Spec2Isabelle
  imports Leaf_Pages Genesis_Import Share_Ingress
begin

text \<open>
  \<^bold>\<open>The program.\<close> The repository is a blockchain for private voting. A round is created by
  coordinators; validators generate a shared decryption key for it; voters delegate, cast
  encrypted votes and reveal encrypted shares; the chain adds the shares up homomorphically;
  after the vote the validators publish partial decryptions and a proposer publishes the
  tally. Its parts are

  \<^item> the vote module (\<^verbatim>\<open>src/x/vote\<close>): the data model and its validation (\<^verbatim>\<open>types\<close>), the keeper
    that owns the store (\<^verbatim>\<open>keeper\<close>), the message handlers and queries on top of it, the
    validation pipeline that runs before a handler (\<^verbatim>\<open>ante\<close>) and the work at the end of
    every block (\<^verbatim>\<open>module.go\<close>);
  \<^item> the cryptography the module executes (\<^verbatim>\<open>src/crypto\<close>): ElGamal, discrete logarithms,
    proofs of equal logarithms, Shamir and Feldman secret sharing, hybrid encryption;
  \<^item> the application (\<^verbatim>\<open>src/app\<close>, \<^verbatim>\<open>src/api\<close>): transaction encoding, the ante handler, and the
    handlers with which a proposer adds transactions to a block and a validator checks them;
  \<^item> the helper server (\<^verbatim>\<open>src/internal/helper\<close>): a queue of shares in a database, workers
    that prove and submit them, and the HTTP handlers that admit them.

  A transaction is decoded (\<open>Codec\<close>), validated against the store (\<open>Ante\<close>), and executed by a
  handler (\<open>Msg_Voting\<close>, \<open>Msg_Ceremony\<close>, \<open>Msg_Tally\<close>, \<open>Msg_Coordinator\<close>), which works only
  through keeper methods (\<open>Keeper_*\<close>) on one key-value store (\<open>KV_Store\<close>, \<open>Vote_Keys\<close>).
  \<open>End_Block\<close> moves rounds on when their time is over. \<open>Proposal\<close> and \<open>Injectors\<close> produce and
  check the transactions validators owe the ceremony and the tally. The helper server is a
  client of the chain.

  \<^bold>\<open>How the code is translated.\<close> Go integers keep their width as words (\<open>u8\<close>, \<open>u32\<close>, \<open>u64\<close>)
  wherever they can wrap; \<^verbatim>\<open>int\<close> is \<open>int\<close> where lengths bound it. Byte slices and strings are
  lists of bytes. A method that can fail and writes to the store is a function from the state
  to a result and the next state (\<open>('s, 'a) M\<close>, with \<open>bindM\<close> and \<open>failIf\<close>), so the writes
  made before an error are part of the model; each sentinel error of \<^verbatim>\<open>types/errors.go\<close> has a
  constructor of \<open>verr\<close>. A panic is a result of its own where the code can reach one. Messages
  and stored values are records with the fields of the \<^verbatim>\<open>.proto\<close> files, enums are datatypes. Every definition
  that models code is executable, and the witnesses evaluate the definitions on concrete
  inputs. A loop is a structural recursion on the list it ranges over or on its counter, or a
  recursive function with a termination proof (the search for a due slot, the backoff, the
  round-robin dispatch of the queue, the trimming of strings), so every modelled operation is
  total and none needs a fuel argument.

  \<^bold>\<open>The theories.\<close>

  Foundations:
  \<^item> \<open>Vote_Prelude\<close>: machine types, errors, the state-and-error monad and its rules.
  \<^item> \<open>KV_Store\<close>: the store as a sorted association list; the locale \<open>kv_store\<close> states what the
    code relies on of a store, and is interpreted on the model.
  \<^item> \<open>Vote_Keys\<close>: the key constructors of \<^verbatim>\<open>types/keys.go\<close>; the locale \<open>keyspace\<close> states that a
    family of keys is injective and has its own prefix, and is interpreted for each family, so
    that no two tables of the store overlap.
  \<^item> \<open>Vote_Types\<close>: the protobuf data model and the codecs of stored values.
  \<^item> \<open>Vote_Msgs\<close>: \<^verbatim>\<open>ValidateBasic\<close> of every message and the signed byte strings.
  \<^item> \<open>Vote_World\<close>: the staking, slashing, account and upgrade keepers and the tree library as
    records of functions, and the state they and the module share.

  Keeper (\<^verbatim>\<open>src/x/vote/keeper/keeper*.go\<close>):
  \<^item> \<open>Keeper_Rounds\<close>: rounds, ceremony log and thresholds; \<open>kv_wf\<close>, the typing of the store.
  \<^item> \<open>Keeper_Voting\<close>: nullifiers, commitment leaves and block indices, checks of round and
    proposal. Appending a commitment refines appending to a list.
  \<^item> \<open>Keeper_Tally\<close>: accumulators, share counts, results, partial decryptions. Adding a share
    refines the addition of ciphertexts.
  \<^item> \<open>Keeper_Registry\<close>: vote managers, coordinator actions, endorsers and the one-to-one
    registry of validator keys.
  \<^item> \<open>Keeper_Tree\<close>: the in-memory trees, and that the root written at the end of a block is the
    root of exactly the leaves stored, whatever restarts happened in between.

  Cryptography (\<^verbatim>\<open>src/crypto\<close>):
  \<^item> \<open>Curve\<close> and \<open>Curve_Sample\<close>: the curve library as a parameter with its laws \<open>curve_ok\<close>, and
    a concrete instance on which the witnesses compute.
  \<^item> \<open>Shamir\<close>: sharing, Lagrange interpolation, Feldman commitments and threshold decryption;
    any sufficiently large set of shares recovers the secret, and the joint key generation is
    consistent with its combined commitments.
  \<^item> \<open>ElGamal\<close>: encryption and homomorphic addition, baby-step-giant-step equal to the search it
    replaces, and completeness and special soundness of the proofs.
  \<^item> \<open>Ecies\<close>: the encryption of shares from dealer to validator.

  Handlers (\<^verbatim>\<open>src/x/vote/keeper/msg_server*.go\<close>, \<^verbatim>\<open>query_server.go\<close>, \<^verbatim>\<open>genesis.go\<close>):
  \<^item> \<open>Msg_Voting\<close>: delegations, votes, batches and share reveals; a share counts once, and a
    batch that succeeds spends and appends exactly what its votes say.
  \<^item> \<open>Msg_Ceremony\<close> and \<open>Ceremony_Invariant\<close>: validator keys, round creation, key generation
    and acknowledgements; \<open>ceremony_ok\<close> is what a stored round promises about its ceremony.
  \<^item> \<open>End_Block\<close>: the end of a block; the transitions of a round refine an abstract step
    relation, and a confirmed round can still be decrypted.
  \<^item> \<open>Msg_Tally\<close>: partial decryptions and the tally; an accepted tally is the decryption of the
    accumulators.
  \<^item> \<open>Msg_Coordinator\<close>: proposals and approvals of coordinators, endorsements; nothing is
    executed without a quorum of current managers, and the quorum stays reachable.
  \<^item> \<open>Query_Server\<close> and \<open>Leaf_Pages\<close>: every query, exact with respect to the store, and the
    completeness of paging through commitment leaves.
  \<^item> \<open>Genesis\<close>, \<open>Genesis_Roundtrip\<close>, \<open>Genesis_Import\<close>: export, import and validation; an
    exported store is imported as it was, and a validated state imports into a typed store.

  Application (\<^verbatim>\<open>src/x/vote/ante\<close>, \<^verbatim>\<open>src/api\<close>, \<^verbatim>\<open>src/app\<close>):
  \<^item> \<open>Ante\<close>: the checks before a handler; a message they accept is executed successfully on the
    same store, and the proofs of a batch are chained.
  \<^item> \<open>Codec\<close>: the wire format and the ante handler; encoding and decoding are inverse, and no
    ceremony message passes without its validator's authority.
  \<^item> \<open>Proposal\<close> and \<open>Injectors\<close>: what a proposer prepares and what a validator accepts. The
    locale \<open>injector\<close> states what one handler of the chain may do to the list of transactions,
    the locale \<open>proposal\<close> composes them; both are interpreted on the handlers of \<^verbatim>\<open>src/app\<close>.
    A prepared proposal is accepted.
  \<^item> \<open>Key_Delivery\<close> and \<open>Partial_Delivery\<close>: an honest validator's acknowledgement and partial
    decryptions are accepted by the chain; with \<open>Proposal.honest_tally_finalizes\<close> this leads
    from the key generation to the tally.

  Helper server (\<^verbatim>\<open>src/internal/helper\<close>):
  \<^item> \<open>Retry_Schedule\<close>: when a share is tried, at most how often, and until when.
  \<^item> \<open>Share_Queue\<close>, \<open>Queue_Invariant\<close>, \<open>Queue_Rescue\<close>: \<^verbatim>\<open>store.go\<close>; \<open>queueInv\<close> says that every
    received share is scheduled or held by exactly one worker, and every operation keeps it,
    whichever statement of the database fails.
  \<^item> \<open>Share_Processor\<close>: \<^verbatim>\<open>processor.go\<close>; whatever happens to a worker, its share is settled.
  \<^item> \<open>Queue_Report\<close>: the status and the public histogram, whose buckets partition the round.
  \<^item> \<open>Share_Ingress\<close>: \<^verbatim>\<open>api.go\<close>; a share answered as queued passed every check and lies in the
    queue in a form a worker can process.

  \<^bold>\<open>Parameters and hypotheses.\<close> Code outside the sources is an argument of the definitions that
  use it, and the properties name what they rely on:
  \<^item> the curve library (\<open>curve_ok\<close>: a prime-order group with a 32-byte encoding that decodes
    what it encodes) and the hash functions, as arbitrary functions;
  \<^item> the tree library (\<open>tree_ok\<close>: its roots are those of the leaves it was given;
    \<open>tree_frame\<close>: it writes only under the round's shard prefix; \<open>tree_total\<close>: it does not fail);
  \<^item> the proof verifiers (\<open>verifiers\<close>), as arbitrary functions;
  \<^item> protobuf (\<open>proto_ok\<close>: unmarshalling inverts marshalling), the cipher of the hybrid
    encryption (\<open>aead_ok\<close>), the address codec (\<open>canonical_ok\<close>, and that it refuses the empty
    string), the SDK's ante decorators (\<open>passes_on\<close>);
  \<^item> the order in which Go visits a map (\<open>range_ok\<close>: every entry once), random numbers, the file
    system of a validator (\<open>fsOps\<close>) and the clock, as arguments;
  \<^item> the outcome of every database statement (\<open>database\<close>: done, not done, or done with an
    unreadable count of rows, excluded by \<open>reportsWrites\<close> where that count decides), the chain
    a helper sees (\<open>procEnv\<close>, \<open>observation\<close>, \<open>apiEnv\<close>), and JSON;
  \<^item> bounds: \<open>bsgs_ok\<close> holds of a table bound for which the search is exact; \<open>timesFit\<close> says that
    round times fit the signed integers of the database; \<open>retryTexts\<close>, \<open>blockIndex_ok\<close> and
    \<open>exportable\<close> describe stores the program writes.

  \<^bold>\<open>Not modelled.\<close> The administration service (\<^verbatim>\<open>src/internal/admin\<close>), the command-line clients
  and daemons, and the routes of the REST gateway (\<^verbatim>\<open>src/api/handler.go\<close>), which carry no state
  of the vote; the goroutines, configuration, metrics and expiry alerts of the helper, and the
  schema migrations, file lock and journal of its database; the Rust circuits and tree behind
  \<^verbatim>\<open>src/ffi\<close>; test support. Within the modelled code, events, logs, metrics and gas are left
  out, and the SDK's discarding of the writes of a failed message is not applied, so that the
  properties speak about what a handler itself wrote.
\<close>

end
